(* ===== verification/FDPrelude.thy ===== *)
theory FDPrelude
  imports Main "HOL-Library.Multiset" "HOL-Library.AList"
begin

text \<open>
  Shared vocabulary of the development.

  A Python method that may raise and that mutates its object is modelled as a function that
  returns both an outcome (\<open>Inl\<close> an exception, \<open>Inr\<close> a value) and the state it
  leaves behind: an exception does not undo the writes made before it. \<open>andthen\<close> sequences two
  such steps. \<open>NoReturn\<close> stands for a call that does not return (an unbounded loop).
\<close>

datatype py_error =
    AssertionError | IndexError | KeyError | AttributeError | TypeError
  | ValueError | RuntimeError | ZeroDivisionError | EngineError | PyException | NoReturn

type_synonym 'a res = "py_error + 'a"
type_synonym ('s, 'a) outcome = "'a res \<times> 's"
type_synonym req_id = string
type_synonym block_id = int
type_synonym token = int

definition andthen :: "('s, 'a) outcome \<Rightarrow> ('a \<Rightarrow> 's \<Rightarrow> ('s, 'b) outcome) \<Rightarrow> ('s, 'b) outcome" where
  "andthen m k = (case m of (Inl e, s) \<Rightarrow> (Inl e, s) | (Inr x, s) \<Rightarrow> k x s)"

lemma andthen_simps [simp]:
  "andthen (Inl e, s) k = (Inl e, s)"
  "andthen (Inr x, s) k = k x s"
  by (simp_all add: andthen_def)

lemma andthen_InrE:
  assumes "andthen m k = (Inr y, s')"
  obtains x s where "m = (Inr x, s)" and "k x s = (Inr y, s')"
  using assms by (auto simp: andthen_def split: prod.splits sum.splits)

lemma andthen_eq_Inr:
  "andthen m k = (Inr y, s') \<longleftrightarrow> (\<exists>x s. m = (Inr x, s) \<and> k x s = (Inr y, s'))"
  by (auto simp: andthen_def split: prod.splits sum.splits)

lemma snd_andthen:
  "(\<And>x s. m = (Inr x, s) \<Longrightarrow> P (snd (k x s))) \<Longrightarrow> (\<And>e s. m = (Inl e, s) \<Longrightarrow> P s) \<Longrightarrow> P (snd (andthen m k))"
  by (auto simp: andthen_def split: prod.splits sum.splits)

lemma snd_andthen_keeps:
  assumes "P (snd m)" and "\<And>x s. P s \<Longrightarrow> P (snd (k x s))"
  shows "P (snd (andthen m k))"
  using assms by (cases m; cases "fst m") auto

text \<open>The facts every conservation proof uses: multisets of blocks and sums over lists.\<close>

named_theorems block_simps \<open>effect of an operation on the block accounts\<close>

lemma mset_take_drop [block_simps]: "mset (take n xs) + mset (drop n xs) = mset xs"
  by (metis append_take_drop_id mset_append)

lemma mset_drop_take [block_simps]: "mset (drop n xs) + mset (take n xs) = mset xs"
  by (metis add.commute mset_take_drop)

lemma sum_list_update_mset:
  fixes f :: "'a \<Rightarrow> 'b multiset"
  assumes "i < length xs"
  shows "sum_list (map f (xs[i := y])) + f (xs ! i) = sum_list (map f xs) + f y"
  using assms
proof (induction xs arbitrary: i)
  case Nil
  then show ?case by simp
next
  case (Cons x xs)
  then show ?case by (cases i) (auto simp: ac_simps)
qed

lemma sum_list_update_same:
  fixes f :: "'a \<Rightarrow> 'b multiset"
  assumes "i < length xs" "f y = f (xs ! i)"
  shows "sum_list (map f (xs[i := y])) = sum_list (map f xs)"
  using sum_list_update_mset [OF assms(1), of f y] assms(2) by simp

lemma sum_list_update_nat:
  fixes f :: "'a \<Rightarrow> nat"
  assumes "i < length xs"
  shows "sum_list (map f (xs[i := y])) + f (xs ! i) = sum_list (map f xs) + f y"
  using assms
proof (induction xs arbitrary: i)
  case Nil
  then show ?case by simp
next
  case (Cons x xs)
  then show ?case by (cases i) auto
qed

text \<open>Ceiling division, as every block count of the code is computed.\<close>

lemma ceil_div_le:
  fixes a b :: int
  assumes "0 < b"
  shows "a \<le> ((a + b - 1) div b) * b"
proof -
  have "(a + b - 1) mod b < b" using assms by simp
  moreover have "((a + b - 1) div b) * b + (a + b - 1) mod b = a + b - 1"
    by (rule div_mult_mod_eq)
  ultimately show ?thesis by linarith
qed

lemma ceil_div_least:
  fixes a b k :: int
  assumes "0 < b" "a \<le> k * b"
  shows "(a + b - 1) div b \<le> k"
proof -
  have "(a + b - 1) div b \<le> (b - 1 + k * b) div b"
    using assms by (intro zdiv_mono1) auto
  also have "\<dots> = k + (b - 1) div b"
    using assms(1) by (subst div_mult_self1) auto
  also have "\<dots> = k"
    using assms(1) by (simp add: div_pos_pos_trivial)
  finally show ?thesis .
qed

end
