(* ===== verification/EngineRequest.thy ===== *)
theory EngineRequest
  imports FDPrelude
begin

text \<open>
  A request as the schedulers see it (\<open>engine/request.py\<close>): the fields they read or write. The texts,
  sampling parameters pass through them unread and are left out, except for the seed, which the resource
  manager fills in. The constructor is given with an empty list of stop tokens, the front end fills it in; of the
  plan for chunked prefill only the number of chunks is kept. An attribute the constructor does not set is \<open>None\<close>
  until it is set; \<open>token_limits\<close> are \<open>max_tokens\<close> and \<open>min_tokens\<close> where an instance that only prefills sets them.
\<close>

datatype RequestStatus = WAITING | RUNNING | PREEMPTED | FINISHED

datatype RequestType = PREFILL | DECODE | PREEMPT

text \<open>Where the cache of a request is, when one instance prefills and another decodes.\<close>

record ipc_place =
  ipc_port :: int
  ipc_current_id :: "int option"

record rdma_place =
  rdma_ip :: string
  rdma_port :: string
  rdma_current_id :: "int option"

record cache_place =
  ipc_part :: "ipc_place option"
  rdma_part :: "rdma_place option"

record disaggregate =
  role :: string
  shared_block_tables :: "block_id list option"
  transfer_protocol :: string
  cache_place :: cache_place

text \<open>The multimodal inputs the second scheduler looks at: the image grids are triples of sizes.\<close>

record mm_inputs =
  images :: bool
  image_patch_id :: token
  grid_thw :: "(int \<times> int \<times> int) list"

record Request =
  request_id :: req_id
  prompt_token_ids :: "token list"
  prompt_token_ids_len :: int
  num_cached_tokens :: int
  disaggregate_info :: "disaggregate option"
  seed :: "int option"
  block_tables :: "block_id list"
  output_token_ids :: "token list"
  num_computed_tokens :: int
  status :: RequestStatus
  task_type :: RequestType
  idx :: "nat option"
  need_prefill_tokens :: int
  need_block_tables :: "block_id list option"
  seq_lens_decoder :: "int option"
  req_cache_info :: "(int \<times> int) option"
  gpu_cache_token_num :: "int option"
  cpu_cache_token_num :: "int option"
  prefill_block_num :: "int option"
  skip_allocate :: "bool option"
  prefill_range :: "(int \<times> int) option"
  inference_start_time :: "int option"
  tokens_all_num :: "int option"
  multimodal_inputs :: "mm_inputs option"
  multimodal_img_boundaries :: "(int list \<times> int list) option"
  with_image :: "bool option"
  num_image_range :: "int option \<times> int option"
  image_type_ids_range :: "(int \<times> int) option"
  image_range :: "(int \<times> int) option"
  eos_token_ids :: "token list"
  prefill_chunk_info :: "nat option"
  prefill_chunk_num :: nat
  request_draft_ids :: "token list option"
  token_limits :: "(int \<times> int) option"

definition new_Request :: "req_id \<Rightarrow> token list \<Rightarrow> int \<Rightarrow> int option \<Rightarrow> disaggregate option \<Rightarrow> Request" where
  "new_Request rid toks n sd dis =
     \<lparr>request_id = rid, prompt_token_ids = toks, prompt_token_ids_len = n, num_cached_tokens = 0,
      disaggregate_info = dis, seed = sd, block_tables = [], output_token_ids = [],
      num_computed_tokens = 0, status = WAITING, task_type = PREFILL, idx = None,
      need_prefill_tokens = n, need_block_tables = None, seq_lens_decoder = None,
      req_cache_info = None, gpu_cache_token_num = None, cpu_cache_token_num = None,
      prefill_block_num = None, skip_allocate = None, prefill_range = None,
      inference_start_time = None, tokens_all_num = None, multimodal_inputs = None,
      multimodal_img_boundaries = None, with_image = None, num_image_range = (None, None),
      image_type_ids_range = None, image_range = None, eos_token_ids = [], prefill_chunk_info = None,
      prefill_chunk_num = 0, request_draft_ids = None, token_limits = None\<rparr>"

text \<open>A result (\<open>RequestOutput\<close> with its \<open>CompletionOutput\<close>) as the engine sees it.\<close>

record tp_result =
  tp_request_id :: req_id
  tp_index :: nat
  tp_send_idx :: nat
  tp_token_ids :: "token list"
  tp_draft_token_ids :: "token list option"
  tp_finished :: bool
  tp_num_cached_tokens :: int
  tp_error_code :: int
  tp_error_msg :: "string option"

definition num_total_tokens :: "Request \<Rightarrow> int" where
  "num_total_tokens r = prompt_token_ids_len r + int (length (output_token_ids r))"

text \<open>\<open>__eq__\<close>: requests are compared by their id.\<close>

definition request_eq :: "Request \<Rightarrow> Request \<Rightarrow> bool" where
  "request_eq a b = (request_id a = request_id b)"

end
