(* ===== verification/CacheData.thy ===== *)
theory CacheData
  imports FDPrelude
begin

text \<open>
  The radix-tree nodes of the prefix cache (\<open>cache_manager/cache_data.py\<close>). A Python
  \<open>BlockNode\<close> is a mutable object reached through references; here an object is an index into a
  store (a list of nodes), so \<open>parent\<close> and \<open>children\<close> hold indices and two references are the same
  object exactly if the indices are equal (the class has no \<open>__eq__\<close>). Objects are never removed
  from the store. Clock readings are integers.
\<close>

datatype CacheStatus = GPU | SWAP2CPU | SWAP2GPU | CPU

type_synonym ref = nat

record BlockNode =
  node_id :: int
  depth :: int
  parent :: "ref option"
  hash_value :: "int option"
  token_num :: int
  input_ids :: "token list"
  input_hash_value :: int
  children :: "(int \<times> ref) list"
  shared_count :: int
  last_used_time :: "int option"
  block_id :: block_id
  reverved_dec_block_ids :: "block_id list"
  cache_status :: CacheStatus
  is_persistent :: bool
  persistent_shared_count :: int
  req_id_set :: "req_id set"

text \<open>The constructor with its defaults for \<open>shared_count\<close> and the following arguments.\<close>

definition new_BlockNode ::
  "int \<Rightarrow> token list \<Rightarrow> int \<Rightarrow> int \<Rightarrow> block_id \<Rightarrow> int \<Rightarrow> int option \<Rightarrow> int option \<Rightarrow> ref option \<Rightarrow> BlockNode" where
  "new_BlockNode nid ids ihash dep blk tnum hv now par =
     \<lparr>node_id = nid, depth = dep, parent = par, hash_value = hv, token_num = tnum,
      input_ids = ids, input_hash_value = ihash, children = [], shared_count = 1,
      last_used_time = now, block_id = blk, reverved_dec_block_ids = [], cache_status = GPU,
      is_persistent = False, persistent_shared_count = 0, req_id_set = {}\<rparr>"

text \<open>
  \<open>__lt__\<close>: older first, deeper first among equally old nodes. The root, whose time is \<open>None\<close>, is
  never put into a heap, so the comparison of a missing time (a \<open>TypeError\<close>) is not reached.
\<close>

definition node_lt :: "BlockNode \<Rightarrow> BlockNode \<Rightarrow> bool" where
  "node_lt a b =
     (case (last_used_time a, last_used_time b) of
        (Some ta, Some tb) \<Rightarrow> (if ta < tb then True else if ta > tb then False else depth a > depth b)
      | _ \<Rightarrow> False)"

definition has_in_gpu :: "BlockNode \<Rightarrow> bool" where
  "has_in_gpu n = (cache_status n = GPU)"

definition increment_shared_count :: "BlockNode \<Rightarrow> BlockNode" where
  "increment_shared_count n = n\<lparr>shared_count := shared_count n + 1\<rparr>"

definition decrement_shared_count :: "BlockNode \<Rightarrow> BlockNode" where
  "decrement_shared_count n = n\<lparr>shared_count := shared_count n - 1\<rparr>"

definition is_cpu_leaf_node :: "BlockNode \<Rightarrow> bool" where
  "is_cpu_leaf_node n = (cache_status n = CPU \<and> children n = [])"

definition is_gpu_leaf_node :: "BlockNode list \<Rightarrow> BlockNode \<Rightarrow> bool" where
  "is_gpu_leaf_node ns n =
     (if \<not> has_in_gpu n then False
      else if children n = [] then True
      else list_all (\<lambda>(_, c). \<not> has_in_gpu (ns ! c)) (children n))"

lemma is_gpu_leaf_nodeD: "is_gpu_leaf_node ns n \<Longrightarrow> cache_status n = GPU"
  by (auto simp: is_gpu_leaf_node_def has_in_gpu_def split: if_splits)

text \<open>The strict order on nodes that carry a time.\<close>

lemma node_lt_irrefl [simp]: "\<not> node_lt a a"
  by (auto simp: node_lt_def split: option.splits)

lemma node_lt_trans: "node_lt a b \<Longrightarrow> node_lt b c \<Longrightarrow> node_lt a c"
  by (auto simp: node_lt_def split: option.splits if_splits)

lemma node_lt_cotrans:
  "last_used_time b \<noteq> None \<Longrightarrow> node_lt a c \<Longrightarrow> node_lt a b \<or> node_lt b c"
  by (auto simp: node_lt_def split: option.splits if_splits)

text \<open>
  \<open>heapq.heappop\<close> on a heap of references: the result is a least element under \<open>__lt__\<close>. Where
  several are least, the model takes the one pushed first.
\<close>

fun lru_min :: "BlockNode list \<Rightarrow> ref \<Rightarrow> ref list \<Rightarrow> ref" where
  "lru_min ns best [] = best"
| "lru_min ns best (x # xs) = lru_min ns (if node_lt (ns ! x) (ns ! best) then x else best) xs"

definition lru_pop :: "BlockNode list \<Rightarrow> ref list \<Rightarrow> (ref \<times> ref list) res" where
  "lru_pop ns h =
     (case h of [] \<Rightarrow> Inl IndexError
      | x # xs \<Rightarrow> (let m = lru_min ns x xs in Inr (m, remove1 m h)))"

lemma lru_min_in: "lru_min ns best xs \<in> insert best (set xs)"
  by (induction xs arbitrary: best) (auto split: if_splits)

lemma lru_min_least:
  assumes "\<forall>y \<in> insert best (set xs). last_used_time (ns ! y) \<noteq> None"
  shows "\<forall>y \<in> insert best (set xs). \<not> node_lt (ns ! y) (ns ! lru_min ns best xs)"
  using assms
proof (induction xs arbitrary: best)
  case Nil
  then show ?case by simp
next
  case (Cons x xs)
  let ?b = "if node_lt (ns ! x) (ns ! best) then x else best"
  have IH: "\<forall>y \<in> insert ?b (set xs). \<not> node_lt (ns ! y) (ns ! lru_min ns ?b xs)"
    using Cons.prems by (intro Cons.IH) auto
  have m: "last_used_time (ns ! lru_min ns ?b xs) \<noteq> None"
    using lru_min_in [of ns ?b xs] Cons.prems by (auto split: if_splits)
  have "\<not> node_lt (ns ! best) (ns ! lru_min ns ?b xs)"
    using IH by (auto split: if_splits dest: node_lt_trans)
  moreover have "\<not> node_lt (ns ! x) (ns ! lru_min ns ?b xs)"
  proof (cases "node_lt (ns ! x) (ns ! best)")
    case True
    then show ?thesis using IH by simp
  next
    case False
    have "last_used_time (ns ! best) \<noteq> None" using Cons.prems by simp
    with False IH show ?thesis
      using node_lt_cotrans [of "ns ! best" "ns ! x" "ns ! lru_min ns best xs"] by auto
  qed
  ultimately show ?case using IH by simp
qed

lemma lru_pop_Inr:
  assumes "lru_pop ns h = Inr (m, h')"
  shows "m \<in> set h" "h' = remove1 m h" "length h = Suc (length h')"
proof -
  from assms obtain x xs where h: "h = x # xs" and m: "m = lru_min ns x xs" and h': "h' = remove1 m h"
    by (auto simp: lru_pop_def Let_def split: list.splits)
  show "m \<in> set h" using lru_min_in [of ns x xs] h m by auto
  then show "length h = Suc (length h')" using h' by (simp add: length_remove1) (metis h length_Cons list.distinct(1) length_greater_0_conv Suc_pred)
  show "h' = remove1 m h" by (rule h')
qed

lemma lru_pop_nonempty: "h \<noteq> [] \<Longrightarrow> \<exists>m h'. lru_pop ns h = Inr (m, h')"
  by (cases h) (auto simp: lru_pop_def Let_def)

lemma lru_pop_least:
  assumes "lru_pop ns h = Inr (m, h')" "\<forall>y \<in> set h. last_used_time (ns ! y) \<noteq> None" "y \<in> set h"
  shows "\<not> node_lt (ns ! y) (ns ! m)"
  using assms lru_min_least [of "hd h" "tl h" ns]
  by (cases h) (auto simp: lru_pop_def Let_def)

end
