(* ===== verification/BlockPool.thy ===== *)
theory BlockPool
  imports FDPrelude
begin

text \<open>
  The free lists of GPU and CPU cache blocks. The code keeps them as \<open>heapq\<close> heaps of integers;
  only \<open>heappop\<close> (the smallest element), \<open>heappush\<close>, \<open>heapify\<close> and \<open>len\<close> are used, so the heap is
  modelled by the sorted list of its elements. The locale \<open>block_pool\<close> is the interface the
  schedulers rely on: allocation hands out blocks and keeps the account balanced, recycling gives
  them back.
\<close>

definition heapify :: "int list \<Rightarrow> int list" where
  "heapify xs = sort xs"

definition heappush :: "int \<Rightarrow> int list \<Rightarrow> int list" where
  "heappush x h = insort x h"

definition heappop :: "int list \<Rightarrow> (int \<times> int list) res" where
  "heappop h = (case h of [] \<Rightarrow> Inl IndexError | x # xs \<Rightarrow> Inr (x, xs))"

text \<open>The list comprehension that pops \<open>n\<close> times, and the loop that pushes every element.\<close>

fun heappop_n :: "nat \<Rightarrow> int list \<Rightarrow> (int list \<times> int list) res" where
  "heappop_n 0 h = Inr ([], h)"
| "heappop_n (Suc n) h =
     (case heappop h of Inl e \<Rightarrow> Inl e
      | Inr (x, h1) \<Rightarrow>
          (case heappop_n n h1 of Inl e \<Rightarrow> Inl e | Inr (xs, h2) \<Rightarrow> Inr (x # xs, h2)))"

fun heappush_all :: "int list \<Rightarrow> int list \<Rightarrow> int list" where
  "heappush_all [] h = h"
| "heappush_all (x # xs) h = heappush_all xs (heappush x h)"

lemma heappop_n_enough: "n \<le> length h \<Longrightarrow> heappop_n n h = Inr (take n h, drop n h)"
  by (induction n arbitrary: h) (auto simp: heappop_def Suc_le_length_iff)

lemma heappop_n_short: "length h < n \<Longrightarrow> heappop_n n h = Inl IndexError"
proof (induction n arbitrary: h)
  case 0
  then show ?case by simp
next
  case (Suc n)
  then show ?case by (cases h) (auto simp: heappop_def)
qed

lemma mset_heappush_all [block_simps]: "mset (heappush_all xs h) = mset xs + mset h"
  by (induction xs arbitrary: h) (auto simp: heappush_def)

lemma length_heappush_all [simp]: "length (heappush_all xs h) = length xs + length h"
  by (metis mset_heappush_all mset_append length_append size_mset)

lemma sorted_heappush_all: "sorted h \<Longrightarrow> sorted (heappush_all xs h)"
  by (induction xs arbitrary: h) (auto simp: heappush_def sorted_insort)

locale block_pool =
  fixes free :: "'s \<Rightarrow> block_id list"
    and can_allocate :: "int \<Rightarrow> 's \<Rightarrow> bool"
    and allocate :: "int \<Rightarrow> 's \<Rightarrow> ('s, block_id list) outcome"
    and recycle :: "block_id list \<Rightarrow> 's \<Rightarrow> 's"
  assumes can_allocate_iff: "can_allocate n s \<longleftrightarrow> n \<le> int (length (free s))"
    and allocate_ok: "can_allocate n s \<Longrightarrow> \<exists>bs s'. allocate n s = (Inr bs, s')"
    and allocate_fails: "\<not> can_allocate n s \<Longrightarrow> allocate n s = (Inl AssertionError, s)"
    and allocate_length: "allocate n s = (Inr bs, s') \<Longrightarrow> length bs = nat n"
    and allocate_balance: "allocate n s = (Inr bs, s') \<Longrightarrow> mset bs + mset (free s') = mset (free s)"
    and recycle_balance: "mset (free (recycle bs s)) = mset bs + mset (free s)"
begin

lemma allocate_cases:
  obtains (ok) bs s' where "n \<le> int (length (free s))" "allocate n s = (Inr bs, s')"
      "length bs = nat n" "mset bs + mset (free s') = mset (free s)"
  | (short) "int (length (free s)) < n" "allocate n s = (Inl AssertionError, s)"
proof (cases "can_allocate n s")
  case True
  then obtain bs s' where "allocate n s = (Inr bs, s')" using allocate_ok by blast
  with True show ?thesis
    using that(1) allocate_length allocate_balance can_allocate_iff by blast
next
  case False
  then show ?thesis using that(2) allocate_fails can_allocate_iff by force
qed

lemma length_free_recycle: "length (free (recycle bs s)) = length bs + length (free s)"
  using arg_cong [OF recycle_balance, of size bs s] by simp

lemma length_free_allocate:
  assumes "allocate n s = (Inr bs, s')"
  shows "length (free s') + nat n = length (free s)"
  using arg_cong [OF allocate_balance [OF assms], of size] allocate_length [OF assms] by simp

text \<open>Blocks handed out are fresh: no block is given to two holders while it is out.\<close>

lemma allocate_fresh:
  assumes "allocate n s = (Inr bs, s')" "distinct (free s)"
  shows "distinct bs \<and> distinct (free s') \<and> set bs \<inter> set (free s') = {} \<and> set bs \<subseteq> set (free s)"
proof -
  have m: "mset (bs @ free s') = mset (free s)" using allocate_balance [OF assms(1)] by simp
  then have "distinct (bs @ free s')" using assms(2) by (metis mset_eq_imp_distinct_iff)
  moreover have "set (bs @ free s') = set (free s)" using m by (metis mset_eq_setD)
  ultimately show ?thesis by auto
qed

lemma allocate_recycle:
  assumes "allocate n s = (Inr bs, s')"
  shows "mset (free (recycle bs s')) = mset (free s)"
  using allocate_balance [OF assms] by (simp add: recycle_balance)

lemma recycle_distinct:
  assumes "distinct bs" "distinct (free s)" "set bs \<inter> set (free s) = {}"
  shows "distinct (free (recycle bs s))"
proof -
  have "mset (free (recycle bs s)) = mset (bs @ free s)" by (simp add: recycle_balance)
  then show ?thesis using assms by (metis distinct_append mset_eq_imp_distinct_iff)
qed

end

end
