(* ===== verification/PrefixCache.thy ===== *)
theory PrefixCache
  imports CacheData BlockPool Complex_Main
begin

text \<open>
  The prefix cache manager (\<open>cache_manager/prefix_cache_manager.py\<close>) and its counters
  (\<open>cache_manager/cache_metrics.py\<close>). The state record holds every field an operation reads or
  writes; locks, loggers and executors are left out, since every operation runs under
  \<open>request_release_lock\<close>. Python's \<open>hash\<close> of a tuple is the parameter \<open>H\<close>. The root of the radix
  tree is the object with index 0.
\<close>

subsection \<open>Counters\<close>

record CacheMetrics =
  total_match_time :: rat
  avg_match_time :: rat
  min_match_time :: rat
  max_match_time :: rat
  req_count :: int
  hit_req_count :: int
  hit_req_ratio :: rat
  total_gpu_matched_token_num :: int
  total_cpu_matched_token_num :: int
  matched_token_num :: int
  total_token_num :: int
  hit_token_ratio :: rat
  cpu_hit_token_ratio :: rat
  gpu_hit_token_ratio :: rat

definition init_metrics :: CacheMetrics where
  "init_metrics =
     \<lparr>total_match_time = 0, avg_match_time = 0, min_match_time = 1000000000, max_match_time = 0,
      req_count = 0, hit_req_count = 0, hit_req_ratio = 0, total_gpu_matched_token_num = 0,
      total_cpu_matched_token_num = 0, matched_token_num = 0, total_token_num = 0,
      hit_token_ratio = 0, cpu_hit_token_ratio = 0, gpu_hit_token_ratio = 0\<rparr>"

definition reset_metrics :: "CacheMetrics \<Rightarrow> CacheMetrics" where
  "reset_metrics m =
     m\<lparr>total_match_time := 0, avg_match_time := 0, min_match_time := 1000000000,
       max_match_time := 0, req_count := 0, hit_req_count := 0, hit_req_ratio := 0,
       total_gpu_matched_token_num := 0, total_cpu_matched_token_num := 0,
       matched_token_num := 0, total_token_num := 0, hit_token_ratio := 0,
       cpu_hit_token_ratio := 0, gpu_hit_token_ratio := 0\<rparr>"

definition calculate_hit_metrics :: "int \<Rightarrow> int \<Rightarrow> int \<Rightarrow> CacheMetrics \<Rightarrow> (CacheMetrics, unit) outcome" where
  "calculate_hit_metrics cpu_tokens gpu_tokens query_tokens m =
     (if query_tokens = 0 then (Inl ZeroDivisionError, m)
      else (Inr (),
        m\<lparr>total_cpu_matched_token_num := total_cpu_matched_token_num m + cpu_tokens,
          total_gpu_matched_token_num := total_gpu_matched_token_num m + gpu_tokens,
          matched_token_num := matched_token_num m + (cpu_tokens + gpu_tokens),
          total_token_num := total_token_num m + query_tokens\<rparr>))"

definition update_history_hit_metrics :: "CacheMetrics \<Rightarrow> (CacheMetrics, unit) outcome" where
  "update_history_hit_metrics m =
     (if req_count m = 0 then (Inl ZeroDivisionError, m)
      else let m1 = m\<lparr>hit_req_ratio := of_int (hit_req_count m) / of_int (req_count m)\<rparr> in
      if total_token_num m = 0 then (Inl ZeroDivisionError, m1)
      else (Inr (),
        m1\<lparr>hit_token_ratio := of_int (matched_token_num m) / of_int (total_token_num m),
           cpu_hit_token_ratio := of_int (total_cpu_matched_token_num m) / of_int (total_token_num m),
           gpu_hit_token_ratio := of_int (total_gpu_matched_token_num m) / of_int (total_token_num m)\<rparr>))"

subsection \<open>State\<close>

text \<open>
  The eviction task handed to the executor: the blocks and node ids grouped by input hash in
  the order of the dictionary's keys, and whether CPU blocks have to be evicted first.
\<close>

record evict_task =
  et_cpu_free :: "int option"
  et_total :: int
  et_blocks :: "(int \<times> block_id list) list"
  et_nodes :: "(int \<times> int list) list"

datatype gpu_future = Pending evict_task | Finished "unit res"

record pcm =
  num_gpu_blocks :: int
  num_cpu_blocks :: int
  enable_hierarchical_cache :: bool
  gpu_free_block_list :: "block_id list"
  cpu_free_block_list :: "block_id list"
  node_id_pool :: "int list"
  nodes :: "BlockNode list"
  gpu_lru_leaf_heap :: "ref list"
  gpu_lru_leaf_set :: "ref set"
  cpu_lru_leaf_heap :: "ref list"
  cpu_lru_leaf_set :: "ref set"
  node_map :: "int \<Rightarrow> ref option"
  req_leaf_map :: "req_id \<Rightarrow> ref option"
  leaf_req_map :: "ref \<Rightarrow> req_id set option"
  unfilled_req_block_map :: "(req_id \<times> block_id list) list"
  cache_info :: "req_id \<Rightarrow> (ref \<times> token list) option"
  gpu_free_task_future :: "gpu_future option"
  metrics :: CacheMetrics

abbreviation (input) radix_tree_root :: ref where
  "radix_tree_root \<equiv> 0"

definition root_node :: BlockNode where
  "root_node = new_BlockNode (- 1) [] 0 0 (- 1) 0 None None None"

text \<open>\<open>__init__\<close>, given the number of GPU blocks the configuration selects.\<close>

definition init_pcm :: "nat \<Rightarrow> nat \<Rightarrow> bool \<Rightarrow> pcm" where
  "init_pcm gpu cpu hier =
     \<lparr>num_gpu_blocks = int gpu, num_cpu_blocks = int cpu, enable_hierarchical_cache = hier,
      gpu_free_block_list = heapify (rev (map int [0..<gpu])),
      cpu_free_block_list = heapify (if cpu > 0 then rev (map int [0..<cpu]) else []),
      node_id_pool = map int [0..<gpu + cpu],
      nodes = [root_node],
      gpu_lru_leaf_heap = [], gpu_lru_leaf_set = {},
      cpu_lru_leaf_heap = [], cpu_lru_leaf_set = {},
      node_map = Map.empty, req_leaf_map = Map.empty, leaf_req_map = Map.empty,
      unfilled_req_block_map = [], cache_info = Map.empty,
      gpu_free_task_future = None, metrics = init_metrics\<rparr>"

text \<open>\<open>update_cache_config\<close>: the new pool size replaces the free list and the node ids.\<close>

definition update_cache_config :: "nat \<Rightarrow> pcm \<Rightarrow> pcm" where
  "update_cache_config gpu s =
     s\<lparr>num_gpu_blocks := int gpu,
       gpu_free_block_list := heapify (rev (map int [0..<gpu])),
       node_id_pool := map int [0..<gpu + nat (num_cpu_blocks s)]\<rparr>"

definition upd_node :: "ref \<Rightarrow> (BlockNode \<Rightarrow> BlockNode) \<Rightarrow> pcm \<Rightarrow> pcm" where
  "upd_node r f s = s\<lparr>nodes := (nodes s)[r := f (nodes s ! r)]\<rparr>"

subsection \<open>Free lists\<close>

definition can_allocate_gpu_blocks :: "int \<Rightarrow> pcm \<Rightarrow> bool" where
  "can_allocate_gpu_blocks num_blocks s =
     (if int (length (gpu_free_block_list s)) < num_blocks then False else True)"

definition allocate_gpu_blocks :: "int \<Rightarrow> pcm \<Rightarrow> (pcm, block_id list) outcome" where
  "allocate_gpu_blocks num_blocks s =
     (if \<not> num_blocks \<le> int (length (gpu_free_block_list s)) then (Inl AssertionError, s)
      else case heappop_n (nat num_blocks) (gpu_free_block_list s) of
        Inl e \<Rightarrow> (Inl e, s)
      | Inr (ids, h) \<Rightarrow> (Inr ids, s\<lparr>gpu_free_block_list := h\<rparr>))"

definition recycle_gpu_blocks :: "block_id list \<Rightarrow> pcm \<Rightarrow> pcm" where
  "recycle_gpu_blocks ids s = s\<lparr>gpu_free_block_list := heappush_all ids (gpu_free_block_list s)\<rparr>"

definition allocate_cpu_blocks :: "int \<Rightarrow> pcm \<Rightarrow> (pcm, block_id list) outcome" where
  "allocate_cpu_blocks num_blocks s =
     (if \<not> num_blocks \<le> int (length (cpu_free_block_list s)) then (Inl AssertionError, s)
      else case heappop_n (nat num_blocks) (cpu_free_block_list s) of
        Inl e \<Rightarrow> (Inl e, s)
      | Inr (ids, h) \<Rightarrow> (Inr ids, s\<lparr>cpu_free_block_list := h\<rparr>))"

definition recycle_cpu_blocks :: "block_id list \<Rightarrow> pcm \<Rightarrow> pcm" where
  "recycle_cpu_blocks ids s = s\<lparr>cpu_free_block_list := heappush_all ids (cpu_free_block_list s)\<rparr>"

lemma allocate_gpu_blocks_eq:
  "allocate_gpu_blocks n s =
     (if n \<le> int (length (gpu_free_block_list s))
      then (Inr (take (nat n) (gpu_free_block_list s)),
            s\<lparr>gpu_free_block_list := drop (nat n) (gpu_free_block_list s)\<rparr>)
      else (Inl AssertionError, s))"
  by (simp add: allocate_gpu_blocks_def heappop_n_enough)

lemma allocate_cpu_blocks_eq:
  "allocate_cpu_blocks n s =
     (if n \<le> int (length (cpu_free_block_list s))
      then (Inr (take (nat n) (cpu_free_block_list s)),
            s\<lparr>cpu_free_block_list := drop (nat n) (cpu_free_block_list s)\<rparr>)
      else (Inl AssertionError, s))"
  by (simp add: allocate_cpu_blocks_def heappop_n_enough)

interpretation gpu_pool: block_pool gpu_free_block_list can_allocate_gpu_blocks
  allocate_gpu_blocks recycle_gpu_blocks
  by unfold_locales
    (auto simp: can_allocate_gpu_blocks_def allocate_gpu_blocks_eq recycle_gpu_blocks_def
      block_simps split: if_splits)

interpretation cpu_pool: block_pool cpu_free_block_list
  "\<lambda>n s. n \<le> int (length (cpu_free_block_list s))" allocate_cpu_blocks recycle_cpu_blocks
  by unfold_locales
    (auto simp: allocate_cpu_blocks_eq recycle_cpu_blocks_def block_simps split: if_splits)

subsection \<open>Matching a prompt against the tree\<close>

text \<open>
  The loop of \<open>match_block\<close> looks at one block of \<open>block_size\<close> tokens after the other and stops at
  an incomplete one, that is, it runs over the complete blocks of the prompt. The configured
  block size is positive.
\<close>

function full_blocks :: "nat \<Rightarrow> token list \<Rightarrow> token list list" where
  "full_blocks bs ids =
     (if bs = 0 \<or> length ids < bs then [] else take bs ids # full_blocks bs (drop bs ids))"
  by pat_completeness auto
termination
  by (relation "measure (\<lambda>(bs, ids). length ids)") auto

declare full_blocks.simps [simp del]

record match_acc =
  match_gpu_block_ids :: "block_id list"
  match_cpu_block_ids :: "block_id list"
  swap_node_ids :: "int list"
  current_match_node :: ref
  gpu_match_token_num :: int
  cpu_match_token_num :: int

definition match_init :: match_acc where
  "match_init = \<lparr>match_gpu_block_ids = [], match_cpu_block_ids = [], swap_node_ids = [],
     current_match_node = radix_tree_root, gpu_match_token_num = 0, cpu_match_token_num = 0\<rparr>"

text \<open>
  A matched node leaves the LRU structure that holds it. \<open>list.remove\<close> raises when the heap does
  not contain the node.
\<close>

definition lru_forget :: "ref \<Rightarrow> pcm \<Rightarrow> (pcm, unit) outcome" where
  "lru_forget c s =
     (if c \<in> gpu_lru_leaf_set s then
        let s1 = s\<lparr>gpu_lru_leaf_set := gpu_lru_leaf_set s - {c}\<rparr> in
        if c \<in> set (gpu_lru_leaf_heap s)
        then (Inr (), s1\<lparr>gpu_lru_leaf_heap := remove1 c (gpu_lru_leaf_heap s)\<rparr>)
        else (Inl ValueError, s1)
      else if c \<in> cpu_lru_leaf_set s then
        let s1 = s\<lparr>cpu_lru_leaf_set := cpu_lru_leaf_set s - {c}\<rparr> in
        if c \<in> set (cpu_lru_leaf_heap s)
        then (Inr (), s1\<lparr>cpu_lru_leaf_heap := remove1 c (cpu_lru_leaf_heap s)\<rparr>)
        else (Inl ValueError, s1)
      else (Inr (), s))"

text \<open>The branches of one matched child.\<close>

definition match_child :: "nat \<Rightarrow> ref \<Rightarrow> match_acc \<Rightarrow> pcm \<Rightarrow> match_acc \<times> pcm" where
  "match_child bs c acc s =
     (let child = nodes s ! c in
      if has_in_gpu child then
        (acc\<lparr>match_gpu_block_ids := match_gpu_block_ids acc @ [block_id child],
             gpu_match_token_num := gpu_match_token_num acc + int bs,
             current_match_node := c\<rparr>, s)
      else if cache_status child = SWAP2CPU then
        (acc\<lparr>match_gpu_block_ids := match_gpu_block_ids acc @ [block_id child],
             gpu_match_token_num := gpu_match_token_num acc + int bs,
             current_match_node := c\<rparr>, upd_node c (cache_status_update (\<lambda>_. GPU)) s)
      else if cache_status child = CPU then
        (acc\<lparr>match_cpu_block_ids := match_cpu_block_ids acc @ [block_id child],
             cpu_match_token_num := cpu_match_token_num acc + int bs,
             swap_node_ids := swap_node_ids acc @ [node_id child],
             current_match_node := c\<rparr>, upd_node c (cache_status_update (\<lambda>_. SWAP2GPU)) s)
      else (acc\<lparr>current_match_node := c\<rparr>, s))"

fun match_loop :: "(token list \<Rightarrow> int) \<Rightarrow> nat \<Rightarrow> token list list \<Rightarrow> match_acc \<Rightarrow> pcm \<Rightarrow> (pcm, match_acc) outcome" where
  "match_loop H bs [] acc s = (Inr acc, s)"
| "match_loop H bs (token_block # rest) acc s =
     (case map_of (children (nodes s ! current_match_node acc)) (H token_block) of
        None \<Rightarrow> (Inr acc, s)
      | Some c \<Rightarrow>
          andthen (lru_forget c s)
            (\<lambda>_ s1. let (acc1, s2) = match_child bs c acc s1 in match_loop H bs rest acc1 s2))"

definition match_block :: "(token list \<Rightarrow> int) \<Rightarrow> token list \<Rightarrow> nat \<Rightarrow> pcm \<Rightarrow> (pcm, match_acc) outcome" where
  "match_block H ids bs s = match_loop H bs (full_blocks bs ids) match_init s"

text \<open>
  Walks from a node to the root. \<open>node.parent\<close> is \<open>None\<close> only at the root, where the loop stops;
  elsewhere the method call on \<open>None\<close> raises. The fuel is the number of objects: a walk that
  visits more of them runs in a cycle.
\<close>

fun update_matched_walk :: "nat \<Rightarrow> req_id \<Rightarrow> int \<Rightarrow> ref \<Rightarrow> pcm \<Rightarrow> (pcm, unit) outcome" where
  "update_matched_walk 0 req now r s = (Inl NoReturn, s)"
| "update_matched_walk (Suc fuel) req now r s =
     (if r = radix_tree_root then (Inr (), s)
      else
        let s1 = upd_node r (\<lambda>n. (increment_shared_count n)
                   \<lparr>last_used_time := Some now, req_id_set := insert req (req_id_set n)\<rparr>) s
        in case parent (nodes s ! r) of
             None \<Rightarrow> (Inl AttributeError, s1)
           | Some p \<Rightarrow> update_matched_walk fuel req now p s1)"

definition update_matched_node_info :: "req_id \<Rightarrow> ref \<Rightarrow> int \<Rightarrow> pcm \<Rightarrow> (pcm, unit) outcome" where
  "update_matched_node_info req last_node now s =
     update_matched_walk (Suc (length (nodes s))) req now last_node s"

subsection \<open>Swapping between CPU and GPU\<close>

definition push_cpu_lru :: "ref \<Rightarrow> pcm \<Rightarrow> pcm" where
  "push_cpu_lru r s = s\<lparr>cpu_lru_leaf_heap := cpu_lru_leaf_heap s @ [r],
                        cpu_lru_leaf_set := insert r (cpu_lru_leaf_set s)\<rparr>"

definition push_gpu_lru :: "ref \<Rightarrow> pcm \<Rightarrow> pcm" where
  "push_gpu_lru r s = s\<lparr>gpu_lru_leaf_heap := gpu_lru_leaf_heap s @ [r],
                        gpu_lru_leaf_set := insert r (gpu_lru_leaf_set s)\<rparr>"

definition handle_swap_result ::
  "int option \<Rightarrow> block_id \<Rightarrow> block_id \<Rightarrow> CacheStatus \<Rightarrow> pcm \<Rightarrow> (pcm, unit) outcome" where
  "handle_swap_result swap_node_id gpu_block cpu_block event_type s =
     (case swap_node_id of None \<Rightarrow> (Inr (), s)
      | Some nid \<Rightarrow>
        if event_type = SWAP2CPU then
          (case node_map s nid of None \<Rightarrow> (Inl KeyError, s)
           | Some r \<Rightarrow>
             if cache_status (nodes s ! r) = GPU then (Inr (), recycle_cpu_blocks [cpu_block] s)
             else
               let s1 = upd_node r (\<lambda>n. n\<lparr>cache_status := CPU, block_id := cpu_block\<rparr>) s;
                   n1 = nodes s1 ! r;
                   s2 = (if r \<noteq> radix_tree_root \<and> shared_count n1 = 0 \<and> is_cpu_leaf_node n1 \<and>
                            cache_status n1 = CPU \<and> r \<notin> cpu_lru_leaf_set s1
                         then push_cpu_lru r s1 else s1)
               in (Inr (), recycle_gpu_blocks [gpu_block] s2))
        else if event_type = SWAP2GPU then
          (case node_map s nid of None \<Rightarrow> (Inl KeyError, s)
           | Some r \<Rightarrow>
               (Inr (), recycle_cpu_blocks [cpu_block]
                  (upd_node r (\<lambda>n. n\<lparr>cache_status := GPU, block_id := gpu_block\<rparr>) s)))
        else (Inr (), s))"

text \<open>
  One message of \<open>recv_data_transfer_result\<close>: every block of the GPU list with the entries of the
  other lists at the same index.
\<close>

fun recv_data_transfer_result ::
  "int list \<Rightarrow> block_id list \<Rightarrow> block_id list \<Rightarrow> CacheStatus \<Rightarrow> pcm \<Rightarrow> (pcm, unit) outcome" where
  "recv_data_transfer_result nids [] cpus ev s = (Inr (), s)"
| "recv_data_transfer_result (nid # nids) (g # gs) (c # cs) ev s =
     andthen (handle_swap_result (Some nid) g c ev s)
       (\<lambda>_ s1. recv_data_transfer_result nids gs cs ev s1)"
| "recv_data_transfer_result nids (g # gs) cpus ev s = (Inl IndexError, s)"

text \<open>
  \<open>issue_swap_task\<close> with \<open>is_sync\<close>: the task is queued, the transfer process answers with the same
  tuple, the receiving thread handles it and the caller resumes. When that thread dies of an
  exception the caller waits for ever.
\<close>

definition issue_swap_task ::
  "int list \<Rightarrow> block_id list \<Rightarrow> block_id list \<Rightarrow> CacheStatus \<Rightarrow> pcm \<Rightarrow> (pcm, unit) outcome" where
  "issue_swap_task nids gpus cpus ev s =
     (case recv_data_transfer_result nids gpus cpus ev s of
        (Inl e, s1) \<Rightarrow> (Inl NoReturn, s1)
      | (Inr _, s1) \<Rightarrow> (Inr (), s1))"

definition prepare_cpu_cache ::
  "int list \<Rightarrow> block_id list \<Rightarrow> block_id list \<Rightarrow> pcm \<Rightarrow> (pcm, unit) outcome" where
  "prepare_cpu_cache nids gpu_recv match_cpu s =
     (if length gpu_recv \<noteq> length match_cpu then (Inl AssertionError, s)
      else issue_swap_task nids gpu_recv match_cpu SWAP2GPU s)"

end
