(* ===== verification/PrefixCacheOps.thy ===== *)
theory PrefixCacheOps
  imports PrefixCache
begin

text \<open>
  The operations of the prefix cache manager that build, release and evict paths of the radix tree
  (\<open>cache_manager/prefix_cache_manager.py\<close>).
\<close>

subsection \<open>Building a path\<close>

text \<open>\<open>gpu_block_ids.pop(0)\<close>, \<open>n\<close> times.\<close>

definition pop_front :: "nat \<Rightarrow> block_id list \<Rightarrow> (block_id list \<times> block_id list) res" where
  "pop_front n xs = (if length xs < n then Inl IndexError else Inr (take n xs, drop n xs))"

text \<open>
  The part of the loop that handles complete blocks: each takes a GPU block and a node id and
  becomes a child of the node before it. Only the last block of a prompt can be incomplete, so the
  complete ones come first.
\<close>

fun build_nodes ::
  "(token list \<Rightarrow> int) \<Rightarrow> req_id \<Rightarrow> int \<Rightarrow> token list \<Rightarrow> nat \<Rightarrow> token list list \<Rightarrow> block_id list \<Rightarrow> ref \<Rightarrow>
   pcm \<Rightarrow> (pcm, ref \<times> block_id list) outcome" where
  "build_nodes H req now ids bs [] gids node s = (Inr (node, gids), s)"
| "build_nodes H req now ids bs (current_block # rest) gids node s =
     (case gids of [] \<Rightarrow> (Inl IndexError, s)
      | allocated_block_id # gids1 \<Rightarrow>
        if node_id_pool s = [] then (Inl IndexError, s)
        else
          let nid = last (node_id_pool s);
              hv = H current_block;
              c = length (nodes s);
              new = (new_BlockNode nid ids (H ids) (depth (nodes s ! node) + 1) allocated_block_id
                       (int (length current_block)) (Some hv) (Some now) (Some node))
                     \<lparr>req_id_set := {req}\<rparr>;
              s1 = s\<lparr>node_id_pool := butlast (node_id_pool s),
                     nodes := (nodes s)[node := (nodes s ! node)
                        \<lparr>children := AList.update hv c (children (nodes s ! node))\<rparr>] @ [new],
                     node_map := (node_map s)(nid \<mapsto> c)\<rparr>
          in build_nodes H req now ids bs rest gids1 c s1)"

definition build_path ::
  "(token list \<Rightarrow> int) \<Rightarrow> req_id \<Rightarrow> int \<Rightarrow> token list \<Rightarrow> token list \<Rightarrow> block_id list \<Rightarrow> nat \<Rightarrow> ref \<Rightarrow> nat \<Rightarrow>
   pcm \<Rightarrow> (pcm, ref) outcome" where
  "build_path H req now ids left_ids gids bs last_node reserve s =
     (if left_ids = [] then
        (case pop_front reserve gids of Inl e \<Rightarrow> (Inl e, s)
         | Inr (res, _) \<Rightarrow>
            (Inr last_node, upd_node last_node
               (\<lambda>n. n\<lparr>reverved_dec_block_ids := reverved_dec_block_ids n @ res\<rparr>) s))
      else
        andthen (build_nodes H req now ids bs (full_blocks bs left_ids) gids last_node s)
          (\<lambda>(leaf, gids1) s1.
             case pop_front (if length left_ids mod bs \<noteq> 0 then 1 + reserve else reserve) gids1 of
               Inl e \<Rightarrow> (Inl e, s1)
             | Inr (res, _) \<Rightarrow>
                 if leaf = radix_tree_root
                 then (Inr leaf, s1\<lparr>unfilled_req_block_map :=
                                     AList.update req res (unfilled_req_block_map s1)\<rparr>)
                 else (Inr leaf, upd_node leaf
                         (\<lambda>n. n\<lparr>reverved_dec_block_ids := reverved_dec_block_ids n @ res\<rparr>) s1)))"

definition add_leaf_req :: "ref \<Rightarrow> req_id \<Rightarrow> pcm \<Rightarrow> pcm" where
  "add_leaf_req leaf req s =
     s\<lparr>req_leaf_map := (req_leaf_map s)(req \<mapsto> leaf),
       leaf_req_map := (leaf_req_map s)
         (leaf \<mapsto> insert req (case leaf_req_map s leaf of None \<Rightarrow> {} | Some rs \<Rightarrow> rs))\<rparr>"

text \<open>\<open>update_cache_blocks\<close>; the arguments are the task's fields.\<close>

definition update_cache_blocks ::
  "(token list \<Rightarrow> int) \<Rightarrow> req_id \<Rightarrow> nat \<Rightarrow> block_id list \<Rightarrow> nat \<Rightarrow> int \<Rightarrow> pcm \<Rightarrow> (pcm, unit) outcome" where
  "update_cache_blocks H req num_cached_tokens block_tables bs now s =
     (case cache_info s req of None \<Rightarrow> (Inl KeyError, s)
      | Some (last_node, ids) \<Rightarrow>
        andthen (build_path H req now ids (drop num_cached_tokens ids)
                   (drop (num_cached_tokens div bs) block_tables) bs last_node 0 s)
          (\<lambda>leaf s1.
             (Inr (), (add_leaf_req leaf req s1)
                \<lparr>cache_info := (cache_info s1)(req \<mapsto> (leaf, ids))\<rparr>)))"

subsection \<open>Requests\<close>

definition get_required_block_num :: "int \<Rightarrow> int \<Rightarrow> int" where
  "get_required_block_num input_token_num block_size = (input_token_num + block_size - 1) div block_size"

definition lift_metrics :: "(CacheMetrics \<Rightarrow> (CacheMetrics, unit) outcome) \<Rightarrow> pcm \<Rightarrow> (pcm, unit) outcome" where
  "lift_metrics f s = (case f (metrics s) of (r, m) \<Rightarrow> (r, s\<lparr>metrics := m\<rparr>))"

definition count_request :: "pcm \<Rightarrow> pcm" where
  "count_request s = s\<lparr>metrics := (metrics s)\<lparr>req_count := req_count (metrics s) + 1\<rparr>\<rparr>"

text \<open>The counters' part shared by the two request functions.\<close>

definition record_hit :: "match_acc \<Rightarrow> nat \<Rightarrow> pcm \<Rightarrow> (pcm, unit) outcome" where
  "record_hit acc input_token_num s =
     (let s1 = (if gpu_match_token_num acc + cpu_match_token_num acc > 0
                then s\<lparr>metrics := (metrics s)\<lparr>hit_req_count := hit_req_count (metrics s) + 1\<rparr>\<rparr>
                else s)
      in andthen (lift_metrics (calculate_hit_metrics (cpu_match_token_num acc)
                     (gpu_match_token_num acc) (int input_token_num)) s1)
           (\<lambda>_ s2. andthen (lift_metrics update_history_hit_metrics s2)
              (\<lambda>_ s3. (Inr (), if req_count (metrics s3) mod 10000 = 0
                               then s3\<lparr>metrics := reset_metrics (metrics s3)\<rparr> else s3))))"

record hit_info =
  gpu_cache_blocks :: int
  cpu_cache_blocks :: int

definition hit_info_of :: "match_acc \<Rightarrow> nat \<Rightarrow> hit_info" where
  "hit_info_of acc bs = \<lparr>gpu_cache_blocks = gpu_match_token_num acc div int bs,
                         cpu_cache_blocks = cpu_match_token_num acc div int bs\<rparr>"

definition request_match_blocks ::
  "(token list \<Rightarrow> int) \<Rightarrow> req_id \<Rightarrow> token list \<Rightarrow> nat \<Rightarrow> int \<Rightarrow> pcm \<Rightarrow>
   (pcm, block_id list \<times> int \<times> hit_info) outcome" where
  "request_match_blocks H req ids bs now s =
     andthen (match_block H ids bs (count_request s)) (\<lambda>acc s1.
     andthen (update_matched_node_info req (current_match_node acc) now s1) (\<lambda>_ s2.
     let cpu_num = int (length (match_cpu_block_ids acc)) in
     if \<not> can_allocate_gpu_blocks cpu_num s2 then (Inl PyException, s2)
     else
     andthen (if cpu_num > 0
              then andthen (allocate_gpu_blocks cpu_num s2) (\<lambda>recv s3.
                     if recv = [] then (Inr recv, s3)
                     else andthen (prepare_cpu_cache (swap_node_ids acc) recv (match_cpu_block_ids acc) s3)
                            (\<lambda>_ s4. (Inr recv, s4)))
              else (Inr [], s2)) (\<lambda>gpu_recv s5.
     let s6 = s5\<lparr>cache_info := (cache_info s5)(req \<mapsto> (current_match_node acc, ids))\<rparr> in
     andthen (record_hit acc (length ids) s6) (\<lambda>_ s7.
       (Inr (match_gpu_block_ids acc @ gpu_recv,
             gpu_match_token_num acc + cpu_match_token_num acc, hit_info_of acc bs), s7)))))"

definition check_validity :: "int \<Rightarrow> int \<Rightarrow> pcm \<Rightarrow> (pcm, unit) outcome" where
  "check_validity match_gpu_blocks_num expected_block_num s =
     (if expected_block_num - match_gpu_blocks_num > int (length (gpu_free_block_list s))
      then (Inl PyException, s) else (Inr (), s))"

definition prepare_cache ::
  "int \<Rightarrow> match_acc \<Rightarrow> pcm \<Rightarrow> (pcm, block_id list \<times> block_id list) outcome" where
  "prepare_cache expected_block_num acc s =
     (let gpu_num = int (length (match_gpu_block_ids acc));
          cpu_num = int (length (match_cpu_block_ids acc));
          extra_num = expected_block_num - (gpu_num + cpu_num)
      in andthen (if cpu_num > 0 then allocate_gpu_blocks cpu_num s else (Inr [], s)) (\<lambda>recv s1.
         andthen (if extra_num > 0 then allocate_gpu_blocks extra_num s1 else (Inr [], s1)) (\<lambda>extra s2.
         andthen (if recv \<noteq> [] then prepare_cpu_cache (swap_node_ids acc) recv (match_cpu_block_ids acc) s2
                  else (Inr (), s2)) (\<lambda>_ s3. (Inr (recv, extra), s3)))))"

definition request_block_ids ::
  "(token list \<Rightarrow> int) \<Rightarrow> req_id \<Rightarrow> token list \<Rightarrow> nat \<Rightarrow> nat \<Rightarrow> int \<Rightarrow> pcm \<Rightarrow>
   (pcm, block_id list \<times> block_id list \<times> hit_info) outcome" where
  "request_block_ids H req ids bs dec_token_num now s =
     andthen (match_block H ids bs (count_request s)) (\<lambda>acc s1.
     let block_num = (int (length ids) + int bs - 1 + int dec_token_num) div int bs in
     andthen (check_validity (int (length (match_gpu_block_ids acc))) block_num s1) (\<lambda>_ s2.
     andthen (update_matched_node_info req (current_match_node acc) now s2) (\<lambda>_ s3.
     andthen (prepare_cache block_num acc s3) (\<lambda>(recv, extra) s4.
     andthen (build_path H req now ids
                (drop (nat (gpu_match_token_num acc + cpu_match_token_num acc)) ids) extra bs
                (current_match_node acc) (dec_token_num div bs) s4) (\<lambda>leaf s5.
     andthen (record_hit acc (length ids) (add_leaf_req leaf req s5)) (\<lambda>_ s6.
       (Inr (match_gpu_block_ids acc @ recv, extra, hit_info_of acc bs), s6)))))))"

subsection \<open>Release\<close>

fun release_walk :: "nat \<Rightarrow> req_id \<Rightarrow> ref \<Rightarrow> pcm \<Rightarrow> (pcm, unit) outcome" where
  "release_walk 0 req r s = (Inl NoReturn, s)"
| "release_walk (Suc fuel) req r s =
     (if r = radix_tree_root then (Inr (), s)
      else
        let s1 = upd_node r (\<lambda>n. decrement_shared_count (n\<lparr>req_id_set := req_id_set n - {req}\<rparr>)) s
        in case parent (nodes s ! r) of
             None \<Rightarrow> (Inl AttributeError, s1)
           | Some p \<Rightarrow> release_walk fuel req p s1)"

definition drop_leaf_req :: "ref \<Rightarrow> req_id \<Rightarrow> pcm \<Rightarrow> (pcm, unit) outcome" where
  "drop_leaf_req leaf req s =
     (case leaf_req_map s leaf of None \<Rightarrow> (Inr (), s)
      | Some rs \<Rightarrow>
          if req \<notin> rs then (Inl KeyError, s)
          else if rs - {req} = {} then (Inr (), s\<lparr>leaf_req_map := (leaf_req_map s)(leaf := None)\<rparr>)
          else (Inr (), s\<lparr>leaf_req_map := (leaf_req_map s)(leaf \<mapsto> rs - {req})\<rparr>))"

definition release_block_ids :: "req_id \<Rightarrow> pcm \<Rightarrow> (pcm, unit) outcome" where
  "release_block_ids req s =
     (case req_leaf_map s req of None \<Rightarrow> (Inl KeyError, s)
      | Some leaf \<Rightarrow>
        andthen (drop_leaf_req leaf req (s\<lparr>req_leaf_map := (req_leaf_map s)(req := None)\<rparr>)) (\<lambda>_ s1.
        andthen (release_walk (Suc (length (nodes s1))) req leaf s1) (\<lambda>_ s2.
        let s3 = s2\<lparr>cache_info := (cache_info s2)(req := None)\<rparr> in
        if leaf = radix_tree_root then
          (Inr (), (recycle_gpu_blocks
                     (case map_of (unfilled_req_block_map s3) req of None \<Rightarrow> [] | Some bs \<Rightarrow> bs) s3)
                   \<lparr>unfilled_req_block_map := AList.delete req (unfilled_req_block_map s3)\<rparr>)
        else if leaf \<in> gpu_lru_leaf_set s3 then (Inr (), s3)
        else
          let n = nodes s3 ! leaf in
          (Inr (), if shared_count n = 0 \<and> is_gpu_leaf_node (nodes s3) n \<and> \<not> is_persistent n
                   then push_gpu_lru leaf s3 else s3))))"

subsection \<open>Eviction\<close>

definition handle_free_gpu_node_without_cpu :: "ref \<Rightarrow> pcm \<Rightarrow> pcm" where
  "handle_free_gpu_node_without_cpu r s =
     (let n = nodes s ! r;
          s1 = upd_node r (cache_status_update (\<lambda>_. CPU)) s;
          s2 = s1\<lparr>node_id_pool := node_id_pool s1 @ [node_id n],
                  node_map := (node_map s1)(node_id n := None)\<rparr>;
          s3 = recycle_gpu_blocks (reverved_dec_block_ids n) s2;
          s4 = upd_node r (reverved_dec_block_ids_update (\<lambda>_. [])) s3
      in recycle_gpu_blocks [block_id n] s4)"

definition detach_child :: "ref \<Rightarrow> int option \<Rightarrow> pcm \<Rightarrow> pcm" where
  "detach_child p hv s =
     (case hv of None \<Rightarrow> s
      | Some h \<Rightarrow> upd_node p (\<lambda>n. n\<lparr>children := AList.delete h (children n)\<rparr>) s)"

text \<open>\<open>defaultdict(list)\<close>: append to the list of a key, a new key goes to the end.\<close>

fun append_to :: "int \<Rightarrow> 'a \<Rightarrow> (int \<times> 'a list) list \<Rightarrow> (int \<times> 'a list) list" where
  "append_to k v [] = [(k, [v])]"
| "append_to k v ((k', vs) # m) = (if k = k' then (k', vs @ [v]) # m else (k', vs) # append_to k v m)"

record evict_state =
  es_pcm :: pcm
  es_count :: int
  es_blocks :: "(int \<times> block_id list) list"
  es_nodes :: "(int \<times> int list) list"

text \<open>\<open>_handle_free_gpu_node_with_cpu\<close>, with the two maps it fills.\<close>

definition handle_free_gpu_node_with_cpu :: "ref \<Rightarrow> evict_state \<Rightarrow> evict_state" where
  "handle_free_gpu_node_with_cpu r es =
     (let s = es_pcm es;
          n = nodes s ! r;
          s1 = recycle_gpu_blocks (reverved_dec_block_ids n) s;
          s2 = upd_node r (reverved_dec_block_ids_update (\<lambda>_. [])) s1
      in es\<lparr>es_pcm := s2,
            es_blocks := append_to (input_hash_value n) (block_id n) (es_blocks es),
            es_nodes := append_to (input_hash_value n) (node_id n) (es_nodes es)\<rparr>)"

definition push_if_evictable :: "ref \<Rightarrow> pcm \<Rightarrow> pcm" where
  "push_if_evictable p s =
     (let n = nodes s ! p in
      if p \<in> gpu_lru_leaf_set s then s
      else if p \<noteq> radix_tree_root \<and> shared_count n = 0 \<and> is_gpu_leaf_node (nodes s) n \<and> \<not> is_persistent n
      then push_gpu_lru p s else s)"

text \<open>The body of the loop of \<open>free_block_ids_async\<close> once the heap is known to be non-empty.\<close>

definition evict_step :: "int \<Rightarrow> evict_state \<Rightarrow> (evict_state, unit) outcome" where
  "evict_step need es =
     (let s = es_pcm es in
      case lru_pop (nodes s) (gpu_lru_leaf_heap s) of Inl e \<Rightarrow> (Inl e, es)
      | Inr (r, h) \<Rightarrow>
        let s1 = s\<lparr>gpu_lru_leaf_heap := h\<rparr> in
        if r \<notin> gpu_lru_leaf_set s1 then (Inl KeyError, es\<lparr>es_pcm := s1\<rparr>)
        else
          let s2 = s1\<lparr>gpu_lru_leaf_set := gpu_lru_leaf_set s1 - {r}\<rparr>;
              n = nodes s2 ! r
          in if \<not> (shared_count n = 0 \<and> is_gpu_leaf_node (nodes s2) n) then (Inr (), es\<lparr>es_pcm := s2\<rparr>)
             else if \<not> enable_hierarchical_cache s2 \<or> num_cpu_blocks s2 < need then
               let s3 = handle_free_gpu_node_without_cpu r s2 in
               (case parent n of
                  None \<Rightarrow> (Inl AttributeError, es\<lparr>es_pcm := s3, es_count := es_count es + 1\<rparr>)
                | Some p \<Rightarrow>
                    let s4 = detach_child p (hash_value n) s3 in
                    (Inr (), es\<lparr>es_pcm := (if children (nodes s4 ! p) = [] then push_if_evictable p s4 else s4),
                                es_count := es_count es + 1\<rparr>))
             else
               let s3 = upd_node r (cache_status_update (\<lambda>_. SWAP2CPU)) s2;
                   es1 = handle_free_gpu_node_with_cpu r (es\<lparr>es_pcm := s3\<rparr>);
                   es2 = es1\<lparr>es_count := es_count es + 1\<rparr>
               in (case parent n of
                     None \<Rightarrow> (Inl AttributeError, es2)
                   | Some p \<Rightarrow> (Inr (), es2\<lparr>es_pcm := push_if_evictable p (es_pcm es2)\<rparr>)))"

end
