(* ===== verification/PrefixCacheEvict.thy ===== *)
theory PrefixCacheEvict
  imports PrefixCacheOps
begin

text \<open>
  The eviction loops of the prefix cache manager, the task that swaps evicted blocks to the CPU,
  and their termination: every round takes a node from the heap and puts at most its parent back,
  and only after it has freed a block.
\<close>

lemma length_push_if_evictable:
  "length (gpu_lru_leaf_heap (push_if_evictable p s)) \<le> Suc (length (gpu_lru_leaf_heap s))"
  by (simp add: push_if_evictable_def push_gpu_lru_def Let_def)

lemma heap_upd_node [simp]:
  "gpu_lru_leaf_heap (upd_node r f s) = gpu_lru_leaf_heap s"
  "gpu_lru_leaf_set (upd_node r f s) = gpu_lru_leaf_set s"
  "cpu_lru_leaf_heap (upd_node r f s) = cpu_lru_leaf_heap s"
  "gpu_free_block_list (upd_node r f s) = gpu_free_block_list s"
  "cpu_free_block_list (upd_node r f s) = cpu_free_block_list s"
  "unfilled_req_block_map (upd_node r f s) = unfilled_req_block_map s"
  "node_id_pool (upd_node r f s) = node_id_pool s"
  "num_gpu_blocks (upd_node r f s) = num_gpu_blocks s"
  "num_cpu_blocks (upd_node r f s) = num_cpu_blocks s"
  "enable_hierarchical_cache (upd_node r f s) = enable_hierarchical_cache s"
  "length (nodes (upd_node r f s)) = length (nodes s)"
  by (simp_all add: upd_node_def)

lemma heap_recycle [simp]:
  "gpu_lru_leaf_heap (recycle_gpu_blocks bs s) = gpu_lru_leaf_heap s"
  "gpu_lru_leaf_set (recycle_gpu_blocks bs s) = gpu_lru_leaf_set s"
  "cpu_lru_leaf_heap (recycle_gpu_blocks bs s) = cpu_lru_leaf_heap s"
  "nodes (recycle_gpu_blocks bs s) = nodes s"
  "unfilled_req_block_map (recycle_gpu_blocks bs s) = unfilled_req_block_map s"
  "enable_hierarchical_cache (recycle_gpu_blocks bs s) = enable_hierarchical_cache s"
  "cpu_lru_leaf_heap (recycle_cpu_blocks bs s) = cpu_lru_leaf_heap s"
  "nodes (recycle_cpu_blocks bs s) = nodes s"
  "gpu_free_block_list (recycle_cpu_blocks bs s) = gpu_free_block_list s"
  "unfilled_req_block_map (recycle_cpu_blocks bs s) = unfilled_req_block_map s"
  by (simp_all add: recycle_gpu_blocks_def recycle_cpu_blocks_def)

lemma heap_free_without_cpu [simp]:
  "gpu_lru_leaf_heap (handle_free_gpu_node_without_cpu r s) = gpu_lru_leaf_heap s"
  "gpu_lru_leaf_set (handle_free_gpu_node_without_cpu r s) = gpu_lru_leaf_set s"
  by (simp_all add: handle_free_gpu_node_without_cpu_def Let_def)

lemma heap_detach_child [simp]:
  "gpu_lru_leaf_heap (detach_child p hv s) = gpu_lru_leaf_heap s"
  "gpu_lru_leaf_set (detach_child p hv s) = gpu_lru_leaf_set s"
  "cpu_lru_leaf_heap (detach_child p hv s) = cpu_lru_leaf_heap s"
  "gpu_free_block_list (detach_child p hv s) = gpu_free_block_list s"
  "unfilled_req_block_map (detach_child p hv s) = unfilled_req_block_map s"
  "length (nodes (detach_child p hv s)) = length (nodes s)"
  by (simp_all add: detach_child_def split: option.splits)

definition evict_measure :: "int \<Rightarrow> evict_state \<Rightarrow> nat" where
  "evict_measure need es = nat (need - es_count es) + length (gpu_lru_leaf_heap (es_pcm es))"

lemma evict_step_decreases:
  assumes "evict_step need es = (Inr u, es')" "es_count es < need"
  shows "evict_measure need es' < evict_measure need es"
proof -
  obtain r h where pop: "lru_pop (nodes (es_pcm es)) (gpu_lru_leaf_heap (es_pcm es)) = Inr (r, h)"
    using assms(1) by (auto simp: evict_step_def Let_def split: sum.splits)
  note len = lru_pop_Inr(3) [OF pop]
  have bound: "nat (need - (es_count es + 1)) + length (gpu_lru_leaf_heap (push_if_evictable p s))
      < Suc (nat (need - es_count es) + length h)" if "length (gpu_lru_leaf_heap s) = length h" for p s
    using that assms(2) length_push_if_evictable [of p s] by auto
  show ?thesis
    using assms pop len
    by (auto simp: evict_step_def evict_measure_def Let_def handle_free_gpu_node_with_cpu_def
        split: if_splits option.splits intro!: bound)
qed

function evict_loop :: "int \<Rightarrow> evict_state \<Rightarrow> (evict_state, unit) outcome" where
  "evict_loop need es =
     (if gpu_lru_leaf_heap (es_pcm es) = [] then (Inr (), es)
      else if es_count es \<ge> need then (Inr (), es)
      else case evict_step need es of
             (Inl e, es1) \<Rightarrow> (Inl e, es1)
           | (Inr _, es1) \<Rightarrow> evict_loop need es1)"
  by pat_completeness auto
termination
proof (relation "measure (\<lambda>(need, es). evict_measure need es)", goal_cases)
  case 1
  show ?case by simp
next
  case (2 need es x es1 u)
  then show ?case using evict_step_decreases [of need es u es1] by auto
qed

declare evict_loop.simps [simp del]

text \<open>
  \<open>free_block_ids_async\<close>. A future that ended with an exception raises it again and stays in place.
\<close>

definition free_block_ids_async :: "int \<Rightarrow> pcm \<Rightarrow> (pcm, unit) outcome" where
  "free_block_ids_async need s =
     (case gpu_free_task_future s of
        Some (Pending t) \<Rightarrow> (Inr (), s)
      | Some (Finished (Inl e)) \<Rightarrow> (Inl e, s)
      | _ \<Rightarrow>
        let s0 = s\<lparr>gpu_free_task_future := None\<rparr> in
        (case evict_loop need \<lparr>es_pcm = s0, es_count = 0, es_blocks = [], es_nodes = []\<rparr> of
           (Inl e, es) \<Rightarrow> (Inl e, es_pcm es)
         | (Inr _, es) \<Rightarrow>
             let s1 = es_pcm es; total = es_count es in
             if es_blocks es \<noteq> [] then
               let cpu = (if total > int (length (cpu_free_block_list s1))
                          then Some (if total < need then need else total) else None)
               in (Inr (), s1\<lparr>gpu_free_task_future :=
                     Some (Pending \<lparr>et_cpu_free = cpu, et_total = total,
                                    et_blocks = es_blocks es, et_nodes = es_nodes es\<rparr>)\<rparr>)
             else (Inr (), s1\<lparr>gpu_free_task_future := None\<rparr>)))"

subsection \<open>CPU eviction\<close>

definition free_cpu_step :: "pcm \<times> int \<Rightarrow> (pcm \<times> int, unit) outcome" where
  "free_cpu_step = (\<lambda>(s, cnt).
     case lru_pop (nodes s) (cpu_lru_leaf_heap s) of Inl e \<Rightarrow> (Inl e, (s, cnt))
     | Inr (r, h) \<Rightarrow>
       let s1 = s\<lparr>cpu_lru_leaf_heap := h\<rparr> in
       if r \<notin> cpu_lru_leaf_set s1 then (Inl KeyError, (s1, cnt))
       else
         let s2 = s1\<lparr>cpu_lru_leaf_set := cpu_lru_leaf_set s1 - {r}\<rparr>; n = nodes s2 ! r in
         if shared_count n = 0 \<and> cache_status n = CPU \<and> is_cpu_leaf_node n then
           let s3 = recycle_cpu_blocks [block_id n] s2;
               s4 = s3\<lparr>node_id_pool := node_id_pool s3 @ [node_id n],
                       node_map := (node_map s3)(node_id n := None)\<rparr>
           in (case parent n of None \<Rightarrow> (Inl AttributeError, (s4, cnt + 1))
               | Some p \<Rightarrow>
                 let s5 = detach_child p (hash_value n) s4; np = nodes s5 ! p in
                 if children np = [] \<and> p \<notin> cpu_lru_leaf_set s5 \<and> p \<noteq> radix_tree_root \<and>
                    shared_count np = 0 \<and> is_cpu_leaf_node np \<and> cache_status np = CPU
                 then (Inr (), (push_cpu_lru p s5, cnt + 1))
                 else (Inr (), (s5, cnt + 1)))
         else (Inr (), (s2, cnt)))"

lemma free_cpu_step_decreases:
  assumes "free_cpu_step (s, cnt) = (Inr u, (s', cnt'))" "cnt < need"
  shows "nat (need - cnt') + length (cpu_lru_leaf_heap s')
         < nat (need - cnt) + length (cpu_lru_leaf_heap s)"
proof -
  obtain r h where pop: "lru_pop (nodes s) (cpu_lru_leaf_heap s) = Inr (r, h)"
    using assms(1) by (auto simp: free_cpu_step_def Let_def split: sum.splits)
  note len = lru_pop_Inr(3) [OF pop]
  show ?thesis
    using assms pop len
    by (auto simp: free_cpu_step_def Let_def push_cpu_lru_def split: if_splits option.splits)
qed

function free_cpu_loop :: "int \<Rightarrow> pcm \<times> int \<Rightarrow> (pcm \<times> int, unit) outcome" where
  "free_cpu_loop need sc =
     (if cpu_lru_leaf_heap (fst sc) = [] then (Inr (), sc)
      else if snd sc \<ge> need then (Inr (), sc)
      else case free_cpu_step sc of
             (Inl e, sc1) \<Rightarrow> (Inl e, sc1)
           | (Inr _, sc1) \<Rightarrow> free_cpu_loop need sc1)"
  by pat_completeness auto
termination
proof (relation "measure (\<lambda>(need, s, cnt). nat (need - cnt) + length (cpu_lru_leaf_heap s))", goal_cases)
  case 1
  show ?case by simp
next
  case (2 need sc x sc1 u)
  then show ?case
    using free_cpu_step_decreases [of "fst sc" "snd sc" u "fst sc1" "snd sc1" need]
    by (auto simp: split_beta)
qed

declare free_cpu_loop.simps [simp del]

definition free_cpu_block_ids :: "int \<Rightarrow> pcm \<Rightarrow> (pcm, int) outcome" where
  "free_cpu_block_ids need s =
     (case free_cpu_loop need (s, 0) of
        (Inl e, (s1, _)) \<Rightarrow> (Inl e, s1)
      | (Inr _, (s1, cnt)) \<Rightarrow> (Inr cnt, s1))"

subsection \<open>The swap task\<close>

text \<open>
  \<open>_evict_cache_async\<close>: wait for the CPU eviction, take CPU blocks, and swap the blocks of every
  hash group in reverse order of eviction.
\<close>

definition evict_cache_async :: "evict_task \<Rightarrow> pcm \<Rightarrow> (pcm, unit) outcome" where
  "evict_cache_async t s =
     andthen (case et_cpu_free t of None \<Rightarrow> (Inr 0, s) | Some k \<Rightarrow> free_cpu_block_ids k s) (\<lambda>_ s1.
     andthen (allocate_cpu_blocks (et_total t) s1) (\<lambda>cpu_block_ids s2.
     let gpus = concat (map (\<lambda>(_, bs). rev bs) (et_blocks t));
         nids = concat (map (\<lambda>(h, _). rev (case map_of (et_nodes t) h of None \<Rightarrow> [] | Some ns \<Rightarrow> ns))
                       (et_blocks t))
     in if length cpu_block_ids < length gpus then (Inl IndexError, s2)
        else issue_swap_task nids gpus (take (length gpus) cpu_block_ids) SWAP2CPU s2))"

text \<open>The executor runs a pending task and keeps its result in the future.\<close>

definition run_gpu_free_task :: "pcm \<Rightarrow> pcm" where
  "run_gpu_free_task s =
     (case gpu_free_task_future s of
        Some (Pending t) \<Rightarrow>
          (case evict_cache_async t s of (r, s1) \<Rightarrow> s1\<lparr>gpu_free_task_future := Some (Finished r)\<rparr>)
      | _ \<Rightarrow> s)"

end
