(* ===== verification/PrefixCacheInv.thy ===== *)
theory PrefixCacheInv
  imports PrefixCacheEvict
begin

text \<open>
  The invariant of the prefix cache without the CPU tier, and the account of GPU blocks: every
  block is in the free list, in the tree (as the block of a node or reserved behind it) or in the
  table of requests shorter than one block.
\<close>

subsection \<open>Well-formed trees\<close>

definition tree_wf :: "BlockNode list \<Rightarrow> bool" where
  "tree_wf ns \<longleftrightarrow>
     ns \<noteq> [] \<and>
     (\<forall>r < length ns. r \<noteq> 0 \<longrightarrow> (\<exists>p < r. parent (ns ! r) = Some p)) \<and>
     (\<forall>r < length ns. distinct (map fst (children (ns ! r))) \<and>
        (\<forall>(h, c) \<in> set (children (ns ! r)).
           r < c \<and> c < length ns \<and> parent (ns ! c) = Some r \<and> hash_value (ns ! c) = Some h))"

definition gpu_only :: "BlockNode list \<Rightarrow> bool" where
  "gpu_only ns \<longleftrightarrow>
     (\<forall>r < length ns. \<forall>(h, c) \<in> set (children (ns ! r)). cache_status (ns ! c) = GPU)"

definition lru_ok :: "pcm \<Rightarrow> bool" where
  "lru_ok s \<longleftrightarrow>
     set (gpu_lru_leaf_heap s) = gpu_lru_leaf_set s \<and> distinct (gpu_lru_leaf_heap s) \<and>
     (\<forall>r \<in> gpu_lru_leaf_set s. 0 < r \<and> r < length (nodes s)) \<and> cpu_lru_leaf_set s = {}"

lemma tree_wf_parent: "tree_wf ns \<Longrightarrow> r < length ns \<Longrightarrow> r \<noteq> 0 \<Longrightarrow> \<exists>p < r. parent (ns ! r) = Some p"
  by (auto simp: tree_wf_def)

lemma tree_wf_child:
  assumes "tree_wf ns" "r < length ns" "map_of (children (ns ! r)) h = Some c"
  shows "r < c" "c < length ns" "parent (ns ! c) = Some r" "hash_value (ns ! c) = Some h"
  using assms map_of_SomeD [OF assms(3)] unfolding tree_wf_def by fastforce+

lemma gpu_only_child:
  assumes "gpu_only ns" "r < length ns" "map_of (children (ns ! r)) h = Some c"
  shows "cache_status (ns ! c) = GPU"
  using assms map_of_SomeD [OF assms(3)] unfolding gpu_only_def by fastforce

subsection \<open>Accounts\<close>

definition owned :: "BlockNode \<Rightarrow> block_id multiset" where
  "owned n = (if cache_status n = GPU \<or> cache_status n = SWAP2CPU then {#block_id n#} else {#})
             + mset (reverved_dec_block_ids n)"

definition tree_blocks :: "BlockNode list \<Rightarrow> block_id multiset" where
  "tree_blocks ns = sum_list (map owned ns)"

definition unfilled_blocks :: "pcm \<Rightarrow> block_id multiset" where
  "unfilled_blocks s = sum_list (map (\<lambda>(_, bs). mset bs) (unfilled_req_block_map s))"

definition gpu_account :: "pcm \<Rightarrow> block_id multiset" where
  "gpu_account s = mset (gpu_free_block_list s) + tree_blocks (nodes s) + unfilled_blocks s"

lemma tree_blocks_append [block_simps]: "tree_blocks (ns @ ms) = tree_blocks ns + tree_blocks ms"
  by (simp add: tree_blocks_def)

lemma tree_blocks_update:
  "r < length ns \<Longrightarrow> tree_blocks (ns[r := n]) + owned (ns ! r) = tree_blocks ns + owned n"
  unfolding tree_blocks_def by (rule sum_list_update_mset)

lemma tree_blocks_update_same:
  "owned n = owned (ns ! r) \<Longrightarrow> tree_blocks (ns[r := n]) = tree_blocks ns"
  unfolding tree_blocks_def
  by (cases "r < length ns") (simp_all add: sum_list_update_same list_update_beyond)

lemma upd_node_nodes [simp]: "nodes (upd_node r f s) = (nodes s)[r := f (nodes s ! r)]"
  by (simp add: upd_node_def)

text \<open>Updates that touch only the bookkeeping fields of one node keep its shape.\<close>

definition shape :: "BlockNode \<Rightarrow> BlockNode" where
  "shape n = n\<lparr>shared_count := 0, last_used_time := None, req_id_set := {}\<rparr>"

lemma shape_fields:
  assumes "shape n = shape m"
  shows "parent n = parent m" "children n = children m" "hash_value n = hash_value m"
    "cache_status n = cache_status m" "block_id n = block_id m" "depth n = depth m"
    "reverved_dec_block_ids n = reverved_dec_block_ids m" "node_id n = node_id m"
    "is_persistent n = is_persistent m"
  using assms by (cases n; cases m; simp add: shape_def)+

lemma map_shape_nth:
  assumes "map shape ms = map shape ns" "r < length ns"
  shows "shape (ms ! r) = shape (ns ! r)"
proof -
  have "length ms = length ns" using assms(1) by (metis length_map)
  then show ?thesis using assms by (metis nth_map)
qed

lemma map_shape_length: "map shape ms = map shape ns \<Longrightarrow> length ms = length ns"
  by (metis length_map)

lemma tree_wf_cong:
  assumes wf: "tree_wf ns" and len: "length ms = length ns"
    and par: "\<And>r. r < length ns \<Longrightarrow> parent (ms ! r) = parent (ns ! r)"
    and chd: "\<And>r. r < length ns \<Longrightarrow> children (ms ! r) = children (ns ! r)"
    and hv: "\<And>r. r < length ns \<Longrightarrow> hash_value (ms ! r) = hash_value (ns ! r)"
  shows "tree_wf ms"
  unfolding tree_wf_def
proof (intro conjI allI impI ballI)
  show "ms \<noteq> []" using wf len by (auto simp: tree_wf_def)
next
  fix r assume "r < length ms" "r \<noteq> 0"
  then show "\<exists>p < r. parent (ms ! r) = Some p" using tree_wf_parent [OF wf] len par by simp
next
  fix r assume "r < length ms"
  then show "distinct (map fst (children (ms ! r)))" using wf len chd by (simp add: tree_wf_def)
next
  fix r hc assume r: "r < length ms" and hc: "hc \<in> set (children (ms ! r))"
  obtain h c where [simp]: "hc = (h, c)" by (cases hc)
  have "(h, c) \<in> set (children (ns ! r))" using r hc len chd by simp
  with wf r len have "r < c \<and> c < length ns \<and> parent (ns ! c) = Some r \<and> hash_value (ns ! c) = Some h"
    unfolding tree_wf_def by fastforce
  then show "case hc of (h, c) \<Rightarrow> r < c \<and> c < length ms \<and> parent (ms ! c) = Some r \<and> hash_value (ms ! c) = Some h"
    using len par hv by simp
qed

lemma gpu_only_cong:
  assumes wf: "tree_wf ns" and g: "gpu_only ns" and len: "length ms = length ns"
    and chd: "\<And>r. r < length ns \<Longrightarrow> children (ms ! r) = children (ns ! r)"
    and st: "\<And>r. r < length ns \<Longrightarrow> cache_status (ms ! r) = cache_status (ns ! r)"
  shows "gpu_only ms"
  unfolding gpu_only_def
proof (intro allI impI ballI)
  fix r hc assume r: "r < length ms" and hc: "hc \<in> set (children (ms ! r))"
  obtain h c where [simp]: "hc = (h, c)" by (cases hc)
  have in_ns: "(h, c) \<in> set (children (ns ! r))" using r hc len chd by simp
  with wf r len have "c < length ns" unfolding tree_wf_def by fastforce
  moreover have "cache_status (ns ! c) = GPU" using g r len in_ns unfolding gpu_only_def by fastforce
  ultimately show "case hc of (h, c) \<Rightarrow> cache_status (ms ! c) = GPU" using st by simp
qed

lemma tree_wf_shape:
  assumes wf: "tree_wf ns" and eq: "map shape ms = map shape ns"
  shows "tree_wf ms"
proof -
  note f = shape_fields [OF map_shape_nth [OF eq]]
  show ?thesis by (rule tree_wf_cong [OF wf map_shape_length [OF eq]]) (erule f)+
qed

lemma gpu_only_shape:
  assumes wf: "tree_wf ns" and g: "gpu_only ns" and eq: "map shape ms = map shape ns"
  shows "gpu_only ms"
proof -
  note f = shape_fields [OF map_shape_nth [OF eq]]
  show ?thesis by (rule gpu_only_cong [OF wf g map_shape_length [OF eq]]) (erule f)+
qed

lemma owned_shape: "shape n = shape m \<Longrightarrow> owned n = owned m"
  by (simp add: owned_def shape_fields [of n m])

lemma tree_blocks_shape:
  assumes "map shape ms = map shape ns"
  shows "tree_blocks ms = tree_blocks ns"
proof -
  have "map owned ms = map owned ns"
    using map_shape_length [OF assms] owned_shape [OF map_shape_nth [OF assms]]
    by (intro nth_equalityI) simp_all
  then show ?thesis by (simp add: tree_blocks_def)
qed

subsection \<open>Matching\<close>

text \<open>The path a sequence of blocks selects in the tree, as a specification.\<close>

fun descend :: "(token list \<Rightarrow> int) \<Rightarrow> BlockNode list \<Rightarrow> ref \<Rightarrow> token list list \<Rightarrow> ref list" where
  "descend H ns r [] = []"
| "descend H ns r (b # bs) =
     (case map_of (children (ns ! r)) (H b) of None \<Rightarrow> [] | Some c \<Rightarrow> c # descend H ns c bs)"

lemma descend_length: "length (descend H ns r bs) \<le> length bs"
  by (induction bs arbitrary: r) (auto split: option.splits)

lemma descend_valid:
  assumes "tree_wf ns" "r < length ns"
  shows "\<forall>c \<in> set (descend H ns r bs). r < c \<and> c < length ns"
  using assms
proof (induction bs arbitrary: r)
  case Nil
  then show ?case by simp
next
  case (Cons b bs)
  show ?case
  proof (cases "map_of (children (ns ! r)) (H b)")
    case None
    then show ?thesis by simp
  next
    case (Some c)
    note c = tree_wf_child(1,2) [OF Cons.prems Some]
    have "\<forall>d \<in> set (descend H ns c bs). c < d \<and> d < length ns"
      using Cons.IH [OF Cons.prems(1) c(2)] .
    with c Some show ?thesis by auto
  qed
qed

lemma descend_last_valid:
  assumes "tree_wf ns" "r < length ns"
  shows "last (r # descend H ns r bs) < length ns"
  using descend_valid [OF assms, of H bs] assms(2) by (metis last.simps last_in_set)

lemma descend_append:
  assumes "length (descend H ns r xs) = length xs"
  shows "descend H ns r (xs @ ys) = descend H ns r xs @ descend H ns (last (r # descend H ns r xs)) ys"
  using assms by (induction xs arbitrary: r) (auto split: option.splits)

lemma descend_cong:
  assumes "\<forall>c \<in> insert r (set (butlast (r # descend H ns r bs))). children (ms ! c) = children (ns ! c)"
  shows "length (descend H ns r bs) = length bs \<longrightarrow> descend H ms r bs = descend H ns r bs"
  using assms by (induction bs arbitrary: r) (auto split: option.splits if_splits)

definition forget_all :: "ref list \<Rightarrow> pcm \<Rightarrow> pcm" where
  "forget_all path s = s\<lparr>gpu_lru_leaf_set := gpu_lru_leaf_set s - set path,
                         gpu_lru_leaf_heap := filter (\<lambda>r. r \<notin> set path) (gpu_lru_leaf_heap s)\<rparr>"

lemma forget_all_Nil [simp]: "forget_all [] s = s"
  by (simp add: forget_all_def)

lemma forget_all_Cons: "forget_all path (forget_all [c] s) = forget_all (c # path) s"
  by (simp add: forget_all_def Diff_insert2 [symmetric])

lemma lru_forget_ok:
  assumes "lru_ok s"
  shows "lru_forget c s = (Inr (), forget_all [c] s)"
proof (cases "c \<in> gpu_lru_leaf_set s")
  case True
  with assms have "c \<in> set (gpu_lru_leaf_heap s)" "distinct (gpu_lru_leaf_heap s)"
    by (auto simp: lru_ok_def)
  moreover have "removeAll c h = filter (\<lambda>r. r \<noteq> c) h" for h :: "ref list"
    by (induction h) auto
  ultimately show ?thesis using True
    by (simp add: lru_forget_def forget_all_def distinct_remove1_removeAll)
next
  case False
  with assms have "filter (\<lambda>r. r \<noteq> c) (gpu_lru_leaf_heap s) = gpu_lru_leaf_heap s"
    by (auto simp: lru_ok_def filter_id_conv)
  with False assms show ?thesis
    by (simp add: lru_forget_def forget_all_def lru_ok_def)
qed

lemma lru_ok_forget: "lru_ok s \<Longrightarrow> lru_ok (forget_all path s)"
  by (auto simp: lru_ok_def forget_all_def)

end
