(* ===== verification/PrefixCacheWalk.thy ===== *)
theory PrefixCacheWalk
  imports PrefixCacheInv
begin

text \<open>
  What matching and the two walks to the root do in a well-formed tree: the matched path is the one
  the specification \<open>descend\<close> selects, and a walk updates exactly the nodes on the way to the root.
\<close>

subsection \<open>Matching in a tree without a CPU tier\<close>

definition match_result :: "nat \<Rightarrow> BlockNode list \<Rightarrow> ref list \<Rightarrow> match_acc \<Rightarrow> match_acc" where
  "match_result bs ns path acc =
     acc\<lparr>match_gpu_block_ids := match_gpu_block_ids acc @ map (\<lambda>c. block_id (ns ! c)) path,
         gpu_match_token_num := gpu_match_token_num acc + int bs * int (length path),
         current_match_node := last (current_match_node acc # path)\<rparr>"

lemma match_loop_gpu:
  assumes "lru_ok s" "tree_wf (nodes s)" "gpu_only (nodes s)"
    "current_match_node acc < length (nodes s)"
  shows "match_loop H bs blks acc s =
    (let path = descend H (nodes s) (current_match_node acc) blks
     in (Inr (match_result bs (nodes s) path acc), forget_all path s))"
  using assms
proof (induction blks arbitrary: acc s)
  case Nil
  then show ?case by (simp add: match_result_def)
next
  case (Cons b blks)
  show ?case
  proof (cases "map_of (children (nodes s ! current_match_node acc)) (H b)")
    case None
    then show ?thesis by (simp add: match_result_def)
  next
    case (Some c)
    let ?s1 = "forget_all [c] s"
    let ?acc1 = "acc\<lparr>match_gpu_block_ids := match_gpu_block_ids acc @ [block_id (nodes s ! c)],
             gpu_match_token_num := gpu_match_token_num acc + int bs, current_match_node := c\<rparr>"
    have gpu: "cache_status (nodes s ! c) = GPU" using gpu_only_child [OF Cons.prems(3,4) Some] .
    have c: "c < length (nodes s)" using tree_wf_child(2) [OF Cons.prems(2,4) Some] .
    have ns: "nodes ?s1 = nodes s" by (simp add: forget_all_def)
    have child: "match_child bs c acc ?s1 = (?acc1, ?s1)"
      by (simp add: match_child_def has_in_gpu_def ns gpu)
    have "match_loop H bs blks ?acc1 ?s1 =
      (let path = descend H (nodes s) c blks
       in (Inr (match_result bs (nodes s) path ?acc1), forget_all path ?s1))"
      using Cons.IH [of ?s1 ?acc1] Cons.prems c lru_ok_forget by (simp add: ns)
    then show ?thesis
      using Some child lru_forget_ok [OF Cons.prems(1)]
      by (simp add: Let_def forget_all_Cons match_result_def algebra_simps)
  qed
qed

lemma match_block_gpu:
  assumes "lru_ok s" "tree_wf (nodes s)" "gpu_only (nodes s)"
  shows "match_block H ids bs s =
    (let path = descend H (nodes s) 0 (full_blocks bs ids)
     in (Inr (match_result bs (nodes s) path match_init), forget_all path s))"
proof -
  have "0 < length (nodes s)" using assms(2) by (auto simp: tree_wf_def)
  then show ?thesis using match_loop_gpu [OF assms, of match_init] by (simp add: match_block_def match_init_def)
qed

subsection \<open>Walks\<close>

fun walk_up :: "(BlockNode \<Rightarrow> BlockNode) \<Rightarrow> nat \<Rightarrow> ref \<Rightarrow> pcm \<Rightarrow> (pcm, unit) outcome" where
  "walk_up f 0 r s = (Inl NoReturn, s)"
| "walk_up f (Suc fuel) r s =
     (if r = 0 then (Inr (), s)
      else case parent (nodes s ! r) of
             None \<Rightarrow> (Inl AttributeError, upd_node r f s)
           | Some p \<Rightarrow> walk_up f fuel p (upd_node r f s))"

definition touch :: "req_id \<Rightarrow> int \<Rightarrow> BlockNode \<Rightarrow> BlockNode" where
  "touch req now n = (increment_shared_count n)
     \<lparr>last_used_time := Some now, req_id_set := insert req (req_id_set n)\<rparr>"

definition untouch :: "req_id \<Rightarrow> BlockNode \<Rightarrow> BlockNode" where
  "untouch req n = decrement_shared_count (n\<lparr>req_id_set := req_id_set n - {req}\<rparr>)"

lemma update_matched_walk_eq: "update_matched_walk fuel req now r s = walk_up (touch req now) fuel r s"
  by (induction fuel arbitrary: r s) (auto simp: Let_def touch_def [abs_def] split: option.splits)

lemma release_walk_eq: "release_walk fuel req r s = walk_up (untouch req) fuel r s"
  by (induction fuel arbitrary: r s) (auto simp: Let_def untouch_def [abs_def] split: option.splits)

lemma shape_touch [simp]: "shape (touch req now n) = shape n"
  by (simp add: shape_def touch_def increment_shared_count_def)

lemma shape_untouch [simp]: "shape (untouch req n) = shape n"
  by (simp add: shape_def untouch_def decrement_shared_count_def)

text \<open>The nodes on the way from a node to the root, the root excluded.\<close>

function chain :: "BlockNode list \<Rightarrow> ref \<Rightarrow> ref list" where
  "chain ns r =
     (if r = 0 then []
      else case parent (ns ! r) of None \<Rightarrow> [r]
           | Some p \<Rightarrow> if p < r then r # chain ns p else [r])"
  by pat_completeness auto
termination
  by (relation "measure snd") auto

declare chain.simps [simp del]

lemma chain_0 [simp]: "chain ns 0 = []"
  by (simp add: chain.simps)

lemma chain_step: "r \<noteq> 0 \<Longrightarrow> parent (ns ! r) = Some p \<Longrightarrow> p < r \<Longrightarrow> chain ns r = r # chain ns p"
  by (simp add: chain.simps)

lemma chain_range: "k \<in> set (chain ns r) \<Longrightarrow> 0 < k \<and> k \<le> r"
proof (induction ns r rule: chain.induct)
  case (1 ns r)
  then show ?case
    by (subst (asm) (2) chain.simps) (auto split: option.splits if_splits)
qed

lemma chain_self: "r \<noteq> 0 \<Longrightarrow> r \<in> set (chain ns r)"
  by (subst chain.simps) (auto split: option.splits)

lemma chain_cong:
  assumes "\<And>k. k \<le> r \<Longrightarrow> parent (ms ! k) = parent (ns ! k)"
  shows "chain ms r = chain ns r"
  using assms
proof (induction r rule: less_induct)
  case (less r)
  show ?case
  proof (cases "r = 0 \<or> parent (ns ! r) = None")
    case True
    then show ?thesis using less.prems [of r] by (auto simp: chain.simps [of _ r])
  next
    case False
    then obtain p where p: "parent (ns ! r) = Some p" by auto
    then show ?thesis
      using less.IH [of p] less.prems [of r] less.prems by (auto simp: chain.simps [of _ r])
  qed
qed

definition on_set :: "ref set \<Rightarrow> (BlockNode \<Rightarrow> BlockNode) \<Rightarrow> BlockNode list \<Rightarrow> BlockNode list" where
  "on_set A f ns = map (\<lambda>k. if k \<in> A then f (ns ! k) else ns ! k) [0..<length ns]"

lemma length_on_set [simp]: "length (on_set A f ns) = length ns"
  by (simp add: on_set_def)

lemma on_set_nth [simp]: "k < length ns \<Longrightarrow> on_set A f ns ! k = (if k \<in> A then f (ns ! k) else ns ! k)"
  by (simp add: on_set_def)

lemma on_set_empty [simp]: "on_set {} f ns = ns"
  by (simp add: on_set_def map_nth)

lemma on_set_insert:
  "r \<notin> A \<Longrightarrow> on_set A f (ns[r := f (ns ! r)]) = on_set (insert r A) f ns"
  by (cases "r < length ns"; intro nth_equalityI) (auto simp: nth_list_update list_update_beyond)

lemma map_shape_on_set: "(\<And>n. shape (f n) = shape n) \<Longrightarrow> map shape (on_set A f ns) = map shape ns"
  by (intro nth_equalityI) auto

lemma walk_up_ok:
  assumes "tree_wf (nodes s)" "r < length (nodes s)" "r < fuel" "\<And>n. shape (f n) = shape n"
  shows "walk_up f fuel r s = (Inr (), s\<lparr>nodes := on_set (set (chain (nodes s) r)) f (nodes s)\<rparr>)"
  using assms(1-3)
proof (induction fuel arbitrary: r s)
  case 0
  then show ?case by simp
next
  case (Suc fuel)
  show ?case
  proof (cases "r = 0")
    case True
    then show ?thesis by simp
  next
    case False
    then obtain p where p: "p < r" "parent (nodes s ! r) = Some p"
      using tree_wf_parent [OF Suc.prems(1,2)] by blast
    let ?s1 = "upd_node r f s"
    have eq: "map shape (nodes ?s1) = map shape (nodes s)"
      using assms(4) by (simp add: map_update list_update_same_conv Suc.prems(2))
    have par: "parent (nodes ?s1 ! k) = parent (nodes s ! k)" if "k < length (nodes s)" for k
      using shape_fields(1) [OF map_shape_nth [OF eq that]] .
    have ch: "chain (nodes ?s1) p = chain (nodes s) p"
      using p(1) Suc.prems(2) par by (intro chain_cong) simp
    have notin: "r \<notin> set (chain (nodes s) p)" using chain_range p(1) by fastforce
    have "walk_up f fuel p ?s1 = (Inr (), ?s1\<lparr>nodes := on_set (set (chain (nodes s) p)) f (nodes ?s1)\<rparr>)"
      using Suc.IH [of ?s1 p] tree_wf_shape [OF Suc.prems(1) eq] Suc.prems p ch by simp
    then show ?thesis
      using False p on_set_insert [OF notin, of f "nodes s"]
      by (simp add: chain_step upd_node_def)
  qed
qed

lemma update_matched_node_info_ok:
  assumes "tree_wf (nodes s)" "r < length (nodes s)"
  shows "update_matched_node_info req r now s =
    (Inr (), s\<lparr>nodes := on_set (set (chain (nodes s) r)) (touch req now) (nodes s)\<rparr>)"
  using assms by (simp add: update_matched_node_info_def update_matched_walk_eq walk_up_ok del: walk_up.simps)

lemma release_walk_ok:
  assumes "tree_wf (nodes s)" "r < length (nodes s)"
  shows "release_walk (Suc (length (nodes s))) req r s =
    (Inr (), s\<lparr>nodes := on_set (set (chain (nodes s) r)) (untouch req) (nodes s)\<rparr>)"
  using assms by (simp add: release_walk_eq walk_up_ok del: walk_up.simps release_walk.simps)

end
