(* ===== verification/PrefixCacheBuild.thy ===== *)
theory PrefixCacheBuild
  imports PrefixCacheWalk
begin

text \<open>
  Building a path: what \<open>build_nodes\<close> and \<open>build_path\<close> add to the tree, and that the path they build is
  the one a later match of the same blocks finds.
\<close>

subsection \<open>Blocks of a prompt\<close>

lemma full_blocks_0 [simp]: "full_blocks 0 ids = []"
  by (simp add: full_blocks.simps)

lemma full_blocks_short [simp]: "length ids < bs \<Longrightarrow> full_blocks bs ids = []"
  by (simp add: full_blocks.simps)

lemma length_full_blocks: "0 < bs \<Longrightarrow> length (full_blocks bs ids) = length ids div bs"
proof (induction bs ids rule: full_blocks.induct)
  case (1 bs ids)
  show ?case
  proof (cases "length ids < bs")
    case True
    then show ?thesis by simp
  next
    case False
    with 1 have "length (full_blocks bs (drop bs ids)) = (length ids - bs) div bs" by simp
    with False 1(2) show ?thesis
      by (subst full_blocks.simps) (simp add: le_div_geq)
  qed
qed

lemma full_blocks_drop: "full_blocks bs (drop (k * bs) ids) = drop k (full_blocks bs ids)"
proof (induction k arbitrary: ids)
  case 0
  then show ?case by simp
next
  case (Suc k)
  show ?case
  proof (cases "bs = 0 \<or> length ids < bs")
    case True
    then show ?thesis by auto
  next
    case False
    then have "full_blocks bs ids = take bs ids # full_blocks bs (drop bs ids)"
      by (subst full_blocks.simps) simp
    then show ?thesis using Suc.IH [of "drop bs ids"] by (simp add: drop_drop add.commute)
  qed
qed

subsection \<open>Adding one child\<close>

definition add_child :: "BlockNode list \<Rightarrow> ref \<Rightarrow> int \<Rightarrow> BlockNode \<Rightarrow> BlockNode list" where
  "add_child ns node hv new =
     ns[node := (ns ! node)\<lparr>children := AList.update hv (length ns) (children (ns ! node))\<rparr>] @ [new]"

lemma add_child_nth:
  assumes "node < length ns"
  shows "add_child ns node hv new ! length ns = new"
    "add_child ns node hv new ! node =
       (ns ! node)\<lparr>children := AList.update hv (length ns) (children (ns ! node))\<rparr>"
    "k < length ns \<Longrightarrow> k \<noteq> node \<Longrightarrow> add_child ns node hv new ! k = ns ! k"
  using assms by (simp_all add: add_child_def nth_append)

lemma length_add_child [simp]: "length (add_child ns node hv new) = Suc (length ns)"
  by (simp add: add_child_def)

lemma tree_wfI:
  assumes "ns \<noteq> []"
    and "\<And>r. r < length ns \<Longrightarrow> r \<noteq> 0 \<Longrightarrow> \<exists>p < r. parent (ns ! r) = Some p"
    and "\<And>r. r < length ns \<Longrightarrow> distinct (map fst (children (ns ! r)))"
    and "\<And>r h c. r < length ns \<Longrightarrow> map_of (children (ns ! r)) h = Some c \<Longrightarrow>
           r < c \<and> c < length ns \<and> parent (ns ! c) = Some r \<and> hash_value (ns ! c) = Some h"
  shows "tree_wf ns"
  unfolding tree_wf_def
proof (intro conjI allI impI ballI)
  fix r hc assume r: "r < length ns" and hc: "hc \<in> set (children (ns ! r))"
  obtain h c where [simp]: "hc = (h, c)" by (cases hc)
  have "map_of (children (ns ! r)) h = Some c" using assms(3) [OF r] hc by simp
  then show "case hc of (h, c) \<Rightarrow> r < c \<and> c < length ns \<and> parent (ns ! c) = Some r \<and> hash_value (ns ! c) = Some h"
    using assms(4) [OF r] by simp
qed (fact assms(1-3))+

lemma gpu_onlyI:
  assumes "tree_wf ns"
    and "\<And>r h c. r < length ns \<Longrightarrow> map_of (children (ns ! r)) h = Some c \<Longrightarrow> cache_status (ns ! c) = GPU"
  shows "gpu_only ns"
  unfolding gpu_only_def
proof (intro allI impI ballI)
  fix r hc assume r: "r < length ns" and hc: "hc \<in> set (children (ns ! r))"
  obtain h c where [simp]: "hc = (h, c)" by (cases hc)
  have "distinct (map fst (children (ns ! r)))" using assms(1) r by (simp add: tree_wf_def)
  then have "map_of (children (ns ! r)) h = Some c" using hc by simp
  then show "case hc of (h, c) \<Rightarrow> cache_status (ns ! c) = GPU" using assms(2) [OF r] by simp
qed

lemma tree_wf_distinct: "tree_wf ns \<Longrightarrow> r < length ns \<Longrightarrow> distinct (map fst (children (ns ! r)))"
  by (simp add: tree_wf_def)

lemma add_child_parent:
  assumes "node < length ns" "k < length ns"
  shows "parent (add_child ns node hv new ! k) = parent (ns ! k)"
    "hash_value (add_child ns node hv new ! k) = hash_value (ns ! k)"
    "cache_status (add_child ns node hv new ! k) = cache_status (ns ! k)"
    "owned (add_child ns node hv new ! k) = owned (ns ! k)"
    "shared_count (add_child ns node hv new ! k) = shared_count (ns ! k)"
  using assms by (cases "k = node"; simp add: add_child_nth owned_def)+

lemma add_child_children:
  assumes "node < length ns" "children new = []" "k \<le> length ns"
  shows "children (add_child ns node hv new ! k) =
    (if k = length ns then [] else if k = node then AList.update hv (length ns) (children (ns ! node))
     else children (ns ! k))"
  using assms by (cases "k = length ns"; cases "k = node"; simp add: add_child_nth)

lemma tree_wf_add_child:
  assumes wf: "tree_wf ns" and node: "node < length ns" and new: "children new = []"
    "parent new = Some node" "hash_value new = Some hv"
  shows "tree_wf (add_child ns node hv new)"
proof (rule tree_wfI)
  let ?ms = "add_child ns node hv new"
  show "?ms \<noteq> []" by (simp add: add_child_def)
  show "\<exists>p < r. parent (?ms ! r) = Some p" if "r < length ?ms" "r \<noteq> 0" for r
    using that node new tree_wf_parent [OF wf, of r]
    by (cases "r = length ns") (auto simp: add_child_nth add_child_parent)
  show "distinct (map fst (children (?ms ! r)))" if "r < length ?ms" for r
    using that tree_wf_distinct [OF wf, of r] add_child_children [OF node new(1), of r hv]
      tree_wf_distinct [OF wf node] by (simp add: distinct_update)
  show "r < c \<and> c < length ?ms \<and> parent (?ms ! c) = Some r \<and> hash_value (?ms ! c) = Some h"
    if "r < length ?ms" "map_of (children (?ms ! r)) h = Some c" for r h c
  proof (cases "r = node \<and> h = hv")
    case True
    with that have "c = length ns" using add_child_children [OF node new(1), of r hv] node
      by (simp add: update_conv)
    with True node new show ?thesis by (simp add: add_child_nth)
  next
    case False
    with that have r: "r < length ns" and c: "map_of (children (ns ! r)) h = Some c"
      using add_child_children [OF node new(1), of r hv] by (auto simp: update_conv split: if_splits)
    from tree_wf_child [OF wf r c] show ?thesis by (simp add: add_child_parent [OF node])
  qed
qed

lemma gpu_only_add_child:
  assumes wf: "tree_wf ns" and g: "gpu_only ns" and node: "node < length ns" and new: "children new = []"
    "parent new = Some node" "hash_value new = Some hv" "cache_status new = GPU"
  shows "gpu_only (add_child ns node hv new)"
proof (rule gpu_onlyI [OF tree_wf_add_child [OF wf node new(1-3)]])
  let ?ms = "add_child ns node hv new"
  fix r h c assume a: "r < length ?ms" "map_of (children (?ms ! r)) h = Some c"
  show "cache_status (?ms ! c) = GPU"
  proof (cases "r = node \<and> h = hv")
    case True
    with a have "c = length ns" using add_child_children [OF node new(1), of r hv] node
      by (simp add: update_conv)
    with new node show ?thesis by (simp add: add_child_nth)
  next
    case False
    with a have r: "r < length ns" and c: "map_of (children (ns ! r)) h = Some c"
      using add_child_children [OF node new(1), of r hv] by (auto simp: update_conv split: if_splits)
    from gpu_only_child [OF g r c] tree_wf_child(2) [OF wf r c] show ?thesis
      by (simp add: add_child_parent [OF node])
  qed
qed

lemma tree_blocks_add_child:
  assumes "node < length ns"
  shows "tree_blocks (add_child ns node hv new) = tree_blocks ns + owned new"
  using assms by (simp add: add_child_def tree_blocks_append tree_blocks_update_same owned_def)
    (simp add: tree_blocks_def owned_def)

subsection \<open>Adding a chain of children\<close>

text \<open>What the loop of \<open>build_path\<close> leaves of the old nodes, and what its new nodes look like.\<close>

definition grown :: "(token list \<Rightarrow> int) \<Rightarrow> token list list \<Rightarrow> block_id list \<Rightarrow> ref \<Rightarrow> BlockNode list \<Rightarrow> BlockNode list \<Rightarrow> bool" where
  "grown H blks gids node ns ms \<longleftrightarrow>
     length ms = length ns + length blks \<and> tree_wf ms \<and> gpu_only ms \<and>
     tree_blocks ms = tree_blocks ns + mset (take (length blks) gids) \<and>
     (\<forall>k < length ns. k \<noteq> node \<longrightarrow> ms ! k = ns ! k) \<and>
     (\<exists>cs. ms ! node = (ns ! node)\<lparr>children := cs\<rparr> \<and> (blks = [] \<longrightarrow> cs = children (ns ! node))) \<and>
     descend H ms node blks = [length ns..<length ms] \<and>
     (\<forall>i < length blks. block_id (ms ! (length ns + i)) = gids ! i \<and>
        shared_count (ms ! (length ns + i)) = 1 \<and> cache_status (ms ! (length ns + i)) = GPU \<and>
        parent (ms ! (length ns + i)) = Some (if i = 0 then node else length ns + i - 1))"

lemma grown_Nil: "tree_wf ns \<Longrightarrow> gpu_only ns \<Longrightarrow> grown H [] gids node ns ns"
  by (auto simp: grown_def intro!: exI [of _ "children (ns ! node)"])

lemma grown_Cons:
  assumes wf: "tree_wf ns" and g: "gpu_only ns" and node: "node < length ns"
    and new: "children new = []" "parent new = Some node" "hash_value new = Some (H b)"
      "cache_status new = GPU" "block_id new = gid" "reverved_dec_block_ids new = []" "shared_count new = 1"
    and IH: "grown H blks gids (length ns) (add_child ns node (H b) new) ms"
  shows "grown H (b # blks) (gid # gids) node ns ms"
proof -
  let ?ns1 = "add_child ns node (H b) new"
  have own: "owned new = {#gid#}" using new by (simp add: owned_def)
  have len: "length ms = Suc (length ns) + length blks" using IH by (simp add: grown_def)
  have same: "ms ! k = ?ns1 ! k" if "k < length ns" for k
    using IH that by (simp add: grown_def)
  obtain cs where last: "ms ! length ns = new\<lparr>children := cs\<rparr>"
    using IH node by (auto simp: grown_def add_child_nth)
  have blocks: "tree_blocks ms = tree_blocks ns + mset (gid # take (length blks) gids)"
    using IH tree_blocks_add_child [OF node, of "H b" new] own by (simp add: grown_def)
  have "map_of (children (ms ! node)) (H b) = Some (length ns)"
    using same [OF node] node by (simp add: add_child_nth update_conv)
  moreover have "descend H ms (length ns) blks = [Suc (length ns)..<length ms]"
    using IH by (simp add: grown_def del: upt_Suc)
  moreover have "[length ns..<length ms] = length ns # [Suc (length ns)..<length ms]"
    using len by (simp add: upt_conv_Cons del: upt_Suc)
  ultimately have path: "descend H ms node (b # blks) = [length ns..<length ms]" by simp
  have news: "block_id (ms ! (length ns + i)) = (gid # gids) ! i \<and> shared_count (ms ! (length ns + i)) = 1 \<and>
      cache_status (ms ! (length ns + i)) = GPU \<and>
      parent (ms ! (length ns + i)) = Some (if i = 0 then node else length ns + i - 1)"
    if "i < length (b # blks)" for i
  proof (cases i)
    case 0
    then show ?thesis using last new by simp
  next
    case (Suc j)
    then show ?thesis using IH that by (auto simp: grown_def)
  qed
  have old: "ms ! k = ns ! k" if "k < length ns" "k \<noteq> node" for k
    using same [OF that(1)] that node by (simp add: add_child_nth)
  have nd: "\<exists>cs. ms ! node = (ns ! node)\<lparr>children := cs\<rparr>"
    using same [OF node] node by (auto simp: add_child_nth)
  from IH len blocks path news old nd show ?thesis by (simp add: grown_def del: upt_Suc)
qed

lemma build_nodes_ok:
  assumes "tree_wf (nodes s)" "gpu_only (nodes s)" "node < length (nodes s)"
    "length blks \<le> length gids" "length blks \<le> length (node_id_pool s)"
  shows "\<exists>ms nm. build_nodes H req now ids bs blks gids node s =
      (Inr (if blks = [] then node else length ms - 1, drop (length blks) gids),
       s\<lparr>node_id_pool := take (length (node_id_pool s) - length blks) (node_id_pool s),
         nodes := ms, node_map := nm\<rparr>) \<and> grown H blks gids node (nodes s) ms"
  using assms
proof (induction blks arbitrary: gids node s)
  case Nil
  then show ?case by (auto intro!: exI [of _ "nodes s"] exI [of _ "node_map s"] grown_Nil)
next
  case (Cons b blks)
  obtain gid gids1 where gids: "gids = gid # gids1" using Cons.prems(4) by (cases gids) auto
  have pool: "node_id_pool s \<noteq> []" using Cons.prems(5) by auto
  let ?new = "(new_BlockNode (last (node_id_pool s)) ids (H ids) (depth (nodes s ! node) + 1) gid
                 (int (length b)) (Some (H b)) (Some now) (Some node))\<lparr>req_id_set := {req}\<rparr>"
  let ?ns1 = "add_child (nodes s) node (H b) ?new"
  let ?s1 = "s\<lparr>node_id_pool := butlast (node_id_pool s), nodes := ?ns1,
               node_map := (node_map s)(last (node_id_pool s) \<mapsto> length (nodes s))\<rparr>"
  note new = new_BlockNode_def
  have wf1: "tree_wf ?ns1" using tree_wf_add_child [OF Cons.prems(1,3)] by (simp add: new)
  have g1: "gpu_only ?ns1" using gpu_only_add_child [OF Cons.prems(1,2,3)] by (simp add: new)
  have "length blks \<le> length (node_id_pool s) - 1" using Cons.prems(5) by simp
  then obtain ms nm where
    eq: "build_nodes H req now ids bs blks gids1 (length (nodes s)) ?s1 =
      (Inr (if blks = [] then length (nodes s) else length ms - 1, drop (length blks) gids1),
       ?s1\<lparr>node_id_pool := take (length (node_id_pool s) - 1 - length blks) (butlast (node_id_pool s)),
         nodes := ms, node_map := nm\<rparr>)"
    and gr: "grown H blks gids1 (length (nodes s)) ?ns1 ms"
    using Cons.IH [of ?s1 "length (nodes s)" gids1] wf1 g1 Cons.prems gids by auto
  have "grown H (b # blks) gids node (nodes s) ms"
    unfolding gids by (rule grown_Cons [OF Cons.prems(1-3) _ _ _ _ _ _ _ gr]) (simp_all add: new)
  moreover have "take (length (node_id_pool s) - 1 - length blks) (butlast (node_id_pool s)) =
      take (length (node_id_pool s) - Suc (length blks)) (node_id_pool s)"
    by (simp add: butlast_conv_take)
  moreover have "length ms = Suc (length (nodes s)) + length blks" using gr by (simp add: grown_def)
  ultimately show ?case
    using eq gids pool
    by (intro exI [of _ ms] exI [of _ nm]) (simp add: Let_def add_child_def)
qed

end
