(* ===== verification/PrefixCacheRequest.thy ===== *)
theory PrefixCacheRequest
  imports PrefixCacheBuild
begin

text \<open>
  \<open>build_path\<close> and \<open>request_block_ids\<close> as a whole: the blocks they hand out, the account they keep
  and the path they leave in the tree.
\<close>

subsection \<open>Numbers of blocks\<close>

definition path_blocks :: "nat \<Rightarrow> nat \<Rightarrow> nat \<Rightarrow> nat" where
  "path_blocks n bs reserve = n div bs + (if n mod bs \<noteq> 0 then 1 else 0) + reserve"

lemma path_blocks_ceil:
  assumes "0 < bs" "bs dvd dec"
  shows "(n + bs - 1 + dec) div bs = path_blocks n bs (dec div bs)"
proof -
  obtain a where dec: "dec = a * bs" using assms(2) by (metis dvd_def mult.commute)
  have n: "n = n div bs * bs + n mod bs" by simp
  have "n + bs - 1 + dec = (n mod bs + bs - 1) + (n div bs + a) * bs"
    using n assms(1) dec by (simp add: algebra_simps)
  then have "(n + bs - 1 + dec) div bs = ((n mod bs + bs - 1) + (n div bs + a) * bs) div bs" by simp
  also have "\<dots> = n div bs + a + (n mod bs + bs - 1) div bs"
    using assms(1) by (intro div_mult_self1) simp
  finally have "(n + bs - 1 + dec) div bs = n div bs + a + (n mod bs + bs - 1) div bs" .
  moreover have "(n mod bs + bs - 1) div bs = (if n mod bs \<noteq> 0 then 1 else 0)"
  proof (cases "n mod bs = 0")
    case True
    then show ?thesis using assms(1) by simp
  next
    case False
    have eq: "n mod bs + bs - 1 = bs + (n mod bs - 1)" using False by simp
    have "n mod bs - 1 < bs" using mod_less_divisor [OF assms(1), of n] by linarith
    then have "(bs + (n mod bs - 1)) div bs = 1" using assms(1) by (subst div_add_self1) auto
    with eq False show ?thesis by (simp only: if_True) simp
  qed
  ultimately show ?thesis using dec assms(1) by (simp add: path_blocks_def)
qed

lemma path_blocks_int:
  assumes "0 < bs" "bs dvd dec"
  shows "(int n + int bs - 1 + int dec) div int bs = int (path_blocks n bs (dec div bs))"
proof -
  have "int n + int bs - 1 + int dec = int (n + bs - 1 + dec)" using assms(1) by simp
  then show ?thesis using path_blocks_ceil [OF assms, of n] by (simp only: of_nat_div [symmetric])
qed

lemma path_blocks_minus:
  assumes "0 < bs" "k \<le> n div bs"
  shows "path_blocks (n - k * bs) bs r + k = path_blocks n bs r"
proof -
  have le: "k * bs \<le> n" using assms(2) by (metis div_times_less_eq_dividend le_trans mult_le_mono1)
  have n: "n = (n - k * bs) + k * bs" using le by simp
  have "n div bs = (n - k * bs) div bs + k" using assms(1) by (subst n) simp
  moreover have "n mod bs = (n - k * bs) mod bs" by (subst n) simp
  ultimately show ?thesis by (simp add: path_blocks_def)
qed

subsection \<open>Building a path\<close>

definition live :: "BlockNode list \<Rightarrow> nat" where
  "live ns = length (filter (\<lambda>n. cache_status n = GPU) ns)"

lemma live_le_blocks: "live ns \<le> size (tree_blocks ns)"
  by (induction ns) (auto simp: live_def tree_blocks_def owned_def)

lemma live_update_same: "cache_status n = cache_status (ns ! r) \<Longrightarrow> live (ns[r := n]) = live ns"
proof (induction ns arbitrary: r)
  case Nil
  then show ?case by simp
next
  case (Cons m ns)
  then show ?case by (cases r) (auto simp: live_def)
qed

lemma live_status: "live ns = length (filter (\<lambda>st. st = GPU) (map cache_status ns))"
  by (induction ns) (auto simp: live_def)

lemma live_shape:
  assumes eq: "map shape ms = map shape ns"
  shows "live ms = live ns"
proof -
  have "map cache_status ms = map cache_status ns"
  proof (rule nth_equalityI)
    show "length (map cache_status ms) = length (map cache_status ns)" using map_shape_length [OF eq] by simp
    show "map cache_status ms ! i = map cache_status ns ! i" if "i < length (map cache_status ms)" for i
      using that shape_fields(4) [OF map_shape_nth [OF eq, of i]] map_shape_length [OF eq] by simp
  qed
  then show ?thesis by (simp only: live_status)
qed

lemma live_grow:
  assumes "length ms = length ns + k"
    "\<forall>i < length ns. cache_status (ms ! i) = cache_status (ns ! i)"
    "\<forall>i < k. cache_status (ms ! (length ns + i)) = GPU"
  shows "live ms = live ns + k"
proof -
  have "map cache_status ms = map cache_status ns @ replicate k GPU"
  proof (rule nth_equalityI)
    fix i assume i: "i < length (map cache_status ms)"
    show "map cache_status ms ! i = (map cache_status ns @ replicate k GPU) ! i"
    proof (cases "i < length ns")
      case True
      then show ?thesis using assms i by (simp add: nth_append)
    next
      case False
      then have "length ns + (i - length ns) = i" "i - length ns < k" using i assms(1) by simp_all
      then have "cache_status (ms ! i) = GPU" using assms(3) by metis
      then show ?thesis using i False assms(1) by (simp add: nth_append)
    qed
  qed (use assms in simp)
  then show ?thesis by (simp add: live_status)
qed

definition same_old :: "BlockNode list \<Rightarrow> BlockNode list \<Rightarrow> ref \<Rightarrow> bool" where
  "same_old ns ms node \<longleftrightarrow>
     (\<forall>k < length ns. parent (ms ! k) = parent (ns ! k) \<and> hash_value (ms ! k) = hash_value (ns ! k) \<and>
        cache_status (ms ! k) = cache_status (ns ! k) \<and> block_id (ms ! k) = block_id (ns ! k) \<and>
        shared_count (ms ! k) = shared_count (ns ! k) \<and>
        (k \<noteq> node \<longrightarrow> children (ms ! k) = children (ns ! k)))"

text \<open>The outcome of \<open>build_path\<close> on a tree \<open>ns\<close>: the new tree, the leaf and the unfilled table.\<close>

definition built ::
  "(token list \<Rightarrow> int) \<Rightarrow> req_id \<Rightarrow> token list list \<Rightarrow> block_id list \<Rightarrow> ref \<Rightarrow> pcm \<Rightarrow> ref \<Rightarrow> pcm \<Rightarrow> bool" where
  "built H req blks gids node s leaf s' \<longleftrightarrow>
     (\<exists>nm uf ms. s' = s\<lparr>node_id_pool := take (length (node_id_pool s) - length blks) (node_id_pool s),
         nodes := ms, node_map := nm, unfilled_req_block_map := uf\<rparr>
       \<and> (uf = unfilled_req_block_map s \<or> leaf = 0 \<and> uf = unfilled_req_block_map s @ [(req, gids)])) \<and>
     leaf = (if blks = [] then node else length (nodes s') - 1) \<and>
     length (nodes s') = length (nodes s) + length blks \<and>
     tree_wf (nodes s') \<and> gpu_only (nodes s') \<and> same_old (nodes s) (nodes s') node \<and>
     tree_blocks (nodes s') + unfilled_blocks s' = tree_blocks (nodes s) + unfilled_blocks s + mset gids \<and>
     live (nodes s') = live (nodes s) + length blks \<and>
     descend H (nodes s') node blks = [length (nodes s)..<length (nodes s')] \<and>
     (\<forall>i < length blks. block_id (nodes s' ! (length (nodes s) + i)) = gids ! i \<and>
        shared_count (nodes s' ! (length (nodes s) + i)) = 1 \<and>
        cache_status (nodes s' ! (length (nodes s) + i)) = GPU \<and>
        parent (nodes s' ! (length (nodes s) + i)) = Some (if i = 0 then node else length (nodes s) + i - 1))"

text \<open>Appending reserved blocks to one node changes nothing but the account.\<close>

definition reserve_at :: "ref \<Rightarrow> block_id list \<Rightarrow> BlockNode list \<Rightarrow> BlockNode list" where
  "reserve_at r res ns = ns[r := (ns ! r)\<lparr>reverved_dec_block_ids := reverved_dec_block_ids (ns ! r) @ res\<rparr>]"

lemma reserve_at_fields:
  assumes "k < length ns"
  shows "parent (reserve_at r res ns ! k) = parent (ns ! k)" "children (reserve_at r res ns ! k) = children (ns ! k)"
    "hash_value (reserve_at r res ns ! k) = hash_value (ns ! k)"
    "cache_status (reserve_at r res ns ! k) = cache_status (ns ! k)"
    "block_id (reserve_at r res ns ! k) = block_id (ns ! k)"
    "shared_count (reserve_at r res ns ! k) = shared_count (ns ! k)"
  using assms by (cases "k = r"; simp add: reserve_at_def)+

lemma length_reserve_at [simp]: "length (reserve_at r res ns) = length ns"
  by (simp add: reserve_at_def)

lemma tree_wf_reserve: "tree_wf ns \<Longrightarrow> tree_wf (reserve_at r res ns)"
  by (erule tree_wf_cong) (simp_all add: reserve_at_fields)

lemma gpu_only_reserve: "tree_wf ns \<Longrightarrow> gpu_only ns \<Longrightarrow> gpu_only (reserve_at r res ns)"
  by (erule (1) gpu_only_cong) (simp_all add: reserve_at_fields)

lemma tree_blocks_reserve:
  assumes "r < length ns"
  shows "tree_blocks (reserve_at r res ns) = tree_blocks ns + mset res"
proof -
  let ?n = "(ns ! r)\<lparr>reverved_dec_block_ids := reverved_dec_block_ids (ns ! r) @ res\<rparr>"
  have "owned ?n = owned (ns ! r) + mset res" by (simp add: owned_def)
  with tree_blocks_update [OF assms, of ?n] show ?thesis by (simp add: reserve_at_def)
qed

lemma live_reserve: "live (reserve_at r res ns) = live ns"
  unfolding reserve_at_def by (rule live_update_same) simp

lemma descend_children:
  assumes "tree_wf ns" "r < length ns" "\<And>k. k < length ns \<Longrightarrow> children (ms ! k) = children (ns ! k)"
  shows "descend H ms r bs = descend H ns r bs"
  using assms(2)
proof (induction bs arbitrary: r)
  case Nil
  then show ?case by simp
next
  case (Cons b bs)
  then show ?case using assms(3) [of r] tree_wf_child(2) [OF assms(1) Cons.prems]
    by (auto split: option.splits)
qed

lemma built_reserve:
  assumes b: "built H req blks gids node s leaf s1" and leaf: "leaf < length (nodes s1)"
    and uf: "unfilled_req_block_map s1 = unfilled_req_block_map s" and node: "node < length (nodes s1)"
    and s2: "s2 = s1\<lparr>nodes := reserve_at leaf res (nodes s1)\<rparr>"
    and gids: "gids = take (length blks) (gids @ res)"
  shows "built H req blks (gids @ res) node s leaf s2"
proof -
  let ?ms = "reserve_at leaf res (nodes s1)"
  have ns2: "nodes s2 = ?ms" and wf: "tree_wf (nodes s1)" using s2 b by (simp_all add: built_def)
  have len: "length gids \<le> length blks" using gids by (metis length_take min.cobounded2)
  have len1: "length (nodes s1) = length (nodes s) + length blks" using b by (simp add: built_def)
  have "descend H ?ms node blks = [length (nodes s)..<length ?ms]"
    using descend_children [OF wf node, of ?ms H blks] b by (simp add: built_def reserve_at_fields)
  moreover have "tree_blocks ?ms + unfilled_blocks s2 = tree_blocks (nodes s) + unfilled_blocks s + mset (gids @ res)"
    using tree_blocks_reserve [OF leaf, of res] b s2 by (simp add: built_def unfilled_blocks_def ac_simps)
  moreover have "block_id (?ms ! (length (nodes s) + i)) = (gids @ res) ! i" if "i < length blks" for i
  proof -
    have "block_id (nodes s1 ! (length (nodes s) + i)) = gids ! i" using b that by (simp add: built_def)
    moreover have "gids ! i = (gids @ res) ! i" using gids that by (metis nth_take)
    ultimately show ?thesis using that len1 by (simp add: reserve_at_fields)
  qed
  moreover have "same_old (nodes s) ?ms node"
    using b len1 by (auto simp: built_def same_old_def reserve_at_fields)
  moreover have "\<exists>nm uf ms. s2 = s\<lparr>node_id_pool := take (length (node_id_pool s) - length blks) (node_id_pool s),
         nodes := ms, node_map := nm, unfilled_req_block_map := uf\<rparr>
       \<and> (uf = unfilled_req_block_map s \<or> leaf = 0 \<and> uf = unfilled_req_block_map s @ [(req, gids @ res)])"
  proof -
    obtain nm uf ms where "s1 = s\<lparr>node_id_pool := take (length (node_id_pool s) - length blks) (node_id_pool s),
         nodes := ms, node_map := nm, unfilled_req_block_map := uf\<rparr>"
      using b by (auto simp: built_def)
    with uf s2 show ?thesis
      by (intro exI [of _ nm] exI [of _ uf] exI [of _ "reserve_at leaf res ms"]) simp
  qed
  ultimately show ?thesis
    using b len1 unfolding built_def ns2
    by (simp add: tree_wf_reserve gpu_only_reserve live_reserve reserve_at_fields)
qed

lemma sum_list_append_unfilled:
  "req \<notin> fst ` set uf \<Longrightarrow> AList.update req gids uf = uf @ [(req, gids)]"
  by (induction uf) auto

lemma grown_built:
  assumes g: "grown H blks gids node (nodes s) ms" and node: "node < length (nodes s)"
    and s1: "s1 = s\<lparr>node_id_pool := take (length (node_id_pool s) - length blks) (node_id_pool s),
         nodes := ms, node_map := nm\<rparr>"
    and leaf: "leaf = (if blks = [] then node else length ms - 1)"
  shows "built H req blks (take (length blks) gids) node s leaf s1"
proof -
  have old: "same_old (nodes s) ms node" unfolding same_old_def
  proof (intro allI impI)
    fix k assume k: "k < length (nodes s)"
    show "parent (ms ! k) = parent (nodes s ! k) \<and> hash_value (ms ! k) = hash_value (nodes s ! k) \<and>
        cache_status (ms ! k) = cache_status (nodes s ! k) \<and> block_id (ms ! k) = block_id (nodes s ! k) \<and>
        shared_count (ms ! k) = shared_count (nodes s ! k) \<and>
        (k \<noteq> node \<longrightarrow> children (ms ! k) = children (nodes s ! k))"
      using g k by (cases "k = node") (auto simp: grown_def)
  qed
  then have lv: "live ms = live (nodes s) + length blks"
    using g by (intro live_grow) (auto simp: grown_def same_old_def)
  have ex: "\<exists>nm uf ms. s1 = s\<lparr>node_id_pool := take (length (node_id_pool s) - length blks) (node_id_pool s),
         nodes := ms, node_map := nm, unfilled_req_block_map := uf\<rparr>
       \<and> (uf = unfilled_req_block_map s \<or> leaf = 0 \<and> uf = unfilled_req_block_map s @ [(req, take (length blks) gids)])"
    by (intro exI [of _ nm] exI [of _ "unfilled_req_block_map s"] exI [of _ ms]) (simp add: s1)
  have "nodes s1 = ms" "unfilled_blocks s1 = unfilled_blocks s" by (simp_all add: s1 unfilled_blocks_def)
  with g old ex leaf lv show ?thesis
    unfolding built_def grown_def by simp
qed

text \<open>With as many blocks as the path needs, \<open>build_path\<close> succeeds and uses every block once.\<close>

lemma build_path_ok:
  assumes wf: "tree_wf (nodes s)" "gpu_only (nodes s)" and node: "node < length (nodes s)"
    and bs: "0 < bs" and gids: "length gids = path_blocks (length left) bs reserve"
    and pool: "length left div bs \<le> length (node_id_pool s)"
    and fresh: "req \<notin> fst ` set (unfilled_req_block_map s)"
  shows "\<exists>leaf s'. build_path H req now ids left gids bs node reserve s = (Inr leaf, s') \<and>
    built H req (full_blocks bs left) gids node s leaf s'"
proof -
  let ?blks = "full_blocks bs left"
  have nblks: "length ?blks = length left div bs" using bs by (rule length_full_blocks)
  obtain ms nm where b: "build_nodes H req now ids bs ?blks gids node s =
      (Inr (if ?blks = [] then node else length ms - 1, drop (length ?blks) gids),
       s\<lparr>node_id_pool := take (length (node_id_pool s) - length ?blks) (node_id_pool s),
         nodes := ms, node_map := nm\<rparr>)" and g: "grown H ?blks gids node (nodes s) ms"
    using build_nodes_ok [OF wf node, of ?blks gids H req now ids bs] gids pool nblks
    by (auto simp: path_blocks_def)
  let ?leaf = "if ?blks = [] then node else length ms - 1"
  let ?s1 = "s\<lparr>node_id_pool := take (length (node_id_pool s) - length ?blks) (node_id_pool s),
         nodes := ms, node_map := nm\<rparr>"
  let ?res = "drop (length ?blks) gids"
  have built1: "built H req ?blks (take (length ?blks) gids) node s ?leaf ?s1"
    by (rule grown_built [OF g node refl refl])
  have len: "length ms = length (nodes s) + length ?blks" using g by (simp add: grown_def)
  have leaf: "?leaf < length ms" using len node by (cases ?blks) auto
  show ?thesis
  proof (cases "left = []")
    case True
    let ?s2 = "s\<lparr>nodes := reserve_at node gids (nodes s)\<rparr>"
    have "built H req [] (take (length ([] :: token list list)) gids) node s node s"
      by (rule grown_built [OF grown_Nil [OF wf] node, where nm = "node_map s"]) simp_all
    then have "built H req [] ([] @ gids) node s node ?s2"
      using node by (intro built_reserve [where ?s1.0 = s]) simp_all
    moreover have "build_path H req now ids left gids bs node reserve s = (Inr node, ?s2)"
      using True gids bs by (simp add: build_path_def pop_front_def path_blocks_def upd_node_def reserve_at_def)
    ultimately show ?thesis using True bs by auto
  next
    case False
    have res: "length ?res = (if length left mod bs \<noteq> 0 then 1 + reserve else reserve)"
      using gids nblks by (simp add: path_blocks_def)
    show ?thesis
    proof (cases "?leaf = 0")
      case True
      have "?blks = []" "node = 0"
        using True len node by (cases ?blks; simp)+
      let ?s2 = "?s1\<lparr>unfilled_req_block_map := unfilled_req_block_map s @ [(req, gids)]\<rparr>"
      have "build_path H req now ids left gids bs node reserve s = (Inr 0, ?s2)"
        using b res False True fresh \<open>?blks = []\<close> \<open>node = 0\<close>
        by (simp add: build_path_def pop_front_def sum_list_append_unfilled)
      moreover have "built H req ?blks gids node s 0 ?s2"
        using built1 \<open>?blks = []\<close> \<open>node = 0\<close>
        unfolding built_def by (auto simp: unfilled_blocks_def ac_simps)
      ultimately show ?thesis by blast
    next
      case nz: False
      let ?s2 = "?s1\<lparr>nodes := reserve_at ?leaf ?res ms\<rparr>"
      have "build_path H req now ids left gids bs node reserve s = (Inr ?leaf, ?s2)"
        using b res False nz by (simp add: build_path_def pop_front_def upd_node_def reserve_at_def)
      moreover have "built H req ?blks (take (length ?blks) gids @ ?res) node s ?leaf ?s2"
        using leaf len node by (intro built_reserve [OF built1]) simp_all
      ultimately show ?thesis by auto
    qed
  qed
qed

end
