(* ===== verification/PrefixCacheSafety.thy ===== *)
theory PrefixCacheSafety
  imports PrefixCacheRequest
begin

text \<open>
  The invariant of the prefix cache manager without the CPU tier, and that requesting, releasing
  and evicting keep it: the tree is well formed, every GPU block is accounted for exactly once, and
  the reference count of a node is the number of running requests whose path contains it.
\<close>

definition holders :: "pcm \<Rightarrow> ref \<Rightarrow> req_id set" where
  "holders s r = {req. \<exists>leaf. req_leaf_map s req = Some leaf \<and> r \<in> set (chain (nodes s) leaf)}"

definition tree_ok :: "pcm \<Rightarrow> bool" where
  "tree_ok s \<longleftrightarrow> tree_wf (nodes s) \<and> gpu_only (nodes s) \<and> lru_ok s \<and>
     \<not> enable_hierarchical_cache s \<and> gpu_free_task_future s = None"

definition initial_account :: "nat \<Rightarrow> block_id multiset" where
  "initial_account n = mset (map int [0..<n]) + {#-1#}"

definition pool_ok :: "pcm \<Rightarrow> bool" where
  "pool_ok s \<longleftrightarrow> 0 \<le> num_gpu_blocks s \<and> 0 \<le> num_cpu_blocks s \<and>
     gpu_account s = initial_account (nat (num_gpu_blocks s)) \<and>
     int (length (node_id_pool s)) + int (live (nodes s)) = num_gpu_blocks s + num_cpu_blocks s + 1"

definition req_ok :: "pcm \<Rightarrow> bool" where
  "req_ok s \<longleftrightarrow>
     finite (dom (req_leaf_map s)) \<and>
     (\<forall>req leaf. req_leaf_map s req = Some leaf \<longrightarrow>
        leaf < length (nodes s) \<and> (\<forall>r \<in> set (chain (nodes s) leaf). cache_status (nodes s ! r) = GPU)) \<and>
     (\<forall>r. 0 < r \<and> r < length (nodes s) \<longrightarrow> shared_count (nodes s ! r) = int (card (holders s r))) \<and>
     (\<forall>leaf. leaf_req_map s leaf =
        (if {req. req_leaf_map s req = Some leaf} = {} then None else Some {req. req_leaf_map s req = Some leaf})) \<and>
     fst ` set (unfilled_req_block_map s) \<subseteq> {req. req_leaf_map s req = Some 0} \<and>
     distinct (map fst (unfilled_req_block_map s))"

definition pcm_inv :: "pcm \<Rightarrow> bool" where
  "pcm_inv s \<longleftrightarrow> tree_ok s \<and> pool_ok s \<and> req_ok s"

lemma pcm_inv_metrics [simp]: "pcm_inv (s\<lparr>metrics := m\<rparr>) = pcm_inv s"
  by (simp add: pcm_inv_def tree_ok_def pool_ok_def req_ok_def holders_def lru_ok_def
      gpu_account_def unfilled_blocks_def)

lemma pcm_inv_cache_info [simp]: "pcm_inv (s\<lparr>cache_info := m\<rparr>) = pcm_inv s"
  by (simp add: pcm_inv_def tree_ok_def pool_ok_def req_ok_def holders_def lru_ok_def
      gpu_account_def unfilled_blocks_def)

lemma finite_holders: "req_ok s \<Longrightarrow> finite (holders s r)"
  unfolding req_ok_def holders_def by (elim conjE) (erule finite_subset [rotated], auto)

subsection \<open>The start\<close>

lemma sort_rev_upt: "sort (rev (map int [0..<n])) = map int [0..<n]"
proof (rule properties_for_sort)
  show "mset (map int [0..<n]) = mset (rev (map int [0..<n]))" by simp
  show "sorted (map int [0..<n])" by (simp add: sorted_map)
qed

lemma init_inv: "pcm_inv (init_pcm gpu cpu False)"
proof -
  have "gpu_account (init_pcm gpu cpu False) = initial_account gpu"
    by (simp add: init_pcm_def gpu_account_def initial_account_def heapify_def sort_rev_upt
        tree_blocks_def owned_def root_node_def new_BlockNode_def unfilled_blocks_def)
  then show ?thesis
    by (auto simp: pcm_inv_def tree_ok_def pool_ok_def req_ok_def lru_ok_def holders_def tree_wf_def
        gpu_only_def live_def init_pcm_def root_node_def new_BlockNode_def)
qed

subsection \<open>Enough node ids\<close>

lemma pool_enough:
  assumes "pool_ok s"
  shows "length (gpu_free_block_list s) \<le> length (node_id_pool s)"
proof -
  have "size (gpu_account s) = Suc (nat (num_gpu_blocks s))"
    using assms by (simp add: pool_ok_def initial_account_def)
  then have "length (gpu_free_block_list s) + size (tree_blocks (nodes s)) \<le> Suc (nat (num_gpu_blocks s))"
    by (simp add: gpu_account_def)
  with live_le_blocks [of "nodes s"] assms show ?thesis unfolding pool_ok_def by linarith
qed

subsection \<open>Paths\<close>

lemma chain_child:
  assumes "tree_wf ns" "r < length ns" "map_of (children (ns ! r)) h = Some c"
  shows "chain ns c = c # chain ns r"
  using tree_wf_child [OF assms] by (intro chain_step) auto

lemma chain_descend:
  assumes "tree_wf ns" "r < length ns"
  shows "set (chain ns (last (r # descend H ns r bs))) = set (chain ns r) \<union> set (descend H ns r bs)"
  using assms(2)
proof (induction bs arbitrary: r)
  case Nil
  then show ?case by simp
next
  case (Cons b bs)
  show ?case
  proof (cases "map_of (children (ns ! r)) (H b)")
    case None
    then show ?thesis by simp
  next
    case (Some c)
    have "c < length ns" using tree_wf_child(2) [OF assms(1) Cons.prems Some] .
    from Cons.IH [OF this] chain_child [OF assms(1) Cons.prems Some] Some show ?thesis by auto
  qed
qed

lemma descend_gpu:
  assumes "tree_wf ns" "gpu_only ns" "r < length ns" "c \<in> set (descend H ns r bs)"
  shows "cache_status (ns ! c) = GPU"
  using assms(3,4)
proof (induction bs arbitrary: r)
  case Nil
  then show ?case by simp
next
  case (Cons b bs)
  then obtain d where d: "map_of (children (ns ! r)) (H b) = Some d"
    by (cases "map_of (children (ns ! r)) (H b)") auto
  with Cons.prems have "c = d \<or> c \<in> set (descend H ns d bs)" by simp
  then show ?case
    using gpu_only_child [OF assms(2) Cons.prems(1) d] tree_wf_child(2) [OF assms(1) Cons.prems(1) d]
      Cons.IH by blast
qed

lemma chain_valid: "r < length ns \<Longrightarrow> k \<in> set (chain ns r) \<Longrightarrow> 0 < k \<and> k < length ns"
  using chain_range by fastforce

lemma chain_same_parent:
  assumes "\<And>k. k < length ns \<Longrightarrow> parent (ms ! k) = parent (ns ! k)" "r < length ns"
  shows "chain ms r = chain ns r"
  using assms by (intro chain_cong) simp

subsection \<open>A new request\<close>

lemma req_ok_new_leaf:
  assumes ok: "req_ok s" and wf: "tree_wf (nodes s)" and node: "node < length (nodes s)"
    and gpu: "\<forall>r \<in> set (chain (nodes s) node). cache_status (nodes s ! r) = GPU"
    and s4: "nodes s4 = on_set (set (chain (nodes s) node)) (touch req now) (nodes s)"
      "req_leaf_map s4 = req_leaf_map s" "leaf_req_map s4 = leaf_req_map s"
      "unfilled_req_block_map s4 = unfilled_req_block_map s"
    and b: "built H req blks gids node s4 leaf s5" and fresh: "req_leaf_map s req = None"
  shows "req_ok (add_leaf_req leaf req s5)"
proof -
  let ?ns = "nodes s" and ?ms = "nodes s5" and ?s6 = "add_leaf_req leaf req s5"
  obtain uf where s5: "req_leaf_map s5 = req_leaf_map s" "leaf_req_map s5 = leaf_req_map s"
      "unfilled_req_block_map s5 = uf"
      and uf: "uf = unfilled_req_block_map s \<or> leaf = 0 \<and> uf = unfilled_req_block_map s @ [(req, gids)]"
    using b s4 by (auto simp: built_def)
  have len: "length ?ms = length ?ns + length blks" and wfm: "tree_wf ?ms"
    and leaf: "leaf = (if blks = [] then node else length ?ms - 1)"
    and path: "descend H ?ms node blks = [length ?ns..<length ?ms]"
    using b s4 by (auto simp: built_def)
  have old: "same_old (nodes s4) ?ms node" using b by (simp add: built_def)
  have len4: "length (nodes s4) = length ?ns" using s4 by simp
  have par: "parent (?ms ! k) = parent (?ns ! k)" and st: "cache_status (?ms ! k) = cache_status (?ns ! k)"
    and sc: "shared_count (?ms ! k) = shared_count (?ns ! k) + (if k \<in> set (chain ?ns node) then 1 else 0)"
    if "k < length ?ns" for k
    using old that s4(1) len4 shape_fields [OF shape_touch [of req now "?ns ! k"]]
    by (auto simp: same_old_def touch_def increment_shared_count_def)
  have chold: "chain ?ms r = chain ?ns r" if "r < length ?ns" for r
    using chain_same_parent [of ?ns ?ms r] par that by blast
  have lastleaf: "last (node # descend H ?ms node blks) = leaf"
    using leaf len path by (cases blks) auto
  have chleaf: "set (chain ?ms leaf) = set (chain ?ns node) \<union> {length ?ns..<length ?ms}"
    using chain_descend [OF wfm, of node H blks] node len lastleaf path chold [OF node] by simp
  have leaf_lt: "leaf < length ?ms" using leaf len node by (cases blks) auto
  have valid: "leaf' < length ?ns" if "req_leaf_map s rq = Some leaf'" for rq leaf'
    using ok that by (auto simp: req_ok_def)
  have rlm: "req_leaf_map ?s6 = (req_leaf_map s)(req \<mapsto> leaf)" and ns6: "nodes ?s6 = ?ms"
    using s5 by (simp_all add: add_leaf_req_def)
  have hold: "holders ?s6 r = (if r \<in> set (chain ?ms leaf) then insert req (holders s r) else holders s r)" for r
    using fresh chold valid unfolding holders_def rlm ns6 by (auto split: if_splits)
  have notin: "req \<notin> holders s r" for r using fresh by (auto simp: holders_def)
  have none_new: "holders s r = {}" if "length ?ns \<le> r" for r
    using that valid chain_range unfolding holders_def by fastforce
  have count: "shared_count (?ms ! r) = int (card (holders ?s6 r))" if r: "0 < r" "r < length ?ms" for r
  proof (cases "r < length ?ns")
    case True
    have "shared_count (?ns ! r) = int (card (holders s r))" using ok True r(1) by (simp add: req_ok_def)
    moreover have "(r \<in> set (chain ?ms leaf)) = (r \<in> set (chain ?ns node))" using chleaf True by simp
    ultimately show ?thesis using sc [OF True] hold notin finite_holders [OF ok] by simp
  next
    case False
    then have "holders ?s6 r = {req}" using hold chleaf r none_new by simp
    moreover obtain i where "r = length ?ns + i" "i < length blks" using False r len by (metis add_diff_inverse_nat nat_add_left_cancel_less)
    ultimately show ?thesis using b len4 by (simp add: built_def)
  qed
  have gpus: "\<forall>r \<in> set (chain ?ms leaf'). cache_status (?ms ! r) = GPU" if "req_leaf_map ?s6 rq = Some leaf'" for rq leaf'
  proof (cases "rq = req")
    case True
    then have [simp]: "leaf' = leaf" using that rlm by simp
    show ?thesis
    proof
      fix r assume "r \<in> set (chain ?ms leaf')"
      then consider "r \<in> set (chain ?ns node)" | "length ?ns \<le> r" "r < length ?ms" using chleaf by auto
      then show "cache_status (?ms ! r) = GPU"
      proof cases
        case 1
        then show ?thesis using gpu st chain_valid [OF node] by auto
      next
        case 2
        then obtain i where "r = length ?ns + i" "i < length blks" using len by (metis add_diff_inverse_nat nat_add_left_cancel_less not_less)
        then show ?thesis using b len4 by (simp add: built_def)
      qed
    qed
  next
    case False
    then have "req_leaf_map s rq = Some leaf'" using that rlm by simp
    then show ?thesis using ok chold valid st chain_valid unfolding req_ok_def by metis
  qed
  have maps: "leaf_req_map ?s6 l = (if {rq. req_leaf_map ?s6 rq = Some l} = {} then None
      else Some {rq. req_leaf_map ?s6 rq = Some l})" for l
  proof -
    let ?R = "{rq. req_leaf_map s rq = Some l}"
    have R: "leaf_req_map s l = (if ?R = {} then None else Some ?R)" using ok by (simp add: req_ok_def)
    then have base: "(case leaf_req_map s l of None \<Rightarrow> {} | Some rs \<Rightarrow> rs) = ?R" by (cases "?R = {}") simp_all
    have new: "leaf_req_map ?s6 l = (if l = leaf then Some (insert req ?R) else leaf_req_map s l)"
      using base s5 by (cases "l = leaf") (simp_all add: add_leaf_req_def)
    have "{rq. req_leaf_map ?s6 rq = Some l} = (if l = leaf then insert req ?R else ?R)"
      using fresh by (auto simp: rlm)
    then show ?thesis using new R by (cases "l = leaf") simp_all
  qed
  have uf6: "unfilled_req_block_map ?s6 = uf" using s5 by (simp add: add_leaf_req_def)
  have ufold: "fst ` set (unfilled_req_block_map s) \<subseteq> {rq. req_leaf_map s rq = Some 0}"
      "distinct (map fst (unfilled_req_block_map s))" using ok by (auto simp: req_ok_def)
  have ufk: "fst ` set uf \<subseteq> {rq. req_leaf_map ?s6 rq = Some 0}" "distinct (map fst uf)"
  proof -
    have keys: "fst ` set uf \<subseteq> insert req (fst ` set (unfilled_req_block_map s))"
      and dist: "distinct (map fst uf)" and new: "req \<in> fst ` set uf \<Longrightarrow> leaf = 0"
      using uf ufold fresh by auto
    show "distinct (map fst uf)" by (rule dist)
    show "fst ` set uf \<subseteq> {rq. req_leaf_map ?s6 rq = Some 0}"
    proof
      fix k assume k: "k \<in> fst ` set uf"
      show "k \<in> {rq. req_leaf_map ?s6 rq = Some 0}"
      proof (cases "k = req")
        case True
        then show ?thesis using rlm new k by simp
      next
        case False
        then have "k \<in> fst ` set (unfilled_req_block_map s)" using k keys by blast
        then have "req_leaf_map s k = Some 0" using ufold(1) by blast
        then show ?thesis using False rlm by simp
      qed
    qed
  qed
  have fin: "finite (dom (req_leaf_map ?s6))" using ok rlm by (simp add: req_ok_def)
  have lt: "leaf' < length ?ms" if "req_leaf_map ?s6 rq = Some leaf'" for rq leaf'
    using that rlm leaf_lt valid len by (fastforce split: if_splits)
  show ?thesis
    unfolding req_ok_def ns6 uf6 using fin lt gpus count maps ufk by blast
qed

end
