(* ===== verification/PrefixCacheReach.thy ===== *)
theory PrefixCacheReach
  imports PrefixCacheSafety
begin

text \<open>
  Requesting, releasing and evicting keep the invariant of the prefix cache; the states reachable
  from a fresh manager by any sequence of these operations therefore satisfy it.
\<close>

subsection \<open>Requests\<close>

definition match_path :: "(token list \<Rightarrow> int) \<Rightarrow> token list \<Rightarrow> nat \<Rightarrow> pcm \<Rightarrow> ref list" where
  "match_path H ids bs s = descend H (nodes s) 0 (full_blocks bs ids)"

definition need_blocks :: "token list \<Rightarrow> nat \<Rightarrow> nat \<Rightarrow> nat" where
  "need_blocks ids bs dec = path_blocks (length ids) bs (dec div bs)"

lemma match_path_le: "0 < bs \<Longrightarrow> length (match_path H ids bs s) \<le> length ids div bs"
  using descend_length [of H "nodes s" 0 "full_blocks bs ids"] by (simp add: match_path_def length_full_blocks)

lemma need_blocks_ge: "length ids div bs \<le> need_blocks ids bs dec"
  by (simp add: need_blocks_def path_blocks_def)

lemma frame_count [simp]:
  "nodes (count_request s) = nodes s" "gpu_free_block_list (count_request s) = gpu_free_block_list s"
  "lru_ok (count_request s) = lru_ok s" "pcm_inv (count_request s) = pcm_inv s"
  "req_leaf_map (count_request s) = req_leaf_map s"
  by (simp_all add: count_request_def lru_ok_def)

lemma frame_forget [simp]:
  "nodes (forget_all path s) = nodes s" "gpu_free_block_list (forget_all path s) = gpu_free_block_list s"
  "req_leaf_map (forget_all path s) = req_leaf_map s" "leaf_req_map (forget_all path s) = leaf_req_map s"
  "unfilled_req_block_map (forget_all path s) = unfilled_req_block_map s"
  "node_id_pool (forget_all path s) = node_id_pool s" "num_gpu_blocks (forget_all path s) = num_gpu_blocks s"
  "num_cpu_blocks (forget_all path s) = num_cpu_blocks s" "metrics (forget_all path s) = metrics s"
  "enable_hierarchical_cache (forget_all path s) = enable_hierarchical_cache s"
  "gpu_free_task_future (forget_all path s) = gpu_free_task_future s"
  by (simp_all add: forget_all_def)

lemma pcm_inv_forget: "pcm_inv s \<Longrightarrow> pcm_inv (forget_all path s)"
  using lru_ok_forget [of s path]
  by (simp add: pcm_inv_def tree_ok_def pool_ok_def req_ok_def holders_def gpu_account_def unfilled_blocks_def)

text \<open>The counters' part changes nothing but the counters, and does not fail for a non-empty prompt.\<close>

definition only_metrics :: "(pcm, 'a) outcome \<Rightarrow> pcm \<Rightarrow> bool" where
  "only_metrics x s \<longleftrightarrow> (\<exists>r m. x = (r, s\<lparr>metrics := m\<rparr>))"

lemma only_metrics_lift: "only_metrics (lift_metrics f s) s"
  unfolding only_metrics_def lift_metrics_def by (cases "f (metrics s)") auto

lemma only_metrics_andthen:
  assumes "only_metrics x s" "\<And>v t. only_metrics (k v t) t"
  shows "only_metrics (andthen x k) s"
proof -
  obtain r m where x: "x = (r, s\<lparr>metrics := m\<rparr>)" using assms(1) by (auto simp: only_metrics_def)
  show ?thesis
  proof (cases r)
    case (Inl e)
    then show ?thesis using x by (auto simp: only_metrics_def)
  next
    case (Inr v)
    obtain r' m' where "k v (s\<lparr>metrics := m\<rparr>) = (r', s\<lparr>metrics := m\<rparr>\<lparr>metrics := m'\<rparr>)"
      using assms(2) unfolding only_metrics_def by blast
    then show ?thesis using x Inr by (auto simp: only_metrics_def)
  qed
qed

lemma only_metrics_ret: "only_metrics (Inr v, if b then s\<lparr>metrics := m\<rparr> else s) s"
proof -
  have "(if b then s\<lparr>metrics := m\<rparr> else s) = s\<lparr>metrics := if b then m else metrics s\<rparr>" by simp
  then show ?thesis unfolding only_metrics_def by blast
qed

lemma record_hit_frame: "\<exists>r m. record_hit acc n s = (r, s\<lparr>metrics := m\<rparr>)"
proof -
  define s1 where "s1 = (if gpu_match_token_num acc + cpu_match_token_num acc > 0
    then s\<lparr>metrics := (metrics s)\<lparr>hit_req_count := hit_req_count (metrics s) + 1\<rparr>\<rparr> else s)"
  have "only_metrics (record_hit acc n s) s1"
    unfolding record_hit_def Let_def s1_def [symmetric]
    by (intro only_metrics_andthen only_metrics_lift only_metrics_ret)
  then obtain r m where "record_hit acc n s = (r, s1\<lparr>metrics := m\<rparr>)" by (auto simp: only_metrics_def)
  then show ?thesis by (auto simp: s1_def)
qed

definition metrics_ok :: "pcm \<Rightarrow> bool" where
  "metrics_ok s \<longleftrightarrow> 0 \<le> req_count (metrics s) \<and> 0 \<le> total_token_num (metrics s)"

lemma calculate_hit_metrics_ok:
  assumes "0 < n"
  shows "\<exists>m'. calculate_hit_metrics c g n m = (Inr (), m') \<and> req_count m' = req_count m \<and>
    total_token_num m' = total_token_num m + n"
  using assms by (simp add: calculate_hit_metrics_def)

lemma update_history_ok:
  assumes "0 < req_count m" "0 < total_token_num m"
  shows "\<exists>m'. update_history_hit_metrics m = (Inr (), m') \<and> req_count m' = req_count m \<and>
    total_token_num m' = total_token_num m"
  using assms by (simp add: update_history_hit_metrics_def Let_def)

lemma record_hit_ok:
  assumes "0 < req_count (metrics s)" "0 \<le> total_token_num (metrics s)" "0 < n"
  shows "\<exists>m. record_hit acc n s = (Inr (), s\<lparr>metrics := m\<rparr>) \<and> metrics_ok (s\<lparr>metrics := m\<rparr>)"
proof -
  define m0 where "m0 = (if gpu_match_token_num acc + cpu_match_token_num acc > 0
    then (metrics s)\<lparr>hit_req_count := hit_req_count (metrics s) + 1\<rparr> else metrics s)"
  have s1: "(if gpu_match_token_num acc + cpu_match_token_num acc > 0
    then s\<lparr>metrics := (metrics s)\<lparr>hit_req_count := hit_req_count (metrics s) + 1\<rparr>\<rparr> else s) = s\<lparr>metrics := m0\<rparr>"
    by (simp add: m0_def)
  have m0: "req_count m0 = req_count (metrics s)" "total_token_num m0 = total_token_num (metrics s)"
    by (simp_all add: m0_def)
  obtain m1 where m1: "calculate_hit_metrics (cpu_match_token_num acc) (gpu_match_token_num acc) (int n) m0 = (Inr (), m1)"
      "req_count m1 = req_count m0" "total_token_num m1 = total_token_num m0 + int n"
    using calculate_hit_metrics_ok [of "int n"] assms(3) by (metis of_nat_0_less_iff)
  obtain m2 where m2: "update_history_hit_metrics m1 = (Inr (), m2)"
      "req_count m2 = req_count m1" "total_token_num m2 = total_token_num m1"
    using update_history_ok [of m1] m1 m0 assms by auto
  define m3 where "m3 = (if req_count m2 mod 10000 = 0 then reset_metrics m2 else m2)"
  have "record_hit acc n s = (Inr (), s\<lparr>metrics := m3\<rparr>)"
    unfolding record_hit_def Let_def s1 m3_def using m1 m2 by (simp add: lift_metrics_def)
  moreover have "metrics_ok (s\<lparr>metrics := m3\<rparr>)"
    using m1 m2 m0 assms by (simp add: m3_def metrics_ok_def reset_metrics_def)
  ultimately show ?thesis by blast
qed

text \<open>The match phase, in closed form.\<close>

lemma request_match:
  assumes "pcm_inv s"
  shows "match_block H ids bs (count_request s) =
    (Inr (match_result bs (nodes s) (match_path H ids bs s) match_init),
     forget_all (match_path H ids bs s) (count_request s))"
  using match_block_gpu [of "count_request s" H ids bs] assms
  by (simp add: pcm_inv_def tree_ok_def match_path_def Let_def)

lemma match_result_init [simp]:
  "match_gpu_block_ids (match_result bs ns path match_init) = map (\<lambda>c. block_id (ns ! c)) path"
  "match_cpu_block_ids (match_result bs ns path match_init) = []"
  "swap_node_ids (match_result bs ns path match_init) = []"
  "current_match_node (match_result bs ns path match_init) = last (0 # path)"
  "gpu_match_token_num (match_result bs ns path match_init) = int bs * int (length path)"
  "cpu_match_token_num (match_result bs ns path match_init) = 0"
  by (simp_all add: match_result_def match_init_def)

lemma request_fails:
  assumes "pcm_inv s" "0 < bs" "bs dvd dec"
    and "length (match_path H ids bs s) + length (gpu_free_block_list s) < need_blocks ids bs dec"
  shows "request_block_ids H req ids bs dec now s =
    (Inl PyException, forget_all (match_path H ids bs s) (count_request s))"
  using assms(4)
  by (simp add: request_block_ids_def request_match [OF assms(1)] Let_def check_validity_def
      path_blocks_int [OF assms(2,3)] need_blocks_def)

lemma request_succeeds:
  fixes H ids bs s req now
  defines "path \<equiv> match_path H ids bs s"
  defines "acc \<equiv> match_result bs (nodes s) path match_init"
  assumes inv: "pcm_inv s" and bs: "0 < bs" "bs dvd dec" and fresh: "req_leaf_map s req = None"
    and enough: "need_blocks ids bs dec \<le> length path + length (gpu_free_block_list s)"
  shows "\<exists>leaf s4 s5.
    nodes s4 = on_set (set path) (touch req now) (nodes s) \<and> metrics s5 = metrics (count_request s) \<and>
    built H req (drop (length path) (full_blocks bs ids))
      (take (need_blocks ids bs dec - length path) (gpu_free_block_list s)) (last (0 # path)) s4 leaf s5 \<and>
    pcm_inv (add_leaf_req leaf req s5) \<and>
    gpu_free_block_list s5 = drop (need_blocks ids bs dec - length path) (gpu_free_block_list s) \<and>
    req_leaf_map s5 = req_leaf_map s \<and> num_gpu_blocks s5 = num_gpu_blocks s \<and>
    request_block_ids H req ids bs dec now s =
      andthen (record_hit acc (length ids) (add_leaf_req leaf req s5)) (\<lambda>_ s6.
        (Inr (map (\<lambda>c. block_id (nodes s ! c)) path,
              take (need_blocks ids bs dec - length path) (gpu_free_block_list s), hit_info_of acc bs), s6))"
proof -
  define r where "r = last (0 # path)"
  let ?ns = "nodes s" and ?need = "need_blocks ids bs dec"
  let ?k = "?need - length path" and ?free = "gpu_free_block_list s"
  let ?s1 = "forget_all path (count_request s)"
  let ?s3 = "?s1\<lparr>nodes := on_set (set path) (touch req now) ?ns\<rparr>"
  let ?s4 = "?s3\<lparr>gpu_free_block_list := drop ?k ?free\<rparr>"
  let ?extra = "take ?k ?free"
  let ?left = "drop (length path * bs) ids"
  have wf: "tree_wf ?ns" and g: "gpu_only ?ns" and ok: "req_ok s" and pool: "pool_ok s" and lru: "lru_ok s"
    using inv by (auto simp: pcm_inv_def tree_ok_def)
  have z: "0 < length ?ns" using wf by (auto simp: tree_wf_def)
  have r: "r < length ?ns" using descend_last_valid [OF wf z] by (simp add: r_def path_def match_path_def)
  have ch: "set (chain ?ns r) = set path"
    using chain_descend [OF wf z, of H "full_blocks bs ids"] by (simp add: r_def path_def match_path_def)
  have m_le: "length path \<le> length ids div bs" unfolding path_def by (rule match_path_le [OF bs(1)])
  have need_ge: "length path \<le> ?need" using m_le need_blocks_ge [of ids bs dec] by linarith
  have acc: "match_gpu_block_ids acc = map (\<lambda>c. block_id (?ns ! c)) path" "match_cpu_block_ids acc = []"
      "current_match_node acc = r"
      "nat (gpu_match_token_num acc + cpu_match_token_num acc) = length path * bs"
    unfolding acc_def r_def by (simp_all only: match_result_init) (simp add: nat_mult_distrib mult.commute)
  have mb: "match_block H ids bs (count_request s) = (Inr acc, ?s1)"
    unfolding acc_def path_def by (rule request_match [OF inv])
  have walk: "update_matched_node_info req r now ?s1 = (Inr (), ?s3)"
    using update_matched_node_info_ok [of ?s1 r req now] wf r ch by simp
  have shp: "map shape (nodes ?s3) = map shape ?ns"
    by (simp add: map_shape_on_set)
  have nat_k: "nat (int ?need - int (length path)) = ?k" by (simp add: nat_diff_distrib)
  have prep: "prepare_cache (int ?need) acc ?s3 = (Inr ([], ?extra), ?s4)"
    using enough need_ge nat_k by (auto simp: prepare_cache_def acc Let_def allocate_gpu_blocks_eq)
  have lext: "length ?extra = path_blocks (length ?left) bs (dec div bs)"
    using path_blocks_minus [OF bs(1) m_le, of "dec div bs"] enough need_ge by (simp add: need_blocks_def)
  have "length ?left div bs \<le> length ?extra" using lext by (simp add: path_blocks_def)
  then have lpool: "length ?left div bs \<le> length (node_id_pool ?s4)"
    using pool_enough [OF pool] by (simp add: count_request_def)
  have ufresh: "req \<notin> fst ` set (unfilled_req_block_map ?s4)"
    using ok fresh by (auto simp: req_ok_def count_request_def)
  obtain leaf s5 where bp: "build_path H req now ids ?left ?extra bs r (dec div bs) ?s4 = (Inr leaf, s5)"
      and b: "built H req (full_blocks bs ?left) ?extra r ?s4 leaf s5"
    using build_path_ok [OF _ _ _ bs(1) lext lpool ufresh, of r H now ids]
      tree_wf_shape [OF wf shp] gpu_only_shape [OF wf g shp] r by auto
  have valid: "check_validity (int (length path)) (int ?need) ?s1 = (Inr (), ?s1)"
    using enough by (simp add: check_validity_def)
  have eq: "request_block_ids H req ids bs dec now s =
      andthen (record_hit acc (length ids) (add_leaf_req leaf req s5)) (\<lambda>_ s6.
        (Inr (map (\<lambda>c. block_id (nodes s ! c)) path, ?extra, hit_info_of acc bs), s6))"
    by (simp add: request_block_ids_def mb Let_def acc path_blocks_int [OF bs] need_blocks_def [symmetric]
        valid walk prep bp)
  obtain nm uf ms where s5: "s5 = ?s4\<lparr>node_id_pool := take (length (node_id_pool ?s4) - length (full_blocks bs ?left)) (node_id_pool ?s4),
         nodes := ms, node_map := nm, unfilled_req_block_map := uf\<rparr>"
    using b by (auto simp: built_def)
  have "req_ok (add_leaf_req leaf req s5)"
  proof (rule req_ok_new_leaf [OF ok wf r _ _ _ _ _ b fresh])
    show "\<forall>k \<in> set (chain ?ns r). cache_status (?ns ! k) = GPU"
      using ch descend_gpu [OF wf g z] by (simp add: path_def match_path_def)
  qed (simp_all add: ch count_request_def)
  moreover have "tree_ok (add_leaf_req leaf req s5)"
  proof -
    have "length ms = length ?ns + length (full_blocks bs ?left)" using b s5 by (simp add: built_def)
    then have "lru_ok (add_leaf_req leaf req s5)"
      using lru_ok_forget [OF lru, of path] s5
      unfolding lru_ok_def add_leaf_req_def count_request_def forget_all_def
      by (auto intro: trans_less_add1)
    then show ?thesis using b s5 inv
      by (simp add: tree_ok_def built_def add_leaf_req_def pcm_inv_def count_request_def)
  qed
  moreover have "pool_ok (add_leaf_req leaf req s5)"
  proof -
    have tb: "tree_blocks (nodes ?s4) = tree_blocks ?ns" and lv: "live (nodes ?s4) = live ?ns"
      using tree_blocks_shape [OF shp] live_shape [OF shp] by simp_all
    have "gpu_account (add_leaf_req leaf req s5) = mset (drop ?k ?free) + (tree_blocks (nodes s5) + unfilled_blocks s5)"
      using s5 by (simp add: gpu_account_def unfilled_blocks_def add_leaf_req_def ac_simps)
    also have "\<dots> = mset (drop ?k ?free) + (tree_blocks ?ns + unfilled_blocks s + mset ?extra)"
      using b tb by (simp add: built_def unfilled_blocks_def count_request_def)
    also have "\<dots> = gpu_account s"
      using mset_take_drop [of ?k ?free] by (simp add: gpu_account_def ac_simps)
    finally have "gpu_account (add_leaf_req leaf req s5) = gpu_account s" .
    moreover have "live (nodes s5) = live ?ns + length (full_blocks bs ?left)" using b lv by (simp add: built_def)
    moreover have "length (full_blocks bs ?left) \<le> length (node_id_pool s)"
      using lpool by (simp add: length_full_blocks [OF bs(1)] count_request_def)
    ultimately show ?thesis using pool s5
      by (simp add: pool_ok_def add_leaf_req_def count_request_def)
  qed
  ultimately have inv5: "pcm_inv (add_leaf_req leaf req s5)" by (simp add: pcm_inv_def)
  have left: "full_blocks bs ?left = drop (length path) (full_blocks bs ids)" by (rule full_blocks_drop)
  have b': "built H req (drop (length path) (full_blocks bs ids)) ?extra (last (0 # path)) ?s4 leaf s5"
    using b unfolding left r_def .
  have fields: "metrics s5 = metrics (count_request s)" "gpu_free_block_list s5 = drop ?k ?free"
      "req_leaf_map s5 = req_leaf_map s" "num_gpu_blocks s5 = num_gpu_blocks s" "nodes ?s4 = on_set (set path) (touch req now) ?ns"
    using s5 by (simp_all add: count_request_def)
  show ?thesis
    using fields b' inv5 eq by (intro exI [of _ leaf] exI [of _ ?s4] exI [of _ s5]) blast
qed

end
