(* ===== verification/PrefixCacheRelease.thy ===== *)
theory PrefixCacheRelease
  imports PrefixCacheReach
begin

text \<open>
  A request and a release keep the invariant, whatever their outcome. A release takes the request
  from every node of its path and gives the blocks of a request shorter than one block back.
\<close>

lemma request_keeps:
  assumes inv: "pcm_inv s" and bs: "0 < bs" "bs dvd dec" and fresh: "req_leaf_map s req = None"
  shows "pcm_inv (snd (request_block_ids H req ids bs dec now s)) \<and>
    num_gpu_blocks (snd (request_block_ids H req ids bs dec now s)) = num_gpu_blocks s"
proof (cases "need_blocks ids bs dec \<le> length (match_path H ids bs s) + length (gpu_free_block_list s)")
  case True
  obtain leaf s5 where inv5: "pcm_inv (add_leaf_req leaf req s5)" and num: "num_gpu_blocks s5 = num_gpu_blocks s"
    and eq: "request_block_ids H req ids bs dec now s =
      andthen (record_hit (match_result bs (nodes s) (match_path H ids bs s) match_init) (length ids)
          (add_leaf_req leaf req s5)) (\<lambda>_ s6.
        (Inr (map (\<lambda>c. block_id (nodes s ! c)) (match_path H ids bs s),
              take (need_blocks ids bs dec - length (match_path H ids bs s)) (gpu_free_block_list s),
              hit_info_of (match_result bs (nodes s) (match_path H ids bs s) match_init) bs), s6))"
    using request_succeeds [OF inv bs fresh True] by blast
  obtain r m where "record_hit (match_result bs (nodes s) (match_path H ids bs s) match_init) (length ids)
      (add_leaf_req leaf req s5) = (r, add_leaf_req leaf req s5\<lparr>metrics := m\<rparr>)"
    using record_hit_frame by blast
  with eq inv5 num show ?thesis by (cases r) (simp_all add: add_leaf_req_def)
next
  case False
  then show ?thesis using request_fails [OF inv bs] pcm_inv_forget inv by (simp add: count_request_def)
qed

subsection \<open>Release\<close>

lemma delete_absent: "k \<notin> fst ` set m \<Longrightarrow> AList.delete k m = m"
  by (induction m) auto

lemma unfilled_delete:
  assumes "distinct (map fst m)"
  shows "sum_list (map (\<lambda>(_, bs). mset bs) (AList.delete k m)) +
      mset (case map_of m k of None \<Rightarrow> [] | Some bs \<Rightarrow> bs) = sum_list (map (\<lambda>(_, bs). mset bs) m)"
  using assms
proof (induction m)
  case Nil
  then show ?case by simp
next
  case (Cons kv m)
  obtain k' v where [simp]: "kv = (k', v)" by (cases kv)
  show ?case
  proof (cases "k' = k")
    case True
    with Cons.prems have "AList.delete k m = m" by (intro delete_absent) auto
    with True show ?thesis by simp
  next
    case False
    with Cons show ?thesis by (auto simp: ac_simps)
  qed
qed

lemma holders_chain:
  assumes "req_leaf_map s req = Some leaf"
  shows "req \<in> holders s r \<longleftrightarrow> r \<in> set (chain (nodes s) leaf)"
  using assms by (simp add: holders_def)

lemma req_ok_drop:
  assumes ok: "req_ok s" and leaf: "req_leaf_map s req = Some leaf"
    and s': "req_leaf_map s' = (req_leaf_map s)(req := None)"
      "nodes s' = on_set (set (chain (nodes s) leaf)) (untouch req) (nodes s)"
      "unfilled_req_block_map s' = AList.delete req (unfilled_req_block_map s)"
    and lrm: "leaf_req_map s' = (leaf_req_map s)(leaf :=
        let R = {rq. req_leaf_map s rq = Some leaf} - {req} in if R = {} then None else Some R)"
  shows "req_ok s'"
proof -
  have len: "length (nodes s') = length (nodes s)" using s' by simp
  have lv: "leaf' < length (nodes s)" if "req_leaf_map s rq = Some leaf'" for rq leaf'
    using ok that by (auto simp: req_ok_def)
  have sh: "shape (nodes s' ! k) = shape (nodes s ! k)" if "k < length (nodes s)" for k
    using that s' by simp
  have ch: "chain (nodes s') l = chain (nodes s) l" if "l < length (nodes s)" for l
    using chain_same_parent [of "nodes s" "nodes s'" l] that shape_fields(1) [OF sh] by blast
  have hold: "holders s' r = holders s r - {req}" for r
    unfolding holders_def s' (1) using ch lv unfolding s'(2) by (auto split: if_splits)
  have count: "shared_count (nodes s' ! r) = int (card (holders s' r))" if r: "0 < r" "r < length (nodes s)" for r
  proof -
    have old: "shared_count (nodes s ! r) = int (card (holders s r))" using ok r by (simp add: req_ok_def)
    show ?thesis
    proof (cases "r \<in> set (chain (nodes s) leaf)")
      case True
      then have m: "req \<in> holders s r" using holders_chain [OF leaf] by simp
      then have "0 < card (holders s r)" using finite_holders [OF ok] card_gt_0_iff by blast
      then show ?thesis using True old r m hold finite_holders [OF ok]
        by (simp add: s' untouch_def decrement_shared_count_def card_Diff_singleton)
    next
      case False
      then have "req \<notin> holders s r" using holders_chain [OF leaf] by simp
      then show ?thesis using False old r hold by (simp add: s')
    qed
  qed
  have gpus: "leaf' < length (nodes s') \<and> (\<forall>r \<in> set (chain (nodes s') leaf'). cache_status (nodes s' ! r) = GPU)"
    if "req_leaf_map s' rq = Some leaf'" for rq leaf'
  proof -
    have a: "req_leaf_map s rq = Some leaf'" using that s' by (auto split: if_splits)
    then have "\<forall>r \<in> set (chain (nodes s) leaf'). cache_status (nodes s ! r) = GPU"
      using ok by (auto simp: req_ok_def)
    then show ?thesis using lv [OF a] ch [OF lv [OF a]] len shape_fields(4) [OF sh] chain_valid [OF lv [OF a]]
      by (metis)
  qed
  have maps: "leaf_req_map s' l = (if {rq. req_leaf_map s' rq = Some l} = {} then None
      else Some {rq. req_leaf_map s' rq = Some l})" for l
  proof -
    have e: "{rq. req_leaf_map s' rq = Some l} = {rq. req_leaf_map s rq = Some l} - {req}"
      using s' by auto
    show ?thesis
    proof (cases "l = leaf")
      case True
      then show ?thesis using e lrm by (simp add: Let_def)
    next
      case False
      then have "{rq. req_leaf_map s' rq = Some l} = {rq. req_leaf_map s rq = Some l}" using e leaf by auto
      then show ?thesis using False lrm ok by (simp add: req_ok_def)
    qed
  qed
  have uf: "fst ` set (unfilled_req_block_map s') \<subseteq> {rq. req_leaf_map s' rq = Some 0}"
  proof
    fix k assume k: "k \<in> fst ` set (unfilled_req_block_map s')"
    have "k \<noteq> req" using k delete_notin_dom [of req "unfilled_req_block_map s"] s'(3) by auto
    moreover have "k \<in> fst ` set (unfilled_req_block_map s)"
      using k dom_delete_subset [of req "unfilled_req_block_map s"] s'(3) by auto
    then have "req_leaf_map s k = Some 0" using ok by (auto simp: req_ok_def)
    ultimately show "k \<in> {rq. req_leaf_map s' rq = Some 0}" using s'(1) by simp
  qed
  have "distinct (map fst (unfilled_req_block_map s'))"
    using ok s'(3) by (simp add: req_ok_def distinct_delete)
  moreover have "finite (dom (req_leaf_map s'))" using ok s' by (simp add: req_ok_def)
  ultimately show ?thesis unfolding req_ok_def
  proof (intro conjI)
    show "\<forall>r. 0 < r \<and> r < length (nodes s') \<longrightarrow> shared_count (nodes s' ! r) = int (card (holders s' r))"
      using count len by simp
    show "\<forall>leaf. leaf_req_map s' leaf = (if {req. req_leaf_map s' req = Some leaf} = {} then None
        else Some {req. req_leaf_map s' req = Some leaf})" using maps by blast
  qed (use gpus uf in blast)+
qed


text \<open>A node that gets a place in the heap.\<close>

lemma pcm_inv_push:
  assumes "pcm_inv s" "r \<notin> gpu_lru_leaf_set s" "0 < r" "r < length (nodes s)"
  shows "pcm_inv (push_gpu_lru r s)"
  using assms
  by (simp add: pcm_inv_def tree_ok_def pool_ok_def req_ok_def lru_ok_def holders_def push_gpu_lru_def
      gpu_account_def unfilled_blocks_def)

lemma drop_leaf_req_ok:
  assumes "req_ok s" "req_leaf_map s req = Some leaf"
  shows "drop_leaf_req leaf req (s\<lparr>req_leaf_map := m\<rparr>) = (Inr (), s\<lparr>req_leaf_map := m,
      leaf_req_map := (leaf_req_map s)(leaf :=
        let R = {rq. req_leaf_map s rq = Some leaf} - {req} in if R = {} then None else Some R)\<rparr>)"
proof -
  have "leaf_req_map s leaf = Some {rq. req_leaf_map s rq = Some leaf}"
    using assms by (auto simp: req_ok_def)
  then show ?thesis using assms(2) by (simp add: drop_leaf_req_def Let_def)
qed

text \<open>The state after a release, before the leaf gets its place among the eviction candidates.\<close>

definition released :: "req_id \<Rightarrow> ref \<Rightarrow> pcm \<Rightarrow> pcm" where
  "released req leaf s =
     (recycle_gpu_blocks (case map_of (unfilled_req_block_map s) req of None \<Rightarrow> [] | Some bs \<Rightarrow> bs)
       (s\<lparr>req_leaf_map := (req_leaf_map s)(req := None),
          leaf_req_map := (leaf_req_map s)(leaf :=
            let R = {rq. req_leaf_map s rq = Some leaf} - {req} in if R = {} then None else Some R),
          nodes := on_set (set (chain (nodes s) leaf)) (untouch req) (nodes s),
          cache_info := (cache_info s)(req := None)\<rparr>))
     \<lparr>unfilled_req_block_map := AList.delete req (unfilled_req_block_map s)\<rparr>"

lemma released_inv:
  assumes inv: "pcm_inv s" and leaf: "req_leaf_map s req = Some leaf"
  shows "pcm_inv (released req leaf s)"
proof -
  let ?bs = "case map_of (unfilled_req_block_map s) req of None \<Rightarrow> [] | Some bs \<Rightarrow> bs"
  let ?ns = "on_set (set (chain (nodes s) leaf)) (untouch req) (nodes s)"
  let ?s' = "released req leaf s"
  have ok: "req_ok s" and t: "tree_ok s" and pool: "pool_ok s" using inv by (simp_all add: pcm_inv_def)
  have shp: "map shape ?ns = map shape (nodes s)" by (simp add: map_shape_on_set)
  have "req_ok ?s'"
    by (rule req_ok_drop [OF ok leaf]) (simp_all add: released_def recycle_gpu_blocks_def)
  moreover have "tree_ok ?s'"
    using t tree_wf_shape [OF _ shp] gpu_only_shape [OF _ _ shp]
    by (simp add: tree_ok_def released_def recycle_gpu_blocks_def lru_ok_def)
  moreover have "gpu_account ?s' = gpu_account s"
  proof -
    have "distinct (map fst (unfilled_req_block_map s))" using ok by (simp add: req_ok_def)
    from unfilled_delete [OF this, of req] show ?thesis
      using tree_blocks_shape [OF shp]
      by (simp add: gpu_account_def released_def recycle_gpu_blocks_def unfilled_blocks_def block_simps ac_simps)
  qed
  then have "pool_ok ?s'"
    using pool live_shape [OF shp] by (simp add: pool_ok_def released_def recycle_gpu_blocks_def)
  ultimately show ?thesis by (simp add: pcm_inv_def)
qed

lemma release_eq:
  assumes inv: "pcm_inv s" and leaf: "req_leaf_map s req = Some leaf"
  shows "release_block_ids req s = (Inr (),
    if leaf \<noteq> 0 \<and> leaf \<notin> gpu_lru_leaf_set s \<and>
       shared_count (nodes (released req leaf s) ! leaf) = 0 \<and>
       is_gpu_leaf_node (nodes (released req leaf s)) (nodes (released req leaf s) ! leaf) \<and>
       \<not> is_persistent (nodes (released req leaf s) ! leaf)
    then push_gpu_lru leaf (released req leaf s) else released req leaf s)"
proof -
  have ok: "req_ok s" and wf: "tree_wf (nodes s)" using inv by (simp_all add: pcm_inv_def tree_ok_def)
  have lt: "leaf < length (nodes s)" using ok leaf by (auto simp: req_ok_def)
  have nou: "AList.delete req (unfilled_req_block_map s) = unfilled_req_block_map s"
      "map_of (unfilled_req_block_map s) req = None" if "leaf \<noteq> 0"
  proof -
    have "req \<notin> fst ` set (unfilled_req_block_map s)" using ok leaf that by (auto simp: req_ok_def)
    then show "AList.delete req (unfilled_req_block_map s) = unfilled_req_block_map s"
      "map_of (unfilled_req_block_map s) req = None"
      by (simp_all add: map_of_eq_None_iff)
  qed
  define s1 where "s1 = s\<lparr>req_leaf_map := (req_leaf_map s)(req := None),
          leaf_req_map := (leaf_req_map s)(leaf :=
            let R = {rq. req_leaf_map s rq = Some leaf} - {req} in if R = {} then None else Some R)\<rparr>"
  define s3 where "s3 = s1\<lparr>nodes := on_set (set (chain (nodes s) leaf)) (untouch req) (nodes s),
          cache_info := (cache_info s)(req := None)\<rparr>"
  have drop: "drop_leaf_req leaf req (s\<lparr>req_leaf_map := (req_leaf_map s)(req := None)\<rparr>) = (Inr (), s1)"
    unfolding s1_def by (rule drop_leaf_req_ok [OF ok leaf])
  have f1: "nodes s1 = nodes s" "cache_info s1 = cache_info s" by (simp_all add: s1_def)
  have walk: "release_walk (Suc (length (nodes s1))) req leaf s1 =
      (Inr (), s1\<lparr>nodes := on_set (set (chain (nodes s) leaf)) (untouch req) (nodes s)\<rparr>)"
    using release_walk_ok [of s1 leaf req] wf lt by (simp add: f1 del: release_walk.simps)
  have f3: "unfilled_req_block_map s3 = unfilled_req_block_map s" "gpu_lru_leaf_set s3 = gpu_lru_leaf_set s"
      "gpu_free_block_list s3 = gpu_free_block_list s"
    by (simp_all add: s3_def s1_def)
  have rel: "released req leaf s =
      (recycle_gpu_blocks (case map_of (unfilled_req_block_map s3) req of None \<Rightarrow> [] | Some bs \<Rightarrow> bs) s3)
      \<lparr>unfilled_req_block_map := AList.delete req (unfilled_req_block_map s3)\<rparr>"
    by (simp only: released_def f3 s3_def s1_def) simp
  have rel': "released req leaf s = s3" if "leaf \<noteq> 0"
    using nou [OF that] f3 by (simp add: rel recycle_gpu_blocks_def)
  show ?thesis
  proof (cases "leaf = 0")
    case True
    note eqs = drop walk rel
    have "release_block_ids req s = (Inr (), released req leaf s)"
      using eqs by (simp add: True release_block_ids_def leaf [unfolded True] s3_def f1 Let_def
          del: release_walk.simps)
    then show ?thesis using True by simp
  next
    case False
    then show ?thesis
      by (simp only: release_block_ids_def leaf drop walk andthen_simps option.case Let_def rel' [OF False] f3 simp_thms if_False)
        (auto simp: s3_def s1_def)
  qed
qed

lemma release_keeps:
  assumes inv: "pcm_inv s"
  shows "pcm_inv (snd (release_block_ids req s)) \<and>
    num_gpu_blocks (snd (release_block_ids req s)) = num_gpu_blocks s"
proof (cases "req_leaf_map s req")
  case None
  then show ?thesis using inv by (simp add: release_block_ids_def)
next
  case (Some leaf)
  let ?s' = "released req leaf s"
  have "leaf < length (nodes s)" using inv Some by (auto simp: pcm_inv_def req_ok_def)
  then have "pcm_inv (push_gpu_lru leaf ?s')" if "leaf \<noteq> 0" "leaf \<notin> gpu_lru_leaf_set s"
    using that released_inv [OF inv Some]
    by (intro pcm_inv_push) (simp_all add: released_def recycle_gpu_blocks_def)
  then show ?thesis using released_inv [OF inv Some]
    by (simp add: release_eq [OF inv Some] push_gpu_lru_def released_def recycle_gpu_blocks_def)
qed

end
