(* ===== verification/PrefixCacheEvictKeep.thy ===== *)
theory PrefixCacheEvictKeep
  imports PrefixCacheRelease
begin

text \<open>
  Eviction without the CPU tier: a round never fails, keeps the invariant, frees at least one block
  whenever it counts a freed node, and leaves the path of every running request alone.
\<close>

subsection \<open>Evicting one leaf\<close>

text \<open>The nodes after leaf \<open>r\<close> has left the tree.\<close>

definition evicted :: "ref \<Rightarrow> ref \<Rightarrow> BlockNode list \<Rightarrow> BlockNode list" where
  "evicted r p ns =
     (let ms = ns[r := (ns ! r)\<lparr>cache_status := CPU, reverved_dec_block_ids := []\<rparr>]
      in case hash_value (ns ! r) of None \<Rightarrow> ms
         | Some h \<Rightarrow> ms[p := (ms ! p)\<lparr>children := AList.delete h (children (ms ! p))\<rparr>])"

lemma length_evicted [simp]: "length (evicted r p ns) = length ns"
  by (simp add: evicted_def Let_def split: option.splits)

lemma evicted_fields:
  assumes "r < length ns" "p < r" "k < length ns"
  shows "parent (evicted r p ns ! k) = parent (ns ! k)" "hash_value (evicted r p ns ! k) = hash_value (ns ! k)"
    "shared_count (evicted r p ns ! k) = shared_count (ns ! k)" "block_id (evicted r p ns ! k) = block_id (ns ! k)"
    "cache_status (evicted r p ns ! k) = (if k = r then CPU else cache_status (ns ! k))"
    "children (evicted r p ns ! k) = (if k = p then (case hash_value (ns ! r) of None \<Rightarrow> children (ns ! p)
        | Some h \<Rightarrow> AList.delete h (children (ns ! p))) else children (ns ! k))"
  using assms by (cases "k = r"; cases "k = p"; auto simp: evicted_def Let_def split: option.splits)+

lemma evicted_child:
  assumes "r < length ns" "p < r" "k < length ns" "map_of (children (evicted r p ns ! k)) h = Some c"
  shows "map_of (children (ns ! k)) h = Some c" "k = p \<Longrightarrow> hash_value (ns ! r) \<noteq> Some h"
  using assms(4) evicted_fields(6) [OF assms(1-3)]
  by (auto simp: delete_conv split: option.splits if_splits)

lemma evicted_wf:
  assumes wf: "tree_wf ns" and r: "r < length ns" "parent (ns ! r) = Some p" "p < r"
  shows "tree_wf (evicted r p ns)"
proof (rule tree_wfI)
  show "evicted r p ns \<noteq> []" using r by (metis length_evicted length_0_conv not_less_zero)
  show "\<exists>q < k. parent (evicted r p ns ! k) = Some q" if "k < length (evicted r p ns)" "k \<noteq> 0" for k
    using that tree_wf_parent [OF wf] evicted_fields(1) [OF r(1,3)] by simp
  show "distinct (map fst (children (evicted r p ns ! k)))" if "k < length (evicted r p ns)" for k
    using that tree_wf_distinct [OF wf] evicted_fields(6) [OF r(1,3)] r
    by (auto simp: distinct_delete split: option.splits)
  show "k < c \<and> c < length (evicted r p ns) \<and> parent (evicted r p ns ! c) = Some k \<and> hash_value (evicted r p ns ! c) = Some h"
    if "k < length (evicted r p ns)" "map_of (children (evicted r p ns ! k)) h = Some c" for k h c
    using tree_wf_child [OF wf, of k h c] evicted_child(1) [OF r(1,3), of k h c] that
      evicted_fields(1,2) [OF r(1,3), of c] by simp
qed

lemma evicted_gpu:
  assumes wf: "tree_wf ns" and g: "gpu_only ns" and r: "r < length ns" "parent (ns ! r) = Some p" "p < r"
  shows "gpu_only (evicted r p ns)"
proof (rule gpu_onlyI [OF evicted_wf [OF wf r]])
  fix k h c assume a: "k < length (evicted r p ns)" "map_of (children (evicted r p ns ! k)) h = Some c"
  then have k: "k < length ns" and c: "map_of (children (ns ! k)) h = Some c"
    using evicted_child(1) [OF r(1,3)] by auto
  note c' = tree_wf_child [OF wf k c]
  have "c \<noteq> r" using evicted_child(2) [OF r(1,3) k a(2)] c' r by auto
  then show "cache_status (evicted r p ns ! c) = GPU"
    using gpu_only_child [OF g k c] c' evicted_fields(5) [OF r(1,3), of c] by simp
qed

lemma evicted_blocks:
  assumes r: "r < length ns" "p < r" "cache_status (ns ! r) = GPU"
  shows "tree_blocks (evicted r p ns) + {#block_id (ns ! r)#} + mset (reverved_dec_block_ids (ns ! r)) = tree_blocks ns"
proof -
  let ?n = "(ns ! r)\<lparr>cache_status := CPU, reverved_dec_block_ids := []\<rparr>"
  have "owned ?n = {#}" "owned (ns ! r) = {#block_id (ns ! r)#} + mset (reverved_dec_block_ids (ns ! r))"
    using r by (simp_all add: owned_def)
  moreover have "tree_blocks (evicted r p ns) = tree_blocks (ns[r := ?n])"
    by (simp add: evicted_def Let_def tree_blocks_update_same owned_def split: option.splits)
  ultimately show ?thesis using tree_blocks_update [OF r(1), of ?n] by (simp add: ac_simps)
qed

lemma evicted_live:
  assumes r: "r < length ns" "p < r" "cache_status (ns ! r) = GPU"
  shows "Suc (live (evicted r p ns)) = live ns"
proof -
  let ?f = "\<lambda>n. if cache_status n = GPU then 1 else 0 :: nat"
  let ?n = "(ns ! r)\<lparr>cache_status := CPU, reverved_dec_block_ids := []\<rparr>"
  have sum: "live xs = sum_list (map ?f xs)" for xs by (induction xs) (auto simp: live_def)
  have "live (evicted r p ns) = live (ns[r := ?n])"
    by (simp add: evicted_def Let_def live_update_same split: option.splits)
  then show ?thesis using sum_list_update_nat [OF r(1), of ?f ?n] r by (simp add: sum)
qed

lemma evicted_chain:
  assumes "r < length ns" "p < r" "l < length ns"
  shows "chain (evicted r p ns) l = chain ns l"
  using assms by (intro chain_same_parent) (simp_all add: evicted_fields)

subsection \<open>One round\<close>

definition undisturbed :: "pcm \<Rightarrow> pcm \<Rightarrow> bool" where
  "undisturbed s s' \<longleftrightarrow> req_leaf_map s' = req_leaf_map s \<and> num_gpu_blocks s' = num_gpu_blocks s \<and> metrics s' = metrics s \<and>
     (\<forall>req leaf. req_leaf_map s req = Some leaf \<longrightarrow>
        chain (nodes s') leaf = chain (nodes s) leaf \<and>
        (\<forall>k \<in> set (chain (nodes s) leaf).
           block_id (nodes s' ! k) = block_id (nodes s ! k) \<and> owned (nodes s' ! k) = owned (nodes s ! k) \<and>
           cache_status (nodes s' ! k) = cache_status (nodes s ! k)))"

lemma undisturbed_refl: "undisturbed s s"
  by (simp add: undisturbed_def)

lemma undisturbed_same:
  "nodes s' = nodes s \<Longrightarrow> req_leaf_map s' = req_leaf_map s \<Longrightarrow> num_gpu_blocks s' = num_gpu_blocks s \<Longrightarrow>
   metrics s' = metrics s \<Longrightarrow> undisturbed s s'"
  by (simp add: undisturbed_def)

lemma undisturbed_trans: "undisturbed a b \<Longrightarrow> undisturbed b c \<Longrightarrow> undisturbed a c"
  by (simp add: undisturbed_def)

text \<open>The state after leaf \<open>r\<close> with parent \<open>p\<close> is freed.\<close>

definition freed :: "ref \<Rightarrow> ref \<Rightarrow> pcm \<Rightarrow> pcm" where
  "freed r p s = detach_child p (hash_value (nodes s ! r)) (handle_free_gpu_node_without_cpu r s)"

lemma freed_eq:
  assumes "r < length (nodes s)"
  shows "\<exists>nm. freed r p s = s\<lparr>nodes := evicted r p (nodes s),
      node_id_pool := node_id_pool s @ [node_id (nodes s ! r)], node_map := nm,
      gpu_free_block_list := heappush_all [block_id (nodes s ! r)]
        (heappush_all (reverved_dec_block_ids (nodes s ! r)) (gpu_free_block_list s))\<rparr>"
  using assms
  by (intro exI [of _ "(node_map s)(node_id (nodes s ! r) := None)"])
    (simp add: freed_def handle_free_gpu_node_without_cpu_def detach_child_def evicted_def Let_def
      recycle_gpu_blocks_def upd_node_def split: option.splits)

lemma freed_inv:
  assumes inv: "pcm_inv s" and r: "r < length (nodes s)" "0 < r" "parent (nodes s ! r) = Some p"
    and idle: "shared_count (nodes s ! r) = 0" "cache_status (nodes s ! r) = GPU" and h: "r \<notin> gpu_lru_leaf_set s"
  shows "pcm_inv (freed r p s) \<and> undisturbed s (freed r p s) \<and>
    length (gpu_free_block_list s) < length (gpu_free_block_list (freed r p s)) \<and>
    gpu_lru_leaf_set (freed r p s) = gpu_lru_leaf_set s \<and> length (nodes (freed r p s)) = length (nodes s)"
proof -
  let ?t = "freed r p s"
  have ok: "req_ok s" and t: "tree_ok s" and pool: "pool_ok s" and wf: "tree_wf (nodes s)" and g: "gpu_only (nodes s)"
    using inv by (simp_all add: pcm_inv_def tree_ok_def)
  have p: "p < r" using tree_wf_parent [OF wf r(1)] r by auto
  obtain nm where eq: "?t = s\<lparr>nodes := evicted r p (nodes s),
      node_id_pool := node_id_pool s @ [node_id (nodes s ! r)], node_map := nm,
      gpu_free_block_list := heappush_all [block_id (nodes s ! r)]
        (heappush_all (reverved_dec_block_ids (nodes s ! r)) (gpu_free_block_list s))\<rparr>"
    using freed_eq [OF r(1)] by blast
  have ns: "nodes ?t = evicted r p (nodes s)" and rlm: "req_leaf_map ?t = req_leaf_map s" by (simp_all add: eq)
  have lv: "leaf < length (nodes s)" if "req_leaf_map s rq = Some leaf" for rq leaf
    using ok that by (auto simp: req_ok_def)
  have "card (holders s r) = 0" using ok r idle by (simp add: req_ok_def)
  then have none: "holders s r = {}" using finite_holders [OF ok] by simp
  then have off: "r \<notin> set (chain (nodes s) leaf)" if "req_leaf_map s rq = Some leaf" for rq leaf
    using that by (auto simp: holders_def)
  have hold: "holders ?t k = holders s k" for k
    unfolding holders_def rlm ns using evicted_chain [OF r(1) p] lv by auto
  note f = evicted_fields [OF r(1) p]
  have req: "req_ok ?t"
    unfolding req_ok_def rlm
  proof (intro conjI)
    show "finite (dom (req_leaf_map s))" using ok by (simp add: req_ok_def)
    show "\<forall>rq leaf. req_leaf_map s rq = Some leaf \<longrightarrow> leaf < length (nodes ?t) \<and>
        (\<forall>k \<in> set (chain (nodes ?t) leaf). cache_status (nodes ?t ! k) = GPU)"
    proof (intro allI impI)
      fix rq leaf assume a: "req_leaf_map s rq = Some leaf"
      have "\<forall>k \<in> set (chain (nodes s) leaf). cache_status (nodes s ! k) = GPU"
        using ok a by (auto simp: req_ok_def)
      then show "leaf < length (nodes ?t) \<and> (\<forall>k \<in> set (chain (nodes ?t) leaf). cache_status (nodes ?t ! k) = GPU)"
        using lv [OF a] off [OF a] chain_valid [OF lv [OF a]] f(5) evicted_chain [OF r(1) p lv [OF a]]
        by (auto simp: ns)
    qed
    show "\<forall>k. 0 < k \<and> k < length (nodes ?t) \<longrightarrow> shared_count (nodes ?t ! k) = int (card (holders ?t k))"
      using ok f(3) by (simp add: hold ns req_ok_def)
  qed (use ok in \<open>simp_all add: req_ok_def eq\<close>)
  have tree: "tree_ok ?t"
    using t evicted_wf [OF wf r(1,3) p] evicted_gpu [OF wf g r(1,3) p]
    by (simp add: tree_ok_def eq lru_ok_def)
  have "gpu_account ?t = gpu_account s"
    using evicted_blocks [OF r(1) p idle(2), symmetric]
    by (simp add: gpu_account_def eq unfilled_blocks_def block_simps heappush_def ac_simps)
  then have "pool_ok ?t" using pool evicted_live [OF r(1) p idle(2)] by (simp add: pool_ok_def eq)
  with req tree have "pcm_inv ?t" by (simp add: pcm_inv_def)
  moreover have "undisturbed s ?t" unfolding undisturbed_def
  proof (intro conjI allI impI)
    show "req_leaf_map ?t = req_leaf_map s" "num_gpu_blocks ?t = num_gpu_blocks s" "metrics ?t = metrics s"
      by (simp_all add: eq)
    fix rq leaf assume a: "req_leaf_map s rq = Some leaf"
    show "chain (nodes ?t) leaf = chain (nodes s) leaf" using evicted_chain [OF r(1) p lv [OF a]] by (simp add: ns)
    have own: "owned (evicted r p (nodes s) ! k) = owned (nodes s ! k)" if "k \<noteq> r" "k < length (nodes s)" for k
      using that p r by (cases "k = p") (auto simp: evicted_def owned_def Let_def split: option.splits)
    show "\<forall>k \<in> set (chain (nodes s) leaf). block_id (nodes ?t ! k) = block_id (nodes s ! k) \<and>
        owned (nodes ?t ! k) = owned (nodes s ! k) \<and> cache_status (nodes ?t ! k) = cache_status (nodes s ! k)"
    proof
      fix k assume k: "k \<in> set (chain (nodes s) leaf)"
      then have "k \<noteq> r" "k < length (nodes s)" using off [OF a] chain_valid [OF lv [OF a]] by auto
      then show "block_id (nodes ?t ! k) = block_id (nodes s ! k) \<and>
        owned (nodes ?t ! k) = owned (nodes s ! k) \<and> cache_status (nodes ?t ! k) = cache_status (nodes s ! k)"
        using f own by (simp add: ns)
    qed
  qed
  ultimately show ?thesis by (simp add: eq heappush_def)
qed

lemma evict_push:
  assumes "pcm_inv s" "p < length (nodes s)"
  shows "pcm_inv (push_if_evictable p s) \<and> undisturbed s (push_if_evictable p s) \<and>
    gpu_free_block_list (push_if_evictable p s) = gpu_free_block_list s"
proof -
  have same: "undisturbed s (push_gpu_lru p s)" by (rule undisturbed_same) (simp_all add: push_gpu_lru_def)
  have "pcm_inv (push_gpu_lru p s)" if "p \<notin> gpu_lru_leaf_set s" "p \<noteq> 0"
    using pcm_inv_push [OF assms(1) that(1)] that assms(2) by simp
  then show ?thesis using assms(1) same undisturbed_refl
    by (auto simp: push_if_evictable_def push_gpu_lru_def Let_def)
qed

text \<open>Taking the least recently used candidate out of the heap.\<close>

definition popped :: "ref \<Rightarrow> ref list \<Rightarrow> pcm \<Rightarrow> pcm" where
  "popped r h s = s\<lparr>gpu_lru_leaf_heap := h, gpu_lru_leaf_set := gpu_lru_leaf_set s - {r}\<rparr>"

lemma popped_ok:
  assumes inv: "pcm_inv s" and pop: "lru_pop (nodes s) (gpu_lru_leaf_heap s) = Inr (r, h)"
  shows "r \<in> gpu_lru_leaf_set s \<and> 0 < r \<and> r < length (nodes s) \<and> pcm_inv (popped r h s)"
proof -
  have lru: "lru_ok s" using inv by (simp add: pcm_inv_def tree_ok_def)
  note p = lru_pop_Inr(1,2) [OF pop]
  have "lru_ok (popped r h s)"
    using lru p by (auto simp: lru_ok_def popped_def)
  then show ?thesis using inv lru p
    by (auto simp: pcm_inv_def tree_ok_def pool_ok_def req_ok_def holders_def popped_def gpu_account_def
        unfilled_blocks_def lru_ok_def)
qed

definition evict_progress :: "evict_state \<Rightarrow> evict_state \<Rightarrow> bool" where
  "evict_progress es es' \<longleftrightarrow> pcm_inv (es_pcm es') \<and> es_blocks es' = es_blocks es \<and>
     undisturbed (es_pcm es) (es_pcm es') \<and> es_count es \<le> es_count es' \<and>
     int (length (gpu_free_block_list (es_pcm es))) + (es_count es' - es_count es)
       \<le> int (length (gpu_free_block_list (es_pcm es')))"

lemma evict_progress_refl: "pcm_inv (es_pcm es) \<Longrightarrow> evict_progress es es"
  by (simp add: evict_progress_def undisturbed_refl)

lemma evict_progress_trans: "evict_progress a b \<Longrightarrow> evict_progress b c \<Longrightarrow> evict_progress a c"
  unfolding evict_progress_def using undisturbed_trans [of "es_pcm a" "es_pcm b" "es_pcm c"] by auto

lemma evict_step_ok:
  assumes inv: "pcm_inv (es_pcm es)" and ne: "gpu_lru_leaf_heap (es_pcm es) \<noteq> []"
  shows "\<exists>es'. evict_step need es = (Inr (), es') \<and> evict_progress es es'"
proof -
  let ?s = "es_pcm es"
  obtain r h where pop: "lru_pop (nodes ?s) (gpu_lru_leaf_heap ?s) = Inr (r, h)"
    using lru_pop_nonempty [OF ne] by blast
  let ?s2 = "popped r h ?s"
  have r: "r \<in> gpu_lru_leaf_set ?s" "0 < r" "r < length (nodes ?s)" and inv2: "pcm_inv ?s2"
    using popped_ok [OF inv pop] by auto
  have s2: "nodes ?s2 = nodes ?s" "r \<notin> gpu_lru_leaf_set ?s2" "undisturbed ?s ?s2"
      "gpu_free_block_list ?s2 = gpu_free_block_list ?s"
    by (simp_all add: popped_def undisturbed_same)
  have hier: "\<not> enable_hierarchical_cache ?s" using inv by (simp add: pcm_inv_def tree_ok_def)
  obtain p where p: "parent (nodes ?s ! r) = Some p" "p < r"
    using tree_wf_parent [of "nodes ?s" r] r inv by (auto simp: pcm_inv_def tree_ok_def)
  show ?thesis
  proof (cases "shared_count (nodes ?s ! r) = 0 \<and> is_gpu_leaf_node (nodes ?s) (nodes ?s ! r)")
    case False
    have "evict_step need es = (Inr (), es\<lparr>es_pcm := ?s2\<rparr>)"
      using False r(1) by (auto simp: evict_step_def Let_def pop popped_def)
    then show ?thesis using inv2 s2 by (auto simp: evict_progress_def)
  next
    case True
    let ?s4 = "freed r p ?s2"
    have fr: "pcm_inv ?s4" "undisturbed ?s2 ?s4"
        "length (gpu_free_block_list ?s2) < length (gpu_free_block_list ?s4)"
        "length (nodes ?s4) = length (nodes ?s2)"
      using freed_inv [OF inv2, of r p] r p True is_gpu_leaf_nodeD s2 by auto
    let ?s5 = "if children (nodes ?s4 ! p) = [] then push_if_evictable p ?s4 else ?s4"
    have s5: "pcm_inv ?s5" "undisturbed ?s4 ?s5" "gpu_free_block_list ?s5 = gpu_free_block_list ?s4"
      using evict_push [OF fr(1), of p] fr p r s2 undisturbed_refl by auto
    have eq: "evict_step need es = (Inr (), es\<lparr>es_pcm := ?s5, es_count := es_count es + 1\<rparr>)"
      using True r(1) hier p(1) by (simp add: evict_step_def Let_def pop popped_def freed_def)
    have "undisturbed ?s ?s5" using s2(3) fr(2) s5(2) undisturbed_trans by blast
    then have "evict_progress es (es\<lparr>es_pcm := ?s5, es_count := es_count es + 1\<rparr>)"
      unfolding evict_progress_def using s5 fr s2 by simp
    with eq show ?thesis by blast
  qed
qed

lemma evict_loop_ok:
  assumes "pcm_inv (es_pcm es)"
  shows "\<exists>es'. evict_loop need es = (Inr (), es') \<and> evict_progress es es' \<and>
    (gpu_lru_leaf_heap (es_pcm es') = [] \<or> need \<le> es_count es')"
  using assms
proof (induction need es rule: evict_loop.induct)
  case (1 need es)
  show ?case
  proof (cases "gpu_lru_leaf_heap (es_pcm es) = [] \<or> need \<le> es_count es")
    case True
    then show ?thesis using evict_progress_refl [OF 1(2)]
      by (subst evict_loop.simps) auto
  next
    case False
    then obtain es1 where st: "evict_step need es = (Inr (), es1)" "evict_progress es es1"
      using evict_step_ok [OF 1(2)] by blast
    have "pcm_inv (es_pcm es1)" using st(2) by (simp add: evict_progress_def)
    then obtain es' where "evict_loop need es1 = (Inr (), es')" "evict_progress es1 es'"
        "gpu_lru_leaf_heap (es_pcm es') = [] \<or> need \<le> es_count es'"
      using 1(1) [OF _ _ st(1) [symmetric] refl] False by auto
    then show ?thesis using False st evict_progress_trans
      by (subst evict_loop.simps) auto
  qed
qed

lemma free_keeps:
  assumes inv: "pcm_inv s"
  shows "\<exists>s'. free_block_ids_async need s = (Inr (), s') \<and> pcm_inv s' \<and> undisturbed s s' \<and>
    length (gpu_free_block_list s) \<le> length (gpu_free_block_list s') \<and>
    (gpu_lru_leaf_heap s' = [] \<or>
     int (length (gpu_free_block_list s)) + need \<le> int (length (gpu_free_block_list s')))"
proof -
  have fut: "gpu_free_task_future s = None" using inv by (simp add: pcm_inv_def tree_ok_def)
  have none: "t\<lparr>gpu_free_task_future := None\<rparr> = t" if "pcm_inv t" for t
    using that by (simp add: pcm_inv_def tree_ok_def)
  let ?es = "\<lparr>es_pcm = s, es_count = 0, es_blocks = [], es_nodes = []\<rparr>"
  obtain es' where l: "evict_loop need ?es = (Inr (), es')" "evict_progress ?es es'"
      "gpu_lru_leaf_heap (es_pcm es') = [] \<or> need \<le> es_count es'"
    using evict_loop_ok [of ?es need] inv by auto
  have "free_block_ids_async need s = (Inr (), es_pcm es')"
  proof -
    have "pcm_inv (es_pcm es')" "es_blocks es' = []" using l(2) by (simp_all add: evict_progress_def)
    then show ?thesis
      unfolding free_block_ids_async_def fut option.case Let_def none [OF inv] l(1)
      by (simp only: prod.case sum.case simp_thms if_False none)
  qed
  moreover have "pcm_inv (es_pcm es')" "undisturbed s (es_pcm es')" "0 \<le> es_count es'"
      "int (length (gpu_free_block_list s)) + es_count es' \<le> int (length (gpu_free_block_list (es_pcm es')))"
    using l(2) by (simp_all add: evict_progress_def)
  moreover have "gpu_lru_leaf_heap (es_pcm es') = [] \<or>
      int (length (gpu_free_block_list s)) + need \<le> int (length (gpu_free_block_list (es_pcm es')))"
    using calculation(5) l(3) by linarith
  ultimately show ?thesis by (intro exI [of _ "es_pcm es'"] conjI) linarith+
qed

end
