(* ===== verification/PrefixCacheLookup.thy ===== *)
theory PrefixCacheLookup
  imports PrefixCacheEvictKeep
begin

text \<open>
  What a match means: the path a prompt selects spells the hashes of the prompt's blocks, so two
  prompts share a node only where their tokens agree; and the path a successful request builds is the
  one the next match of the same prompt returns.
\<close>

lemma descend_hashes:
  assumes "tree_wf ns" "r < length ns"
  shows "map (\<lambda>c. hash_value (ns ! c)) (descend H ns r bs) = map (\<lambda>b. Some (H b)) (take (length (descend H ns r bs)) bs)"
  using assms(2)
proof (induction bs arbitrary: r)
  case Nil
  then show ?case by simp
next
  case (Cons b bs)
  show ?case
  proof (cases "map_of (children (ns ! r)) (H b)")
    case None
    then show ?thesis by simp
  next
    case (Some c)
    then show ?thesis using Cons.IH [of c] tree_wf_child [OF assms(1) Cons.prems Some] by simp
  qed
qed

lemma descend_parents:
  assumes "tree_wf ns" "r < length ns"
  shows "i < length (descend H ns r bs) \<Longrightarrow>
    parent (ns ! (descend H ns r bs ! i)) = Some ((r # descend H ns r bs) ! i)"
  using assms(2)
proof (induction bs arbitrary: r i)
  case Nil
  then show ?case by simp
next
  case (Cons b bs)
  then obtain c where c: "map_of (children (ns ! r)) (H b) = Some c"
    by (cases "map_of (children (ns ! r)) (H b)") auto
  note c' = tree_wf_child [OF assms(1) Cons.prems(2) c]
  show ?case
  proof (cases i)
    case 0
    then show ?thesis using c c' by simp
  next
    case (Suc j)
    then show ?thesis using Cons.IH [of j c] Cons.prems c c' by simp
  qed
qed

lemma descend_take: "descend H ns r (take (length (descend H ns r bs)) bs) = descend H ns r bs"
  by (induction bs arbitrary: r) (auto split: option.splits)

lemma descend_distinct:
  assumes "tree_wf ns" "r < length ns"
  shows "distinct (r # descend H ns r bs)"
  using assms(2)
proof (induction bs arbitrary: r)
  case Nil
  then show ?case by simp
next
  case (Cons b bs)
  show ?case
  proof (cases "map_of (children (ns ! r)) (H b)")
    case None
    then show ?thesis by simp
  next
    case (Some c)
    note c = tree_wf_child(1,2) [OF assms(1) Cons.prems Some]
    show ?thesis using Cons.IH [OF c(2)] descend_valid [OF assms(1) c(2), of H bs] c(1) Some by force
  qed
qed

text \<open>Two paths from the root meet only after a common beginning.\<close>

lemma descend_meet:
  assumes wf: "tree_wf ns" and z: "0 < length ns"
  shows "i < length (descend H ns 0 bs) \<Longrightarrow> j < length (descend H ns 0 cs) \<Longrightarrow>
    descend H ns 0 bs ! i = descend H ns 0 cs ! j \<Longrightarrow>
    i = j \<and> take (Suc i) (map H bs) = take (Suc i) (map H cs)"
proof (induction i arbitrary: j)
  let ?P = "descend H ns 0 bs" and ?Q = "descend H ns 0 cs"
  note pp = descend_parents [OF wf z, of _ H bs] and pq = descend_parents [OF wf z, of _ H cs]
  have nz: "?P ! k \<noteq> 0" if "k < length ?P" for k using descend_valid [OF wf z, of H bs] that nth_mem by fastforce
  have nzq: "?Q ! k \<noteq> 0" if "k < length ?Q" for k using descend_valid [OF wf z, of H cs] that nth_mem by fastforce
  have hp: "hash_value (ns ! (?P ! k)) = Some (H (bs ! k))" if "k < length ?P" for k
    using arg_cong [OF descend_hashes [OF wf z, of H bs], of "\<lambda>l. l ! k"] that descend_length [of H ns 0 bs] by simp
  have hq: "hash_value (ns ! (?Q ! k)) = Some (H (cs ! k))" if "k < length ?Q" for k
    using arg_cong [OF descend_hashes [OF wf z, of H cs], of "\<lambda>l. l ! k"] that descend_length [of H ns 0 cs] by simp
  have lb: "length ?P \<le> length bs" and lc: "length ?Q \<le> length cs" by (rule descend_length)+
  {
    case 0
    have "j = 0"
    proof (rule ccontr)
      assume "j \<noteq> 0"
      then obtain k where k: "j = Suc k" by (cases j) auto
      with pq [OF 0(2)] pp [OF 0(1)] 0(3) have "?Q ! k = 0" by simp
      then show False using nzq [of k] 0(2) k by simp
    qed
    moreover have "H (bs ! 0) = H (cs ! 0)" using hp [OF 0(1)] hq [OF 0(2)] 0(3) \<open>j = 0\<close> by simp
    moreover have "0 < length bs" "0 < length cs" using 0(1,2) lb lc by linarith+
    ultimately show ?case by (simp add: take_Suc_conv_app_nth)
  next
    case (Suc i)
    obtain k where k: "j = Suc k"
    proof (cases j)
      case 0
      with pq [OF Suc.prems(2)] pp [OF Suc.prems(1)] Suc.prems(3) have "?P ! i = 0" by simp
      then show ?thesis using nz [of i] Suc.prems(1) by simp
    qed
    have "?P ! i = ?Q ! k" using pq [OF Suc.prems(2)] pp [OF Suc.prems(1)] Suc.prems(3) k by simp
    then have IH: "i = k" "take (Suc i) (map H bs) = take (Suc i) (map H cs)"
      using Suc.IH [of k] Suc_lessD [OF Suc.prems(1)] Suc_lessD [OF Suc.prems(2) [unfolded k]] by blast+
    have "H (bs ! Suc i) = H (cs ! Suc i)" using hp [OF Suc.prems(1)] hq [OF Suc.prems(2)] Suc.prems(3) k IH(1) by simp
    moreover have "Suc i < length (map H bs)" "Suc i < length (map H cs)"
      using IH(1) k Suc.prems(1,2) lb lc unfolding length_map by linarith+
    ultimately show ?case using IH k by (simp only: take_Suc_conv_app_nth nth_map length_map)
  }
qed

lemma take_full_blocks:
  "k \<le> length ids div bs \<Longrightarrow> concat (take k (full_blocks bs ids)) = take (k * bs) ids"
proof (induction k arbitrary: ids)
  case 0
  then show ?case by simp
next
  case (Suc k)
  then have "0 < length ids div bs" by simp
  then have bs: "0 < bs" "bs \<le> length ids" by (cases "bs = 0"; simp add: div_greater_zero_iff)+
  then have e: "full_blocks bs ids = take bs ids # full_blocks bs (drop bs ids)"
    by (subst full_blocks.simps) simp
  have "k \<le> length (drop bs ids) div bs" using Suc.prems bs by (simp add: le_div_geq)
  then show ?case using Suc.IH [of "drop bs ids"] by (simp add: e take_add add.commute)
qed

lemma shared_prefix:
  assumes wf: "tree_wf (nodes s)" and bs: "0 < bs" and inj: "inj_on H (set (full_blocks bs ids) \<union> set (full_blocks bs ids'))"
    and i: "i < length (match_path H ids bs s)" and j: "j < length (match_path H ids' bs s)"
    and eq: "match_path H ids bs s ! i = match_path H ids' bs s ! j"
  shows "i = j \<and> take (Suc i * bs) ids = take (Suc i * bs) ids'"
proof -
  have z: "0 < length (nodes s)" using wf by (auto simp: tree_wf_def)
  have m: "i = j" "take (Suc i) (map H (full_blocks bs ids)) = take (Suc i) (map H (full_blocks bs ids'))"
    using descend_meet [OF wf z] i j eq unfolding match_path_def by blast+
  then have "map H (take (Suc i) (full_blocks bs ids)) = map H (take (Suc i) (full_blocks bs ids'))"
    by (simp add: take_map)
  then have "take (Suc i) (full_blocks bs ids) = take (Suc i) (full_blocks bs ids')"
    using set_take_subset [of "Suc i" "full_blocks bs ids"] set_take_subset [of "Suc i" "full_blocks bs ids'"]
    by (intro map_inj_on [OF _ inj_on_subset [OF inj]]) auto
  moreover have "Suc i \<le> length ids div bs" "Suc i \<le> length ids' div bs"
    using i j m(1) match_path_le [OF bs, of H _ s] by (metis Suc_leI le_trans)+
  ultimately show ?thesis using m(1) take_full_blocks by metis
qed

subsection \<open>A request finds its own blocks again\<close>

lemma built_match:
  assumes wf: "tree_wf ns" and p: "path = descend H ns 0 F"
    and b: "built H req (drop (length path) F) gids (last (0 # path)) s4 leaf s5"
    and ns4: "map shape (nodes s4) = map shape ns"
  shows "descend H (nodes s5) 0 F = path @ [length ns..<length (nodes s5)]"
proof -
  let ?ms = "nodes s5"
  have z: "0 < length ns" using wf by (auto simp: tree_wf_def)
  have len4: "length (nodes s4) = length ns" by (rule map_shape_length [OF ns4])
  have valid: "c < length ns" if "c \<in> insert 0 (set path)" for c
    using that descend_valid [OF wf z] z p by auto
  have dist: "distinct (0 # path)" using descend_distinct [OF wf z] p by simp
  have ch: "children (?ms ! c) = children (ns ! c)" if "c < length ns" "c \<noteq> last (0 # path)" for c
    using b that len4 shape_fields(2) [OF map_shape_nth [OF ns4 that(1)]] by (simp add: built_def same_old_def)
  have pre: "descend H ns 0 (take (length path) F) = path" unfolding p by (rule descend_take)
  have len: "length path \<le> length F" unfolding p by (rule descend_length)
  have "descend H ?ms 0 (take (length path) F) = path"
  proof (cases "path = []")
    case False
    have nb: "c \<noteq> last (0 # path)" if "c \<in> set (butlast (0 # path))" for c
    proof -
      have "0 # path = butlast (0 # path) @ [last (0 # path)]" by simp
      then have "distinct (butlast (0 # path) @ [last (0 # path)])" using dist by simp
      then show ?thesis using that by auto
    qed
    have "children (?ms ! c) = children (ns ! c)"
      if "c \<in> insert 0 (set (butlast (0 # descend H ns 0 (take (length path) F))))" for c
      using that ch [of c] nb [of c] valid [of c] False unfolding pre
      by (auto dest: in_set_butlastD)
    then show ?thesis
      using descend_cong [of 0 H ns "take (length path) F" ?ms] len by (simp add: pre)
  qed simp
  then show ?thesis
    using descend_append [of H ?ms 0 "take (length path) F" "drop (length path) F"] b len len4
    by (simp add: built_def)
qed

end
