(* ===== verification/PrefixCacheProps.thy ===== *)
theory PrefixCacheProps
  imports PrefixCacheLookup
begin

text \<open>
  The properties of the prefix cache manager in the states a sequence of requests, releases and
  evictions reaches from a fresh manager without the CPU tier.
\<close>

text \<open>
  One call of the manager. A call that raises is a step too: the caller sees the exception and the
  manager keeps what was written. \<open>dec\<close> is a multiple of the block size, as the configuration computes
  it, and a request id is used by one running request at a time.
\<close>

inductive pc_step :: "(token list \<Rightarrow> int) \<Rightarrow> nat \<Rightarrow> nat \<Rightarrow> pcm \<Rightarrow> pcm \<Rightarrow> bool" for H bs dec where
  pc_request: "req_leaf_map s req = None \<Longrightarrow> pc_step H bs dec s (snd (request_block_ids H req ids bs dec now s))"
| pc_release: "pc_step H bs dec s (snd (release_block_ids req s))"
| pc_free: "pc_step H bs dec s (snd (free_block_ids_async need s))"

inductive_cases pc_stepE: "pc_step H bs dec s s'"

inductive pc_reachable :: "(token list \<Rightarrow> int) \<Rightarrow> nat \<Rightarrow> nat \<Rightarrow> nat \<Rightarrow> nat \<Rightarrow> pcm \<Rightarrow> bool"
  for H bs dec gpu cpu where
  pc_init: "pc_reachable H bs dec gpu cpu (init_pcm gpu cpu False)"
| pc_next: "pc_reachable H bs dec gpu cpu s \<Longrightarrow> pc_step H bs dec s s' \<Longrightarrow> pc_reachable H bs dec gpu cpu s'"

lemma step_keeps:
  assumes "pc_step H bs dec s s'" "pcm_inv s" "0 < bs" "bs dvd dec"
  shows "pcm_inv s' \<and> num_gpu_blocks s' = num_gpu_blocks s"
  using assms(1)
proof (rule pc_stepE)
  fix req ids now
  assume "s' = snd (request_block_ids H req ids bs dec now s)" "req_leaf_map s req = None"
  then show ?thesis using request_keeps [OF assms(2-4)] by simp
next
  fix req assume "s' = snd (release_block_ids req s)"
  then show ?thesis using release_keeps [OF assms(2)] by simp
next
  fix need assume "s' = snd (free_block_ids_async need s)"
  then show ?thesis using free_keeps [OF assms(2), of need] by (auto simp: undisturbed_def)
qed

lemma reachable_inv:
  assumes "pc_reachable H bs dec gpu cpu s" "0 < bs" "bs dvd dec"
  shows "pcm_inv s \<and> num_gpu_blocks s = int gpu"
  using assms(1)
proof (induction rule: pc_reachable.induct)
  case pc_init
  show ?case using init_inv by (simp add: init_pcm_def)
next
  case (pc_next s s')
  then show ?case using step_keeps [OF pc_next(2) _ assms(2,3)] by simp
qed

lemma reachable_request:
  "pc_reachable H bs dec gpu cpu s \<Longrightarrow> req_leaf_map s req = None \<Longrightarrow>
   pc_reachable H bs dec gpu cpu (snd (request_block_ids H req ids bs dec now s))"
  by (blast intro: pc_next pc_request)

lemma init_no_req [simp]: "req_leaf_map (init_pcm gpu cpu hier) req = None"
  by (simp add: init_pcm_def)

lemma reachable_first:
  "pc_reachable H bs dec gpu cpu (snd (request_block_ids H req ids bs dec now (init_pcm gpu cpu False)))"
  by (intro reachable_request pc_init) simp

text \<open>A small manager the witnesses run on: six blocks of two tokens, and one request of three tokens.\<close>

abbreviation (input) one_request :: pcm where
  "one_request \<equiv> snd (request_block_ids sum_list ''a'' [1, 2, 3] 2 2 10 (init_pcm 6 0 False))"

lemma one_reachable: "pc_reachable sum_list 2 2 6 0 one_request"
  by (rule reachable_first)

subsection \<open>Accounting\<close>



text \<open>C8: in every state that new requests by \<open>request_block_ids\<close>, releases and evictions reach from the start without a
  CPU tier (with a block size that divides the number of tokens reserved for decoding), the reference count of a
  node is the number of running requests whose path to the root contains the node. The other way in,
  \<open>request_match_blocks\<close> of the second resource manager, counts a reference at every call and is not among these
  operations.\<close>

theorem reference_counts:
  assumes "pc_reachable H bs dec gpu cpu s" "0 < bs" "bs dvd dec" "0 < r" "r < length (nodes s)"
  shows "shared_count (nodes s ! r) = int (card {req. \<exists>leaf. req_leaf_map s req = Some leaf \<and> r \<in> set (chain (nodes s) leaf)})"
  using reachable_inv [OF assms(1-3)] assms(4,5) by (simp add: pcm_inv_def req_ok_def holders_def)

theorem reference_counts_witness:
  "shared_count (nodes one_request ! 1) = int (card {req. \<exists>leaf. req_leaf_map one_request req = Some leaf \<and>
     1 \<in> set (chain (nodes one_request) leaf)})"
proof -
  have "1 < length (nodes one_request)" by code_simp
  then show ?thesis by (intro reference_counts [OF one_reachable]) simp_all
qed

lemma owned_gpu: "cache_status n = GPU \<Longrightarrow> block_id n \<in># owned n"
  by (simp add: owned_def)

lemma owned_sub: "k < length ns \<Longrightarrow> owned (ns ! k) \<subseteq># tree_blocks ns"
  unfolding tree_blocks_def
proof (induction ns arbitrary: k)
  case Nil
  then show ?case by simp
next
  case (Cons n ns)
  then show ?case by (cases k) (auto intro: subset_mset.add_increasing)
qed

lemma owned_sub2:
  assumes "k < l" "l < length ns"
  shows "owned (ns ! k) + owned (ns ! l) \<subseteq># tree_blocks ns"
proof -
  have "tree_blocks ns = tree_blocks (take l ns) + tree_blocks (drop l ns)"
    using tree_blocks_append [of "take l ns" "drop l ns"] by simp
  moreover have "owned (ns ! k) \<subseteq># tree_blocks (take l ns)"
    using owned_sub [of k "take l ns"] assms by simp
  moreover have "owned (ns ! l) \<subseteq># tree_blocks (drop l ns)"
    using owned_sub [of 0 "drop l ns"] assms by simp
  ultimately show ?thesis by (simp add: subset_mset.add_mono)
qed

lemma account_once:
  assumes "A + B \<subseteq># mset (map int [0..<n]) + {#-1#}" "b \<in># A"
  shows "b \<notin># B"
proof
  assume "b \<in># B"
  let ?xs = "map int [0..<n] @ [-1]"
  have "distinct ?xs" by (auto simp: distinct_map)
  then have "count (mset ?xs) b \<le> 1" unfolding distinct_count_atmost_1 by simp
  moreover have "count (A + B) b \<le> count (mset ?xs) b" using assms(1) by (intro mset_subset_eq_count) simp
  moreover have "1 \<le> count A b" "1 \<le> count B b" using assms(2) \<open>b \<in># B\<close> by (simp_all add: Suc_leI)
  ultimately show False by simp
qed

lemma gpu_blocks_distinct:
  assumes "pc_reachable H bs dec gpu cpu s" "0 < bs" "bs dvd dec"
    and "k < length (nodes s)" "l < length (nodes s)" "cache_status (nodes s ! k) = GPU" "cache_status (nodes s ! l) = GPU"
    and "block_id (nodes s ! k) = block_id (nodes s ! l)"
  shows "k = l"
proof (rule ccontr)
  assume "k \<noteq> l"
  then have "owned (nodes s ! k) + owned (nodes s ! l) \<subseteq># tree_blocks (nodes s)"
    using owned_sub2 [of k l "nodes s"] owned_sub2 [of l k "nodes s"] assms(4,5)
    by (cases "k < l") (simp_all add: ac_simps)
  also have "\<dots> \<subseteq># gpu_account s"
    by (simp add: gpu_account_def subset_mset.add_increasing subset_mset.add_increasing2)
  finally have "owned (nodes s ! k) + owned (nodes s ! l) \<subseteq># mset (map int [0..<gpu]) + {#-1#}"
    using reachable_inv [OF assms(1-3)] by (simp add: pcm_inv_def pool_ok_def initial_account_def)
  from account_once [OF this owned_gpu [OF assms(6)]] owned_gpu [OF assms(7)] assms(8)
  show False by simp
qed

text \<open>C7: in every state that new requests, releases and evictions reach from the start without a CPU tier (with a block
  size that divides the number of tokens reserved for decoding), the block of a node on the path of a running
  request is not free, and no other node in the GPU holds it.\<close>

theorem running_blocks_not_shared:
  assumes "pc_reachable H bs dec gpu cpu s" "0 < bs" "bs dvd dec"
    and "req_leaf_map s req = Some leaf" "k \<in> set (chain (nodes s) leaf)"
  shows "block_id (nodes s ! k) \<notin> set (gpu_free_block_list s) \<and>
    (\<forall>l < length (nodes s). l \<noteq> k \<and> cache_status (nodes s ! l) = GPU \<longrightarrow> block_id (nodes s ! l) \<noteq> block_id (nodes s ! k))"
proof -
  have inv: "pcm_inv s" and acc: "gpu_account s = mset (map int [0..<gpu]) + {#-1#}"
    using reachable_inv [OF assms(1-3)] by (simp_all add: pcm_inv_def pool_ok_def initial_account_def)
  then have "leaf < length (nodes s)" "cache_status (nodes s ! k) = GPU"
    using assms(4,5) by (auto simp: pcm_inv_def req_ok_def)
  with assms(5) have k: "k < length (nodes s)" "block_id (nodes s ! k) \<in># owned (nodes s ! k)"
    using chain_valid by (auto simp: owned_def)
  have "owned (nodes s ! k) + mset (gpu_free_block_list s) \<subseteq># gpu_account s"
    using owned_sub [OF k(1)] by (auto simp: gpu_account_def ac_simps intro: subset_mset.add_increasing)
  then have free: "block_id (nodes s ! k) \<notin> set (gpu_free_block_list s)"
    using account_once [OF _ k(2)] acc by (metis set_mset_mset)
  have "block_id (nodes s ! l) \<noteq> block_id (nodes s ! k)"
    if "l < length (nodes s)" "l \<noteq> k" "cache_status (nodes s ! l) = GPU" for l
    using gpu_blocks_distinct [OF assms(1-3) k(1) that(1) \<open>cache_status (nodes s ! k) = GPU\<close> that(3)] that(2) by metis
  with free show ?thesis by blast
qed

theorem running_blocks_not_shared_witness:
  "block_id (nodes one_request ! 1) \<notin> set (gpu_free_block_list one_request)"
proof -
  have "req_leaf_map one_request ''a'' = Some 1" by code_simp
  moreover have "1 \<in> set (chain (nodes one_request) 1)" by (simp add: chain_self)
  ultimately show ?thesis using running_blocks_not_shared [OF one_reachable] by simp
qed

subsection \<open>Requests\<close>

lemma record_hit_metrics:
  assumes "0 < req_count (metrics s)" "0 \<le> total_token_num (metrics s)"
  shows "metrics_ok (snd (record_hit acc n s))"
proof (cases "n = 0")
  case True
  then show ?thesis using assms
    by (simp add: record_hit_def Let_def lift_metrics_def calculate_hit_metrics_def metrics_ok_def)
next
  case False
  then show ?thesis using record_hit_ok [OF assms, of n acc] by auto
qed

lemma request_metrics:
  assumes inv: "pcm_inv s" and m: "metrics_ok s" and bs: "0 < bs" "bs dvd dec" and fresh: "req_leaf_map s req = None"
  shows "metrics_ok (snd (request_block_ids H req ids bs dec now s))"
proof (cases "need_blocks ids bs dec \<le> length (match_path H ids bs s) + length (gpu_free_block_list s)")
  case True
  let ?acc = "match_result bs (nodes s) (match_path H ids bs s) match_init"
  obtain leaf s5 x where m5: "metrics s5 = metrics (count_request s)"
    and eq: "request_block_ids H req ids bs dec now s =
      andthen (record_hit ?acc (length ids) (add_leaf_req leaf req s5)) (\<lambda>_ s6. (Inr x, s6))"
    using request_succeeds [OF inv bs fresh True] by blast
  have "metrics_ok (snd (record_hit ?acc (length ids) (add_leaf_req leaf req s5)))"
    using m m5 by (intro record_hit_metrics) (simp_all add: add_leaf_req_def count_request_def metrics_ok_def)
  then show ?thesis unfolding eq
    by (cases "record_hit ?acc (length ids) (add_leaf_req leaf req s5)"; cases "fst (record_hit ?acc (length ids) (add_leaf_req leaf req s5))") simp_all
next
  case False
  then show ?thesis using request_fails [OF inv bs] m
    by (simp add: metrics_ok_def count_request_def)
qed

lemma release_metrics:
  assumes "pcm_inv s"
  shows "metrics (snd (release_block_ids req s)) = metrics s"
proof (cases "req_leaf_map s req")
  case None
  then show ?thesis by (simp add: release_block_ids_def)
next
  case (Some leaf)
  then show ?thesis
    by (simp add: release_eq [OF assms Some] push_gpu_lru_def released_def recycle_gpu_blocks_def)
qed

lemma reachable_metrics:
  assumes "pc_reachable H bs dec gpu cpu s" "0 < bs" "bs dvd dec"
  shows "pcm_inv s \<and> metrics_ok s"
  using assms(1)
proof (induction rule: pc_reachable.induct)
  case pc_init
  show ?case using init_inv by (simp add: init_pcm_def init_metrics_def metrics_ok_def)
next
  case (pc_next s s')
  have "metrics_ok s'" using pc_next(2)
  proof (rule pc_stepE)
    fix req ids now
    assume "s' = snd (request_block_ids H req ids bs dec now s)" "req_leaf_map s req = None"
    then show ?thesis using request_metrics [OF _ _ assms(2,3)] pc_next by simp
  next
    fix req assume "s' = snd (release_block_ids req s)"
    then show ?thesis using release_metrics [of s req] pc_next by (simp add: metrics_ok_def)
  next
    fix need assume "s' = snd (free_block_ids_async need s)"
    then show ?thesis using free_keeps [of s need] pc_next by (auto simp: undisturbed_def metrics_ok_def)
  qed
  then show ?case using step_keeps [OF pc_next(2) _ assms(2,3)] pc_next by simp
qed

lemma request_serves:
  fixes H ids bs s dec
  defines "path \<equiv> match_path H ids bs s" and "need \<equiv> (length ids + bs - 1) div bs + dec div bs"
  assumes inv: "pcm_inv s" "metrics_ok s" and bs: "0 < bs" "bs dvd dec"
    and fresh: "req_leaf_map s req = None" and ids: "ids \<noteq> []"
    and enough: "need \<le> length path + length (gpu_free_block_list s)"
  shows "\<exists>info s'. request_block_ids H req ids bs dec now s =
      (Inr (map (\<lambda>c. block_id (nodes s ! c)) path, take (need - length path) (gpu_free_block_list s), info), s') \<and>
    length path \<le> need \<and> length path \<le> length ids div bs \<and> gpu_cache_blocks info = int (length path) \<and>
    gpu_free_block_list s' = drop (need - length path) (gpu_free_block_list s)"
proof -
  have need: "need = need_blocks ids bs dec" unfolding need_def need_blocks_def
    using path_blocks_ceil [OF bs(1), of 0 "length ids"] by (simp add: path_blocks_def)
  let ?acc = "match_result bs (nodes s) path match_init"
  obtain leaf s5 where m5: "metrics s5 = metrics (count_request s)"
      "gpu_free_block_list s5 = drop (need - length path) (gpu_free_block_list s)"
    and eq: "request_block_ids H req ids bs dec now s =
      andthen (record_hit ?acc (length ids) (add_leaf_req leaf req s5)) (\<lambda>_ s6.
        (Inr (map (\<lambda>c. block_id (nodes s ! c)) path, take (need - length path) (gpu_free_block_list s),
              hit_info_of ?acc bs), s6))"
    using request_succeeds [OF inv(1) bs fresh enough [unfolded need path_def]] unfolding need path_def by blast
  obtain m' where "record_hit ?acc (length ids) (add_leaf_req leaf req s5) =
      (Inr (), (add_leaf_req leaf req s5)\<lparr>metrics := m'\<rparr>)"
    using record_hit_ok [of "add_leaf_req leaf req s5" "length ids" ?acc] inv(2) m5 ids
    by (auto simp: add_leaf_req_def count_request_def metrics_ok_def)
  moreover have "length path \<le> need" "length path \<le> length ids div bs"
    using match_path_le [OF bs(1), of H ids s] need_blocks_ge [of ids bs dec] by (simp_all add: need path_def)
  ultimately show ?thesis using eq m5(2) bs by (simp add: hit_info_of_def add_leaf_req_def)
qed

text \<open>A request whose prompt needs no more blocks than are cached for its prefix or free is served: it
  gets the cached blocks of its prefix and, for the rest, the first blocks of the free list, as many as its
  tokens and the reserve for decoding need in all, and these blocks leave the free list.\<close>

theorem request_served:
  fixes H ids bs s dec
  defines "path \<equiv> match_path H ids bs s" and "need \<equiv> (length ids + bs - 1) div bs + dec div bs"
  assumes reach: "pc_reachable H bs dec gpu cpu s" and bs: "0 < bs" "bs dvd dec"
    and fresh: "req_leaf_map s req = None" and ids: "ids \<noteq> []"
    and enough: "need \<le> length path + length (gpu_free_block_list s)"
  shows "\<exists>info s'. request_block_ids H req ids bs dec now s =
      (Inr (map (\<lambda>c. block_id (nodes s ! c)) path, take (need - length path) (gpu_free_block_list s), info), s') \<and>
    length path \<le> need \<and> gpu_cache_blocks info = int (length path) \<and>
    gpu_free_block_list s' = drop (need - length path) (gpu_free_block_list s)"
proof -
  have inv: "pcm_inv s" "metrics_ok s" using reachable_metrics [OF reach bs] by simp_all
  from request_serves [OF inv bs fresh ids enough [unfolded need_def path_def]] show ?thesis
    unfolding path_def need_def by blast
qed

theorem request_served_witness:
  "\<exists>info s'. request_block_ids sum_list ''b'' [1, 2, 4, 5] 2 2 20 one_request = (Inr ([0], [3, 4], info), s') \<and>
     gpu_free_block_list s' = [5]"
proof -
  have path: "match_path sum_list [1, 2, 4, 5] 2 one_request = [1]"
    and free: "gpu_free_block_list one_request = [3, 4, 5]" and blk: "block_id (nodes one_request ! Suc 0) = 0"
    and fresh: "req_leaf_map one_request ''b'' = None"
    by code_simp+
  show ?thesis
    using request_served [OF one_reachable _ _ fresh, of "[1, 2, 4, 5]" 20]
    by (simp only: path free) (auto simp: blk)
qed

text \<open>A request that needs more blocks than are cached for its prefix or free raises, and changes neither the
  free list, the tree, nor the table of running requests.\<close>

theorem request_refused:
  assumes reach: "pc_reachable H bs dec gpu cpu s" and bs: "0 < bs" "bs dvd dec"
    and short: "length (match_path H ids bs s) + length (gpu_free_block_list s) < (length ids + bs - 1) div bs + dec div bs"
  shows "\<exists>s'. request_block_ids H req ids bs dec now s = (Inl PyException, s') \<and>
    gpu_free_block_list s' = gpu_free_block_list s \<and> nodes s' = nodes s \<and> req_leaf_map s' = req_leaf_map s"
proof -
  have "need_blocks ids bs dec = (length ids + bs - 1) div bs + dec div bs"
    unfolding need_blocks_def using path_blocks_ceil [OF bs(1), of 0 "length ids"] by (simp add: path_blocks_def)
  then show ?thesis
    using request_fails [OF _ bs, of s H ids] short reachable_inv [OF reach bs] by simp
qed

theorem request_refused_witness:
  "\<exists>s'. request_block_ids sum_list ''b'' (replicate 8 7) 2 2 20 one_request = (Inl PyException, s') \<and>
     gpu_free_block_list s' = gpu_free_block_list one_request"
proof -
  have path: "match_path sum_list (replicate 8 7) 2 one_request = []"
    and free: "length (gpu_free_block_list one_request) = 3"
    by code_simp+
  show ?thesis
    using request_refused [OF one_reachable, of "replicate 8 7" "''b''" 20] by (simp only: path free) auto
qed

text \<open>The path of a prompt after the request for it: one node for each full block, whose blocks are the blocks
  the request was given, in order.\<close>

lemma path_after_request:
  assumes reach: "pc_reachable H bs dec gpu cpu s" and bs: "0 < bs" "bs dvd dec"
    and fresh: "req_leaf_map s req = None"
    and served: "request_block_ids H req ids bs dec now s = (Inr (common, uniq, info), s')"
  shows "length (match_path H ids bs s') = length ids div bs \<and>
    map (\<lambda>c. block_id (nodes s' ! c)) (match_path H ids bs s') = take (length ids div bs) (common @ uniq)"
proof -
  let ?F = "full_blocks bs ids"
  define path where "path = match_path H ids bs s"
  let ?need = "need_blocks ids bs dec"
  have inv: "pcm_inv s" and wf: "tree_wf (nodes s)" and z: "0 < length (nodes s)"
    using reachable_inv [OF reach bs] by (auto simp: pcm_inv_def tree_ok_def tree_wf_def)
  have enough: "?need \<le> length path + length (gpu_free_block_list s)"
  proof (rule ccontr)
    assume "\<not> ?thesis"
    then show False using request_fails [OF inv bs, of H ids req now] served by (simp add: path_def)
  qed
  let ?acc = "match_result bs (nodes s) path match_init"
  let ?uniq = "take (?need - length path) (gpu_free_block_list s)"
  obtain leaf s4 s5 where ns4: "nodes s4 = on_set (set path) (touch req now) (nodes s)"
    and b: "built H req (drop (length path) ?F) ?uniq (last (0 # path)) s4 leaf s5"
    and eq: "request_block_ids H req ids bs dec now s =
      andthen (record_hit ?acc (length ids) (add_leaf_req leaf req s5)) (\<lambda>_ s6.
        (Inr (map (\<lambda>c. block_id (nodes s ! c)) path, ?uniq, hit_info_of ?acc bs), s6))"
    using request_succeeds [OF inv bs fresh enough [unfolded path_def]] unfolding path_def by blast
  obtain r m where "record_hit ?acc (length ids) (add_leaf_req leaf req s5) = (r, add_leaf_req leaf req s5\<lparr>metrics := m\<rparr>)"
    using record_hit_frame by blast
  then have s': "nodes s' = nodes s5" "common = map (\<lambda>c. block_id (nodes s ! c)) path" "uniq = ?uniq"
    using served eq by (cases r; auto simp: add_leaf_req_def)+
  have shp: "map shape (nodes s4) = map shape (nodes s)" by (simp add: ns4 map_shape_on_set)
  have lF: "length ?F = length ids div bs" by (rule length_full_blocks [OF bs(1)])
  have lp: "length path \<le> length ?F" unfolding lF path_def by (rule match_path_le [OF bs(1)])
  have len4: "length (nodes s4) = length (nodes s)" by (rule map_shape_length [OF shp])
  have len5: "length (nodes s5) = length (nodes s) + (length ?F - length path)"
    using b len4 by (simp add: built_def)
  have path': "match_path H ids bs s' = path @ [length (nodes s)..<length (nodes s5)]"
    using built_match [OF wf _ b shp] by (simp add: match_path_def path_def s')
  have old: "block_id (nodes s5 ! c) = block_id (nodes s ! c)" if "c \<in> set path" for c
  proof -
    have c: "c < length (nodes s)" using that descend_valid [OF wf z] by (auto simp: path_def match_path_def)
    then show ?thesis using b len4 shape_fields(5) [OF map_shape_nth [OF shp c]] by (simp add: built_def same_old_def)
  qed
  have new: "map (\<lambda>c. block_id (nodes s5 ! c)) [length (nodes s)..<length (nodes s5)] = take (length ?F - length path) uniq"
  proof (rule nth_equalityI)
    have "length ?F \<le> ?need" unfolding lF by (rule need_blocks_ge)
    then have "length ?F - length path \<le> length uniq" using enough lp by (simp add: s')
    then show "length (map (\<lambda>c. block_id (nodes s5 ! c)) [length (nodes s)..<length (nodes s5)]) = length (take (length ?F - length path) uniq)"
      using len5 by simp
    have "\<forall>i < length ?F - length path. block_id (nodes s5 ! (length (nodes s) + i)) = uniq ! i"
      using b len4 unfolding s'(3) by (simp add: built_def)
    then show "map (\<lambda>c. block_id (nodes s5 ! c)) [length (nodes s)..<length (nodes s5)] ! i = take (length ?F - length path) uniq ! i"
      if "i < length (map (\<lambda>c. block_id (nodes s5 ! c)) [length (nodes s)..<length (nodes s5)])" for i
      using that len5 by simp
  qed
  show ?thesis
  proof
    show "length (match_path H ids bs s') = length ids div bs" using path' len5 lp lF by simp
    show "map (\<lambda>c. block_id (nodes s' ! c)) (match_path H ids bs s') = take (length ids div bs) (common @ uniq)"
      using path' new old lp lF s'(1,2) by simp
  qed
qed

text \<open>In every reachable state a match returns the blocks of the selected path.\<close>

lemma reachable_match:
  assumes "pc_reachable H bs dec gpu cpu s" "0 < bs" "bs dvd dec"
  shows "match_block H ids bs s = (Inr (match_result bs (nodes s) (match_path H ids bs s) match_init),
    forget_all (match_path H ids bs s) s)"
  using match_block_gpu [of s H ids bs] reachable_inv [OF assms]
  by (simp add: pcm_inv_def tree_ok_def match_path_def Let_def)

text \<open>C13: without a CPU tier and with a block size that divides the number of tokens reserved for decoding, a new
  request, under an id without cached blocks, that is served finds its own prompt again: the next \<open>match_block\<close> of the prompt counts every full block
  as matched and returns the blocks the request was given for them, in order.\<close>

theorem request_then_match:
  assumes reach: "pc_reachable H bs dec gpu cpu s" and bs: "0 < bs" "bs dvd dec"
    and fresh: "req_leaf_map s req = None"
    and served: "request_block_ids H req ids bs dec now s = (Inr (common, uniq, info), s')"
  shows "\<exists>acc s2. match_block H ids bs s' = (Inr acc, s2) \<and>
    match_gpu_block_ids acc = take (length ids div bs) (common @ uniq) \<and>
    gpu_match_token_num acc = int bs * int (length ids div bs)"
proof -
  have "pc_reachable H bs dec gpu cpu s'"
    using pc_next [OF reach, of s'] served fresh pc_step.intros(1) [of s req H bs dec ids] by (metis snd_conv)
  from reachable_match [OF this bs, of ids] path_after_request [OF reach bs fresh served] show ?thesis by simp
qed

theorem request_then_match_witness:
  "\<exists>acc s2. match_block sum_list [1, 2, 3] 2 one_request = (Inr acc, s2) \<and> match_gpu_block_ids acc = [0]"
proof -
  have ok: "fst (request_block_ids sum_list ''a'' [1, 2, 3] 2 2 10 (init_pcm 6 0 False)) =
      Inr ([], [0, 1, 2], \<lparr>gpu_cache_blocks = 0, cpu_cache_blocks = 0\<rparr>)" by code_simp
  have "request_block_ids sum_list ''a'' [1, 2, 3] 2 2 10 (init_pcm 6 0 False) =
      (Inr ([], [0, 1, 2], \<lparr>gpu_cache_blocks = 0, cpu_cache_blocks = 0\<rparr>), one_request)"
    by (rule prod_eqI) (simp_all add: ok)
  then show ?thesis using request_then_match [OF pc_init [of sum_list 2 2 6 0]] by fastforce
qed



subsection \<open>Release and eviction\<close>

text \<open>A release takes the request off exactly the nodes of its path, gives the blocks it held outside the tree
  back, and makes its last node a candidate for eviction when nobody else needs it.\<close>

theorem release_effect:
  assumes reach: "pc_reachable H bs dec gpu cpu s" "0 < bs" "bs dvd dec" and leaf: "req_leaf_map s req = Some leaf"
  shows "\<exists>s'. release_block_ids req s = (Inr (), s') \<and> req_leaf_map s' = (req_leaf_map s)(req := None) \<and>
    (\<forall>r < length (nodes s). shared_count (nodes s' ! r) =
        shared_count (nodes s ! r) - (if r \<in> set (chain (nodes s) leaf) then 1 else 0)) \<and>
    mset (gpu_free_block_list s') = mset (gpu_free_block_list s) +
        mset (case map_of (unfilled_req_block_map s) req of None \<Rightarrow> [] | Some bs \<Rightarrow> bs) \<and>
    (leaf \<noteq> 0 \<and> shared_count (nodes s' ! leaf) = 0 \<and> is_gpu_leaf_node (nodes s') (nodes s' ! leaf) \<and>
       \<not> is_persistent (nodes s' ! leaf) \<longrightarrow> leaf \<in> gpu_lru_leaf_set s')"
proof -
  have inv: "pcm_inv s" using reachable_inv [OF reach] by simp
  let ?t = "released req leaf s"
  have t: "req_leaf_map ?t = (req_leaf_map s)(req := None)" "gpu_lru_leaf_set ?t = gpu_lru_leaf_set s"
    "nodes ?t = on_set (set (chain (nodes s) leaf)) (untouch req) (nodes s)"
    "mset (gpu_free_block_list ?t) = mset (gpu_free_block_list s) +
        mset (case map_of (unfilled_req_block_map s) req of None \<Rightarrow> [] | Some bs \<Rightarrow> bs)"
    by (simp_all add: released_def recycle_gpu_blocks_def block_simps)
  have p: "req_leaf_map (push_gpu_lru leaf ?t) = req_leaf_map ?t" "nodes (push_gpu_lru leaf ?t) = nodes ?t"
    "gpu_free_block_list (push_gpu_lru leaf ?t) = gpu_free_block_list ?t"
    "gpu_lru_leaf_set (push_gpu_lru leaf ?t) = insert leaf (gpu_lru_leaf_set ?t)"
    by (simp_all add: push_gpu_lru_def)
  have cnt: "shared_count (nodes ?t ! r) = shared_count (nodes s ! r) - (if r \<in> set (chain (nodes s) leaf) then 1 else 0)"
    if "r < length (nodes s)" for r
    using that by (simp add: t untouch_def decrement_shared_count_def)
  define s' where "s' = (if leaf \<noteq> 0 \<and> leaf \<notin> gpu_lru_leaf_set s \<and> shared_count (nodes ?t ! leaf) = 0 \<and>
       is_gpu_leaf_node (nodes ?t) (nodes ?t ! leaf) \<and> \<not> is_persistent (nodes ?t ! leaf)
     then push_gpu_lru leaf ?t else ?t)"
  have f: "nodes s' = nodes ?t" "req_leaf_map s' = req_leaf_map ?t" "gpu_free_block_list s' = gpu_free_block_list ?t"
    by (simp_all add: s'_def p)
  have "release_block_ids req s = (Inr (), s')"
    unfolding s'_def by (rule release_eq [OF inv leaf])
  moreover have "leaf \<noteq> 0 \<and> shared_count (nodes s' ! leaf) = 0 \<and> is_gpu_leaf_node (nodes s') (nodes s' ! leaf) \<and>
       \<not> is_persistent (nodes s' ! leaf) \<longrightarrow> leaf \<in> gpu_lru_leaf_set s'"
    unfolding f by (simp add: s'_def p t(2))
  ultimately show ?thesis using cnt t(1,4) f by metis
qed

theorem release_effect_witness:
  "\<exists>s'. release_block_ids ''a'' one_request = (Inr (), s') \<and>
     shared_count (nodes s' ! 1) = shared_count (nodes one_request ! 1) - 1"
proof -
  have leaf: "req_leaf_map one_request ''a'' = Some 1" by code_simp
  have "1 < length (nodes one_request)" by code_simp
  moreover have "1 \<in> set (chain (nodes one_request) 1)" by (simp add: chain_self)
  ultimately show ?thesis using release_effect [OF one_reachable _ _ leaf] by force
qed

text \<open>Freeing blocks for a waiting request never fails; it ends with as many more free blocks as asked for, or with
  no candidate left; it takes no block from a running request: the nodes of every running request keep
  their blocks, their reserve and their status.\<close>

theorem eviction_frees:
  assumes reach: "pc_reachable H bs dec gpu cpu s" and bs: "0 < bs" "bs dvd dec"
  shows "\<exists>s'. free_block_ids_async need s = (Inr (), s') \<and>
    (gpu_lru_leaf_heap s' = [] \<or> int (length (gpu_free_block_list s)) + need \<le> int (length (gpu_free_block_list s'))) \<and>
    req_leaf_map s' = req_leaf_map s \<and>
    (\<forall>req leaf. req_leaf_map s req = Some leaf \<longrightarrow> chain (nodes s') leaf = chain (nodes s) leaf \<and>
       (\<forall>k \<in> set (chain (nodes s) leaf). block_id (nodes s' ! k) = block_id (nodes s ! k) \<and>
          owned (nodes s' ! k) = owned (nodes s ! k) \<and> cache_status (nodes s' ! k) = cache_status (nodes s ! k)))"
  using free_keeps [of s need] reachable_inv [OF reach bs] by (auto simp: undisturbed_def)

theorem eviction_frees_witness:
  "\<exists>s'. free_block_ids_async 4 one_request = (Inr (), s') \<and> req_leaf_map s' = req_leaf_map one_request"
  using eviction_frees [OF one_reachable, of 4] by auto

text \<open>A round of eviction takes a candidate than which no other was used longer ago, and among equally old ones
  one that is deepest in the tree.\<close>

theorem eviction_order:
  assumes "lru_pop (nodes s) (gpu_lru_leaf_heap s) = Inr (r, h)"
    and "\<forall>y \<in> set (gpu_lru_leaf_heap s). last_used_time (nodes s ! y) \<noteq> None"
    and "y \<in> set (gpu_lru_leaf_heap s)"
  shows "r \<in> set (gpu_lru_leaf_heap s) \<and>
    (the (last_used_time (nodes s ! r)) < the (last_used_time (nodes s ! y)) \<or>
     the (last_used_time (nodes s ! r)) = the (last_used_time (nodes s ! y)) \<and> depth (nodes s ! y) \<le> depth (nodes s ! r))"
proof -
  have r: "r \<in> set (gpu_lru_leaf_heap s)" using lru_pop_Inr(1) [OF assms(1)] .
  with assms(2,3) obtain a b where "last_used_time (nodes s ! r) = Some a" "last_used_time (nodes s ! y) = Some b" by blast
  with r lru_pop_least [OF assms] show ?thesis by (auto simp: node_lt_def split: if_splits)
qed

text \<open>Two finished requests: the candidates are their leaves.\<close>

abbreviation (input) two_idle :: pcm where
  "two_idle \<equiv> snd (release_block_ids ''a'' (snd (release_block_ids ''b''
     (snd (request_block_ids sum_list ''b'' [4, 5] 2 2 20 one_request)))))"

theorem eviction_order_witness:
  "\<exists>r h. lru_pop (nodes two_idle) (gpu_lru_leaf_heap two_idle) = Inr (r, h) \<and>
     the (last_used_time (nodes two_idle ! r)) \<le> the (last_used_time (nodes two_idle ! 2))"
proof -
  have heap: "gpu_lru_leaf_heap two_idle = [2, 1]"
    and time: "last_used_time (nodes two_idle ! 1) = Some 10" "last_used_time (nodes two_idle ! 2) = Some 20"
    by code_simp+
  obtain r h where pop: "lru_pop (nodes two_idle) (gpu_lru_leaf_heap two_idle) = Inr (r, h)"
    using lru_pop_nonempty [of "gpu_lru_leaf_heap two_idle" "nodes two_idle"] unfolding heap by blast
  have "\<forall>y \<in> set (gpu_lru_leaf_heap two_idle). last_used_time (nodes two_idle ! y) \<noteq> None"
    unfolding heap using time by simp
  from eviction_order [OF pop this, of 2] pop show ?thesis unfolding heap by force
qed

subsection \<open>A block a refused request strands\<close>

text \<open>Matching takes the matched leaf out of the candidates for eviction before the check for free blocks; when that
  check raises, nothing puts it back. Here the only cached block belongs to no running request, yet
  after a refused request no eviction can free it.\<close>

theorem refused_request_strands_block:
  "let s1 = snd (request_block_ids sum_list ''a'' [1, 2] 2 0 10 (init_pcm 2 0 False));
       s2 = snd (release_block_ids ''a'' s1);
       s3 = snd (request_block_ids sum_list ''b'' [1, 2, 3, 4, 5, 6] 2 0 20 s2)
   in length (gpu_free_block_list (snd (free_block_ids_async 2 s2))) = 2 \<and>
      fst (request_block_ids sum_list ''b'' [1, 2, 3, 4, 5, 6] 2 0 20 s2) = Inl PyException \<and>
      length (gpu_free_block_list (snd (free_block_ids_async 2 s3))) = 1"
  by code_simp

end
