(* ===== verification/ResourceManager.thy ===== *)
theory ResourceManager
  imports EngineRequest PrefixCacheProps
begin

text \<open>
  The resource manager of the first scheduler (\<open>engine/resource_manager.py\<close>): batch slots and cache
  blocks of the requests in the engine. The second scheduler inherits from it, so its operations are
  defined on every extension of its record. Logging and metrics gauges are left out. A call handed to an
  executor runs at once, and its exception stays in the future nobody asks.
\<close>

record cache_config =
  block_size :: nat
  dec_token_num :: nat
  max_block_num_per_seq :: int

record 't rm =
  cfg :: cache_config
  max_num_seqs :: nat
  stop_flags :: "bool list"
  enable_prefix_cache :: bool
  cache_manager :: pcm
  tasks_list :: "'t option list"
  req_dict :: "req_id \<Rightarrow> nat option"
  real_bsz :: nat

definition init_rm :: "cache_config \<Rightarrow> nat \<Rightarrow> bool \<Rightarrow> pcm \<Rightarrow> 't rm" where
  "init_rm c n prefix pm =
     \<lparr>cfg = c, max_num_seqs = n, stop_flags = replicate n True, enable_prefix_cache = prefix,
      cache_manager = pm, tasks_list = replicate n None, req_dict = Map.empty, real_bsz = 0\<rparr>"

definition reset_cache_config :: "cache_config \<Rightarrow> nat \<Rightarrow> ('t, 'a) rm_scheme \<Rightarrow> ('t, 'a) rm_scheme" where
  "reset_cache_config c gpu s = s\<lparr>cfg := c, cache_manager := update_cache_config gpu (cache_manager s)\<rparr>"

definition get_required_block_number :: "int \<Rightarrow> ('t, 'a) rm_scheme \<Rightarrow> int" where
  "get_required_block_number n s =
     (n + int (block_size (cfg s)) - 1 + int (dec_token_num (cfg s))) div int (block_size (cfg s))"

definition get_encoder_block_number :: "int \<Rightarrow> ('t, 'a) rm_scheme \<Rightarrow> int" where
  "get_encoder_block_number n s = (n + int (block_size (cfg s)) - 1) div int (block_size (cfg s))"

definition get_decoder_block_number :: "('t, 'a) rm_scheme \<Rightarrow> int" where
  "get_decoder_block_number s =
     (int (dec_token_num (cfg s)) + int (block_size (cfg s)) - 1) div int (block_size (cfg s))"

definition total_block_number :: "('t, 'a) rm_scheme \<Rightarrow> int" where
  "total_block_number s = num_gpu_blocks (cache_manager s)"

definition available_block_num :: "('t, 'a) rm_scheme \<Rightarrow> int" where
  "available_block_num s = int (length (gpu_free_block_list (cache_manager s)))"

text \<open>A call on the cache manager, made from the resource manager.\<close>

definition lift_pcm :: "(pcm \<Rightarrow> (pcm, 'b) outcome) \<Rightarrow> ('t, 'a) rm_scheme \<Rightarrow> (('t, 'a) rm_scheme, 'b) outcome" where
  "lift_pcm f s = (case f (cache_manager s) of (r, p) \<Rightarrow> (r, s\<lparr>cache_manager := p\<rparr>))"

definition get_block_tables :: "int \<Rightarrow> string \<Rightarrow> ('t, 'a) rm_scheme \<Rightarrow> (('t, 'a) rm_scheme, block_id list) outcome" where
  "get_block_tables n required_type s =
     (let allot = (\<lambda>block_num. if block_num > available_block_num s then (Inr [], s)
                               else lift_pcm (allocate_gpu_blocks block_num) s)
      in if required_type = ''all'' then allot (get_required_block_number n s)
         else if required_type = ''encoder'' then allot (get_encoder_block_number n s)
         else if required_type = ''decoder'' then allot (get_decoder_block_number s)
         else (Inl ValueError, s))"

definition free_block_tables :: "int \<Rightarrow> ('t, 'a) rm_scheme \<Rightarrow> (('t, 'a) rm_scheme, unit) outcome" where
  "free_block_tables need s = lift_pcm (free_block_ids_async need) s"

definition check_and_free_block_tables :: "('t, 'a) rm_scheme \<Rightarrow> (('t, 'a) rm_scheme, unit) outcome" where
  "check_and_free_block_tables s =
     (if enable_prefix_cache s \<and> available_block_num s < max_block_num_per_seq (cfg s)
      then free_block_tables (max_block_num_per_seq (cfg s)) s else (Inr (), s))"

definition recycle_block_tables :: "Request \<Rightarrow> ('t, 'a) rm_scheme \<Rightarrow> ('t, 'a) rm_scheme" where
  "recycle_block_tables task s =
     (if enable_prefix_cache s
      then s\<lparr>cache_manager := snd (release_block_ids (request_id task) (cache_manager s))\<rparr>
      else s\<lparr>cache_manager := recycle_gpu_blocks (block_tables task) (cache_manager s)\<rparr>)"

definition available_batch :: "('t, 'a) rm_scheme \<Rightarrow> nat" where
  "available_batch s = length (filter (\<lambda>b. b) (stop_flags s))"

definition is_resource_sufficient :: "int \<Rightarrow> ('t, 'a) rm_scheme \<Rightarrow> bool" where
  "is_resource_sufficient n s =
     (if available_batch s < 1 then False
      else if get_required_block_number n s > available_block_num s then False else True)"

subsection \<open>Admission\<close>

text \<open>The inner loop of \<open>allocate_resources_for_new_tasks\<close>: the first free slot from a position on.\<close>

function next_slot :: "bool list \<Rightarrow> nat \<Rightarrow> nat \<Rightarrow> nat option" where
  "next_slot flags n pos =
     (if pos < n then if pos < length flags \<and> flags ! pos then Some pos else next_slot flags n (Suc pos)
      else None)"
  by pat_completeness auto
termination
  by (relation "measure (\<lambda>(flags, n, pos). n - pos)") auto

declare next_slot.simps [simp del]

definition record_request_cache_info ::
  "nat \<Rightarrow> block_id list \<Rightarrow> block_id list \<Rightarrow> hit_info \<Rightarrow> Request \<Rightarrow> int \<times> Request" where
  "record_request_cache_info bs common uniq hit task =
     (let cache_block_num = int (length common);
          no_cache_block_num = (int (length (prompt_token_ids task)) + int bs - 1) div int bs - cache_block_num
      in (int (length common) * int bs,
          task\<lparr>num_cached_tokens := cache_block_num * int bs,
               gpu_cache_token_num := Some (gpu_cache_blocks hit * int bs),
               cpu_cache_token_num := Some (cpu_cache_blocks hit * int bs),
               req_cache_info := Some (cache_block_num, no_cache_block_num),
               block_tables := common @ uniq,
               need_block_tables := Some uniq\<rparr>))"

text \<open>\<open>xs[n:]\<close> of Python, where a negative \<open>n\<close> counts from the end.\<close>

definition py_drop :: "int \<Rightarrow> 'a list \<Rightarrow> 'a list" where
  "py_drop n xs = (if n < 0 then drop (nat (int (length xs) + n)) xs else drop (nat n) xs)"

definition delete_cached_data :: "int \<Rightarrow> Request \<Rightarrow> Request" where
  "delete_cached_data cached_len task =
     (let task1 =
        (if cached_len = int (length (prompt_token_ids task)) then
           task\<lparr>prompt_token_ids := py_drop (cached_len - 1) (prompt_token_ids task),
                seq_lens_decoder := Some (cached_len - 1)\<rparr>
         else
           task\<lparr>prompt_token_ids := py_drop cached_len (prompt_token_ids task),
                seq_lens_decoder := Some cached_len\<rparr>)
      in task1\<lparr>prompt_token_ids_len := int (length (prompt_token_ids task1))\<rparr>)"

definition share_blocks :: "block_id list option \<Rightarrow> Request \<Rightarrow> Request" where
  "share_blocks bs task =
     task\<lparr>disaggregate_info := map_option (\<lambda>d. d\<lparr>shared_block_tables := bs\<rparr>) (disaggregate_info task)\<rparr>"

definition register :: "Request \<Rightarrow> nat \<Rightarrow> ('t, 'a) rm_scheme \<Rightarrow> ('t, 'a) rm_scheme" where
  "register task pos s = s\<lparr>req_dict := (req_dict s)(request_id task \<mapsto> pos)\<rparr>"

text \<open>The blocks of one task with prefix caching.\<close>

definition admit_prefix ::
  "(token list \<Rightarrow> int) \<Rightarrow> int \<Rightarrow> nat \<Rightarrow> Request \<Rightarrow> ('t, 'a) rm_scheme \<Rightarrow> (('t, 'a) rm_scheme, Request) outcome" where
  "admit_prefix H now pos task s =
     andthen (lift_pcm (request_block_ids H (request_id task) (prompt_token_ids task)
                 (block_size (cfg s)) (dec_token_num (cfg s)) now) s)
       (\<lambda>(common, uniq, hit) s1.
          let (cached_len, task1) = record_request_cache_info (block_size (cfg s)) common uniq hit task in
          case disaggregate_info task1 of
            None \<Rightarrow> (Inr (delete_cached_data cached_len task1), s1)
          | Some d \<Rightarrow>
              if role d = ''prefill'' then
                (Inr (delete_cached_data cached_len (share_blocks (Some (block_tables task1)) task1)),
                 register task1 pos s1)
              else if role d = ''decode'' then
                (Inr (share_blocks (need_block_tables task1) task1), register task1 pos s1)
              else (Inr task1, s1))"

text \<open>
  The blocks of one task without prefix caching. When none are handed out the loop continues without
  moving on, so that it asks again with nothing changed: the call does not return.
\<close>

definition admit_plain :: "nat \<Rightarrow> Request \<Rightarrow> ('t, 'a) rm_scheme \<Rightarrow> (('t, 'a) rm_scheme, Request) outcome" where
  "admit_plain pos task s =
     andthen (get_block_tables (prompt_token_ids_len task) ''all'' s)
       (\<lambda>bts s1.
          if bts = [] then (Inl NoReturn, s1)
          else
            let task1 = task\<lparr>block_tables := bts, need_block_tables := Some bts\<rparr> in
            case disaggregate_info task1 of
              None \<Rightarrow> (Inr task1, s1)
            | Some d \<Rightarrow>
                (Inr (share_blocks (Some bts) task1),
                 if role d = ''prefill'' then register task1 pos s1
                 else if role d = ''decode'' then register task1 pos s1 else s1))"

definition place_task :: "nat \<Rightarrow> Request \<Rightarrow> (Request, 'a) rm_scheme \<Rightarrow> (Request, 'a) rm_scheme" where
  "place_task pos task s =
     s\<lparr>stop_flags := (stop_flags s)[pos := False], tasks_list := (tasks_list s)[pos := Some task]\<rparr>"

definition admit_task ::
  "(token list \<Rightarrow> int) \<Rightarrow> int \<Rightarrow> int \<Rightarrow> nat \<Rightarrow> Request \<Rightarrow> (Request, 'a) rm_scheme \<Rightarrow> ((Request, 'a) rm_scheme, Request) outcome" where
  "admit_task H now rnd pos task s =
     (let task0 = task\<lparr>seed := (case seed task of None \<Rightarrow> Some rnd | sd \<Rightarrow> sd), idx := Some pos\<rparr>
      in andthen (if enable_prefix_cache s then admit_prefix H now pos task0 s else admit_plain pos task0 s)
           (\<lambda>task1 s1.
              let task2 = task1\<lparr>inference_start_time := Some now, tokens_all_num := Some 0\<rparr>
              in (Inr task2, place_task pos task2 s1)))"

text \<open>The outer loop, over the tasks: it ends when the tasks or the slots run out.\<close>

fun admit_tasks ::
  "(token list \<Rightarrow> int) \<Rightarrow> int \<Rightarrow> (nat \<Rightarrow> int) \<Rightarrow> nat \<Rightarrow> Request list \<Rightarrow> (Request, 'a) rm_scheme \<Rightarrow>
   ((Request, 'a) rm_scheme, Request list) outcome" where
  "admit_tasks H now rnd pos [] s = (Inr [], s)"
| "admit_tasks H now rnd pos (task # tasks) s =
     (case next_slot (stop_flags s) (max_num_seqs s) pos of
        None \<Rightarrow> (Inr [], s)
      | Some p \<Rightarrow>
          andthen (admit_task H now (rnd p) p task s)
            (\<lambda>t s1. andthen (admit_tasks H now rnd (Suc p) tasks s1) (\<lambda>ts s2. (Inr (t # ts), s2))))"

fun last_busy :: "bool list \<Rightarrow> nat \<Rightarrow> nat \<Rightarrow> nat" where
  "last_busy flags 0 old = old"
| "last_busy flags (Suc i) old = (if \<not> flags ! i then i + 1 else last_busy flags i old)"

definition allocate_resources_for_new_tasks ::
  "(token list \<Rightarrow> int) \<Rightarrow> int \<Rightarrow> (nat \<Rightarrow> int) \<Rightarrow> Request list \<Rightarrow> (Request, 'a) rm_scheme \<Rightarrow>
   ((Request, 'a) rm_scheme, Request list) outcome" where
  "allocate_resources_for_new_tasks H now rnd tasks s =
     andthen (admit_tasks H now rnd 0 tasks s)
       (\<lambda>ts s1. (Inr ts, s1\<lparr>real_bsz := last_busy (stop_flags s1) (max_num_seqs s1) (real_bsz s1)\<rparr>))"

definition get_gpu_cache_usage_perc :: "('t, 'a) rm_scheme \<Rightarrow> rat" where
  "get_gpu_cache_usage_perc s =
     (if total_block_number s > 0
      then 1 - of_int (available_block_num s) / of_int (total_block_number s) else 0)"

text \<open>
  What the token processor does with the slot of a finished request of the first scheduler
  (\<open>output/token_processor.py\<close>, \<open>_recycle_resources\<close>).
\<close>

definition recycle_slot :: "nat \<Rightarrow> Request \<Rightarrow> ('t, 'a) rm_scheme \<Rightarrow> ('t, 'a) rm_scheme" where
  "recycle_slot i task s =
     recycle_block_tables task (s\<lparr>stop_flags := (stop_flags s)[i := True], tasks_list := (tasks_list s)[i := None]\<rparr>)"

end
