(* ===== verification/ResourceManagerProps.thy ===== *)
theory ResourceManagerProps
  imports ResourceManager
begin

text \<open>
  The first scheduler's resource manager: slots and tasks stay in step, cache blocks are neither lost
  nor given out twice, and a request the check for resources lets pass is admitted.
\<close>

subsection \<open>Slots\<close>

definition slots_ok :: "(Request, 'a) rm_scheme \<Rightarrow> bool" where
  "slots_ok s \<longleftrightarrow> length (stop_flags s) = max_num_seqs s \<and> length (tasks_list s) = max_num_seqs s \<and>
     (\<forall>i < max_num_seqs s. stop_flags s ! i = (tasks_list s ! i = None)) \<and>
     (\<forall>i < max_num_seqs s. \<forall>t. tasks_list s ! i = Some t \<longrightarrow> idx t = Some i)"

lemma next_slot_Some:
  "next_slot flags n pos = Some p \<Longrightarrow> pos \<le> p \<and> p < n \<and> p < length flags \<and> flags ! p"
proof (induction flags n pos rule: next_slot.induct)
  case (1 flags n pos)
  then show ?case by (subst (asm) next_slot.simps) (auto split: if_splits)
qed

lemma next_slot_None:
  "next_slot flags n pos = None \<Longrightarrow> pos \<le> i \<Longrightarrow> i < n \<Longrightarrow> i < length flags \<Longrightarrow> \<not> flags ! i"
proof (induction flags n pos rule: next_slot.induct)
  case (1 flags n pos)
  show ?case
  proof (cases "i = pos")
    case True
    then show ?thesis using 1(2-) by (subst (asm) next_slot.simps) (auto split: if_splits)
  next
    case False
    then show ?thesis using 1 by (subst (asm) (2) next_slot.simps) (auto split: if_splits)
  qed
qed

definition busy_blocks :: "Request option list \<Rightarrow> block_id multiset" where
  "busy_blocks ts = sum_list (map (\<lambda>t. case t of None \<Rightarrow> {#} | Some r \<Rightarrow> mset (block_tables r)) ts)"

lemma busy_blocks_place:
  assumes "i < length ts" "ts ! i = None"
  shows "busy_blocks (ts[i := Some t]) = busy_blocks ts + mset (block_tables t)"
  using sum_list_update_mset [OF assms(1), of "\<lambda>t. case t of None \<Rightarrow> {#} | Some r \<Rightarrow> mset (block_tables r)" "Some t"] assms(2)
  by (simp add: busy_blocks_def)

lemma busy_blocks_clear:
  assumes "i < length ts" "ts ! i = Some t"
  shows "busy_blocks (ts[i := None]) + mset (block_tables t) = busy_blocks ts"
  using sum_list_update_mset [OF assms(1), of "\<lambda>t. case t of None \<Rightarrow> {#} | Some r \<Rightarrow> mset (block_tables r)" None] assms(2)
  by (simp add: busy_blocks_def)

subsection \<open>Without prefix caching\<close>

text \<open>Blocks that are free or in the table of a task in a slot.\<close>

definition plain_account :: "(Request, 'a) rm_scheme \<Rightarrow> block_id multiset" where
  "plain_account s = mset (gpu_free_block_list (cache_manager s)) + busy_blocks (tasks_list s)"

definition rm_plain :: "(Request, 'a) rm_scheme \<Rightarrow> bool" where
  "rm_plain s \<longleftrightarrow> slots_ok s \<and> \<not> enable_prefix_cache s"

lemma get_block_tables_all:
  "get_block_tables n ''all'' s =
     (let k = get_required_block_number n s; free = gpu_free_block_list (cache_manager s) in
      if k > int (length free) then (Inr [], s)
      else (Inr (take (nat k) free),
            s\<lparr>cache_manager := (cache_manager s)\<lparr>gpu_free_block_list := drop (nat k) free\<rparr>\<rparr>))"
  by (simp add: get_block_tables_def Let_def available_block_num_def lift_pcm_def allocate_gpu_blocks_eq)

lemma admit_plain_eq:
  assumes "get_required_block_number (prompt_token_ids_len task) s > 0"
  shows "admit_plain pos task s =
    (let k = get_required_block_number (prompt_token_ids_len task) s; free = gpu_free_block_list (cache_manager s) in
     if k > int (length free) then (Inl NoReturn, s)
     else let bts = take (nat k) free;
              s1 = s\<lparr>cache_manager := (cache_manager s)\<lparr>gpu_free_block_list := drop (nat k) free\<rparr>\<rparr>;
              t = task\<lparr>block_tables := bts, need_block_tables := Some bts\<rparr>
          in (Inr (share_blocks (Some bts) t),
              if \<exists>d. disaggregate_info task = Some d \<and> (role d = ''prefill'' \<or> role d = ''decode'')
              then register task pos s1 else s1))"
proof -
  have "take (nat k) free \<noteq> []" if "0 < k" "k \<le> int (length free)" for k and free :: "int list"
    using that by auto
  then show ?thesis
    using assms unfolding admit_plain_def get_block_tables_all Let_def
    by (auto simp: share_blocks_def register_def split: option.splits)
qed

definition same_slots :: "(Request, 'a) rm_scheme \<Rightarrow> (Request, 'a) rm_scheme \<Rightarrow> bool" where
  "same_slots s s' \<longleftrightarrow> stop_flags s' = stop_flags s \<and> tasks_list s' = tasks_list s \<and>
     max_num_seqs s' = max_num_seqs s \<and> enable_prefix_cache s' = enable_prefix_cache s \<and> cfg s' = cfg s"

lemma admit_plain_cases:
  obtains (wait) "admit_plain pos task s = (Inl NoReturn, s)"
  | (ok) t s1 where "admit_plain pos task s = (Inr t, s1)" "same_slots s s1" "idx t = idx task"
      "mset (block_tables t) + mset (gpu_free_block_list (cache_manager s1)) = mset (gpu_free_block_list (cache_manager s))"
      "int (length (block_tables t)) = get_required_block_number (prompt_token_ids_len task) s"
      "num_gpu_blocks (cache_manager s1) = num_gpu_blocks (cache_manager s)"
proof (cases "0 < get_required_block_number (prompt_token_ids_len task) s")
  case True
  let ?k = "get_required_block_number (prompt_token_ids_len task) s"
  let ?free = "gpu_free_block_list (cache_manager s)"
  show ?thesis
  proof (cases "?k > int (length ?free)")
    case False
    show ?thesis
      by (rule ok [of "share_blocks (Some (take (nat ?k) ?free)) (task\<lparr>block_tables := take (nat ?k) ?free, need_block_tables := Some (take (nat ?k) ?free)\<rparr>)"
            "snd (admit_plain pos task s)"])
        (use True False in \<open>simp_all add: admit_plain_eq [OF True] Let_def same_slots_def share_blocks_def register_def block_simps\<close>)
  qed (use wait admit_plain_eq [OF True] in \<open>simp add: Let_def\<close>)
next
  case False
  then have "admit_plain pos task s = (Inl NoReturn, s)"
    by (simp add: admit_plain_def get_block_tables_all Let_def)
  then show ?thesis by (rule wait)
qed

lemma slots_ok_place:
  assumes "slots_ok s" "same_slots s s1" "p < max_num_seqs s" "idx t = Some p"
  shows "slots_ok (place_task p t s1)"
  using assms by (auto simp: slots_ok_def same_slots_def place_task_def nth_list_update)

lemma admit_task_plain:
  assumes inv: "rm_plain s" and p: "p < max_num_seqs s" "stop_flags s ! p"
  shows "admit_task H now rnd p task s = (Inl NoReturn, s) \<or>
    (\<exists>t s'. admit_task H now rnd p task s = (Inr t, s') \<and> rm_plain s' \<and> plain_account s' = plain_account s \<and>
       tasks_list s' = (tasks_list s)[p := Some t] \<and> stop_flags s' = (stop_flags s)[p := False] \<and>
       max_num_seqs s' = max_num_seqs s \<and> cfg s' = cfg s \<and> idx t = Some p \<and>
       num_gpu_blocks (cache_manager s') = num_gpu_blocks (cache_manager s) \<and>
       int (length (block_tables t)) = get_required_block_number (prompt_token_ids_len task) s)"
proof -
  let ?t0 = "task\<lparr>seed := (case seed task of None \<Rightarrow> Some rnd | sd \<Rightarrow> sd), idx := Some p\<rparr>"
  have np: "\<not> enable_prefix_cache s" and so: "slots_ok s" using inv by (simp_all add: rm_plain_def)
  have free: "p < length (tasks_list s)" "tasks_list s ! p = None" using so p by (auto simp: slots_ok_def)
  show ?thesis
  proof (cases rule: admit_plain_cases [of p ?t0 s])
    case wait
    then show ?thesis by (simp add: admit_task_def np Let_def)
  next
    case (ok t s1)
    let ?t = "t\<lparr>inference_start_time := Some now, tokens_all_num := Some 0\<rparr>"
    let ?s' = "place_task p ?t s1"
    have eq: "admit_task H now rnd p task s = (Inr ?t, ?s')" using ok(1) by (simp add: admit_task_def np Let_def)
    have so': "slots_ok ?s'" using slots_ok_place [OF so ok(2) p(1), of ?t] ok(3) by simp
    have "plain_account ?s' = plain_account s"
      using ok(2,4) busy_blocks_place [OF free, of ?t]
      by (simp add: plain_account_def place_task_def same_slots_def ac_simps)
    then show ?thesis using eq so' ok np
      by (intro disjI2 exI [of _ ?t] exI [of _ ?s']) (simp add: rm_plain_def place_task_def same_slots_def get_required_block_number_def)
  qed
qed

lemma admit_tasks_plain:
  assumes "rm_plain s"
  shows "rm_plain (snd (admit_tasks H now rnd pos tasks s)) \<and>
    plain_account (snd (admit_tasks H now rnd pos tasks s)) = plain_account s \<and>
    num_gpu_blocks (cache_manager (snd (admit_tasks H now rnd pos tasks s))) = num_gpu_blocks (cache_manager s)"
  using assms
proof (induction tasks arbitrary: s pos)
  case Nil
  then show ?case by simp
next
  case (Cons task tasks)
  show ?case
  proof (cases "next_slot (stop_flags s) (max_num_seqs s) pos")
    case None
    then show ?thesis using Cons.prems by simp
  next
    case (Some p)
    note p = next_slot_Some [OF Some]
    consider (wait) "admit_task H now (rnd p) p task s = (Inl NoReturn, s)"
      | (ok) t s' where "admit_task H now (rnd p) p task s = (Inr t, s')" "rm_plain s'" "plain_account s' = plain_account s"
          "num_gpu_blocks (cache_manager s') = num_gpu_blocks (cache_manager s)"
      using admit_task_plain [OF Cons.prems, of p H now "rnd p" task] p by auto
    then show ?thesis
    proof cases
      case wait
      then show ?thesis using Cons.prems Some by simp
    next
      case ok
      obtain r s2 where "admit_tasks H now rnd (Suc p) tasks s' = (r, s2)" by fastforce
      then show ?thesis using Cons.IH [OF ok(2), of "Suc p"] Some ok by (cases r) simp_all
    qed
  qed
qed

lemma recycle_slot_plain:
  assumes "rm_plain s" "i < max_num_seqs s" "tasks_list s ! i = Some t"
  shows "rm_plain (recycle_slot i t s) \<and> plain_account (recycle_slot i t s) = plain_account s \<and>
    num_gpu_blocks (cache_manager (recycle_slot i t s)) = num_gpu_blocks (cache_manager s)"
proof -
  have "i < length (tasks_list s)" using assms by (simp add: rm_plain_def slots_ok_def)
  from busy_blocks_clear [OF this assms(3)] show ?thesis using assms
    by (auto simp: rm_plain_def slots_ok_def recycle_slot_def recycle_block_tables_def recycle_gpu_blocks_def
        plain_account_def block_simps nth_list_update ac_simps)
qed

text \<open>The engine without prefix caching: batches of new tasks come in, finished requests leave their slot.\<close>

inductive rm_reachable :: "cache_config \<Rightarrow> nat \<Rightarrow> nat \<Rightarrow> nat \<Rightarrow> Request rm \<Rightarrow> bool" for c n gpu cpu where
  rm_init: "rm_reachable c n gpu cpu (init_rm c n False (init_pcm gpu cpu False))"
| rm_admit: "rm_reachable c n gpu cpu s \<Longrightarrow>
    rm_reachable c n gpu cpu (snd (allocate_resources_for_new_tasks H now rnd tasks s))"
| rm_finish: "rm_reachable c n gpu cpu s \<Longrightarrow> i < n \<Longrightarrow> tasks_list s ! i = Some t \<Longrightarrow>
    rm_reachable c n gpu cpu (recycle_slot i t s)"

lemma admit_tasks_max:
  "max_num_seqs (snd (admit_tasks H now rnd pos tasks s)) = max_num_seqs s \<and> cfg (snd (admit_tasks H now rnd pos tasks s)) = cfg s"
  if "rm_plain s"
  using that
proof (induction tasks arbitrary: s pos)
  case Nil
  then show ?case by simp
next
  case (Cons task tasks)
  show ?case
  proof (cases "next_slot (stop_flags s) (max_num_seqs s) pos")
    case None
    then show ?thesis by simp
  next
    case (Some p)
    note p = next_slot_Some [OF Some]
    consider (wait) "admit_task H now (rnd p) p task s = (Inl NoReturn, s)"
      | (ok) t s' where "admit_task H now (rnd p) p task s = (Inr t, s')" "rm_plain s'"
          "max_num_seqs s' = max_num_seqs s" "cfg s' = cfg s"
      using admit_task_plain [OF Cons.prems, of p H now "rnd p" task] p by auto
    then show ?thesis
    proof cases
      case wait
      then show ?thesis using Some by simp
    next
      case ok
      obtain r s2 where "admit_tasks H now rnd (Suc p) tasks s' = (r, s2)" by fastforce
      then show ?thesis using Cons.IH [OF ok(2), of "Suc p"] Some ok by (cases r) simp_all
    qed
  qed
qed

lemma allocate_snd:
  "snd (allocate_resources_for_new_tasks H now rnd tasks s) =
     (case admit_tasks H now rnd 0 tasks s of (Inl e, s1) \<Rightarrow> s1
      | (Inr ts, s1) \<Rightarrow> s1\<lparr>real_bsz := last_busy (stop_flags s1) (max_num_seqs s1) (real_bsz s1)\<rparr>)"
  by (simp add: allocate_resources_for_new_tasks_def andthen_def split: prod.split sum.split)

lemma frame_real_bsz [simp]:
  "rm_plain (s\<lparr>real_bsz := k\<rparr>) = rm_plain s" "plain_account (s\<lparr>real_bsz := k\<rparr>) = plain_account s"
  by (simp_all add: rm_plain_def slots_ok_def plain_account_def)

lemma rm_reachable_inv:
  assumes "rm_reachable c n gpu cpu s"
  shows "rm_plain s \<and> plain_account s = mset (map int [0..<gpu]) \<and> max_num_seqs s = n \<and> cfg s = c"
  using assms
proof (induction rule: rm_reachable.induct)
  case rm_init
  have "busy_blocks (replicate n None) = {#}" by (induction n) (simp_all add: busy_blocks_def)
  then show ?case
    by (simp add: init_rm_def rm_plain_def slots_ok_def plain_account_def init_pcm_def heapify_def)
next
  case (rm_admit s H now rnd tasks)
  obtain r s1 where "admit_tasks H now rnd 0 tasks s = (r, s1)" by fastforce
  then show ?case
    using rm_admit.IH admit_tasks_plain [of s H now rnd 0 tasks] admit_tasks_max [of s H now rnd 0 tasks]
    by (cases r) (simp_all add: allocate_snd)
next
  case (rm_finish s i t)
  then show ?case using recycle_slot_plain [of s i t]
    by (simp add: recycle_slot_def recycle_block_tables_def)
qed

text \<open>In the engine without prefix caching, whatever batches of tasks come in and whichever requests finish, each
  cache block is either free or in the block table of exactly one task in a slot; a slot is marked busy exactly
  when it holds a task, and that task knows its slot.\<close>

theorem engine_blocks_conserved:
  assumes "rm_reachable c n gpu cpu s"
  shows "mset (gpu_free_block_list (cache_manager s)) + busy_blocks (tasks_list s) = mset (map int [0..<gpu]) \<and>
    (\<forall>i < n. stop_flags s ! i = (tasks_list s ! i = None)) \<and>
    (\<forall>i < n. \<forall>t. tasks_list s ! i = Some t \<longrightarrow> idx t = Some i)"
  using rm_reachable_inv [OF assms] by (auto simp: rm_plain_def slots_ok_def plain_account_def)

abbreviation (input) small_cfg :: cache_config where
  "small_cfg \<equiv> \<lparr>block_size = 2, dec_token_num = 2, max_block_num_per_seq = 4\<rparr>"

abbreviation (input) small_task :: "req_id \<Rightarrow> Request" where
  "small_task r \<equiv> new_Request r [1, 2, 3] 3 None None"

abbreviation (input) small_rm :: "Request rm" where
  "small_rm \<equiv> snd (allocate_resources_for_new_tasks sum_list 0 (\<lambda>i. 7) [small_task ''a'', small_task ''b'']
     (init_rm small_cfg 2 False (init_pcm 8 0 False)))"

lemma small_reachable: "rm_reachable small_cfg 2 8 0 small_rm"
  by (intro rm_admit rm_init)

theorem engine_blocks_conserved_witness:
  "mset (gpu_free_block_list (cache_manager small_rm)) + busy_blocks (tasks_list small_rm) = mset (map int [0..<8])"
  using engine_blocks_conserved [OF small_reachable] by simp

text \<open>A task for which the check for resources holds is admitted: the call returns it with the first free slot
  and a block table with exactly the blocks its prompt and the reserve for decoding need.\<close>

theorem sufficient_task_admitted:
  assumes reach: "rm_reachable c n gpu cpu s" and bs: "0 < block_size c" and len: "0 < prompt_token_ids_len task"
    and suff: "is_resource_sufficient (prompt_token_ids_len task) s"
  shows "\<exists>t s' p. allocate_resources_for_new_tasks H now rnd [task] s = (Inr [t], s') \<and>
    next_slot (stop_flags s) n 0 = Some p \<and> idx t = Some p \<and> tasks_list s' ! p = Some t \<and> \<not> stop_flags s' ! p \<and>
    int (length (block_tables t)) = (prompt_token_ids_len task + int (block_size c) - 1 + int (dec_token_num c)) div int (block_size c)"
proof -
  have inv: "rm_plain s" "max_num_seqs s = n" "cfg s = c" using rm_reachable_inv [OF reach] by simp_all
  have len_f: "length (stop_flags s) = n" "length (tasks_list s) = n" using inv by (simp_all add: rm_plain_def slots_ok_def)
  have "filter (\<lambda>b. b) (stop_flags s) \<noteq> []"
    using suff by (auto simp: is_resource_sufficient_def available_batch_def split: if_splits)
  then obtain i where i: "i < n" "stop_flags s ! i" using len_f by (auto simp: filter_empty_conv in_set_conv_nth)
  obtain p where p: "next_slot (stop_flags s) n 0 = Some p"
    using next_slot_None [of "stop_flags s" n 0 i] i len_f by (cases "next_slot (stop_flags s) n 0") auto
  note p' = next_slot_Some [OF p]
  let ?t0 = "task\<lparr>seed := (case seed task of None \<Rightarrow> Some (rnd p) | sd \<Rightarrow> sd), idx := Some p\<rparr>"
  let ?k = "get_required_block_number (prompt_token_ids_len task) s"
  have "0 < ?k" unfolding get_required_block_number_def inv(3)
    using bs len by (intro pos_imp_zdiv_pos_iff [THEN iffD2]) auto
  moreover have "?k \<le> int (length (gpu_free_block_list (cache_manager s)))"
    using suff by (simp add: is_resource_sufficient_def available_block_num_def split: if_splits)
  ultimately have "\<not> fst (admit_task H now (rnd p) p task s) = Inl NoReturn"
    using inv(1) by (simp add: admit_task_def rm_plain_def Let_def admit_plain_eq)
  then obtain t s' where a: "admit_task H now (rnd p) p task s = (Inr t, s')" "tasks_list s' = (tasks_list s)[p := Some t]"
      "stop_flags s' = (stop_flags s)[p := False]" "idx t = Some p" "int (length (block_tables t)) = ?k"
    using admit_task_plain [OF inv(1), of p H now "rnd p" task] p' inv(2) by auto
  then have "allocate_resources_for_new_tasks H now rnd [task] s =
      (Inr [t], s'\<lparr>real_bsz := last_busy (stop_flags s') (max_num_seqs s') (real_bsz s')\<rparr>)"
    using p inv(2) by (simp add: allocate_resources_for_new_tasks_def)
  then show ?thesis using a p p' len_f inv(3)
    by (intro exI [of _ t] exI [of _ "s'\<lparr>real_bsz := last_busy (stop_flags s') (max_num_seqs s') (real_bsz s')\<rparr>"] exI [of _ p])
      (simp add: get_required_block_number_def)
qed

theorem sufficient_task_admitted_witness:
  "\<exists>t s'. allocate_resources_for_new_tasks sum_list 0 (\<lambda>i. 7) [small_task ''a'']
     (init_rm small_cfg 2 False (init_pcm 8 0 False)) = (Inr [t], s') \<and> length (block_tables t) = 3"
proof -
  let ?s = "init_rm small_cfg 2 False (init_pcm 8 0 False)"
  have suff: "is_resource_sufficient (prompt_token_ids_len (small_task ''a'')) ?s" by code_simp
  have "prompt_token_ids_len (small_task ''a'') = 3" by (simp add: new_Request_def)
  then show ?thesis
    using sufficient_task_admitted [OF rm_init [of small_cfg 2 8 0] _ _ suff, of sum_list 0 "\<lambda>i. 7"] by auto
qed

text \<open>Without enough free blocks, and without prefix caching, the call does not return: the loop asks for the same task
  again without moving on, and asking changes nothing.\<close>

theorem short_of_blocks_does_not_return:
  assumes reach: "rm_reachable c n gpu cpu s" and bs: "0 < block_size c" and len: "0 < prompt_token_ids_len task"
    and slot: "next_slot (stop_flags s) n 0 \<noteq> None"
    and short: "available_block_num s < get_required_block_number (prompt_token_ids_len task) s"
  shows "allocate_resources_for_new_tasks H now rnd (task # tasks) s = (Inl NoReturn, s)"
proof -
  have inv: "rm_plain s" "max_num_seqs s = n" "cfg s = c" using rm_reachable_inv [OF reach] by simp_all
  obtain p where p: "next_slot (stop_flags s) n 0 = Some p" using slot by blast
  have "0 < get_required_block_number (prompt_token_ids_len task) s" unfolding get_required_block_number_def inv(3)
    using bs len by (intro pos_imp_zdiv_pos_iff [THEN iffD2]) auto
  then have "admit_task H now (rnd p) p task s = (Inl NoReturn, s)"
    using inv(1) short by (simp add: admit_task_def rm_plain_def Let_def admit_plain_eq available_block_num_def)
  then show ?thesis using p inv(2) by (simp add: allocate_resources_for_new_tasks_def)
qed

theorem short_of_blocks_does_not_return_witness:
  "allocate_resources_for_new_tasks sum_list 0 (\<lambda>i. 7) [small_task ''a'']
     (init_rm small_cfg 2 False (init_pcm 2 0 False)) = (Inl NoReturn, init_rm small_cfg 2 False (init_pcm 2 0 False))"
proof (rule short_of_blocks_does_not_return [OF rm_init])
  show "next_slot (stop_flags (init_rm small_cfg 2 False (init_pcm 2 0 False))) 2 0 \<noteq> None" by code_simp
  show "available_block_num (init_rm small_cfg 2 False (init_pcm 2 0 False))
      < get_required_block_number (prompt_token_ids_len (small_task ''a'')) (init_rm small_cfg 2 False (init_pcm 2 0 False))"
    by code_simp
qed (simp_all add: new_Request_def)

subsection \<open>With prefix caching\<close>

lemma py_drop_suffix: "0 \<le> k \<Longrightarrow> py_drop k xs = drop (nat k) xs"
  by (simp add: py_drop_def)

text \<open>Cutting off the cached part leaves at least one token to compute.\<close>

lemma delete_cached_data_ok:
  assumes "0 \<le> k" "k \<le> int (length (prompt_token_ids task))" "prompt_token_ids task \<noteq> []"
  shows "\<exists>d. seq_lens_decoder (delete_cached_data k task) = Some (int d) \<and> d < length (prompt_token_ids task) \<and>
    prompt_token_ids (delete_cached_data k task) = drop d (prompt_token_ids task) \<and>
    prompt_token_ids_len (delete_cached_data k task) = int (length (prompt_token_ids task)) - int d \<and>
    (int d = k \<or> int d = k - 1)"
proof (cases "k = int (length (prompt_token_ids task))")
  case True
  obtain m where m: "length (prompt_token_ids task) = Suc m" using assms(3) by (cases "prompt_token_ids task") auto
  show ?thesis using True
    by (intro exI [of _ m]) (simp add: delete_cached_data_def Let_def py_drop_def m)
next
  case False
  then show ?thesis using assms
    by (intro exI [of _ "nat k"]) (simp add: delete_cached_data_def Let_def py_drop_def of_nat_diff)
qed

text \<open>With prefix caching too, a task for which the check for resources holds is admitted: the cached blocks of
  its prefix come first in its block table, the table has as many blocks as prompt and reserve need, and the
  cached part is cut off its prompt, but never its last token.\<close>

theorem cached_task_admitted:
  assumes so: "slots_ok s" and pre: "enable_prefix_cache s" and bs: "0 < block_size (cfg s)" "block_size (cfg s) dvd dec_token_num (cfg s)"
    and reach: "pc_reachable H (block_size (cfg s)) (dec_token_num (cfg s)) gpu cpu (cache_manager s)"
    and fresh: "req_leaf_map (cache_manager s) (request_id task) = None"
    and prompt: "prompt_token_ids task \<noteq> []" "prompt_token_ids_len task = int (length (prompt_token_ids task))"
    and solo: "disaggregate_info task = None" and suff: "is_resource_sufficient (prompt_token_ids_len task) s"
  shows "\<exists>t s' d. allocate_resources_for_new_tasks H now rnd [task] s = (Inr [t], s') \<and>
    int (length (block_tables t)) = get_required_block_number (prompt_token_ids_len task) s \<and>
    seq_lens_decoder t = Some (int d) \<and> prompt_token_ids t = drop d (prompt_token_ids task) \<and> prompt_token_ids t \<noteq> [] \<and>
    d \<le> length (match_path H (prompt_token_ids task) (block_size (cfg s)) (cache_manager s)) * block_size (cfg s) \<and>
    pc_reachable H (block_size (cfg s)) (dec_token_num (cfg s)) gpu cpu (cache_manager s')"
proof -
  let ?bs = "block_size (cfg s)" and ?dec = "dec_token_num (cfg s)" and ?ids = "prompt_token_ids task" and ?m = "cache_manager s"
  let ?path = "match_path H ?ids ?bs ?m" and ?need = "(length (prompt_token_ids task) + block_size (cfg s) - 1) div block_size (cfg s) + dec_token_num (cfg s) div block_size (cfg s)"
  have inv: "pcm_inv ?m" "metrics_ok ?m" using reachable_metrics [OF reach bs] by simp_all
  have req: "get_required_block_number (prompt_token_ids_len task) s = int ?need"
    using path_blocks_int [OF bs, of "length ?ids"] path_blocks_ceil [OF bs(1), of 0 "length ?ids"] prompt(2)
    by (simp add: get_required_block_number_def path_blocks_def)
  have avail: "?need \<le> length (gpu_free_block_list ?m)"
    using suff req by (simp add: is_resource_sufficient_def available_block_num_def split: if_splits)
  then have enough: "?need \<le> length ?path + length (gpu_free_block_list ?m)" by simp
  obtain info m' where r: "request_block_ids H (request_id task) ?ids ?bs ?dec now ?m =
      (Inr (map (\<lambda>c. block_id (nodes ?m ! c)) ?path, take (?need - length ?path) (gpu_free_block_list ?m), info), m')"
    and le: "length ?path \<le> ?need" "length ?path \<le> length ?ids div ?bs"
    using request_serves [OF inv bs fresh prompt(1) enough] by blast
  have "filter (\<lambda>b. b) (stop_flags s) \<noteq> []"
    using suff by (auto simp: is_resource_sufficient_def available_batch_def split: if_splits)
  then obtain i where i: "i < max_num_seqs s" "stop_flags s ! i" using so by (auto simp: filter_empty_conv in_set_conv_nth slots_ok_def)
  obtain p where p: "next_slot (stop_flags s) (max_num_seqs s) 0 = Some p"
    using next_slot_None [of "stop_flags s" "max_num_seqs s" 0 i] i so
    by (cases "next_slot (stop_flags s) (max_num_seqs s) 0") (auto simp: slots_ok_def)
  define t0 where "t0 = task\<lparr>seed := (case seed task of None \<Rightarrow> Some (rnd p) | sd \<Rightarrow> sd), idx := Some p\<rparr>"
  define common where "common = map (\<lambda>c. block_id (nodes ?m ! c)) ?path"
  define uniq where "uniq = take (?need - length ?path) (gpu_free_block_list ?m)"
  have r': "request_block_ids H (request_id task) ?ids ?bs ?dec now ?m = (Inr (common, uniq, info), m')"
    unfolding common_def uniq_def by (rule r)
  define ct where "ct = record_request_cache_info ?bs common uniq info t0"
  have rc: "record_request_cache_info ?bs common uniq info t0 = (fst ct, snd ct)" by (simp add: ct_def)
  have ct: "fst ct = int (length ?path * ?bs)" "prompt_token_ids (snd ct) = ?ids" "disaggregate_info (snd ct) = None"
      "length (block_tables (snd ct)) = ?need"
    using le avail solo by (simp_all add: ct_def record_request_cache_info_def Let_def t0_def common_def uniq_def)
  define t where "t = (delete_cached_data (fst ct) (snd ct))\<lparr>inference_start_time := Some now, tokens_all_num := Some 0\<rparr>"
  have "length ?path * ?bs \<le> length ?ids" using le(2) by (metis div_times_less_eq_dividend le_trans mult_le_mono1)
  then have k: "0 \<le> fst ct" "fst ct \<le> int (length (prompt_token_ids (snd ct)))" "prompt_token_ids (snd ct) \<noteq> []"
    unfolding ct(1,2) using prompt(1) by (simp_all only: of_nat_le_iff of_nat_0_le_iff not_False_eq_True)
  obtain d where d: "seq_lens_decoder t = Some (int d)" "d < length ?ids" "prompt_token_ids t = drop d ?ids"
      "int d = fst ct \<or> int d = fst ct - 1"
    using delete_cached_data_ok [OF k] ct(2) by (auto simp: t_def)
  have bt: "block_tables t = block_tables (snd ct)" by (simp add: t_def delete_cached_data_def Let_def)
  have f0: "request_id t0 = request_id task" "prompt_token_ids t0 = ?ids" by (simp_all add: t0_def)
  have "admit_prefix H now p t0 s = (Inr (delete_cached_data (fst ct) (snd ct)), s\<lparr>cache_manager := m'\<rparr>)"
    using ct(3) by (simp add: admit_prefix_def f0 lift_pcm_def r' rc split_beta)
  then have "admit_task H now (rnd p) p task s = (Inr t, place_task p t (s\<lparr>cache_manager := m'\<rparr>))"
    unfolding admit_task_def t0_def [symmetric] Let_def using pre by (simp add: t_def)
  then have eq: "\<exists>s'. allocate_resources_for_new_tasks H now rnd [task] s = (Inr [t], s') \<and> cache_manager s' = m'"
    using p by (simp add: allocate_resources_for_new_tasks_def place_task_def)
  have "pc_reachable H ?bs ?dec gpu cpu m'"
    using reachable_request [OF reach fresh, of ?ids now] r by simp
  moreover obtain s' where "allocate_resources_for_new_tasks H now rnd [task] s = (Inr [t], s')" "cache_manager s' = m'"
    using eq by blast
  moreover have "int (length (block_tables t)) = get_required_block_number (prompt_token_ids_len task) s"
    unfolding bt ct(4) req by (rule refl)
  moreover have "d \<le> length ?path * ?bs" using d(4) unfolding ct(1) by linarith
  moreover have "prompt_token_ids t \<noteq> []" using d(2,3) by simp
  ultimately show ?thesis using d(1,3) by (intro exI [of _ t] exI [of _ s'] exI [of _ d] conjI) simp_all
qed

abbreviation (input) cached_rm :: "Request rm" where
  "cached_rm \<equiv> init_rm small_cfg 2 True one_request"

theorem cached_task_admitted_witness:
  "\<exists>t s' d. allocate_resources_for_new_tasks sum_list 0 (\<lambda>i. 7) [new_Request ''b'' [1, 2] 2 None None] cached_rm = (Inr [t], s') \<and>
     length (block_tables t) = 2 \<and> prompt_token_ids t = drop d [1, 2] \<and> prompt_token_ids t \<noteq> []"
proof -
  let ?t = "new_Request ''b'' [1, 2] 2 None None"
  have fresh: "req_leaf_map (cache_manager cached_rm) (request_id ?t) = None"
    and suff: "is_resource_sufficient (prompt_token_ids_len ?t) cached_rm" by code_simp+
  have f: "cfg cached_rm = small_cfg" "cache_manager cached_rm = one_request" by (simp_all add: init_rm_def)
  have reach: "pc_reachable sum_list (block_size (cfg cached_rm)) (dec_token_num (cfg cached_rm)) 6 0 (cache_manager cached_rm)"
    unfolding f using one_reachable by simp
  have need: "get_required_block_number (prompt_token_ids_len ?t) cached_rm = 2" by code_simp
  have so: "slots_ok cached_rm" "enable_prefix_cache cached_rm" by (simp_all add: init_rm_def slots_ok_def)
  have dv: "0 < block_size (cfg cached_rm)" "block_size (cfg cached_rm) dvd dec_token_num (cfg cached_rm)" unfolding f by simp_all
  have pr: "prompt_token_ids ?t \<noteq> []" "prompt_token_ids_len ?t = int (length (prompt_token_ids ?t))"
    "disaggregate_info ?t = None" "prompt_token_ids ?t = [1, 2]" by (simp_all add: new_Request_def)
  obtain t s' d where "allocate_resources_for_new_tasks sum_list 0 (\<lambda>i. 7) [?t] cached_rm = (Inr [t], s')"
    "int (length (block_tables t)) = get_required_block_number (prompt_token_ids_len ?t) cached_rm"
    "prompt_token_ids t = drop d (prompt_token_ids ?t)" "prompt_token_ids t \<noteq> []"
    using cached_task_admitted [OF so dv reach fresh pr(1,2,3) suff, of 0 "\<lambda>i. 7"] by blast
  then show ?thesis unfolding need pr(4) by (intro exI [of _ t] exI [of _ s'] exI [of _ d]) simp
qed

end
