(* ===== verification/PySeq.thy ===== *)
theory PySeq
  imports FDPrelude
begin

text \<open>Python's sequence indexing and slicing with negative bounds.\<close>

definition py_nth :: "'a list \<Rightarrow> int \<Rightarrow> 'a res" where
  "py_nth xs i =
     (if 0 \<le> i \<and> i < int (length xs) then Inr (xs ! nat i)
      else if i < 0 \<and> - int (length xs) \<le> i then Inr (xs ! nat (int (length xs) + i))
      else Inl IndexError)"

definition py_bound :: "int \<Rightarrow> 'a list \<Rightarrow> nat" where
  "py_bound i xs = nat (if i < 0 then int (length xs) + i else i)"

definition py_slice :: "int \<Rightarrow> int \<Rightarrow> 'a list \<Rightarrow> 'a list" where
  "py_slice a b xs = drop (py_bound a xs) (take (py_bound b xs) xs)"

lemma py_slice_front:
  "0 \<le> a \<Longrightarrow> 0 \<le> n \<Longrightarrow> py_slice a (a + n) xs = take (nat n) (drop (nat a) xs)"
  by (simp add: py_slice_def py_bound_def drop_take nat_add_distrib)

end
