(* ===== verification/SchedulerV1.thy ===== *)
theory SchedulerV1
  imports ResourceManagerProps PySeq
begin

text \<open>
  The second scheduler (\<open>engine/sched/resource_manager_v1.py\<close>): it inherits from the resource manager,
  and its slots, queues and table of requests hold references to the same request objects. The objects
  live in the list \<open>objs\<close>, a reference is an index into it. The lock makes every operation atomic.
\<close>

type_synonym oref = nat

record v1_config =
  max_num_batched_tokens :: int
  enc_dec_block_num :: int
  prealloc_dec_block_slot_num_threshold :: int
  enable_mm :: bool

text \<open>What \<open>schedule\<close> returns: a request to prefill with its range of tokens, and the two task classes.\<close>

datatype sched_item =
    PrefillTask oref int int
  | ScheduledDecodeTask "nat option" req_id "block_id list"
  | ScheduledPreemptTask "nat option" req_id

record rm1 = "oref rm" +
  config :: v1_config
  objs :: "Request list"
  requests :: "req_id \<Rightarrow> oref option"
  waiting :: "oref list"
  running :: "oref list"
  to_be_rescheduled :: "req_id set"

definition init_rm1 :: "cache_config \<Rightarrow> v1_config \<Rightarrow> nat \<Rightarrow> bool \<Rightarrow> pcm \<Rightarrow> rm1" where
  "init_rm1 c v n prefix pm =
     rm.extend (init_rm c n prefix pm)
       \<lparr>config = v, objs = [], requests = Map.empty, waiting = [], running = [], to_be_rescheduled = {}\<rparr>"

abbreviation obj :: "rm1 \<Rightarrow> oref \<Rightarrow> Request" where
  "obj s r \<equiv> objs s ! r"

definition upd_obj :: "oref \<Rightarrow> (Request \<Rightarrow> Request) \<Rightarrow> rm1 \<Rightarrow> rm1" where
  "upd_obj r f s = s\<lparr>objs := (objs s)[r := f (objs s ! r)]\<rparr>"

definition allocated_slots :: "oref \<Rightarrow> rm1 \<Rightarrow> int" where
  "allocated_slots r s = int (length (block_tables (obj s r))) * int (block_size (cfg s))"

definition get_new_block_nums :: "oref \<Rightarrow> int \<Rightarrow> rm1 \<Rightarrow> (rm1, int) outcome" where
  "get_new_block_nums r num_new_tokens s =
     andthen (check_and_free_block_tables s)
       (\<lambda>_ s1. (Inr ((num_computed_tokens (obj s1 r) + num_new_tokens + int (block_size (cfg s1)) - 1)
                        div int (block_size (cfg s1)) - int (length (block_tables (obj s1 r)))), s1))"

definition prepare_prefill_task :: "oref \<Rightarrow> int \<Rightarrow> rm1 \<Rightarrow> sched_item \<times> rm1" where
  "prepare_prefill_task r n s =
     (let a = num_computed_tokens (obj s r) in
      (PrefillTask r a (a + n), upd_obj r (\<lambda>q. q\<lparr>prefill_range := Some (a, a + n), task_type := PREFILL\<rparr>) s))"

definition prepare_decode_task :: "oref \<Rightarrow> rm1 \<Rightarrow> sched_item" where
  "prepare_decode_task r s =
     ScheduledDecodeTask (idx (obj s r)) (request_id (obj s r)) (block_tables (obj s r))"

definition prepare_preempt_task :: "oref \<Rightarrow> rm1 \<Rightarrow> sched_item" where
  "prepare_preempt_task r s = ScheduledPreemptTask (idx (obj s r)) (request_id (obj s r))"

definition reschedule_preempt_task :: "req_id \<Rightarrow> rm1 \<Rightarrow> rm1" where
  "reschedule_preempt_task rid s =
     (if rid \<in> to_be_rescheduled s then
        (case requests s rid of None \<Rightarrow> s
         | Some r \<Rightarrow> s\<lparr>waiting := r # waiting s, to_be_rescheduled := to_be_rescheduled s - {rid}\<rparr>)
      else s)"

subsection \<open>Giving blocks back\<close>

definition free_blocks :: "oref \<Rightarrow> rm1 \<Rightarrow> (rm1, unit) outcome" where
  "free_blocks r s =
     (let q = obj s r; drop_table = upd_obj r (block_tables_update (\<lambda>_. [])) in
      if enable_prefix_cache s then
        let s1 = s\<lparr>cache_manager := snd (release_block_ids (request_id q) (cache_manager s))\<rparr> in
        (case prefill_block_num q of None \<Rightarrow> (Inl AttributeError, s1)
         | Some k \<Rightarrow>
             (Inr (), drop_table (s1\<lparr>cache_manager :=
                        recycle_gpu_blocks (py_drop k (block_tables q)) (cache_manager s1)\<rparr>)))
      else (Inr (), drop_table (s\<lparr>cache_manager := recycle_gpu_blocks (block_tables q) (cache_manager s)\<rparr>)))"

text \<open>One victim of \<open>_trigger_preempt\<close>: the last running request.\<close>

definition preempt_last :: "rm1 \<Rightarrow> (rm1, oref) outcome" where
  "preempt_last s =
     (if running s = [] then (Inl IndexError, s)
      else
        let p = last (running s);
            s1 = upd_obj p (\<lambda>q. q\<lparr>status := PREEMPTED, num_computed_tokens := 0, prefill_block_num := Some 0\<rparr>)
                   (s\<lparr>running := butlast (running s)\<rparr>)
        in andthen (free_blocks p s1)
             (\<lambda>_ s2. (Inr p, s2\<lparr>to_be_rescheduled := insert (request_id (obj s2 p)) (to_be_rescheduled s2)\<rparr>)))"

lemma running_upd_obj [simp]:
  "running (upd_obj r f s) = running s" "waiting (upd_obj r f s) = waiting s"
  by (simp_all add: upd_obj_def)

lemma running_free_blocks [simp]:
  "running (snd (free_blocks r s)) = running s" "waiting (snd (free_blocks r s)) = waiting s"
  by (simp_all add: free_blocks_def Let_def split: option.split)

lemma running_preempt_last:
  assumes "preempt_last s = (Inr p, s')"
  shows "running s = running s' @ [p] \<and> waiting s' = waiting s"
proof -
  have ne: "running s \<noteq> []" using assms by (auto simp: preempt_last_def)
  let ?s1 = "upd_obj (last (running s)) (\<lambda>q. q\<lparr>status := PREEMPTED, num_computed_tokens := 0, prefill_block_num := Some 0\<rparr>)
                   (s\<lparr>running := butlast (running s)\<rparr>)"
  obtain r s2 where f: "free_blocks (last (running s)) ?s1 = (r, s2)" by fastforce
  have "running s2 = butlast (running s)" "waiting s2 = waiting s"
    using running_free_blocks [of "last (running s)" ?s1] f by simp_all
  then show ?thesis using assms ne f by (cases r) (auto simp: preempt_last_def Let_def)
qed

function trigger_preempt ::
  "oref \<Rightarrow> int \<Rightarrow> oref list \<Rightarrow> sched_item list \<Rightarrow> rm1 \<Rightarrow> (rm1, bool \<times> oref list \<times> sched_item list) outcome" where
  "trigger_preempt r n preempted sched s =
     (if can_allocate_gpu_blocks n (cache_manager s) then (Inr (True, preempted, sched), s)
      else
        (case preempt_last s of
           (Inl e, s1) \<Rightarrow> (Inl e, s1)
         | (Inr p, s1) \<Rightarrow>
             let preempted1 = preempted @ [p]; sched1 = sched @ [prepare_preempt_task p s1] in
             if request_eq (obj s1 p) (obj s1 r) then (Inr (False, preempted1, sched1), s1)
             else trigger_preempt r n preempted1 sched1 s1))"
  by pat_completeness auto
termination
proof (relation "measure (\<lambda>(r, n, p, sched, s). length (running s))", goal_cases)
  case 1
  show ?case by simp
next
  case (2 r n preempted sched s x y xa)
  then show ?case using running_preempt_last [of s xa y] by simp
qed

declare trigger_preempt.simps [simp del]

subsection \<open>How many tokens\<close>

text \<open>\<open>np.searchsorted\<close> on an ascending array, side left.\<close>

definition searchsorted_left :: "int list \<Rightarrow> int \<Rightarrow> nat" where
  "searchsorted_left xs x = length (filter (\<lambda>y. y < x) xs)"

text \<open>A video is counted as pairs of frames.\<close>

definition expand_grid :: "(int \<times> int \<times> int) list \<Rightarrow> (int \<times> int \<times> int) list" where
  "expand_grid g = concat (map (\<lambda>(t, h, w). if t = 1 then [(t, h, w)] else replicate (nat (t div 2)) (2, h, w)) g)"

text \<open>Where a chunk ends: a chunk that would stop inside an image is stretched to a boundary.\<close>

definition chunk_end :: "token list \<Rightarrow> token \<Rightarrow> int list \<Rightarrow> int \<Rightarrow> int \<Rightarrow> int res" where
  "chunk_end ids patch idxs pre_end_idx num_new_tokens =
     (case py_nth idxs (- 1) of Inl e \<Rightarrow> Inl e
      | Inr ori_prompt_len \<Rightarrow>
          let new_end_idx = pre_end_idx + num_new_tokens in
          if new_end_idx < ori_prompt_len then
            (case py_nth ids (new_end_idx - 1) of Inl e \<Rightarrow> Inl e
             | Inr t \<Rightarrow>
                 if t = patch then
                   let b = searchsorted_left idxs new_end_idx in
                   Inr (if b = length idxs then ori_prompt_len else idxs ! b)
                 else Inr new_end_idx)
          else if patch \<in> set (py_slice pre_end_idx new_end_idx ids) then Inr ori_prompt_len
          else Inr new_end_idx)"

definition image_count :: "int list \<Rightarrow> int list \<Rightarrow> int \<Rightarrow> int res" where
  "image_count idxs nums x =
     (let b = searchsorted_left idxs x in
      if b = length idxs then py_nth nums (- 1)
      else py_nth nums (if x = idxs ! b then int b else int b - 1))"

text \<open>
  \<open>_get_num_new_tokens\<close>. \<open>IB\<close> is the operator \<open>get_img_boundaries\<close> that is built for the device: from the
  tokens, the grid and the patch token to the boundaries and the number of images up to each.
\<close>

type_synonym img_boundaries = "token list \<Rightarrow> (int \<times> int \<times> int) list \<Rightarrow> token \<Rightarrow> int list \<times> int list"

definition mm_num_new_tokens :: "img_boundaries \<Rightarrow> oref \<Rightarrow> int \<Rightarrow> mm_inputs \<Rightarrow> rm1 \<Rightarrow> (rm1, int) outcome" where
  "mm_num_new_tokens IB r n0 inp s =
     (let q = obj s r;
          ids = prompt_token_ids q @ output_token_ids q;
          grid = (if multimodal_img_boundaries q = None then expand_grid (grid_thw inp) else grid_thw inp);
          bnd = (case multimodal_img_boundaries q of None \<Rightarrow> IB ids grid (image_patch_id inp) | Some b \<Rightarrow> b);
          s1 = upd_obj r (\<lambda>q. q\<lparr>multimodal_img_boundaries := Some bnd,
                               multimodal_inputs := Some (inp\<lparr>grid_thw := grid\<rparr>)\<rparr>) s;
          idxs = fst bnd; nums = snd bnd; pre_end_idx = num_computed_tokens q
      in case chunk_end ids (image_patch_id inp) idxs pre_end_idx n0 of Inl e \<Rightarrow> (Inl e, s1)
         | Inr new_end_idx \<Rightarrow>
             let img = (image_patch_id inp \<in> set (py_slice pre_end_idx new_end_idx ids));
                 s2 = upd_obj r (with_image_update (\<lambda>_. Some img)) s1
             in if \<not> img then (Inr (new_end_idx - pre_end_idx), s2)
                else case image_count idxs nums pre_end_idx of Inl e \<Rightarrow> (Inl e, s2)
                | Inr a \<Rightarrow>
                    let s3 = upd_obj r (\<lambda>q. q\<lparr>num_image_range := (Some a, snd (num_image_range q))\<rparr>) s2 in
                    (case image_count idxs nums new_end_idx of Inl e \<Rightarrow> (Inl e, s3)
                     | Inr b \<Rightarrow>
                         let types = (\<lambda>k. sum_list (map fst (take (py_bound k grid) grid)));
                             pixels = (\<lambda>k. sum_list (map (\<lambda>(t, h, w). t * h * w) (take (py_bound k grid) grid)))
                         in (Inr (new_end_idx - pre_end_idx),
                             upd_obj r (\<lambda>q. q\<lparr>num_image_range := (Some a, Some b),
                               image_type_ids_range := Some (types a, types b),
                               image_range := Some (pixels a, pixels b)\<rparr>) s3)))"

definition get_num_new_tokens :: "img_boundaries \<Rightarrow> oref \<Rightarrow> int \<Rightarrow> rm1 \<Rightarrow> (rm1, int) outcome" where
  "get_num_new_tokens IB r token_budget s =
     (let q = obj s r; n0 = min (need_prefill_tokens q - num_computed_tokens q) token_budget in
      if \<not> enable_mm (config s) then (Inr n0, s)
      else
        let s1 = upd_obj r (with_image_update (\<lambda>_. Some False)) s in
        case multimodal_inputs q of None \<Rightarrow> (Inl TypeError, s1)
        | Some inp \<Rightarrow> if \<not> images inp then (Inr n0, s1) else mm_num_new_tokens IB r n0 inp s1)"

fun exist_prefill :: "sched_item list \<Rightarrow> bool" where
  "exist_prefill [] = False"
| "exist_prefill (PrefillTask r a b # xs) = True"
| "exist_prefill (ScheduledDecodeTask i r bt # xs) = exist_prefill xs"
| "exist_prefill (ScheduledPreemptTask i r # xs) = exist_prefill xs"

subsection \<open>Running requests\<close>

definition grow_blocks :: "oref \<Rightarrow> int \<Rightarrow> rm1 \<Rightarrow> (rm1, unit) outcome" where
  "grow_blocks r k s =
     andthen (lift_pcm (allocate_gpu_blocks k) s)
       (\<lambda>bs s1. (Inr (), upd_obj r (\<lambda>q. q\<lparr>block_tables := block_tables q @ bs\<rparr>) s1))"

text \<open>Take blocks, by preemption if need be; the flag tells whether the request got them.\<close>

definition secure_blocks ::
  "oref \<Rightarrow> int \<Rightarrow> oref list \<Rightarrow> sched_item list \<Rightarrow> rm1 \<Rightarrow> (rm1, bool \<times> oref list \<times> sched_item list) outcome" where
  "secure_blocks r k preempted sched s =
     (if can_allocate_gpu_blocks k (cache_manager s) then
        andthen (grow_blocks r k s) (\<lambda>_ s1. (Inr (True, preempted, sched), s1))
      else
        andthen (trigger_preempt r k preempted sched s) (\<lambda>(can_schedule, preempted1, sched1) s1.
          if \<not> can_schedule then (Inr (False, preempted1, sched1), s1)
          else andthen (grow_blocks r k s1) (\<lambda>_ s2. (Inr (True, preempted1, sched1), s2))))"

text \<open>
  What the scheduler loop carries: the budget left, the tasks so far and the victims so far. A step
  also tells whether the loop goes on.
\<close>

record loop_vars =
  lv_budget :: int
  lv_sched :: "sched_item list"
  lv_preempted :: "oref list"

definition decode_progress :: "(token list \<Rightarrow> int) \<Rightarrow> int \<Rightarrow> oref \<Rightarrow> rm1 \<Rightarrow> (rm1, unit) outcome" where
  "decode_progress H now r s =
     (let q = obj s r in
      if num_total_tokens q > need_prefill_tokens q then
        (Inr (), upd_obj r (\<lambda>q. q\<lparr>num_computed_tokens := num_total_tokens q - 1\<rparr>) s)
      else if enable_prefix_cache s \<and> prefill_block_num q = None then
        lift_pcm (update_cache_blocks H (request_id q) (nat (num_cached_tokens q)) (block_tables q)
                    (block_size (cfg s)) now)
          (upd_obj r (\<lambda>q. q\<lparr>prefill_block_num := Some (int (length (block_tables q)))\<rparr>) s)
      else (Inr (), s))"

definition schedule_decode ::
  "(token list \<Rightarrow> int) \<Rightarrow> int \<Rightarrow> oref \<Rightarrow> loop_vars \<Rightarrow> rm1 \<Rightarrow> (rm1, bool \<times> loop_vars) outcome" where
  "schedule_decode H now r v s =
     andthen (decode_progress H now r s) (\<lambda>_ s1.
       if allocated_slots r s1 - num_total_tokens (obj s1 r) \<le> prealloc_dec_block_slot_num_threshold (config s1) then
         andthen (secure_blocks r (enc_dec_block_num (config s1)) (lv_preempted v) (lv_sched v) s1)
           (\<lambda>(ok, preempted, sched) s2.
              if \<not> ok then (Inr (False, v\<lparr>lv_preempted := preempted, lv_sched := sched\<rparr>), s2)
              else (Inr (True, v\<lparr>lv_preempted := preempted, lv_sched := sched @ [prepare_decode_task r s2],
                                lv_budget := lv_budget v - 1\<rparr>), s2))
       else (Inr (True, v), s1))"

definition schedule_prefill ::
  "img_boundaries \<Rightarrow> oref \<Rightarrow> loop_vars \<Rightarrow> rm1 \<Rightarrow> (rm1, bool \<times> loop_vars) outcome" where
  "schedule_prefill IB r v s =
     andthen (get_num_new_tokens IB r (lv_budget v) s) (\<lambda>n s1.
     andthen (get_new_block_nums r n s1) (\<lambda>k s2.
     andthen (secure_blocks r k (lv_preempted v) (lv_sched v) s2) (\<lambda>(ok, preempted, sched) s3.
       if \<not> ok then (Inr (False, v\<lparr>lv_preempted := preempted, lv_sched := sched\<rparr>), s3)
       else
         let (item, s4) = prepare_prefill_task r n s3 in
         (Inr (True, v\<lparr>lv_preempted := preempted, lv_sched := sched @ [item], lv_budget := lv_budget v - n\<rparr>),
          upd_obj r (\<lambda>q. q\<lparr>num_computed_tokens := num_computed_tokens q + n\<rparr>) s4))))"

definition schedule_running ::
  "(token list \<Rightarrow> int) \<Rightarrow> img_boundaries \<Rightarrow> int \<Rightarrow> oref \<Rightarrow> loop_vars \<Rightarrow> rm1 \<Rightarrow> (rm1, bool \<times> loop_vars) outcome" where
  "schedule_running H IB now r v s =
     (if num_computed_tokens (obj s r) \<ge> need_prefill_tokens (obj s r) then schedule_decode H now r v s
      else schedule_prefill IB r v s)"

text \<open>No step of the loop makes the list of running requests longer: a step only cuts off its end.\<close>

definition cuts :: "rm1 \<Rightarrow> rm1 \<Rightarrow> bool" where
  "cuts s s' \<longleftrightarrow> (\<exists>victims. running s = running s' @ victims) \<and> waiting s' = waiting s"

lemma cuts_refl [simp]: "cuts s s"
  by (simp add: cuts_def)

lemma cuts_trans: "cuts a b \<Longrightarrow> cuts b c \<Longrightarrow> cuts a c"
  by (auto simp: cuts_def)

lemma cuts_same: "running s' = running s \<Longrightarrow> waiting s' = waiting s \<Longrightarrow> cuts s s'"
  by (simp add: cuts_def)

lemma cuts_upd_obj [simp]: "cuts s (upd_obj r f s') = cuts s s'" "cuts (upd_obj r f s) s' = cuts s s'"
  by (simp_all add: cuts_def)

lemma cuts_andthen:
  assumes "cuts s (snd x)" "\<And>v t. x = (Inr v, t) \<Longrightarrow> cuts t (snd (k v t))"
  shows "cuts s (snd (andthen x k))"
proof (cases x)
  case (Pair r t)
  then show ?thesis using assms cuts_trans [of s t] by (cases r) auto
qed

lemma cuts_lift_pcm: "cuts s (snd (lift_pcm f s))"
  by (cases "f (cache_manager s)") (simp add: lift_pcm_def cuts_def)

lemma cuts_grow: "cuts s (snd (grow_blocks r k s))"
  unfolding grow_blocks_def by (intro cuts_andthen cuts_lift_pcm) simp

lemma cuts_preempt_last: "cuts s (snd (preempt_last s))"
proof (cases "running s = []")
  case True
  then show ?thesis by (simp add: preempt_last_def)
next
  case False
  let ?p = "last (running s)"
  let ?s1 = "upd_obj ?p (\<lambda>q. q\<lparr>status := PREEMPTED, num_computed_tokens := 0, prefill_block_num := Some 0\<rparr>)
               (s\<lparr>running := butlast (running s)\<rparr>)"
  have "cuts s ?s1" using False by (auto simp: cuts_def intro: exI [of _ "[last (running s)]"])
  moreover have "cuts ?s1 (snd (free_blocks ?p ?s1))" by (rule cuts_same) simp_all
  ultimately have "cuts s (snd (free_blocks ?p ?s1))" using cuts_trans by blast
  then show ?thesis
    using False unfolding preempt_last_def Let_def
    by (cases "free_blocks ?p ?s1"; cases "fst (free_blocks ?p ?s1)") (simp_all add: cuts_def)
qed

lemma cuts_trigger: "cuts s (snd (trigger_preempt r n preempted sched s))"
proof (induction r n preempted sched s rule: trigger_preempt.induct)
  case (1 r n preempted sched s)
  show ?case
  proof (cases "can_allocate_gpu_blocks n (cache_manager s)")
    case True
    then show ?thesis by (simp add: trigger_preempt.simps)
  next
    case False
    obtain x s1 where p: "preempt_last s = (x, s1)" by fastforce
    have c: "cuts s s1" using cuts_preempt_last [of s] p by simp
    show ?thesis
    proof (cases x)
      case (Inl e)
      then show ?thesis using False p c by (simp add: trigger_preempt.simps)
    next
      case (Inr v)
      have "cuts s1 (snd (trigger_preempt r n (preempted @ [v]) (sched @ [prepare_preempt_task v s1]) s1))"
        if "\<not> request_eq (obj s1 v) (obj s1 r)"
        using 1(1) [OF False p [symmetric] Inr refl refl that] .
      then show ?thesis using False p Inr c cuts_trans
        by (subst trigger_preempt.simps) (auto simp: Let_def)
    qed
  qed
qed

lemma cuts_secure: "cuts s (snd (secure_blocks r k preempted sched s))"
  unfolding secure_blocks_def
  by (auto intro!: cuts_andthen cuts_grow cuts_trigger split: prod.splits)

lemma cuts_decode_progress: "cuts s (snd (decode_progress H now r s))"
  using cuts_lift_pcm [of "upd_obj r g s" for g] by (auto simp: decode_progress_def Let_def)

lemma cuts_schedule_decode: "cuts s (snd (schedule_decode H now r v s))"
  unfolding schedule_decode_def
  by (auto intro!: cuts_andthen cuts_decode_progress cuts_secure split: prod.splits)

lemma cuts_mm_tokens: "cuts s (snd (mm_num_new_tokens IB r n0 inp s))"
  by (simp add: mm_num_new_tokens_def Let_def split: sum.split)

lemma cuts_num_tokens: "cuts s (snd (get_num_new_tokens IB r b s))"
  using cuts_mm_tokens [of "upd_obj r g s" for g]
  by (auto simp: get_num_new_tokens_def Let_def split: option.split)

lemma cuts_block_nums: "cuts s (snd (get_new_block_nums r n s))"
  unfolding get_new_block_nums_def check_and_free_block_tables_def free_block_tables_def
  by (auto intro!: cuts_andthen cuts_lift_pcm)

lemma cuts_schedule_prefill: "cuts s (snd (schedule_prefill IB r v s))"
  unfolding schedule_prefill_def
  by (auto intro!: cuts_andthen cuts_num_tokens cuts_block_nums cuts_secure
      simp: prepare_prefill_task_def Let_def split: prod.splits)

lemma cuts_schedule_running: "cuts s (snd (schedule_running H IB now r v s))"
  by (simp add: schedule_running_def cuts_schedule_decode cuts_schedule_prefill)

function running_loop ::
  "(token list \<Rightarrow> int) \<Rightarrow> img_boundaries \<Rightarrow> int \<Rightarrow> nat \<Rightarrow> loop_vars \<Rightarrow> rm1 \<Rightarrow> (rm1, loop_vars) outcome" where
  "running_loop H IB now req_index v s =
     (if req_index < length (running s) \<and> lv_budget v > 0 then
        (case schedule_running H IB now (running s ! req_index) v s of
           (Inl e, s1) \<Rightarrow> (Inl e, s1)
         | (Inr (go_on, v1), s1) \<Rightarrow>
             if go_on then running_loop H IB now (Suc req_index) v1 s1 else (Inr v1, s1))
      else (Inr v, s))"
  by pat_completeness auto
termination
proof (relation "measure (\<lambda>(H, IB, now, i, v, s). length (running s) - i)", goal_cases)
  case 1
  show ?case by simp
next
  case (2 H IB now i v s x s1 y go_on v1)
  then have "cuts s s1" using cuts_schedule_running [of s H IB now "running s ! i" v] by (metis snd_conv)
  then show ?case using 2(1) by (auto simp: cuts_def)
qed

declare running_loop.simps [simp del]

subsection \<open>Waiting requests\<close>

text \<open>
  \<open>get_prefix_cached_blocks\<close>: an exception is logged and reported as failure; what was written stays.
\<close>

definition get_prefix_cached_blocks ::
  "(token list \<Rightarrow> int) \<Rightarrow> int \<Rightarrow> oref \<Rightarrow> rm1 \<Rightarrow> rm1 \<times> bool" where
  "get_prefix_cached_blocks H now r s =
     (let q = obj s r; bs = int (block_size (cfg s)) in
      case lift_pcm (request_match_blocks H (request_id q) (prompt_token_ids q) (block_size (cfg s)) now) s of
        (Inl e, s1) \<Rightarrow> (s1, False)
      | (Inr (common, matched, hit), s1) \<Rightarrow>
          (upd_obj r (\<lambda>q. q\<lparr>num_cached_tokens := matched,
             gpu_cache_token_num := Some (gpu_cache_blocks hit * bs),
             cpu_cache_token_num := Some (cpu_cache_blocks hit * bs),
             req_cache_info := Some (int (length common), get_required_block_num (prompt_token_ids_len q - matched) bs),
             block_tables := common,
             skip_allocate := Some (matched = prompt_token_ids_len q),
             num_computed_tokens := (if matched = prompt_token_ids_len q then matched - 1 else matched)\<rparr>) s1,
           True))"

definition get_available_position :: "('t, 'a) rm_scheme \<Rightarrow> nat res" where
  "get_available_position s =
     (case next_slot (stop_flags s) (max_num_seqs s) 0 of None \<Rightarrow> Inl RuntimeError | Some p \<Rightarrow> Inr p)"

text \<open>The request at the head of the queue becomes a running one.\<close>

definition dequeue :: "oref \<Rightarrow> rm1 \<Rightarrow> rm1" where
  "dequeue r s = s\<lparr>waiting := tl (waiting s), running := running s @ [r]\<rparr>"

definition take_slot :: "oref \<Rightarrow> rm1 \<Rightarrow> (rm1, unit) outcome" where
  "take_slot r s =
     (case get_available_position s of Inl e \<Rightarrow> (Inl e, s)
      | Inr p \<Rightarrow>
          let s1 = upd_obj r (idx_update (\<lambda>_. Some p)) s in
          (Inr (), s1\<lparr>tasks_list := (tasks_list s1)[p := Some r], stop_flags := (stop_flags s1)[p := False],
                      req_dict := (req_dict s1)(request_id (obj s1 r) \<mapsto> p)\<rparr>))"

definition start_waiting ::
  "(token list \<Rightarrow> int) \<Rightarrow> img_boundaries \<Rightarrow> int \<Rightarrow> oref \<Rightarrow> loop_vars \<Rightarrow> rm1 \<Rightarrow> (rm1, bool \<times> loop_vars) outcome" where
  "start_waiting H IB now r v s =
     (let (s1, success) = (if enable_prefix_cache s then get_prefix_cached_blocks H now r s else (s, True)) in
      if \<not> success then (Inr (False, v), s1)
      else
        andthen (get_num_new_tokens IB r (lv_budget v) s1) (\<lambda>n s2.
        andthen (get_new_block_nums r n s2) (\<lambda>k s3.
        if can_allocate_gpu_blocks k (cache_manager s3) then
          andthen (if skip_allocate (obj s3 r) = Some True then (Inr (), s3) else grow_blocks r k s3) (\<lambda>_ s4.
            let (item, s5) = prepare_prefill_task r n (dequeue r s4);
                s6 = upd_obj r (\<lambda>q. q\<lparr>inference_start_time := Some now,
                                  num_computed_tokens := num_computed_tokens q + n, status := RUNNING\<rparr>) s5
            in andthen (take_slot r s6)
                 (\<lambda>_ s7. (Inr (True, v\<lparr>lv_sched := lv_sched v @ [item], lv_budget := lv_budget v - n\<rparr>), s7)))
        else (Inr (False, v), s3))))"

definition resume_preempted :: "img_boundaries \<Rightarrow> oref \<Rightarrow> loop_vars \<Rightarrow> rm1 \<Rightarrow> (rm1, bool \<times> loop_vars) outcome" where
  "resume_preempted IB r v s =
     andthen (get_num_new_tokens IB r (lv_budget v)
                (upd_obj r (\<lambda>q. q\<lparr>need_prefill_tokens := num_total_tokens q\<rparr>) s)) (\<lambda>n s2.
     andthen (get_new_block_nums r n s2) (\<lambda>k s3.
     if can_allocate_gpu_blocks k (cache_manager s3) then
       andthen (grow_blocks r k s3) (\<lambda>_ s4.
         let (item, s5) = prepare_prefill_task r n (dequeue r s4);
             s6 = upd_obj r (\<lambda>q. q\<lparr>num_computed_tokens := num_computed_tokens q + n, status := RUNNING\<rparr>) s5
         in (Inr (True, v\<lparr>lv_sched := lv_sched v @ [item], lv_budget := lv_budget v - n\<rparr>), s6))
     else (Inr (False, v), s3)))"

text \<open>
  One round of the loop over the waiting queue. A status that is neither waiting nor preempted is only
  logged, so that the loop meets the same request again and does not end.
\<close>

definition schedule_waiting ::
  "(token list \<Rightarrow> int) \<Rightarrow> img_boundaries \<Rightarrow> int \<Rightarrow> loop_vars \<Rightarrow> rm1 \<Rightarrow> (rm1, bool \<times> loop_vars) outcome" where
  "schedule_waiting H IB now v s =
     (if length (running s) = max_num_seqs s then (Inr (False, v), s)
      else if enable_mm (config s) \<and> exist_prefill (lv_sched v) then (Inr (False, v), s)
      else
        let r = hd (waiting s) in
        case status (obj s r) of
          WAITING \<Rightarrow> start_waiting H IB now r v s
        | PREEMPTED \<Rightarrow> resume_preempted IB r v s
        | RUNNING \<Rightarrow> (Inl NoReturn, s)
        | FINISHED \<Rightarrow> (Inl NoReturn, s))"

text \<open>The waiting queue: a round that goes on has taken the head off, every other leaves it.\<close>

lemma waiting_lift_pcm [simp]: "waiting (snd (lift_pcm f s)) = waiting s"
  by (cases "f (cache_manager s)") (simp add: lift_pcm_def)

lemma waiting_frames:
  "get_num_new_tokens IB r b s = (x, s') \<Longrightarrow> waiting s' = waiting s"
  "get_new_block_nums r n s = (y, s') \<Longrightarrow> waiting s' = waiting s"
  "grow_blocks r k s = (z, s') \<Longrightarrow> waiting s' = waiting s"
  using cuts_num_tokens [of s IB r b] cuts_block_nums [of s r n] cuts_grow [of s r k]
  by (simp_all add: cuts_def)

lemma waiting_take_slot: "take_slot r s = (x, s') \<Longrightarrow> waiting s' = waiting s"
  by (auto simp: take_slot_def Let_def upd_obj_def split: sum.splits)

lemma waiting_lift_pcm': "lift_pcm f s = (x, s') \<Longrightarrow> waiting s' = waiting s"
  using waiting_lift_pcm [of f s] by simp

lemma waiting_prefix: "get_prefix_cached_blocks H now r s = (s', b) \<Longrightarrow> waiting s' = waiting s"
  by (auto simp: get_prefix_cached_blocks_def Let_def split: prod.splits sum.splits dest: waiting_lift_pcm')

lemma waiting_start:
  assumes "start_waiting H IB now r v s = (Inr (True, v'), s')"
  shows "waiting s' = tl (waiting s)"
  using assms
  by (auto simp: start_waiting_def andthen_eq_Inr Let_def prepare_prefill_task_def dequeue_def
      split: prod.splits if_splits dest!: waiting_frames waiting_take_slot waiting_prefix)

lemma waiting_resume:
  assumes "resume_preempted IB r v s = (Inr (True, v'), s')"
  shows "waiting s' = tl (waiting s)"
  using assms
  by (auto simp: resume_preempted_def andthen_eq_Inr Let_def prepare_prefill_task_def dequeue_def
      split: prod.splits if_splits dest!: waiting_frames)

lemma waiting_round:
  assumes "schedule_waiting H IB now v s = (Inr (True, v'), s')"
  shows "waiting s' = tl (waiting s)"
  using assms
  by (auto simp: schedule_waiting_def Let_def split: if_splits RequestStatus.splits
      dest: waiting_start waiting_resume)

function waiting_loop ::
  "(token list \<Rightarrow> int) \<Rightarrow> img_boundaries \<Rightarrow> int \<Rightarrow> loop_vars \<Rightarrow> rm1 \<Rightarrow> (rm1, loop_vars) outcome" where
  "waiting_loop H IB now v s =
     (if waiting s \<noteq> [] \<and> lv_budget v > 0 then
        (case schedule_waiting H IB now v s of
           (Inl e, s1) \<Rightarrow> (Inl e, s1)
         | (Inr (go_on, v1), s1) \<Rightarrow> if go_on then waiting_loop H IB now v1 s1 else (Inr v1, s1))
      else (Inr v, s))"
  by pat_completeness auto
termination
proof (relation "measure (\<lambda>(H, IB, now, v, s). length (waiting s))", goal_cases)
  case 1
  show ?case by simp
next
  case (2 H IB now v s x s1 y go_on v1)
  then show ?case using waiting_round [of H IB now v s v1 s1] by (cases "waiting s") auto
qed

declare waiting_loop.simps [simp del]

definition schedule :: "(token list \<Rightarrow> int) \<Rightarrow> img_boundaries \<Rightarrow> int \<Rightarrow> rm1 \<Rightarrow> (rm1, sched_item list) outcome" where
  "schedule H IB now s =
     andthen (running_loop H IB now 0
                \<lparr>lv_budget = max_num_batched_tokens (config s), lv_sched = [], lv_preempted = []\<rparr> s)
       (\<lambda>v s1. andthen (if lv_preempted v = [] then waiting_loop H IB now v s1 else (Inr v, s1))
                  (\<lambda>v2 s2. (Inr (lv_sched v2), s2)))"

subsection \<open>Requests come and go\<close>

definition add_request :: "Request \<Rightarrow> rm1 \<Rightarrow> rm1" where
  "add_request q s =
     s\<lparr>objs := objs s @ [q], waiting := waiting s @ [length (objs s)],
       requests := (requests s)(request_id q \<mapsto> length (objs s))\<rparr>"

fun remove_eq :: "rm1 \<Rightarrow> oref \<Rightarrow> oref list \<Rightarrow> oref list" where
  "remove_eq s r [] = []"
| "remove_eq s r (x # xs) = (if request_eq (obj s x) (obj s r) then xs else x # remove_eq s r xs)"

definition in_queue :: "rm1 \<Rightarrow> oref \<Rightarrow> oref list \<Rightarrow> bool" where
  "in_queue s r xs = list_ex (\<lambda>x. request_eq (obj s x) (obj s r)) xs"

definition finish_one :: "req_id \<Rightarrow> oref \<Rightarrow> rm1 \<Rightarrow> (rm1, unit) outcome" where
  "finish_one rid r s =
     andthen (if in_queue s r (running s) then
                free_blocks r (upd_obj r (status_update (\<lambda>_. FINISHED)) (s\<lparr>running := remove_eq s r (running s)\<rparr>))
              else (Inr (), s)) (\<lambda>_ s1.
     let s2 = s1\<lparr>to_be_rescheduled := to_be_rescheduled s1 - {request_id (obj s1 r)}\<rparr> in
     if in_queue s2 r (waiting s2) then (Inl RuntimeError, s2)
     else case idx (obj s2 r) of
            None \<Rightarrow> (Inl TypeError, s2)
          | Some p \<Rightarrow>
              if p \<ge> length (tasks_list s2) then (Inl IndexError, s2)
              else (Inr (), s2\<lparr>tasks_list := (tasks_list s2)[p := None], stop_flags := (stop_flags s2)[p := True],
                               requests := (requests s2)(rid := None)\<rparr>))"

fun finish_loop :: "req_id list \<Rightarrow> rm1 \<Rightarrow> (rm1, unit) outcome" where
  "finish_loop [] s = (Inr (), s)"
| "finish_loop (rid # rids) s =
     (case requests s rid of None \<Rightarrow> finish_loop rids s
      | Some r \<Rightarrow> andthen (finish_one rid r s) (\<lambda>_ s1. finish_loop rids s1))"

text \<open>\<open>finish_requests\<close>: the ids in the order the set yields them; an exception is logged and ends the loop.\<close>

definition finish_requests :: "req_id list \<Rightarrow> rm1 \<Rightarrow> rm1" where
  "finish_requests rids s = snd (finish_loop rids s)"

definition get_real_bsz :: "('t, 'a) rm_scheme \<Rightarrow> nat \<times> ('t, 'a) rm_scheme" where
  "get_real_bsz s =
     (let n = last_busy (stop_flags s) (max_num_seqs s) (real_bsz s) in (n, s\<lparr>real_bsz := n\<rparr>))"

end
