(* ===== verification/SchedulerV1Frame.thy ===== *)
theory SchedulerV1Frame
  imports SchedulerV1
begin

text \<open>
  What no operation of the second scheduler changes, and the order in which its queues move: running
  requests are only cut off at the end, and waiting requests only leave from the head.
\<close>

subsection \<open>The configuration, the table of requests and the number of objects\<close>

definition fixed :: "rm1 \<Rightarrow> v1_config \<times> cache_config \<times> nat \<times> bool \<times> nat \<times> nat \<times> nat \<times> (req_id \<Rightarrow> oref option)" where
  "fixed s = (config s, cfg s, max_num_seqs s, enable_prefix_cache s, length (objs s),
              length (stop_flags s), length (tasks_list s), requests s)"

lemma fixed_upd_obj [simp]: "fixed (upd_obj r f s) = fixed s"
  by (simp add: fixed_def upd_obj_def)

lemma fixed_fields:
  assumes "fixed s' = fixed s"
  shows "config s' = config s" "cfg s' = cfg s" "max_num_seqs s' = max_num_seqs s"
    "enable_prefix_cache s' = enable_prefix_cache s" "length (objs s') = length (objs s)"
    "requests s' = requests s"
  using assms by (simp_all add: fixed_def)

lemma fixed_updates [simp]:
  "fixed (s\<lparr>cache_manager := p\<rparr>) = fixed s" "fixed (s\<lparr>running := rs\<rparr>) = fixed s"
  "fixed (s\<lparr>waiting := rs\<rparr>) = fixed s" "fixed (s\<lparr>to_be_rescheduled := ids\<rparr>) = fixed s"
  "fixed (s\<lparr>req_dict := d\<rparr>) = fixed s"
  "fixed (s\<lparr>stop_flags := (stop_flags s)[i := b]\<rparr>) = fixed s"
  "fixed (s\<lparr>tasks_list := (tasks_list s)[i := t]\<rparr>) = fixed s"
  by (simp_all add: fixed_def)

lemma fixed_andthen:
  assumes "fixed (snd x) = fixed s" "\<And>v t. x = (Inr v, t) \<Longrightarrow> fixed (snd (k v t)) = fixed t"
  shows "fixed (snd (andthen x k)) = fixed s"
proof (cases x)
  case (Pair r t)
  then show ?thesis using assms by (cases r) auto
qed

lemma fixed_lift_pcm [simp]: "fixed (snd (lift_pcm f s)) = fixed s"
  by (cases "f (cache_manager s)") (simp add: lift_pcm_def)

lemma fixed_free_blocks [simp]: "fixed (snd (free_blocks r s)) = fixed s"
  by (simp add: free_blocks_def Let_def split: option.split)

lemma fixed_grow [simp]: "fixed (snd (grow_blocks r k s)) = fixed s"
  unfolding grow_blocks_def by (intro fixed_andthen) simp_all

lemma fixed_preempt_last [simp]: "fixed (snd (preempt_last s)) = fixed s"
  unfolding preempt_last_def by (auto simp: Let_def intro!: fixed_andthen)

lemma fixed_trigger [simp]: "fixed (snd (trigger_preempt r n preempted sched s)) = fixed s"
proof (induction r n preempted sched s rule: trigger_preempt.induct)
  case (1 r n preempted sched s)
  obtain x s1 where p: "preempt_last s = (x, s1)" by fastforce
  have c: "fixed s1 = fixed s" using fixed_preempt_last [of s] p by simp
  show ?case using 1 p c by (subst trigger_preempt.simps) (auto simp: Let_def split: sum.splits)
qed

lemma fixed_secure [simp]: "fixed (snd (secure_blocks r k preempted sched s)) = fixed s"
  unfolding secure_blocks_def by (auto intro!: fixed_andthen split: prod.splits)

lemma fixed_decode_progress: "fixed (snd (decode_progress H now r s)) = fixed s"
  by (simp add: decode_progress_def Let_def)

lemma fixed_schedule_decode: "fixed (snd (schedule_decode H now r v s)) = fixed s"
  unfolding schedule_decode_def decode_progress_def
  by (auto intro!: fixed_andthen simp: Let_def split: prod.splits)

lemma fixed_num_tokens [simp]: "fixed (snd (get_num_new_tokens IB r b s)) = fixed s"
  by (simp add: get_num_new_tokens_def mm_num_new_tokens_def Let_def split: option.split sum.split)

lemma fixed_block_nums [simp]: "fixed (snd (get_new_block_nums r n s)) = fixed s"
  unfolding get_new_block_nums_def check_and_free_block_tables_def free_block_tables_def
  by (auto intro!: fixed_andthen)

lemma fixed_schedule_prefill: "fixed (snd (schedule_prefill IB r v s)) = fixed s"
  unfolding schedule_prefill_def
  by (auto intro!: fixed_andthen simp: prepare_prefill_task_def Let_def split: prod.splits)

lemma fixed_schedule_running: "fixed (snd (schedule_running H IB now r v s)) = fixed s"
  by (simp add: schedule_running_def fixed_schedule_decode fixed_schedule_prefill)

lemma fixed_running_loop: "fixed (snd (running_loop H IB now i v s)) = fixed s"
proof (induction H IB now i v s rule: running_loop.induct)
  case (1 H IB now i v s)
  obtain x t where st: "schedule_running H IB now (running s ! i) v s = (x, t)" by fastforce
  have "fixed t = fixed s" using fixed_schedule_running [of H IB now "running s ! i" v s] st by simp
  then show ?case using 1 st by (subst running_loop.simps) (auto split: sum.splits prod.splits)
qed

lemma fixed_take_slot [simp]: "fixed (snd (take_slot r s)) = fixed s"
  by (simp add: take_slot_def Let_def fixed_def upd_obj_def split: sum.split)

lemma fixed_dequeue [simp]: "fixed (dequeue r s) = fixed s"
  by (simp add: dequeue_def fixed_def)

lemma fixed_lift_pcm': "lift_pcm f s = (x, s') \<Longrightarrow> fixed s' = fixed s"
  using fixed_lift_pcm [of f s] by simp

lemma fixed_prefix: "fixed (fst (get_prefix_cached_blocks H now r s)) = fixed s"
  by (auto simp: get_prefix_cached_blocks_def Let_def split: prod.splits sum.splits dest: fixed_lift_pcm')

lemma fixed_start: "fixed (snd (start_waiting H IB now r v s)) = fixed s"
proof -
  let ?x = "if enable_prefix_cache s then get_prefix_cached_blocks H now r s else (s, True)"
  have "fixed (fst ?x) = fixed s" using fixed_prefix by simp
  then show ?thesis
    unfolding start_waiting_def Let_def prepare_prefill_task_def
    by (cases ?x) (auto intro!: fixed_andthen)
qed

lemma fixed_resume: "fixed (snd (resume_preempted IB r v s)) = fixed s"
  unfolding resume_preempted_def
  by (auto intro!: fixed_andthen simp: prepare_prefill_task_def Let_def split: prod.splits)

lemma fixed_round: "fixed (snd (schedule_waiting H IB now v s)) = fixed s"
  by (simp add: schedule_waiting_def Let_def fixed_start fixed_resume split: RequestStatus.split)

subsection \<open>The order of the queues\<close>

text \<open>Victims leave from the end, one after the other.\<close>

definition victims :: "oref list \<Rightarrow> oref list \<Rightarrow> rm1 \<Rightarrow> rm1 \<Rightarrow> bool" where
  "victims pre pre' s s' \<longleftrightarrow> (\<exists>new. pre' = pre @ new \<and> running s = running s' @ rev new) \<and> waiting s' = waiting s"

lemma victims_same: "running s' = running s \<Longrightarrow> waiting s' = waiting s \<Longrightarrow> victims pre pre s s'"
  by (simp add: victims_def)

lemma victims_trans: "victims p q a b \<Longrightarrow> victims q r b c \<Longrightarrow> victims p r a c"
  by (auto simp: victims_def)

definition queues :: "rm1 \<Rightarrow> oref list \<times> oref list" where
  "queues s = (running s, waiting s)"

lemma queues_upd_obj [simp]: "queues (upd_obj r f s) = queues s"
  by (simp add: queues_def)

lemma queues_andthen:
  assumes "queues (snd x) = queues s" "\<And>v t. x = (Inr v, t) \<Longrightarrow> queues (snd (k v t)) = queues t"
  shows "queues (snd (andthen x k)) = queues s"
proof (cases x)
  case (Pair r t)
  then show ?thesis using assms by (cases r) auto
qed

lemma queues_lift_pcm [simp]: "queues (snd (lift_pcm f s)) = queues s"
  by (cases "f (cache_manager s)") (simp add: lift_pcm_def queues_def)

lemma queues_grow [simp]: "queues (snd (grow_blocks r k s)) = queues s"
  unfolding grow_blocks_def by (intro queues_andthen) simp_all

lemma queues_decode_progress [simp]: "queues (snd (decode_progress H now r s)) = queues s"
  by (simp add: decode_progress_def Let_def)

lemma queues_num_tokens [simp]: "queues (snd (get_num_new_tokens IB r b s)) = queues s"
  by (simp add: get_num_new_tokens_def mm_num_new_tokens_def Let_def split: option.split sum.split)

lemma queues_block_nums [simp]: "queues (snd (get_new_block_nums r n s)) = queues s"
  unfolding get_new_block_nums_def check_and_free_block_tables_def free_block_tables_def
  by (auto intro!: queues_andthen)

lemma queuesD:
  assumes "queues (snd x) = queues s" "x = (y, s')"
  shows "running s' = running s \<and> waiting s' = waiting s"
  using assms by (simp add: queues_def)

lemmas running_frames =
  queuesD [OF queues_lift_pcm] queuesD [OF queues_grow] queuesD [OF queues_decode_progress]
  queuesD [OF queues_num_tokens] queuesD [OF queues_block_nums]

lemma trigger_victims:
  "trigger_preempt r n pre sched s = (Inr (ok, pre', sched'), s') \<Longrightarrow> victims pre pre' s s'"
proof (induction r n pre sched s rule: trigger_preempt.induct)
  case (1 r n pre sched s)
  show ?case
  proof (cases "can_allocate_gpu_blocks n (cache_manager s)")
    case True
    then show ?thesis using 1(2) by (simp add: trigger_preempt.simps victims_same)
  next
    case False
    then obtain p s1 where p: "preempt_last s = (Inr p, s1)"
      using 1(2) by (subst (asm) trigger_preempt.simps) (auto split: prod.splits sum.splits)
    note q = running_preempt_last [OF p]
    have v1: "victims pre (pre @ [p]) s s1" using q by (auto simp: victims_def)
    show ?thesis
    proof (cases "request_eq (obj s1 p) (obj s1 r)")
      case True
      then show ?thesis using 1(2) False p v1 by (subst (asm) trigger_preempt.simps) (simp add: Let_def)
    next
      case neq: False
      then have "trigger_preempt r n (pre @ [p]) (sched @ [prepare_preempt_task p s1]) s1 = (Inr (ok, pre', sched'), s')"
        using 1(2) False p by (subst (asm) trigger_preempt.simps) (simp add: Let_def)
      from 1(1) [OF False p [symmetric] refl refl refl neq this] v1 show ?thesis using victims_trans by blast
    qed
  qed
qed

lemma secure_victims:
  "secure_blocks r k pre sched s = (Inr (ok, pre', sched'), s') \<Longrightarrow> victims pre pre' s s'"
  by (auto simp: secure_blocks_def andthen_eq_Inr victims_same split: if_splits prod.splits
      dest!: trigger_victims running_frames(2) intro: victims_trans [OF _ victims_same])

lemma running_victims:
  assumes "schedule_running H IB now r v s = (Inr (go, v'), s')"
  shows "victims (lv_preempted v) (lv_preempted v') s s'"
proof -
  have dec: "victims (lv_preempted v) (lv_preempted v') s s'" if "schedule_decode H now r v s = (Inr (go, v'), s')"
    using that
    by (auto simp: schedule_decode_def andthen_eq_Inr victims_same split: if_splits prod.splits
        dest!: secure_victims running_frames(3) intro: victims_trans [OF victims_same])
  have pre: "victims (lv_preempted v) (lv_preempted v') s s'" if "schedule_prefill IB r v s = (Inr (go, v'), s')"
  proof -
    from that obtain n s1 k s2 ok pre' sched' s3 where
      a: "get_num_new_tokens IB r (lv_budget v) s = (Inr n, s1)" "get_new_block_nums r n s1 = (Inr k, s2)"
        "secure_blocks r k (lv_preempted v) (lv_sched v) s2 = (Inr (ok, pre', sched'), s3)"
      and b: "lv_preempted v' = pre'" "running s' = running s3" "waiting s' = waiting s3"
      by (auto simp: schedule_prefill_def andthen_eq_Inr prepare_prefill_task_def Let_def split: if_splits prod.splits)
    then show ?thesis
      using running_frames(4) [OF a(1)] running_frames(5) [OF a(2)] secure_victims [OF a(3)]
      by (auto simp: victims_def)
  qed
  show ?thesis using assms dec pre by (auto simp: schedule_running_def split: if_splits)
qed

lemma running_loop_victims:
  "running_loop H IB now i v s = (Inr v', s') \<Longrightarrow> victims (lv_preempted v) (lv_preempted v') s s'"
proof (induction H IB now i v s rule: running_loop.induct)
  case (1 H IB now i v s)
  show ?case
  proof (cases "i < length (running s) \<and> lv_budget v > 0")
    case False
    then show ?thesis using 1(2) by (subst (asm) running_loop.simps) (auto simp: victims_same)
  next
    case True
    then obtain go v1 s1 where st: "schedule_running H IB now (running s ! i) v s = (Inr (go, v1), s1)"
      using 1(2) by (subst (asm) running_loop.simps) (auto split: prod.splits sum.splits)
    note vs = running_victims [OF st]
    show ?thesis
    proof (cases go)
      case go: True
      then have "running_loop H IB now (Suc i) v1 s1 = (Inr v', s')"
        using 1(2) True st by (subst (asm) running_loop.simps) simp
      from 1(1) [OF True st [symmetric] refl refl go this] vs show ?thesis using victims_trans by blast
    next
      case False
      then show ?thesis using 1(2) True st vs by (subst (asm) running_loop.simps) simp
    qed
  qed
qed

end
