(* ===== verification/SchedulerV1Props.thy ===== *)
theory SchedulerV1Props
  imports SchedulerV1Frame
begin

text \<open>
  What one call of \<open>schedule\<close> promises: queues move in order, the token budget and the batch size are
  respected, and without prefix caching no cache block is lost.
\<close>

subsection \<open>First come, first served\<close>

lemma queues_take_slot [simp]: "queues (snd (take_slot r s)) = queues s"
  by (simp add: take_slot_def Let_def queues_def upd_obj_def split: sum.split)

lemma queues_prefix: "queues (fst (get_prefix_cached_blocks H now r s)) = queues s"
  by (auto simp: get_prefix_cached_blocks_def Let_def queues_def split: prod.splits sum.splits dest: running_frames(1))

lemma prefix_frames: "get_prefix_cached_blocks H now r s = (s', b) \<Longrightarrow> running s' = running s \<and> waiting s' = waiting s"
  using queues_prefix [of H now r s] by (simp add: queues_def)

lemmas round_frames = running_frames prefix_frames queuesD [OF queues_take_slot]

lemma start_order:
  assumes "start_waiting H IB now r v s = (Inr (go, v'), s')"
  shows "if go then running s' = running s @ [r] \<and> waiting s' = tl (waiting s) else running s' = running s \<and> waiting s' = waiting s"
  using assms
  by (auto simp: start_waiting_def andthen_eq_Inr Let_def prepare_prefill_task_def dequeue_def
      split: prod.splits if_splits dest!: round_frames)

lemma resume_order:
  assumes "resume_preempted IB r v s = (Inr (go, v'), s')"
  shows "if go then running s' = running s @ [r] \<and> waiting s' = tl (waiting s) else running s' = running s \<and> waiting s' = waiting s"
  using assms
  by (auto simp: resume_preempted_def andthen_eq_Inr Let_def prepare_prefill_task_def dequeue_def
      split: prod.splits if_splits dest!: round_frames)

lemma round_order:
  assumes "schedule_waiting H IB now v s = (Inr (go, v'), s')"
  shows "if go then running s' = running s @ [hd (waiting s)] \<and> waiting s' = tl (waiting s) \<and> length (running s) \<noteq> max_num_seqs s
    else running s' = running s \<and> waiting s' = waiting s"
  using assms
  by (auto simp: schedule_waiting_def Let_def split: if_splits RequestStatus.splits dest: start_order resume_order)

lemma waiting_loop_order:
  "waiting_loop H IB now v s = (Inr v', s') \<Longrightarrow>
   \<exists>k. running s' = running s @ take k (waiting s) \<and> waiting s' = drop k (waiting s) \<and>
     (length (running s) \<le> max_num_seqs s \<longrightarrow> length (running s') \<le> max_num_seqs s)"
proof (induction H IB now v s rule: waiting_loop.induct)
  case (1 H IB now v s)
  show ?case
  proof (cases "waiting s \<noteq> [] \<and> lv_budget v > 0")
    case False
    then have "s' = s" using 1(2) by (subst (asm) waiting_loop.simps) auto
    then show ?thesis by (intro exI [of _ 0]) simp
  next
    case True
    then obtain go v1 s1 where st: "schedule_waiting H IB now v s = (Inr (go, v1), s1)"
      using 1(2) by (subst (asm) waiting_loop.simps) (auto split: prod.splits sum.splits)
    note o1 = round_order [OF st]
    have m: "max_num_seqs s1 = max_num_seqs s" using fixed_round [of H IB now v s] fixed_fields(3) st by (metis snd_conv)
    show ?thesis
    proof (cases go)
      case go: True
      then have "waiting_loop H IB now v1 s1 = (Inr v', s')"
        using 1(2) True st by (subst (asm) waiting_loop.simps) simp
      from 1(1) [OF True st [symmetric] refl refl go this] obtain k where
        k: "running s' = running s1 @ take k (waiting s1)" "waiting s' = drop k (waiting s1)"
          "length (running s1) \<le> max_num_seqs s1 \<longrightarrow> length (running s') \<le> max_num_seqs s1" by blast
      obtain w ws where w: "waiting s = w # ws" using True by (cases "waiting s") auto
      show ?thesis using k o1 go w m by (intro exI [of _ "Suc k"]) auto
    next
      case False
      then have "s' = s1" using 1(2) True st by (subst (asm) waiting_loop.simps) simp
      then show ?thesis using o1 False by (intro exI [of _ 0]) simp
    qed
  qed
qed

lemma schedule_order:
  assumes "schedule H IB now s = (Inr items, s')"
  shows "(\<exists>lost. lost \<noteq> [] \<and> running s = running s' @ lost \<and> waiting s' = waiting s) \<or>
    (\<exists>k. running s' = running s @ take k (waiting s) \<and> waiting s' = drop k (waiting s) \<and>
       (length (running s) \<le> max_num_seqs s \<longrightarrow> length (running s') \<le> max_num_seqs s))"
proof -
  let ?v0 = "\<lparr>lv_budget = max_num_batched_tokens (config s), lv_sched = [], lv_preempted = []\<rparr>"
  obtain v s1 v2 where r: "running_loop H IB now 0 ?v0 s = (Inr v, s1)"
    and w: "(if lv_preempted v = [] then waiting_loop H IB now v s1 else (Inr v, s1)) = (Inr v2, s')"
    using assms by (auto simp: schedule_def andthen_eq_Inr)
  have vs: "running s = running s1 @ rev (lv_preempted v)" "waiting s1 = waiting s"
    using running_loop_victims [OF r] by (auto simp: victims_def)
  show ?thesis
  proof (cases "lv_preempted v = []")
    case False
    then show ?thesis using w vs by (intro disjI1 exI [of _ "rev (lv_preempted v)"]) simp
  next
    case True
    have m: "max_num_seqs s1 = max_num_seqs s" using fixed_fields(3) [OF fixed_running_loop] r by (metis snd_conv)
    have q: "running s1 = running s" "waiting s1 = waiting s" using vs True by simp_all
    have "waiting_loop H IB now v s1 = (Inr v2, s')" using w True by simp
    from waiting_loop_order [OF this] show ?thesis unfolding q m by blast
  qed
qed

subsection \<open>The token budget\<close>

fun item_tokens :: "sched_item \<Rightarrow> int" where
  "item_tokens (PrefillTask r a b) = b - a"
| "item_tokens (ScheduledDecodeTask i r bt) = 1"
| "item_tokens (ScheduledPreemptTask i r) = 0"

definition spent :: "sched_item list \<Rightarrow> int" where
  "spent items = sum_list (map item_tokens items)"

lemma spent_append [simp]: "spent (xs @ ys) = spent xs + spent ys"
  by (simp add: spent_def)

lemma spent_Nil [simp]: "spent [] = 0"
  by (simp add: spent_def)

lemma spent_tasks [simp]:
  "spent [prepare_preempt_task p s] = 0" "spent [prepare_decode_task p s] = 1"
  "spent [fst (prepare_prefill_task r n s)] = n"
  by (simp_all add: spent_def prepare_preempt_task_def prepare_decode_task_def prepare_prefill_task_def Let_def)

definition in_budget :: "loop_vars \<Rightarrow> loop_vars \<Rightarrow> bool" where
  "in_budget v v' \<longleftrightarrow> lv_budget v' + spent (lv_sched v') = lv_budget v + spent (lv_sched v) \<and>
     (0 \<le> lv_budget v \<longrightarrow> 0 \<le> lv_budget v')"

lemma within_refl [simp]: "in_budget v v"
  by (simp add: in_budget_def)

lemma within_trans: "in_budget a b \<Longrightarrow> in_budget b c \<Longrightarrow> in_budget a c"
  by (auto simp: in_budget_def)

lemma trigger_spent:
  "trigger_preempt r n pre sched s = (Inr (ok, pre', sched'), s') \<Longrightarrow> spent sched' = spent sched"
proof (induction r n pre sched s rule: trigger_preempt.induct)
  case (1 r n pre sched s)
  show ?case
  proof (cases "can_allocate_gpu_blocks n (cache_manager s)")
    case True
    then show ?thesis using 1(2) by (simp add: trigger_preempt.simps)
  next
    case False
    then obtain p s1 where p: "preempt_last s = (Inr p, s1)"
      using 1(2) by (subst (asm) trigger_preempt.simps) (auto split: prod.splits sum.splits)
    show ?thesis
    proof (cases "request_eq (obj s1 p) (obj s1 r)")
      case True
      then show ?thesis using 1(2) False p by (subst (asm) trigger_preempt.simps) (auto simp: Let_def)
    next
      case neq: False
      then have "trigger_preempt r n (pre @ [p]) (sched @ [prepare_preempt_task p s1]) s1 = (Inr (ok, pre', sched'), s')"
        using 1(2) False p by (subst (asm) trigger_preempt.simps) (simp add: Let_def)
      from 1(1) [OF False p [symmetric] refl refl refl neq this] show ?thesis by simp
    qed
  qed
qed

lemma secure_spent:
  "secure_blocks r k pre sched s = (Inr (ok, pre', sched'), s') \<Longrightarrow> spent sched' = spent sched"
  by (auto simp: secure_blocks_def andthen_eq_Inr split: if_splits prod.splits dest!: trigger_spent)

lemma text_tokens:
  "\<not> enable_mm (config s) \<Longrightarrow> get_num_new_tokens IB r b s =
    (Inr (min (need_prefill_tokens (obj s r) - num_computed_tokens (obj s r)) b), s)"
  by (simp add: get_num_new_tokens_def Let_def)

lemma prepare_prefill_split: "prepare_prefill_task r n s = (item, s') \<Longrightarrow> spent [item] = n"
  using spent_tasks(3) [of r n s] by simp

lemma within_running:
  assumes st: "schedule_running H IB now r v s = (Inr (go, v'), s')" and no_mm: "\<not> enable_mm (config s)" and pos: "0 < lv_budget v"
  shows "in_budget v v'"
proof (cases "num_computed_tokens (obj s r) \<ge> need_prefill_tokens (obj s r)")
  case True
  then show ?thesis using st pos
    by (auto simp: schedule_running_def schedule_decode_def andthen_eq_Inr in_budget_def split: if_splits prod.splits dest!: secure_spent)
next
  case False
  then show ?thesis using st pos
    by (auto simp: schedule_running_def schedule_prefill_def text_tokens [OF no_mm] andthen_eq_Inr in_budget_def Let_def
        split: if_splits prod.splits dest!: secure_spent prepare_prefill_split)
qed

lemma within_running_loop:
  "running_loop H IB now i v s = (Inr v', s') \<Longrightarrow> \<not> enable_mm (config s) \<Longrightarrow> in_budget v v'"
proof (induction H IB now i v s rule: running_loop.induct)
  case (1 H IB now i v s)
  show ?case
  proof (cases "i < length (running s) \<and> lv_budget v > 0")
    case False
    then show ?thesis using 1(2) by (subst (asm) running_loop.simps) auto
  next
    case True
    then obtain go v1 s1 where st: "schedule_running H IB now (running s ! i) v s = (Inr (go, v1), s1)"
      using 1(2) by (subst (asm) running_loop.simps) (auto split: prod.splits sum.splits)
    have w: "in_budget v v1" using within_running [OF st 1(3)] True by simp
    have "config s1 = config s" using fixed_schedule_running [of H IB now "running s ! i" v s] fixed_fields(1) st by (metis snd_conv)
    then show ?thesis using 1 True st w within_trans
      by (cases go) (subst (asm) (2) running_loop.simps; auto)+
  qed
qed

lemma within_round:
  assumes st: "schedule_waiting H IB now v s = (Inr (go, v'), s')" and no_mm: "\<not> enable_mm (config s)" and pos: "0 < lv_budget v"
  shows "in_budget v v'"
proof -
  have start: "in_budget v v'" if a: "start_waiting H IB now r v s = (Inr (go, v'), s')" for r
  proof -
    obtain s1 success where x: "(if enable_prefix_cache s then get_prefix_cached_blocks H now r s else (s, True)) = (s1, success)"
      by (rule prod.exhaust)
    then have "fixed s1 = fixed s" using fixed_prefix [of H now r s] by (auto split: if_splits)
    from fixed_fields(1) [OF this] have "\<not> enable_mm (config s1)" using no_mm by simp
    note tok = text_tokens [OF this]
    from a pos show ?thesis unfolding start_waiting_def x Let_def
      by (auto simp: tok andthen_eq_Inr in_budget_def split_beta split: if_splits)
  qed
  have resume: "in_budget v v'" if a: "resume_preempted IB r v s = (Inr (go, v'), s')" for r
  proof -
    have "\<not> enable_mm (config (upd_obj r f s))" for f using no_mm by (simp add: upd_obj_def)
    note tok = text_tokens [OF this]
    from a pos show ?thesis
      by (auto simp: tok resume_preempted_def andthen_eq_Inr in_budget_def Let_def split_beta split: if_splits)
  qed
  show ?thesis using st start resume
    by (auto simp: schedule_waiting_def Let_def split: if_splits RequestStatus.splits)
qed

lemma within_waiting_loop:
  "waiting_loop H IB now v s = (Inr v', s') \<Longrightarrow> \<not> enable_mm (config s) \<Longrightarrow> in_budget v v'"
proof (induction H IB now v s rule: waiting_loop.induct)
  case (1 H IB now v s)
  show ?case
  proof (cases "waiting s \<noteq> [] \<and> lv_budget v > 0")
    case False
    then show ?thesis using 1(2) by (subst (asm) waiting_loop.simps) auto
  next
    case True
    then obtain go v1 s1 where st: "schedule_waiting H IB now v s = (Inr (go, v1), s1)"
      using 1(2) by (subst (asm) waiting_loop.simps) (auto split: prod.splits sum.splits)
    have w: "in_budget v v1" using within_round [OF st 1(3)] True by simp
    have "config s1 = config s" using fixed_round [of H IB now v s] fixed_fields(1) st by (metis snd_conv)
    then show ?thesis using 1 True st w within_trans
      by (cases go) (subst (asm) (2) waiting_loop.simps; auto)+
  qed
qed

lemma schedule_within:
  assumes "schedule H IB now s = (Inr items, s')" "\<not> enable_mm (config s)" "0 \<le> max_num_batched_tokens (config s)"
  shows "spent items \<le> max_num_batched_tokens (config s)"
proof -
  let ?v0 = "\<lparr>lv_budget = max_num_batched_tokens (config s), lv_sched = [], lv_preempted = []\<rparr>"
  obtain v s1 v2 where r: "running_loop H IB now 0 ?v0 s = (Inr v, s1)"
    and w: "(if lv_preempted v = [] then waiting_loop H IB now v s1 else (Inr v, s1)) = (Inr v2, s')" and i: "items = lv_sched v2"
    using assms(1) by (auto simp: schedule_def andthen_eq_Inr)
  have "config s1 = config s" using fixed_running_loop [of H IB now 0 ?v0 s] fixed_fields(1) r by (metis snd_conv)
  then have "in_budget v v2" using w within_waiting_loop [of H IB now v s1 v2 s'] assms(2) by (auto split: if_splits)
  with within_running_loop [OF r assms(2)] have "in_budget ?v0 v2" by (rule within_trans)
  then show ?thesis using i assms(3) by (simp add: in_budget_def)
qed

end
