(* ===== verification/SchedulerV1Blocks.thy ===== *)
theory SchedulerV1Blocks
  imports SchedulerV1Props
begin

text \<open>
  The block account of the second scheduler without prefix caching: every block is free or in the table
  of one request object, and every operation keeps the account.
\<close>

definition obj_blocks :: "Request list \<Rightarrow> block_id multiset" where
  "obj_blocks os = sum_list (map (\<lambda>q. mset (block_tables q)) os)"

definition account1 :: "rm1 \<Rightarrow> block_id multiset" where
  "account1 s = mset (gpu_free_block_list (cache_manager s)) + obj_blocks (objs s)"

lemma obj_blocks_same:
  "block_tables (f (os ! r)) = block_tables (os ! r) \<Longrightarrow> obj_blocks (os[r := f (os ! r)]) = obj_blocks os"
  unfolding obj_blocks_def
  by (cases "r < length os") (simp_all add: sum_list_update_same list_update_beyond)

lemma obj_blocks_set:
  "r < length os \<Longrightarrow> obj_blocks (os[r := q]) + mset (block_tables (os ! r)) = obj_blocks os + mset (block_tables q)"
  unfolding obj_blocks_def by (rule sum_list_update_mset)

lemma account_upd_obj:
  "(\<And>q. block_tables (f q) = block_tables q) \<Longrightarrow> account1 (upd_obj r f s) = account1 s"
  by (simp add: account1_def upd_obj_def obj_blocks_same)

lemma account_updates [simp]:
  "account1 (s\<lparr>running := rs\<rparr>) = account1 s" "account1 (s\<lparr>waiting := rs\<rparr>) = account1 s"
  "account1 (s\<lparr>to_be_rescheduled := ids\<rparr>) = account1 s" "account1 (s\<lparr>req_dict := d\<rparr>) = account1 s"
  "account1 (s\<lparr>requests := m\<rparr>) = account1 s"
  "account1 (s\<lparr>stop_flags := fl\<rparr>) = account1 s" "account1 (s\<lparr>tasks_list := ts\<rparr>) = account1 s"
  by (simp_all add: account1_def)

text \<open>What an operation on object \<open>r\<close> needs: no prefix caching, and references into the list of objects.\<close>

definition good :: "oref \<Rightarrow> rm1 \<Rightarrow> bool" where
  "good r s \<longleftrightarrow> \<not> enable_prefix_cache s \<and> r < length (objs s) \<and> (\<forall>q \<in> set (running s). q < length (objs s))"

lemma good_upd_obj [simp]: "good r (upd_obj q f s) = good r s"
  by (simp add: good_def upd_obj_def)

lemma good_cuts:
  assumes "good r s" "fixed t = fixed s" "cuts s t"
  shows "good r t"
  using assms(1,3) fixed_fields(4,5) [OF assms(2)] by (auto simp: good_def cuts_def)

lemma account_andthen:
  assumes "good r s" "account1 (snd x) = account1 s" "fixed (snd x) = fixed s" "cuts s (snd x)"
    and "\<And>v t. x = (Inr v, t) \<Longrightarrow> good r t \<Longrightarrow> account1 (snd (k v t)) = account1 t"
  shows "account1 (snd (andthen x k)) = account1 s"
proof (cases x)
  case (Pair y t)
  then have "good r t" using good_cuts [OF assms(1)] assms(3,4) by simp
  then show ?thesis using assms(2,5) Pair by (cases y) auto
qed

lemma account_free_blocks:
  assumes "\<not> enable_prefix_cache s" "r < length (objs s)"
  shows "account1 (snd (free_blocks r s)) = account1 s"
proof -
  have "obj_blocks ((objs s)[r := (objs s ! r)\<lparr>block_tables := []\<rparr>]) + mset (block_tables (obj s r)) = obj_blocks (objs s)"
    using obj_blocks_set [OF assms(2), of "(objs s ! r)\<lparr>block_tables := []\<rparr>"] by simp
  then show ?thesis using assms
    by (simp add: free_blocks_def Let_def account1_def upd_obj_def recycle_gpu_blocks_def block_simps ac_simps)
qed

lemma account_grow:
  assumes "r < length (objs s)"
  shows "account1 (snd (grow_blocks r k s)) = account1 s"
proof -
  let ?free = "gpu_free_block_list (cache_manager s)"
  have "obj_blocks ((objs s)[r := (objs s ! r)\<lparr>block_tables := block_tables (objs s ! r) @ bs\<rparr>]) = obj_blocks (objs s) + mset bs" for bs
    using obj_blocks_set [OF assms, of "(objs s ! r)\<lparr>block_tables := block_tables (objs s ! r) @ bs\<rparr>"] by simp
  moreover have "mset (take n ?free) + (mset (drop n ?free) + B) = mset ?free + B" for n B
    using mset_take_drop [of n ?free] by (simp add: add.assoc [symmetric])
  ultimately show ?thesis
    by (simp add: grow_blocks_def lift_pcm_def allocate_gpu_blocks_eq account1_def upd_obj_def ac_simps)
qed

lemma account_preempt_last:
  assumes "\<not> enable_prefix_cache s" "\<forall>q \<in> set (running s). q < length (objs s)"
  shows "account1 (snd (preempt_last s)) = account1 s"
proof (cases "running s = []")
  case True
  then show ?thesis by (simp add: preempt_last_def)
next
  case False
  let ?p = "last (running s)"
  let ?s1 = "upd_obj ?p (\<lambda>q. q\<lparr>status := PREEMPTED, num_computed_tokens := 0, prefill_block_num := Some 0\<rparr>)
               (s\<lparr>running := butlast (running s)\<rparr>)"
  have "account1 (snd (free_blocks ?p ?s1)) = account1 ?s1"
    using assms False by (intro account_free_blocks) (simp_all add: upd_obj_def)
  also have "\<dots> = account1 s" by (simp add: account_upd_obj)
  finally show ?thesis using False unfolding preempt_last_def Let_def
    by (cases "free_blocks ?p ?s1"; cases "fst (free_blocks ?p ?s1)") simp_all
qed

lemma account_trigger:
  "good q s \<Longrightarrow> account1 (snd (trigger_preempt r n pre sched s)) = account1 s"
proof (induction r n pre sched s rule: trigger_preempt.induct)
  case (1 r n pre sched s)
  show ?case
  proof (cases "can_allocate_gpu_blocks n (cache_manager s)")
    case True
    then show ?thesis by (simp add: trigger_preempt.simps)
  next
    case False
    obtain x s1 where p: "preempt_last s = (x, s1)" by fastforce
    have a: "account1 s1 = account1 s" using account_preempt_last [of s] 1(2) p by (simp add: good_def)
    have g: "good q s1" using good_cuts [OF 1(2), of s1] fixed_preempt_last [of s] cuts_preempt_last [of s] p by simp
    show ?thesis
    proof (cases x)
      case (Inl e)
      then show ?thesis using False p a by (subst trigger_preempt.simps) simp
    next
      case (Inr v)
      have "account1 (snd (trigger_preempt r n (pre @ [v]) (sched @ [prepare_preempt_task v s1]) s1)) = account1 s1"
        if "\<not> request_eq (obj s1 v) (obj s1 r)"
        using 1(1) [OF False p [symmetric] Inr refl refl that g] .
      then show ?thesis using False p Inr a by (subst trigger_preempt.simps) (auto simp: Let_def)
    qed
  qed
qed

lemma good_len: "good r s \<Longrightarrow> r < length (objs s)"
  by (simp add: good_def)

lemma account_secure: "good r s \<Longrightarrow> account1 (snd (secure_blocks r k pre sched s)) = account1 s"
  unfolding secure_blocks_def
  by (auto intro!: account_andthen [of r] account_trigger [of r] account_grow cuts_trigger cuts_grow good_len split: prod.splits)

lemma account_num_tokens [simp]: "account1 (snd (get_num_new_tokens IB r b s)) = account1 s"
  by (simp add: get_num_new_tokens_def mm_num_new_tokens_def Let_def account_upd_obj split: option.split sum.split)

lemma account_block_nums: "good r s \<Longrightarrow> account1 (snd (get_new_block_nums r n s)) = account1 s"
  by (simp add: get_new_block_nums_def check_and_free_block_tables_def good_def)

lemma account_decode_progress: "good r s \<Longrightarrow> account1 (snd (decode_progress H now r s)) = account1 s"
  by (simp add: decode_progress_def Let_def good_def account_upd_obj)

lemma account_schedule_decode:
  assumes "good r s"
  shows "account1 (snd (schedule_decode H now r v s)) = account1 s"
  unfolding schedule_decode_def
proof (rule account_andthen [of r])
  fix u t assume "good r t"
  then have "account1 (snd (secure_blocks r (enc_dec_block_num (config t)) (lv_preempted v) (lv_sched v) t)) = account1 t"
    by (rule account_secure)
  then show "account1 (snd (if allocated_slots r t - num_total_tokens (obj t r) \<le> prealloc_dec_block_slot_num_threshold (config t) then
         andthen (secure_blocks r (enc_dec_block_num (config t)) (lv_preempted v) (lv_sched v) t)
           (\<lambda>(ok, preempted, sched) s2.
              if \<not> ok then (Inr (False, v\<lparr>lv_preempted := preempted, lv_sched := sched\<rparr>), s2)
              else (Inr (True, v\<lparr>lv_preempted := preempted, lv_sched := sched @ [prepare_decode_task r s2],
                                lv_budget := lv_budget v - 1\<rparr>), s2))
       else (Inr (True, v), t))) = account1 t"
    using \<open>good r t\<close>
    by (auto intro!: account_andthen [of r] cuts_secure split: prod.splits)
qed (rule assms account_decode_progress [OF assms] fixed_decode_progress cuts_decode_progress)+

lemma account_prepare [simp]: "account1 (snd (prepare_prefill_task r n s)) = account1 s"
  by (simp add: prepare_prefill_task_def Let_def account_upd_obj)

lemma account_schedule_prefill: "good r s \<Longrightarrow> account1 (snd (schedule_prefill IB r v s)) = account1 s"
  unfolding schedule_prefill_def
  by (auto intro!: account_andthen [of r] cuts_secure cuts_num_tokens cuts_block_nums account_secure account_block_nums
      simp: prepare_prefill_task_def Let_def account_upd_obj split: prod.splits)

lemma account_schedule_running: "good r s \<Longrightarrow> account1 (snd (schedule_running H IB now r v s)) = account1 s"
  by (simp add: schedule_running_def account_schedule_decode account_schedule_prefill)

definition refs_ok :: "rm1 \<Rightarrow> bool" where
  "refs_ok s \<longleftrightarrow> \<not> enable_prefix_cache s \<and> (\<forall>q \<in> set (running s) \<union> set (waiting s). q < length (objs s)) \<and>
     (\<forall>rid r. requests s rid = Some r \<longrightarrow> r < length (objs s))"

lemma refs_good: "refs_ok s \<Longrightarrow> r \<in> set (running s) \<union> set (waiting s) \<Longrightarrow> good r s"
  by (auto simp: refs_ok_def good_def)

lemma refs_fixed:
  assumes "refs_ok s" "fixed t = fixed s" "set (running t) \<union> set (waiting t) \<subseteq> set (running s) \<union> set (waiting s)"
  shows "refs_ok t"
  using assms(1,3) fixed_fields(4-6) [OF assms(2)] by (auto simp: refs_ok_def)

lemma account_running_loop:
  "refs_ok s \<Longrightarrow> account1 (snd (running_loop H IB now i v s)) = account1 s \<and> refs_ok (snd (running_loop H IB now i v s))"
proof (induction H IB now i v s rule: running_loop.induct)
  case (1 H IB now i v s)
  show ?case
  proof (cases "i < length (running s) \<and> lv_budget v > 0")
    case False
    then show ?thesis using 1(2) by (subst (1 2) running_loop.simps) auto
  next
    case True
    let ?r = "running s ! i"
    obtain x t where st: "schedule_running H IB now ?r v s = (x, t)" by fastforce
    have g: "good ?r s" using refs_good [OF 1(2)] True by simp
    have a: "account1 t = account1 s" using account_schedule_running [OF g, of H IB now v] st by simp
    have c: "cuts s t" "fixed t = fixed s"
      using cuts_schedule_running [of s H IB now ?r v] fixed_schedule_running [of H IB now ?r v s] st by simp_all
    have rt: "refs_ok t" by (rule refs_fixed [OF 1(2) c(2)]) (use c(1) in \<open>auto simp: cuts_def\<close>)
    show ?thesis
    proof (cases x)
      case (Inl e)
      then show ?thesis using True st a rt by (subst (1 2) running_loop.simps) simp
    next
      case (Inr gv)
      obtain go v1 where gv: "gv = (go, v1)" by (cases gv)
      show ?thesis
      proof (cases go)
        case go: True
        show ?thesis
          using 1(1) [OF True st [symmetric] Inr gv [symmetric] go rt] True st Inr gv go a
          by (subst (1 2) running_loop.simps) simp
      next
        case False
        then show ?thesis using True st Inr gv a rt by (subst (1 2) running_loop.simps) simp
      qed
    qed
  qed
qed

subsection \<open>Waiting requests\<close>

lemma account_take_slot [simp]: "account1 (snd (take_slot r s)) = account1 s"
  by (simp add: take_slot_def Let_def account_upd_obj split: sum.split)

lemma account_dequeue [simp]: "account1 (dequeue r s) = account1 s"
  by (simp add: dequeue_def)

lemma account_same_andthen:
  assumes "account1 (snd x) = account1 s" "\<And>v t. x = (Inr v, t) \<Longrightarrow> account1 (snd (k v t)) = account1 t"
  shows "account1 (snd (andthen x k)) = account1 s"
  using assms by (cases x; cases "fst x") auto

text \<open>What the two rounds do once the tokens and blocks are counted.\<close>

definition start_tail :: "int \<Rightarrow> oref \<Rightarrow> loop_vars \<Rightarrow> int \<Rightarrow> int \<Rightarrow> rm1 \<Rightarrow> (rm1, bool \<times> loop_vars) outcome" where
  "start_tail now r v n k s3 =
     (if can_allocate_gpu_blocks k (cache_manager s3) then
        andthen (if skip_allocate (obj s3 r) = Some True then (Inr (), s3) else grow_blocks r k s3) (\<lambda>_ s4.
          let (item, s5) = prepare_prefill_task r n (dequeue r s4);
              s6 = upd_obj r (\<lambda>q. q\<lparr>inference_start_time := Some now,
                                num_computed_tokens := num_computed_tokens q + n, status := RUNNING\<rparr>) s5
          in andthen (take_slot r s6)
               (\<lambda>_ s7. (Inr (True, v\<lparr>lv_sched := lv_sched v @ [item], lv_budget := lv_budget v - n\<rparr>), s7)))
      else (Inr (False, v), s3))"

definition resume_tail :: "oref \<Rightarrow> loop_vars \<Rightarrow> int \<Rightarrow> int \<Rightarrow> rm1 \<Rightarrow> (rm1, bool \<times> loop_vars) outcome" where
  "resume_tail r v n k s3 =
     (if can_allocate_gpu_blocks k (cache_manager s3) then
        andthen (grow_blocks r k s3) (\<lambda>_ s4.
          let (item, s5) = prepare_prefill_task r n (dequeue r s4);
              s6 = upd_obj r (\<lambda>q. q\<lparr>num_computed_tokens := num_computed_tokens q + n, status := RUNNING\<rparr>) s5
          in (Inr (True, v\<lparr>lv_sched := lv_sched v @ [item], lv_budget := lv_budget v - n\<rparr>), s6))
      else (Inr (False, v), s3))"

lemma resume_preempted_eq:
  "resume_preempted IB r v s =
     andthen (get_num_new_tokens IB r (lv_budget v) (upd_obj r (\<lambda>q. q\<lparr>need_prefill_tokens := num_total_tokens q\<rparr>) s))
       (\<lambda>n s2. andthen (get_new_block_nums r n s2) (resume_tail r v n))"
  by (simp add: resume_preempted_def resume_tail_def [abs_def])

lemma start_waiting_eq:
  "\<not> enable_prefix_cache s \<Longrightarrow> start_waiting H IB now r v s =
     andthen (get_num_new_tokens IB r (lv_budget v) s) (\<lambda>n s2. andthen (get_new_block_nums r n s2) (start_tail now r v n))"
  by (simp add: start_waiting_def start_tail_def [abs_def])

lemma account_start:
  assumes g: "good r s"
  shows "account1 (snd (start_waiting H IB now r v s)) = account1 s"
proof -
  have "\<not> enable_prefix_cache s" using g by (simp add: good_def)
  then have "account1 (snd (start_waiting H IB now r v s)) =
      account1 (snd (andthen (get_num_new_tokens IB r (lv_budget v) s) (\<lambda>n s2. andthen (get_new_block_nums r n s2) (start_tail now r v n))))"
    by (simp add: start_waiting_eq)
  also have "\<dots> = account1 s"
  proof (rule account_andthen [OF g account_num_tokens fixed_num_tokens cuts_num_tokens])
    fix n t assume t: "good r t"
    show "account1 (snd (andthen (get_new_block_nums r n t) (start_tail now r v n))) = account1 t"
    proof (rule account_andthen [OF t account_block_nums [OF t] fixed_block_nums cuts_block_nums])
      fix k u assume "good r u"
      then show "account1 (snd (start_tail now r v n k u)) = account1 u"
        by (auto intro!: account_same_andthen account_grow good_len
            simp: start_tail_def prepare_prefill_task_def Let_def account_upd_obj split: prod.splits)
    qed
  qed
  finally show ?thesis .
qed

lemma account_resume:
  assumes g: "good r s"
  shows "account1 (snd (resume_preempted IB r v s)) = account1 s"
proof -
  let ?s0 = "upd_obj r (\<lambda>q. q\<lparr>need_prefill_tokens := num_total_tokens q\<rparr>) s"
  have g0: "good r ?s0" using g by simp
  have "account1 (snd (resume_preempted IB r v s)) = account1 ?s0"
    unfolding resume_preempted_eq
  proof (rule account_andthen [OF g0 account_num_tokens fixed_num_tokens cuts_num_tokens])
    fix n t assume t: "good r t"
    show "account1 (snd (andthen (get_new_block_nums r n t) (resume_tail r v n))) = account1 t"
    proof (rule account_andthen [OF t account_block_nums [OF t] fixed_block_nums cuts_block_nums])
      fix k u assume "good r u"
      then show "account1 (snd (resume_tail r v n k u)) = account1 u"
        by (auto intro!: account_same_andthen account_grow good_len
            simp: resume_tail_def prepare_prefill_task_def Let_def account_upd_obj split: prod.splits)
    qed
  qed
  then show ?thesis by (simp add: account_upd_obj)
qed

lemma account_round:
  assumes "refs_ok s" "waiting s \<noteq> []"
  shows "account1 (snd (schedule_waiting H IB now v s)) = account1 s"
proof -
  have "good (hd (waiting s)) s" using assms by (intro refs_good) auto
  then show ?thesis
    by (simp add: schedule_waiting_def Let_def account_start account_resume split: RequestStatus.split)
qed

text \<open>After an exception the queues still hold old references only.\<close>

definition moved :: "rm1 \<Rightarrow> rm1 \<Rightarrow> bool" where
  "moved s s' \<longleftrightarrow> set (running s') \<union> set (waiting s') \<subseteq> set (running s) \<union> set (waiting s)"

lemma moved_andthen:
  assumes "queues (snd x) = queues s" "\<And>v t. x = (Inr v, t) \<Longrightarrow> queues t = queues s \<Longrightarrow> moved t (snd (k v t))"
  shows "moved s (snd (andthen x k))"
proof (cases x)
  case (Pair y t)
  then show ?thesis using assms by (cases y) (auto simp: moved_def queues_def)
qed

lemma moved_same: "queues t = queues s \<Longrightarrow> moved s t"
  by (simp add: moved_def queues_def)

lemma moved_dequeue:
  assumes "r \<in> set (waiting s)" "queues t = queues (dequeue r s)"
  shows "moved s t"
  using assms list.set_sel(2) [of "waiting s"] by (cases "waiting s") (auto simp: moved_def queues_def dequeue_def)

lemma queues_andthen_same:
  "queues (snd x) = queues s \<Longrightarrow> (\<And>v t. x = (Inr v, t) \<Longrightarrow> queues (snd (k v t)) = queues t) \<Longrightarrow> queues (snd (andthen x k)) = queues s"
  by (rule queues_andthen)

lemma queues_mem: "queues t = queues s \<Longrightarrow> r \<in> set (waiting s) \<Longrightarrow> r \<in> set (waiting t)"
  by (simp add: queues_def)

lemma moved_start_tail:
  assumes "r \<in> set (waiting s)"
  shows "moved s (snd (start_tail now r v n k s))"
proof -
  have tail: "moved t (snd (andthen (take_slot r (upd_obj r f (snd (prepare_prefill_task r n (dequeue r t))))) (\<lambda>_ s7. (Inr x, s7))))"
    if "r \<in> set (waiting t)" for t f x
    by (rule moved_dequeue [OF that]) (auto intro!: queues_andthen simp: prepare_prefill_task_def Let_def)
  have "moved s (snd (andthen (if skip_allocate (obj s r) = Some True then (Inr (), s) else grow_blocks r k s) (\<lambda>_ s4.
          let (item, s5) = prepare_prefill_task r n (dequeue r s4);
              s6 = upd_obj r (\<lambda>q. q\<lparr>inference_start_time := Some now,
                                num_computed_tokens := num_computed_tokens q + n, status := RUNNING\<rparr>) s5
          in andthen (take_slot r s6)
               (\<lambda>_ s7. (Inr (True, v\<lparr>lv_sched := lv_sched v @ [item], lv_budget := lv_budget v - n\<rparr>), s7)))))"
  proof (rule moved_andthen)
    fix u t assume "queues t = queues s"
    from queues_mem [OF this assms] show "moved t (snd (let (item, s5) = prepare_prefill_task r n (dequeue r t);
              s6 = upd_obj r (\<lambda>q. q\<lparr>inference_start_time := Some now,
                                num_computed_tokens := num_computed_tokens q + n, status := RUNNING\<rparr>) s5
          in andthen (take_slot r s6)
               (\<lambda>_ s7. (Inr (True, v\<lparr>lv_sched := lv_sched v @ [item], lv_budget := lv_budget v - n\<rparr>), s7))))"
      unfolding Let_def split_beta by (rule tail)
  qed simp
  then show ?thesis by (simp add: start_tail_def moved_same)
qed

lemma moved_start:
  assumes "\<not> enable_prefix_cache s" "r \<in> set (waiting s)"
  shows "moved s (snd (start_waiting H IB now r v s))"
  unfolding start_waiting_eq [OF assms(1)]
  by (rule moved_andthen [OF queues_num_tokens], rule moved_andthen [OF queues_block_nums], rule moved_start_tail)
    (metis queues_mem assms(2))

lemma moved_resume_tail:
  assumes "r \<in> set (waiting s)"
  shows "moved s (snd (resume_tail r v n k s))"
proof -
  have tail: "moved t (upd_obj r f (snd (prepare_prefill_task r n (dequeue r t))))" if "r \<in> set (waiting t)" for t f
    by (rule moved_dequeue [OF that]) (simp add: prepare_prefill_task_def Let_def)
  have "moved s (snd (andthen (grow_blocks r k s) (\<lambda>_ s4.
          let (item, s5) = prepare_prefill_task r n (dequeue r s4);
              s6 = upd_obj r (\<lambda>q. q\<lparr>num_computed_tokens := num_computed_tokens q + n, status := RUNNING\<rparr>) s5
          in (Inr (True, v\<lparr>lv_sched := lv_sched v @ [item], lv_budget := lv_budget v - n\<rparr>), s6))))"
  proof (rule moved_andthen)
    fix u t assume "queues t = queues s"
    from queues_mem [OF this assms] show "moved t (snd (let (item, s5) = prepare_prefill_task r n (dequeue r t);
              s6 = upd_obj r (\<lambda>q. q\<lparr>num_computed_tokens := num_computed_tokens q + n, status := RUNNING\<rparr>) s5
          in (Inr (True, v\<lparr>lv_sched := lv_sched v @ [item], lv_budget := lv_budget v - n\<rparr>), s6)))"
      unfolding Let_def split_beta snd_conv by (rule tail)
  qed simp
  then show ?thesis by (simp add: resume_tail_def moved_same)
qed

lemma moved_resume:
  assumes "r \<in> set (waiting s)"
  shows "moved s (snd (resume_preempted IB r v s))"
proof -
  let ?s0 = "upd_obj r (\<lambda>q. q\<lparr>need_prefill_tokens := num_total_tokens q\<rparr>) s"
  have w: "r \<in> set (waiting ?s0)" using assms by simp
  have "moved ?s0 (snd (resume_preempted IB r v s))"
    unfolding resume_preempted_eq
    by (rule moved_andthen [OF queues_num_tokens], rule moved_andthen [OF queues_block_nums], rule moved_resume_tail)
      (metis queues_mem w)
  then show ?thesis by (simp add: moved_def)
qed

lemma refs_round:
  assumes "refs_ok s" "waiting s \<noteq> []"
  shows "refs_ok (snd (schedule_waiting H IB now v s))"
proof -
  have hd: "hd (waiting s) \<in> set (waiting s)" using assms(2) by simp
  have np: "\<not> enable_prefix_cache s" using assms(1) by (simp add: refs_ok_def)
  have "moved s (snd (schedule_waiting H IB now v s))"
    using moved_start [OF np hd] moved_resume [OF hd]
    by (auto simp: schedule_waiting_def Let_def moved_same split: RequestStatus.split)
  then show ?thesis
    using refs_fixed [OF assms(1) fixed_round [of H IB now v s]] by (simp add: moved_def)
qed

lemma account_waiting_loop:
  "refs_ok s \<Longrightarrow> account1 (snd (waiting_loop H IB now v s)) = account1 s \<and> refs_ok (snd (waiting_loop H IB now v s))"
proof (induction H IB now v s rule: waiting_loop.induct)
  case (1 H IB now v s)
  show ?case
  proof (cases "waiting s \<noteq> [] \<and> lv_budget v > 0")
    case False
    then show ?thesis using 1(2) by (subst (1 2) waiting_loop.simps) auto
  next
    case True
    obtain x t where st: "schedule_waiting H IB now v s = (x, t)" by fastforce
    have a: "account1 t = account1 s" using account_round [OF 1(2), of H IB now v] True st by simp
    have rt: "refs_ok t" using refs_round [OF 1(2), of H IB now v] True st by simp
    show ?thesis
    proof (cases x)
      case (Inl e)
      then show ?thesis using True st a rt by (subst (1 2) waiting_loop.simps) simp
    next
      case (Inr gv)
      obtain go v1 where gv: "gv = (go, v1)" by (cases gv)
      show ?thesis
      proof (cases go)
        case go: True
        show ?thesis
          using 1(1) [OF True st [symmetric] Inr gv [symmetric] go rt] True st Inr gv go a
          by (subst (1 2) waiting_loop.simps) simp
      next
        case False
        then show ?thesis using True st Inr gv a rt by (subst (1 2) waiting_loop.simps) simp
      qed
    qed
  qed
qed

lemma account_schedule:
  assumes "refs_ok s"
  shows "account1 (snd (schedule H IB now s)) = account1 s \<and> refs_ok (snd (schedule H IB now s))"
proof -
  let ?v0 = "\<lparr>lv_budget = max_num_batched_tokens (config s), lv_sched = [], lv_preempted = []\<rparr>"
  obtain x s1 where r: "running_loop H IB now 0 ?v0 s = (x, s1)" by fastforce
  have 1: "account1 s1 = account1 s" "refs_ok s1" using account_running_loop [OF assms, of H IB now 0 ?v0] r by simp_all
  show ?thesis
  proof (cases x)
    case (Inl e)
    then show ?thesis using r 1 by (simp add: schedule_def)
  next
    case (Inr v)
    obtain y s2 where w: "waiting_loop H IB now v s1 = (y, s2)" by fastforce
    have 2: "account1 s2 = account1 s1" "refs_ok s2" using account_waiting_loop [OF 1(2), of H IB now v] w by simp_all
    show ?thesis using Inr r w 1 2 by (cases y) (auto simp: schedule_def)
  qed
qed

end
