(* ===== verification/SchedulerV1Tidy.thy ===== *)
theory SchedulerV1Tidy
  imports SchedulerV1Blocks
begin

text \<open>
  Which requests hold blocks: without prefix caching an object that does not run has an empty table, whatever is
  scheduled, preempted, resumed and finished, as long as ids are not used twice. The same invariant shows that the
  loops of the scheduler never meet a request they cannot handle, so that planning always returns.
\<close>

definition tidy :: "rm1 \<Rightarrow> bool" where
  "tidy s \<longleftrightarrow> \<not> enable_prefix_cache s \<and> distinct (running s @ waiting s) \<and>
     (\<forall>x \<in> set (running s) \<union> set (waiting s). requests s (request_id (obj s x)) = Some x) \<and>
     (\<forall>rid x. requests s rid = Some x \<longrightarrow> x < length (objs s) \<and> request_id (obj s x) = rid) \<and>
     (\<forall>rid \<in> to_be_rescheduled s. \<exists>x. requests s rid = Some x \<and> x \<notin> set (running s) \<union> set (waiting s) \<and>
        status (obj s x) = PREEMPTED) \<and>
     (\<forall>x \<in> set (waiting s). status (obj s x) = WAITING \<or> status (obj s x) = PREEMPTED) \<and>
     (\<forall>x < length (objs s). x \<notin> set (running s) \<longrightarrow> block_tables (obj s x) = [])"

lemma tidyD:
  assumes "tidy s"
  shows "\<not> enable_prefix_cache s" "distinct (running s)" "distinct (waiting s)" "set (running s) \<inter> set (waiting s) = {}"
    "x \<in> set (running s) \<Longrightarrow> requests s (request_id (obj s x)) = Some x"
    "x \<in> set (waiting s) \<Longrightarrow> requests s (request_id (obj s x)) = Some x"
    "requests s rid = Some x \<Longrightarrow> x < length (objs s)" "requests s rid = Some x \<Longrightarrow> request_id (obj s x) = rid"
    "rid \<in> to_be_rescheduled s \<Longrightarrow> \<exists>x. requests s rid = Some x \<and> x \<notin> set (running s) \<union> set (waiting s) \<and>
        status (obj s x) = PREEMPTED"
    "x \<in> set (waiting s) \<Longrightarrow> status (obj s x) = WAITING \<or> status (obj s x) = PREEMPTED"
    "x < length (objs s) \<Longrightarrow> x \<notin> set (running s) \<Longrightarrow> block_tables (obj s x) = []"
proof -
  note t = assms [unfolded tidy_def]
  show "\<not> enable_prefix_cache s" using t by (elim conjE)
  have "distinct (running s @ waiting s)" using t by (elim conjE)
  then show "distinct (running s)" "distinct (waiting s)" "set (running s) \<inter> set (waiting s) = {}"
    by (simp_all only: distinct_append)
  show "x \<in> set (running s) \<Longrightarrow> requests s (request_id (obj s x)) = Some x"
    "x \<in> set (waiting s) \<Longrightarrow> requests s (request_id (obj s x)) = Some x"
    using t by (elim conjE, metis UnI1 UnI2)+
  show "requests s rid = Some x \<Longrightarrow> x < length (objs s)" "requests s rid = Some x \<Longrightarrow> request_id (obj s x) = rid"
    using t by (elim conjE, metis)+
  show "rid \<in> to_be_rescheduled s \<Longrightarrow> \<exists>x. requests s rid = Some x \<and> x \<notin> set (running s) \<union> set (waiting s) \<and>
        status (obj s x) = PREEMPTED"
    using t by (elim conjE) (drule (1) bspec)
  show "x \<in> set (waiting s) \<Longrightarrow> status (obj s x) = WAITING \<or> status (obj s x) = PREEMPTED"
    using t by (elim conjE) (drule (1) bspec)
  show "x < length (objs s) \<Longrightarrow> x \<notin> set (running s) \<Longrightarrow> block_tables (obj s x) = []"
    using t by (elim conjE) metis
qed

lemma tidy_len:
  assumes "tidy s" "x \<in> set (running s) \<union> set (waiting s)"
  shows "x < length (objs s)"
  using assms tidyD(5,6,7) [OF assms(1)] by blast

lemma tidy_refs: "tidy s \<Longrightarrow> refs_ok s"
  using tidy_len [of s] tidyD(1,7) [of s] by (auto simp: refs_ok_def)

text \<open>The part of the state the invariant is about.\<close>

definition core where
  "core s = (enable_prefix_cache s, queues s, requests s, to_be_rescheduled s,
     map (\<lambda>q. (request_id q, status q, block_tables q)) (objs s))"

lemma core_nth:
  assumes "core t = core s" "x < length (objs s)"
  shows "request_id (obj t x) = request_id (obj s x)" "status (obj t x) = status (obj s x)"
    "block_tables (obj t x) = block_tables (obj s x)"
proof -
  have "map (\<lambda>q. (request_id q, status q, block_tables q)) (objs t) ! x =
    map (\<lambda>q. (request_id q, status q, block_tables q)) (objs s) ! x" "length (objs t) = length (objs s)"
    using assms(1) by (auto simp: core_def dest: arg_cong [of "map _ _" _ length])
  then show "request_id (obj t x) = request_id (obj s x)" "status (obj t x) = status (obj s x)"
    "block_tables (obj t x) = block_tables (obj s x)" using assms(2) by simp_all
qed

lemma tidy_core:
  assumes "tidy s" "core t = core s"
  shows "tidy t"
proof -
  have e: "enable_prefix_cache t = enable_prefix_cache s" "running t = running s" "waiting t = waiting s"
    "requests t = requests s" "to_be_rescheduled t = to_be_rescheduled s"
    using assms(2) by (simp_all add: core_def queues_def)
  have l: "length (objs t) = length (objs s)" using assms(2) by (auto simp: core_def dest: arg_cong [of "map _ _" _ length])
  note n = core_nth [OF assms(2)]
  note d = tidyD [OF assms(1)]
  note len = tidy_len [OF assms(1)]
  show ?thesis
    unfolding tidy_def e l
  proof (intro conjI ballI allI impI)
    fix x assume "x \<in> set (running s) \<union> set (waiting s)"
    then show "requests s (request_id (obj t x)) = Some x" using n(1) [OF len] d(5,6) by auto
  next
    fix rid assume "rid \<in> to_be_rescheduled s"
    then show "\<exists>x. requests s rid = Some x \<and> x \<notin> set (running s) \<union> set (waiting s) \<and> status (obj t x) = PREEMPTED"
      using d(9) [of rid] n(2) d(7) by metis
  qed (use n d len in \<open>auto\<close>)
qed

lemma core_upd_obj [simp]:
  "(\<And>q. request_id (f q) = request_id q \<and> status (f q) = status q \<and> block_tables (f q) = block_tables q) \<Longrightarrow>
   core (upd_obj r f s) = core s"
  unfolding core_def upd_obj_def queues_def
  by (cases "r < length (objs s)") (simp_all add: map_update list_update_same_conv list_update_beyond)

text \<open>What an operation keeps: the invariant, and it returns.\<close>

definition keeps :: "(rm1, 'a) outcome \<Rightarrow> bool" where
  "keeps x \<longleftrightarrow> tidy (snd x) \<and> fst x \<noteq> Inl NoReturn"

lemma keeps_pair [simp]: "keeps (Inr v, t) = tidy t" "keeps (Inl e, t) = (tidy t \<and> e \<noteq> NoReturn)"
  by (simp_all add: keeps_def)

lemma keeps_andthen:
  assumes "keeps x" "\<And>v t. x = (Inr v, t) \<Longrightarrow> tidy t \<Longrightarrow> keeps (k v t)"
  shows "keeps (andthen x k)"
  using assms by (cases x; cases "fst x") auto

subsection \<open>Preemption and growth\<close>

lemma tidy_preempt:
  assumes "tidy s" "running s = rs @ [p]"
    and t: "running t = rs" "waiting t = waiting s" "requests t = requests s"
      "to_be_rescheduled t = insert (request_id (obj s p)) (to_be_rescheduled s)"
      "enable_prefix_cache t = enable_prefix_cache s" "objs t = (objs s)[p := q]"
    and q: "request_id q = request_id (obj s p)" "status q = PREEMPTED" "block_tables q = []"
  shows "tidy t"
proof -
  note d = tidyD [OF assms(1)]
  have p: "p \<in> set (running s)" "p \<notin> set (waiting s)" "p \<notin> set rs" "distinct rs" "set rs \<inter> set (waiting s) = {}"
    using d(2,4) assms(2) by auto
  have len: "x < length (objs s)" if "x \<in> insert p (set rs \<union> set (waiting s))" for x
    using tidy_len [OF assms(1), of x] that assms(2) by auto
  have o: "obj t x = (if x = p then q else obj s x)" if "x < length (objs s)" for x using that by (simp add: t)
  show ?thesis
    unfolding tidy_def t(1-5)
  proof (intro conjI ballI allI impI)
    fix x assume "x \<in> set rs \<union> set (waiting s)"
    then show "requests s (request_id (obj t x)) = Some x" using o [OF len] p(2,3) d(5,6) [of x] assms(2) by auto
  next
    fix rid x assume r: "requests s rid = Some x"
    then show "x < length (objs t)" using d(7) by (simp add: t)
    show "request_id (obj t x) = rid" using o [OF d(7) [OF r]] d(8) [OF r] q(1) by (cases "x = p") simp_all
  next
    fix rid assume "rid \<in> insert (request_id (obj s p)) (to_be_rescheduled s)"
    then consider "rid = request_id (obj s p)" | "rid \<in> to_be_rescheduled s" by blast
    then show "\<exists>x. requests s rid = Some x \<and> x \<notin> set rs \<union> set (waiting s) \<and> status (obj t x) = PREEMPTED"
    proof cases
      case 1
      then show ?thesis using d(5) [OF p(1)] p(2,3) o [OF len] q(2) by auto
    next
      case 2
      then obtain x where x: "requests s rid = Some x" "x \<notin> set (running s) \<union> set (waiting s)" "status (obj s x) = PREEMPTED"
        using d(9) by blast
      then have "status (obj t x) = PREEMPTED" using o [OF d(7) [OF x(1)]] q(2) by simp
      then show ?thesis using x assms(2) by auto
    qed
  next
    fix x assume x: "x \<in> set (waiting s)"
    then have "x < length (objs s)" "x \<noteq> p" using len p(2) by auto
    then show "status (obj t x) = WAITING \<or> status (obj t x) = PREEMPTED" using d(10) [OF x] o by simp
  next
    fix x assume "x < length (objs t)" "x \<notin> set rs"
    then show "block_tables (obj t x) = []" using d(11) [of x] o [of x] q(3) assms(2) t(6) by (cases "x = p") auto
  qed (use d(1,3) p in \<open>auto\<close>)
qed

lemma keeps_preempt:
  assumes "tidy s"
  shows "keeps (preempt_last s)"
proof (cases "running s = []")
  case True
  then show ?thesis using assms by (simp add: preempt_last_def)
next
  case False
  then obtain rs p where rs: "running s = rs @ [p]" by (metis append_butlast_last_id)
  have len: "p < length (objs s)" using tidy_len [OF assms, of p] rs by simp
  have np: "\<not> enable_prefix_cache s" by (rule tidyD(1) [OF assms])
  show ?thesis
    unfolding preempt_last_def using rs np
    by (auto simp: Let_def free_blocks_def upd_obj_def keeps_def len intro!: tidy_preempt [OF assms rs])
qed

lemma keeps_trigger: "tidy s \<Longrightarrow> keeps (trigger_preempt r n pre sched s)"
proof (induction r n pre sched s rule: trigger_preempt.induct)
  case (1 r n pre sched s)
  show ?case
  proof (cases "can_allocate_gpu_blocks n (cache_manager s)")
    case True
    then show ?thesis using 1(2) by (simp add: trigger_preempt.simps)
  next
    case False
    obtain x s1 where p: "preempt_last s = (x, s1)" by fastforce
    have k: "keeps (x, s1)" using keeps_preempt [OF 1(2)] p by simp
    show ?thesis
    proof (cases x)
      case (Inl e)
      then show ?thesis using False p k by (subst trigger_preempt.simps) simp
    next
      case (Inr v)
      have "keeps (trigger_preempt r n (pre @ [v]) (sched @ [prepare_preempt_task v s1]) s1)"
        if "\<not> request_eq (obj s1 v) (obj s1 r)"
        using 1(1) [OF False p [symmetric] Inr refl refl that] k Inr by simp
      then show ?thesis using False p Inr k by (subst trigger_preempt.simps) (auto simp: Let_def)
    qed
  qed
qed

text \<open>When preemption reports success the request it was for still runs.\<close>

lemma trigger_runs:
  "trigger_preempt r n pre sched s = (Inr (True, pre', sched'), t) \<Longrightarrow> r \<in> set (running s) \<Longrightarrow> r \<in> set (running t)"
proof (induction r n pre sched s rule: trigger_preempt.induct)
  case (1 r n pre sched s)
  show ?case
  proof (cases "can_allocate_gpu_blocks n (cache_manager s)")
    case True
    then show ?thesis using 1(2,3) by (simp add: trigger_preempt.simps)
  next
    case False
    then obtain p s1 where p: "preempt_last s = (Inr p, s1)"
      using 1(2) by (subst (asm) trigger_preempt.simps) (auto split: prod.splits sum.splits)
    have neq: "\<not> request_eq (obj s1 p) (obj s1 r)"
      using 1(2) False p by (subst (asm) trigger_preempt.simps) (auto simp: Let_def split: if_splits)
    then have go: "trigger_preempt r n (pre @ [p]) (sched @ [prepare_preempt_task p s1]) s1 = (Inr (True, pre', sched'), t)"
      using 1(2) False p by (subst (asm) trigger_preempt.simps) (simp add: Let_def)
    have "r \<noteq> p" using neq by (auto simp: request_eq_def)
    then have "r \<in> set (running s1)" using running_preempt_last [OF p] 1(3) by simp
    from 1(1) [OF False p [symmetric] refl refl refl neq go this] show ?thesis .
  qed
qed

lemma tidy_grow:
  assumes "tidy s" "r \<in> set (running s)"
  shows "keeps (grow_blocks r k s)"
proof -
  have "tidy (upd_obj r (\<lambda>q. q\<lparr>block_tables := bs q\<rparr>) (s\<lparr>cache_manager := pm\<rparr>))" for bs pm
  proof -
    let ?t = "upd_obj r (\<lambda>q. q\<lparr>block_tables := bs q\<rparr>) (s\<lparr>cache_manager := pm\<rparr>)"
    have o: "request_id (obj ?t x) = request_id (obj s x) \<and> status (obj ?t x) = status (obj s x) \<and>
       (x \<noteq> r \<longrightarrow> obj ?t x = obj s x)" for x
      by (cases "r < length (objs s)"; cases "x = r") (simp_all add: upd_obj_def list_update_beyond)
    have f: "running ?t = running s" "waiting ?t = waiting s" "requests ?t = requests s"
      "to_be_rescheduled ?t = to_be_rescheduled s" "enable_prefix_cache ?t = enable_prefix_cache s"
      "length (objs ?t) = length (objs s)" by (simp_all add: upd_obj_def)
    have "block_tables (obj ?t x) = []" if "x < length (objs s)" "x \<notin> set (running s)" for x
      using o [of x] tidyD(11) [OF assms(1) that] that assms(2) by auto
    then show ?thesis using assms(1) o unfolding tidy_def f by simp
  qed
  then show ?thesis using assms(1)
    by (simp add: grow_blocks_def lift_pcm_def allocate_gpu_blocks_eq tidy_core [OF assms(1)] core_def queues_def)
qed

lemma keeps_secure:
  assumes "tidy s" "r \<in> set (running s)"
  shows "keeps (secure_blocks r k pre sched s)"
  unfolding secure_blocks_def
  by (auto intro!: keeps_andthen tidy_grow keeps_trigger assms trigger_runs split: prod.splits)

subsection \<open>Running requests\<close>

lemma core_same [simp]:
  "core (s\<lparr>cache_manager := pm\<rparr>) = core s" "core (s\<lparr>tasks_list := ts\<rparr>) = core s" "core (s\<lparr>stop_flags := fl\<rparr>) = core s"
  "core (s\<lparr>req_dict := d\<rparr>) = core s" "core (s\<lparr>real_bsz := n\<rparr>) = core s"
  by (simp_all add: core_def queues_def)

lemma keeps_core: "tidy s \<Longrightarrow> core (snd x) = core s \<Longrightarrow> fst x \<noteq> Inl NoReturn \<Longrightarrow> keeps x"
  by (simp add: keeps_def tidy_core)

lemma py_nth_returns: "py_nth xs i \<noteq> Inl NoReturn"
  by (simp add: py_nth_def)

lemma image_count_returns: "image_count idxs nums x \<noteq> Inl NoReturn"
  by (simp add: image_count_def Let_def py_nth_returns)

lemma chunk_end_returns: "chunk_end ids patch idxs a n \<noteq> Inl NoReturn"
  using py_nth_returns [of idxs "- 1"] py_nth_returns [of ids "a + n - 1"]
  by (auto simp: chunk_end_def Let_def split: sum.split)

lemma keeps_num_tokens: "tidy s \<Longrightarrow> keeps (get_num_new_tokens IB r b s)"
proof (rule keeps_core)
  assume "tidy s"
  show "core (snd (get_num_new_tokens IB r b s)) = core s"
    by (simp add: get_num_new_tokens_def mm_num_new_tokens_def Let_def split: option.split sum.split)
  show "fst (get_num_new_tokens IB r b s) \<noteq> Inl NoReturn"
    using chunk_end_returns image_count_returns
    by (auto simp: get_num_new_tokens_def mm_num_new_tokens_def Let_def split: option.split sum.split)
qed assumption

lemma keeps_block_nums: "tidy s \<Longrightarrow> keeps (get_new_block_nums r n s)"
  by (frule tidyD(1)) (simp add: get_new_block_nums_def check_and_free_block_tables_def)

lemma core_prepare [simp]: "core (snd (prepare_prefill_task r n s)) = core s"
  by (simp add: prepare_prefill_task_def Let_def)

lemma running_core: "core t = core s \<Longrightarrow> running t = running s \<and> waiting t = waiting s"
  by (simp add: core_def queues_def)

lemma keeps_decode:
  assumes "tidy s" "r \<in> set (running s)"
  shows "keeps (schedule_decode H now r v s)"
proof -
  obtain t where t: "decode_progress H now r s = (Inr (), t)" "core t = core s"
    using tidyD(1) [OF assms(1)]
    by (cases "num_total_tokens (obj s r) > need_prefill_tokens (obj s r)") (simp_all add: decode_progress_def Let_def)
  have "tidy t" "r \<in> set (running t)" using tidy_core [OF assms(1) t(2)] running_core [OF t(2)] assms(2) by simp_all
  then show ?thesis unfolding schedule_decode_def t(1)
    by (auto intro!: keeps_andthen keeps_secure split: prod.splits)
qed

lemma keeps_prefill:
  assumes "tidy s" "r \<in> set (running s)"
  shows "keeps (schedule_prefill IB r v s)"
  unfolding schedule_prefill_def
proof (rule keeps_andthen [OF keeps_num_tokens [OF assms(1)]])
  fix n s1 assume 1: "get_num_new_tokens IB r (lv_budget v) s = (Inr n, s1)" "tidy s1"
  show "keeps (andthen (get_new_block_nums r n s1) (\<lambda>k s2.
     andthen (secure_blocks r k (lv_preempted v) (lv_sched v) s2) (\<lambda>(ok, preempted, sched) s3.
       if \<not> ok then (Inr (False, v\<lparr>lv_preempted := preempted, lv_sched := sched\<rparr>), s3)
       else
         let (item, s4) = prepare_prefill_task r n s3 in
         (Inr (True, v\<lparr>lv_preempted := preempted, lv_sched := sched @ [item], lv_budget := lv_budget v - n\<rparr>),
          upd_obj r (\<lambda>q. q\<lparr>num_computed_tokens := num_computed_tokens q + n\<rparr>) s4))))"
  proof (rule keeps_andthen [OF keeps_block_nums [OF 1(2)]])
    fix k s2 assume 2: "get_new_block_nums r n s1 = (Inr k, s2)" "tidy s2"
    have "r \<in> set (running s2)" using running_frames(4) [OF 1(1)] running_frames(5) [OF 2(1)] assms(2) by simp
    from keeps_secure [OF 2(2) this] show "keeps (andthen (secure_blocks r k (lv_preempted v) (lv_sched v) s2) (\<lambda>(ok, preempted, sched) s3.
       if \<not> ok then (Inr (False, v\<lparr>lv_preempted := preempted, lv_sched := sched\<rparr>), s3)
       else
         let (item, s4) = prepare_prefill_task r n s3 in
         (Inr (True, v\<lparr>lv_preempted := preempted, lv_sched := sched @ [item], lv_budget := lv_budget v - n\<rparr>),
          upd_obj r (\<lambda>q. q\<lparr>num_computed_tokens := num_computed_tokens q + n\<rparr>) s4)))"
      by (rule keeps_andthen) (auto simp: Let_def split_beta intro: tidy_core)
  qed
qed

lemma keeps_running: "tidy s \<Longrightarrow> r \<in> set (running s) \<Longrightarrow> keeps (schedule_running H IB now r v s)"
  by (simp add: schedule_running_def keeps_decode keeps_prefill)

lemma keeps_running_loop: "tidy s \<Longrightarrow> keeps (running_loop H IB now i v s)"
proof (induction H IB now i v s rule: running_loop.induct)
  case (1 H IB now i v s)
  show ?case
  proof (cases "i < length (running s) \<and> lv_budget v > 0")
    case False
    then show ?thesis using 1(2) by (subst running_loop.simps) auto
  next
    case True
    obtain x t where st: "schedule_running H IB now (running s ! i) v s = (x, t)" by fastforce
    have k: "keeps (x, t)" using keeps_running [OF 1(2), of "running s ! i" H IB now v] True st by simp
    show ?thesis
    proof (cases x)
      case (Inl e)
      then show ?thesis using True st k by (subst running_loop.simps) simp
    next
      case (Inr gv)
      obtain go v1 where gv: "gv = (go, v1)" by (cases gv)
      show ?thesis using 1(1) [OF True st [symmetric] Inr gv [symmetric]] True st Inr gv k
        by (subst running_loop.simps) auto
    qed
  qed
qed

subsection \<open>Waiting requests\<close>

text \<open>The head of the queue gets blocks and runs.\<close>

lemma tidy_admit:
  assumes "tidy s" "waiting s = r # ws"
    and t: "running t = running s @ [r]" "waiting t = ws" "requests t = requests s"
      "to_be_rescheduled t = to_be_rescheduled s" "enable_prefix_cache t = enable_prefix_cache s"
      "objs t = (objs s)[r := q]" and q: "request_id q = request_id (obj s r)"
  shows "tidy t"
proof -
  note d = tidyD [OF assms(1)]
  have r: "r \<in> set (waiting s)" "r \<notin> set (running s)" "r \<notin> set ws" "distinct ws" "set (running s) \<inter> set ws = {}"
    using d(3,4) assms(2) by auto
  have o: "obj t x = (if x = r then q else obj s x)" if "x < length (objs s)" for x using that by (simp add: t)
  have len: "x < length (objs s)" if "x \<in> insert r (set (running s) \<union> set ws)" for x
    using tidy_len [OF assms(1), of x] that assms(2) by auto
  show ?thesis
    unfolding tidy_def t(1-5)
  proof (intro conjI ballI allI impI)
    fix x assume "x \<in> set (running s @ [r]) \<union> set ws"
    then show "requests s (request_id (obj t x)) = Some x"
      using o [OF len] d(5,6) [of x] assms(2) q by (cases "x = r") auto
  next
    fix rid x assume r: "requests s rid = Some x"
    then show "x < length (objs t)" using d(7) by (simp add: t)
    show "request_id (obj t x) = rid" using o [OF d(7) [OF r]] d(8) [OF r] q by (cases "x = r") simp_all
  next
    fix rid assume "rid \<in> to_be_rescheduled s"
    then obtain x where x: "requests s rid = Some x" "x \<notin> set (running s) \<union> set (waiting s)" "status (obj s x) = PREEMPTED"
      using d(9) by blast
    then have "status (obj t x) = PREEMPTED" using o [OF d(7) [OF x(1)]] r(1) by auto
    then show "\<exists>x. requests s rid = Some x \<and> x \<notin> set (running s @ [r]) \<union> set ws \<and> status (obj t x) = PREEMPTED"
      using x assms(2) by auto
  next
    fix x assume "x \<in> set ws"
    then show "status (obj t x) = WAITING \<or> status (obj t x) = PREEMPTED"
      using d(10) [of x] o [OF len] r(3) assms(2) by auto
  next
    fix x assume "x < length (objs t)" "x \<notin> set (running s @ [r])"
    then show "block_tables (obj t x) = []" using d(11) [of x] o [of x] by (simp add: t)
  qed (use d(1,2) r in \<open>auto\<close>)
qed

lemma grow_cases:
  "grow_blocks r k s = (Inl AssertionError, s) \<or>
   (\<exists>bs pm. grow_blocks r k s = (Inr (), upd_obj r (\<lambda>q. q\<lparr>block_tables := block_tables q @ bs\<rparr>) (s\<lparr>cache_manager := pm\<rparr>)))"
  by (auto simp: grow_blocks_def lift_pcm_def allocate_gpu_blocks_eq)

lemma keeps_take_slot: "tidy s \<Longrightarrow> keeps (take_slot r s)"
  by (erule keeps_core) (auto simp: take_slot_def Let_def get_available_position_def split: sum.split option.split)

lemma tidy_dequeue:
  assumes "tidy s" "waiting s = r # ws" "\<And>q. request_id (f q) = request_id q" "\<And>q. request_id (g q) = request_id q"
  shows "tidy (upd_obj r f (snd (prepare_prefill_task r n (dequeue r (upd_obj r g (s\<lparr>cache_manager := pm\<rparr>))))))"
proof -
  have len: "r < length (objs s)" using tidy_len [OF assms(1), of r] assms(2) by simp
  let ?t = "upd_obj r f (snd (prepare_prefill_task r n (dequeue r (upd_obj r g (s\<lparr>cache_manager := pm\<rparr>)))))"
  have o: "objs ?t = (objs s)[r := obj ?t r]" using len
    by (simp add: upd_obj_def prepare_prefill_task_def dequeue_def Let_def)
  have i: "request_id (obj ?t r) = request_id (obj s r)" using len assms(3,4)
    by (simp add: upd_obj_def prepare_prefill_task_def dequeue_def Let_def)
  show ?thesis
    by (rule tidy_admit [OF assms(1,2) _ _ _ _ _ o i])
      (simp_all add: upd_obj_def prepare_prefill_task_def dequeue_def Let_def assms(2))
qed

lemma keeps_start_tail:
  assumes "tidy s" "waiting s = r # ws"
  shows "keeps (start_tail now r v n k s)"
proof -
  let ?f = "\<lambda>q. q\<lparr>inference_start_time := Some now, num_computed_tokens := num_computed_tokens q + n, status := RUNNING\<rparr>"
  have id: "s = upd_obj r (\<lambda>q. q) (s\<lparr>cache_manager := cache_manager s\<rparr>)" by (simp add: upd_obj_def)
  have plain: "tidy (upd_obj r ?f (snd (prepare_prefill_task r n (dequeue r s))))"
    using tidy_dequeue [OF assms, of ?f "\<lambda>q. q" n "cache_manager s"] id [symmetric] by simp
  have grown: "tidy (upd_obj r ?f (snd (prepare_prefill_task r n (dequeue r
      (upd_obj r (\<lambda>q. q\<lparr>block_tables := block_tables q @ bs\<rparr>) (s\<lparr>cache_manager := pm\<rparr>))))))" for bs pm
    by (rule tidy_dequeue [OF assms]) simp_all
  have tail: "keeps (andthen (take_slot r t) (\<lambda>_ s7. (Inr (True, w), s7)))" if "tidy t" for t w
    by (rule keeps_andthen [OF keeps_take_slot [OF that]]) simp
  show ?thesis
    using grow_cases [of r k s] tail [OF plain] tail [OF grown] assms(1)
    unfolding start_tail_def Let_def split_beta by auto
qed

lemma keeps_resume_tail:
  assumes "tidy s" "waiting s = r # ws"
  shows "keeps (resume_tail r v n k s)"
proof -
  have "tidy (upd_obj r (\<lambda>q. q\<lparr>num_computed_tokens := num_computed_tokens q + n, status := RUNNING\<rparr>)
      (snd (prepare_prefill_task r n (dequeue r
      (upd_obj r (\<lambda>q. q\<lparr>block_tables := block_tables q @ bs\<rparr>) (s\<lparr>cache_manager := pm\<rparr>))))))" for bs pm
    by (rule tidy_dequeue [OF assms]) simp_all
  then show ?thesis using grow_cases [of r k s] assms(1) unfolding resume_tail_def Let_def split_beta by auto
qed

lemma keeps_counted:
  assumes "tidy s" "waiting s = r # ws" "\<And>n k u. tidy u \<Longrightarrow> waiting u = r # ws \<Longrightarrow> keeps (tail n k u)"
  shows "keeps (andthen (get_num_new_tokens IB r b s) (\<lambda>n s2. andthen (get_new_block_nums r n s2) (tail n)))"
proof (rule keeps_andthen [OF keeps_num_tokens [OF assms(1)]])
  fix n t assume t: "get_num_new_tokens IB r b s = (Inr n, t)" "tidy t"
  show "keeps (andthen (get_new_block_nums r n t) (tail n))"
  proof (rule keeps_andthen [OF keeps_block_nums [OF t(2)]])
    fix k u assume u: "get_new_block_nums r n t = (Inr k, u)" "tidy u"
    then show "keeps (tail n k u)"
      using running_frames(4) [OF t(1)] running_frames(5) [OF u(1)] assms(2,3) by simp
  qed
qed

lemma keeps_round:
  assumes "tidy s" "waiting s \<noteq> []"
  shows "keeps (schedule_waiting H IB now v s)"
proof -
  obtain r ws where w: "waiting s = r # ws" using assms(2) by (cases "waiting s") auto
  have np: "\<not> enable_prefix_cache s" by (rule tidyD(1) [OF assms(1)])
  let ?s0 = "upd_obj r (\<lambda>q. q\<lparr>need_prefill_tokens := num_total_tokens q\<rparr>) s"
  have "tidy ?s0" by (rule tidy_core [OF assms(1)]) simp
  then have resume: "keeps (resume_preempted IB r v s)"
    unfolding resume_preempted_eq by (rule keeps_counted) (simp_all add: w, rule keeps_resume_tail)
  have start: "keeps (start_waiting H IB now r v s)"
    unfolding start_waiting_eq [OF np] by (rule keeps_counted [OF assms(1) w keeps_start_tail])
  have "status (obj s r) = WAITING \<or> status (obj s r) = PREEMPTED" using tidyD(10) [OF assms(1), of r] w by simp
  then show ?thesis using start resume assms(1) by (auto simp: schedule_waiting_def Let_def w)
qed

lemma keeps_waiting_loop: "tidy s \<Longrightarrow> keeps (waiting_loop H IB now v s)"
proof (induction H IB now v s rule: waiting_loop.induct)
  case (1 H IB now v s)
  show ?case
  proof (cases "waiting s \<noteq> [] \<and> lv_budget v > 0")
    case False
    then show ?thesis using 1(2) by (subst waiting_loop.simps) auto
  next
    case True
    obtain x t where st: "schedule_waiting H IB now v s = (x, t)" by fastforce
    have k: "keeps (x, t)" using keeps_round [OF 1(2), of H IB now v] True st by simp
    show ?thesis
    proof (cases x)
      case (Inl e)
      then show ?thesis using True st k by (subst waiting_loop.simps) simp
    next
      case (Inr gv)
      obtain go v1 where gv: "gv = (go, v1)" by (cases gv)
      show ?thesis using 1(1) [OF True st [symmetric] Inr gv [symmetric]] True st Inr gv k
        by (subst waiting_loop.simps) auto
    qed
  qed
qed

lemma keeps_schedule: "tidy s \<Longrightarrow> keeps (schedule H IB now s)"
  unfolding schedule_def
  by (intro keeps_andthen keeps_running_loop) (auto intro: keeps_waiting_loop)

subsection \<open>Requests come and go\<close>

lemma tidy_add:
  assumes "tidy s" "block_tables q = []" "status q = WAITING" "requests s (request_id q) = None"
  shows "tidy (add_request q s)"
proof -
  note d = tidyD [OF assms(1)]
  have new: "length (objs s) \<notin> set (running s) \<union> set (waiting s)" using tidy_len [OF assms(1), of "length (objs s)"] by auto
  have old: "obj (add_request q s) x = obj s x" if "x < length (objs s)" for x using that by (simp add: add_request_def nth_append)
  have ids: "request_id (obj s x) \<noteq> request_id q" if "x \<in> set (running s) \<union> set (waiting s)" for x
    using d(5,6) [of x] that assms(4) by auto
  have f: "running (add_request q s) = running s" "waiting (add_request q s) = waiting s @ [length (objs s)]"
    "requests (add_request q s) = (requests s)(request_id q \<mapsto> length (objs s))"
    "to_be_rescheduled (add_request q s) = to_be_rescheduled s" "enable_prefix_cache (add_request q s) = enable_prefix_cache s"
    "objs (add_request q s) = objs s @ [q]" by (simp_all add: add_request_def)
  have mem: "x < length (objs s)" if "x \<in> set (running s) \<union> set (waiting s)" for x by (rule tidy_len [OF assms(1) that])
  show ?thesis
    unfolding tidy_def f(1-5)
  proof (intro conjI ballI allI impI)
    fix x assume "x \<in> set (running s) \<union> set (waiting s @ [length (objs s)])"
    then consider "x \<in> set (running s) \<union> set (waiting s)" | "x = length (objs s)" by auto
    then show "((requests s)(request_id q \<mapsto> length (objs s))) (request_id (obj (add_request q s) x)) = Some x"
    proof cases
      case 1
      then show ?thesis using old [OF mem] ids d(5,6) [of x] by auto
    qed (simp add: f(6))
  next
    fix rid x assume r: "((requests s)(request_id q \<mapsto> length (objs s))) rid = Some x"
    show "x < length (objs (add_request q s))" using r d(7) by (auto simp: f(6) less_Suc_eq split: if_splits)
    show "request_id (obj (add_request q s) x) = rid" using r d(7,8) old by (auto simp: f(6) split: if_splits)
  next
    fix rid assume "rid \<in> to_be_rescheduled s"
    then obtain x where x: "requests s rid = Some x" "x \<notin> set (running s) \<union> set (waiting s)" "status (obj s x) = PREEMPTED"
      using d(9) by blast
    moreover have "x < length (objs s)" using d(7) [OF x(1)] .
    ultimately show "\<exists>x. ((requests s)(request_id q \<mapsto> length (objs s))) rid = Some x \<and>
        x \<notin> set (running s) \<union> set (waiting s @ [length (objs s)]) \<and> status (obj (add_request q s) x) = PREEMPTED"
      using assms(4) old by (intro exI [of _ x]) auto
  next
    fix x assume "x \<in> set (waiting s @ [length (objs s)])"
    then show "status (obj (add_request q s) x) = WAITING \<or> status (obj (add_request q s) x) = PREEMPTED"
      using d(10) [of x] old [OF mem] assms(3) by (auto simp: f(6))
  next
    fix x assume "x < length (objs (add_request q s))" "x \<notin> set (running s)"
    then show "block_tables (obj (add_request q s) x) = []"
      using d(11) [of x] old [of x] assms(2) by (cases "x = length (objs s)") (auto simp: f(6))
  qed (use d(1-4) new in \<open>auto\<close>)
qed

text \<open>Finishing: the object of the id leaves the running requests and gives its blocks back.\<close>

lemma remove_own:
  assumes "tidy s" "requests s rid = Some r"
  shows "set xs \<subseteq> set (running s) \<union> set (waiting s) \<Longrightarrow>
    remove_eq s r xs = remove1 r xs \<and> in_queue s r xs = (r \<in> set xs)"
proof (induction xs)
  case (Cons x xs)
  have "request_eq (obj s x) (obj s r) \<longleftrightarrow> x = r"
    using tidyD(5,6,8) [OF assms(1)] assms(2) Cons.prems by (auto simp: request_eq_def)
  then show ?case using Cons by (auto simp: in_queue_def)
qed (simp add: in_queue_def)

lemma tidy_drop_running:
  assumes "tidy s" "r \<in> set (running s)"
    and t: "running t = remove1 r (running s)" "waiting t = waiting s" "requests t = requests s"
      "to_be_rescheduled t = to_be_rescheduled s" "enable_prefix_cache t = enable_prefix_cache s"
      "objs t = (objs s)[r := q]" and q: "request_id q = request_id (obj s r)" "block_tables q = []"
  shows "tidy t"
proof -
  note d = tidyD [OF assms(1)]
  have len: "x < length (objs s)" if "x \<in> set (running s) \<union> set (waiting s)" for x by (rule tidy_len [OF assms(1) that])
  have o: "obj t x = (if x = r then q else obj s x)" if "x < length (objs s)" for x using that by (simp add: t)
  have sub: "set (remove1 r (running s)) = set (running s) - {r}" using d(2) by simp
  have w: "r \<notin> set (waiting s)" using d(4) assms(2) by auto
  show ?thesis
    unfolding tidy_def t(1-5)
  proof (intro conjI ballI allI impI)
    fix x assume "x \<in> set (remove1 r (running s)) \<union> set (waiting s)"
    then show "requests s (request_id (obj t x)) = Some x" using o [OF len] d(5,6) [of x] sub w by auto
  next
    fix rid x assume r: "requests s rid = Some x"
    then show "x < length (objs t)" using d(7) by (simp add: t)
    show "request_id (obj t x) = rid" using o [OF d(7) [OF r]] d(8) [OF r] q(1) by (cases "x = r") simp_all
  next
    fix rid assume "rid \<in> to_be_rescheduled s"
    then obtain x where x: "requests s rid = Some x" "x \<notin> set (running s) \<union> set (waiting s)" "status (obj s x) = PREEMPTED"
      using d(9) by blast
    then have "status (obj t x) = PREEMPTED" using o [OF d(7) [OF x(1)]] assms(2) by auto
    then show "\<exists>x. requests s rid = Some x \<and> x \<notin> set (remove1 r (running s)) \<union> set (waiting s) \<and> status (obj t x) = PREEMPTED"
      using x sub by auto
  next
    fix x assume x: "x \<in> set (waiting s)"
    then show "status (obj t x) = WAITING \<or> status (obj t x) = PREEMPTED" using d(10) [OF x] o [OF len] w by auto
  next
    fix x assume "x < length (objs t)" "x \<notin> set (remove1 r (running s))"
    then show "block_tables (obj t x) = []" using d(11) [of x] o [of x] q(2) sub t(6) by (cases "x = r") auto
  qed (use d(1-4) sub in \<open>auto\<close>)
qed

lemma tidy_forget:
  assumes "tidy s" "requests s rid = Some r" "r \<notin> set (running s) \<union> set (waiting s)"
    and t: "running t = running s" "waiting t = waiting s" "requests t = (requests s)(rid := None)"
      "to_be_rescheduled t = to_be_rescheduled s - {rid}" "enable_prefix_cache t = enable_prefix_cache s" "objs t = objs s"
  shows "tidy t"
proof -
  note d = tidyD [OF assms(1)]
  have "request_id (obj s x) \<noteq> rid" if "x \<in> set (running s) \<union> set (waiting s)" for x
    using that d(5,6) [of x] assms(2,3) by auto
  then show ?thesis using d assms(2) unfolding tidy_def t by (auto; metis)
qed

lemma tidy_unlist:
  assumes "tidy s" "to_be_rescheduled t = to_be_rescheduled s - A" "t = s\<lparr>to_be_rescheduled := to_be_rescheduled t\<rparr>"
  shows "tidy t"
  using assms(1,2) by (subst assms(3)) (auto simp: tidy_def)

lemma tidy_finish_one:
  assumes "tidy s" "requests s rid = Some r"
  shows "tidy (snd (finish_one rid r s))"
proof -
  note d = tidyD [OF assms(1)]
  have id: "request_id (obj s r) = rid" by (rule d(8) [OF assms(2)])
  have len: "r < length (objs s)" by (rule d(7) [OF assms(2)])
  have rest: "tidy (snd (let s2 = t\<lparr>to_be_rescheduled := to_be_rescheduled t - {request_id (obj t r)}\<rparr> in
     if in_queue s2 r (waiting s2) then (Inl RuntimeError, s2)
     else case idx (obj s2 r) of
            None \<Rightarrow> (Inl TypeError, s2)
          | Some p \<Rightarrow>
              if p \<ge> length (tasks_list s2) then (Inl IndexError, s2)
              else (Inr (), s2\<lparr>tasks_list := (tasks_list s2)[p := None], stop_flags := (stop_flags s2)[p := True],
                               requests := (requests s2)(rid := None)\<rparr>)))"
    if t: "tidy t" "requests t rid = Some r" "r \<notin> set (running t)" for t
  proof -
    let ?s2 = "t\<lparr>to_be_rescheduled := to_be_rescheduled t - {request_id (obj t r)}\<rparr>"
    have s2: "tidy ?s2" by (rule tidy_unlist [OF t(1)]) simp_all
    have i: "request_id (obj t r) = rid" by (rule tidyD(8) [OF t(1,2)])
    have q: "in_queue ?s2 r (waiting ?s2) = (r \<in> set (waiting t))" using remove_own [OF s2, of rid r "waiting ?s2"] t(2) by simp
    have "tidy (t\<lparr>to_be_rescheduled := to_be_rescheduled t - {rid}, tasks_list := ts, stop_flags := fl,
        requests := (requests t)(rid := None)\<rparr>)" if "r \<notin> set (waiting t)" for ts fl
      by (rule tidy_forget [OF t(1,2)]) (use t(3) that in simp_all)
    then show ?thesis using s2 q by (auto simp: Let_def i split: option.split)
  qed
  show ?thesis
  proof (cases "r \<in> set (running s)")
    case True
    let ?s1 = "upd_obj r (\<lambda>q. (q\<lparr>status := FINISHED\<rparr>)\<lparr>block_tables := []\<rparr>)
      (s\<lparr>running := remove1 r (running s), cache_manager := recycle_gpu_blocks (block_tables (obj s r)) (cache_manager s)\<rparr>)"
    have f: "free_blocks r (upd_obj r (status_update (\<lambda>_. FINISHED)) (s\<lparr>running := remove_eq s r (running s)\<rparr>)) = (Inr (), ?s1)"
      using remove_own [OF assms, of "running s"] d(1) len by (simp add: free_blocks_def Let_def upd_obj_def)
    have "tidy ?s1" by (rule tidy_drop_running [OF assms(1) True, where q = "(obj s r)\<lparr>status := FINISHED, block_tables := []\<rparr>"])
      (simp_all add: upd_obj_def len)
    from rest [OF this] show ?thesis
      using remove_own [OF assms, of "running s"] True f assms(2) d(2) unfolding finish_one_def by (simp add: upd_obj_def)
  next
    case False
    then show ?thesis using rest [OF assms False] remove_own [OF assms, of "running s"] unfolding finish_one_def by simp
  qed
qed

lemma tidy_finish: "tidy s \<Longrightarrow> tidy (snd (finish_loop rids s))"
proof (induction rids arbitrary: s)
  case (Cons rid rids)
  show ?case
  proof (cases "requests s rid")
    case None
    then show ?thesis using Cons by simp
  next
    case (Some r)
    obtain x t where f: "finish_one rid r s = (x, t)" by fastforce
    show ?thesis using Cons.IH [of t] tidy_finish_one [OF Cons.prems Some] f Some by (cases x) simp_all
  qed
qed simp

lemma tidy_resume: 
  assumes "tidy s"
  shows "tidy (reschedule_preempt_task rid s)"
proof (cases "rid \<in> to_be_rescheduled s")
  case True
  note d = tidyD [OF assms]
  from d(9) [OF True] obtain r where r: "requests s rid = Some r" "r \<notin> set (running s) \<union> set (waiting s)"
    "status (obj s r) = PREEMPTED" by blast
  have other: "requests s a \<noteq> Some r" if "a \<noteq> rid" for a using d(8) [of a r] d(8) [OF r(1)] that by auto
  have "tidy (s\<lparr>waiting := r # waiting s, to_be_rescheduled := to_be_rescheduled s - {rid}\<rparr>)"
    using d r other d(8) [OF r(1)] unfolding tidy_def by (auto; metis)
  then show ?thesis using True r by (simp add: reschedule_preempt_task_def)
qed (use assms in \<open>simp add: reschedule_preempt_task_def\<close>)

subsection \<open>Where the blocks are\<close>

definition running_blocks :: "rm1 \<Rightarrow> block_id multiset" where
  "running_blocks s = sum_list (map (\<lambda>r. mset (block_tables (obj s r))) (running s))"

lemma tidy_blocks:
  assumes "tidy s"
  shows "obj_blocks (objs s) = running_blocks s"
proof -
  let ?f = "\<lambda>r. mset (block_tables (obj s r))"
  have "obj_blocks (objs s) = sum_list (map ?f [0..<length (objs s)])"
    unfolding obj_blocks_def by (rule arg_cong [of _ _ sum_list], rule nth_equalityI) simp_all
  also have "\<dots> = sum ?f {0..<length (objs s)}" by (simp add: sum_list_distinct_conv_sum_set)
  also have "\<dots> = sum ?f (set (running s))"
    using tidy_len [OF assms] tidyD(11) [OF assms] by (intro sum.mono_neutral_right) auto
  also have "\<dots> = running_blocks s"
    using tidyD(2) [OF assms] by (simp add: running_blocks_def sum_list_distinct_conv_sum_set)
  finally show ?thesis .
qed

lemma tidy_write:
  "tidy s \<Longrightarrow> (\<And>q. request_id (f q) = request_id q \<and> status (f q) = status q \<and> block_tables (f q) = block_tables q) \<Longrightarrow>
   tidy (upd_obj r f s)"
  by (erule tidy_core) simp

end
