(* ===== verification/SchedulerV1Claims.thy ===== *)
theory SchedulerV1Claims
  imports SchedulerV1Tidy
begin

text \<open>
  The properties of the second scheduler, over the states its operations reach.
\<close>

subsection \<open>Reachable states\<close>

lemma account_upd_status [simp]: "account1 (upd_obj r (status_update f) s) = account1 s"
  by (simp add: account_upd_obj)

lemma remove_eq_subset: "set (remove_eq s r xs) \<subseteq> set xs"
  by (induction xs) auto

lemma refs_running_subset: "refs_ok s \<Longrightarrow> set xs \<subseteq> set (running s) \<Longrightarrow> refs_ok (s\<lparr>running := xs\<rparr>)"
  by (auto simp: refs_ok_def)

lemma refs_upd_obj [simp]: "refs_ok (upd_obj r f s) = refs_ok s"
  by (simp add: refs_ok_def upd_obj_def)

lemma finish_one_ok:
  assumes ok: "refs_ok s" and r: "requests s rid = Some r"
  shows "account1 (snd (finish_one rid r s)) = account1 s \<and> refs_ok (snd (finish_one rid r s))"
proof -
  let ?s0 = "upd_obj r (status_update (\<lambda>_. FINISHED)) (s\<lparr>running := remove_eq s r (running s)\<rparr>)"
  have r0: "refs_ok ?s0" using refs_running_subset [OF ok remove_eq_subset] by simp
  have len: "r < length (objs ?s0)" using ok r by (auto simp: refs_ok_def upd_obj_def)
  have np: "\<not> enable_prefix_cache ?s0" using r0 by (simp add: refs_ok_def)
  obtain s1 where f: "free_blocks r ?s0 = (Inr (), s1)"
    using np by (auto simp: free_blocks_def Let_def)
  have a1: "account1 s1 = account1 s" using account_free_blocks [OF np len] f by (simp add: account_upd_obj)
  have "queues s1 = queues ?s0" using running_free_blocks [of r ?s0] f by (simp add: queues_def)
  then have r1: "refs_ok s1" using refs_fixed [OF r0, of s1] fixed_free_blocks [of r ?s0] f by (simp add: queues_def)
  have rest: "account1 (snd (let s2 = t\<lparr>to_be_rescheduled := to_be_rescheduled t - {request_id (obj t r)}\<rparr> in
     if in_queue s2 r (waiting s2) then (Inl RuntimeError, s2)
     else case idx (obj s2 r) of
            None \<Rightarrow> (Inl TypeError, s2)
          | Some p \<Rightarrow>
              if p \<ge> length (tasks_list s2) then (Inl IndexError, s2)
              else (Inr (), s2\<lparr>tasks_list := (tasks_list s2)[p := None], stop_flags := (stop_flags s2)[p := True],
                               requests := (requests s2)(rid := None)\<rparr>))) = account1 t \<and>
     refs_ok (snd (let s2 = t\<lparr>to_be_rescheduled := to_be_rescheduled t - {request_id (obj t r)}\<rparr> in
     if in_queue s2 r (waiting s2) then (Inl RuntimeError, s2)
     else case idx (obj s2 r) of
            None \<Rightarrow> (Inl TypeError, s2)
          | Some p \<Rightarrow>
              if p \<ge> length (tasks_list s2) then (Inl IndexError, s2)
              else (Inr (), s2\<lparr>tasks_list := (tasks_list s2)[p := None], stop_flags := (stop_flags s2)[p := True],
                               requests := (requests s2)(rid := None)\<rparr>)))" if "refs_ok t" for t
    using that by (auto simp: Let_def refs_ok_def split: option.split)
  show ?thesis
  proof (cases "in_queue s r (running s)")
    case True
    then show ?thesis unfolding finish_one_def using f rest [OF r1] a1 by simp
  next
    case False
    then show ?thesis unfolding finish_one_def using rest [OF ok] by simp
  qed
qed

lemma finish_loop_ok:
  "refs_ok s \<Longrightarrow> account1 (snd (finish_loop rids s)) = account1 s \<and> refs_ok (snd (finish_loop rids s))"
proof (induction rids arbitrary: s)
  case Nil
  then show ?case by simp
next
  case (Cons rid rids)
  show ?case
  proof (cases "requests s rid")
    case None
    then show ?thesis using Cons by simp
  next
    case (Some r)
    obtain x t where f: "finish_one rid r s = (x, t)" by fastforce
    note ok = finish_one_ok [OF Cons.prems Some]
    show ?thesis using Cons.IH [of t] ok f Some by (cases x) simp_all
  qed
qed

text \<open>
  The engine: requests are added under ids not in use, scheduled, come back after preemption, and finish; others
  write to a request whatever they like but its id, status and block table, as the token processor does with new
  tokens.
\<close>

inductive v1_reachable :: "cache_config \<Rightarrow> v1_config \<Rightarrow> nat \<Rightarrow> nat \<Rightarrow> nat \<Rightarrow> rm1 \<Rightarrow> bool" for c v n gpu cpu where
  v1_init: "v1_reachable c v n gpu cpu (init_rm1 c v n False (init_pcm gpu cpu False))"
| v1_add: "v1_reachable c v n gpu cpu s \<Longrightarrow> block_tables q = [] \<Longrightarrow> status q = WAITING \<Longrightarrow>
    requests s (request_id q) = None \<Longrightarrow> v1_reachable c v n gpu cpu (add_request q s)"
| v1_schedule: "v1_reachable c v n gpu cpu s \<Longrightarrow> v1_reachable c v n gpu cpu (snd (schedule H IB now s))"
| v1_write: "v1_reachable c v n gpu cpu s \<Longrightarrow>
    (\<And>q. request_id (f q) = request_id q \<and> status (f q) = status q \<and> block_tables (f q) = block_tables q) \<Longrightarrow>
    v1_reachable c v n gpu cpu (upd_obj r f s)"
| v1_resume: "v1_reachable c v n gpu cpu s \<Longrightarrow> v1_reachable c v n gpu cpu (reschedule_preempt_task rid s)"
| v1_finish: "v1_reachable c v n gpu cpu s \<Longrightarrow> v1_reachable c v n gpu cpu (finish_requests rids s)"
| v1_bsz: "v1_reachable c v n gpu cpu s \<Longrightarrow> v1_reachable c v n gpu cpu (snd (get_real_bsz s))"

lemma obj_blocks_append: "obj_blocks (os @ [q]) = obj_blocks os + mset (block_tables q)"
  by (simp add: obj_blocks_def)

lemma v1_reachable_ok:
  assumes "v1_reachable c v n gpu cpu s"
  shows "refs_ok s \<and> account1 s = mset (map int [0..<gpu])"
  using assms
proof (induction rule: v1_reachable.induct)
  case v1_init
  show ?case
    by (simp add: refs_ok_def account1_def obj_blocks_def init_rm1_def init_rm_def rm.defs init_pcm_def heapify_def)
next
  case (v1_add s q)
  then show ?case
    by (auto simp: refs_ok_def account1_def add_request_def obj_blocks_append less_Suc_eq split: if_splits)
next
  case (v1_schedule s H IB now)
  then show ?case using account_schedule [of s H IB now] by simp
next
  case (v1_write s f r)
  then show ?case by (simp add: account_upd_obj)
next
  case (v1_resume s rid)
  then show ?case
    by (auto simp: refs_ok_def account1_def reschedule_preempt_task_def split: option.split)
next
  case (v1_finish s rids)
  then show ?case using finish_loop_ok [of s rids] by (simp add: finish_requests_def)
next
  case (v1_bsz s)
  then show ?case by (simp add: get_real_bsz_def Let_def refs_ok_def account1_def)
qed

lemma v1_reachable_tidy:
  assumes "v1_reachable c v n gpu cpu s"
  shows "tidy s"
  using assms
proof (induction rule: v1_reachable.induct)
  case v1_init
  show ?case by (simp add: tidy_def init_rm1_def init_rm_def rm.defs)
next
  case (v1_add s q)
  then show ?case by (intro tidy_add)
next
  case (v1_schedule s H IB now)
  then show ?case using keeps_schedule [of s H IB now] by (simp add: keeps_def)
next
  case (v1_write s f r)
  show ?case by (rule tidy_write [OF v1_write.IH]) (rule v1_write.hyps)
next
  case (v1_resume s rid)
  then show ?case by (intro tidy_resume)
next
  case (v1_finish s rids)
  then show ?case by (simp add: finish_requests_def tidy_finish)
next
  case (v1_bsz s)
  show ?case by (rule tidy_core [OF v1_bsz.IH]) (simp add: get_real_bsz_def Let_def)
qed

subsection \<open>What a call of the scheduler promises\<close>

text \<open>C10: without prefix caching, whatever requests are added (waiting, without blocks, under ids not in use), scheduled,
  preempted, resumed, given tokens and finished, every cache block is either free or in the block table of exactly one running
  request: a preempted, waiting or finished request holds none.\<close>

theorem scheduler_blocks_conserved:
  assumes "v1_reachable c v n gpu cpu s"
  shows "mset (gpu_free_block_list (cache_manager s)) + running_blocks s = mset (map int [0..<gpu])"
  using v1_reachable_ok [OF assms] tidy_blocks [OF v1_reachable_tidy [OF assms]] by (simp add: account1_def)

abbreviation (input) no_images :: img_boundaries where
  "no_images \<equiv> \<lambda>ids grid patch. ([], [])"

abbreviation (input) cfg2 :: cache_config where
  "cfg2 \<equiv> \<lparr>block_size = 2, dec_token_num = 4, max_block_num_per_seq = 0\<rparr>"

abbreviation (input) v1cfg2 :: v1_config where
  "v1cfg2 \<equiv> \<lparr>max_num_batched_tokens = 8, enc_dec_block_num = 2, prealloc_dec_block_slot_num_threshold = 1, enable_mm = False\<rparr>"

abbreviation (input) req4 :: "req_id \<Rightarrow> Request" where
  "req4 r \<equiv> new_Request r [1, 2, 3, 4] 4 None None"

text \<open>One request of four tokens, prefilled in an engine with three blocks and one slot.\<close>

abbreviation (input) prefilled :: rm1 where
  "prefilled \<equiv> snd (schedule sum_list no_images 0
     (add_request (req4 ''a'') (init_rm1 cfg2 v1cfg2 1 False (init_pcm 3 0 False))))"

lemma prefilled_reachable: "v1_reachable cfg2 v1cfg2 1 3 0 prefilled"
  by (intro v1_schedule v1_add v1_init) (simp_all add: new_Request_def init_rm1_def init_rm_def rm.defs)

theorem scheduler_blocks_conserved_witness:
  "mset (gpu_free_block_list (cache_manager prefilled)) + running_blocks prefilled = {#0, 1, 2#}"
  using scheduler_blocks_conserved [OF prefilled_reachable] by (simp add: upt_rec)

text \<open>C11: a call that returns moves the queues in order: either it cuts requests off the end of the running ones and admits
  none, or it admits a front part of the waiting queue behind the running ones, in order, and never beyond the
  batch size.\<close>

theorem schedule_in_order:
  assumes "schedule H IB now s = (Inr items, s')"
  shows "(\<exists>lost. lost \<noteq> [] \<and> running s = running s' @ lost \<and> waiting s' = waiting s) \<or>
    (\<exists>k. running s' = running s @ take k (waiting s) \<and> waiting s' = drop k (waiting s) \<and>
       (length (running s) \<le> max_num_seqs s \<longrightarrow> length (running s') \<le> max_num_seqs s))"
  by (rule schedule_order [OF assms])

abbreviation (input) two_waiting :: rm1 where
  "two_waiting \<equiv> add_request (req4 ''b'') (add_request (req4 ''a'') (init_rm1 cfg2 v1cfg2 1 False (init_pcm 3 0 False)))"

theorem schedule_in_order_witness:
  "running (snd (schedule sum_list no_images 0 two_waiting)) = [0] \<and>
   (\<exists>k. [0] = running two_waiting @ take k (waiting two_waiting))"
proof -
  have "fst (schedule sum_list no_images 0 two_waiting) = Inr [PrefillTask 0 0 4]" by code_simp
  then have r: "schedule sum_list no_images 0 two_waiting = (Inr [PrefillTask 0 0 4], snd (schedule sum_list no_images 0 two_waiting))"
    by (metis prod.collapse)
  have q: "running (snd (schedule sum_list no_images 0 two_waiting)) = [0]" "running two_waiting = []" by code_simp+
  show ?thesis using schedule_in_order [OF r] unfolding q by auto
qed

text \<open>C12: for text requests the tasks of one call stay within the token budget: the prefill ranges and one token for each
  decoding request add up to at most \<open>max_num_batched_tokens\<close>.\<close>

theorem schedule_token_budget:
  assumes "schedule H IB now s = (Inr items, s')" "\<not> enable_mm (config s)" "0 \<le> max_num_batched_tokens (config s)"
  shows "sum_list (map item_tokens items) \<le> max_num_batched_tokens (config s)"
  using schedule_within [OF assms] by (simp add: spent_def)

theorem schedule_token_budget_witness:
  "sum_list (map item_tokens [PrefillTask 0 0 4]) \<le> (8 :: int)"
proof -
  have "fst (schedule sum_list no_images 0 two_waiting) = Inr [PrefillTask 0 0 4]" by code_simp
  then have r: "schedule sum_list no_images 0 two_waiting = (Inr [PrefillTask 0 0 4], snd (schedule sum_list no_images 0 two_waiting))"
    by (metis prod.collapse)
  have "config two_waiting = v1cfg2" by (simp add: add_request_def init_rm1_def rm.defs)
  then show ?thesis using schedule_token_budget [OF r] by simp
qed

subsection \<open>Preemption\<close>

lemma preempt_last_returns:
  assumes "running s \<noteq> []" "\<forall>q \<in> set (running s). q < length (objs s)"
  shows "\<exists>s'. preempt_last s = (Inr (last (running s)), s')"
  using assms by (auto simp: preempt_last_def free_blocks_def upd_obj_def Let_def)

lemma trigger_returns:
  "r \<in> set (running s) \<Longrightarrow> \<forall>q \<in> set (running s). q < length (objs s) \<Longrightarrow>
   \<exists>ok pre' sched' s'. trigger_preempt r n pre sched s = (Inr (ok, pre', sched'), s') \<and>
     (ok \<longrightarrow> can_allocate_gpu_blocks n (cache_manager s') \<and> r \<in> set (running s'))"
proof (induction r n pre sched s rule: trigger_preempt.induct)
  case (1 r n pre sched s)
  show ?case
  proof (cases "can_allocate_gpu_blocks n (cache_manager s)")
    case True
    then show ?thesis using 1(2) by (auto simp: trigger_preempt.simps)
  next
    case False
    obtain s1 where p: "preempt_last s = (Inr (last (running s)), s1)"
      using preempt_last_returns [of s] 1(2,3) by force
    have q: "running s = running s1 @ [last (running s)]" using running_preempt_last [OF p] by simp
    have len: "length (objs s1) = length (objs s)" using fixed_fields(5) [OF fixed_preempt_last] p by (metis snd_conv)
    show ?thesis
    proof (cases "request_eq (obj s1 (last (running s))) (obj s1 r)")
      case True
      then show ?thesis using False p by (subst trigger_preempt.simps) (auto simp: Let_def)
    next
      case neq: False
      then have "last (running s) \<noteq> r" by (auto simp: request_eq_def)
      then have "r \<in> set (running s1)" using 1(2) q by (metis UnE empty_iff empty_set insert_iff list.simps(15) set_append)
      moreover have "\<forall>q \<in> set (running s1). q < length (objs s1)" using 1(3) q len by (metis Un_iff set_append)
      ultimately show ?thesis
        using 1(1) [OF False p [symmetric] refl refl refl neq] False p neq
        by (subst trigger_preempt.simps) (simp add: Let_def)
    qed
  qed
qed

text \<open>C29: preemption for a running request ends without an exception, with or without prefix caching. It takes requests off
  the end of the running ones only; and when it reports success, the blocks asked for are there and the
  request itself is still running.\<close>

theorem preemption_returns:
  assumes "r \<in> set (running s)" "\<forall>q \<in> set (running s). q < length (objs s)"
  shows "\<exists>ok new sched' s'. trigger_preempt r n pre sched s = (Inr (ok, pre @ new, sched'), s') \<and>
    running s = running s' @ rev new \<and> waiting s' = waiting s \<and>
    (ok \<longrightarrow> can_allocate_gpu_blocks n (cache_manager s') \<and> r \<in> set (running s'))"
proof -
  obtain ok pre' sched' s' where t: "trigger_preempt r n pre sched s = (Inr (ok, pre', sched'), s')"
    and ok: "ok \<longrightarrow> can_allocate_gpu_blocks n (cache_manager s') \<and> r \<in> set (running s')"
    using trigger_returns [OF assms] by blast
  from trigger_victims [OF t] obtain new where "pre' = pre @ new" "running s = running s' @ rev new" "waiting s' = waiting s"
    by (auto simp: victims_def)
  with t ok show ?thesis by blast
qed

theorem preemption_returns_witness:
  "\<exists>ok new sched' s'. trigger_preempt 0 2 [] [] prefilled = (Inr (ok, new, sched'), s')"
proof -
  have "running prefilled = [0]" "length (objs prefilled) = 1" by code_simp+
  then have "0 \<in> set (running prefilled)" "\<forall>q \<in> set (running prefilled). q < length (objs prefilled)" by simp_all
  from preemption_returns [OF this, of 2 "[]" "[]"] show ?thesis by (metis append_Nil)
qed

end
