(* ===== verification/SchedulerV1Faults.thy ===== *)
theory SchedulerV1Faults
  imports SchedulerV1Claims
begin

text \<open>
  Two behaviours of preemption in the second scheduler that its callers do not expect, each shown on a run from
  the initial state: a victim keeps its slot, and with prefix caching its cached blocks become free while the
  radix tree still offers them.
\<close>

abbreviation (input) run_schedule :: "rm1 \<Rightarrow> rm1" where
  "run_schedule s \<equiv> snd (schedule sum_list no_images 0 s)"

subsection \<open>The slot of a victim\<close>

text \<open>With one slot, a preempted request keeps the slot although it no longer runs: the next request is moved from the
  waiting queue to the running one and then the scheduler raises the error that no slot is available.\<close>

theorem victim_keeps_slot:
  "let s = run_schedule (run_schedule (add_request (req4 ''a'') (init_rm1 cfg2 v1cfg2 1 False (init_pcm 3 0 False))));
       t = add_request (req4 ''b'') s
   in running s = [] \<and> stop_flags s = [False] \<and>
      fst (schedule sum_list no_images 0 t) = Inl RuntimeError \<and>
      waiting (run_schedule t) = [] \<and> running (run_schedule t) = [1]"
  by code_simp

subsection \<open>The cached blocks of a victim\<close>

text \<open>A request of four tokens whose prompt is cached, and which is then preempted with five tokens of output.\<close>

abbreviation (input) cached_victim :: rm1 where
  "cached_victim \<equiv> run_schedule (upd_obj 0 (\<lambda>q. q\<lparr>output_token_ids := [7, 8, 9, 10, 11]\<rparr>)
     (run_schedule (run_schedule (add_request (req4 ''a'') (init_rm1 cfg2 v1cfg2 1 True (init_pcm 4 0 True))))))"

lemma release_walk_shape: "map shape (nodes (snd (release_walk fuel req r s))) = map shape (nodes s)"
proof (induction fuel req r s rule: release_walk.induct)
  case (2 fuel req r s)
  let ?f = "\<lambda>n. decrement_shared_count (n\<lparr>req_id_set := req_id_set n - {req}\<rparr>)"
  have "map shape (nodes (upd_node r ?f s)) = map shape (nodes s)"
    by (cases "r < length (nodes s)")
      (simp_all add: upd_node_def map_update shape_def decrement_shared_count_def list_update_same_conv list_update_beyond)
  then show ?case using 2 by (auto simp: Let_def split: option.split)
qed simp

lemma drop_leaf_nodes: "nodes (snd (drop_leaf_req leaf req s)) = nodes s"
  by (simp add: drop_leaf_req_def split: option.split)

lemma release_shape: "map shape (nodes (snd (release_block_ids req s))) = map shape (nodes s)"
proof (cases "req_leaf_map s req")
  case (Some leaf)
  obtain x s1 where d: "drop_leaf_req leaf req (s\<lparr>req_leaf_map := (req_leaf_map s)(req := None)\<rparr>) = (x, s1)" by fastforce
  have n1: "nodes s1 = nodes s" using drop_leaf_nodes [of leaf req "s\<lparr>req_leaf_map := (req_leaf_map s)(req := None)\<rparr>"] d by simp
  obtain y s2 where w: "release_walk (Suc (length (nodes s1))) req leaf s1 = (y, s2)" by fastforce
  have n2: "map shape (nodes s2) = map shape (nodes s)"
    using release_walk_shape [of "Suc (length (nodes s1))" req leaf s1] w n1 by simp
  show ?thesis using Some d w n1 n2
    by (cases x; cases y)
      (simp_all add: release_block_ids_def Let_def push_gpu_lru_def recycle_gpu_blocks_def block_simps del: release_walk.simps)
qed (simp add: release_block_ids_def)

text \<open>C39: with prefix caching, a preemption puts every block of its victim, those of the cached prompt included, into the
  free list, because it has reset the number of prefill blocks before; the radix tree stays as it is and goes on offering the blocks
  its nodes hold. So a block of the victim that a node holds is free and cached at once.\<close>

theorem preemption_frees_cached_blocks:
  assumes "enable_prefix_cache s" "\<forall>q \<in> set (running s). q < length (objs s)" "preempt_last s = (Inr p, s')"
  shows "set (block_tables (obj s p)) \<subseteq> set (gpu_free_block_list (cache_manager s')) \<and>
    length (nodes (cache_manager s')) = length (nodes (cache_manager s)) \<and>
    (\<forall>k < length (nodes (cache_manager s)). children (nodes (cache_manager s') ! k) = children (nodes (cache_manager s) ! k) \<and>
       block_id (nodes (cache_manager s') ! k) = block_id (nodes (cache_manager s) ! k) \<and>
       cache_status (nodes (cache_manager s') ! k) = cache_status (nodes (cache_manager s) ! k))"
proof -
  have ne: "running s \<noteq> []" using assms(3) by (auto simp: preempt_last_def)
  then have len: "last (running s) < length (objs s)" using assms(2) by simp
  have p: "p = last (running s)" "cache_manager s' =
      recycle_gpu_blocks (block_tables (obj s p)) (snd (release_block_ids (request_id (obj s p)) (cache_manager s)))"
    using assms(1,3) ne len by (auto simp: preempt_last_def free_blocks_def Let_def upd_obj_def py_drop_def)
  let ?r = "snd (release_block_ids (request_id (obj s p)) (cache_manager s))"
  have n: "nodes (cache_manager s') = nodes ?r" unfolding p(2) by (simp add: recycle_gpu_blocks_def block_simps)
  have f: "mset (gpu_free_block_list (cache_manager s')) = mset (gpu_free_block_list ?r) + mset (block_tables (obj s p))"
    unfolding p(2) by (simp add: recycle_gpu_blocks_def block_simps)
  have "set (block_tables (obj s p)) \<subseteq> set (gpu_free_block_list (cache_manager s'))"
    using arg_cong [OF f, of set_mset] by simp
  moreover have "length (nodes (cache_manager s')) = length (nodes (cache_manager s))"
    using map_shape_length [OF release_shape] n by simp
  ultimately show ?thesis
    using shape_fields(2,4,5) [OF map_shape_nth [OF release_shape [of "request_id (obj s p)" "cache_manager s"]]] n by simp
qed

text \<open>On this run the blocks of the cached prompt are free, yet a request with the same prompt is given
  them from the radix tree, and the next allocation hands out the first of them a second time.\<close>

theorem victim_blocks_handed_out_twice:
  "let pm = cache_manager cached_victim;
       (match, pm1) = request_match_blocks sum_list ''b'' [1, 2, 3, 4, 5] 2 0 pm
   in running cached_victim = [] \<and> gpu_free_block_list pm = [0, 1, 2, 3] \<and>
      map_sum id fst match = Inr [0, 1] \<and> fst (allocate_gpu_blocks 1 pm1) = Inr [0]"
  by code_simp


text \<open>The request of four tokens of the run above, before it is preempted: its table starts with the cached blocks.\<close>

abbreviation (input) before_preemption :: rm1 where
  "before_preemption \<equiv> run_schedule (run_schedule (add_request (req4 ''a'') (init_rm1 cfg2 v1cfg2 1 True (init_pcm 4 0 True))))"

theorem preemption_frees_cached_blocks_witness:
  "\<exists>s'. preempt_last before_preemption = (Inr 0, s') \<and> {0, 1} \<subseteq> set (gpu_free_block_list (cache_manager s'))"
proof -
  have f: "enable_prefix_cache before_preemption" "running before_preemption = [0]" "length (objs before_preemption) = 1"
    "set (take 2 (block_tables (obj before_preemption 0))) = {0, 1}" "fst (preempt_last before_preemption) = Inr 0"
    by code_simp+
  obtain s' where p: "preempt_last before_preemption = (Inr 0, s')" using f(5) by (metis prod.collapse)
  have "\<forall>q \<in> set (running before_preemption). q < length (objs before_preemption)" unfolding f(2,3) by simp
  from preemption_frees_cached_blocks [OF f(1) this p] have "set (block_tables (obj before_preemption 0)) \<subseteq> set (gpu_free_block_list (cache_manager s'))"
    by (rule conjunct1)
  then have "set (take 2 (block_tables (obj before_preemption 0))) \<subseteq> set (gpu_free_block_list (cache_manager s'))"
    by (rule subset_trans [OF set_take_subset])
  with p show ?thesis unfolding f(4) by (intro exI conjI)
qed

end
