(* ===== verification/PyValue.thy ===== *)
theory PyValue
  imports Complex_Main FDPrelude "HOL-Library.Sublist"
begin

text \<open>
  Python values as they travel between processes: what \<open>json\<close> can carry. A dictionary is an
  association list in insertion order, without two entries for one key; a float is the rational it denotes
  (infinities and NaN are not modelled). A bool is a number in Python. \<open>PyMissing\<close> is the object
  \<open>dataclasses.MISSING\<close>, the default of a field that has none.
\<close>

datatype pyval =
    PyNone
  | PyBool bool
  | PyInt int
  | PyFloat rat
  | PyStr string
  | PyList "pyval list"
  | PyDict "(string \<times> pyval) list"
  | PyMissing

type_synonym pydict = "(string \<times> pyval) list"

subsection \<open>Dictionaries\<close>

definition dget :: "string \<Rightarrow> pyval \<Rightarrow> pydict \<Rightarrow> pyval" where
  "dget k d m = (case map_of m k of None \<Rightarrow> d | Some v \<Rightarrow> v)"

definition ditem :: "string \<Rightarrow> pydict \<Rightarrow> pyval res" where
  "ditem k m = (case map_of m k of None \<Rightarrow> Inl KeyError | Some v \<Rightarrow> Inr v)"

fun dupdate :: "pydict \<Rightarrow> pydict \<Rightarrow> pydict" where
  "dupdate m [] = m"
| "dupdate m ((k, v) # kvs) = dupdate (AList.update k v m) kvs"

lemma dget_update [simp]: "dget k d (AList.update k' v m) = (if k = k' then v else dget k d m)"
  by (simp add: dget_def update_conv')

lemma map_of_dupdate: "map_of (dupdate m kvs) k = (case map_of (rev kvs) k of None \<Rightarrow> map_of m k | Some v \<Rightarrow> Some v)"
  by (induction m kvs rule: dupdate.induct) (auto simp: update_conv' map_add_def split: option.splits)

lemma map_of_dupdate_distinct:
  assumes "distinct (map fst kvs)"
  shows "map_of (dupdate m kvs) k = (case map_of kvs k of None \<Rightarrow> map_of m k | Some v \<Rightarrow> Some v)"
proof -
  have "map_of (rev kvs) = map_of kvs"
    using map_of_inject_set [of "rev kvs" kvs] assms by (simp add: rev_map [symmetric])
  then show ?thesis by (simp add: map_of_dupdate)
qed

lemma dget_dupdate:
  "distinct (map fst kvs) \<Longrightarrow> dget k d (dupdate m kvs) = dget k (dget k d m) kvs"
  by (simp add: dget_def map_of_dupdate_distinct split: option.split)

lemma dget_mem: "distinct (map fst m) \<Longrightarrow> (k, v) \<in> set m \<Longrightarrow> dget k d m = v"
  by (simp add: dget_def)

lemma dget_notin: "k \<notin> set (map fst m) \<Longrightarrow> dget k d m = d"
  by (metis dget_def list.set_map map_of_eq_None_iff option.simps(4))

lemma dget_filter_notin: "k \<notin> set (map fst m) \<Longrightarrow> dget k d (filter P m) = d"
  by (rule dget_notin) auto

lemma dget_filter_None: "distinct (map fst m) \<Longrightarrow> dget k PyNone (filter (\<lambda>(k, v). v \<noteq> PyNone) m) = dget k PyNone m"
proof (induction m)
  case Nil
  then show ?case by simp
next
  case (Cons a m)
  obtain k' v where a: "a = (k', v)" by fastforce
  have "dget k PyNone (filter (\<lambda>(k, v). v \<noteq> PyNone) m) = PyNone" if "k = k'"
    using Cons.prems that by (intro dget_filter_notin) (auto simp: a)
  then show ?case using Cons by (auto simp: a dget_def)
qed

text \<open>Lists collected by key: \<open>if k not in m: m[k] = []\<close>, then appending.\<close>

definition add_to_group :: "'k \<Rightarrow> 'v list \<Rightarrow> ('k \<times> 'v list) list \<Rightarrow> ('k \<times> 'v list) list" where
  "add_to_group k vs m = AList.update k ((case map_of m k of None \<Rightarrow> [] | Some us \<Rightarrow> us) @ vs) m"

definition found :: "'v list option \<Rightarrow> 'v list" where
  "found m = (case m of None \<Rightarrow> [] | Some vs \<Rightarrow> vs)"

lemma found_simps [simp]: "found None = []" "found (Some vs) = vs"
  by (simp_all add: found_def)

lemma map_of_add_to_group:
  "map_of (add_to_group k vs m) k' = (if k = k' then Some (found (map_of m k) @ vs) else map_of m k')"
  by (simp add: add_to_group_def found_def update_conv' split: option.split)

lemma distinct_add_to_group: "distinct (map fst m) \<Longrightarrow> distinct (map fst (add_to_group k vs m))"
  by (simp add: add_to_group_def distinct_update)

text \<open>
  \<open>(v[k] if k in v else d)\<close> on a value that need not be a dictionary: \<open>in\<close> also looks into lists and
  strings, which then cannot be indexed by a string, and raises on anything else.
\<close>

fun entry_raises :: "pyval \<Rightarrow> string \<Rightarrow> bool" where
  "entry_raises (PyDict m) k = False"
| "entry_raises (PyList xs) k = (PyStr k \<in> set xs)"
| "entry_raises (PyStr s) k = sublist k s"
| "entry_raises _ k = True"

fun entry :: "pyval \<Rightarrow> string \<Rightarrow> pyval \<Rightarrow> pyval" where
  "entry (PyDict m) k d = dget k d m"
| "entry _ k d = d"

subsection \<open>Numbers\<close>

fun py_num :: "pyval \<Rightarrow> rat option" where
  "py_num (PyBool b) = Some (if b then 1 else 0)"
| "py_num (PyInt i) = Some (of_int i)"
| "py_num (PyFloat q) = Some q"
| "py_num _ = None"

fun is_int :: "pyval \<Rightarrow> bool" where
  "is_int (PyInt i) = True"
| "is_int (PyBool b) = True"
| "is_int _ = False"

fun truthy :: "pyval \<Rightarrow> bool" where
  "truthy PyNone = False"
| "truthy (PyBool b) = b"
| "truthy (PyInt i) = (i \<noteq> 0)"
| "truthy (PyFloat q) = (q \<noteq> 0)"
| "truthy (PyStr s) = (s \<noteq> [])"
| "truthy (PyList xs) = (xs \<noteq> [])"
| "truthy (PyDict m) = (m \<noteq> [])"
| "truthy PyMissing = True"

definition equals_int :: "pyval \<Rightarrow> int \<Rightarrow> bool" where
  "equals_int v i = (py_num v = Some (of_int i))"

text \<open>Comparing with a number raises a \<open>TypeError\<close> for anything that is not one.\<close>

definition num_test :: "(rat \<Rightarrow> bool) \<Rightarrow> pyval \<Rightarrow> bool res" where
  "num_test P v = (case py_num v of None \<Rightarrow> Inl TypeError | Some q \<Rightarrow> Inr (P q))"

definition num_greater :: "pyval \<Rightarrow> pyval \<Rightarrow> bool res" where
  "num_greater v w =
     (case (py_num v, py_num w) of (Some a, Some b) \<Rightarrow> Inr (a > b) | _ \<Rightarrow> Inl TypeError)"

text \<open>\<open>v is not None and P(v)\<close>.\<close>

definition opt_test :: "(pyval \<Rightarrow> bool res) \<Rightarrow> pyval \<Rightarrow> bool res" where
  "opt_test P v = (if v = PyNone then Inr False else P v)"

text \<open>\<open>if c: raise e\<close>, followed by the rest.\<close>

definition raise_if :: "bool res \<Rightarrow> py_error \<Rightarrow> unit res \<Rightarrow> unit res" where
  "raise_if c e rest = (case c of Inl x \<Rightarrow> Inl x | Inr b \<Rightarrow> if b then Inl e else rest)"

lemma raise_if_ok: "raise_if c e rest = Inr () \<longleftrightarrow> c = Inr False \<and> rest = Inr ()"
  by (auto simp: raise_if_def split: sum.splits)

text \<open>The same checks as predicates: a check passes when the value is a number in range.\<close>

definition in_range :: "(rat \<Rightarrow> bool) \<Rightarrow> pyval \<Rightarrow> bool" where
  "in_range P v = (case py_num v of None \<Rightarrow> False | Some q \<Rightarrow> P q)"

definition none_or :: "(pyval \<Rightarrow> bool) \<Rightarrow> pyval \<Rightarrow> bool" where
  "none_or P v = (v = PyNone \<or> P v)"

definition at_most :: "pyval \<Rightarrow> pyval \<Rightarrow> bool" where
  "at_most v w = (case (py_num v, py_num w) of (Some a, Some b) \<Rightarrow> a \<le> b | _ \<Rightarrow> False)"

lemma num_test_passes: "num_test P v = Inr False \<longleftrightarrow> in_range (\<lambda>q. \<not> P q) v"
  by (auto simp: num_test_def in_range_def split: option.splits)

lemma num_greater_passes: "num_greater v w = Inr False \<longleftrightarrow> at_most v w"
  by (auto simp: num_greater_def at_most_def split: option.splits)

lemma opt_test_passes: "opt_test P v = Inr False \<longleftrightarrow> none_or (\<lambda>v. P v = Inr False) v"
  by (simp add: opt_test_def none_or_def)

lemma in_range_conj: "in_range (\<lambda>q. P q \<and> Q q) v \<longleftrightarrow> in_range P v \<and> in_range Q v"
  by (simp add: in_range_def split: option.splits)

lemma none_or_conj: "none_or (\<lambda>v. P v \<and> Q v) v \<longleftrightarrow> none_or P v \<and> none_or Q v"
  by (auto simp: none_or_def)

lemma none_or_range_conj:
  "none_or (in_range (\<lambda>q. P q \<and> Q q)) v \<longleftrightarrow> none_or (in_range P) v \<and> none_or (in_range Q) v"
  by (auto simp: none_or_def in_range_conj)

lemmas check_simps = raise_if_ok num_test_passes num_greater_passes opt_test_passes

end
