(* ===== verification/SamplingParams.thy ===== *)
theory SamplingParams
  imports PyValue
begin

text \<open>
  The sampling parameters of a request (\<open>engine/sampling_params.py\<close>). A dataclass does not check the types
  of its fields, so every field holds a Python value and the checks meet whatever the dictionary contained.
  \<open>rnd\<close> is what \<open>random.randint\<close> returns.
\<close>

record SamplingParams =
  sp_n :: pyval
  best_of :: pyval
  presence_penalty :: pyval
  frequency_penalty :: pyval
  repetition_penalty :: pyval
  temperature :: pyval
  top_p :: pyval
  top_k :: pyval
  min_p :: pyval
  sp_seed :: pyval
  stop :: pyval
  stop_token_ids :: pyval
  stop_seqs_len :: pyval
  max_tokens :: pyval
  reasoning_max_tokens :: pyval
  min_tokens :: pyval
  logprobs :: pyval
  temp_scaled_logprobs :: pyval
  top_p_normalized_logprobs :: pyval
  bad_words :: pyval
  bad_words_token_ids :: pyval

definition max_seed :: rat where
  "max_seed = 922337203685477580"

definition verify_args :: "SamplingParams \<Rightarrow> unit res" where
  "verify_args p =
     raise_if (Inr (\<not> is_int (sp_n p))) ValueError (
     raise_if (num_test (\<lambda>q. q < 1) (sp_n p)) ValueError (
     raise_if (opt_test (num_test (\<lambda>q. \<not> (- 2 \<le> q \<and> q \<le> 2))) (presence_penalty p)) ValueError (
     raise_if (opt_test (num_test (\<lambda>q. \<not> (- 2 \<le> q \<and> q \<le> 2))) (frequency_penalty p)) ValueError (
     raise_if (opt_test (num_test (\<lambda>q. q \<le> 0)) (repetition_penalty p)) ValueError (
     raise_if (opt_test (num_test (\<lambda>q. q < 0)) (temperature p)) ValueError (
     raise_if (opt_test (num_test (\<lambda>q. \<not> (0 \<le> q \<and> q \<le> 1))) (top_p p)) ValueError (
     raise_if (num_test (\<lambda>q. q < - 1) (top_k p)) ValueError (
     raise_if (Inr (\<not> is_int (top_k p))) TypeError (
     raise_if (num_test (\<lambda>q. \<not> (0 \<le> q \<and> q \<le> 1)) (min_p p)) ValueError (
     raise_if (opt_test (num_test (\<lambda>q. q < 1)) (max_tokens p)) ValueError (
     raise_if (opt_test (\<lambda>r. num_greater r (max_tokens p)) (reasoning_max_tokens p)) ValueError (
     raise_if (num_test (\<lambda>q. q < 0) (min_tokens p)) ValueError (
     raise_if (opt_test (\<lambda>m. num_greater (min_tokens p) m) (max_tokens p)) ValueError (
     raise_if (opt_test (num_test (\<lambda>q. q < 0)) (logprobs p)) ValueError (
     raise_if (opt_test (num_test (\<lambda>q. q > 20)) (logprobs p)) ValueError (
     raise_if (num_test (\<lambda>q. \<not> (0 \<le> q \<and> q \<le> max_seed)) (sp_seed p)) ValueError (
     Inr ())))))))))))))))))"

text \<open>\<open>int(x)\<close> cuts a float towards zero.\<close>

definition trunc :: "rat \<Rightarrow> int" where
  "trunc q = (if 0 \<le> q then \<lfloor>q\<rfloor> else \<lceil>q\<rceil>)"

definition post_init :: "int \<Rightarrow> SamplingParams \<Rightarrow> SamplingParams res" where
  "post_init rnd p =
     (let p1 = (if sp_seed p = PyNone then p\<lparr>sp_seed := PyInt rnd\<rparr> else p);
          filled = (if max_tokens p1 \<noteq> PyNone \<and> reasoning_max_tokens p1 = PyNone
                    then (case py_num (max_tokens p1) of
                            None \<Rightarrow> Inl TypeError
                          | Some m \<Rightarrow> Inr (p1\<lparr>reasoning_max_tokens := PyInt (max (trunc (m * 4 / 5)) 1)\<rparr>))
                    else Inr p1)
      in case filled of Inl e \<Rightarrow> Inl e
         | Inr p2 \<Rightarrow> (case verify_args p2 of Inl e \<Rightarrow> Inl e | Inr u \<Rightarrow> Inr p2))"

text \<open>The value of every field: the entry of the dictionary or the default.\<close>

definition sampling_fields :: "pydict \<Rightarrow> SamplingParams" where
  "sampling_fields d =
       \<lparr>sp_n = dget ''n'' (PyInt 1) d,
        best_of = dget ''best_of'' PyNone d,
        presence_penalty = dget ''presence_penalty'' PyNone d,
        frequency_penalty = dget ''frequency_penalty'' PyNone d,
        repetition_penalty = dget ''repetition_penalty'' PyNone d,
        temperature = dget ''temperature'' PyNone d,
        top_p = dget ''top_p'' PyNone d,
        top_k = dget ''top_k'' (PyInt 0) d,
        min_p = dget ''min_p'' (PyFloat 0) d,
        sp_seed = dget ''seed'' PyNone d,
        stop = dget ''stop'' PyNone d,
        stop_token_ids = dget ''stop_token_ids'' PyNone d,
        stop_seqs_len = dget ''stop_seqs_len'' PyNone d,
        max_tokens = dget ''max_tokens'' PyNone d,
        reasoning_max_tokens = dget ''reasoning_max_tokens'' PyNone d,
        min_tokens = dget ''min_tokens'' (PyInt 1) d,
        logprobs = dget ''logprobs'' PyNone d,
        temp_scaled_logprobs = dget ''temp_scaled_logprobs'' (PyBool False) d,
        top_p_normalized_logprobs = dget ''top_p_normalized_logprobs'' (PyBool False) d,
        bad_words = dget ''bad_words'' PyNone d,
        bad_words_token_ids = dget ''bad_words_token_ids'' PyNone d\<rparr>"

definition sampling_from_dict :: "int \<Rightarrow> pydict \<Rightarrow> SamplingParams res" where
  "sampling_from_dict rnd d = post_init rnd (sampling_fields d)"

text \<open>\<open>asdict\<close> of the dataclass.\<close>

definition sampling_asdict :: "SamplingParams \<Rightarrow> pydict" where
  "sampling_asdict p =
     [(''n'', sp_n p), (''best_of'', best_of p), (''presence_penalty'', presence_penalty p),
      (''frequency_penalty'', frequency_penalty p), (''repetition_penalty'', repetition_penalty p),
      (''temperature'', temperature p), (''top_p'', top_p p), (''top_k'', top_k p), (''min_p'', min_p p),
      (''seed'', sp_seed p), (''stop'', stop p), (''stop_token_ids'', stop_token_ids p),
      (''stop_seqs_len'', stop_seqs_len p), (''max_tokens'', max_tokens p),
      (''reasoning_max_tokens'', reasoning_max_tokens p), (''min_tokens'', min_tokens p),
      (''logprobs'', logprobs p), (''temp_scaled_logprobs'', temp_scaled_logprobs p),
      (''top_p_normalized_logprobs'', top_p_normalized_logprobs p), (''bad_words'', bad_words p),
      (''bad_words_token_ids'', bad_words_token_ids p)]"

definition or_default :: "pyval \<Rightarrow> pyval \<Rightarrow> pyval" where
  "or_default v d = (if v = PyNone then d else v)"

text \<open>\<open>from_optional\<close>: its parameters, in a record of their own; the fields it does not pass keep their defaults.\<close>

definition from_optional :: "int \<Rightarrow> SamplingParams \<Rightarrow> SamplingParams res" where
  "from_optional rnd a =
     post_init rnd
       (a\<lparr>sp_n := or_default (sp_n a) (PyInt 1),
          presence_penalty := or_default (presence_penalty a) (PyFloat 0),
          frequency_penalty := or_default (frequency_penalty a) (PyFloat 0),
          repetition_penalty := or_default (repetition_penalty a) (PyFloat 1),
          temperature := or_default (temperature a) (PyFloat 1),
          top_k := or_default (top_k a) (PyInt 0),
          min_p := or_default (min_p a) (PyFloat 0),
          max_tokens := or_default (max_tokens a) (PyInt 8192),
          stop_seqs_len := PyNone,
          temp_scaled_logprobs := PyBool False,
          top_p_normalized_logprobs := PyBool False\<rparr>)"

subsection \<open>The checks against the ranges the documentation states\<close>

definition valid_params :: "SamplingParams \<Rightarrow> bool" where
  "valid_params p =
     (is_int (sp_n p) \<and> in_range (\<lambda>q. 1 \<le> q) (sp_n p) \<and>
      none_or (in_range (\<lambda>q. - 2 \<le> q \<and> q \<le> 2)) (presence_penalty p) \<and>
      none_or (in_range (\<lambda>q. - 2 \<le> q \<and> q \<le> 2)) (frequency_penalty p) \<and>
      none_or (in_range (\<lambda>q. 0 < q)) (repetition_penalty p) \<and>
      none_or (in_range (\<lambda>q. 0 \<le> q)) (temperature p) \<and>
      none_or (in_range (\<lambda>q. 0 \<le> q \<and> q \<le> 1)) (top_p p) \<and>
      is_int (top_k p) \<and> in_range (\<lambda>q. - 1 \<le> q) (top_k p) \<and>
      in_range (\<lambda>q. 0 \<le> q \<and> q \<le> 1) (min_p p) \<and>
      none_or (in_range (\<lambda>q. 1 \<le> q)) (max_tokens p) \<and>
      none_or (\<lambda>r. at_most r (max_tokens p)) (reasoning_max_tokens p) \<and>
      in_range (\<lambda>q. 0 \<le> q) (min_tokens p) \<and>
      none_or (at_most (min_tokens p)) (max_tokens p) \<and>
      none_or (in_range (\<lambda>q. 0 \<le> q \<and> q \<le> 20)) (logprobs p) \<and>
      in_range (\<lambda>q. 0 \<le> q \<and> q \<le> max_seed) (sp_seed p))"

lemma verify_args_valid: "verify_args p = Inr () \<longleftrightarrow> valid_params p"
  unfolding verify_args_def valid_params_def check_simps
  by (simp add: not_less not_le in_range_conj none_or_conj none_or_range_conj conj_ac)

text \<open>Parameters that have been through the constructor go through it again unchanged.\<close>

definition completed :: "SamplingParams \<Rightarrow> bool" where
  "completed p = (valid_params p \<and> (max_tokens p \<noteq> PyNone \<longrightarrow> reasoning_max_tokens p \<noteq> PyNone))"

lemma seed_of_valid: "valid_params p \<Longrightarrow> sp_seed p \<noteq> PyNone"
  by (auto simp: valid_params_def in_range_def)

lemma post_init_id: "completed p \<Longrightarrow> post_init rnd p = Inr p"
  using seed_of_valid [of p]
  by (auto simp: completed_def post_init_def verify_args_valid [symmetric])

lemma post_init_completed:
  assumes "post_init rnd p = Inr p'"
  shows "completed p'"
proof -
  have "verify_args p' = Inr ()" and "max_tokens p' \<noteq> PyNone \<longrightarrow> reasoning_max_tokens p' \<noteq> PyNone"
    using assms by (auto simp: post_init_def Let_def split: sum.splits option.splits if_splits)
  then show ?thesis by (simp add: completed_def verify_args_valid)
qed

definition sampling_keys :: "string list" where
  "sampling_keys =
     [''n'', ''best_of'', ''presence_penalty'', ''frequency_penalty'', ''repetition_penalty'', ''temperature'',
      ''top_p'', ''top_k'', ''min_p'', ''seed'', ''stop'', ''stop_token_ids'', ''stop_seqs_len'', ''max_tokens'',
      ''reasoning_max_tokens'', ''min_tokens'', ''logprobs'', ''temp_scaled_logprobs'',
      ''top_p_normalized_logprobs'', ''bad_words'', ''bad_words_token_ids'']"

lemma keys_sampling_asdict: "map fst (sampling_asdict p) = sampling_keys"
  by (simp add: sampling_asdict_def sampling_keys_def)

lemma sampling_fields_cong:
  assumes "\<forall>k \<in> set sampling_keys. map_of d k = map_of d' k"
  shows "sampling_fields d = sampling_fields d'"
  using assms by (simp add: sampling_fields_def sampling_keys_def dget_def)

lemma sampling_fields_asdict: "sampling_fields (sampling_asdict p) = p"
  by (simp add: sampling_fields_def sampling_asdict_def dget_def)

lemma sampling_roundtrip:
  assumes "completed p" and "\<forall>k \<in> set sampling_keys. map_of d k = map_of (sampling_asdict p) k"
  shows "sampling_from_dict rnd d = Inr p"
  using sampling_fields_cong [OF assms(2)] post_init_id [OF assms(1)]
  by (simp add: sampling_from_dict_def sampling_fields_asdict)

end
