(* ===== verification/RequestData.thy ===== *)
theory RequestData
  imports SamplingParams
begin

text \<open>
  Requests and their results on the wire (\<open>engine/request.py\<close>): the attributes the constructors take and
  their conversion to and from dictionaries. \<open>now\<close> is the clock, \<open>rnd\<close> the random seed.
\<close>

record RequestData =
  rd_request_id :: pyval
  rd_prompt :: pyval
  rd_prompt_token_ids :: pyval
  rd_prompt_token_ids_len :: pyval
  rd_messages :: pyval
  rd_system :: pyval
  rd_history :: pyval
  rd_tools :: pyval
  rd_eos_token_ids :: pyval
  rd_arrival_time :: pyval
  rd_preprocess_start_time :: pyval
  rd_preprocess_end_time :: pyval
  rd_multimodal_inputs :: pyval
  rd_multimodal_data :: pyval
  rd_disable_chat_template :: pyval
  rd_disaggregate_info :: pyval
  rd_draft_token_ids :: pyval
  rd_enable_thinking :: pyval
  rd_trace_carrier :: pyval
  rd_chat_template :: pyval
  rd_guided_json :: pyval
  rd_guided_regex :: pyval
  rd_guided_choice :: pyval
  rd_guided_grammar :: pyval
  rd_structural_tag :: pyval
  rd_guided_json_object :: pyval
  rd_sampling_params :: SamplingParams

definition request_from_dict :: "int \<Rightarrow> rat \<Rightarrow> pydict \<Rightarrow> RequestData res" where
  "request_from_dict rnd now d =
     (case sampling_from_dict rnd d of Inl e \<Rightarrow> Inl e
      | Inr sp \<Rightarrow>
        (case ditem ''request_id'' d of Inl e \<Rightarrow> Inl e
         | Inr rid \<Rightarrow> Inr
           \<lparr>rd_request_id = rid,
            rd_prompt = dget ''prompt'' PyNone d,
            rd_prompt_token_ids = dget ''prompt_token_ids'' PyNone d,
            rd_prompt_token_ids_len = dget ''prompt_token_ids_len'' PyNone d,
            rd_messages = dget ''messages'' PyNone d,
            rd_system = dget ''system'' PyNone d,
            rd_history = dget ''history'' PyNone d,
            rd_tools = dget ''tools'' PyNone d,
            rd_eos_token_ids = dget ''eos_token_ids'' PyNone d,
            rd_arrival_time = dget ''arrival_time'' (PyFloat now) d,
            rd_preprocess_start_time = dget ''preprocess_start_time'' PyNone d,
            rd_preprocess_end_time = dget ''preprocess_end_time'' PyNone d,
            rd_multimodal_inputs = dget ''multimodal_inputs'' PyNone d,
            rd_multimodal_data = dget ''multimodal_data'' PyNone d,
            rd_disable_chat_template = dget ''disable_chat_template'' PyNone d,
            rd_disaggregate_info = dget ''disaggregate_info'' PyNone d,
            rd_draft_token_ids = dget ''draft_token_ids'' PyNone d,
            rd_enable_thinking = dget ''enable_thinking'' (PyBool True) d,
            rd_trace_carrier = dget ''trace_carrier'' (PyDict []) d,
            rd_chat_template = dget ''chat_template'' PyNone d,
            rd_guided_json = dget ''guided_json'' PyNone d,
            rd_guided_regex = dget ''guided_regex'' PyNone d,
            rd_guided_choice = dget ''guided_choice'' PyNone d,
            rd_guided_grammar = dget ''guided_grammar'' PyNone d,
            rd_structural_tag = dget ''structural_tag'' PyNone d,
            rd_guided_json_object = dget ''guided_json_object'' PyNone d,
            rd_sampling_params = sp\<rparr>))"

definition request_base :: "RequestData \<Rightarrow> pydict" where
  "request_base r =
     [(''request_id'', rd_request_id r), (''prompt'', rd_prompt r),
      (''prompt_token_ids'', rd_prompt_token_ids r), (''prompt_token_ids_len'', rd_prompt_token_ids_len r),
      (''messages'', rd_messages r), (''system'', rd_system r), (''history'', rd_history r),
      (''tools'', rd_tools r), (''eos_token_ids'', rd_eos_token_ids r), (''arrival_time'', rd_arrival_time r),
      (''preprocess_start_time'', rd_preprocess_start_time r),
      (''preprocess_end_time'', rd_preprocess_end_time r), (''multimodal_inputs'', rd_multimodal_inputs r),
      (''multimodal_data'', rd_multimodal_data r), (''disable_chat_template'', rd_disable_chat_template r),
      (''disaggregate_info'', rd_disaggregate_info r), (''draft_token_ids'', rd_draft_token_ids r),
      (''enable_thinking'', rd_enable_thinking r), (''trace_carrier'', rd_trace_carrier r),
      (''chat_template'', rd_chat_template r)]"

definition request_guided :: "RequestData \<Rightarrow> pydict" where
  "request_guided r =
     [(''guided_json'', rd_guided_json r), (''guided_regex'', rd_guided_regex r),
      (''guided_choice'', rd_guided_choice r), (''guided_grammar'', rd_guided_grammar r),
      (''structural_tag'', rd_structural_tag r), (''guided_json_object'', rd_guided_json_object r)]"

definition request_to_dict :: "RequestData \<Rightarrow> pydict" where
  "request_to_dict r =
     dupdate (dupdate (request_base r) (filter (\<lambda>(k, v). v \<noteq> PyNone) (request_guided r)))
       (sampling_asdict (rd_sampling_params r))"

subsection \<open>Results\<close>

record CompletionOutput =
  co_index :: pyval
  send_idx :: pyval
  token_ids :: pyval
  logprob :: pyval
  top_logprobs :: pyval
  co_logprobs :: pyval
  draft_token_ids :: pyval
  co_text :: pyval
  reasoning_content :: pyval
  tool_calls :: pyval

definition completion_to_dict :: "CompletionOutput \<Rightarrow> pydict" where
  "completion_to_dict c =
     [(''index'', co_index c), (''send_idx'', send_idx c), (''token_ids'', token_ids c), (''logprob'', logprob c),
      (''top_logprobs'', top_logprobs c), (''logprobs'', co_logprobs c), (''draft_token_ids'', draft_token_ids c),
      (''text'', co_text c), (''reasoning_content'', reasoning_content c)]"

definition completion_keys :: "string list" where
  "completion_keys =
     [''index'', ''send_idx'', ''token_ids'', ''logprob'', ''top_logprobs'', ''logprobs'', ''draft_token_ids'',
      ''text'', ''reasoning_content'', ''tool_calls'']"

definition completion_from_dict :: "pyval \<Rightarrow> CompletionOutput res" where
  "completion_from_dict v =
     (if list_ex (entry_raises v) completion_keys then Inl TypeError
      else Inr
        \<lparr>co_index = entry v ''index'' PyMissing,
         send_idx = entry v ''send_idx'' PyMissing,
         token_ids = entry v ''token_ids'' PyMissing,
         logprob = entry v ''logprob'' PyNone,
         top_logprobs = entry v ''top_logprobs'' PyNone,
         co_logprobs = entry v ''logprobs'' PyNone,
         draft_token_ids = entry v ''draft_token_ids'' PyNone,
         co_text = entry v ''text'' PyNone,
         reasoning_content = entry v ''reasoning_content'' PyNone,
         tool_calls = entry v ''tool_calls'' PyNone\<rparr>)"

record RequestMetrics =
  rm_arrival_time :: pyval
  rm_inference_start_time :: pyval
  first_token_time :: pyval
  time_in_queue :: pyval
  preprocess_cost_time :: pyval
  model_forward_time :: pyval
  model_execute_time :: pyval
  request_start_time :: pyval

definition metrics_to_dict :: "RequestMetrics \<Rightarrow> pydict" where
  "metrics_to_dict m =
     [(''arrival_time'', rm_arrival_time m), (''inference_start_time'', rm_inference_start_time m),
      (''first_token_time'', first_token_time m), (''time_in_queue'', time_in_queue m),
      (''preprocess_cost_time'', preprocess_cost_time m), (''model_forward_time'', model_forward_time m),
      (''model_execute_time'', model_execute_time m), (''request_start_time'', request_start_time m)]"

definition metrics_keys :: "string list" where
  "metrics_keys =
     [''arrival_time'', ''inference_start_time'', ''first_token_time'', ''time_in_queue'',
      ''preprocess_cost_time'', ''model_forward_time'', ''model_execute_time'', ''request_start_time'']"

definition metrics_from_dict :: "pyval \<Rightarrow> RequestMetrics res" where
  "metrics_from_dict v =
     (if list_ex (entry_raises v) metrics_keys then Inl TypeError
      else Inr
        \<lparr>rm_arrival_time = entry v ''arrival_time'' PyMissing,
         rm_inference_start_time = entry v ''inference_start_time'' PyNone,
         first_token_time = entry v ''first_token_time'' PyNone,
         time_in_queue = entry v ''time_in_queue'' PyNone,
         preprocess_cost_time = entry v ''preprocess_cost_time'' PyNone,
         model_forward_time = entry v ''model_forward_time'' PyNone,
         model_execute_time = entry v ''model_execute_time'' PyNone,
         request_start_time = entry v ''request_start_time'' PyNone\<rparr>)"

record RequestOutput =
  ro_request_id :: pyval
  ro_prompt :: pyval
  ro_prompt_token_ids :: pyval
  outputs :: "CompletionOutput option"
  ro_finished :: pyval
  ro_metrics :: "RequestMetrics option"
  ro_num_cached_tokens :: pyval
  error_code :: pyval
  error_msg :: pyval

text \<open>The constructor replaces missing prompt tokens by the empty list.\<close>

definition new_RequestOutput ::
  "pyval \<Rightarrow> pyval \<Rightarrow> pyval \<Rightarrow> CompletionOutput option \<Rightarrow> pyval \<Rightarrow> RequestMetrics option \<Rightarrow> pyval \<Rightarrow> pyval \<Rightarrow> pyval \<Rightarrow>
   RequestOutput" where
  "new_RequestOutput rid pr ids out fin met cached code msg =
     \<lparr>ro_request_id = rid, ro_prompt = pr,
      ro_prompt_token_ids = (if ids = PyNone then PyList [] else ids),
      outputs = out, ro_finished = fin, ro_metrics = met, ro_num_cached_tokens = cached,
      error_code = code, error_msg = msg\<rparr>"

definition output_to_dict :: "RequestOutput \<Rightarrow> pydict" where
  "output_to_dict r =
     [(''request_id'', ro_request_id r), (''prompt'', ro_prompt r), (''prompt_token_ids'', ro_prompt_token_ids r),
      (''outputs'', case outputs r of None \<Rightarrow> PyNone | Some c \<Rightarrow> PyDict (completion_to_dict c)),
      (''metrics'', case ro_metrics r of None \<Rightarrow> PyNone | Some m \<Rightarrow> PyDict (metrics_to_dict m)),
      (''finished'', ro_finished r), (''num_cached_tokens'', ro_num_cached_tokens r),
      (''error_code'', error_code r), (''error_msg'', error_msg r)]"

definition output_keywords :: "string list" where
  "output_keywords =
     [''request_id'', ''prompt'', ''prompt_token_ids'', ''finished'', ''num_cached_tokens'', ''error_code'',
      ''error_msg'']"

text \<open>
  \<open>from_dict\<close> pops the two records off the dictionary and passes the rest as keyword arguments, where an
  unknown key or a missing \<open>request_id\<close> is a \<open>TypeError\<close>.
\<close>

definition output_from_dict :: "pydict \<Rightarrow> RequestOutput res" where
  "output_from_dict d =
     (case ditem ''outputs'' d of Inl e \<Rightarrow> Inl e | Inr vo \<Rightarrow>
     (case completion_from_dict vo of Inl e \<Rightarrow> Inl e | Inr c \<Rightarrow>
     (case ditem ''metrics'' d of Inl e \<Rightarrow> Inl e | Inr vm \<Rightarrow>
     (case metrics_from_dict vm of Inl e \<Rightarrow> Inl e | Inr m \<Rightarrow>
      let rest = filter (\<lambda>(k, v). k \<notin> {''outputs'', ''metrics''}) d in
      if \<not> list_all (\<lambda>(k, v). k \<in> set output_keywords) rest \<or> map_of rest ''request_id'' = None then Inl TypeError
      else Inr (new_RequestOutput
        (dget ''request_id'' PyNone rest) (dget ''prompt'' PyNone rest) (dget ''prompt_token_ids'' PyNone rest)
        (Some c) (dget ''finished'' (PyBool False) rest) (Some m)
        (dget ''num_cached_tokens'' (PyInt 0) rest) (dget ''error_code'' (PyInt 200) rest)
        (dget ''error_msg'' PyNone rest))))))"

end
