(* ===== verification/SchedulerData.thy ===== *)
theory SchedulerData
  imports RequestData
begin

text \<open>
  The wrappers the schedulers put around requests and results (\<open>scheduler/data.py\<close>) and what they send to
  other nodes. The bytes of a message are the JSON text of a dictionary; \<open>json.loads\<close> gives back the value
  that \<open>json.dumps\<close> was given, so a message is modelled by that dictionary.
\<close>

record ScheduledRequest =
  sreq_raw :: RequestData
  request_queue_name :: string
  response_queue_name :: string
  sreq_schedule_time :: rat

definition new_ScheduledRequest :: "RequestData \<Rightarrow> string \<Rightarrow> string \<Rightarrow> rat \<Rightarrow> ScheduledRequest" where
  "new_ScheduledRequest r req_queue resp_queue now =
     \<lparr>sreq_raw = r, request_queue_name = req_queue, response_queue_name = resp_queue, sreq_schedule_time = now\<rparr>"

definition prompt_tokens_ids_len :: "ScheduledRequest \<Rightarrow> nat res" where
  "prompt_tokens_ids_len s =
     (case rd_prompt_token_ids (sreq_raw s) of
        PyList xs \<Rightarrow> Inr (length xs)
      | PyStr xs \<Rightarrow> Inr (length xs)
      | PyDict xs \<Rightarrow> Inr (length xs)
      | _ \<Rightarrow> Inl TypeError)"

definition serialize_request :: "ScheduledRequest \<Rightarrow> pydict" where
  "serialize_request s =
     [(''request_queue_name'', PyStr (request_queue_name s)),
      (''response_queue_name'', PyStr (response_queue_name s)),
      (''schedule_time'', PyFloat (sreq_schedule_time s)),
      (''raw'', PyDict (request_to_dict (sreq_raw s)))]"

text \<open>A message of another shape is one no scheduler sends; reading it is a \<open>TypeError\<close> here.\<close>

definition unserialize_request :: "int \<Rightarrow> rat \<Rightarrow> pydict \<Rightarrow> ScheduledRequest res" where
  "unserialize_request rnd now d =
     (case (ditem ''raw'' d, ditem ''schedule_time'' d, ditem ''request_queue_name'' d, ditem ''response_queue_name'' d) of
        (Inr (PyDict r), Inr (PyFloat t), Inr (PyStr q1), Inr (PyStr q2)) \<Rightarrow>
          (case request_from_dict rnd now r of Inl e \<Rightarrow> Inl e
           | Inr raw \<Rightarrow> Inr ((new_ScheduledRequest raw [] [] now)
               \<lparr>sreq_schedule_time := t, request_queue_name := q1, response_queue_name := q2\<rparr>))
      | (Inl e, _) \<Rightarrow> Inl e
      | (_, Inl e, _) \<Rightarrow> Inl e
      | (_, _, Inl e, _) \<Rightarrow> Inl e
      | (_, _, _, Inl e) \<Rightarrow> Inl e
      | _ \<Rightarrow> Inl TypeError)"

record ScheduledResponse =
  sres_raw :: RequestOutput
  sres_schedule_time :: rat

definition new_ScheduledResponse :: "RequestOutput \<Rightarrow> rat \<Rightarrow> ScheduledResponse" where
  "new_ScheduledResponse r now = \<lparr>sres_raw = r, sres_schedule_time = now\<rparr>"

definition sres_index :: "ScheduledResponse \<Rightarrow> pyval res" where
  "sres_index s = (case outputs (sres_raw s) of None \<Rightarrow> Inl AttributeError | Some c \<Rightarrow> Inr (co_index c))"

definition serialize_response :: "ScheduledResponse \<Rightarrow> pydict" where
  "serialize_response s =
     [(''schedule_time'', PyFloat (sres_schedule_time s)), (''raw'', PyDict (output_to_dict (sres_raw s)))]"

definition unserialize_response :: "rat \<Rightarrow> pydict \<Rightarrow> ScheduledResponse res" where
  "unserialize_response now d =
     (case (ditem ''raw'' d, ditem ''schedule_time'' d) of
        (Inr (PyDict r), Inr (PyFloat t)) \<Rightarrow>
          (case output_from_dict r of Inl e \<Rightarrow> Inl e
           | Inr raw \<Rightarrow> Inr ((new_ScheduledResponse raw now)\<lparr>sres_schedule_time := t\<rparr>))
      | (Inl e, _) \<Rightarrow> Inl e
      | (_, Inl e) \<Rightarrow> Inl e
      | _ \<Rightarrow> Inl TypeError)"

subsection \<open>Reading back what was written\<close>

lemma keys_request_base:
  "set (map fst (request_base r)) \<inter> set sampling_keys = {}" "distinct (map fst (request_base r))"
  by (simp_all add: request_base_def sampling_keys_def)

lemma keys_request_guided:
  "set (map fst (request_guided r)) \<inter> set sampling_keys = {}"
  "set (map fst (request_guided r)) \<inter> set (map fst (request_base r)) = {}"
  "distinct (map fst (request_guided r))"
  by (simp_all add: request_base_def request_guided_def sampling_keys_def)

lemma distinct_sampling_keys: "distinct (map fst (sampling_asdict p))"
  by (simp add: keys_sampling_asdict) (simp add: sampling_keys_def)

lemma request_dict_sampling:
  assumes "k \<in> set sampling_keys"
  shows "map_of (request_to_dict r) k = map_of (sampling_asdict (rd_sampling_params r)) k"
proof -
  have "map_of (sampling_asdict (rd_sampling_params r)) k \<noteq> None"
    using assms by (metis keys_sampling_asdict list.set_map map_of_eq_None_iff)
  then show ?thesis
    by (auto simp: request_to_dict_def map_of_dupdate_distinct [OF distinct_sampling_keys])
qed

lemma distinct_filter_keys: "distinct (map fst m) \<Longrightarrow> distinct (map fst (filter P m))"
  by (simp add: distinct_map_filter)

lemma request_dict_other:
  assumes "k \<notin> set sampling_keys"
  shows "dget k x (request_to_dict r) =
    dget k (dget k x (request_base r)) (filter (\<lambda>(k, v). v \<noteq> PyNone) (request_guided r))"
proof -
  have "dget k y (sampling_asdict (rd_sampling_params r)) = y" for y
    by (rule dget_notin) (simp only: keys_sampling_asdict assms not_False_eq_True)
  then show ?thesis
    by (simp add: request_to_dict_def dget_dupdate distinct_sampling_keys distinct_filter_keys keys_request_guided)
qed

lemma request_dict_base:
  assumes "(k, v) \<in> set (request_base r)"
  shows "dget k x (request_to_dict r) = v"
proof -
  have k: "k \<in> set (map fst (request_base r))" using assms by force
  then have "k \<notin> set sampling_keys" "k \<notin> set (map fst (request_guided r))"
    using keys_request_base [of r] keys_request_guided(2) [of r] by blast+
  then have "dget k x (request_to_dict r) = dget k x (request_base r)"
    by (simp only: request_dict_other dget_filter_notin not_False_eq_True)
  also have "\<dots> = v" using keys_request_base(2) assms by (rule dget_mem)
  finally show ?thesis .
qed

lemma request_dict_guided:
  assumes "(k, v) \<in> set (request_guided r)"
  shows "dget k PyNone (request_to_dict r) = v"
proof -
  have k: "k \<in> set (map fst (request_guided r))" using assms by force
  then have "k \<notin> set sampling_keys" "k \<notin> set (map fst (request_base r))"
    using keys_request_guided(1,2) [of r] by blast+
  then have "dget k PyNone (request_to_dict r) = dget k PyNone (request_guided r)"
    by (simp only: request_dict_other dget_notin dget_filter_None keys_request_guided(3) not_False_eq_True)
  also have "\<dots> = v" using keys_request_guided(3) assms by (rule dget_mem)
  finally show ?thesis .
qed

lemma request_id_in_dict: "ditem ''request_id'' (request_to_dict r) = Inr (rd_request_id r)"
proof -
  have "dget ''request_id'' x (request_to_dict r) = rd_request_id r" for x
    by (rule request_dict_base) (simp add: request_base_def)
  from this [of PyNone] this [of PyMissing] show ?thesis
    by (auto simp: ditem_def dget_def split: option.splits)
qed

lemma request_roundtrip:
  assumes "completed (rd_sampling_params r)"
  shows "request_from_dict rnd now (request_to_dict r) = Inr r"
proof -
  let ?d = "request_to_dict r"
  have s: "sampling_from_dict rnd ?d = Inr (rd_sampling_params r)"
    by (rule sampling_roundtrip [OF assms]) (simp add: request_dict_sampling)
  have b: "\<forall>(k, v) \<in> set (request_base r). \<forall>x. dget k x ?d = v" using request_dict_base by auto
  have g: "\<forall>(k, v) \<in> set (request_guided r). dget k PyNone ?d = v" using request_dict_guided by auto
  show ?thesis
    using b g unfolding request_from_dict_def s request_id_in_dict request_base_def request_guided_def
    by simp
qed

lemma completion_roundtrip:
  "completion_from_dict (PyDict (completion_to_dict c)) = Inr (c\<lparr>tool_calls := PyNone\<rparr>)"
  by (simp add: completion_from_dict_def completion_to_dict_def completion_keys_def dget_def)

lemma metrics_roundtrip: "metrics_from_dict (PyDict (metrics_to_dict m)) = Inr m"
  by (simp add: metrics_from_dict_def metrics_to_dict_def metrics_keys_def dget_def)

lemma output_roundtrip:
  assumes "outputs r = Some c" "ro_metrics r = Some m" "ro_prompt_token_ids r \<noteq> PyNone"
  shows "output_from_dict (output_to_dict r) = Inr (r\<lparr>outputs := Some (c\<lparr>tool_calls := PyNone\<rparr>)\<rparr>)"
  using assms
  by (simp add: output_from_dict_def output_to_dict_def ditem_def completion_roundtrip metrics_roundtrip
      output_keywords_def dget_def new_RequestOutput_def)

end
