(* ===== verification/WireProps.thy ===== *)
theory WireProps
  imports SchedulerData
begin

text \<open>
  What the sampling parameters guarantee once they are constructed, and that requests and results survive the
  trip through the messages the schedulers exchange.
\<close>

subsection \<open>Sampling parameters\<close>

text \<open>\<open>_verify_args\<close>, which tests one field after the other, accepts exactly the parameters whose every tested field is absent,
  where that is allowed, or a number in range. The documentation asks for more than these checks do: \<open>best_of\<close> of at least
  \<open>n\<close> and a positive \<open>top_k\<close>.\<close>

theorem sampling_checks_exact: "verify_args p = Inr () \<longleftrightarrow> valid_params p"
  by (rule verify_args_valid)

text \<open>C28: parameters that come out of the constructor have a seed in range, and a limit on reasoning tokens of at most
  \<open>max_tokens\<close> as soon as there is a \<open>max_tokens\<close>; constructing them once more changes nothing.\<close>

theorem constructed_params_complete:
  assumes "post_init rnd p = Inr p'"
  shows "in_range (\<lambda>q. 0 \<le> q \<and> q \<le> max_seed) (sp_seed p') \<and>
    (max_tokens p' = PyNone \<or> at_most (reasoning_max_tokens p') (max_tokens p')) \<and>
    post_init rnd' p' = Inr p'"
proof -
  have c: "completed p'" by (rule post_init_completed [OF assms])
  then show ?thesis
    using post_init_id [OF c] by (auto simp: completed_def valid_params_def none_or_def)
qed

abbreviation (input) hundred_tokens :: SamplingParams where
  "hundred_tokens \<equiv> sampling_fields [(''max_tokens'', PyInt 100)]"

theorem constructed_params_complete_witness:
  "post_init 5 (hundred_tokens\<lparr>sp_seed := PyInt 7, reasoning_max_tokens := PyInt 80\<rparr>) =
   Inr (hundred_tokens\<lparr>sp_seed := PyInt 7, reasoning_max_tokens := PyInt 80\<rparr>)"
proof -
  have "post_init 7 hundred_tokens = Inr (hundred_tokens\<lparr>sp_seed := PyInt 7, reasoning_max_tokens := PyInt 80\<rparr>)"
    by code_simp
  from constructed_params_complete [OF this] show ?thesis by blast
qed

text \<open>A limit on reasoning tokens without \<open>max_tokens\<close> is compared with \<open>None\<close>: the constructor raises a
  \<open>TypeError\<close> instead of reporting which argument is wrong, whatever the limit is.\<close>

theorem reasoning_limit_without_max:
  assumes "valid_params (p\<lparr>reasoning_max_tokens := PyNone\<rparr>)" "max_tokens p = PyNone" "reasoning_max_tokens p \<noteq> PyNone"
  shows "post_init rnd p = Inl TypeError"
proof -
  have "num_greater r PyNone = Inl TypeError" for r
    by (simp add: num_greater_def split: option.split)
  then have r: "opt_test (\<lambda>r. num_greater r (max_tokens p)) (reasoning_max_tokens p) = Inl TypeError"
    using assms(2,3) by (simp add: opt_test_def)
  have "verify_args (p\<lparr>reasoning_max_tokens := PyNone\<rparr>) = Inr ()"
    using assms(1) by (simp add: verify_args_valid)
  then have "verify_args p = Inl TypeError"
    unfolding verify_args_def raise_if_ok by (simp add: raise_if_def r)
  then show ?thesis
    using assms seed_of_valid [OF assms(1)] by (simp add: post_init_def)
qed

theorem reasoning_limit_without_max_witness:
  "post_init 0 (sampling_fields [(''reasoning_max_tokens'', PyInt 5), (''seed'', PyInt 1)]) = Inl TypeError"
proof -
  have "valid_params ((sampling_fields [(''reasoning_max_tokens'', PyInt 5), (''seed'', PyInt 1)])\<lparr>reasoning_max_tokens := PyNone\<rparr>)"
    by code_simp
  then show ?thesis by (rule reasoning_limit_without_max) (simp_all add: sampling_fields_def dget_def)
qed

subsection \<open>Messages between schedulers\<close>

text \<open>C27: a request whose sampling parameters are completed, which means that they pass all checks of \<open>_verify_args\<close> (so a
  seed is there and the limit on reasoning tokens is at most \<open>max_tokens\<close>) and that they have a limit on reasoning tokens when they have
  \<open>max_tokens\<close>, is read back, after it was serialised for another node, with every attribute its constructor takes, the
  queue names and the time it was scheduled at. The constructor leaves parameters completed; lowering \<open>max_tokens\<close> below the
  other limit afterwards does not.\<close>

theorem scheduled_request_roundtrip:
  assumes "completed (rd_sampling_params (sreq_raw s))"
  shows "unserialize_request rnd now (serialize_request s) = Inr s"
  using request_roundtrip [OF assms]
  by (simp add: unserialize_request_def serialize_request_def ditem_def new_ScheduledRequest_def)

abbreviation (input) plain_request :: RequestData where
  "plain_request \<equiv>
     (case request_from_dict 3 0 [(''request_id'', PyStr ''a''), (''prompt_token_ids'', PyList [PyInt 4])] of
        Inr r \<Rightarrow> r | Inl e \<Rightarrow> undefined)"

theorem scheduled_request_roundtrip_witness:
  "unserialize_request 0 1 (serialize_request (new_ScheduledRequest plain_request ''in'' ''out'' 0)) =
   Inr (new_ScheduledRequest plain_request ''in'' ''out'' 0)"
proof -
  have "completed (rd_sampling_params (sreq_raw (new_ScheduledRequest plain_request ''in'' ''out'' 0)))"
    by code_simp
  then show ?thesis by (rule scheduled_request_roundtrip)
qed

text \<open>A result with outputs and metrics is read back as it was sent, up to the tool calls, which its dictionary leaves out.\<close>

theorem scheduled_response_roundtrip:
  assumes "outputs (sres_raw s) = Some c" "ro_metrics (sres_raw s) = Some m" "ro_prompt_token_ids (sres_raw s) \<noteq> PyNone"
  shows "unserialize_response now (serialize_response s) =
    Inr (s\<lparr>sres_raw := (sres_raw s)\<lparr>outputs := Some (c\<lparr>tool_calls := PyNone\<rparr>)\<rparr>\<rparr>)"
  using output_roundtrip [OF assms]
  by (simp add: unserialize_response_def serialize_response_def ditem_def new_ScheduledResponse_def)

abbreviation (input) sample_output :: CompletionOutput where
  "sample_output \<equiv> \<lparr>co_index = PyInt 0, send_idx = PyInt 2, token_ids = PyList [PyInt 5], logprob = PyNone,
     top_logprobs = PyNone, co_logprobs = PyNone, draft_token_ids = PyNone, co_text = PyStr ''x'',
     reasoning_content = PyNone, tool_calls = PyNone\<rparr>"

abbreviation (input) sample_metrics :: RequestMetrics where
  "sample_metrics \<equiv> \<lparr>rm_arrival_time = PyFloat 1, rm_inference_start_time = PyNone, first_token_time = PyNone,
     time_in_queue = PyNone, preprocess_cost_time = PyNone, model_forward_time = PyNone,
     model_execute_time = PyNone, request_start_time = PyNone\<rparr>"

abbreviation (input) sample_response :: "CompletionOutput option \<Rightarrow> RequestMetrics option \<Rightarrow> ScheduledResponse" where
  "sample_response c m \<equiv> new_ScheduledResponse
     (new_RequestOutput (PyStr ''a'') PyNone PyNone c (PyBool True) m (PyInt 0) (PyInt 200) PyNone) 4"

theorem scheduled_response_roundtrip_witness:
  "unserialize_response 9 (serialize_response (sample_response (Some sample_output) (Some sample_metrics))) =
   Inr (sample_response (Some sample_output) (Some sample_metrics))"
  using scheduled_response_roundtrip [of "sample_response (Some sample_output) (Some sample_metrics)" sample_output sample_metrics 9]
  by (simp add: new_ScheduledResponse_def new_RequestOutput_def)

text \<open>A result without outputs, as the constructor makes it for a bare error message, can be written but not read back: the
  reader looks for the fields of the outputs in \<open>None\<close> and raises a \<open>TypeError\<close>.\<close>

theorem error_response_unreadable:
  assumes "outputs (sres_raw s) = None"
  shows "unserialize_response now (serialize_response s) = Inl TypeError"
  using assms
  by (simp add: unserialize_response_def serialize_response_def output_from_dict_def output_to_dict_def ditem_def
      completion_from_dict_def completion_keys_def)

theorem error_response_unreadable_witness:
  "unserialize_response 0 (serialize_response (sample_response None None)) = Inl TypeError"
  by (rule error_response_unreadable) (simp add: new_ScheduledResponse_def new_RequestOutput_def)

end
