(* ===== verification/LocalScheduler.thy ===== *)
theory LocalScheduler
  imports PySeq EngineRequest
begin

text \<open>
  The in-memory scheduler between the front end and the engine (\<open>scheduler/local_scheduler.py\<close>). Every
  operation holds the mutex, so it is atomic; one that waits on a condition is modelled on the state it finds
  when the wait ends, by notification or by timeout. A result is seen as its request id, whether it is the
  last one, and a body the scheduler passes on.
\<close>

record 'o response =
  out_id :: req_id
  out_finished :: bool
  out_body :: 'o

record sched_request =
  lr_raw :: Request
  lr_schedule_time :: int

record 'o local_sched =
  max_size :: int
  ttl :: int
  enable_chunked_prefill :: bool
  max_num_partial_prefills :: int
  max_long_partial_prefills :: int
  long_prefill_token_threshold :: int
  ids_read_cursor :: int
  ids :: "req_id list"
  ls_requests :: "(req_id \<times> sched_request) list"
  ls_responses :: "(req_id \<times> 'o response list) list"

definition init_local :: "int \<Rightarrow> int \<Rightarrow> bool \<Rightarrow> int \<Rightarrow> int \<Rightarrow> int \<Rightarrow> 'o local_sched" where
  "init_local cap t chunked partial long threshold =
     \<lparr>max_size = cap, ttl = t, enable_chunked_prefill = chunked, max_num_partial_prefills = partial,
      max_long_partial_prefills = long, long_prefill_token_threshold = threshold,
      ids_read_cursor = 0, ids = [], ls_requests = [], ls_responses = []\<rparr>"

definition reset_local :: "'o local_sched \<Rightarrow> 'o local_sched" where
  "reset_local s = s\<lparr>ids_read_cursor := 0, ids := [], ls_requests := [], ls_responses := []\<rparr>"

subsection \<open>Recycling\<close>

definition forget :: "req_id \<Rightarrow> 'o local_sched \<Rightarrow> 'o local_sched" where
  "forget rid s = s\<lparr>ls_requests := AList.delete rid (ls_requests s), ls_responses := AList.delete rid (ls_responses s)\<rparr>"

definition recycle_request :: "req_id \<Rightarrow> 'o local_sched \<Rightarrow> ('o local_sched, unit) outcome" where
  "recycle_request rid s =
     (let s1 = forget rid s in
      if rid \<notin> set (ids s1) then (Inl ValueError, s1)
      else (Inr (), s1\<lparr>ids := remove1 rid (ids s1), ids_read_cursor := ids_read_cursor s1 - 1\<rparr>))"

fun collect_expired :: "(req_id \<times> sched_request) list \<Rightarrow> int \<Rightarrow> int \<Rightarrow> req_id list \<Rightarrow> req_id list res" where
  "collect_expired reqs life now [] = Inr []"
| "collect_expired reqs life now (rid # rids) =
     (case map_of reqs rid of None \<Rightarrow> Inl KeyError
      | Some r \<Rightarrow>
          if now - lr_schedule_time r < life then Inr []
          else (case collect_expired reqs life now rids of Inl e \<Rightarrow> Inl e
                | Inr xs \<Rightarrow> Inr (request_id (lr_raw r) # xs)))"

text \<open>The loop pops position \<open>i\<close> of a list that shrinks while \<open>i\<close> grows.\<close>

fun drop_expired :: "nat \<Rightarrow> req_id list \<Rightarrow> 'o local_sched \<Rightarrow> ('o local_sched, unit) outcome" where
  "drop_expired i [] s = (Inr (), s)"
| "drop_expired i (rid # rids) s =
     (let s1 = forget rid s in
      if i < length (ids s1) then drop_expired (Suc i) rids (s1\<lparr>ids := take i (ids s1) @ drop (Suc i) (ids s1)\<rparr>)
      else (Inl IndexError, s1))"

definition recycle_expired :: "int \<Rightarrow> 'o local_sched \<Rightarrow> ('o local_sched, unit) outcome" where
  "recycle_expired now s =
     (if max_size s \<le> 0 then (Inr (), s)
      else if int (length (ls_requests s)) \<le> max_size s then (Inr (), s)
      else
        (case collect_expired (ls_requests s) (ttl s) now (ids s) of Inl e \<Rightarrow> (Inl e, s)
         | Inr expired \<Rightarrow>
             andthen (drop_expired 0 expired s) (\<lambda>_ s1.
               (Inr (), if expired = [] then s1
                        else if int (length expired) - 1 \<ge> ids_read_cursor s1 then s1\<lparr>ids_read_cursor := 0\<rparr>
                        else s1\<lparr>ids_read_cursor := ids_read_cursor s1 - int (length expired)\<rparr>))))"

subsection \<open>Requests in\<close>

datatype put_error = ExceedingMaxLength | DuplicatedRequestId

fun enqueue_new ::
  "int \<Rightarrow> Request list \<Rightarrow> (req_id \<times> sched_request) list \<Rightarrow> (req_id \<times> sched_request) list \<times> req_id list \<times> req_id list" where
  "enqueue_new now [] reqs = (reqs, [], [])"
| "enqueue_new now (r # rs) reqs =
     (if map_of reqs (request_id r) \<noteq> None then
        (case enqueue_new now rs reqs of (reqs1, valid, dup) \<Rightarrow> (reqs1, valid, request_id r # dup))
      else
        (case enqueue_new now rs (AList.update (request_id r) \<lparr>lr_raw = r, lr_schedule_time = now\<rparr> reqs) of
           (reqs1, valid, dup) \<Rightarrow> (reqs1, request_id r # valid, dup)))"

definition put_requests ::
  "int \<Rightarrow> Request list \<Rightarrow> 'o local_sched \<Rightarrow> ('o local_sched, (req_id \<times> put_error option) list) outcome" where
  "put_requests now rs s =
     andthen (recycle_expired now s) (\<lambda>_ s1.
       if max_size s1 > 0 \<and> int (length (ls_requests s1)) + int (length rs) > max_size s1
       then (Inr (map (\<lambda>r. (request_id r, Some ExceedingMaxLength)) rs), s1)
       else
         (case enqueue_new now rs (ls_requests s1) of (reqs, valid, dup) \<Rightarrow>
            (Inr (map (\<lambda>i. (i, None)) valid @ map (\<lambda>i. (i, Some DuplicatedRequestId)) dup),
             s1\<lparr>ls_requests := reqs, ids := ids s1 @ valid\<rparr>)))"

subsection \<open>Requests out\<close>

definition calc_required_blocks :: "int \<Rightarrow> int \<Rightarrow> int" where
  "calc_required_blocks token_num bs = (token_num + bs - 1) div bs"

record budget =
  required_total_blocks :: int
  current_prefill_tokens :: int
  long_partial_requests :: int
  short_partial_requests :: int

definition prompt_len :: "sched_request \<Rightarrow> int" where
  "prompt_len r = int (length (prompt_token_ids (lr_raw r)))"

text \<open>One request of the batch: the budget after it, and whether it is still within it.\<close>

definition charge :: "'o local_sched \<Rightarrow> int \<Rightarrow> int \<Rightarrow> int \<Rightarrow> int \<Rightarrow> sched_request \<Rightarrow> budget \<Rightarrow> budget \<times> bool" where
  "charge s available bs reserved max_tokens r b =
     (let n = prompt_len r;
          b1 = b\<lparr>current_prefill_tokens := current_prefill_tokens b + n,
                 required_total_blocks := required_total_blocks b + (calc_required_blocks n bs + reserved)\<rparr>
      in if required_total_blocks b1 > available then (b1, False)
         else if enable_chunked_prefill s then
           if n > long_prefill_token_threshold s then
             let b2 = b1\<lparr>long_partial_requests := long_partial_requests b1 + 1\<rparr> in
             if long_partial_requests b2 > max_long_partial_prefills s then (b2, False)
             else (b2, short_partial_requests b2 + long_partial_requests b2 \<le> max_num_partial_prefills s)
           else
             let b2 = b1\<lparr>short_partial_requests := short_partial_requests b1 + 1\<rparr> in
             (b2, short_partial_requests b2 + long_partial_requests b2 \<le> max_num_partial_prefills s)
         else (b1, current_prefill_tokens b1 \<le> max_tokens))"

fun pick :: "'o local_sched \<Rightarrow> int \<Rightarrow> int \<Rightarrow> int \<Rightarrow> int \<Rightarrow> budget \<Rightarrow> req_id list \<Rightarrow> Request list res" where
  "pick s available bs reserved max_tokens b [] = Inr []"
| "pick s available bs reserved max_tokens b (rid # rids) =
     (case map_of (ls_requests s) rid of None \<Rightarrow> Inl KeyError
      | Some r \<Rightarrow>
          if bs = 0 then Inl ZeroDivisionError
          else
            (case charge s available bs reserved max_tokens r b of (b1, fits) \<Rightarrow>
               if fits then
                 (case pick s available bs reserved max_tokens b1 rids of Inl e \<Rightarrow> Inl e
                  | Inr rs \<Rightarrow> Inr (lr_raw r # rs))
               else Inr []))"

definition no_budget :: budget where
  "no_budget = \<lparr>required_total_blocks = 0, current_prefill_tokens = 0, long_partial_requests = 0, short_partial_requests = 0\<rparr>"

definition get_requests ::
  "int \<Rightarrow> int \<Rightarrow> int \<Rightarrow> int \<Rightarrow> int \<Rightarrow> 'o local_sched \<Rightarrow> ('o local_sched, Request list) outcome" where
  "get_requests available bs reserved max_tokens batch s =
     (if available \<le> reserved \<or> batch < 1 then (Inr [], s)
      else
        (case pick s available bs reserved max_tokens no_budget
                (py_slice (ids_read_cursor s) (ids_read_cursor s + batch) (ids s)) of
           Inl e \<Rightarrow> (Inl e, s)
         | Inr rs \<Rightarrow> (Inr rs, s\<lparr>ids_read_cursor := ids_read_cursor s + int (length rs)\<rparr>)))"

subsection \<open>Results\<close>

definition put_result :: "'o response \<Rightarrow> 'o local_sched \<Rightarrow> 'o local_sched" where
  "put_result r s =
     (if map_of (ls_requests s) (out_id r) = None then s
      else s\<lparr>ls_responses :=
        AList.update (out_id r)
          ((case map_of (ls_responses s) (out_id r) of None \<Rightarrow> [] | Some os \<Rightarrow> os) @ [r]) (ls_responses s)\<rparr>)"

definition put_results :: "'o response list \<Rightarrow> 'o local_sched \<Rightarrow> 'o local_sched" where
  "put_results os s = fold put_result os s"

fun recycle_finished :: "(req_id \<times> 'o response list) list \<Rightarrow> 'o local_sched \<Rightarrow> ('o local_sched, unit) outcome" where
  "recycle_finished [] s = (Inr (), s)"
| "recycle_finished ((rid, os) # rest) s =
     (if list_ex out_finished os then andthen (recycle_request rid s) (\<lambda>_ s1. recycle_finished rest s1)
      else recycle_finished rest s)"

definition get_results :: "'o local_sched \<Rightarrow> ('o local_sched, (req_id \<times> 'o response list) list) outcome" where
  "get_results s =
     andthen (recycle_finished (ls_responses s) (s\<lparr>ls_responses := []\<rparr>)) (\<lambda>_ s1. (Inr (ls_responses s), s1))"

text \<open>A result of the engine, as the scheduler sees it.\<close>

definition result_response :: "tp_result \<Rightarrow> tp_result response" where
  "result_response r = \<lparr>out_id = tp_request_id r, out_finished = tp_finished r, out_body = r\<rparr>"

end
