(* ===== verification/FifoFront.thy ===== *)
theory FifoFront
  imports FDPrelude
begin

text \<open>
  What the engine relies on when it fetches requests from a scheduler: an abstract first-in first-out queue.
  \<open>put\<close> tells which ids were accepted, \<open>fetch\<close> which were handed out, and \<open>internal\<close> covers every other
  step. The ids handed out so far, followed by those still pending, are always the accepted ones.
\<close>

locale fifo_front =
  fixes wf :: "'s \<Rightarrow> bool" and pend :: "'s \<Rightarrow> 'i list"
    and put :: "'s \<Rightarrow> 'i list \<Rightarrow> 's \<Rightarrow> bool" and fetch :: "'s \<Rightarrow> 'i list \<Rightarrow> 's \<Rightarrow> bool"
    and internal :: "'s \<Rightarrow> 's \<Rightarrow> bool"
  assumes put_law: "wf s \<Longrightarrow> put s xs s' \<Longrightarrow> wf s' \<and> pend s' = pend s @ xs"
    and fetch_law: "wf s \<Longrightarrow> fetch s xs s' \<Longrightarrow> wf s' \<and> pend s = xs @ pend s'"
    and internal_law: "wf s \<Longrightarrow> internal s s' \<Longrightarrow> wf s' \<and> pend s' = pend s"
begin

definition balanced :: "'i list \<Rightarrow> 'i list \<Rightarrow> 's \<Rightarrow> bool" where
  "balanced accepted handed_out s = (wf s \<and> accepted = handed_out @ pend s)"

lemma balanced_put: "balanced acc del s \<Longrightarrow> put s xs s' \<Longrightarrow> balanced (acc @ xs) del s'"
  by (auto simp: balanced_def dest: put_law)

lemma balanced_fetch: "balanced acc del s \<Longrightarrow> fetch s xs s' \<Longrightarrow> balanced acc (del @ xs) s'"
  by (auto simp: balanced_def dest: fetch_law)

lemma balanced_internal: "balanced acc del s \<Longrightarrow> internal s s' \<Longrightarrow> balanced acc del s'"
  by (auto simp: balanced_def dest: internal_law)

lemma balancedD: "balanced acc del s \<Longrightarrow> wf s" "balanced acc del s \<Longrightarrow> acc = del @ pend s"
  by (simp_all add: balanced_def)

end

end
