(* ===== verification/LocalSchedulerProps.thy ===== *)
theory LocalSchedulerProps
  imports LocalScheduler FifoFront
begin

text \<open>
  The local scheduler refines a pair of queues: the requests in flight, which the engine has fetched, and the
  pending ones. The invariant ties both to the list of ids and its cursor; then every operation is shown to
  act on the two queues as its name says.
\<close>

definition in_flight :: "'o local_sched \<Rightarrow> req_id list" where
  "in_flight s = take (nat (ids_read_cursor s)) (ids s)"

definition pending :: "'o local_sched \<Rightarrow> req_id list" where
  "pending s = drop (nat (ids_read_cursor s)) (ids s)"

definition local_ok :: "'o local_sched \<Rightarrow> bool" where
  "local_ok s =
     (distinct (ids s) \<and> distinct (map fst (ls_requests s)) \<and> set (map fst (ls_requests s)) = set (ids s) \<and>
      (\<forall>(i, r) \<in> set (ls_requests s). request_id (lr_raw r) = i) \<and>
      distinct (map fst (ls_responses s)) \<and> set (map fst (ls_responses s)) \<subseteq> set (in_flight s) \<and>
      0 \<le> ids_read_cursor s \<and> ids_read_cursor s \<le> int (length (ids s)) \<and>
      (0 < max_size s \<longrightarrow> int (length (ls_requests s)) \<le> max_size s))"

lemma local_okD:
  assumes "local_ok s"
  shows "distinct (ids s)" "distinct (map fst (ls_requests s))" "set (map fst (ls_requests s)) = set (ids s)"
    "\<forall>(i, r) \<in> set (ls_requests s). request_id (lr_raw r) = i"
    "distinct (map fst (ls_responses s))" "set (map fst (ls_responses s)) \<subseteq> set (in_flight s)"
    "0 \<le> ids_read_cursor s" "ids_read_cursor s \<le> int (length (ids s))"
    "0 < max_size s \<longrightarrow> int (length (ls_requests s)) \<le> max_size s"
  using assms by (auto simp only: local_ok_def)

lemma queues_append [simp]: "in_flight s @ pending s = ids s"
  by (simp add: in_flight_def pending_def)

lemma queues_of: "ids s = xs @ ys \<Longrightarrow> ids_read_cursor s = int (length xs) \<Longrightarrow> in_flight s = xs \<and> pending s = ys"
  by (simp add: in_flight_def pending_def)

lemma local_ok_init [simp]: "local_ok (init_local cap t ch p l th)" "pending (init_local cap t ch p l th) = []"
  by (simp_all add: local_ok_def init_local_def in_flight_def pending_def)

lemma local_ok_reset [simp]: "local_ok s \<Longrightarrow> local_ok (reset_local s)" "pending (reset_local s) = []"
  by (simp_all add: local_ok_def reset_local_def in_flight_def pending_def)

subsection \<open>Recycling by age never happens\<close>

lemma recycle_expired_idle: "local_ok s \<Longrightarrow> recycle_expired now s = (Inr (), s)"
  using local_okD(9) [of s] by (auto simp: recycle_expired_def)

subsection \<open>Putting requests\<close>

text \<open>The requests whose id is neither present nor repeated before them.\<close>

fun fresh :: "req_id set \<Rightarrow> Request list \<Rightarrow> req_id list" where
  "fresh known [] = []"
| "fresh known (r # rs) =
     (if request_id r \<in> known then fresh known rs else request_id r # fresh (insert (request_id r) known) rs)"

lemma fresh_props: "distinct (fresh K rs)" "set (fresh K rs) \<inter> K = {}" "length (fresh K rs) \<le> length rs"
  by (induction K rs rule: fresh.induct) auto

lemma enqueue_new_props:
  assumes "enqueue_new now rs reqs = (reqs', valid, dup)" "distinct (map fst reqs)"
    "\<forall>(i, r) \<in> set reqs. request_id (lr_raw r) = i"
  shows "valid = fresh (set (map fst reqs)) rs \<and> map fst reqs' = map fst reqs @ valid \<and>
    (\<forall>(i, r) \<in> set reqs'. request_id (lr_raw r) = i)"
  using assms
proof (induction now rs reqs arbitrary: reqs' valid dup rule: enqueue_new.induct)
  case (1 now reqs)
  then show ?case by auto
next
  case (2 now r rs reqs)
  show ?case
  proof (cases "map_of reqs (request_id r) = None")
    case False
    then have "request_id r \<in> set (map fst reqs)" by (simp add: map_of_eq_None_iff)
    then show ?thesis using 2(1) 2(3-) False by (auto split: prod.splits)
  next
    case True
    then have new: "request_id r \<notin> set (map fst reqs)" by (simp add: map_of_eq_None_iff)
    let ?reqs = "AList.update (request_id r) \<lparr>lr_raw = r, lr_schedule_time = now\<rparr> reqs"
    have upd: "?reqs = reqs @ [(request_id r, \<lparr>lr_raw = r, lr_schedule_time = now\<rparr>)]"
      using new by (induction reqs) auto
    obtain reqs1 valid1 dup1 where e: "enqueue_new now rs ?reqs = (reqs1, valid1, dup1)" by (rule prod_cases3)
    have res: "reqs' = reqs1" "valid = request_id r # valid1" using 2(3) True e by auto
    have "distinct (map fst ?reqs)" "\<forall>(i, q) \<in> set ?reqs. request_id (lr_raw q) = i"
      unfolding upd using 2(4,5) new by auto
    note ih = 2(2) [OF _ e this]
    then show ?thesis using True new unfolding res upd by auto
  qed
qed

definition put_full :: "Request list \<Rightarrow> 'o local_sched \<Rightarrow> bool" where
  "put_full rs s = (max_size s > 0 \<and> int (length (ls_requests s)) + int (length rs) > max_size s)"

lemma put_requests_effect:
  assumes ok: "local_ok s"
  obtains res s' where "put_requests now rs s = (Inr res, s')" "local_ok s'"
    "map fst (filter (\<lambda>(i, e). e = None) res) = (if put_full rs s then [] else fresh (set (ids s)) rs)"
    "pending s' = pending s @ map fst (filter (\<lambda>(i, e). e = None) res)" "in_flight s' = in_flight s"
proof (cases "put_full rs s")
  case True
  then have "put_requests now rs s = (Inr (map (\<lambda>r. (request_id r, Some ExceedingMaxLength)) rs), s)"
    by (simp add: put_requests_def recycle_expired_idle [OF ok] put_full_def)
  then show ?thesis using that ok True by (auto simp: filter_map o_def)
next
  case False
  obtain reqs valid dup where e: "enqueue_new now rs (ls_requests s) = (reqs, valid, dup)" by (rule prod_cases3)
  note D = local_okD [OF ok]
  from enqueue_new_props [OF e D(2) D(4), unfolded D(3)]
  have v: "valid = fresh (set (ids s)) rs" and k: "map fst reqs = map fst (ls_requests s) @ valid"
    and i: "\<forall>(i, r) \<in> set reqs. request_id (lr_raw r) = i" by blast+
  let ?s = "s\<lparr>ls_requests := reqs, ids := ids s @ valid\<rparr>"
  let ?res = "map (\<lambda>i. (i, None)) valid @ map (\<lambda>i. (i, Some DuplicatedRequestId)) dup"
  have put: "put_requests now rs s = (Inr ?res, ?s)"
    using False e by (auto simp: put_requests_def recycle_expired_idle [OF ok] put_full_def)
  have q: "in_flight ?s = in_flight s" "pending ?s = pending s @ valid"
    using D(7,8) by (simp_all add: in_flight_def pending_def)
  have "length reqs = length (ls_requests s) + length valid" using arg_cong [OF k, of length] by simp
  then have len: "0 < max_size s \<longrightarrow> int (length reqs) \<le> max_size s"
    using False fresh_props(3) [of "set (ids s)" rs] v by (auto simp: put_full_def)
  have "local_ok ?s"
    unfolding local_ok_def q using D i len fresh_props [of "set (ids s)" rs]
    by (simp add: k v) (auto simp flip: set_map)
  then show ?thesis
    using that [OF put] q False v by (simp add: filter_map o_def)
qed

subsection \<open>Fetching requests\<close>

lemma pick_returns:
  assumes "set rids \<subseteq> set (map fst (ls_requests s))" "\<forall>(i, r) \<in> set (ls_requests s). request_id (lr_raw r) = i" "bs \<noteq> 0"
  shows "\<exists>rs. pick s available bs reserved max_tokens b rids = Inr rs \<and> map request_id rs = take (length rs) rids"
  using assms(1)
proof (induction rids arbitrary: b)
  case Nil
  then show ?case by simp
next
  case (Cons rid rids)
  then obtain r where r: "map_of (ls_requests s) rid = Some r"
    by (metis list.set_intros(1) map_of_eq_None_iff not_None_eq list.set_map subsetD)
  then have "request_id (lr_raw r) = rid" using assms(2) map_of_SomeD by fastforce
  moreover obtain b1 fits where "charge s available bs reserved max_tokens r b = (b1, fits)" by fastforce
  moreover obtain rs where "pick s available bs reserved max_tokens b1 rids = Inr rs" "map request_id rs = take (length rs) rids"
    using Cons by auto
  ultimately show ?case using r assms(3) by auto
qed

lemma get_requests_effect:
  assumes ok: "local_ok s" and bs: "bs \<noteq> 0"
  obtains rs s' where "get_requests available bs reserved max_tokens batch s = (Inr rs, s')" "local_ok s'"
    "pending s = map request_id rs @ pending s'" "in_flight s' = in_flight s @ map request_id rs"
proof (cases "available \<le> reserved \<or> batch < 1")
  case True
  then show ?thesis using that [of "[]" s] ok by (simp add: get_requests_def)
next
  case False
  note D = local_okD [OF ok]
  let ?b = "py_slice (ids_read_cursor s) (ids_read_cursor s + batch) (ids s)"
  have b: "?b = take (nat batch) (pending s)"
    using False D(7) by (simp add: py_slice_front pending_def)
  have "set ?b \<subseteq> set (map fst (ls_requests s))"
    unfolding b D(3) by (auto simp: pending_def dest: in_set_takeD in_set_dropD)
  then obtain rs where rs: "pick s available bs reserved max_tokens no_budget ?b = Inr rs"
    "map request_id rs = take (length rs) ?b"
    using pick_returns [OF _ D(4) bs] by blast
  have n: "length rs \<le> length (take (nat batch) (pending s))" using arg_cong [OF rs(2), of length] b by (simp; linarith)
  have m: "map request_id rs = take (length rs) (pending s)" using rs(2) n unfolding b by (simp add: min.absorb1)
  let ?s = "s\<lparr>ids_read_cursor := ids_read_cursor s + int (length rs)\<rparr>"
  have c: "nat (ids_read_cursor s + int (length rs)) = nat (ids_read_cursor s) + length rs" using D(7) by simp
  have q: "pending s = map request_id rs @ pending ?s" "in_flight ?s = in_flight s @ map request_id rs"
    unfolding m by (simp_all add: pending_def in_flight_def c take_add)
      (metis add.commute append_take_drop_id drop_drop)
  have "int (length rs) \<le> int (length (ids s)) - ids_read_cursor s"
    using n D(7,8) by (simp add: pending_def) linarith
  then have "local_ok ?s" unfolding local_ok_def q using D by auto
  moreover have "get_requests available bs reserved max_tokens batch s = (Inr rs, ?s)"
    using False rs(1) by (simp add: get_requests_def)
  ultimately show ?thesis using that q by blast
qed

subsection \<open>Results\<close>

lemma keys_update: "set (map fst (AList.update k v al)) = insert k (set (map fst al))"
  by (simp add: dom_update)

lemma put_result_effect:
  assumes "local_ok s" "out_id r \<notin> set (pending s)"
  shows "local_ok (put_result r s)" "pending (put_result r s) = pending s" "in_flight (put_result r s) = in_flight s"
proof -
  show q: "pending (put_result r s) = pending s" "in_flight (put_result r s) = in_flight s"
    by (simp_all add: put_result_def pending_def in_flight_def)
  note D = local_okD [OF assms(1)]
  have f: "out_id r \<in> set (in_flight s)" if "map_of (ls_requests s) (out_id r) \<noteq> None"
  proof -
    have "out_id r \<in> set (ids s)" using that D(3) by (metis list.set_map map_of_eq_None_iff)
    then show ?thesis using assms(2) by (metis Un_iff queues_append set_append)
  qed
  show "local_ok (put_result r s)"
    unfolding local_ok_def q using D f
    by (auto simp: put_result_def distinct_update keys_update simp del: set_map)
qed

lemma put_results_effect:
  assumes "local_ok s" "\<forall>r \<in> set rs. out_id r \<notin> set (pending s)"
  shows "local_ok (put_results rs s) \<and> pending (put_results rs s) = pending s \<and> in_flight (put_results rs s) = in_flight s"
  using assms
proof (induction rs arbitrary: s)
  case Nil
  then show ?case by (simp add: put_results_def)
next
  case (Cons r rs)
  then show ?case using put_result_effect [of s r] by (simp add: put_results_def)
qed

lemma delete_facts:
  "distinct (map fst al) \<Longrightarrow> distinct (map fst (AList.delete k al))"
  "length (AList.delete k al) \<le> length al"
  "set (AList.delete k al) \<subseteq> set al"
  by (auto simp: AList.delete_eq distinct_map_filter)

lemma delete_keys_set: "set (map fst (AList.delete k al)) = set (map fst al) - {k}"
  by (induction al) auto

lemma recycle_request_effect:
  assumes ok: "local_ok s" and f: "rid \<in> set (in_flight s)" and e: "ls_responses s = []"
  obtains s' where "recycle_request rid s = (Inr (), s')" "local_ok s'" "pending s' = pending s"
    "in_flight s' = remove1 rid (in_flight s)" "ls_responses s' = []"
proof -
  note D = local_okD [OF ok]
  let ?c = "nat (ids_read_cursor s)"
  let ?s = "(forget rid s)\<lparr>ids := remove1 rid (ids s), ids_read_cursor := ids_read_cursor s - 1\<rparr>"
  have i: "rid \<in> set (ids s)" using f by (metis UnI1 queues_append set_append)
  have r: "remove1 rid (ids s) = remove1 rid (in_flight s) @ pending s"
    using f by (metis queues_append remove1_append)
  have l: "length (in_flight s) = ?c" using D(7,8) by (simp add: in_flight_def)
  have c: "0 < ?c" using f l by (cases "in_flight s") auto
  have k: "length (remove1 rid (in_flight s)) = nat (ids_read_cursor s - 1)"
    using f l c by (simp add: length_remove1)
  have q: "in_flight ?s = remove1 rid (in_flight s)" "pending ?s = pending s"
    using queues_of [of ?s "remove1 rid (in_flight s)" "pending s"] c k by (simp_all add: r)
  have "local_ok ?s"
    unfolding local_ok_def q using D c f e
    using delete_facts [where al = "ls_requests s" and k = rid]
    by (auto simp: forget_def delete_keys_set length_remove1 i simp del: set_map)
  moreover have "recycle_request rid s = (Inr (), ?s)"
    using i by (simp add: recycle_request_def forget_def)
  ultimately show ?thesis using that q e by (simp add: forget_def)
qed

lemma recycle_finished_effect:
  assumes "local_ok s" "set (map fst reps) \<subseteq> set (in_flight s)" "distinct (map fst reps)" "ls_responses s = []"
  shows "\<exists>s'. recycle_finished reps s = (Inr (), s') \<and> local_ok s' \<and> pending s' = pending s \<and>
    set (in_flight s') = set (in_flight s) - {i. \<exists>rs. (i, rs) \<in> set reps \<and> list_ex out_finished rs}"
  using assms
proof (induction reps s rule: recycle_finished.induct)
  case (1 s)
  then show ?case by simp
next
  case (2 rid rs rest s)
  show ?case
  proof (cases "list_ex out_finished rs")
    case False
    then show ?thesis using 2(2) 2(3-) by (auto simp: False)
  next
    case True
    have "rid \<in> set (in_flight s)" using 2(4) by simp
    from recycle_request_effect [OF 2(3) this 2(6)] obtain s1 where
      s1: "recycle_request rid s = (Inr (), s1)" "local_ok s1" "pending s1 = pending s"
        "in_flight s1 = remove1 rid (in_flight s)" "ls_responses s1 = []" .
    have dist: "distinct (in_flight s)" using local_okD(1) [OF 2(3)] by (simp add: in_flight_def)
    have "set (map fst rest) \<subseteq> set (in_flight s1)" "distinct (map fst rest)"
      using 2(4,5) dist by (auto simp: s1(4))
    from 2(1) [OF True s1(2) this s1(5)]
    show ?thesis using True s1 dist by auto
  qed
qed

lemma get_results_effect:
  assumes ok: "local_ok s"
  obtains s' where "get_results s = (Inr (ls_responses s), s')" "local_ok s'" "pending s' = pending s"
    "set (in_flight s') = set (in_flight s) - {i. \<exists>rs. (i, rs) \<in> set (ls_responses s) \<and> list_ex out_finished rs}"
proof -
  note D = local_okD [OF ok]
  let ?s = "s\<lparr>ls_responses := []\<rparr>"
  have q: "in_flight ?s = in_flight s" "pending ?s = pending s" by (simp_all add: in_flight_def pending_def)
  have "local_ok ?s" unfolding local_ok_def q using D by simp
  from recycle_finished_effect [OF this, unfolded q, OF D(6) D(5)] show ?thesis
    using that by (auto simp: get_results_def)
qed

subsection \<open>The scheduler as a queue\<close>

definition put_step :: "'o local_sched \<Rightarrow> req_id list \<Rightarrow> 'o local_sched \<Rightarrow> bool" where
  "put_step s xs s' \<longleftrightarrow>
     (\<exists>now rs res. put_requests now rs s = (Inr res, s') \<and> xs = map fst (filter (\<lambda>(i, e). e = None) res))"

definition fetch_step :: "'o local_sched \<Rightarrow> req_id list \<Rightarrow> 'o local_sched \<Rightarrow> bool" where
  "fetch_step s xs s' \<longleftrightarrow>
     (\<exists>available bs reserved max_tokens batch rs. bs \<noteq> 0 \<and>
        get_requests available bs reserved max_tokens batch s = (Inr rs, s') \<and> xs = map request_id rs)"

text \<open>The engine only reports on requests it has fetched.\<close>

definition result_step :: "'o local_sched \<Rightarrow> 'o local_sched \<Rightarrow> bool" where
  "result_step s s' \<longleftrightarrow>
     (\<exists>rs. (\<forall>r \<in> set rs. out_id r \<notin> set (pending s)) \<and> s' = put_results rs s) \<or> s' = snd (get_results s)"

interpretation lsq: fifo_front local_ok pending put_step fetch_step result_step
proof
  fix s :: "'o local_sched" and xs s'
  assume ok: "local_ok s"
  show "local_ok s' \<and> pending s' = pending s @ xs" if step: "put_step s xs s'"
  proof -
    obtain now rs res where p: "put_requests now rs s = (Inr res, s')" "xs = map fst (filter (\<lambda>(i, e). e = None) res)"
      using step by (auto simp: put_step_def)
    then show ?thesis using put_requests_effect [OF ok, of now rs] by (metis Inr_inject Pair_inject)
  qed
  show "local_ok s' \<and> pending s = xs @ pending s'" if step: "fetch_step s xs s'"
  proof -
    obtain a bs r m b rs where g: "bs \<noteq> 0" "get_requests a bs r m b s = (Inr rs, s')" "xs = map request_id rs"
      using step by (auto simp: fetch_step_def)
    then show ?thesis using get_requests_effect [OF ok g(1), of a r m b] by (metis Inr_inject Pair_inject)
  qed
  have "local_ok (snd (get_results s)) \<and> pending (snd (get_results s)) = pending s"
    by (rule get_results_effect [OF ok]) simp
  then show "local_ok s' \<and> pending s' = pending s" if step: "result_step s s'"
    using step put_results_effect [OF ok] by (auto simp: result_step_def)
qed

subsection \<open>What the scheduler holds\<close>

text \<open>A property of the requests that come in is one of every request the local scheduler holds or hands out.\<close>

definition all_hold :: "(Request \<Rightarrow> bool) \<Rightarrow> 'o local_sched \<Rightarrow> bool" where
  "all_hold P s = (\<forall>(i, r) \<in> set (ls_requests s). P (lr_raw r))"

lemma hold_update:
  "\<forall>(i, r) \<in> set reqs. P (lr_raw r) \<Longrightarrow> P (lr_raw r0) \<Longrightarrow> \<forall>(i, r) \<in> set (AList.update k r0 reqs). P (lr_raw r)"
  by (induction reqs) (auto split: if_splits)

lemma hold_delete: "\<forall>(i, r) \<in> set reqs. P (lr_raw r) \<Longrightarrow> \<forall>(i, r) \<in> set (AList.delete k reqs). P (lr_raw r)"
  by (auto simp: AList.delete_eq)

lemma hold_enqueue:
  "\<forall>(i, r) \<in> set reqs. P (lr_raw r) \<Longrightarrow> \<forall>q \<in> set rs. P q \<Longrightarrow> enqueue_new now rs reqs = (reqs', v, d) \<Longrightarrow>
   \<forall>(i, r) \<in> set reqs'. P (lr_raw r)"
proof (induction now rs reqs arbitrary: reqs' v d rule: enqueue_new.induct)
  case (2 now r rs reqs)
  then show ?case using hold_update [of reqs P "\<lparr>lr_raw = r, lr_schedule_time = now\<rparr>" "request_id r"]
    by (auto split: if_splits prod.splits)
qed auto

lemma hold_forget: "all_hold P s \<Longrightarrow> all_hold P (forget i s)"
  unfolding all_hold_def forget_def by (simp add: hold_delete)

lemma hold_recycle: "all_hold P s \<Longrightarrow> all_hold P (snd (recycle_request i s))"
  using hold_forget [of P s i] by (simp add: recycle_request_def Let_def all_hold_def)

lemma hold_drop: "all_hold P s \<Longrightarrow> all_hold P (snd (drop_expired i rids s))"
proof (induction i rids s rule: drop_expired.induct)
  case (2 i rid rids s)
  then show ?case using hold_forget [of P s rid] by (simp add: Let_def all_hold_def)
qed simp

lemma hold_expired:
  assumes "all_hold P s"
  shows "all_hold P (snd (recycle_expired now s))"
proof (cases "collect_expired (ls_requests s) (ttl s) now (ids s)")
  case (Inl e)
  then show ?thesis using assms by (simp add: recycle_expired_def)
next
  case (Inr expired)
  have "all_hold P (snd (andthen (drop_expired 0 expired s) (\<lambda>_ s1.
     (Inr (), if expired = [] then s1
              else if int (length expired) - 1 \<ge> ids_read_cursor s1 then s1\<lparr>ids_read_cursor := 0\<rparr>
              else s1\<lparr>ids_read_cursor := ids_read_cursor s1 - int (length expired)\<rparr>))))"
    by (rule snd_andthen_keeps [where P = "all_hold P", OF hold_drop [OF assms]]) (auto simp: all_hold_def)
  then show ?thesis using Inr assms unfolding recycle_expired_def by simp
qed

lemma hold_put:
  assumes "all_hold P s" "\<forall>q \<in> set rs. P q"
  shows "all_hold P (snd (put_requests now rs s))"
  unfolding put_requests_def
proof (rule snd_andthen)
  fix x s1 assume e: "recycle_expired now s = (Inr x, s1)"
  have f: "all_hold P s1" using hold_expired [OF assms(1), of now] e by simp
  obtain reqs v d where q: "enqueue_new now rs (ls_requests s1) = (reqs, v, d)" by (metis prod_cases3)
  have "\<forall>(i, r) \<in> set reqs. P (lr_raw r)"
    using hold_enqueue [OF _ assms(2) q] f by (simp add: all_hold_def)
  then show "all_hold P (snd (if max_size s1 > 0 \<and> int (length (ls_requests s1)) + int (length rs) > max_size s1
       then (Inr (map (\<lambda>r. (request_id r, Some ExceedingMaxLength)) rs), s1)
       else
         (case enqueue_new now rs (ls_requests s1) of (reqs, valid, dup) \<Rightarrow>
            (Inr (map (\<lambda>i. (i, None)) valid @ map (\<lambda>i. (i, Some DuplicatedRequestId)) dup),
             s1\<lparr>ls_requests := reqs, ids := ids s1 @ valid\<rparr>))))"
    using f by (simp add: q all_hold_def)
next
  fix x s1 assume "recycle_expired now s = (Inl x, s1)"
  then show "all_hold P s1" using hold_expired [OF assms(1), of now] by simp
qed

lemma hold_pick:
  "all_hold P s \<Longrightarrow> pick s available bs reserved max_tokens b rids = Inr rs \<Longrightarrow> \<forall>q \<in> set rs. P q"
proof (induction s available bs reserved max_tokens b rids arbitrary: rs rule: pick.induct)
  case (2 s available bs reserved max_tokens b rid rids)
  then show ?case
    by (auto simp: all_hold_def split: option.splits if_splits prod.splits sum.splits dest!: map_of_SomeD)
qed auto

lemma hold_get:
  assumes "all_hold P s" "get_requests available bs reserved max_tokens batch s = (x, s')"
  shows "all_hold P s' \<and> (\<forall>rs. x = Inr rs \<longrightarrow> (\<forall>q \<in> set rs. P q))"
  using assms hold_pick [OF assms(1)]
  by (auto simp: get_requests_def all_hold_def split: if_splits sum.splits)

lemma hold_put_results: "all_hold P (put_results rs s) = all_hold P s"
proof -
  have "ls_requests (fold put_result rs s) = ls_requests s"
    by (induction rs arbitrary: s) (simp_all add: put_result_def)
  then show ?thesis by (simp add: put_results_def all_hold_def)
qed

lemma hold_finished: "all_hold P s \<Longrightarrow> all_hold P (snd (recycle_finished os s))"
proof (induction os s rule: recycle_finished.induct)
  case (2 rid os rest s)
  have r: "all_hold P (snd (recycle_request rid s))" using 2(3) by (rule hold_recycle)
  show ?case
  proof (cases "list_ex out_finished os")
    case True
    show ?thesis
      unfolding recycle_finished.simps if_P [OF True]
      by (rule snd_andthen_keeps [where P = "all_hold P", OF r 2(1) [OF True]])
  next
    case False
    then show ?thesis using 2 by simp
  qed
qed simp

lemma hold_collect:
  assumes "all_hold P s"
  shows "all_hold P (snd (get_results s))"
  unfolding get_results_def
proof (rule snd_andthen_keeps [where P = "all_hold P"])
  have "all_hold P (s\<lparr>ls_responses := []\<rparr>)" using assms by (simp add: all_hold_def)
  then show "all_hold P (snd (recycle_finished (ls_responses s) (s\<lparr>ls_responses := []\<rparr>)))" by (rule hold_finished)
qed simp

end
