(* ===== verification/LocalSchedulerClaims.thy ===== *)
theory LocalSchedulerClaims
  imports LocalSchedulerProps
begin

text \<open>The runs of the local scheduler and what they guarantee.\<close>

text \<open>
  A run, with the ids its callers were told are accepted and the ids of the requests handed to the engine,
  both in order and since the last reset.
\<close>

inductive local_run :: "req_id list \<Rightarrow> req_id list \<Rightarrow> 'o local_sched \<Rightarrow> bool" where
  run_init: "local_run [] [] (init_local cap t ch p l th)"
| run_reset: "local_run acc del s \<Longrightarrow> local_run [] [] (reset_local s)"
| run_put: "local_run acc del s \<Longrightarrow> put_requests now rs s = (Inr res, s') \<Longrightarrow>
    local_run (acc @ map fst (filter (\<lambda>(i, e). e = None) res)) del s'"
| run_fetch: "local_run acc del s \<Longrightarrow> bs \<noteq> 0 \<Longrightarrow>
    get_requests available bs reserved max_tokens batch s = (Inr rs, s') \<Longrightarrow>
    local_run acc (del @ map request_id rs) s'"
| run_results: "local_run acc del s \<Longrightarrow> \<forall>r \<in> set rs. out_id r \<notin> set (pending s) \<Longrightarrow>
    local_run acc del (put_results rs s)"
| run_collect: "local_run acc del s \<Longrightarrow> get_results s = (res, s') \<Longrightarrow> local_run acc del s'"

lemma local_run_balanced: "local_run acc del s \<Longrightarrow> lsq.balanced acc del s"
proof (induction rule: local_run.induct)
  case (run_init cap t ch p l th)
  show ?case by (simp add: lsq.balanced_def)
next
  case (run_reset acc del s)
  then show ?case by (simp add: lsq.balanced_def)
next
  case (run_put acc del s now rs res s')
  show ?case using run_put.IH by (rule lsq.balanced_put) (use run_put in \<open>auto simp: put_step_def\<close>)
next
  case (run_fetch acc del s bs available reserved max_tokens batch rs s')
  show ?case using run_fetch.IH by (rule lsq.balanced_fetch) (use run_fetch in \<open>unfold fetch_step_def, blast\<close>)
next
  case (run_results acc del s rs)
  show ?case using run_results.IH by (rule lsq.balanced_internal) (use run_results in \<open>auto simp: result_step_def\<close>)
next
  case (run_collect acc del s res s')
  show ?case using run_collect.IH by (rule lsq.balanced_internal) (use run_collect in \<open>auto simp: result_step_def\<close>)
qed

lemmas local_run_ok = lsq.balancedD(1) [OF local_run_balanced]

abbreviation (input) small_request :: "req_id \<Rightarrow> Request" where
  "small_request i \<equiv> new_Request i [1, 2, 3] 3 None None"

text \<open>A scheduler for two requests that got three and handed out one.\<close>

abbreviation (input) empty2 :: "unit local_sched" where
  "empty2 \<equiv> init_local 2 10 False 1 1 100"

abbreviation (input) filled2 :: "unit local_sched" where
  "filled2 \<equiv> snd (put_requests 0 [small_request ''a'', small_request ''b''] empty2)"

abbreviation (input) fetched2 :: "unit local_sched" where
  "fetched2 \<equiv> snd (get_requests 10 2 1 100 1 filled2)"

lemma filled2_run: "local_run [''a'', ''b''] [] filled2"
proof -
  have "put_requests 0 [small_request ''a'', small_request ''b''] empty2 = (Inr [(''a'', None), (''b'', None)], filled2)"
    by (intro prod_eqI) (simp_all, code_simp)
  from run_put [OF run_init this] show ?thesis by simp
qed

lemma fetched2_run: "local_run [''a'', ''b''] [''a''] fetched2"
proof -
  have "get_requests 10 2 1 100 1 filled2 = (Inr [small_request ''a''], fetched2)"
    by (intro prod_eqI) (simp_all, code_simp)
  from run_fetch [OF filled2_run _ this] show ?thesis by (simp add: new_Request_def)
qed

text \<open>C15: requests are handed to the engine first in, first out, each once: at any time the ids handed out, followed by those
  still pending, are the ids that were accepted, in the order of acceptance, as long as results only come for
  requests the engine has fetched.\<close>

theorem local_scheduler_fifo:
  assumes "local_run acc del s"
  shows "acc = del @ pending s"
  by (rule lsq.balancedD(2) [OF local_run_balanced [OF assms]])

theorem local_scheduler_fifo_witness: "pending fetched2 = [''b'']"
  using local_scheduler_fifo [OF fetched2_run] by simp

text \<open>No operation raises an exception in a run: a put answers every request, and a fetch or a collection of results never
  meets an id whose request is gone.\<close>

theorem local_scheduler_never_raises:
  assumes "local_run acc del s" "bs \<noteq> 0"
  shows "(\<exists>res s'. put_requests now rs s = (Inr res, s')) \<and>
    (\<exists>got s'. get_requests available bs reserved max_tokens batch s = (Inr got, s')) \<and>
    (\<exists>s'. get_results s = (Inr (ls_responses s), s'))"
proof (intro conjI)
  note ok = local_run_ok [OF assms(1)]
  show "\<exists>res s'. put_requests now rs s = (Inr res, s')" using put_requests_effect [OF ok, of now rs] by metis
  show "\<exists>got s'. get_requests available bs reserved max_tokens batch s = (Inr got, s')"
    using get_requests_effect [OF ok assms(2), of available reserved max_tokens batch] by metis
  show "\<exists>s'. get_results s = (Inr (ls_responses s), s')" using get_results_effect [OF ok] by metis
qed

theorem local_scheduler_never_raises_witness:
  "\<exists>got s'. get_requests 10 2 1 100 1 filled2 = (Inr got, s')"
  using local_scheduler_never_raises [OF filled2_run, of 2] by simp

text \<open>Collecting results hands over everything that was put and forgets exactly the requests with a finished result; the
  pending requests do not notice.\<close>

theorem collect_forgets_finished:
  assumes "local_run acc del s"
  shows "\<exists>s'. get_results s = (Inr (ls_responses s), s') \<and> pending s' = pending s \<and>
    set (in_flight s') = set (in_flight s) - {i. \<exists>rs. (i, rs) \<in> set (ls_responses s) \<and> list_ex out_finished rs}"
  by (rule get_results_effect [OF local_run_ok [OF assms]]) blast

theorem collect_forgets_finished_witness:
  "\<exists>s'. get_results (put_results [\<lparr>out_id = ''a'', out_finished = True, out_body = ()\<rparr>] fetched2) =
     (Inr [(''a'', [\<lparr>out_id = ''a'', out_finished = True, out_body = ()\<rparr>])], s')"
proof -
  let ?r = "\<lparr>out_id = ''a'', out_finished = True, out_body = ()\<rparr>"
  have p: "pending fetched2 = [''b'']" by code_simp
  have l: "ls_responses (put_results [?r] fetched2) = [(''a'', [?r])]" by code_simp
  have "local_run [''a'', ''b''] [''a''] (put_results [?r] fetched2)"
    by (rule run_results [OF fetched2_run]) (simp add: p)
  from collect_forgets_finished [OF this] show ?thesis unfolding l by blast
qed

text \<open>Requests are never recycled by their age: in no reachable state does the scheduler hold more requests than
  \<open>max_size\<close>, which is the only case in which \<open>_recycle\<close> looks at the time to live.\<close>

theorem requests_never_expire:
  assumes "local_run acc del s"
  shows "recycle_expired now s = (Inr (), s)"
  by (rule recycle_expired_idle [OF local_run_ok [OF assms]])

theorem requests_never_expire_witness: "recycle_expired 1000 filled2 = (Inr (), filled2)"
  by (rule requests_never_expire [OF filled2_run])

subsection \<open>What one fetch takes\<close>

definition blocks_of :: "int \<Rightarrow> int \<Rightarrow> Request list \<Rightarrow> int" where
  "blocks_of bs reserved rs =
     sum_list (map (\<lambda>r. calc_required_blocks (int (length (prompt_token_ids r))) bs + reserved) rs)"

definition tokens_of :: "Request list \<Rightarrow> int" where
  "tokens_of rs = sum_list (map (\<lambda>r. int (length (prompt_token_ids r))) rs)"

definition long_of :: "'o local_sched \<Rightarrow> Request list \<Rightarrow> int" where
  "long_of s rs = int (length (filter (\<lambda>r. int (length (prompt_token_ids r)) > long_prefill_token_threshold s) rs))"

lemma charge_fits:
  assumes "charge s available bs reserved max_tokens r b = (b1, True)"
  shows "required_total_blocks b1 = required_total_blocks b + blocks_of bs reserved [lr_raw r]"
    and "current_prefill_tokens b1 = current_prefill_tokens b + tokens_of [lr_raw r]"
    and "required_total_blocks b1 \<le> available"
    and "\<not> enable_chunked_prefill s \<Longrightarrow> current_prefill_tokens b1 \<le> max_tokens"
    and "enable_chunked_prefill s \<Longrightarrow> long_partial_requests b1 = long_partial_requests b + long_of s [lr_raw r]"
    and "enable_chunked_prefill s \<Longrightarrow> long_of s [lr_raw r] > 0 \<Longrightarrow> long_partial_requests b1 \<le> max_long_partial_prefills s"
    and "enable_chunked_prefill s \<Longrightarrow>
      short_partial_requests b1 + long_partial_requests b1 = short_partial_requests b + long_partial_requests b + 1"
    and "enable_chunked_prefill s \<Longrightarrow> short_partial_requests b1 + long_partial_requests b1 \<le> max_num_partial_prefills s"
  using assms
  by (auto simp: charge_def Let_def prompt_len_def blocks_of_def tokens_of_def long_of_def split: if_splits)

lemma of_Cons:
  "blocks_of bs reserved (r # rs) = blocks_of bs reserved [r] + blocks_of bs reserved rs"
  "tokens_of (r # rs) = tokens_of [r] + tokens_of rs"
  "long_of s (r # rs) = long_of s [r] + long_of s rs"
  by (simp_all add: blocks_of_def tokens_of_def long_of_def)

lemma of_Nil [simp]: "blocks_of bs reserved [] = 0" "tokens_of [] = 0" "long_of s [] = 0"
  by (simp_all add: blocks_of_def tokens_of_def long_of_def)

lemma long_of_nonneg [simp]: "0 \<le> long_of s rs"
  by (simp add: long_of_def)

definition takes_within :: "'o local_sched \<Rightarrow> int \<Rightarrow> int \<Rightarrow> int \<Rightarrow> int \<Rightarrow> budget \<Rightarrow> Request list \<Rightarrow> bool" where
  "takes_within s available bs reserved max_tokens b rs =
     (required_total_blocks b + blocks_of bs reserved rs \<le> available \<and>
      (\<not> enable_chunked_prefill s \<longrightarrow> current_prefill_tokens b + tokens_of rs \<le> max_tokens) \<and>
      (enable_chunked_prefill s \<longrightarrow>
         (long_of s rs > 0 \<longrightarrow> long_partial_requests b + long_of s rs \<le> max_long_partial_prefills s) \<and>
         short_partial_requests b + long_partial_requests b + int (length rs) \<le> max_num_partial_prefills s))"

lemma takes_within_Cons:
  assumes "charge s available bs reserved max_tokens r b = (b1, True)"
    "rs = [] \<or> takes_within s available bs reserved max_tokens b1 rs"
  shows "takes_within s available bs reserved max_tokens b (lr_raw r # rs)"
  unfolding takes_within_def of_Cons [where r = "lr_raw r" and rs = rs]
  using charge_fits [OF assms(1)] assms(2) by (auto simp: takes_within_def)

lemma pick_within:
  "pick s available bs reserved max_tokens b rids = Inr rs \<Longrightarrow> rs \<noteq> [] \<Longrightarrow>
   takes_within s available bs reserved max_tokens b rs"
proof (induction rids arbitrary: b rs)
  case Nil
  then show ?case by simp
next
  case (Cons rid rids)
  obtain r where r: "map_of (ls_requests s) rid = Some r" using Cons.prems by (auto split: option.splits)
  obtain b1 fits where c: "charge s available bs reserved max_tokens r b = (b1, fits)" by fastforce
  have f: "fits" using Cons.prems r c by (auto split: if_splits)
  then obtain rs1 where p: "pick s available bs reserved max_tokens b1 rids = Inr rs1" and rs: "rs = lr_raw r # rs1"
    using Cons.prems r c by (auto split: if_splits sum.splits)
  show ?case unfolding rs
    by (rule takes_within_Cons [OF c [unfolded eqTrueI [OF f]]]) (use Cons.IH [OF p] in blast)
qed

text \<open>What one fetch hands out stays within the resources it was offered: the blocks for the prompts with the reserved
  output blocks are available; without chunked prefill the prompt tokens fit into one batch, and with it the
  limits on partial prefills, and on long ones among them, are respected.\<close>

theorem fetch_within_budget:
  assumes "get_requests available bs reserved max_tokens batch s = (Inr rs, s')" "rs \<noteq> []"
  shows "blocks_of bs reserved rs \<le> available \<and>
    (if enable_chunked_prefill s
     then int (length rs) \<le> max_num_partial_prefills s \<and>
       (long_of s rs > 0 \<longrightarrow> long_of s rs \<le> max_long_partial_prefills s)
     else tokens_of rs \<le> max_tokens)"
proof -
  have "takes_within s available bs reserved max_tokens no_budget rs"
    using assms by (auto simp: get_requests_def split: if_splits sum.splits intro: pick_within)
  then show ?thesis by (auto simp: takes_within_def no_budget_def)
qed

theorem fetch_within_budget_witness: "blocks_of 2 1 [small_request ''a''] \<le> 10"
proof -
  have "get_requests 10 2 1 100 1 filled2 = (Inr [small_request ''a''], fetched2)"
    by (intro prod_eqI) (simp_all, code_simp)
  from fetch_within_budget [OF this] show ?thesis by blast
qed

lemma head_taken:
  assumes "local_ok s" "pending s = rid # rest" "map_of (ls_requests s) rid = Some r" "bs \<noteq> 0" "1 \<le> batch"
    "calc_required_blocks (prompt_len r) bs + reserved \<le> available" "reserved < available"
    "\<not> enable_chunked_prefill s \<longrightarrow> prompt_len r \<le> max_tokens"
    "enable_chunked_prefill s \<longrightarrow> 1 \<le> max_num_partial_prefills s \<and> 1 \<le> max_long_partial_prefills s"
  shows "\<exists>rs s'. get_requests available bs reserved max_tokens batch s = (Inr (lr_raw r # rs), s')"
proof -
  note ok = assms(1)
  have "py_slice (ids_read_cursor s) (ids_read_cursor s + batch) (ids s) = take (nat batch) (pending s)"
    using local_okD(7) [OF ok] assms(5) by (simp add: py_slice_front pending_def)
  also have "\<dots> = rid # take (nat batch - 1) rest" using assms(2,5) by (simp add: take_Cons')
  finally have b: "py_slice (ids_read_cursor s) (ids_read_cursor s + batch) (ids s) = rid # take (nat batch - 1) rest" .
  have "snd (charge s available bs reserved max_tokens r no_budget)"
    using assms(6-9) by (auto simp: charge_def no_budget_def Let_def)
  then obtain b1 where c: "charge s available bs reserved max_tokens r no_budget = (b1, True)"
    by (metis prod.collapse)
  obtain got s' where g: "get_requests available bs reserved max_tokens batch s = (Inr got, s')"
    using get_requests_effect [OF ok assms(4), of available reserved max_tokens batch] by metis
  have "\<exists>rs. got = lr_raw r # rs"
    using g assms(3-5,7) c by (auto simp: get_requests_def b split: sum.splits if_splits)
  with g show ?thesis by blast
qed

text \<open>The head of the queue is never passed over: a fetch for which its blocks are available and the limits allow one
  request hands it out, so a waiting request starts as soon as the ones before it have and it fits.\<close>

theorem head_is_fetched:
  assumes "local_run acc del s" "pending s = rid # rest" "map_of (ls_requests s) rid = Some r" "bs \<noteq> 0" "1 \<le> batch"
    "calc_required_blocks (prompt_len r) bs + reserved \<le> available" "reserved < available"
    "\<not> enable_chunked_prefill s \<longrightarrow> prompt_len r \<le> max_tokens"
    "enable_chunked_prefill s \<longrightarrow> 1 \<le> max_num_partial_prefills s \<and> 1 \<le> max_long_partial_prefills s"
  shows "\<exists>rs s'. get_requests available bs reserved max_tokens batch s = (Inr (lr_raw r # rs), s')"
  by (rule head_taken [OF local_run_ok [OF assms(1)] assms(2-9)])

theorem head_is_fetched_witness:
  "\<exists>rs s'. get_requests 3 2 1 100 5 fetched2 = (Inr (small_request ''b'' # rs), s')"
proof -
  have p: "pending fetched2 = [''b'']" "enable_chunked_prefill fetched2 = False" by code_simp+
  have m: "map_of (ls_requests fetched2) ''b'' = Some \<lparr>lr_raw = small_request ''b'', lr_schedule_time = 0\<rparr>" by code_simp
  let ?r = "\<lparr>lr_raw = small_request ''b'', lr_schedule_time = 0\<rparr>"
  have l: "prompt_len ?r = 3" by (simp add: prompt_len_def new_Request_def)
  have "enable_chunked_prefill fetched2 \<longrightarrow> 1 \<le> max_num_partial_prefills fetched2 \<and> 1 \<le> max_long_partial_prefills fetched2"
    by (simp only: p(2) simp_thms)
  from head_is_fetched [OF fetched2_run p(1) m _ _ _ _ _ this, of 2 5 1 3 100]
  have "\<exists>rs s'. get_requests 3 2 1 100 5 fetched2 = (Inr (lr_raw ?r # rs), s')"
    unfolding l by (simp add: calc_required_blocks_def)
  then show ?thesis by simp
qed

end
