(* ===== verification/Broadcast.thy ===== *)
theory Broadcast
  imports FDPrelude
begin

text \<open>
  A queue that every one of \<open>n\<close> clients reads: its head stays until the last client has taken it. \<open>pend\<close> are
  the items not yet read by all, \<open>readers\<close> the clients that have read the head. Each client is then given
  every item exactly once, in the order in which they were put.
\<close>

locale broadcast =
  fixes clients :: "'s \<Rightarrow> nat" and wf :: "'s \<Rightarrow> bool" and pend :: "'s \<Rightarrow> 'i list" and readers :: "'s \<Rightarrow> nat set"
    and put :: "'s \<Rightarrow> 'i \<Rightarrow> 's \<Rightarrow> bool" and recv :: "'s \<Rightarrow> nat \<Rightarrow> 'i \<Rightarrow> 's \<Rightarrow> bool"
  assumes idle_law: "wf s \<Longrightarrow> pend s = [] \<Longrightarrow> readers s = {}"
    and put_law: "wf s \<Longrightarrow> put s x s' \<Longrightarrow>
      wf s' \<and> clients s' = clients s \<and> pend s' = pend s @ [x] \<and> readers s' = readers s"
    and recv_law: "wf s \<Longrightarrow> recv s c x s' \<Longrightarrow>
      wf s' \<and> clients s' = clients s \<and> c < clients s \<and> c \<notin> readers s \<and> (\<exists>rest. pend s = x # rest \<and>
        (if insert c (readers s) = {..<clients s} then pend s' = rest \<and> readers s' = {}
         else pend s' = pend s \<and> readers s' = insert c (readers s)))"
begin

definition delivered :: "'i list \<Rightarrow> (nat \<Rightarrow> 'i list) \<Rightarrow> 's \<Rightarrow> bool" where
  "delivered sent got s =
     (wf s \<and> (\<exists>done. sent = done @ pend s \<and>
        (\<forall>c < clients s. got c = done @ (if c \<in> readers s then [hd (pend s)] else []))))"

lemma delivered_put:
  assumes "delivered sent got s" "put s x s'"
  shows "delivered (sent @ [x]) got s'"
proof -
  have w: "wf s" using assms(1) by (simp add: delivered_def)
  then have "hd (pend s @ [x]) = hd (pend s)" if "c \<in> readers s" for c
    using idle_law [OF w] that by (cases "pend s") auto
  then show ?thesis using put_law [OF w assms(2)] assms(1) by (auto simp: delivered_def)
qed

lemma delivered_recv:
  assumes "delivered sent got s" "recv s c x s'"
  shows "delivered sent (got(c := got c @ [x])) s'"
proof -
  have w: "wf s" using assms(1) by (simp add: delivered_def)
  note R = recv_law [OF w assms(2)]
  then obtain rest where rest: "pend s = x # rest" by blast
  obtain don where d: "sent = don @ pend s" "\<forall>d < clients s. got d = don @ (if d \<in> readers s then [hd (pend s)] else [])"
    using assms(1) by (auto simp: delivered_def)
  show ?thesis
  proof (cases "insert c (readers s) = {..<clients s}")
    case True
    then have s': "pend s' = rest" "readers s' = {}" using R rest by simp_all
    have "\<forall>d < clients s. (got(c := got c @ [x])) d = don @ [x]"
      using d(2) True R rest by auto
    then show ?thesis using R d(1) s' rest
      by (auto simp: delivered_def intro!: exI [of _ "don @ [x]"])
  next
    case False
    then have s': "pend s' = pend s" "readers s' = insert c (readers s)" using R by simp_all
    then show ?thesis using R d rest
      by (auto simp: delivered_def intro!: exI [of _ don])
  qed
qed

lemma deliveredD:
  assumes "delivered sent got s" "c < clients s"
  shows "\<exists>k. got c = take k sent"
    and "\<exists>done. sent = done @ pend s \<and> (\<exists>k. got c = done @ take k (pend s))"
proof -
  obtain don where d: "sent = don @ pend s" "got c = don @ (if c \<in> readers s then [hd (pend s)] else [])"
    using assms by (auto simp: delivered_def)
  have w: "wf s" using assms(1) by (simp add: delivered_def)
  have "pend s \<noteq> []" if "c \<in> readers s" using idle_law [OF w] that by auto
  then have g: "got c = don @ take (if c \<in> readers s then 1 else 0) (pend s)"
    using d(2) by (cases "pend s") auto
  then show "\<exists>done. sent = done @ pend s \<and> (\<exists>k. got c = done @ take k (pend s))" using d(1) by blast
  have "got c = take (length don + (if c \<in> readers s then 1 else 0)) sent" unfolding g d(1) by simp
  then show "\<exists>k. got c = take k sent" by blast
qed

end

end
