(* ===== verification/EngineQueues.thy ===== *)
theory EngineQueues
  imports Broadcast
begin

text \<open>
  The shared state between the engine and its workers (\<open>inter_communicator/engine_worker_queue.py\<close>), for one
  local data parallel id. Both sides hold proxies of the same lists, and every operation runs under a lock, so
  it is atomic. A putting operation waits until all clients have read: it is \<open>None\<close> in a state in which its
  loop goes round once more.
\<close>

record ('t, 'c, 'd) worker_queue =
  num_client :: nat
  wq_tasks :: "'t list"
  client_read_flag :: "int list"
  cache_infos :: "'c list"
  client_read_info_flag :: "int list"
  connected_client_counter :: int
  finished_req_queue :: "'d list"
  disaggregate_requests :: "'d list"
  available_prefill_instances :: "'d list"

definition init_worker_queue :: "nat \<Rightarrow> ('t, 'c, 'd) worker_queue" where
  "init_worker_queue n =
     \<lparr>num_client = n, wq_tasks = [], client_read_flag = replicate n 1, cache_infos = [],
      client_read_info_flag = replicate n 1, connected_client_counter = 0, finished_req_queue = [],
      disaggregate_requests = [], available_prefill_instances = []\<rparr>"

definition check_client_id :: "nat \<Rightarrow> ('t, 'c, 'd) worker_queue \<Rightarrow> unit res" where
  "check_client_id client_id s = (if client_id < num_client s then Inr () else Inl AssertionError)"

definition connect_client :: "('t, 'c, 'd) worker_queue \<Rightarrow> (('t, 'c, 'd) worker_queue, unit) outcome" where
  "connect_client s =
     (if num_client s \<noteq> length (client_read_flag s) then (Inl AssertionError, s)
      else (Inr (), s\<lparr>connected_client_counter := connected_client_counter s + 1\<rparr>))"

subsection \<open>Tasks\<close>

definition put_tasks :: "'t \<Rightarrow> ('t, 'c, 'd) worker_queue \<Rightarrow> ('t, 'c, 'd) worker_queue option" where
  "put_tasks batch s =
     (if sum_list (client_read_flag s) < int (num_client s) then None
      else Some (s\<lparr>wq_tasks := [batch], client_read_flag := replicate (num_client s) 0\<rparr>))"

definition get_tasks :: "nat \<Rightarrow> ('t, 'c, 'd) worker_queue \<Rightarrow> ('t list \<times> bool) \<times> ('t, 'c, 'd) worker_queue" where
  "get_tasks client_id s =
     (let flags = (client_read_flag s)[client_id := 1];
          all_client_read = (sum_list flags = int (num_client s))
      in ((wq_tasks s, all_client_read),
          s\<lparr>client_read_flag := flags, wq_tasks := (if all_client_read then [] else wq_tasks s)\<rparr>))"

definition num_tasks :: "('t, 'c, 'd) worker_queue \<Rightarrow> nat" where
  "num_tasks s = length (wq_tasks s)"

subsection \<open>Cache information\<close>

definition put_cache_info :: "'c list \<Rightarrow> ('t, 'c, 'd) worker_queue \<Rightarrow> ('t, 'c, 'd) worker_queue option" where
  "put_cache_info infos s =
     (if sum_list (client_read_info_flag s) < int (num_client s) then None
      else Some (s\<lparr>cache_infos := infos, client_read_info_flag := replicate (num_client s) 0\<rparr>))"

definition get_cache_info :: "nat \<Rightarrow> ('t, 'c, 'd) worker_queue \<Rightarrow> 'c list \<times> ('t, 'c, 'd) worker_queue" where
  "get_cache_info client_id s =
     (if client_read_info_flag s ! client_id = 1 then ([], s)
      else
        let flags = (client_read_info_flag s)[client_id := 1];
            all_client_read = (sum_list flags = int (num_client s))
        in (cache_infos s,
            s\<lparr>client_read_info_flag := flags, cache_infos := (if all_client_read then [] else cache_infos s)\<rparr>))"

definition num_cache_infos :: "('t, 'c, 'd) worker_queue \<Rightarrow> nat" where
  "num_cache_infos s = length (cache_infos s)"

subsection \<open>The plain queues\<close>

text \<open>\<open>Queue.get\<close> of an empty queue blocks; the code asks for the size first, and falls back to 0.\<close>

definition get_prefill_instances :: "('t, 'c, 'd) worker_queue \<Rightarrow> 'd option \<times> ('t, 'c, 'd) worker_queue" where
  "get_prefill_instances s =
     (case available_prefill_instances s of
        [] \<Rightarrow> (None, s) | x # xs \<Rightarrow> (Some x, s\<lparr>available_prefill_instances := xs\<rparr>))"

definition put_finished_req :: "'d \<Rightarrow> ('t, 'c, 'd) worker_queue \<Rightarrow> ('t, 'c, 'd) worker_queue" where
  "put_finished_req x s = s\<lparr>finished_req_queue := finished_req_queue s @ [x]\<rparr>"

definition get_finished_req :: "('t, 'c, 'd) worker_queue \<Rightarrow> 'd option \<times> ('t, 'c, 'd) worker_queue" where
  "get_finished_req s =
     (case finished_req_queue s of [] \<Rightarrow> (None, s) | x # xs \<Rightarrow> (Some x, s\<lparr>finished_req_queue := xs\<rparr>))"

definition disaggregate_queue_empty :: "('t, 'c, 'd) worker_queue \<Rightarrow> bool" where
  "disaggregate_queue_empty s = (disaggregate_requests s = [])"

definition put_disaggregated_tasks :: "'d \<Rightarrow> ('t, 'c, 'd) worker_queue \<Rightarrow> ('t, 'c, 'd) worker_queue" where
  "put_disaggregated_tasks x s = s\<lparr>disaggregate_requests := disaggregate_requests s @ [x]\<rparr>"

definition get_disaggregated_tasks :: "('t, 'c, 'd) worker_queue \<Rightarrow> 'd list option \<times> ('t, 'c, 'd) worker_queue" where
  "get_disaggregated_tasks s =
     (if disaggregate_requests s = [] then (None, s)
      else (Some (disaggregate_requests s), s\<lparr>disaggregate_requests := []\<rparr>))"

subsection \<open>Both lists are broadcasts\<close>

definition flags_ok :: "nat \<Rightarrow> int list \<Rightarrow> bool" where
  "flags_ok n flags = (length flags = n \<and> (\<forall>f \<in> set flags. f = 0 \<or> f = 1))"

definition readers_of :: "int list \<Rightarrow> nat set" where
  "readers_of flags = {c. c < length flags \<and> flags ! c = 1}"

lemma flags_sum:
  assumes "\<forall>f \<in> set flags. f = 0 \<or> f = (1::int)"
  shows "sum_list flags \<le> int (length flags) \<and> (sum_list flags = int (length flags) \<longleftrightarrow> (\<forall>f \<in> set flags. f = 1))"
  using assms by (induction flags) auto

lemma flags_full:
  assumes "flags_ok n flags"
  shows "sum_list flags < int n \<longleftrightarrow> readers_of flags \<noteq> {..<n}" "sum_list flags = int n \<longleftrightarrow> readers_of flags = {..<n}"
proof -
  have len: "length flags = n" and b: "\<forall>f \<in> set flags. f = 0 \<or> f = 1" using assms by (simp_all add: flags_ok_def)
  have "(\<forall>f \<in> set flags. f = 1) \<longleftrightarrow> readers_of flags = {..<n}"
    unfolding readers_of_def all_set_conv_all_nth len by auto
  then show "sum_list flags < int n \<longleftrightarrow> readers_of flags \<noteq> {..<n}" "sum_list flags = int n \<longleftrightarrow> readers_of flags = {..<n}"
    using flags_sum [OF b] len by auto
qed

lemma flags_update:
  assumes "flags_ok n flags" "c < n"
  shows "flags_ok n (flags[c := 1])" "readers_of (flags[c := 1]) = insert c (readers_of flags)"
  using assms by (auto simp: flags_ok_def readers_of_def nth_list_update dest!: set_update_subset_insert [THEN subsetD])

lemma flags_zero: "flags_ok n (replicate n 0)" "readers_of (replicate n 0) = {}"
  by (auto simp: flags_ok_def readers_of_def)

lemma flags_one: "flags_ok n (replicate n 1)" "readers_of (replicate n 1) = {..<n}"
  by (auto simp: flags_ok_def readers_of_def)

text \<open>The clients that have read the batch at hand; none has read the next one when all have read it.\<close>

definition current_readers :: "nat \<Rightarrow> int list \<Rightarrow> nat set" where
  "current_readers n flags = (if readers_of flags = {..<n} then {} else readers_of flags)"

lemma slot_put:
  assumes "0 < n" "flags_ok n flags" "\<not> sum_list flags < int n"
  shows "readers_of flags = {..<n}" "current_readers n flags = {}" "current_readers n (replicate n 0) = {}"
    "readers_of (replicate n 0) \<noteq> {..<n}"
  using assms flags_full(1) [OF assms(2)] by (auto simp: current_readers_def flags_zero)

lemma slot_get:
  assumes "flags_ok n flags" "c < n" "flags ! c \<noteq> 1"
  shows "readers_of flags \<noteq> {..<n}" "current_readers n flags = readers_of flags" "c \<notin> current_readers n flags"
    "sum_list (flags[c := 1]) = int n \<longleftrightarrow> insert c (current_readers n flags) = {..<n}"
    "readers_of (flags[c := 1]) = insert c (current_readers n flags)"
    "current_readers n (flags[c := 1]) =
      (if insert c (current_readers n flags) = {..<n} then {} else insert c (current_readers n flags))"
proof -
  have c: "c \<notin> readers_of flags" using assms(3) by (simp add: readers_of_def)
  then show r: "readers_of flags \<noteq> {..<n}" using assms(2) by auto
  then show e: "current_readers n flags = readers_of flags" by (simp add: current_readers_def)
  show "c \<notin> current_readers n flags" using c e by simp
  note u = flags_update [OF assms(1,2)]
  show "sum_list (flags[c := 1]) = int n \<longleftrightarrow> insert c (current_readers n flags) = {..<n}"
    using flags_full(2) [OF u(1)] by (simp add: e u(2))
  show "readers_of (flags[c := 1]) = insert c (current_readers n flags)" by (simp add: e u(2))
  show "current_readers n (flags[c := 1]) =
      (if insert c (current_readers n flags) = {..<n} then {} else insert c (current_readers n flags))"
    by (simp add: e u(2)) (simp add: current_readers_def u(2))
qed

definition tasks_readers :: "('t, 'c, 'd) worker_queue \<Rightarrow> nat set" where
  "tasks_readers s = current_readers (num_client s) (client_read_flag s)"

definition tasks_wf :: "('t, 'c, 'd) worker_queue \<Rightarrow> bool" where
  "tasks_wf s = (0 < num_client s \<and> flags_ok (num_client s) (client_read_flag s) \<and>
     (if readers_of (client_read_flag s) = {..<num_client s} then wq_tasks s = [] else length (wq_tasks s) = 1))"

definition tasks_put :: "('t, 'c, 'd) worker_queue \<Rightarrow> 't \<Rightarrow> ('t, 'c, 'd) worker_queue \<Rightarrow> bool" where
  "tasks_put s batch s' = (put_tasks batch s = Some s')"

text \<open>A worker fetches a batch once: it does so when its flag is down.\<close>

definition tasks_recv :: "('t, 'c, 'd) worker_queue \<Rightarrow> nat \<Rightarrow> 't \<Rightarrow> ('t, 'c, 'd) worker_queue \<Rightarrow> bool" where
  "tasks_recv s c batch s' =
     (c < num_client s \<and> client_read_flag s ! c = 0 \<and> (\<exists>done. get_tasks c s = (([batch], done), s')))"

lemma tasks_put_effect:
  assumes wf: "tasks_wf s" and p: "tasks_put s x s'"
  shows "tasks_wf s' \<and> num_client s' = num_client s \<and> wq_tasks s' = wq_tasks s @ [x] \<and> tasks_readers s' = tasks_readers s"
proof -
  have n: "0 < num_client s" and f: "flags_ok (num_client s) (client_read_flag s)" using wf by (simp_all add: tasks_wf_def)
  have g: "\<not> sum_list (client_read_flag s) < int (num_client s)"
    and s': "s' = s\<lparr>wq_tasks := [x], client_read_flag := replicate (num_client s) 0\<rparr>"
    using p by (auto simp: tasks_put_def put_tasks_def split: if_splits)
  note sp = slot_put [OF n f g]
  have "wq_tasks s = []" using wf sp(1) by (simp add: tasks_wf_def)
  then show ?thesis using n sp by (simp add: s' tasks_wf_def tasks_readers_def flags_zero(1))
qed

lemma tasks_recv_effect:
  assumes wf: "tasks_wf s" and r: "tasks_recv s c x s'"
  shows "tasks_wf s' \<and> num_client s' = num_client s \<and> c < num_client s \<and> c \<notin> tasks_readers s \<and>
    (\<exists>rest. wq_tasks s = x # rest \<and>
      (if insert c (tasks_readers s) = {..<num_client s} then wq_tasks s' = rest \<and> tasks_readers s' = {}
       else wq_tasks s' = wq_tasks s \<and> tasks_readers s' = insert c (tasks_readers s)))"
proof -
  have n: "0 < num_client s" and f: "flags_ok (num_client s) (client_read_flag s)" using wf by (simp_all add: tasks_wf_def)
  have c: "c < num_client s" "client_read_flag s ! c \<noteq> 1" "wq_tasks s = [x]" and s': "s' = snd (get_tasks c s)"
    using r by (auto simp: tasks_recv_def get_tasks_def Let_def)
  note sg = slot_get [OF f c(1,2)]
  show ?thesis
    using n c sg(3) flags_update(1) [OF f c(1)]
    by (simp add: s' get_tasks_def Let_def tasks_wf_def tasks_readers_def sg(4-6))
qed

interpretation tq: broadcast num_client tasks_wf wq_tasks tasks_readers tasks_put tasks_recv
proof
  fix s
  show "wq_tasks s = [] \<Longrightarrow> tasks_readers s = {}" if "tasks_wf s"
    using that by (auto simp: tasks_wf_def tasks_readers_def current_readers_def split: if_splits)
qed (rule tasks_put_effect tasks_recv_effect; assumption)+

text \<open>The cache information: one batch at a time, and a client with its flag up gets nothing.\<close>

definition infos_pend :: "('t, 'c, 'd) worker_queue \<Rightarrow> 'c list list" where
  "infos_pend s = (if readers_of (client_read_info_flag s) = {..<num_client s} then [] else [cache_infos s])"

definition infos_readers :: "('t, 'c, 'd) worker_queue \<Rightarrow> nat set" where
  "infos_readers s = current_readers (num_client s) (client_read_info_flag s)"

definition infos_wf :: "('t, 'c, 'd) worker_queue \<Rightarrow> bool" where
  "infos_wf s = (0 < num_client s \<and> flags_ok (num_client s) (client_read_info_flag s))"

definition infos_put :: "('t, 'c, 'd) worker_queue \<Rightarrow> 'c list \<Rightarrow> ('t, 'c, 'd) worker_queue \<Rightarrow> bool" where
  "infos_put s infos s' = (put_cache_info infos s = Some s')"

definition infos_recv :: "('t, 'c, 'd) worker_queue \<Rightarrow> nat \<Rightarrow> 'c list \<Rightarrow> ('t, 'c, 'd) worker_queue \<Rightarrow> bool" where
  "infos_recv s c infos s' =
     (c < num_client s \<and> client_read_info_flag s ! c \<noteq> 1 \<and> get_cache_info c s = (infos, s'))"

lemma infos_put_effect:
  assumes wf: "infos_wf s" and p: "infos_put s x s'"
  shows "infos_wf s' \<and> num_client s' = num_client s \<and> infos_pend s' = infos_pend s @ [x] \<and> infos_readers s' = infos_readers s"
proof -
  have n: "0 < num_client s" and f: "flags_ok (num_client s) (client_read_info_flag s)" using wf by (simp_all add: infos_wf_def)
  have g: "\<not> sum_list (client_read_info_flag s) < int (num_client s)"
    and s': "s' = s\<lparr>cache_infos := x, client_read_info_flag := replicate (num_client s) 0\<rparr>"
    using p by (auto simp: infos_put_def put_cache_info_def split: if_splits)
  show ?thesis using n slot_put [OF n f g] by (simp add: s' infos_wf_def infos_pend_def infos_readers_def flags_zero(1))
qed

lemma infos_recv_effect:
  assumes wf: "infos_wf s" and r: "infos_recv s c x s'"
  shows "infos_wf s' \<and> num_client s' = num_client s \<and> c < num_client s \<and> c \<notin> infos_readers s \<and>
    (\<exists>rest. infos_pend s = x # rest \<and>
      (if insert c (infos_readers s) = {..<num_client s} then infos_pend s' = rest \<and> infos_readers s' = {}
       else infos_pend s' = infos_pend s \<and> infos_readers s' = insert c (infos_readers s)))"
proof -
  have n: "0 < num_client s" and f: "flags_ok (num_client s) (client_read_info_flag s)" using wf by (simp_all add: infos_wf_def)
  have c: "c < num_client s" "client_read_info_flag s ! c \<noteq> 1" "x = cache_infos s" and s': "s' = snd (get_cache_info c s)"
    using r by (auto simp: infos_recv_def get_cache_info_def Let_def)
  note sg = slot_get [OF f c(1,2)]
  show ?thesis
    using n c sg(1,3) flags_update(1) [OF f c(1)]
    by (simp add: s' get_cache_info_def Let_def infos_wf_def infos_readers_def infos_pend_def sg(4-6))
qed

interpretation iq: broadcast num_client infos_wf infos_pend infos_readers infos_put infos_recv
proof
  fix s
  show "infos_pend s = [] \<Longrightarrow> infos_readers s = {}" if "infos_wf s"
    by (auto simp: infos_pend_def infos_readers_def current_readers_def split: if_splits)
qed (rule infos_put_effect infos_recv_effect; assumption)+

end
