(* ===== verification/CacheQueue.thy ===== *)
theory CacheQueue
  imports Broadcast "HOL-Library.Word"
begin

unbundle bit_operations_syntax

text \<open>
  The queue of swap tasks between the cache manager and the transfer processes of the tensor parallel group
  (\<open>inter_communicator/engine_cache_queue.py\<close>), for one local data parallel id. Every rank takes each task once;
  \<open>task_sync_value\<close> holds one bit per rank that has taken the task at the head. Putting a task takes the lock,
  but a putter that finds the head half taken lets go of the lock, waits, and takes the lock again later, so
  that its second half is a step of its own.
\<close>

record 'i transfer_queue =
  tr_num_client :: nat
  transfer_task_queue :: "'i list"
  task_sync_value :: int
  transfer_done_queue :: "'i list"

definition init_transfer_queue :: "nat \<Rightarrow> 'i transfer_queue" where
  "init_transfer_queue n =
     \<lparr>tr_num_client = n, transfer_task_queue = [], task_sync_value = 0, transfer_done_queue = []\<rparr>"

definition total_num :: "'i transfer_queue \<Rightarrow> int" where
  "total_num s = push_bit (tr_num_client s) 1 - 1"

definition position :: "nat \<Rightarrow> int" where
  "position client_id = push_bit client_id 1"

text \<open>\<open>0 < self.task_sync_value.get() < self.total_num\<close>.\<close>

definition half_taken :: "'i transfer_queue \<Rightarrow> bool" where
  "half_taken s = (0 < task_sync_value s \<and> task_sync_value s < total_num s)"

text \<open>The end of \<open>put_transfer_task\<close>, under the lock.\<close>

definition append_task :: "'i \<Rightarrow> 'i transfer_queue \<Rightarrow> 'i transfer_queue" where
  "append_task item s = s\<lparr>task_sync_value := 0, transfer_task_queue := transfer_task_queue s @ [item]\<rparr>"

text \<open>Its first half: the task is appended at once, or the putter has to wait.\<close>

definition put_transfer_task :: "'i \<Rightarrow> 'i transfer_queue \<Rightarrow> 'i transfer_queue option" where
  "put_transfer_task item s = (if half_taken s then None else Some (append_task item s))"

definition get_transfer_task :: "nat \<Rightarrow> 'i transfer_queue \<Rightarrow> ('i option \<times> bool) \<times> 'i transfer_queue" where
  "get_transfer_task client_id s =
     (if task_sync_value s AND position client_id = 0 \<and> transfer_task_queue s \<noteq> [] then
        let data = hd (transfer_task_queue s); set_value = task_sync_value s OR position client_id in
        if set_value \<ge> total_num s then
          ((Some data, True), s\<lparr>transfer_task_queue := tl (transfer_task_queue s), task_sync_value := 0\<rparr>)
        else ((Some data, False), s\<lparr>task_sync_value := set_value\<rparr>)
      else ((None, False), s))"

definition put_transfer_done_signal :: "'i \<Rightarrow> 'i transfer_queue \<Rightarrow> 'i transfer_queue" where
  "put_transfer_done_signal item s = s\<lparr>transfer_done_queue := transfer_done_queue s @ [item]\<rparr>"

definition get_transfer_done_signal :: "'i transfer_queue \<Rightarrow> 'i option \<times> 'i transfer_queue" where
  "get_transfer_done_signal s =
     (case transfer_done_queue s of [] \<Rightarrow> (None, s) | x # xs \<Rightarrow> (Some x, s\<lparr>transfer_done_queue := xs\<rparr>))"

definition transfer_empty :: "'i transfer_queue \<Rightarrow> bool" where
  "transfer_empty s = (transfer_task_queue s = [])"

subsection \<open>The bits of the ranks\<close>

definition sync_readers :: "'i transfer_queue \<Rightarrow> nat set" where
  "sync_readers s = {c. c < tr_num_client s \<and> bit (task_sync_value s) c}"

definition transfer_wf :: "'i transfer_queue \<Rightarrow> bool" where
  "transfer_wf s = (0 \<le> task_sync_value s \<and> task_sync_value s < total_num s \<and>
     (transfer_task_queue s = [] \<longrightarrow> task_sync_value s = 0))"

lemma total_num_mask: "total_num s = mask (tr_num_client s)"
  by (simp add: total_num_def mask_eq_exp_minus_1 push_bit_of_1)

lemma full_mask:
  fixes v :: int
  assumes "0 \<le> v" "v < 2 ^ n"
  shows "v \<ge> mask n \<longleftrightarrow> {c. c < n \<and> bit v c} = {..<n}"
proof -
  have t: "take_bit n v = v" using assms by (simp add: take_bit_int_eq_self)
  have "v \<ge> mask n \<longleftrightarrow> v = mask n" using assms by (auto simp: mask_eq_exp_minus_1)
  also have "\<dots> \<longleftrightarrow> (\<forall>c < n. bit v c)"
  proof
    assume "v = mask n"
    then show "\<forall>c < n. bit v c" by (simp add: bit_mask_iff)
  next
    assume "\<forall>c < n. bit v c"
    then show "v = mask n"
      by (intro bit_eqI) (subst t [symmetric], auto simp: bit_mask_iff bit_take_bit_iff)
  qed
  also have "\<dots> \<longleftrightarrow> {c. c < n \<and> bit v c} = {..<n}" by auto
  finally show ?thesis .
qed

lemma set_value_range:
  fixes v :: int
  assumes "0 \<le> v" "v < 2 ^ n" "c < n"
  shows "0 \<le> v OR 2 ^ c" "v OR 2 ^ c < 2 ^ n"
proof -
  show "0 \<le> v OR 2 ^ c" using assms(1) by (simp add: or_nonnegative_int_iff)
  have "take_bit n (v OR 2 ^ c) = v OR 2 ^ c"
    using assms by (simp add: take_bit_or take_bit_int_eq_self)
  then show "v OR 2 ^ c < 2 ^ n" by (metis take_bit_int_less_exp)
qed

definition transfer_put :: "'i transfer_queue \<Rightarrow> 'i \<Rightarrow> 'i transfer_queue \<Rightarrow> bool" where
  "transfer_put s x s' = (\<not> half_taken s \<and> s' = append_task x s)"

definition transfer_recv :: "'i transfer_queue \<Rightarrow> nat \<Rightarrow> 'i \<Rightarrow> 'i transfer_queue \<Rightarrow> bool" where
  "transfer_recv s c x s' = (c < tr_num_client s \<and> (\<exists>finished. get_transfer_task c s = ((Some x, finished), s')))"

lemma transfer_put_effect:
  assumes wf: "transfer_wf s" and p: "transfer_put s x s'"
  shows "transfer_wf s' \<and> tr_num_client s' = tr_num_client s \<and>
    transfer_task_queue s' = transfer_task_queue s @ [x] \<and> sync_readers s' = sync_readers s"
proof -
  have "task_sync_value s = 0" using wf p by (auto simp: transfer_wf_def transfer_put_def half_taken_def)
  then show ?thesis using wf p
    by (simp add: transfer_put_def append_task_def transfer_wf_def sync_readers_def total_num_def)
qed

lemma transfer_recv_effect:
  assumes wf: "transfer_wf s" and r: "transfer_recv s c x s'"
  shows "transfer_wf s' \<and> tr_num_client s' = tr_num_client s \<and> c < tr_num_client s \<and> c \<notin> sync_readers s \<and>
    (\<exists>rest. transfer_task_queue s = x # rest \<and>
      (if insert c (sync_readers s) = {..<tr_num_client s} then transfer_task_queue s' = rest \<and> sync_readers s' = {}
       else transfer_task_queue s' = transfer_task_queue s \<and> sync_readers s' = insert c (sync_readers s)))"
proof -
  let ?n = "tr_num_client s" and ?v = "task_sync_value s OR 2 ^ c"
  have v: "0 \<le> task_sync_value s" "task_sync_value s < 2 ^ ?n"
    using wf by (auto simp: transfer_wf_def total_num_mask mask_eq_exp_minus_1)
  have c: "c < ?n" and nb: "\<not> bit (task_sync_value s) c" and q: "transfer_task_queue s = x # tl (transfer_task_queue s)"
    and s': "s' = snd (get_transfer_task c s)"
    using r by (auto simp: transfer_recv_def get_transfer_task_def Let_def position_def push_bit_of_1
        and_exp_eq_0_iff_not_bit split: if_splits)
  have ins: "{d. d < ?n \<and> bit ?v d} = insert c (sync_readers s)"
    using c by (auto simp: sync_readers_def bit_or_iff bit_exp_iff)
  note full = full_mask [OF set_value_range [OF v c], unfolded ins]
  have tot: "0 < total_num s" using wf by (auto simp: transfer_wf_def)
  show ?thesis
  proof (cases "insert c (sync_readers s) = {..<?n}")
    case True
    then show ?thesis using c nb q full tot
      by (simp add: s' get_transfer_task_def position_def push_bit_of_1 and_exp_eq_0_iff_not_bit total_num_mask
          transfer_wf_def sync_readers_def Let_def) (metis list.distinct(1))
  next
    case False
    then show ?thesis using c nb q full tot ins set_value_range(1) [OF v c]
      by (simp add: s' get_transfer_task_def position_def push_bit_of_1 and_exp_eq_0_iff_not_bit total_num_mask
          transfer_wf_def sync_readers_def Let_def) (metis list.distinct(1))
  qed
qed

interpretation tr: broadcast tr_num_client transfer_wf transfer_task_queue sync_readers transfer_put transfer_recv
proof
  fix s
  show "transfer_task_queue s = [] \<Longrightarrow> sync_readers s = {}" if "transfer_wf s"
    using that by (simp add: transfer_wf_def sync_readers_def)
qed (rule transfer_put_effect transfer_recv_effect; assumption)+

end
