(* ===== verification/QueueClaims.thy ===== *)
theory QueueClaims
  imports EngineQueues CacheQueue
begin

text \<open>What the queues between the processes deliver, over their runs.\<close>

subsection \<open>The worker queue\<close>

text \<open>
  A run of the engine and its workers, with the batches and the cache information put so far and what each
  worker was given. The two broadcasts share no state.
\<close>

inductive worker_run ::
  "'t list \<Rightarrow> (nat \<Rightarrow> 't list) \<Rightarrow> 'c list list \<Rightarrow> (nat \<Rightarrow> 'c list list) \<Rightarrow> ('t, 'c, 'd) worker_queue \<Rightarrow> bool" where
  w_init: "0 < n \<Longrightarrow> worker_run [] (\<lambda>_. []) [] (\<lambda>_. []) (init_worker_queue n)"
| w_put: "worker_run sent got infos seen s \<Longrightarrow> put_tasks batch s = Some s' \<Longrightarrow>
    worker_run (sent @ [batch]) got infos seen s'"
| w_get: "worker_run sent got infos seen s \<Longrightarrow> c < num_client s \<Longrightarrow> client_read_flag s ! c = 0 \<Longrightarrow>
    get_tasks c s = (([batch], done), s') \<Longrightarrow> worker_run sent (got(c := got c @ [batch])) infos seen s'"
| w_again: "worker_run sent got infos seen s \<Longrightarrow> c < num_client s \<Longrightarrow> client_read_flag s ! c = 1 \<Longrightarrow>
    worker_run sent got infos seen (snd (get_tasks c s))"
| w_put_info: "worker_run sent got infos seen s \<Longrightarrow> put_cache_info info s = Some s' \<Longrightarrow>
    worker_run sent got (infos @ [info]) seen s'"
| w_get_info: "worker_run sent got infos seen s \<Longrightarrow> c < num_client s \<Longrightarrow> client_read_info_flag s ! c \<noteq> 1 \<Longrightarrow>
    get_cache_info c s = (info, s') \<Longrightarrow> worker_run sent got infos (seen(c := seen c @ [info])) s'"
| w_idle: "worker_run sent got infos seen s \<Longrightarrow> c < num_client s \<Longrightarrow> client_read_info_flag s ! c = 1 \<Longrightarrow>
    worker_run sent got infos seen (snd (get_cache_info c s))"

text \<open>The fields either broadcast uses; the operations of the other leave them alone.\<close>

definition tasks_part :: "('t, 'c, 'd) worker_queue \<Rightarrow> nat \<times> 't list \<times> int list" where
  "tasks_part s = (num_client s, wq_tasks s, client_read_flag s)"

definition infos_part :: "('t, 'c, 'd) worker_queue \<Rightarrow> nat \<times> 'c list \<times> int list" where
  "infos_part s = (num_client s, cache_infos s, client_read_info_flag s)"

lemma parts_kept:
  "put_tasks batch s = Some s' \<Longrightarrow> infos_part s' = infos_part s"
  "get_tasks c s = (x, s') \<Longrightarrow> infos_part s' = infos_part s"
  "put_cache_info info s = Some s' \<Longrightarrow> tasks_part s' = tasks_part s"
  "get_cache_info c s = (y, s') \<Longrightarrow> tasks_part s' = tasks_part s"
  by (auto simp: put_tasks_def get_tasks_def put_cache_info_def get_cache_info_def infos_part_def tasks_part_def
      Let_def split: if_splits)

lemma same_view:
  "tasks_part s' = tasks_part s \<Longrightarrow> num_client s' = num_client s \<and> tasks_wf s' = tasks_wf s \<and>
    wq_tasks s' = wq_tasks s \<and> tasks_readers s' = tasks_readers s"
  "infos_part s' = infos_part s \<Longrightarrow> num_client s' = num_client s \<and> infos_wf s' = infos_wf s \<and>
    infos_pend s' = infos_pend s \<and> infos_readers s' = infos_readers s"
  by (simp_all add: tasks_part_def infos_part_def tasks_wf_def tasks_readers_def infos_wf_def infos_pend_def infos_readers_def)

lemma delivered_parts:
  "tasks_part s' = tasks_part s \<Longrightarrow> tq.delivered sent got s \<Longrightarrow> tq.delivered sent got s'"
  "infos_part s' = infos_part s \<Longrightarrow> iq.delivered infos seen s \<Longrightarrow> iq.delivered infos seen s'"
  using same_view [of s' s] by (simp_all only: tq.delivered_def iq.delivered_def simp_thms)

lemma init_delivered:
  assumes "0 < n"
  shows "tq.delivered [] (\<lambda>_. []) (init_worker_queue n)" "iq.delivered [] (\<lambda>_. []) (init_worker_queue n)"
  using assms flags_one [of n] unfolding tq.delivered_def iq.delivered_def
  by (simp_all add: init_worker_queue_def infos_pend_def tasks_readers_def infos_readers_def current_readers_def
      tasks_wf_def infos_wf_def)

text \<open>A worker that has read the batch at hand gets it again and changes nothing.\<close>

lemma get_tasks_again:
  assumes "tasks_wf s" "c < num_client s" "client_read_flag s ! c = 1"
  shows "snd (get_tasks c s) = s"
proof -
  have ok: "flags_ok (num_client s) (client_read_flag s)" using assms(1) by (simp add: tasks_wf_def)
  have "(client_read_flag s)[c := 1] = client_read_flag s" using assms(3) by (metis list_update_id)
  moreover have "wq_tasks s = []" if "sum_list (client_read_flag s) = int (num_client s)"
    using assms(1) that flags_full(2) [OF ok] by (simp add: tasks_wf_def)
  ultimately show ?thesis by (simp add: get_tasks_def Let_def)
qed

lemma worker_run_delivered:
  "worker_run sent got infos seen s \<Longrightarrow> tq.delivered sent got s \<and> iq.delivered infos seen s"
proof (induction rule: worker_run.induct)
  case (w_init n)
  then show ?case by (simp add: init_delivered)
next
  case (w_put sent got infos seen s batch s')
  then have "tasks_put s batch s'" by (simp add: tasks_put_def)
  from tq.delivered_put [OF conjunct1 [OF w_put.IH] this]
  show ?case using delivered_parts(2) [OF parts_kept(1) [OF w_put(2)] conjunct2 [OF w_put.IH]] by (rule conjI)
next
  case (w_get sent got infos seen s c batch don s')
  have "tasks_recv s c batch s'" using w_get by (auto simp: tasks_recv_def)
  from tq.delivered_recv [OF conjunct1 [OF w_get.IH] this]
  show ?case using delivered_parts(2) [OF parts_kept(2) [OF w_get(4)] conjunct2 [OF w_get.IH]] by (rule conjI)
next
  case (w_again sent got infos seen s c)
  have "tasks_wf s" using w_again.IH unfolding tq.delivered_def by blast
  from get_tasks_again [OF this w_again.hyps(2,3)] show ?case using w_again.IH by simp
next
  case (w_put_info sent got infos seen s info s')
  then have p: "infos_put s info s'" by (simp add: infos_put_def)
  from delivered_parts(1) [OF parts_kept(3) [OF w_put_info(2)] conjunct1 [OF w_put_info.IH]]
  show ?case using iq.delivered_put [OF conjunct2 [OF w_put_info.IH] p] by (rule conjI)
next
  case (w_get_info sent got infos seen s c info s')
  have r: "infos_recv s c info s'" using w_get_info by (auto simp: infos_recv_def)
  from delivered_parts(1) [OF parts_kept(4) [OF w_get_info(4)] conjunct1 [OF w_get_info.IH]]
  show ?case using iq.delivered_recv [OF conjunct2 [OF w_get_info.IH] r] by (rule conjI)
next
  case (w_idle sent got infos seen s c)
  then show ?case by (simp add: get_cache_info_def)
qed

text \<open>C16: every worker is given every batch of tasks, and all cache information, exactly once and in the order in which the
  engine put them, and the engine overwrites neither before the last worker has read it: what a worker has got by
  calls with its read flag clear is always a front part of what was put, and only the batch at hand can be missing. A
  worker that calls again with its flag set is given the batch at hand a second time, which is not counted here and changes
  nothing for the others.\<close>

theorem worker_queue_delivers:
  assumes "worker_run sent got infos seen s" "c < num_client s"
  shows "(\<exists>done k. sent = done @ wq_tasks s \<and> got c = done @ take k (wq_tasks s)) \<and>
    (\<exists>done k. infos = done @ infos_pend s \<and> seen c = done @ take k (infos_pend s))"
proof -
  have d: "tq.delivered sent got s" "iq.delivered infos seen s" using worker_run_delivered [OF assms(1)] by simp_all
  have "\<exists>done k. sent = done @ wq_tasks s \<and> got c = done @ take k (wq_tasks s)"
    using tq.deliveredD(2) [OF d(1) assms(2)] by blast
  moreover have "\<exists>done k. infos = done @ infos_pend s \<and> seen c = done @ take k (infos_pend s)"
    using iq.deliveredD(2) [OF d(2) assms(2)] by blast
  ultimately show ?thesis by blast
qed

abbreviation (input) wq2 :: "(nat list, unit, unit) worker_queue" where
  "wq2 \<equiv> the (put_tasks [7] (init_worker_queue 2))"

lemma wq2_run: "worker_run [[7]] (\<lambda>_. []) [] (\<lambda>_. []) wq2"
proof -
  have "put_tasks [7] (init_worker_queue 2) \<noteq> (None :: (nat list, unit, unit) worker_queue option)"
    by (simp add: put_tasks_def init_worker_queue_def sum_list_replicate)
  then have "put_tasks [7] (init_worker_queue 2) = Some wq2" by simp
  from w_put [OF w_init this] show ?thesis by simp
qed

theorem worker_queue_delivers_witness:
  "\<exists>done k. [[7]] = done @ wq_tasks (snd (get_tasks 1 wq2)) \<and> [[7]] = done @ take k (wq_tasks (snd (get_tasks 1 wq2)))"
proof -
  have q: "num_client wq2 = 2" "client_read_flag wq2 ! 1 = 0" "fst (get_tasks 1 wq2) = ([[7]], False)" by code_simp+
  then have "get_tasks 1 wq2 = (([[7]], False), snd (get_tasks 1 wq2))" by (metis prod.collapse)
  from w_get [OF wq2_run _ q(2) this] have r: "worker_run [[7]] ((\<lambda>_. [])(1 := [[7]])) [] (\<lambda>_. []) (snd (get_tasks 1 wq2))"
    by (simp add: q(1))
  have "num_client (snd (get_tasks 1 wq2)) = 2" by code_simp
  then show ?thesis using worker_queue_delivers [OF r, of 1] by simp
qed

lemma get_all_flags:
  "client_read_flag (fold (\<lambda>c s. snd (get_tasks c s)) cs s) = fold (\<lambda>c flags. flags[c := 1]) cs (client_read_flag s) \<and>
   num_client (fold (\<lambda>c s. snd (get_tasks c s)) cs s) = num_client s"
  by (induction cs arbitrary: s) (simp_all add: get_tasks_def Let_def)

lemma fold_flags_length [simp]: "length (fold (\<lambda>c flags. flags[c := 1]) cs flags) = length flags"
  by (induction cs arbitrary: flags) simp_all

lemma fold_flags_nth:
  "d < length flags \<Longrightarrow> fold (\<lambda>c flags. flags[c := (1::int)]) cs flags ! d = (if d \<in> set cs then 1 else flags ! d)"
  by (induction cs arbitrary: flags) (auto simp: nth_list_update)

lemma sum_list_ones: "\<forall>d < length xs. xs ! d = (1::int) \<Longrightarrow> sum_list xs = int (length xs)"
  by (simp add: flags_sum all_set_conv_all_nth)

text \<open>Putting tasks does not wait for ever: when every worker whose flag is down has fetched once, in any order, the next
  batch is accepted.\<close>

theorem put_accepted_after_reads:
  assumes "worker_run sent got infos seen s" "\<forall>c < num_client s. client_read_flag s ! c = 0 \<longrightarrow> c \<in> set cs"
  shows "\<exists>s'. put_tasks batch (fold (\<lambda>c s. snd (get_tasks c s)) cs s) = Some s'"
proof -
  have "flags_ok (num_client s) (client_read_flag s)"
    using worker_run_delivered [OF assms(1)] by (simp add: tq.delivered_def tasks_wf_def)
  then have f: "length (client_read_flag s) = num_client s" "\<forall>d < num_client s. client_read_flag s ! d = 0 \<or> client_read_flag s ! d = 1"
    by (auto simp: flags_ok_def all_set_conv_all_nth)
  have "sum_list (fold (\<lambda>c flags. flags[c := 1]) cs (client_read_flag s)) = int (num_client s)"
    by (subst sum_list_ones) (use f assms(2) in \<open>auto simp: fold_flags_nth\<close>)
  then show ?thesis by (simp add: put_tasks_def get_all_flags)
qed

theorem put_accepted_after_reads_witness:
  "\<exists>s'. put_tasks [8] (fold (\<lambda>c s. snd (get_tasks c s)) [1, 0] wq2) = Some s'"
proof -
  have n: "num_client wq2 = 2" by code_simp
  show ?thesis by (rule put_accepted_after_reads [OF wq2_run]) (auto simp: n less_2_cases_iff)
qed

subsection \<open>The queue of swap tasks\<close>

text \<open>
  A run of putters and ranks. A putter that has to wait is in \<open>waiting\<close>, and in \<open>leaving\<close> once it has seen
  the head of the queue untaken but does not hold the lock yet. \<open>raced\<close> records that one of them took the lock
  when another task was half taken.
\<close>

inductive transfer_run ::
  "'i list \<Rightarrow> (nat \<Rightarrow> 'i list) \<Rightarrow> 'i list \<Rightarrow> 'i list \<Rightarrow> bool \<Rightarrow> 'i transfer_queue \<Rightarrow> bool" where
  t_init: "0 < n \<Longrightarrow> transfer_run [] (\<lambda>_. []) [] [] False (init_transfer_queue n)"
| t_put: "transfer_run sent got waiting leaving raced s \<Longrightarrow> put_transfer_task x s = Some s' \<Longrightarrow>
    transfer_run (sent @ [x]) got waiting leaving raced s'"
| t_wait: "transfer_run sent got waiting leaving raced s \<Longrightarrow> put_transfer_task x s = None \<Longrightarrow>
    transfer_run sent got (x # waiting) leaving raced s"
| t_leave: "transfer_run sent got waiting leaving raced s \<Longrightarrow> x \<in> set waiting \<Longrightarrow> \<not> half_taken s \<Longrightarrow>
    transfer_run sent got (remove1 x waiting) (x # leaving) raced s"
| t_late_put: "transfer_run sent got waiting leaving raced s \<Longrightarrow> x \<in> set leaving \<Longrightarrow>
    transfer_run (sent @ [x]) got waiting (remove1 x leaving) (raced \<or> half_taken s) (append_task x s)"
| t_get: "transfer_run sent got waiting leaving raced s \<Longrightarrow> c < tr_num_client s \<Longrightarrow>
    get_transfer_task c s = ((Some x, finished), s') \<Longrightarrow>
    transfer_run sent (got(c := got c @ [x])) waiting leaving raced s'"

lemma transfer_run_delivered:
  "transfer_run sent got waiting leaving raced s \<Longrightarrow> \<not> raced \<Longrightarrow> tr.delivered sent got s"
proof (induction rule: transfer_run.induct)
  case (t_init n)
  then show ?case unfolding tr.delivered_def
    by (simp add: init_transfer_queue_def transfer_wf_def sync_readers_def total_num_def push_bit_of_1)
next
  case (t_put sent got waiting leaving raced s x s')
  then have "transfer_put s x s'" by (auto simp: put_transfer_task_def transfer_put_def split: if_splits)
  then show ?case using t_put by (intro tr.delivered_put [of sent got s]) simp_all
next
  case (t_late_put sent got waiting leaving raced s x)
  then have "transfer_put s x (append_task x s)" by (simp add: transfer_put_def)
  then show ?case using t_late_put by (intro tr.delivered_put [of sent got s]) simp_all
next
  case (t_get sent got waiting leaving raced s c x finished s')
  then have "transfer_recv s c x s'" by (auto simp: transfer_recv_def)
  then show ?case using t_get by (intro tr.delivered_recv [of sent got s]) simp_all
qed simp_all

text \<open>C17: as long as no waiting putter takes the lock while another task is half taken, every rank is given every swap task
  exactly once, in order, and a task leaves the queue when the last rank has taken it.\<close>

theorem swap_tasks_delivered:
  assumes "transfer_run sent got waiting leaving False s" "c < tr_num_client s"
  shows "\<exists>done k. sent = done @ transfer_task_queue s \<and> got c = done @ take k (transfer_task_queue s)"
  using tr.deliveredD(2) [OF transfer_run_delivered [OF assms(1)] assms(2)] by blast

abbreviation (input) tq2 :: "nat transfer_queue" where
  "tq2 \<equiv> append_task 6 (append_task 5 (init_transfer_queue 2))"

abbreviation (input) fetch_task :: "nat \<Rightarrow> nat transfer_queue \<Rightarrow> nat transfer_queue" where
  "fetch_task c s \<equiv> snd (get_transfer_task c s)"

lemma tq2_run: "transfer_run [5, 6] (\<lambda>_. []) [] [] False tq2"
proof -
  have "put_transfer_task 5 (init_transfer_queue 2) = Some (append_task 5 (init_transfer_queue 2))"
    "put_transfer_task 6 (append_task 5 (init_transfer_queue 2)) = Some tq2"
    by (simp_all add: put_transfer_task_def half_taken_def init_transfer_queue_def append_task_def)
  from t_put [OF t_put [OF t_init this(1)] this(2)] show ?thesis by simp
qed

lemma tq2_first: "get_transfer_task 0 tq2 = ((Some 5, False), fetch_task 0 tq2)"
  by (rule prod_eqI) (simp_all, code_simp)

lemma tq2_clients: "tr_num_client tq2 = 2"
  by (simp add: append_task_def init_transfer_queue_def)

theorem swap_tasks_delivered_witness:
  "\<exists>done k. [5, 6] = done @ transfer_task_queue (fetch_task 0 tq2) \<and>
     [5] = done @ take k (transfer_task_queue (fetch_task 0 tq2))"
proof -
  have "transfer_run [5, 6] ((\<lambda>_. [])(0 := [5])) [] [] False (fetch_task 0 tq2)"
    using t_get [OF tq2_run _ tq2_first] tq2_clients by simp
  moreover have "tr_num_client (fetch_task 0 tq2) = 2" by code_simp
  ultimately show ?thesis using swap_tasks_delivered [of "[5, 6]" "(\<lambda>_. [])(0 := [5])" "[]" "[]" "fetch_task 0 tq2" 0] by simp
qed

text \<open>A putter that waited for a half taken task resets the bits of the ranks even if, meanwhile, a rank has started on the
  next task: with two ranks and three tasks there is a run in which rank 0 is given the second task twice.\<close>

theorem late_put_repeats_task:
  "\<exists>got s. transfer_run [5, 6, 7] got [] [] True (s :: nat transfer_queue) \<and> got 0 = [5, 6, 6]"
proof -
  let ?s1 = "fetch_task 0 tq2" and ?s2 = "fetch_task 1 (fetch_task 0 tq2)" and ?s3 = "fetch_task 0 (fetch_task 1 (fetch_task 0 tq2))"
  let ?s4 = "append_task 7 ?s3"
  have g: "fst (get_transfer_task 1 ?s1) = (Some 5, True)" "fst (get_transfer_task 0 ?s2) = (Some 6, False)"
    "fst (get_transfer_task 0 ?s4) = (Some 6, False)" by code_simp+
  have n: "1 < tr_num_client ?s1" "0 < tr_num_client ?s2" "0 < tr_num_client ?s4" by code_simp+
  have h: "half_taken ?s1" "\<not> half_taken ?s2" "half_taken ?s3" by code_simp+
  have "transfer_run [5, 6] ((\<lambda>_. [])(0 := [5])) [7] [] False ?s1"
    using t_wait [OF t_get [OF tq2_run _ tq2_first], of 7] tq2_clients h(1) by (simp add: put_transfer_task_def)
  from t_leave [OF t_get [OF this n(1)], of 5 True ?s2 7] g(1) h(2)
  have "transfer_run [5, 6] ((\<lambda>_. [])(0 := [5], 1 := [5])) [] [7] False ?s2"
    by (simp add: prod_eq_iff)
  from t_late_put [OF t_get [OF this n(2)], of 6 False ?s3 7] g(2) h(3)
  have "transfer_run [5, 6, 7] ((\<lambda>_. [])(0 := [5, 6], 1 := [5])) [] [] True ?s4"
    by (simp add: prod_eq_iff fun_upd_twist)
  from t_get [OF this n(3), of 6 False "fetch_task 0 ?s4"] g(3)
  have "transfer_run [5, 6, 7] ((\<lambda>_. [])(0 := [5, 6, 6], 1 := [5])) [] [] True (fetch_task 0 ?s4)"
    by (simp add: prod_eq_iff fun_upd_twist)
  then show ?thesis by (metis fun_upd_apply zero_neq_one)
qed

end
