(* ===== verification/TokenProcessor.thy ===== *)
theory TokenProcessor
  imports SchedulerV1Claims
begin

text \<open>
  The thread that takes the sampled tokens from the workers and turns them into results
  (\<open>output/token_processor.py\<close>), with the second scheduler. Log probabilities ride along with the tokens and
  are left out, as are time stamps and gauges. What the workers report as finished prefills is the list
  \<open>finished_queue\<close> of the batches still to be read.
\<close>

definition RECOVERY_STOP_SIGNAL :: int where "RECOVERY_STOP_SIGNAL = - 3"
definition MAX_DRAFT_TOKENS :: int where "MAX_DRAFT_TOKENS = 6"
definition SPECULATE_MAX_BSZ :: int where "SPECULATE_MAX_BSZ = 256"

record tp_config =
  speculative :: "string option"
  num_speculative_tokens :: nat
  splitwise :: bool

record token_processor =
  tp_rm :: rm1
  tokens_counter :: "req_id \<Rightarrow> nat"
  total_step :: int
  number_of_output_tokens :: int
  speculative_stats_step :: int
  num_draft_tokens :: int
  num_accepted_tokens :: int
  num_emitted_tokens :: int
  max_num_emitted_tokens :: int
  num_rest_requests_per_head :: "int list"
  num_accept_requests_per_head :: "int list"
  prefill_result_status :: "req_id \<Rightarrow> string option"
  finished_queue :: "(req_id \<times> string) list list"
  first_tokens_sent :: "tp_result list"

definition init_token_processor :: "rm1 \<Rightarrow> token_processor" where
  "init_token_processor s =
     \<lparr>tp_rm = s, tokens_counter = (\<lambda>_. 0), total_step = 0, number_of_output_tokens = 0,
      speculative_stats_step = 0, num_draft_tokens = 0, num_accepted_tokens = 0, num_emitted_tokens = 0,
      max_num_emitted_tokens = 0, num_rest_requests_per_head = replicate (nat MAX_DRAFT_TOKENS) 0,
      num_accept_requests_per_head = replicate (nat MAX_DRAFT_TOKENS) 0,
      prefill_result_status = Map.empty, finished_queue = [], first_tokens_sent = []\<rparr>"

abbreviation on_rm :: "(rm1 \<Rightarrow> rm1) \<Rightarrow> token_processor \<Rightarrow> token_processor" where
  "on_rm f \<equiv> tp_rm_update f"

subsection \<open>Giving resources back\<close>

text \<open>A prefill instance waits until the workers report the end of the transfer of the request's cache.\<close>

fun wait_prefill ::
  "req_id \<Rightarrow> (req_id \<times> string) list list \<Rightarrow> (req_id \<Rightarrow> string option) \<Rightarrow>
   ((req_id \<times> string) list list \<times> (req_id \<Rightarrow> string option)) option" where
  "wait_prefill rid [] st = (if st rid = None then None else Some ([], st))"
| "wait_prefill rid (b # bs) st =
     (let st1 = fold (\<lambda>(i, m) st. st(i \<mapsto> m)) b st in
      if st1 rid = None then wait_prefill rid bs st1 else Some (bs, st1))"

definition recycle_prefill ::
  "req_id \<Rightarrow> nat \<Rightarrow> oref \<Rightarrow> tp_result \<Rightarrow> token_processor \<Rightarrow> (token_processor, tp_result) outcome" where
  "recycle_prefill rid i r res tp =
     (case wait_prefill rid (finished_queue tp) (prefill_result_status tp) of
        None \<Rightarrow> (Inl NoReturn, tp)
      | Some (bs, st) \<Rightarrow>
          let tp1 = tp\<lparr>finished_queue := bs, prefill_result_status := st,
                       first_tokens_sent := first_tokens_sent tp @ [res]\<rparr>;
              tp2 = on_rm (\<lambda>s. recycle_block_tables (obj s r)
                      (s\<lparr>stop_flags := (stop_flags s)[i := True], tasks_list := (tasks_list s)[i := None]\<rparr>)) tp1;
              res1 = (if st rid \<noteq> Some ''finished'' then res\<lparr>tp_error_code := 400\<rparr> else res)
          in if req_dict (tp_rm tp2) rid = None then (Inl KeyError, tp2)
             else (Inr res1, on_rm (\<lambda>s. s\<lparr>req_dict := (req_dict s)(rid := None)\<rparr>) tp2))"

definition recycle_resources ::
  "req_id \<Rightarrow> nat \<Rightarrow> oref \<Rightarrow> bool \<Rightarrow> tp_result \<Rightarrow> token_processor \<Rightarrow> (token_processor, tp_result) outcome" where
  "recycle_resources rid i r is_prefill res tp =
     andthen (if is_prefill then recycle_prefill rid i r res tp
              else (Inr res, on_rm (finish_requests [rid]) tp))
       (\<lambda>res1 tp1. (Inr res1, tp1\<lparr>tokens_counter := (tokens_counter tp1)(rid := 0)\<rparr>))"

subsection \<open>Statistics of speculative decoding\<close>

definition compute_speculative_status :: "tp_config \<Rightarrow> token_processor \<Rightarrow> (token_processor, unit) outcome" where
  "compute_speculative_status tc tp =
     (let reset = (\<lambda>tp. if number_of_output_tokens tp > 1000000
                        then tp\<lparr>number_of_output_tokens := 0, total_step := 0\<rparr> else tp);
          next = (\<lambda>tp. tp\<lparr>speculative_stats_step := speculative_stats_step tp + 1\<rparr>)
      in if speculative_stats_step tp mod 10 = 0 then
           if number_of_output_tokens tp = 0 \<or> total_step tp = 0 then (Inl ZeroDivisionError, tp)
           else if speculative tc = Some ''mtp'' \<and> num_speculative_tokens tc > length (num_rest_requests_per_head tp)
           then (Inl IndexError, tp)
           else (Inr (), next (reset tp))
         else (Inr (), next tp))"

text \<open>The counts are those of a worker: none is negative, and with \<open>mtp\<close> at least one token is drafted.\<close>

fun record_heads :: "nat \<Rightarrow> nat \<Rightarrow> int list \<Rightarrow> int \<Rightarrow> token_processor \<Rightarrow> (token_processor, unit) outcome" where
  "record_heads 0 head accepted rest tp = (Inr (), tp)"
| "record_heads (Suc k) head accepted rest tp =
     (if head \<ge> length (num_accept_requests_per_head tp) \<or> head \<ge> length (num_rest_requests_per_head tp)
      then (Inl IndexError, tp)
      else
        let n = int (length (filter (\<lambda>x. x \<ge> int head + 2) accepted)) in
        record_heads k (Suc head) accepted n
          (tp\<lparr>num_accept_requests_per_head := (num_accept_requests_per_head tp)[head := num_accept_requests_per_head tp ! head + n],
              num_rest_requests_per_head := (num_rest_requests_per_head tp)[head := num_rest_requests_per_head tp ! head + rest]\<rparr>))"

definition record_speculative_metrics :: "tp_config \<Rightarrow> int list \<Rightarrow> token_processor \<Rightarrow> (token_processor, unit) outcome" where
  "record_speculative_metrics tc accept_num tp =
     (let real_accept_num = filter (\<lambda>x. x \<noteq> 0) accept_num;
          k = int (length real_accept_num); draft = int (num_speculative_tokens tc);
          tp1 = tp\<lparr>num_accepted_tokens := num_accepted_tokens tp + sum_list (map (\<lambda>x. x - 1) real_accept_num),
                   num_emitted_tokens := num_emitted_tokens tp + sum_list real_accept_num\<rparr>
      in if speculative tc = Some ''ngram'' then
           (if num_emitted_tokens tp1 = 0 then (Inl ZeroDivisionError, tp1) else (Inr (), tp1))
         else if speculative tc = Some ''mtp'' then
           let tp2 = tp1\<lparr>num_draft_tokens := num_draft_tokens tp1 + k * draft,
                         max_num_emitted_tokens := max_num_emitted_tokens tp1 + k * (draft + 1)\<rparr> in
           if num_draft_tokens tp2 = 0 \<or> max_num_emitted_tokens tp2 = 0 then (Inl ZeroDivisionError, tp2)
           else record_heads (num_speculative_tokens tc) 0 real_accept_num k tp2
         else (Inr (), tp1))"

subsection \<open>The tokens of one slot\<close>

fun emit_tokens ::
  "tp_config \<Rightarrow> nat \<Rightarrow> oref \<Rightarrow> bool \<Rightarrow> bool \<Rightarrow> token list \<Rightarrow> tp_result \<Rightarrow> token_processor \<Rightarrow>
   (token_processor, tp_result) outcome" where
  "emit_tokens tc i r is_prefill recovery_stop [] res tp = (Inr res, tp)"
| "emit_tokens tc i r is_prefill recovery_stop (t # ts) res tp =
     (let rid = tp_request_id res;
          tp1 = tp\<lparr>tokens_counter := (tokens_counter tp)(rid := tokens_counter tp rid + 1)\<rparr>;
          keep = (t \<noteq> RECOVERY_STOP_SIGNAL);
          res1 = (if keep then res\<lparr>tp_token_ids := tp_token_ids res @ [t]\<rparr> else res);
          tp2 = (if keep then on_rm (upd_obj r (\<lambda>q. q\<lparr>output_token_ids := output_token_ids q @ [t]\<rparr>)) tp1 else tp1)
      in if t \<in> set (eos_token_ids (obj (tp_rm tp2) r)) \<or> is_prefill \<or> recovery_stop then
           let res2 = res1\<lparr>tp_finished := True\<rparr>;
               res3 = (if recovery_stop
                       then res2\<lparr>tp_error_msg := Some ''Recover is not supported, the result is incomplete!''\<rparr> else res2)
           in andthen (if speculative tc \<noteq> None then compute_speculative_status tc tp2 else (Inr (), tp2))
                (\<lambda>_ tp3. recycle_resources rid i r is_prefill res3 tp3)
         else emit_tokens tc i r is_prefill recovery_stop ts res1 tp2)"

definition is_prefill_role :: "Request \<Rightarrow> bool" where
  "is_prefill_role q = (case disaggregate_info q of None \<Rightarrow> False | Some d \<Rightarrow> role d = ''prefill'')"

definition new_result :: "nat \<Rightarrow> oref \<Rightarrow> token list \<Rightarrow> token_processor \<Rightarrow> tp_result" where
  "new_result i r toks tp =
     (let q = obj (tp_rm tp) r; n = tokens_counter tp (request_id q) in
      \<lparr>tp_request_id = request_id q, tp_index = i, tp_send_idx = n, tp_token_ids = [],
       tp_draft_token_ids = Some (if is_prefill_role q \<and> length toks > 1 then toks else []), tp_finished = False,
       tp_num_cached_tokens = (if n = 0 then num_cached_tokens q else 0), tp_error_code = 200, tp_error_msg = None\<rparr>)"

definition emit_result ::
  "tp_config \<Rightarrow> nat \<Rightarrow> oref \<Rightarrow> bool \<Rightarrow> token list \<Rightarrow> token_processor \<Rightarrow> (token_processor, tp_result option) outcome" where
  "emit_result tc i r recovery_stop toks tp =
     (let tp1 = tp\<lparr>total_step := total_step tp + 1,
                   number_of_output_tokens := number_of_output_tokens tp + int (length toks)\<rparr>;
          is_prefill = is_prefill_role (obj (tp_rm tp) r)
      in andthen (emit_tokens tc i r is_prefill recovery_stop toks (new_result i r toks tp1) tp1)
           (\<lambda>res tp2. (Inr (if \<not> is_prefill \<or> splitwise tc then Some res else None), tp2)))"

text \<open>A chunk of a prompt that is not the last one gives no result.\<close>

definition count_chunk :: "oref \<Rightarrow> token_processor \<Rightarrow> bool \<times> token_processor" where
  "count_chunk r tp =
     (case prefill_chunk_info (obj (tp_rm tp) r) of
        None \<Rightarrow> (True, tp)
      | Some chunks \<Rightarrow>
          let n = prefill_chunk_num (obj (tp_rm tp) r) + 1
          in (n \<ge> chunks, on_rm (upd_obj r (prefill_chunk_num_update (\<lambda>_. n))) tp))"

definition sampled_tokens :: "tp_config \<Rightarrow> int list \<Rightarrow> nat \<Rightarrow> token list res" where
  "sampled_tokens tc raw i =
     (if speculative tc \<noteq> None then
        (case py_nth raw (2 + int i) of Inl e \<Rightarrow> Inl e
         | Inr accept \<Rightarrow>
             let a = 2 + SPECULATE_MAX_BSZ + int i * MAX_DRAFT_TOKENS in Inr (py_slice a (a + accept) raw))
      else (case py_nth raw (2 + int i) of Inl e \<Rightarrow> Inl e | Inr t \<Rightarrow> Inr [t]))"

definition process_slot :: "tp_config \<Rightarrow> int list \<Rightarrow> nat \<Rightarrow> token_processor \<Rightarrow> (token_processor, tp_result option) outcome" where
  "process_slot tc raw i tp =
     (let s = tp_rm tp in
      if i \<ge> length (stop_flags s) then (Inl IndexError, tp)
      else if stop_flags s ! i then (Inr None, tp)
      else if i \<ge> length (tasks_list s) then (Inl IndexError, tp)
      else
        case tasks_list s ! i of None \<Rightarrow> (Inl AttributeError, tp)
        | Some r \<Rightarrow>
            (case sampled_tokens tc raw i of Inl e \<Rightarrow> (Inl e, tp)
             | Inr toks \<Rightarrow>
                 let recovery_stop = (speculative tc = None \<and> hd toks = RECOVERY_STOP_SIGNAL) in
                 if speculative tc \<noteq> None \<and> (toks = [] \<or> last toks \<le> 0) then (Inr None, tp)
                 else if speculative tc = None \<and> \<not> recovery_stop \<and> hd toks < 0 then
                   (Inr None, on_rm (reschedule_preempt_task (request_id (obj s r))) tp)
                 else
                   let (last_chunk, tp1) = count_chunk r tp in
                   if last_chunk then emit_result tc i r recovery_stop toks tp1 else (Inr None, tp1)))"

subsection \<open>A batch\<close>

text \<open>Preempted requests whose slot is past the batch get no more tokens and go back to the waiting queue.\<close>

fun reschedule_idle :: "int \<Rightarrow> req_id list \<Rightarrow> token_processor \<Rightarrow> (token_processor, unit) outcome" where
  "reschedule_idle batch [] tp = (Inr (), tp)"
| "reschedule_idle batch (rid # rids) tp =
     (case requests (tp_rm tp) rid of None \<Rightarrow> (Inl KeyError, tp)
      | Some r \<Rightarrow>
          (case idx (obj (tp_rm tp) r) of None \<Rightarrow> (Inl TypeError, tp)
           | Some p \<Rightarrow>
               reschedule_idle batch rids
                 (if int p \<ge> batch - 1 then on_rm (reschedule_preempt_task rid) tp else tp)))"

fun process_slots ::
  "tp_config \<Rightarrow> int list \<Rightarrow> nat list \<Rightarrow> tp_result list \<Rightarrow> token_processor \<Rightarrow> (token_processor, tp_result list) outcome" where
  "process_slots tc raw [] acc tp = (Inr acc, tp)"
| "process_slots tc raw (i # is) acc tp =
     andthen (process_slot tc raw i tp)
       (\<lambda>res tp1. process_slots tc raw is (case res of None \<Rightarrow> acc | Some r \<Rightarrow> acc @ [r]) tp1)"

text \<open>
  \<open>_process_batch_output\<close> on the buffer \<open>raw\<close>, whose second entry is the size of the batch; \<open>preempted\<close> lists
  the set of preempted requests in the order it is iterated in. The value is what is given to \<open>put_results\<close>.
\<close>

definition process_batch_output ::
  "tp_config \<Rightarrow> int list \<Rightarrow> req_id list \<Rightarrow> token_processor \<Rightarrow> (token_processor, tp_result list) outcome" where
  "process_batch_output tc raw preempted tp =
     (case py_nth raw 1 of Inl e \<Rightarrow> (Inl e, tp)
      | Inr batch \<Rightarrow>
          andthen (if speculative tc \<noteq> None
                   then record_speculative_metrics tc (py_slice 2 (batch + 2) raw) tp else (Inr (), tp)) (\<lambda>_ tp1.
          andthen (reschedule_idle batch preempted tp1) (\<lambda>_ tp2.
          process_slots tc raw [0..<nat batch] [] tp2)))"

end
