(* ===== verification/EngineLoop.thy ===== *)
theory EngineLoop
  imports TokenProcessor LocalScheduler EngineQueues
begin

text \<open>
  The engine with the second scheduler (\<open>engine/common_engine.py\<close>): a thread fetches requests, plans steps and puts
  them to the workers, others take requests from the front end and hand results back, and the token processor
  runs beside them. Each pass of a loop is one step here; a step that blocks or does not return is \<open>None\<close>.
\<close>

record engine_config =
  max_prefill_batch :: int
  max_model_len :: int
  eng_tp_config :: tp_config

record engine =
  en_sched :: "tp_result local_sched"
  en_tp :: token_processor
  en_wq :: "(sched_item list \<times> nat, unit, unit) worker_queue"
  is_fetching :: bool

definition init_engine :: "tp_result local_sched \<Rightarrow> rm1 \<Rightarrow> nat \<Rightarrow> engine" where
  "init_engine sc s workers =
     \<lparr>en_sched = sc, en_tp = init_token_processor s, en_wq = init_worker_queue workers, is_fetching = False\<rparr>"

abbreviation en_rm :: "engine \<Rightarrow> rm1" where
  "en_rm e \<equiv> tp_rm (en_tp e)"

definition set_rm :: "rm1 \<Rightarrow> engine \<Rightarrow> engine" where
  "set_rm s e = e\<lparr>en_tp := (en_tp e)\<lparr>tp_rm := s\<rparr>\<rparr>"

subsection \<open>Fetching\<close>

definition task_is_finished :: "nat \<Rightarrow> ('t, 'a) rm_scheme \<Rightarrow> bool res" where
  "task_is_finished index s =
     (if index < length (stop_flags s) then Inr (stop_flags s ! index) else Inl AssertionError)"

definition all_tasks_finished :: "('t, 'a) rm_scheme \<Rightarrow> bool" where
  "all_tasks_finished s = (length (filter (\<lambda>b. b) (stop_flags s)) = length (stop_flags s))"

text \<open>
  \<open>_fetch_request\<close>. It runs in a pool that drops exceptions; the flag is then never put down again.
\<close>

definition fetch_request :: "engine_config \<Rightarrow> engine \<Rightarrow> (engine, unit) outcome" where
  "fetch_request ec e =
     (let e1 = e\<lparr>is_fetching := True\<rparr>; s = en_rm e in
      case check_and_free_block_tables s of
        (Inl x, s1) \<Rightarrow> (Inl x, set_rm s1 e1)
      | (Inr _, s1) \<Rightarrow>
          (case get_requests (available_block_num s1) (int (block_size (cfg s1))) (enc_dec_block_num (config s1))
                  (max_model_len ec) (min (int (available_batch s)) (max_prefill_batch ec)) (en_sched e1) of
             (Inl x, sc) \<Rightarrow> (Inl x, (set_rm s1 e1)\<lparr>en_sched := sc\<rparr>)
           | (Inr tasks, sc) \<Rightarrow>
               (Inr (), (set_rm (fold add_request tasks s1) e1)\<lparr>en_sched := sc, is_fetching := False\<rparr>)))"

text \<open>When the loop starts a fetch; the third condition of the code is a signal of the workers.\<close>

definition may_fetch :: "int \<Rightarrow> engine \<Rightarrow> bool" where
  "may_fetch exist_prefill_task_signal e =
     (waiting (en_rm e) = [] \<and> \<not> is_fetching e \<and> exist_prefill_task_signal = 0)"

subsection \<open>Planning a step\<close>

text \<open>
  The rest of one pass of \<open>_scheduler_task_to_worker_v1\<close>, with the batch it puts to the workers. An exception is logged and
  the loop goes on.
\<close>

definition schedule_step ::
  "(token list \<Rightarrow> int) \<Rightarrow> img_boundaries \<Rightarrow> int \<Rightarrow> engine \<Rightarrow> ((sched_item list \<times> nat) option \<times> engine) option" where
  "schedule_step H IB now e =
     (if num_tasks (en_wq e) > 0 then Some (None, e)
      else
        (case schedule H IB now (en_rm e) of
           (Inl x, s1) \<Rightarrow> if x = NoReturn then None else Some (None, set_rm s1 e)
         | (Inr tasks, s1) \<Rightarrow>
             if tasks = [] then Some (None, set_rm s1 e)
             else
               let (n, s2) = get_real_bsz s1 in
               case put_tasks (tasks, n) (en_wq e) of None \<Rightarrow> None
               | Some q \<Rightarrow> Some (Some (tasks, n), (set_rm s2 e)\<lparr>en_wq := q\<rparr>)))"

subsection \<open>Results\<close>

text \<open>
  One pass of \<open>process_sampling_results\<close> on the buffer \<open>raw\<close>: the results go to the scheduler, an exception is
  logged and the results of the batch are lost.
\<close>

definition output_step :: "engine_config \<Rightarrow> int list \<Rightarrow> req_id list \<Rightarrow> engine \<Rightarrow> engine" where
  "output_step ec raw preempted e =
     (case process_batch_output (eng_tp_config ec) raw preempted (en_tp e) of
        (Inl x, tp) \<Rightarrow> e\<lparr>en_tp := tp\<rparr>
      | (Inr results, tp) \<Rightarrow>
          e\<lparr>en_tp := tp, en_sched := put_results (map result_response results) (en_sched e)\<rparr>)"

end
