(* ===== verification/SchedulerV1Slots.thy ===== *)
theory SchedulerV1Slots
  imports SchedulerV1Claims
begin

text \<open>
  Who the requests are and which of them sit in slots: no operation of the second scheduler changes an id or a
  role, and only requests of the waiting queue enter a slot.
\<close>

definition idents :: "rm1 \<Rightarrow> (req_id \<times> disaggregate option) list" where
  "idents s = map (\<lambda>q. (request_id q, disaggregate_info q)) (objs s)"

definition view :: "rm1 \<Rightarrow> (req_id \<times> disaggregate option) list \<times> oref option list" where
  "view s = (idents s, tasks_list s)"

lemma idents_upd_obj [simp]:
  "(\<And>q. request_id (f q) = request_id q \<and> disaggregate_info (f q) = disaggregate_info q) \<Longrightarrow>
   idents (upd_obj r f s) = idents s"
  unfolding idents_def upd_obj_def
  by (cases "r < length (objs s)") (auto simp: map_update list_update_same_conv intro!: nth_equalityI)

lemma tasks_upd_obj [simp]: "tasks_list (upd_obj r f s) = tasks_list s"
  by (simp add: upd_obj_def)

lemma view_upd_obj [simp]:
  "(\<And>q. request_id (f q) = request_id q \<and> disaggregate_info (f q) = disaggregate_info q) \<Longrightarrow>
   view (upd_obj r f s) = view s"
  by (simp add: view_def)

lemma view_updates [simp]:
  "view (s\<lparr>cache_manager := p\<rparr>) = view s" "view (s\<lparr>running := rs\<rparr>) = view s"
  "view (s\<lparr>waiting := rs\<rparr>) = view s" "view (s\<lparr>to_be_rescheduled := ids\<rparr>) = view s"
  "view (s\<lparr>req_dict := d\<rparr>) = view s" "view (s\<lparr>stop_flags := fl\<rparr>) = view s" "view (s\<lparr>real_bsz := n\<rparr>) = view s"
  by (simp_all add: view_def idents_def)

lemma view_andthen:
  assumes "view (snd x) = view s" "\<And>v t. x = (Inr v, t) \<Longrightarrow> view (snd (k v t)) = view t"
  shows "view (snd (andthen x k)) = view s"
  using assms by (cases x; cases "fst x") auto

lemma view_lift_pcm [simp]: "view (snd (lift_pcm f s)) = view s"
  by (cases "f (cache_manager s)") (simp add: lift_pcm_def)

lemma view_free_blocks [simp]: "view (snd (free_blocks r s)) = view s"
  by (simp add: free_blocks_def Let_def split: option.split)

lemma view_grow [simp]: "view (snd (grow_blocks r k s)) = view s"
  unfolding grow_blocks_def by (intro view_andthen) simp_all

lemma view_preempt_last [simp]: "view (snd (preempt_last s)) = view s"
  unfolding preempt_last_def by (auto simp: Let_def intro!: view_andthen)

lemma view_trigger [simp]: "view (snd (trigger_preempt r n preempted sched s)) = view s"
proof (induction r n preempted sched s rule: trigger_preempt.induct)
  case (1 r n preempted sched s)
  obtain x s1 where p: "preempt_last s = (x, s1)" by fastforce
  have c: "view s1 = view s" using view_preempt_last [of s] p by simp
  show ?case using 1 p c by (subst trigger_preempt.simps) (auto simp: Let_def split: sum.splits)
qed

lemma view_secure [simp]: "view (snd (secure_blocks r k preempted sched s)) = view s"
  unfolding secure_blocks_def by (auto intro!: view_andthen split: prod.splits)

lemma view_decode: "view (snd (schedule_decode H now r v s)) = view s"
  unfolding schedule_decode_def decode_progress_def
  by (auto intro!: view_andthen simp: Let_def split: prod.splits)

lemma view_num_tokens [simp]: "view (snd (get_num_new_tokens IB r b s)) = view s"
  by (simp add: get_num_new_tokens_def mm_num_new_tokens_def Let_def split: option.split sum.split)

lemma view_block_nums [simp]: "view (snd (get_new_block_nums r n s)) = view s"
  unfolding get_new_block_nums_def check_and_free_block_tables_def free_block_tables_def
  by (auto intro!: view_andthen)

lemma view_prefill: "view (snd (schedule_prefill IB r v s)) = view s"
  unfolding schedule_prefill_def
  by (auto intro!: view_andthen simp: prepare_prefill_task_def Let_def split: prod.splits)

lemma view_running_loop: "view (snd (running_loop H IB now i v s)) = view s"
proof (induction H IB now i v s rule: running_loop.induct)
  case (1 H IB now i v s)
  obtain x t where st: "schedule_running H IB now (running s ! i) v s = (x, t)" by fastforce
  have "view (snd (schedule_running H IB now (running s ! i) v s)) = view s"
    by (simp add: schedule_running_def view_decode view_prefill)
  then have "view t = view s" using st by simp
  then show ?case using 1 st by (subst running_loop.simps) (auto split: sum.splits prod.splits)
qed

subsection \<open>Entering a slot\<close>

text \<open>From \<open>s\<close> to \<open>t\<close> the slots got request \<open>r\<close> at most.\<close>

definition seats :: "oref \<Rightarrow> rm1 \<Rightarrow> rm1 \<Rightarrow> bool" where
  "seats r s t = (idents t = idents s \<and> set (tasks_list t) \<subseteq> insert (Some r) (set (tasks_list s)))"

lemma seats_view: "view t = view s \<Longrightarrow> seats r s t"
  by (auto simp: seats_def view_def)

lemma seats_andthen:
  assumes "view (snd x) = view s" "\<And>v t. x = (Inr v, t) \<Longrightarrow> seats r t (snd (k v t))"
  shows "seats r s (snd (andthen x k))"
proof (cases x)
  case (Pair y t)
  then have v: "view t = view s" using assms(1) by simp
  show ?thesis
  proof (cases y)
    case (Inl e)
    then show ?thesis using Pair seats_view [OF v] by simp
  next
    case (Inr a)
    then show ?thesis using Pair assms(2) [of a t] v by (simp add: seats_def view_def)
  qed
qed

lemma idents_updates [simp]:
  "idents (s\<lparr>tasks_list := ts\<rparr>) = idents s" "idents (s\<lparr>stop_flags := fl\<rparr>) = idents s" "idents (s\<lparr>req_dict := d\<rparr>) = idents s"
  by (simp_all add: idents_def)

lemma seats_take_slot: "seats r s (snd (take_slot r s))"
  by (simp add: take_slot_def Let_def seats_def set_update_subset_insert subset_insertI split: sum.split)

lemma seats_then:
  assumes "seats r s (snd x)" "\<And>v t. x = (Inr v, t) \<Longrightarrow> snd (k v t) = t"
  shows "seats r s (snd (andthen x k))"
  using assms by (cases x; cases "fst x") auto

lemma view_dequeue [simp]: "view (dequeue r s) = view s"
  by (simp add: dequeue_def)

lemma seats_base: "seats r s t \<Longrightarrow> view s = view u \<Longrightarrow> seats r u t"
  by (simp add: seats_def view_def)

lemma seats_start_tail: "seats r s (snd (start_tail now r v n k s))"
proof -
  have tail: "seats r t (snd (andthen (take_slot r (upd_obj r f (snd (prepare_prefill_task r n (dequeue r t))))) (\<lambda>_ s7. (Inr x, s7))))"
    if "\<And>q. request_id (f q) = request_id q \<and> disaggregate_info (f q) = disaggregate_info q" for t f x
    by (rule seats_then [OF seats_base [OF seats_take_slot]]) (simp_all add: that prepare_prefill_task_def Let_def)
  show ?thesis
    unfolding start_tail_def Let_def split_beta
    by (split if_split, intro conjI impI seats_andthen tail) (simp_all add: seats_view)
qed

lemma view_resume_tail: "view (snd (resume_tail r v n k s)) = view s"
  unfolding resume_tail_def
  by (auto intro!: view_andthen simp: prepare_prefill_task_def Let_def split: prod.splits)

lemma seats_round:
  assumes "refs_ok s"
  shows "seats (hd (waiting s)) s (snd (schedule_waiting H IB now v s))"
proof -
  let ?r = "hd (waiting s)"
  have np: "\<not> enable_prefix_cache s" using assms by (simp add: refs_ok_def)
  have "seats ?r s (snd (start_waiting H IB now ?r v s))"
    unfolding start_waiting_eq [OF np] by (intro seats_andthen seats_start_tail) simp_all
  moreover have "view (snd (resume_preempted IB ?r v s)) = view s"
  proof -
    have "view (snd (resume_preempted IB ?r v s)) =
        view (upd_obj ?r (\<lambda>q. q\<lparr>need_prefill_tokens := num_total_tokens q\<rparr>) s)"
      unfolding resume_preempted_eq by (intro view_andthen view_resume_tail) simp_all
    then show ?thesis by simp
  qed
  ultimately show ?thesis
    by (auto simp: schedule_waiting_def Let_def intro: seats_view split: RequestStatus.split)
qed

text \<open>Whoever is in a slot is an object of this engine; ids and roles stay.\<close>

definition seated :: "rm1 \<Rightarrow> bool" where
  "seated s = (\<forall>r. Some r \<in> set (tasks_list s) \<longrightarrow> r < length (objs s))"

lemma idents_length: "idents t = idents s \<Longrightarrow> length (objs t) = length (objs s)"
  by (drule arg_cong [of _ _ length]) (simp add: idents_def)

lemma seated_seats:
  assumes "seated s" "seats r s t" "r < length (objs s)"
  shows "seated t"
  using assms idents_length [of t s] by (auto simp: seated_def seats_def)

lemma seated_view: "seated s \<Longrightarrow> view t = view s \<Longrightarrow> seated t"
  using idents_length [of t s] by (simp add: seated_def view_def)

lemma seated_waiting_loop:
  "refs_ok s \<Longrightarrow> seated s \<Longrightarrow>
   seated (snd (waiting_loop H IB now v s)) \<and> idents (snd (waiting_loop H IB now v s)) = idents s"
proof (induction H IB now v s rule: waiting_loop.induct)
  case (1 H IB now v s)
  show ?case
  proof (cases "waiting s \<noteq> [] \<and> lv_budget v > 0")
    case False
    then show ?thesis using 1(3) by (subst (1 2) waiting_loop.simps) auto
  next
    case True
    obtain x t where st: "schedule_waiting H IB now v s = (x, t)" by fastforce
    have rt: "refs_ok t" using refs_round [OF 1(2), of H IB now v] True st by simp
    have se: "seats (hd (waiting s)) s t" using seats_round [OF 1(2), of H IB now v] st by simp
    have "hd (waiting s) < length (objs s)" using 1(2) True by (auto simp: refs_ok_def)
    then have t: "seated t" "idents t = idents s" using seated_seats [OF 1(3) se] se by (simp_all add: seats_def)
    show ?thesis
    proof (cases x)
      case (Inl e)
      then show ?thesis using True st t by (subst (1 2) waiting_loop.simps) simp
    next
      case (Inr gv)
      obtain go v1 where gv: "gv = (go, v1)" by (cases gv)
      show ?thesis
      proof (cases go)
        case go: True
        show ?thesis
          using 1(1) [OF True st [symmetric] Inr gv [symmetric] go rt t(1)] True st Inr gv go t(2)
          by (subst (1 2) waiting_loop.simps) simp
      next
        case False
        then show ?thesis using True st Inr gv t by (subst (1 2) waiting_loop.simps) simp
      qed
    qed
  qed
qed

lemma seated_schedule:
  assumes "refs_ok s" "seated s"
  shows "seated (snd (schedule H IB now s)) \<and> idents (snd (schedule H IB now s)) = idents s"
proof -
  let ?v0 = "\<lparr>lv_budget = max_num_batched_tokens (config s), lv_sched = [], lv_preempted = []\<rparr>"
  obtain x s1 where r: "running_loop H IB now 0 ?v0 s = (x, s1)" by fastforce
  have "view s1 = view s" using view_running_loop [of H IB now 0 ?v0 s] r by simp
  then have 1: "seated s1" "idents s1 = idents s" using seated_view [OF assms(2)] by (simp_all add: view_def)
  have ok: "refs_ok s1" using account_running_loop [OF assms(1), of H IB now 0 ?v0] r by simp
  show ?thesis
  proof (cases x)
    case (Inl e)
    then show ?thesis using r 1 by (simp add: schedule_def)
  next
    case (Inr v)
    obtain y s2 where w: "waiting_loop H IB now v s1 = (y, s2)" by fastforce
    have 2: "seated s2" "idents s2 = idents s1" using seated_waiting_loop [OF ok 1(1), of H IB now v] w by simp_all
    show ?thesis using Inr r w 1 2 by (cases y) (auto simp: schedule_def)
  qed
qed

end
