(* ===== verification/TokenProcessorProps.thy ===== *)
theory TokenProcessorProps
  imports TokenProcessor SchedulerV1Slots
begin

text \<open>
  What the token processor does to a stream of tokens, and that it keeps the engine in the states the scheduler
  reaches, so that the account of the cache blocks survives every batch of output.
\<close>

subsection \<open>Finishing requests leaves their texts alone\<close>

definition texts :: "rm1 \<Rightarrow> (req_id \<times> token list \<times> token list \<times> disaggregate option) list" where
  "texts s = map (\<lambda>q. (request_id q, output_token_ids q, eos_token_ids q, disaggregate_info q)) (objs s)"

lemma texts_upd_obj:
  assumes "\<And>q. request_id (f q) = request_id q \<and> output_token_ids (f q) = output_token_ids q \<and>
    eos_token_ids (f q) = eos_token_ids q \<and> disaggregate_info (f q) = disaggregate_info q"
  shows "texts (upd_obj r f s) = texts s"
  unfolding texts_def upd_obj_def
  by (cases "r < length (objs s)") (auto simp: map_update assms list_update_same_conv intro!: nth_equalityI)

lemma texts_updates [simp]:
  "texts (s\<lparr>running := rs\<rparr>) = texts s" "texts (s\<lparr>waiting := rs\<rparr>) = texts s" "texts (s\<lparr>to_be_rescheduled := b\<rparr>) = texts s"
  "texts (s\<lparr>requests := m\<rparr>) = texts s" "texts (s\<lparr>stop_flags := fl\<rparr>) = texts s" "texts (s\<lparr>tasks_list := ts\<rparr>) = texts s"
  "texts (s\<lparr>cache_manager := p\<rparr>) = texts s" "texts (s\<lparr>req_dict := d\<rparr>) = texts s"
  by (simp_all add: texts_def)

lemma texts_free_blocks: "texts (snd (free_blocks r s)) = texts s"
  by (simp add: free_blocks_def Let_def texts_upd_obj split: option.split)

lemma texts_finish_one: "texts (snd (finish_one rid r s)) = texts s"
proof -
  let ?s0 = "upd_obj r (status_update (\<lambda>_. FINISHED)) (s\<lparr>running := remove_eq s r (running s)\<rparr>)"
  have f: "texts (snd (free_blocks r ?s0)) = texts s" by (simp add: texts_free_blocks texts_upd_obj)
  show ?thesis
    unfolding finish_one_def using f
    by (intro snd_andthen [where P = "\<lambda>t. texts t = texts s"])
      (auto simp: Let_def split: if_splits option.split)
qed

text \<open>What every single finish keeps, finishing a list of requests keeps.\<close>

lemma finish_requests_keeps:
  assumes "\<And>rid r s. K s (snd (finish_one rid r s))" and "\<And>s. K s s" and "\<And>s t u. K s t \<Longrightarrow> K t u \<Longrightarrow> K s u"
  shows "K s (finish_requests rids s)"
  unfolding finish_requests_def
proof (induction rids arbitrary: s)
  case Nil
  then show ?case using assms(2) by simp
next
  case (Cons rid rids)
  show ?case
  proof (cases "requests s rid")
    case None
    then show ?thesis using Cons.IH by simp
  next
    case (Some r)
    obtain x t where f: "finish_one rid r s = (x, t)" by fastforce
    have "K s t" using assms(1) [of s rid r] f by simp
    then show ?thesis using Cons.IH [of t] f Some assms(3) by (cases x) auto
  qed
qed

lemma texts_finish_requests: "texts (finish_requests rids s) = texts s"
  using finish_requests_keeps [where K = "\<lambda>s t. texts t = texts s"] by (simp add: texts_finish_one)

lemma slots_finish_requests: "set (tasks_list (finish_requests rids s)) \<subseteq> insert None (set (tasks_list s))"
proof (rule finish_requests_keeps [where K = "\<lambda>s t. set (tasks_list t) \<subseteq> insert None (set (tasks_list s))"])
  fix rid r s
  have upd: "tasks_list (upd_obj q f u) = tasks_list u" for q f u by (simp add: upd_obj_def)
  have f: "tasks_list (snd (free_blocks q u)) = tasks_list u" for q u
    by (simp add: free_blocks_def Let_def upd split: option.split)
  have w: "set (xs[p := None]) \<subseteq> insert None (set xs)" for xs :: "oref option list" and p
    by (rule set_update_subset_insert)
  show "set (tasks_list (snd (finish_one rid r s))) \<subseteq> insert None (set (tasks_list s))"
    unfolding finish_one_def using f w
    by (intro snd_andthen [where P = "\<lambda>t. set (tasks_list t) \<subseteq> insert None (set (tasks_list s))"])
      (auto simp: Let_def upd split: if_splits option.split dest!: arg_cong [where f = snd] subsetD [OF w])
qed auto

lemma texts_reschedule: "texts (reschedule_preempt_task rid s) = texts s"
  by (simp add: reschedule_preempt_task_def split: option.split)

lemma texts_nth:
  assumes "texts s' = texts s" "r < length (objs s)"
  shows "output_token_ids (obj s' r) = output_token_ids (obj s r)" "eos_token_ids (obj s' r) = eos_token_ids (obj s r)"
    "request_id (obj s' r) = request_id (obj s r)"
proof -
  have l: "length (objs s') = length (objs s)" using arg_cong [OF assms(1), of length] by (simp add: texts_def)
  have "texts s' ! r = texts s ! r" using assms(1) by simp
  then show "output_token_ids (obj s' r) = output_token_ids (obj s r)" "eos_token_ids (obj s' r) = eos_token_ids (obj s r)"
    "request_id (obj s' r) = request_id (obj s r)"
    using assms(2) l by (simp_all add: texts_def)
qed

subsection \<open>The tokens of one result\<close>

text \<open>The tokens up to the first stop token, which is included.\<close>

fun up_to_stop :: "token list \<Rightarrow> token list \<Rightarrow> token list" where
  "up_to_stop stops [] = []"
| "up_to_stop stops (t # ts) = t # (if t \<in> set stops then [] else up_to_stop stops ts)"

lemma tp_rm_status: "compute_speculative_status tc tp = (x, tp') \<Longrightarrow> tp_rm tp' = tp_rm tp \<and> tokens_counter tp' = tokens_counter tp"
  by (auto simp: compute_speculative_status_def Let_def split: if_splits)

lemma emit_tokens_stop:
  fixes res :: tp_result and tp :: token_processor
  assumes "t \<noteq> RECOVERY_STOP_SIGNAL" "t \<in> set (eos_token_ids (obj (tp_rm tp) r))"
  defines "tp2 \<equiv> on_rm (upd_obj r (\<lambda>q. q\<lparr>output_token_ids := output_token_ids q @ [t]\<rparr>))
    (tp\<lparr>tokens_counter := (tokens_counter tp)(tp_request_id res := tokens_counter tp (tp_request_id res) + 1)\<rparr>)"
  shows "emit_tokens tc i r False False (t # ts) res tp =
    andthen (if speculative tc \<noteq> None then compute_speculative_status tc tp2 else (Inr (), tp2))
      (\<lambda>_ tp3. recycle_resources (tp_request_id res) i r False
        (res\<lparr>tp_token_ids := tp_token_ids res @ [t], tp_finished := True\<rparr>) tp3)"
proof -
  have "eos_token_ids (obj (upd_obj r (\<lambda>q. q\<lparr>output_token_ids := output_token_ids q @ [t]\<rparr>) (tp_rm tp)) r) =
    eos_token_ids (obj (tp_rm tp) r)"
    by (cases "r < length (objs (tp_rm tp))") (simp_all add: upd_obj_def list_update_beyond)
  then show ?thesis using assms(1,2) by (simp add: Let_def tp2_def [symmetric] del: One_nat_def)
qed

lemma emit_tokens_effect:
  assumes "emit_tokens tc i r False False toks res tp = (Inr res', tp')" "r < length (objs (tp_rm tp))"
    "RECOVERY_STOP_SIGNAL \<notin> set toks"
  shows "tp_token_ids res' = tp_token_ids res @ up_to_stop (eos_token_ids (obj (tp_rm tp) r)) toks \<and>
    tp_send_idx res' = tp_send_idx res \<and>
    (tp_finished res' \<longleftrightarrow> tp_finished res \<or> (\<exists>t \<in> set toks. t \<in> set (eos_token_ids (obj (tp_rm tp) r)))) \<and>
    output_token_ids (obj (tp_rm tp') r) =
      output_token_ids (obj (tp_rm tp) r) @ up_to_stop (eos_token_ids (obj (tp_rm tp) r)) toks \<and>
    tokens_counter tp' (tp_request_id res) =
      (if \<exists>t \<in> set toks. t \<in> set (eos_token_ids (obj (tp_rm tp) r)) then 0
       else tokens_counter tp (tp_request_id res) + length toks)"
  using assms
proof (induction toks arbitrary: res tp)
  case Nil
  then show ?case by simp
next
  case (Cons t ts)
  let ?rid = "tp_request_id res"
  let ?res1 = "res\<lparr>tp_token_ids := tp_token_ids res @ [t]\<rparr>"
  let ?f = "\<lambda>q. q\<lparr>output_token_ids := output_token_ids q @ [t]\<rparr>"
  let ?tp2 = "on_rm (upd_obj r ?f) (tp\<lparr>tokens_counter := (tokens_counter tp)(?rid := tokens_counter tp ?rid + 1)\<rparr>)"
  have t: "t \<noteq> RECOVERY_STOP_SIGNAL" using Cons.prems(3) by auto
  have eos: "eos_token_ids (obj (tp_rm ?tp2) r) = eos_token_ids (obj (tp_rm tp) r)"
    and out: "output_token_ids (obj (tp_rm ?tp2) r) = output_token_ids (obj (tp_rm tp) r) @ [t]"
    and len: "r < length (objs (tp_rm ?tp2))"
    using Cons.prems(2) by (simp_all add: upd_obj_def)
  show ?case
  proof (cases "t \<in> set (eos_token_ids (obj (tp_rm tp) r))")
    case False
    have "emit_tokens tc i r False False ts ?res1 ?tp2 = (Inr res', tp')"
      using Cons.prems(1) False t eos by (simp add: Let_def)
    from Cons.IH [OF this len] Cons.prems(3) show ?thesis
      unfolding eos out using False by simp
  next
    case True
    obtain tp3 x where c: "(if speculative tc \<noteq> None then compute_speculative_status tc ?tp2 else (Inr (), ?tp2)) = (Inr x, tp3)"
      and r: "recycle_resources ?rid i r False (?res1\<lparr>tp_finished := True\<rparr>) tp3 = (Inr res', tp')"
      using Cons.prems(1) emit_tokens_stop [OF t, of tp r tc i ts res] True
      by (auto simp: andthen_eq_Inr simp del: emit_tokens.simps)
    have rm: "tp_rm tp3 = tp_rm ?tp2" using c tp_rm_status [of tc ?tp2 "Inr x" tp3] by (auto split: if_splits)
    have res': "res' = ?res1\<lparr>tp_finished := True\<rparr>" and rm': "tp_rm tp' = finish_requests [?rid] (tp_rm tp3)"
      and cnt: "tokens_counter tp' ?rid = 0"
      using r by (auto simp: recycle_resources_def)
    have "output_token_ids (obj (tp_rm tp') r) = output_token_ids (obj (tp_rm tp) r) @ [t]"
      using texts_nth(1) [OF texts_finish_requests, of r "tp_rm ?tp2" "[?rid]"] len out by (simp add: rm' rm)
    then show ?thesis using True res' cnt by auto
  qed
qed

text \<open>C18: the results of a request that is not in the prefill role form one stream without gaps, as long as no recovery stop is
  flagged or among the tokens: a result that is made without an exception carries the sampled tokens up to and including the first
  stop token, they are appended to the output of the request, the result says at which position they start,
  and it is the last one exactly if a stop token is among them, which resets the position.\<close>

theorem results_form_stream:
  assumes "emit_result tc i r False toks tp = (Inr out, tp')" "r < length (objs (tp_rm tp))"
    "\<not> is_prefill_role (obj (tp_rm tp) r)" "RECOVERY_STOP_SIGNAL \<notin> set toks"
  shows "\<exists>res. out = Some res \<and>
    tp_token_ids res = up_to_stop (eos_token_ids (obj (tp_rm tp) r)) toks \<and>
    output_token_ids (obj (tp_rm tp') r) = output_token_ids (obj (tp_rm tp) r) @ tp_token_ids res \<and>
    tp_send_idx res = tokens_counter tp (request_id (obj (tp_rm tp) r)) \<and>
    (tp_finished res \<longleftrightarrow> (\<exists>t \<in> set toks. t \<in> set (eos_token_ids (obj (tp_rm tp) r)))) \<and>
    tokens_counter tp' (request_id (obj (tp_rm tp) r)) =
      (if tp_finished res then 0 else tp_send_idx res + length (tp_token_ids res))"
proof -
  let ?tp1 = "tp\<lparr>total_step := total_step tp + 1, number_of_output_tokens := number_of_output_tokens tp + int (length toks)\<rparr>"
  obtain res where e: "emit_tokens tc i r False False toks (new_result i r toks ?tp1) ?tp1 = (Inr res, tp')" and o: "out = Some res"
    using assms(1,3) by (auto simp: emit_result_def Let_def andthen_eq_Inr)
  have l: "length (up_to_stop stops toks) = length toks" if "\<not> (\<exists>t \<in> set toks. t \<in> set stops)" for stops
    using that by (induction toks) auto
  show ?thesis
    using emit_tokens_effect [OF e _ assms(4)] assms(2) o l by (auto simp: new_result_def Let_def)
qed

abbreviation (input) running_a :: rm1 where
  "running_a \<equiv> upd_obj 0 (eos_token_ids_update (\<lambda>_. [2])) prefilled"

abbreviation (input) no_spec :: tp_config where
  "no_spec \<equiv> \<lparr>speculative = None, num_speculative_tokens = 0, splitwise = False\<rparr>"

theorem results_form_stream_witness:
  "\<exists>res :: tp_result. tp_token_ids res = [9] \<and> tp_send_idx res = 0 \<and> \<not> tp_finished res \<and>
     output_token_ids (obj (tp_rm (snd (emit_result no_spec 0 0 False [9] (init_token_processor running_a)))) 0) = [9]"
proof -
  let ?tp = "init_token_processor running_a"
  let ?x = "emit_result no_spec 0 0 False [9] ?tp"
  have f: "case fst ?x of Inr _ \<Rightarrow> True | Inl _ \<Rightarrow> False" by code_simp
  then obtain out tp' where x: "?x = (Inr out, tp')" by (cases ?x; cases "fst ?x") auto
  have s: "0 < length (objs (tp_rm ?tp))" "\<not> is_prefill_role (obj (tp_rm ?tp) 0)"
    "eos_token_ids (obj (tp_rm ?tp) 0) = [2]" "output_token_ids (obj (tp_rm ?tp) 0) = []"
    "tokens_counter ?tp (request_id (obj (tp_rm ?tp) 0)) = 0" by code_simp+
  have n: "RECOVERY_STOP_SIGNAL \<notin> set [9]" by (simp add: RECOVERY_STOP_SIGNAL_def)
  show ?thesis
    unfolding x snd_conv using results_form_stream [OF x s(1,2) n] unfolding s by auto
qed

subsection \<open>The engine under the token processor\<close>

text \<open>
  The second scheduler is only used where one instance does both prefill and decoding: no request is a prefill for
  another instance.
\<close>

definition mixed :: "rm1 \<Rightarrow> bool" where
  "mixed s = (\<forall>q \<in> set (objs s). \<not> is_prefill_role q)"

definition prefill_ident :: "req_id \<times> disaggregate option \<Rightarrow> bool" where
  "prefill_ident x = (case snd x of None \<Rightarrow> False | Some d \<Rightarrow> role d = ''prefill'')"

lemma mixed_idents: "mixed s \<longleftrightarrow> (\<forall>x \<in> set (idents s). \<not> prefill_ident x)"
  by (auto simp: mixed_def idents_def prefill_ident_def is_prefill_role_def)

lemma idents_texts: "texts s' = texts s \<Longrightarrow> idents s' = idents s"
proof -
  have "idents u = map (\<lambda>(a, b, c, d). (a, d)) (texts u)" for u by (simp add: idents_def texts_def)
  then show "texts s' = texts s \<Longrightarrow> idents s' = idents s" by simp
qed

text \<open>The states the engine keeps: reached by the scheduler's operations, with its own requests in the slots.\<close>

definition engine_ok :: "cache_config \<Rightarrow> v1_config \<Rightarrow> nat \<Rightarrow> nat \<Rightarrow> nat \<Rightarrow> rm1 \<Rightarrow> bool" where
  "engine_ok c v n gpu cpu s = (v1_reachable c v n gpu cpu s \<and> seated s \<and> mixed s)"

lemma engine_ok_kept:
  assumes "engine_ok c v n gpu cpu s" "v1_reachable c v n gpu cpu s'" "idents s' = idents s"
    "set (tasks_list s') \<subseteq> insert None (set (tasks_list s))"
  shows "engine_ok c v n gpu cpu s'"
  using assms idents_length [OF assms(3)] by (auto simp: engine_ok_def mixed_idents seated_def subset_iff)

lemma engine_ok_slot:
  assumes "engine_ok c v n gpu cpu s" "Some r \<in> set (tasks_list s)"
  shows "r < length (objs s)" "\<not> is_prefill_role (obj s r)"
  using assms by (auto simp: engine_ok_def seated_def mixed_def)

lemma engine_ok_write:
  assumes "engine_ok c v n gpu cpu s"
    "\<And>q. block_tables (f q) = block_tables q \<and> request_id (f q) = request_id q \<and> status (f q) = status q \<and>
       disaggregate_info (f q) = disaggregate_info q"
  shows "engine_ok c v n gpu cpu (upd_obj r f s)"
  by (rule engine_ok_kept [OF assms(1)]) (use assms in \<open>auto simp: engine_ok_def intro: v1_write\<close>)

lemma engine_ok_finish: "engine_ok c v n gpu cpu s \<Longrightarrow> engine_ok c v n gpu cpu (finish_requests rids s)"
  by (rule engine_ok_kept)
    (auto simp: engine_ok_def idents_texts [OF texts_finish_requests]
      intro: v1_finish dest: slots_finish_requests [THEN subsetD])

lemma engine_ok_resume:
  assumes "engine_ok c v n gpu cpu s"
  shows "engine_ok c v n gpu cpu (reschedule_preempt_task rid s)"
proof (rule engine_ok_kept [OF assms])
  show "v1_reachable c v n gpu cpu (reschedule_preempt_task rid s)"
    using assms by (auto simp: engine_ok_def intro: v1_resume)
  show "idents (reschedule_preempt_task rid s) = idents s" by (rule idents_texts [OF texts_reschedule])
  show "set (tasks_list (reschedule_preempt_task rid s)) \<subseteq> insert None (set (tasks_list s))"
    by (auto simp: reschedule_preempt_task_def split: option.split)
qed

lemma engine_ok_add:
  assumes "engine_ok c v n gpu cpu s" "block_tables q = []" "status q = WAITING" "\<not> is_prefill_role q"
    "requests s (request_id q) = None"
  shows "engine_ok c v n gpu cpu (add_request q s)"
  using assms by (auto simp: engine_ok_def seated_def mixed_def add_request_def less_Suc_eq intro: v1_add [unfolded add_request_def])

lemma engine_ok_schedule:
  assumes "engine_ok c v n gpu cpu s"
  shows "engine_ok c v n gpu cpu (snd (schedule H IB now s))"
  using assms seated_schedule [of s H IB now] v1_reachable_ok [of c v n gpu cpu s]
  by (auto simp: engine_ok_def mixed_idents intro: v1_schedule)

abbreviation (input) tp_ok :: "cache_config \<Rightarrow> v1_config \<Rightarrow> nat \<Rightarrow> nat \<Rightarrow> nat \<Rightarrow> token_processor \<Rightarrow> bool" where
  "tp_ok c v n gpu cpu \<equiv> \<lambda>tp. engine_ok c v n gpu cpu (tp_rm tp)"

lemma tp_rm_snd_status [simp]: "tp_rm (snd (compute_speculative_status tc tp)) = tp_rm tp"
  using tp_rm_status [of tc tp "fst (compute_speculative_status tc tp)"] by simp

lemma tp_ok_status:
  "tp_ok c v n gpu cpu tp \<Longrightarrow>
   tp_ok c v n gpu cpu (snd (if speculative tc \<noteq> None then compute_speculative_status tc tp else (Inr (), tp)))"
  by simp

lemma tp_ok_recycle:
  "tp_ok c v n gpu cpu tp \<Longrightarrow> tp_ok c v n gpu cpu (snd (recycle_resources rid i r False res tp))"
  by (simp add: recycle_resources_def engine_ok_finish)

lemma tp_ok_emit:
  "tp_ok c v n gpu cpu tp \<Longrightarrow> tp_ok c v n gpu cpu (snd (emit_tokens tc i r False recovery toks res tp))"
proof (induction toks arbitrary: res tp)
  case Nil
  then show ?case by simp
next
  case (Cons t ts)
  define tp2 where "tp2 = (let tp1 = tp\<lparr>tokens_counter := (tokens_counter tp)(tp_request_id res := tokens_counter tp (tp_request_id res) + 1)\<rparr>
    in if t \<noteq> RECOVERY_STOP_SIGNAL
       then on_rm (upd_obj r (\<lambda>q. q\<lparr>output_token_ids := output_token_ids q @ [t]\<rparr>)) tp1 else tp1)"
  have ok: "tp_ok c v n gpu cpu tp2" using Cons.prems by (auto simp: tp2_def Let_def intro: engine_ok_write)
  have stop: "tp_ok c v n gpu cpu
      (snd (andthen (if speculative tc \<noteq> None then compute_speculative_status tc tp2 else (Inr (), tp2))
        (\<lambda>_ tp3. recycle_resources rid i r False res3 tp3)))" for rid res3
    by (rule snd_andthen_keeps [where P = "tp_ok c v n gpu cpu", OF tp_ok_status [OF ok] tp_ok_recycle])
  show ?case
    using stop Cons.IH [OF ok] unfolding emit_tokens.simps tp2_def [symmetric, unfolded Let_def] Let_def
    by (cases recovery) simp_all
qed

lemma tp_ok_emit_result:
  assumes "tp_ok c v n gpu cpu tp" "\<not> is_prefill_role (obj (tp_rm tp) r)"
  shows "tp_ok c v n gpu cpu (snd (emit_result tc i r recovery toks tp))"
  unfolding emit_result_def Let_def
  by (rule snd_andthen_keeps [where P = "tp_ok c v n gpu cpu"]) (use assms tp_ok_emit in \<open>simp_all\<close>)

lemma tp_ok_count_chunk:
  assumes "tp_ok c v n gpu cpu tp"
  shows "tp_ok c v n gpu cpu (snd (count_chunk r tp)) \<and>
    is_prefill_role (obj (tp_rm (snd (count_chunk r tp))) r) = is_prefill_role (obj (tp_rm tp) r)"
  using assms engine_ok_write [of c v n gpu cpu "tp_rm tp" "prefill_chunk_num_update (\<lambda>_. prefill_chunk_num (obj (tp_rm tp) r) + 1)" r]
  by (cases "r < length (objs (tp_rm tp))")
    (auto simp: count_chunk_def Let_def is_prefill_role_def upd_obj_def list_update_beyond split: option.split)

lemma tp_ok_slot:
  assumes "tp_ok c v n gpu cpu tp"
  shows "tp_ok c v n gpu cpu (snd (process_slot tc raw i tp))"
proof (cases "i < length (stop_flags (tp_rm tp)) \<and> \<not> stop_flags (tp_rm tp) ! i \<and> i < length (tasks_list (tp_rm tp))")
  case False
  then show ?thesis using assms by (auto simp: process_slot_def Let_def)
next
  case True
  show ?thesis
  proof (cases "tasks_list (tp_rm tp) ! i")
    case None
    then show ?thesis using assms True by (simp add: process_slot_def)
  next
    case (Some r)
    obtain last_chunk tp1 where c: "count_chunk r tp = (last_chunk, tp1)" by fastforce
    have "Some r \<in> set (tasks_list (tp_rm tp))" using True Some by (metis nth_mem)
    then have "\<not> is_prefill_role (obj (tp_rm tp) r)" by (rule engine_ok_slot [OF assms])
    then have k: "tp_ok c v n gpu cpu tp1" "\<not> is_prefill_role (obj (tp_rm tp1) r)"
      using tp_ok_count_chunk [OF assms, of r] c by auto
    show ?thesis
      using True Some assms k(1) tp_ok_emit_result [OF k]
      by (simp add: process_slot_def Let_def c engine_ok_resume split: sum.split)
  qed
qed

lemma tp_ok_idle: "tp_ok c v n gpu cpu tp \<Longrightarrow> tp_ok c v n gpu cpu (snd (reschedule_idle batch rids tp))"
  by (induction rids arbitrary: tp) (simp_all add: engine_ok_resume split: option.split)

lemma tp_ok_slots: "tp_ok c v n gpu cpu tp \<Longrightarrow> tp_ok c v n gpu cpu (snd (process_slots tc raw is acc tp))"
proof (induction "is" arbitrary: acc tp)
  case Nil
  then show ?case by simp
next
  case (Cons i "is")
  show ?case
    unfolding process_slots.simps
    by (rule snd_andthen_keeps [where P = "tp_ok c v n gpu cpu", OF tp_ok_slot [OF Cons.prems] Cons.IH])
qed

lemma tp_rm_heads [simp]: "tp_rm (snd (record_heads k head accepted rest tp)) = tp_rm tp"
  by (induction k arbitrary: head rest tp) (simp_all add: Let_def)

lemma tp_rm_metrics [simp]: "tp_rm (snd (record_speculative_metrics tc accept tp)) = tp_rm tp"
  by (simp add: record_speculative_metrics_def Let_def)

lemma tp_ok_batch:
  assumes "tp_ok c v n gpu cpu tp"
  shows "tp_ok c v n gpu cpu (snd (process_batch_output tc raw preempted tp))"
  unfolding process_batch_output_def
  by (split sum.split, intro conjI allI impI)
    (use assms in \<open>auto intro!: snd_andthen_keeps [where P = "tp_ok c v n gpu cpu"] tp_ok_idle tp_ok_slots\<close>)

subsection \<open>Acceptance per draft position\<close>

text \<open>How many of the requests had their draft token at position \<open>h\<close> accepted: they emitted at least \<open>h + 2\<close> tokens.\<close>

definition accepted_at :: "int list \<Rightarrow> nat \<Rightarrow> int" where
  "accepted_at accepted h = int (length (filter (\<lambda>x. x \<ge> int h + 2) accepted))"

definition reached_at :: "int list \<Rightarrow> int \<Rightarrow> nat \<Rightarrow> nat \<Rightarrow> int" where
  "reached_at accepted rest head h = (if h = head then rest else accepted_at accepted (h - 1))"

lemma record_heads_at:
  assumes "record_heads k head accepted rest tp = (x, tp')"
    "length (num_accept_requests_per_head tp) = length (num_rest_requests_per_head tp)"
  shows "length (num_accept_requests_per_head tp') = length (num_rest_requests_per_head tp) \<and>
    length (num_rest_requests_per_head tp') = length (num_rest_requests_per_head tp) \<and>
    (\<forall>h < length (num_rest_requests_per_head tp).
       num_accept_requests_per_head tp' ! h = num_accept_requests_per_head tp ! h +
         (if head \<le> h \<and> h < head + k then accepted_at accepted h else 0) \<and>
       num_rest_requests_per_head tp' ! h = num_rest_requests_per_head tp ! h +
         (if head \<le> h \<and> h < head + k then reached_at accepted rest head h else 0))"
  using assms
proof (induction k arbitrary: head rest tp)
  case 0
  then show ?case by simp
next
  case (Suc k)
  let ?n = "accepted_at accepted head"
  let ?tp1 = "tp\<lparr>num_accept_requests_per_head := (num_accept_requests_per_head tp)[head := num_accept_requests_per_head tp ! head + ?n],
    num_rest_requests_per_head := (num_rest_requests_per_head tp)[head := num_rest_requests_per_head tp ! head + rest]\<rparr>"
  show ?case
  proof (cases "head < length (num_rest_requests_per_head tp)")
    case False
    then show ?thesis using Suc.prems by simp
  next
    case True
    have "record_heads k (Suc head) accepted ?n ?tp1 = (x, tp')"
      using Suc.prems True by (simp add: accepted_at_def Let_def)
    note IH = Suc.IH [OF this]
    have n: "reached_at accepted ?n (Suc head) h = reached_at accepted rest head h" if "Suc head \<le> h" for h
      using that by (auto simp: reached_at_def)
    have head: "reached_at accepted rest head head = rest" by (simp add: reached_at_def)
    show ?thesis using IH Suc.prems(2) True head n by (auto simp: nth_list_update Suc_le_eq)
  qed
qed

lemma accepted_at_mono: "h \<le> h' \<Longrightarrow> accepted_at accepted h' \<le> accepted_at accepted h"
  unfolding accepted_at_def by (induction accepted) auto

lemma accepted_at_bounds: "0 \<le> accepted_at accepted h" "accepted_at accepted h \<le> int (length accepted)"
  by (simp_all add: accepted_at_def)

text \<open>Per draft position, no more requests had the token accepted than reached it, and those that had it accepted
  are those that reach the next position.\<close>

definition heads_ok :: "tp_config \<Rightarrow> token_processor \<Rightarrow> bool" where
  "heads_ok tc tp =
     (length (num_accept_requests_per_head tp) = length (num_rest_requests_per_head tp) \<and>
      (\<forall>h < length (num_rest_requests_per_head tp).
         0 \<le> num_accept_requests_per_head tp ! h \<and>
         num_accept_requests_per_head tp ! h \<le> num_rest_requests_per_head tp ! h \<and>
         (Suc h < length (num_rest_requests_per_head tp) \<and> Suc h < num_speculative_tokens tc \<longrightarrow>
            num_rest_requests_per_head tp ! Suc h = num_accept_requests_per_head tp ! h)))"

text \<open>The counters behind the acceptance rate of each draft position stay consistent however the workers' counts
  look and even if the update raises: the rate lies between 0 and 1 and the requests accepted at one position are
  those that reach the next one.\<close>

theorem acceptance_rates_consistent:
  assumes "heads_ok tc tp" "record_speculative_metrics tc accept tp = (x, tp')"
  shows "heads_ok tc tp'"
proof -
  let ?real = "filter (\<lambda>x. x \<noteq> 0) accept"
  let ?k = "int (length ?real)"
  consider "num_accept_requests_per_head tp' = num_accept_requests_per_head tp"
      "num_rest_requests_per_head tp' = num_rest_requests_per_head tp"
    | tp2 where "record_heads (num_speculative_tokens tc) 0 ?real ?k tp2 = (x, tp')"
      "num_accept_requests_per_head tp2 = num_accept_requests_per_head tp"
      "num_rest_requests_per_head tp2 = num_rest_requests_per_head tp"
    using assms(2) by (fastforce simp: record_speculative_metrics_def Let_def split: if_splits)
  then show ?thesis
  proof cases
    case 1
    then show ?thesis using assms(1) by (simp add: heads_ok_def)
  next
    case 2
    have le: "accepted_at ?real h \<le> reached_at ?real ?k 0 h" for h
      using accepted_at_bounds accepted_at_mono [of "h - 1" h] by (simp add: reached_at_def)
    have s: "reached_at ?real ?k 0 (Suc h) = accepted_at ?real h" for h by (simp add: reached_at_def)
    show ?thesis
      using record_heads_at [OF 2(1)] assms(1) 2(2,3) le s accepted_at_bounds(1) [of ?real]
      by (simp add: heads_ok_def add_mono)
  qed
qed

theorem acceptance_rates_consistent_witness:
  "heads_ok \<lparr>speculative = Some ''mtp'', num_speculative_tokens = 2, splitwise = False\<rparr>
     (snd (record_speculative_metrics \<lparr>speculative = Some ''mtp'', num_speculative_tokens = 2, splitwise = False\<rparr>
       [3, 0, 1, 2] (init_token_processor running_a)))"
proof -
  let ?tc = "\<lparr>speculative = Some ''mtp'', num_speculative_tokens = 2, splitwise = False\<rparr> :: tp_config"
  have "heads_ok ?tc (init_token_processor running_a)"
    by (simp add: heads_ok_def init_token_processor_def)
  then show ?thesis using acceptance_rates_consistent [OF _ prod.collapse [symmetric]] by blast
qed

end
