(* ===== verification/EngineLoopProps.thy ===== *)
theory EngineLoopProps
  imports EngineLoop TokenProcessorProps QueueClaims LocalSchedulerProps
begin

text \<open>
  What the parts guarantee together: the steps of all threads in any order keep the account of the cache blocks, the
  planning thread never waits for the workers, and every worker gets every planned batch once.
\<close>

subsection \<open>Requests the scheduler holds\<close>

text \<open>Requests come in waiting and without blocks, and none of them is a prefill for another instance.\<close>

definition fresh :: "Request \<Rightarrow> bool" where
  "fresh q = (block_tables q = [] \<and> status q = WAITING \<and> \<not> is_prefill_role q)"

abbreviation all_fresh :: "'o local_sched \<Rightarrow> bool" where
  "all_fresh \<equiv> all_hold fresh"

text \<open>A fetch hands over different ids, and none that the resource manager still holds.\<close>

definition fetches_unused :: "engine_config \<Rightarrow> engine \<Rightarrow> bool" where
  "fetches_unused ec e =
     (let s = en_rm e in
      case fst (get_requests (available_block_num s) (int (block_size (cfg s))) (enc_dec_block_num (config s))
                  (max_model_len ec) (min (int (available_batch s)) (max_prefill_batch ec)) (en_sched e)) of
        Inl x \<Rightarrow> True
      | Inr tasks \<Rightarrow> distinct (map request_id tasks) \<and> list_all (\<lambda>q. requests s (request_id q) = None) tasks)"

subsection \<open>Runs of the engine\<close>

text \<open>
  The steps of all threads in any order, with the batches put so far and what each worker got: the front end puts
  requests and collects results, the planning thread fetches and plans, workers read their tasks, and output
  of any content is processed.
\<close>

inductive engine_run ::
  "cache_config \<Rightarrow> v1_config \<Rightarrow> nat \<Rightarrow> nat \<Rightarrow> nat \<Rightarrow> engine_config \<Rightarrow>
   (sched_item list \<times> nat) list \<Rightarrow> (nat \<Rightarrow> (sched_item list \<times> nat) list) \<Rightarrow> engine \<Rightarrow> bool"
  for c v n gpu cpu ec where
  e_init: "0 < workers \<Longrightarrow> engine_run c v n gpu cpu ec [] (\<lambda>_. [])
     (init_engine (init_local cap life ch p l th) (init_rm1 c v n False (init_pcm gpu cpu False)) workers)"
| e_put: "engine_run c v n gpu cpu ec sent got e \<Longrightarrow> \<forall>q \<in> set rs. fresh q \<Longrightarrow>
     engine_run c v n gpu cpu ec sent got (e\<lparr>en_sched := snd (put_requests now rs (en_sched e))\<rparr>)"
| e_collect: "engine_run c v n gpu cpu ec sent got e \<Longrightarrow>
     engine_run c v n gpu cpu ec sent got (e\<lparr>en_sched := snd (get_results (en_sched e))\<rparr>)"
| e_fetch: "engine_run c v n gpu cpu ec sent got e \<Longrightarrow> may_fetch signal e \<Longrightarrow> fetches_unused ec e \<Longrightarrow>
     engine_run c v n gpu cpu ec sent got (snd (fetch_request ec e))"
| e_plan: "engine_run c v n gpu cpu ec sent got e \<Longrightarrow> schedule_step H IB now e = Some (batch, e') \<Longrightarrow>
     engine_run c v n gpu cpu ec (case batch of None \<Rightarrow> sent | Some b \<Rightarrow> sent @ [b]) got e'"
| e_work: "engine_run c v n gpu cpu ec sent got e \<Longrightarrow> w < num_client (en_wq e) \<Longrightarrow> client_read_flag (en_wq e) ! w = 0 \<Longrightarrow>
     get_tasks w (en_wq e) = (([b], done), q) \<Longrightarrow>
     engine_run c v n gpu cpu ec sent (got(w := got w @ [b])) (e\<lparr>en_wq := q\<rparr>)"
| e_output: "engine_run c v n gpu cpu ec sent got e \<Longrightarrow>
     engine_run c v n gpu cpu ec sent got (output_step ec raw preempted e)"

text \<open>What holds in every state of a run: the engine's, the worker queue's and the scheduler's part.\<close>

definition engine_inv ::
  "cache_config \<Rightarrow> v1_config \<Rightarrow> nat \<Rightarrow> nat \<Rightarrow> nat \<Rightarrow>
   (sched_item list \<times> nat) list \<Rightarrow> (nat \<Rightarrow> (sched_item list \<times> nat) list) \<Rightarrow> engine \<Rightarrow> bool" where
  "engine_inv c v n gpu cpu sent got e =
     (engine_ok c v n gpu cpu (en_rm e) \<and> tq.delivered sent got (en_wq e) \<and> all_fresh (en_sched e))"

lemma engine_inv_init:
  assumes "0 < workers"
  shows "engine_inv c v n gpu cpu [] (\<lambda>_. [])
    (init_engine (init_local cap life ch p l th) (init_rm1 c v n False (init_pcm gpu cpu False)) workers)"
proof -
  have "engine_ok c v n gpu cpu (init_rm1 c v n False (init_pcm gpu cpu False))"
    using v1_init [of c v n gpu cpu]
    by (simp add: engine_ok_def seated_def mixed_def init_rm1_def init_rm_def rm.defs)
  then show ?thesis
    using init_delivered(1) [OF assms]
    by (simp add: engine_inv_def init_engine_def init_token_processor_def all_hold_def init_local_def)
qed

lemma engine_ok_adds:
  "engine_ok c v n gpu cpu s \<Longrightarrow> \<forall>q \<in> set tasks. fresh q \<and> requests s (request_id q) = None \<Longrightarrow>
   distinct (map request_id tasks) \<Longrightarrow> engine_ok c v n gpu cpu (fold add_request tasks s)"
proof (induction tasks arbitrary: s)
  case (Cons q tasks)
  have "engine_ok c v n gpu cpu (add_request q s)"
    using Cons.prems(1,2) by (auto simp: fresh_def intro: engine_ok_add)
  moreover have "\<forall>q' \<in> set tasks. fresh q' \<and> requests (add_request q s) (request_id q') = None"
  proof
    fix q' assume q': "q' \<in> set tasks"
    then have "request_id q' \<noteq> request_id q" using Cons.prems(3) by (metis distinct.simps(2) image_eqI list.set_map list.simps(9))
    then show "fresh q' \<and> requests (add_request q s) (request_id q') = None"
      using Cons.prems(2) q' by (simp add: add_request_def)
  qed
  ultimately show ?case using Cons.IH Cons.prems(3) by simp
qed simp

lemma set_rm_fields [simp]:
  "en_rm (set_rm s e) = s" "en_wq (set_rm s e) = en_wq e" "en_sched (set_rm s e) = en_sched e"
  by (simp_all add: set_rm_def)

lemma engine_ok_prefix: "engine_ok c v n gpu cpu s \<Longrightarrow> \<not> enable_prefix_cache s"
  using v1_reachable_ok [of c v n gpu cpu s] by (simp add: engine_ok_def refs_ok_def)

lemma engine_inv_fetch:
  assumes "engine_inv c v n gpu cpu sent got e" "fetches_unused ec e"
  shows "engine_inv c v n gpu cpu sent got (snd (fetch_request ec e))"
proof -
  let ?s = "en_rm e"
  have ok: "engine_ok c v n gpu cpu ?s" "tq.delivered sent got (en_wq e)" "all_fresh (en_sched e)"
    using assms by (simp_all add: engine_inv_def)
  have f: "check_and_free_block_tables ?s = (Inr (), ?s)"
    using engine_ok_prefix [OF ok(1)] by (simp add: check_and_free_block_tables_def)
  obtain x sc where g: "get_requests (available_block_num ?s) (int (block_size (cfg ?s))) (enc_dec_block_num (config ?s))
      (max_model_len ec) (min (int (available_batch ?s)) (max_prefill_batch ec)) (en_sched e) = (x, sc)" by fastforce
  note fr = hold_get [OF ok(3) g]
  show ?thesis
  proof (cases x)
    case (Inl y)
    then show ?thesis using ok fr by (simp add: fetch_request_def Let_def f g engine_inv_def)
  next
    case (Inr tasks)
    have "distinct (map request_id tasks) \<and> (\<forall>q \<in> set tasks. requests ?s (request_id q) = None)"
      using assms(2) Inr by (simp add: fetches_unused_def Let_def g list_all_iff)
    then have "engine_ok c v n gpu cpu (fold add_request tasks ?s)" using engine_ok_adds [OF ok(1)] fr Inr by blast
    then show ?thesis using Inr ok fr by (simp add: fetch_request_def Let_def f g engine_inv_def)
  qed
qed

lemma engine_ok_bsz: "engine_ok c v n gpu cpu s \<Longrightarrow> engine_ok c v n gpu cpu (snd (get_real_bsz s))"
  by (rule engine_ok_kept) (auto simp: engine_ok_def get_real_bsz_def Let_def idents_def intro: v1_bsz [unfolded get_real_bsz_def Let_def, simplified])

lemma engine_inv_plan:
  assumes "engine_inv c v n gpu cpu sent got e" "schedule_step H IB now e = Some (batch, e')"
  shows "engine_inv c v n gpu cpu (case batch of None \<Rightarrow> sent | Some b \<Rightarrow> sent @ [b]) got e'"
proof (cases "num_tasks (en_wq e) > 0")
  case True
  then show ?thesis using assms by (auto simp: schedule_step_def)
next
  case False
  have ok: "engine_ok c v n gpu cpu (en_rm e)" "tq.delivered sent got (en_wq e)" "all_fresh (en_sched e)"
    using assms(1) by (simp_all add: engine_inv_def)
  obtain x s1 where sch: "schedule H IB now (en_rm e) = (x, s1)" by fastforce
  have s1: "engine_ok c v n gpu cpu s1" using engine_ok_schedule [OF ok(1), of H IB now] sch by simp
  show ?thesis
  proof (cases x)
    case (Inl y)
    then show ?thesis using assms(2) False sch s1 ok by (auto simp: schedule_step_def engine_inv_def split: if_splits)
  next
    case (Inr tasks)
    show ?thesis
    proof (cases "tasks = []")
      case True
      then show ?thesis using assms(2) False sch s1 ok Inr by (auto simp: schedule_step_def engine_inv_def)
    next
      case ne: False
      obtain k s2 where b: "get_real_bsz s1 = (k, s2)" by fastforce
      obtain q where q: "put_tasks (tasks, k) (en_wq e) = Some q" "batch = Some (tasks, k)" "e' = (set_rm s2 e)\<lparr>en_wq := q\<rparr>"
        using assms(2) False sch Inr ne b by (auto simp: schedule_step_def split: option.splits)
      have "tq.delivered (sent @ [(tasks, k)]) got q"
        by (rule tq.delivered_put [OF ok(2)]) (simp add: tasks_put_def q(1))
      then show ?thesis using engine_ok_bsz [OF s1] b ok(3) by (simp add: engine_inv_def q(2,3))
    qed
  qed
qed

lemma engine_inv_output:
  assumes "engine_inv c v n gpu cpu sent got e"
  shows "engine_inv c v n gpu cpu sent got (output_step ec raw preempted e)"
  using assms tp_ok_batch [of c v n gpu cpu "en_tp e" "eng_tp_config ec" raw preempted]
  by (auto simp: engine_inv_def output_step_def hold_put_results split: prod.split sum.split)

lemma engine_run_inv:
  "engine_run c v n gpu cpu ec sent got e \<Longrightarrow> engine_inv c v n gpu cpu sent got e"
proof (induction rule: engine_run.induct)
  case (e_init workers cap life ch p l th)
  then show ?case by (rule engine_inv_init)
next
  case (e_put sent got e rs now)
  then show ?case using hold_put [of fresh "en_sched e" rs now] by (simp add: engine_inv_def)
next
  case (e_collect sent got e)
  then show ?case using hold_collect [of fresh "en_sched e"] by (simp add: engine_inv_def)
next
  case (e_fetch sent got e signal)
  show ?case by (rule engine_inv_fetch [OF e_fetch.IH e_fetch.hyps(3)])
next
  case (e_plan sent got e H IB now batch e')
  show ?case by (rule engine_inv_plan [OF e_plan.IH e_plan.hyps(2)])
next
  case (e_work sent got e w b don q)
  then have "tasks_recv (en_wq e) w b q" by (auto simp: tasks_recv_def)
  moreover have "tq.delivered sent got (en_wq e)" using e_work.IH by (simp add: engine_inv_def)
  ultimately have "tq.delivered sent (got(w := got w @ [b])) q" by (intro tq.delivered_recv)
  moreover have "en_wq (e\<lparr>en_wq := q\<rparr>) = q" by simp
  ultimately have "tq.delivered sent (got(w := got w @ [b])) (en_wq (e\<lparr>en_wq := q\<rparr>))" by (simp only:)
  moreover have "engine_ok c v n gpu cpu (en_rm (e\<lparr>en_wq := q\<rparr>)) \<and> all_fresh (en_sched (e\<lparr>en_wq := q\<rparr>))"
    using e_work.IH by (simp add: engine_inv_def)
  ultimately show ?case unfolding engine_inv_def by blast
next
  case (e_output sent got e raw preempted)
  show ?case by (rule engine_inv_output [OF e_output.IH])
qed

text \<open>C5: in the engine with the second scheduler, without prefix caching, whatever the front end, the planning thread,
  the workers and the token processor do and in whatever order, every cache block is free or in the table of exactly
  one running request. Requests come in waiting, without blocks, not as a prefill for another instance, and under
  ids that the manager does not hold any more.\<close>

theorem engine_keeps_blocks:
  assumes "engine_run c v n gpu cpu ec sent got e"
  shows "mset (gpu_free_block_list (cache_manager (en_rm e))) + running_blocks (en_rm e) = mset (map int [0..<gpu])"
proof -
  have "v1_reachable c v n gpu cpu (en_rm e)" using engine_run_inv [OF assms] by (simp add: engine_inv_def engine_ok_def)
  then show ?thesis using v1_reachable_ok tidy_blocks [OF v1_reachable_tidy] by (simp add: account1_def)
qed

text \<open>C9: in the engine with the second scheduler and without prefix caching, when requests come in waiting, without blocks, not
  as a prefill for another instance and under ids the manager does not hold any more, and workers read when their
  read flag is clear, the planning thread never waits in \<open>put_tasks\<close> and planning always returns: once the workers have
  taken the last batch, a pass of its loop ends, and every worker has got the batches planned so far in their order.\<close>

theorem planning_never_blocks:
  assumes "engine_run c v n gpu cpu ec sent got e" "num_tasks (en_wq e) = 0"
  shows "schedule_step H IB now e \<noteq> None \<and> (\<forall>w < num_client (en_wq e). got w = sent)"
proof
  have d: "tq.delivered sent got (en_wq e)" using engine_run_inv [OF assms(1)] by (simp add: engine_inv_def)
  have wf: "tasks_wf (en_wq e)" using d unfolding tq.delivered_def by blast
  have e: "wq_tasks (en_wq e) = []" using assms(2) by (simp add: num_tasks_def)
  have r: "readers_of (client_read_flag (en_wq e)) = {..<num_client (en_wq e)}"
    using wf e by (auto simp: tasks_wf_def split: if_splits)
  have p: "\<exists>q. put_tasks batch (en_wq e) = Some q" for batch
    using flags_full(1) [of "num_client (en_wq e)" "client_read_flag (en_wq e)"] wf r
    by (simp add: put_tasks_def tasks_wf_def)
  have "tidy (en_rm e)"
    using engine_run_inv [OF assms(1)] v1_reachable_tidy by (auto simp: engine_inv_def engine_ok_def)
  then have returns: "fst (schedule H IB now (en_rm e)) \<noteq> Inl NoReturn"
    using keeps_schedule [of "en_rm e" H IB now] by (simp add: keeps_def)
  show "schedule_step H IB now e \<noteq> None"
  proof (cases "schedule H IB now (en_rm e)")
    case (Pair x s1)
    show ?thesis
    proof (cases x)
      case (Inl y)
      then show ?thesis using assms(2) returns Pair by (simp add: schedule_step_def)
    next
      case (Inr tasks)
      obtain k s2 where b: "get_real_bsz s1 = (k, s2)" by fastforce
      obtain q where "put_tasks (tasks, k) (en_wq e) = Some q" using p by blast
      then show ?thesis using assms(2) Pair Inr b by (simp add: schedule_step_def)
    qed
  qed
  show "\<forall>w < num_client (en_wq e). got w = sent"
    using tq.deliveredD(2) [OF d] e by fastforce
qed

text \<open>One request through the engine of one worker: put, fetched, planned, and taken by the worker.\<close>

abbreviation (input) ec1 :: engine_config where
  "ec1 \<equiv> \<lparr>max_prefill_batch = 1, max_model_len = 100, eng_tp_config = no_spec\<rparr>"

abbreviation (input) engine1 :: engine where
  "engine1 \<equiv> init_engine (init_local 4 10 False 1 1 100) (init_rm1 cfg2 v1cfg2 1 False (init_pcm 5 0 False)) 1"

abbreviation (input) put1 :: engine where
  "put1 \<equiv> engine1\<lparr>en_sched := snd (put_requests 0 [req4 ''a''] (en_sched engine1))\<rparr>"

abbreviation (input) fetched1 :: engine where
  "fetched1 \<equiv> snd (fetch_request ec1 put1)"

lemma fetched1_run: "engine_run cfg2 v1cfg2 1 5 0 ec1 [] (\<lambda>_. []) fetched1"
proof -
  have "engine_run cfg2 v1cfg2 1 5 0 ec1 [] (\<lambda>_. []) engine1" by (rule e_init) simp
  then have p: "engine_run cfg2 v1cfg2 1 5 0 ec1 [] (\<lambda>_. []) put1"
    by (rule e_put) (simp add: fresh_def is_prefill_role_def new_Request_def)
  have "may_fetch 0 put1" by (simp add: may_fetch_def init_engine_def init_token_processor_def init_rm1_def rm.defs)
  with p show ?thesis
  proof (rule e_fetch)
    show "fetches_unused ec1 put1" by code_simp
  qed
qed

theorem engine_keeps_blocks_witness:
  "mset (gpu_free_block_list (cache_manager (en_rm fetched1))) + running_blocks (en_rm fetched1) = {#0, 1, 2, 3, 4#} \<and>
   waiting (en_rm fetched1) = [0]"
proof -
  have "waiting (en_rm fetched1) = [0]" by code_simp
  then show ?thesis using engine_keeps_blocks [OF fetched1_run] by (simp add: upt_rec)
qed

theorem planning_never_blocks_witness:
  "\<exists>b e'. schedule_step sum_list no_images 0 fetched1 = Some (b, e')"
proof -
  have n: "num_tasks (en_wq fetched1) = 0" by code_simp
  from planning_never_blocks [OF fetched1_run n] show ?thesis by auto
qed

end
