(* ===== verification/ChunkPlan.thy ===== *)
theory ChunkPlan
  imports PySeq
begin

text \<open>
  How the engine cuts the prompts of a batch into chunks (\<open>engine/common_engine.py\<close>, \<open>update_requests_chunk_size\<close>).
  Round after round every unfinished prompt gets a chunk, at most its share of the token budget; what a
  round leaves goes to the shortest prompts. The loops need not end: \<open>None\<close> stands for a call that
  does not return. The block size is positive.
\<close>

subsection \<open>The plan\<close>

record chunk_plan =
  current_request_size :: "int list"
  requests_chunk :: "int list list"
  remain_batched_tokens :: int
  chunk_request_num :: int

text \<open>\<open>partial_chunked_tokens\<close>: the share of one of \<open>k\<close> prompts, a multiple of the block size.\<close>

definition chunk_share :: "int \<Rightarrow> int \<Rightarrow> nat \<Rightarrow> int" where
  "chunk_share bs max_tokens k = max_tokens div int k div bs * bs"

definition partial_chunked_tokens :: "int \<Rightarrow> int \<Rightarrow> nat \<Rightarrow> int list" where
  "partial_chunked_tokens bs max_tokens max_partial = 0 # map (chunk_share bs max_tokens) [1..<Suc max_partial]"

definition update_tokens :: "nat \<Rightarrow> int \<Rightarrow> bool \<Rightarrow> chunk_plan \<Rightarrow> (chunk_plan, unit) outcome" where
  "update_tokens idx chunk_size update_chunk p =
     (let row = requests_chunk p ! idx in
      if update_chunk \<and> row = [] then (Inl IndexError, p)
      else
        let row1 = (if update_chunk then butlast row @ [last row + chunk_size] else row @ [chunk_size]);
            left = current_request_size p ! idx - chunk_size
        in (Inr (), p\<lparr>requests_chunk := (requests_chunk p)[idx := row1],
                      remain_batched_tokens := remain_batched_tokens p - chunk_size,
                      current_request_size := (current_request_size p)[idx := left],
                      chunk_request_num := (if left \<le> 0 then chunk_request_num p - 1 else chunk_request_num p)\<rparr>))"

fun first_pass :: "int list \<Rightarrow> nat list \<Rightarrow> chunk_plan \<Rightarrow> (chunk_plan, unit) outcome" where
  "first_pass shares [] p = (Inr (), p)"
| "first_pass shares (idx # idxs) p =
     (if current_request_size p ! idx \<le> 0 then first_pass shares idxs p
      else
        (case py_nth shares (chunk_request_num p) of Inl e \<Rightarrow> (Inl e, p)
         | Inr share \<Rightarrow>
             andthen (update_tokens idx (min (current_request_size p ! idx) share) False p)
               (\<lambda>_ p1. first_pass shares idxs p1)))"

definition py_index :: "'a \<Rightarrow> 'a list \<Rightarrow> nat" where
  "py_index x xs = length (takeWhile (\<lambda>y. y \<noteq> x) xs)"

definition unfinished :: "chunk_plan \<Rightarrow> int list" where
  "unfinished p = filter (\<lambda>n. n > 0) (current_request_size p)"

text \<open>One round of the inner loop, when a prompt is unfinished: more tokens for the shortest one.\<close>

definition shortest :: "chunk_plan \<Rightarrow> nat" where
  "shortest p = py_index (Min (set (unfinished p))) (current_request_size p)"

definition extend_shortest :: "int list \<Rightarrow> int \<Rightarrow> chunk_plan \<Rightarrow> (chunk_plan, unit) outcome" where
  "extend_shortest shares bs p =
     (case py_nth shares (chunk_request_num p) of Inl e \<Rightarrow> (Inl e, p)
      | Inr share \<Rightarrow>
          update_tokens (shortest p)
            (min (min (current_request_size p ! shortest p) share) (remain_batched_tokens p div bs * bs)) True p)"

partial_function (option) second_pass ::
  "int list \<Rightarrow> int \<Rightarrow> chunk_plan \<Rightarrow> (chunk_plan, unit) outcome option" where
  "second_pass shares bs p =
     (if remain_batched_tokens p \<ge> bs \<and> unfinished p \<noteq> [] then
        (case extend_shortest shares bs p of
           (Inl e, p1) \<Rightarrow> Some (Inl e, p1)
         | (Inr _, p1) \<Rightarrow> second_pass shares bs p1)
      else Some (Inr (), p))"

partial_function (option) plan_rounds ::
  "int list \<Rightarrow> int \<Rightarrow> int \<Rightarrow> chunk_plan \<Rightarrow> (chunk_plan, unit) outcome option" where
  "plan_rounds shares bs max_tokens p =
     (if chunk_request_num p \<ge> 1 then
        (case first_pass shares [0..<length (current_request_size p)] (p\<lparr>remain_batched_tokens := max_tokens\<rparr>) of
           (Inl e, p1) \<Rightarrow> Some (Inl e, p1)
         | (Inr _, p1) \<Rightarrow>
             Option.bind (second_pass shares bs p1)
               (\<lambda>(r, p2). case r of Inl e \<Rightarrow> Some (Inl e, p2) | Inr _ \<Rightarrow> plan_rounds shares bs max_tokens p2))
      else Some (Inr (), p))"

declare second_pass.simps [code] plan_rounds.simps [code]

definition start_plan :: "int list \<Rightarrow> chunk_plan" where
  "start_plan lens =
     \<lparr>current_request_size = lens, requests_chunk = map (\<lambda>_. []) lens, remain_batched_tokens = 0,
      chunk_request_num = int (length lens)\<rparr>"

text \<open>
  The chunks that become \<open>prefill_chunk_info\<close> of the requests whose prompts have lengths \<open>lens\<close>; \<open>None\<close> inside
  the result when nothing is written.
\<close>

definition update_requests_chunk_size ::
  "bool \<Rightarrow> int \<Rightarrow> int \<Rightarrow> nat \<Rightarrow> int list \<Rightarrow> int list list option res option" where
  "update_requests_chunk_size enable_chunked_prefill bs max_tokens max_partial lens =
     (if \<not> enable_chunked_prefill \<or> lens = [] then Some (Inr None)
      else map_option (\<lambda>(r, p). case r of Inl e \<Rightarrow> Inl e | Inr _ \<Rightarrow> Inr (Some (requests_chunk p)))
             (plan_rounds (partial_chunked_tokens bs max_tokens max_partial) bs max_tokens (start_plan lens)))"

end
