(* ===== verification/ChunkPlanProps.thy ===== *)
theory ChunkPlanProps
  imports ChunkPlan
begin

text \<open>
  The chunks of a batch: when every prompt gets a share of at least one block, planning returns and cuts each
  prompt into blocks; otherwise it does not return.
\<close>

subsection \<open>One prompt\<close>

definition row_ok :: "int \<Rightarrow> int \<Rightarrow> int list \<Rightarrow> int \<Rightarrow> bool" where
  "row_ok bs len row left =
     (sum_list row + left = len \<and> 0 \<le> left \<and> (\<forall>c \<in> set row. 0 < c) \<and>
      (\<forall>c \<in> set (if left > 0 then row else butlast row). bs dvd c))"

lemma row_append:
  "row_ok bs len row left \<Longrightarrow> 0 < c \<Longrightarrow> c \<le> left \<Longrightarrow> c = left \<or> bs dvd c \<Longrightarrow> row_ok bs len (row @ [c]) (left - c)"
  by (auto simp: row_ok_def)

lemma row_extend:
  assumes "row_ok bs len row left" "row \<noteq> []" "0 < c" "c \<le> left" "c = left \<or> bs dvd c"
  shows "row_ok bs len (butlast row @ [last row + c]) (left - c)"
proof -
  obtain r x where row: "row = r @ [x]" using assms(2) by (metis rev_exhaust)
  show ?thesis using assms unfolding row by (auto simp: row_ok_def)
qed

subsection \<open>The whole plan\<close>

definition plan_ok :: "int \<Rightarrow> int list \<Rightarrow> chunk_plan \<Rightarrow> bool" where
  "plan_ok bs lens p =
     (length (current_request_size p) = length lens \<and> length (requests_chunk p) = length lens \<and>
      chunk_request_num p = int (length (unfinished p)) \<and>
      (\<forall>i < length lens. row_ok bs (lens ! i) (requests_chunk p ! i) (current_request_size p ! i)))"

lemma unfinished_update:
  fixes xs :: "int list"
  assumes "i < length xs" "0 < xs ! i"
  shows "length (filter (\<lambda>n. 0 < n) (xs[i := y])) + (if y \<le> 0 then 1 else 0) = length (filter (\<lambda>n. 0 < n) xs)"
  using assms by (induction xs arbitrary: i) (auto split: nat.split simp: less_Suc_eq_0_disj nth_Cons')

lemma sum_update: "i < length xs \<Longrightarrow> sum_list (xs[i := xs ! i - c]) = sum_list xs - (c :: int)"
  by (induction xs arbitrary: i) (auto split: nat.split simp: less_Suc_eq_0_disj nth_Cons')

lemma takeWhile_neq: "x \<in> set xs \<Longrightarrow> length (takeWhile (\<lambda>y. y \<noteq> x) xs) < length xs"
  by (induction xs) auto

text \<open>A part of what is left of an unfinished prompt becomes a chunk or extends the last one.\<close>

definition chunk_fits :: "int \<Rightarrow> nat \<Rightarrow> int \<Rightarrow> bool \<Rightarrow> chunk_plan \<Rightarrow> bool" where
  "chunk_fits bs i c upd p =
     (i < length (current_request_size p) \<and> 0 < c \<and> c \<le> current_request_size p ! i \<and>
      (c = current_request_size p ! i \<or> bs dvd c) \<and> (upd \<longrightarrow> requests_chunk p ! i \<noteq> []))"

lemma update_tokens_ok:
  assumes "plan_ok bs lens p" "chunk_fits bs i c upd p"
  obtains p' where "update_tokens i c upd p = (Inr (), p')" "plan_ok bs lens p'"
    "sum_list (current_request_size p') = sum_list (current_request_size p) - c"
    "requests_chunk p' ! i \<noteq> []" "\<forall>j. j \<noteq> i \<longrightarrow> requests_chunk p' ! j = requests_chunk p ! j"
    "\<forall>j < length lens. current_request_size p' ! j \<le> current_request_size p ! j"
proof -
  let ?row = "requests_chunk p ! i" and ?left = "current_request_size p ! i - c"
  let ?row1 = "if upd then butlast ?row @ [last ?row + c] else ?row @ [c]"
  have i: "i < length lens" "i < length (current_request_size p)" "i < length (requests_chunk p)" "0 < current_request_size p ! i"
    using assms by (auto simp: plan_ok_def chunk_fits_def)
  have "row_ok bs (lens ! i) ?row (current_request_size p ! i)" using assms(1) i(1) by (simp add: plan_ok_def)
  then have row: "row_ok bs (lens ! i) ?row1 ?left"
    using assms(2) row_append row_extend by (auto simp: chunk_fits_def)
  define p' where "p' = p\<lparr>requests_chunk := (requests_chunk p)[i := ?row1],
    remain_batched_tokens := remain_batched_tokens p - c,
    current_request_size := (current_request_size p)[i := ?left],
    chunk_request_num := (if ?left \<le> 0 then chunk_request_num p - 1 else chunk_request_num p)\<rparr>"
  have "update_tokens i c upd p = (Inr (), p')"
    using assms(2) by (simp add: update_tokens_def Let_def chunk_fits_def p'_def)
  moreover have "plan_ok bs lens p'"
  proof -
    have "row_ok bs (lens ! j) ((requests_chunk p)[i := ?row1] ! j) ((current_request_size p)[i := ?left] ! j)"
      if "j < length lens" for j
      using that row assms(1) i by (cases "j = i") (simp_all add: plan_ok_def)
    then show ?thesis
      using assms(1) unfinished_update [OF i(2,4), of ?left] by (auto simp: plan_ok_def p'_def unfinished_def split: if_splits)
  qed
  moreover have "sum_list (current_request_size p') = sum_list (current_request_size p) - c"
    using i(2) by (simp add: p'_def sum_update)
  moreover have "requests_chunk p' ! i \<noteq> []" using i(3) by (simp add: p'_def)
  moreover have "\<forall>j. j \<noteq> i \<longrightarrow> requests_chunk p' ! j = requests_chunk p ! j" by (simp add: p'_def)
  moreover have "\<forall>j < length lens. current_request_size p' ! j \<le> current_request_size p ! j"
    using assms(2) i(2) by (auto simp: p'_def nth_list_update chunk_fits_def)
  ultimately show thesis by (rule that)
qed

subsection \<open>The shares\<close>

lemma partial_nth:
  assumes "1 \<le> k" "k \<le> max_partial"
  shows "py_nth (partial_chunked_tokens bs max_tokens max_partial) (int k) = Inr (chunk_share bs max_tokens k)"
  using assms by (simp add: py_nth_def partial_chunked_tokens_def nth_Cons' del: upt_Suc)

lemma share_positive:
  assumes "0 < bs" "1 \<le> k" "bs * int n \<le> max_tokens" "k \<le> n"
  shows "0 < chunk_share bs max_tokens k" "bs dvd chunk_share bs max_tokens k"
proof -
  have "bs * int k \<le> bs * int n" using assms(1,4) by simp
  then have "bs * int k div int k \<le> max_tokens div int k" using assms(2,3) by (intro zdiv_mono1) linarith+
  then have "bs \<le> max_tokens div int k" using assms(2) by simp
  then have "1 \<le> max_tokens div int k div bs" using assms(1) zdiv_mono1 [of bs "max_tokens div int k" bs] by simp
  then show "0 < chunk_share bs max_tokens k" using assms(1) by (simp add: chunk_share_def)
  show "bs dvd chunk_share bs max_tokens k" by (simp add: chunk_share_def)
qed

lemma share_zero:
  assumes "0 \<le> max_tokens" "max_tokens < bs * int n" "1 \<le> n"
  shows "chunk_share bs max_tokens n = 0"
proof -
  have "max_tokens div int n < bs"
  proof (rule ccontr)
    assume "\<not> ?thesis"
    then have "bs * int n \<le> max_tokens div int n * int n" by (simp add: mult_right_mono)
    also have "\<dots> \<le> max_tokens" using assms(3) by (simp add: minus_mod_eq_div_mult [symmetric])
    finally show False using assms(2) by simp
  qed
  moreover have "0 \<le> max_tokens div int n" using assms(1) by (simp add: div_int_pos_iff)
  ultimately show ?thesis by (simp add: chunk_share_def div_pos_pos_trivial)
qed


subsection \<open>Planning returns\<close>

lemma unfinished_count: "plan_ok bs lens p \<Longrightarrow> length (unfinished p) \<le> length lens"
  unfolding plan_ok_def unfinished_def by (metis length_filter_le)

text \<open>The share at hand while a prompt is unfinished.\<close>

lemma share_at_hand:
  assumes "plan_ok bs lens p" "unfinished p \<noteq> []" "0 < bs" "bs * int (length lens) \<le> max_tokens" "length lens \<le> max_partial"
  obtains share where "py_nth (partial_chunked_tokens bs max_tokens max_partial) (chunk_request_num p) = Inr share"
    "0 < share" "bs dvd share"
proof -
  let ?k = "length (unfinished p)"
  have k: "1 \<le> ?k" "?k \<le> length lens" using assms(1,2) unfinished_count by (auto simp: Suc_le_eq)
  have "chunk_request_num p = int ?k" using assms(1) by (simp add: plan_ok_def)
  then show thesis
    using that partial_nth [of ?k max_partial bs max_tokens] share_positive [OF assms(3) k(1) assms(4) k(2)] k(2) assms(5) k(1)
    by simp
qed

lemma unfinished_mem: "i < length (current_request_size p) \<Longrightarrow> 0 < current_request_size p ! i \<Longrightarrow> unfinished p \<noteq> []"
  unfolding unfinished_def filter_empty_conv by (meson nth_mem)

lemma sizes_nonneg: "plan_ok bs lens p \<Longrightarrow> 0 \<le> sum_list (current_request_size p)"
  by (intro sum_list_nonneg) (auto simp: plan_ok_def row_ok_def in_set_conv_nth)

lemma first_pass_ok:
  assumes "plan_ok bs lens p" "0 < bs" "bs * int (length lens) \<le> max_tokens" "length lens \<le> max_partial"
    "\<forall>i \<in> set idxs. i < length lens"
  shows "\<exists>p'. first_pass (partial_chunked_tokens bs max_tokens max_partial) idxs p = (Inr (), p') \<and> plan_ok bs lens p' \<and>
    sum_list (current_request_size p') \<le> sum_list (current_request_size p) \<and>
    (\<forall>j < length lens. current_request_size p' ! j \<le> current_request_size p ! j) \<and>
    (\<forall>j. requests_chunk p ! j \<noteq> [] \<longrightarrow> requests_chunk p' ! j \<noteq> []) \<and>
    (\<forall>j \<in> set idxs. 0 < current_request_size p ! j \<longrightarrow> requests_chunk p' ! j \<noteq> []) \<and>
    ((\<exists>j \<in> set idxs. 0 < current_request_size p ! j) \<longrightarrow>
       sum_list (current_request_size p') < sum_list (current_request_size p))"
  using assms(1,5)
proof (induction idxs arbitrary: p)
  case Nil
  then show ?case by simp
next
  case (Cons i idxs)
  let ?shares = "partial_chunked_tokens bs max_tokens max_partial"
  have i: "i < length (current_request_size p)" using Cons.prems by (auto simp: plan_ok_def)
  show ?case
  proof (cases "current_request_size p ! i \<le> 0")
    case True
    then show ?thesis using Cons.IH [OF Cons.prems(1)] Cons.prems(2) by auto
  next
    case False
    obtain share where sh: "py_nth ?shares (chunk_request_num p) = Inr share" "0 < share" "bs dvd share"
      using share_at_hand [OF Cons.prems(1) unfinished_mem [OF i] assms(2-4)] False by auto
    let ?c = "min (current_request_size p ! i) share"
    have "chunk_fits bs i ?c False p" using False sh(2,3) i by (auto simp: chunk_fits_def min_def)
    from update_tokens_ok [OF Cons.prems(1) this] obtain p1 where
      u: "update_tokens i ?c False p = (Inr (), p1)" "plan_ok bs lens p1"
        "sum_list (current_request_size p1) = sum_list (current_request_size p) - ?c"
        "requests_chunk p1 ! i \<noteq> []" "\<forall>j. j \<noteq> i \<longrightarrow> requests_chunk p1 ! j = requests_chunk p ! j"
        "\<forall>j < length lens. current_request_size p1 ! j \<le> current_request_size p ! j" by metis
    have c: "0 < ?c" using False sh(2) by simp
    obtain p' where r: "first_pass ?shares idxs p1 = (Inr (), p')" "plan_ok bs lens p'"
        "sum_list (current_request_size p') \<le> sum_list (current_request_size p1)"
        "\<forall>j < length lens. current_request_size p' ! j \<le> current_request_size p1 ! j"
        "\<forall>j. requests_chunk p1 ! j \<noteq> [] \<longrightarrow> requests_chunk p' ! j \<noteq> []"
        "\<forall>j \<in> set idxs. 0 < current_request_size p1 ! j \<longrightarrow> requests_chunk p' ! j \<noteq> []"
      using Cons.IH [OF u(2)] Cons.prems(2) by auto
    have keep: "requests_chunk p' ! j \<noteq> []" if "requests_chunk p ! j \<noteq> []" for j
      using that u(4,5) r(5) by metis
    have got: "requests_chunk p' ! j \<noteq> []" if "j \<in> set (i # idxs)" "0 < current_request_size p ! j" for j
    proof (cases "j = i")
      case True
      then show ?thesis using u(4) r(5) by blast
    next
      case j: False
      have jl: "j < length lens" using that(1) Cons.prems(2) by auto
      have "current_request_size p1 ! j = current_request_size p ! j"
        using u(1) j by (auto simp: update_tokens_def Let_def)
      then show ?thesis using r(6) that j by auto
    qed
    show ?thesis
      using False sh(1) u(1,3,6) r keep got c by (intro exI [of _ p']) (auto intro: order_trans)
  qed
qed

lemma shortest_unfinished:
  assumes "unfinished p \<noteq> []"
  shows "shortest p < length (current_request_size p)" "0 < current_request_size p ! shortest p"
proof -
  let ?m = "Min (set (unfinished p))" and ?P = "\<lambda>y. y \<noteq> Min (set (unfinished p))"
  have "?m \<in> set (unfinished p)" using assms by (intro Min_in) auto
  then have m: "?m \<in> set (current_request_size p)" "0 < ?m" by (auto simp: unfinished_def)
  have "length (takeWhile ?P (current_request_size p)) < length (current_request_size p)"
    using m(1) by (rule takeWhile_neq)
  then show l: "shortest p < length (current_request_size p)" by (simp add: shortest_def py_index_def)
  have "current_request_size p ! shortest p = ?m"
    using nth_length_takeWhile [of ?P "current_request_size p"] l by (auto simp: shortest_def py_index_def)
  then show "0 < current_request_size p ! shortest p" using m(2) by simp
qed

lemma extend_shortest_ok:
  assumes "plan_ok bs lens p" "0 < bs" "bs * int (length lens) \<le> max_tokens" "length lens \<le> max_partial"
    "\<forall>j < length lens. 0 < current_request_size p ! j \<longrightarrow> requests_chunk p ! j \<noteq> []"
    "bs \<le> remain_batched_tokens p" "unfinished p \<noteq> []"
  shows "\<exists>p'. extend_shortest (partial_chunked_tokens bs max_tokens max_partial) bs p = (Inr (), p') \<and> plan_ok bs lens p' \<and>
    sum_list (current_request_size p') < sum_list (current_request_size p) \<and>
    (\<forall>j < length lens. 0 < current_request_size p' ! j \<longrightarrow> requests_chunk p' ! j \<noteq> [])"
proof -
  let ?i = "shortest p"
  note i = shortest_unfinished [OF assms(7)]
  obtain share where sh: "py_nth (partial_chunked_tokens bs max_tokens max_partial) (chunk_request_num p) = Inr share"
    "0 < share" "bs dvd share" using share_at_hand [OF assms(1,7,2-4)] .
  let ?a = "remain_batched_tokens p div bs * bs"
  let ?c = "min (min (current_request_size p ! ?i) share) ?a"
  have "1 \<le> remain_batched_tokens p div bs" using assms(2,6) zdiv_mono1 [of bs "remain_batched_tokens p" bs] by simp
  then have a: "0 < ?a" using assms(2) by simp
  have il: "?i < length lens" using i(1) assms(1) by (simp add: plan_ok_def)
  have c: "0 < ?c" using i(2) sh(2) a by simp
  have "chunk_fits bs ?i ?c True p"
    using i il c sh(3) assms(5) by (auto simp: chunk_fits_def min_def)
  from update_tokens_ok [OF assms(1) this] obtain p1 where
    u: "update_tokens ?i ?c True p = (Inr (), p1)" "plan_ok bs lens p1"
      "sum_list (current_request_size p1) = sum_list (current_request_size p) - ?c"
      "requests_chunk p1 ! ?i \<noteq> []" "\<forall>j. j \<noteq> ?i \<longrightarrow> requests_chunk p1 ! j = requests_chunk p ! j"
      "\<forall>j < length lens. current_request_size p1 ! j \<le> current_request_size p ! j" by metis
  have "requests_chunk p1 ! j \<noteq> []" if "j < length lens" "0 < current_request_size p1 ! j" for j
    using that u(4-6) assms(5) by (cases "j = ?i") (auto intro: less_le_trans)
  then show ?thesis using sh(1) u(1-3) c by (simp add: extend_shortest_def)
qed

lemma second_pass_ok:
  assumes "plan_ok bs lens p" "0 < bs" "bs * int (length lens) \<le> max_tokens" "length lens \<le> max_partial"
    "\<forall>j < length lens. 0 < current_request_size p ! j \<longrightarrow> requests_chunk p ! j \<noteq> []"
  shows "\<exists>p'. second_pass (partial_chunked_tokens bs max_tokens max_partial) bs p = Some (Inr (), p') \<and> plan_ok bs lens p' \<and>
    sum_list (current_request_size p') \<le> sum_list (current_request_size p)"
  using assms(1,5)
proof (induction "nat (sum_list (current_request_size p))" arbitrary: p rule: less_induct)
  case less
  show ?case
  proof (cases "bs \<le> remain_batched_tokens p \<and> unfinished p \<noteq> []")
    case False
    then show ?thesis using less.prems by (subst second_pass.simps) auto
  next
    case True
    from extend_shortest_ok [OF less.prems(1) assms(2-4) less.prems(2)] True obtain p1 where
      e: "extend_shortest (partial_chunked_tokens bs max_tokens max_partial) bs p = (Inr (), p1)" "plan_ok bs lens p1"
        "sum_list (current_request_size p1) < sum_list (current_request_size p)"
        "\<forall>j < length lens. 0 < current_request_size p1 ! j \<longrightarrow> requests_chunk p1 ! j \<noteq> []" by auto
    have "nat (sum_list (current_request_size p1)) < nat (sum_list (current_request_size p))"
      using e(3) sizes_nonneg [OF e(2)] by simp
    from less.hyps [OF this e(2,4)] show ?thesis
      using True e(1,3) by (subst second_pass.simps) (auto intro: order_trans [OF _ less_imp_le])
  qed
qed

lemma plan_rounds_ok:
  assumes "plan_ok bs lens p" "0 < bs" "bs * int (length lens) \<le> max_tokens" "length lens \<le> max_partial"
  shows "\<exists>p'. plan_rounds (partial_chunked_tokens bs max_tokens max_partial) bs max_tokens p = Some (Inr (), p') \<and>
    plan_ok bs lens p' \<and> unfinished p' = []"
  using assms(1)
proof (induction "nat (sum_list (current_request_size p))" arbitrary: p rule: less_induct)
  case less
  let ?shares = "partial_chunked_tokens bs max_tokens max_partial"
  show ?case
  proof (cases "unfinished p = []")
    case True
    then show ?thesis using less.prems by (subst plan_rounds.simps) (simp add: plan_ok_def)
  next
    case False
    let ?p0 = "p\<lparr>remain_batched_tokens := max_tokens\<rparr>" and ?idxs = "[0..<length (current_request_size p)]"
    have n: "chunk_request_num p \<ge> 1" using False less.prems by (auto simp: plan_ok_def Suc_le_eq)
    have len: "length (current_request_size p) = length lens" using less.prems by (simp add: plan_ok_def)
    have p0: "plan_ok bs lens ?p0" using less.prems by (simp add: plan_ok_def unfinished_def)
    obtain x where "x \<in> set (current_request_size p)" "0 < x"
      using False by (auto simp: unfinished_def filter_empty_conv)
    then have ex: "\<exists>j \<in> set ?idxs. 0 < current_request_size ?p0 ! j" by (auto simp: in_set_conv_nth)
    obtain p1 where f: "first_pass ?shares ?idxs ?p0 = (Inr (), p1)" "plan_ok bs lens p1"
        "\<forall>j < length lens. current_request_size p1 ! j \<le> current_request_size ?p0 ! j"
        "\<forall>j \<in> set ?idxs. 0 < current_request_size ?p0 ! j \<longrightarrow> requests_chunk p1 ! j \<noteq> []"
        "sum_list (current_request_size p1) < sum_list (current_request_size p)"
      using first_pass_ok [OF p0 assms(2-4), of ?idxs] ex len by auto
    have rows: "\<forall>j < length lens. 0 < current_request_size p1 ! j \<longrightarrow> requests_chunk p1 ! j \<noteq> []"
      using f(3,4) len by (auto intro: less_le_trans)
    obtain p2 where s: "second_pass ?shares bs p1 = Some (Inr (), p2)" "plan_ok bs lens p2"
        "sum_list (current_request_size p2) \<le> sum_list (current_request_size p1)"
      using second_pass_ok [OF f(2) assms(2-4) rows] by auto
    have "nat (sum_list (current_request_size p2)) < nat (sum_list (current_request_size p))"
      using f(5) s(3) sizes_nonneg [OF s(2)] by simp
    from less.hyps [OF this s(2)] show ?thesis
      using n f(1) s(1) by (subst plan_rounds.simps) simp
  qed
qed

lemma start_ok: "\<forall>l \<in> set lens. 0 < l \<Longrightarrow> plan_ok bs lens (start_plan lens)"
  by (auto simp: plan_ok_def start_plan_def unfinished_def row_ok_def less_imp_le)

text \<open>C25: with chunked prefill, when no more nonempty prompts come together than there are shares and a block of tokens is there for each,
  planning returns and cuts every prompt, without loss, into positive chunks of which all but the last are whole
  blocks.\<close>

theorem chunks_cut_prompts:
  assumes "0 < bs" "lens \<noteq> []" "\<forall>l \<in> set lens. 0 < l" "bs * int (length lens) \<le> max_tokens" "length lens \<le> max_partial"
  shows "\<exists>chunks. update_requests_chunk_size True bs max_tokens max_partial lens = Some (Inr (Some chunks)) \<and>
    length chunks = length lens \<and>
    (\<forall>i < length lens. sum_list (chunks ! i) = lens ! i \<and> (\<forall>c \<in> set (chunks ! i). 0 < c) \<and>
       (\<forall>c \<in> set (butlast (chunks ! i)). bs dvd c))"
proof -
  obtain p where p: "plan_rounds (partial_chunked_tokens bs max_tokens max_partial) bs max_tokens (start_plan lens) = Some (Inr (), p)"
      "plan_ok bs lens p" "unfinished p = []"
    using plan_rounds_ok [OF start_ok [OF assms(3)] assms(1,4,5)] by blast
  have "sum_list (requests_chunk p ! i) = lens ! i \<and> (\<forall>c \<in> set (requests_chunk p ! i). 0 < c) \<and>
      (\<forall>c \<in> set (butlast (requests_chunk p ! i)). bs dvd c)" if "i < length lens" for i
  proof -
    have r: "row_ok bs (lens ! i) (requests_chunk p ! i) (current_request_size p ! i)" "i < length (current_request_size p)"
      using p(2) that by (simp_all add: plan_ok_def)
    moreover have "\<not> 0 < current_request_size p ! i" using unfinished_mem [OF r(2)] p(3) by blast
    ultimately show ?thesis by (simp add: row_ok_def)
  qed
  then show ?thesis using p assms(2) by (simp add: update_requests_chunk_size_def plan_ok_def)
qed

theorem chunks_cut_prompts_witness:
  "\<exists>chunks. update_requests_chunk_size True 10 100 3 [35, 200, 7] = Some (Inr (Some chunks)) \<and> sum_list (chunks ! 1) = 200"
  using chunks_cut_prompts [of 10 "[35, 200, 7]" 100 3] by (auto simp: less_Suc_eq numeral_3_eq_3)

subsection \<open>Planning does not return\<close>

definition stuck :: "int list \<Rightarrow> chunk_plan \<Rightarrow> bool" where
  "stuck lens p = (current_request_size p = lens \<and> length (requests_chunk p) = length lens \<and>
     chunk_request_num p = int (length lens))"

lemma update_stuck:
  assumes "stuck lens p" "i < length lens" "0 < lens ! i" "upd \<longrightarrow> requests_chunk p ! i \<noteq> []"
  shows "\<exists>p'. update_tokens i 0 upd p = (Inr (), p') \<and> stuck lens p' \<and>
    remain_batched_tokens p' = remain_batched_tokens p \<and> requests_chunk p' ! i \<noteq> [] \<and>
    (\<forall>j. requests_chunk p ! j \<noteq> [] \<longrightarrow> requests_chunk p' ! j \<noteq> [])"
  using assms by (auto simp: stuck_def update_tokens_def Let_def nth_list_update)

lemma first_pass_stuck:
  assumes "stuck lens p" "py_nth shares (int (length lens)) = Inr 0" "\<forall>l \<in> set lens. 0 < l" "\<forall>i \<in> set idxs. i < length lens"
  shows "\<exists>p'. first_pass shares idxs p = (Inr (), p') \<and> stuck lens p' \<and>
    remain_batched_tokens p' = remain_batched_tokens p \<and> (\<forall>j \<in> set idxs. requests_chunk p' ! j \<noteq> []) \<and>
    (\<forall>j. requests_chunk p ! j \<noteq> [] \<longrightarrow> requests_chunk p' ! j \<noteq> [])"
  using assms(1,4)
proof (induction idxs arbitrary: p)
  case Nil
  then show ?case by simp
next
  case (Cons i idxs)
  have i: "i < length lens" "0 < lens ! i" using Cons.prems(2) assms(3) by auto
  obtain p1 where u: "update_tokens i 0 False p = (Inr (), p1)" "stuck lens p1"
      "remain_batched_tokens p1 = remain_batched_tokens p" "requests_chunk p1 ! i \<noteq> []"
      "\<forall>j. requests_chunk p ! j \<noteq> [] \<longrightarrow> requests_chunk p1 ! j \<noteq> []"
    using update_stuck [OF Cons.prems(1) i, of False] by auto
  obtain p' where r: "first_pass shares idxs p1 = (Inr (), p')" "stuck lens p'"
      "remain_batched_tokens p' = remain_batched_tokens p1" "\<forall>j \<in> set idxs. requests_chunk p' ! j \<noteq> []"
      "\<forall>j. requests_chunk p1 ! j \<noteq> [] \<longrightarrow> requests_chunk p' ! j \<noteq> []"
    using Cons.IH [OF u(2)] Cons.prems(2) by auto
  have "first_pass shares (i # idxs) p = first_pass shares idxs p1"
    using Cons.prems(1) i assms(2) u(1) by (simp add: stuck_def min_def)
  then show ?case using u r by auto
qed

lemma second_pass_stuck:
  assumes "second_pass shares bs p = Some y"
  shows "stuck lens p \<longrightarrow> py_nth shares (int (length lens)) = Inr 0 \<longrightarrow> (\<forall>l \<in> set lens. 0 < l) \<longrightarrow> lens \<noteq> [] \<longrightarrow> 0 < bs \<longrightarrow>
    (\<forall>j < length lens. requests_chunk p ! j \<noteq> []) \<longrightarrow> \<not> bs \<le> remain_batched_tokens p"
proof (rule second_pass.raw_induct [where P = "\<lambda>shares bs p y. stuck lens p \<longrightarrow> py_nth shares (int (length lens)) = Inr 0 \<longrightarrow>
    (\<forall>l \<in> set lens. 0 < l) \<longrightarrow> lens \<noteq> [] \<longrightarrow> 0 < bs \<longrightarrow> (\<forall>j < length lens. requests_chunk p ! j \<noteq> []) \<longrightarrow>
    \<not> bs \<le> remain_batched_tokens p", OF _ assms], intro impI notI)
  fix f :: "int list \<Rightarrow> int \<Rightarrow> chunk_plan \<Rightarrow> (chunk_plan, unit) outcome option" and shares bs p y
  assume IH: "\<And>shares bs p y. f shares bs p = Some y \<Longrightarrow> stuck lens p \<longrightarrow> py_nth shares (int (length lens)) = Inr 0 \<longrightarrow>
      (\<forall>l \<in> set lens. 0 < l) \<longrightarrow> lens \<noteq> [] \<longrightarrow> 0 < bs \<longrightarrow> (\<forall>j < length lens. requests_chunk p ! j \<noteq> []) \<longrightarrow>
      \<not> bs \<le> remain_batched_tokens p"
    and eq: "(if remain_batched_tokens p \<ge> bs \<and> unfinished p \<noteq> [] then
        (case extend_shortest shares bs p of (Inl e, p1) \<Rightarrow> Some (Inl e, p1) | (Inr _, p1) \<Rightarrow> f shares bs p1)
      else Some (Inr (), p)) = Some y"
    and s: "stuck lens p" "py_nth shares (int (length lens)) = Inr 0" "\<forall>l \<in> set lens. 0 < l" "lens \<noteq> []" "0 < bs"
      "\<forall>j < length lens. requests_chunk p ! j \<noteq> []" "bs \<le> remain_batched_tokens p"
  have un: "unfinished p \<noteq> []" using s(1,3,4) by (cases lens) (auto simp: unfinished_def stuck_def)
  note i = shortest_unfinished [OF un]
  have il: "shortest p < length lens" "0 < lens ! shortest p" using i s(1) by (auto simp: stuck_def)
  obtain p1 where u: "update_tokens (shortest p) 0 True p = (Inr (), p1)" "stuck lens p1"
      "remain_batched_tokens p1 = remain_batched_tokens p" "\<forall>j. requests_chunk p ! j \<noteq> [] \<longrightarrow> requests_chunk p1 ! j \<noteq> []"
    using update_stuck [OF s(1) il, of True] s(6) il(1) by auto
  have "0 \<le> remain_batched_tokens p div bs * bs" using s(5,7) by (simp add: pos_imp_zdiv_nonneg_iff)
  then have "extend_shortest shares bs p = (Inr (), p1)"
    using s(1,2) il u(1) by (simp add: extend_shortest_def stuck_def min_def)
  then have "f shares bs p1 = Some y" using eq s(7) un by simp
  from IH [OF this] show False using u s by auto
qed

lemma plan_rounds_stuck:
  assumes "plan_rounds shares bs max_tokens p = Some y"
  shows "stuck lens p \<longrightarrow> py_nth shares (int (length lens)) = Inr 0 \<longrightarrow> (\<forall>l \<in> set lens. 0 < l) \<longrightarrow> 0 < bs \<longrightarrow> lens = []"
proof (rule plan_rounds.raw_induct [where P = "\<lambda>shares bs max_tokens p y. stuck lens p \<longrightarrow> py_nth shares (int (length lens)) = Inr 0 \<longrightarrow>
    (\<forall>l \<in> set lens. 0 < l) \<longrightarrow> 0 < bs \<longrightarrow> lens = []", OF _ assms], intro impI, rule ccontr)
  fix f :: "int list \<Rightarrow> int \<Rightarrow> int \<Rightarrow> chunk_plan \<Rightarrow> (chunk_plan, unit) outcome option" and shares bs max_tokens p y
  assume IH: "\<And>shares bs max_tokens p y. f shares bs max_tokens p = Some y \<Longrightarrow> stuck lens p \<longrightarrow>
      py_nth shares (int (length lens)) = Inr 0 \<longrightarrow> (\<forall>l \<in> set lens. 0 < l) \<longrightarrow> 0 < bs \<longrightarrow> lens = []"
    and eq: "(if chunk_request_num p \<ge> 1 then
        (case first_pass shares [0..<length (current_request_size p)] (p\<lparr>remain_batched_tokens := max_tokens\<rparr>) of
           (Inl e, p1) \<Rightarrow> Some (Inl e, p1)
         | (Inr _, p1) \<Rightarrow>
             Option.bind (second_pass shares bs p1)
               (\<lambda>(r, p2). case r of Inl e \<Rightarrow> Some (Inl e, p2) | Inr _ \<Rightarrow> f shares bs max_tokens p2))
      else Some (Inr (), p)) = Some y"
    and s: "stuck lens p" "py_nth shares (int (length lens)) = Inr 0" "\<forall>l \<in> set lens. 0 < l" "0 < bs" "lens \<noteq> []"
  let ?p0 = "p\<lparr>remain_batched_tokens := max_tokens\<rparr>"
  have n: "1 \<le> chunk_request_num p" using s(1,5) by (cases lens) (auto simp: stuck_def)
  obtain p1 where f: "first_pass shares [0..<length lens] ?p0 = (Inr (), p1)" "stuck lens p1"
      "remain_batched_tokens p1 = max_tokens" "\<forall>j \<in> set [0..<length lens]. requests_chunk p1 ! j \<noteq> []"
    using first_pass_stuck [of lens ?p0 shares "[0..<length lens]"] s(1-3) by (auto simp: stuck_def)
  have sz: "length (current_request_size p) = length lens" using s(1) by (simp add: stuck_def)
  show False
  proof (cases "second_pass shares bs p1")
    case None
    then show False using eq n f(1) sz by simp
  next
    case (Some z)
    have "\<not> bs \<le> remain_batched_tokens p1" using second_pass_stuck [OF Some, of lens] f(2,4) s by auto
    then have "second_pass shares bs p1 = Some (Inr (), p1)" by (subst second_pass.simps) simp
    then have "f shares bs max_tokens p1 = Some y" using eq n f(1) sz by simp
    from IH [OF this] show False using f(2) s by blast
  qed
qed

text \<open>C32: with chunked prefill, when no more nonempty prompts come together than there are shares (with more of them the first round raises an \<open>IndexError\<close>) and the
  token budget holds less than one block for each prompt, the share of a prompt is rounded down to zero and planning
  never returns, whatever the lengths of the prompts are.\<close>

theorem chunk_plan_does_not_return:
  assumes "0 < bs" "lens \<noteq> []" "\<forall>l \<in> set lens. 0 < l" "length lens \<le> max_partial" "0 \<le> max_tokens"
    "max_tokens < bs * int (length lens)"
  shows "update_requests_chunk_size True bs max_tokens max_partial lens = None"
proof -
  have l: "1 \<le> length lens" using assms(2) by (simp add: Suc_le_eq)
  have "py_nth (partial_chunked_tokens bs max_tokens max_partial) (int (length lens)) = Inr 0"
    using partial_nth [OF l assms(4)] share_zero [OF assms(5,6) l] by simp
  moreover have "stuck lens (start_plan lens)" by (simp add: stuck_def start_plan_def)
  ultimately have "plan_rounds (partial_chunked_tokens bs max_tokens max_partial) bs max_tokens (start_plan lens) = None"
    using plan_rounds_stuck [of _ bs max_tokens "start_plan lens" _ lens] assms(1-3) by (cases "plan_rounds
      (partial_chunked_tokens bs max_tokens max_partial) bs max_tokens (start_plan lens)") blast+
  then show ?thesis using assms(2) by (simp add: update_requests_chunk_size_def)
qed

theorem chunk_plan_does_not_return_witness: "update_requests_chunk_size True 64 100 2 [500, 300] = None"
  by (rule chunk_plan_does_not_return) simp_all

text \<open>A prompt that is finished within a round raises the share of the prompts after it: two prompts of 10 and 200
  tokens get 110 tokens in one step, beyond the budget of 100.\<close>

theorem round_exceeds_budget:
  "update_requests_chunk_size True 10 100 2 [10, 200] = Some (Inr (Some [[10], [100, 100]]))"
  by code_simp

end
