(* ===== verification/ExpertBalance.thy ===== *)
theory ExpertBalance
  imports FDPrelude Complex_Main
begin

text \<open>
  Where the replicas of the experts go (\<open>worker/eplb.py\<close>). The arrays hold one row per layer and every row is treated
  alike, so a function on arrays is modelled by what it does with one row; weights are exact rationals where the code
  has 32-bit floats. \<open>argsort\<close> of the array library is a parameter, since its order of equal weights is not fixed.
\<close>

type_synonym argsort = "rat list \<Rightarrow> nat list"

subsection \<open>Packing\<close>

text \<open>\<open>min\<close> with a key: the first of the least.\<close>

fun first_min :: "(nat \<Rightarrow> rat) \<Rightarrow> nat list \<Rightarrow> nat option" where
  "first_min key [] = None"
| "first_min key (x # xs) =
     (case first_min key xs of None \<Rightarrow> Some x | Some y \<Rightarrow> if key x \<le> key y then Some x else Some y)"

record packing =
  pack_weights :: "rat list"
  pack_items :: "nat list"
  pack_index :: "int list"
  rank_in_pack :: "int list"

definition start_packing :: "nat \<Rightarrow> nat \<Rightarrow> packing" where
  "start_packing num_groups num_packs =
     \<lparr>pack_weights = replicate num_packs 0, pack_items = replicate num_packs 0,
      pack_index = replicate num_groups (- 1), rank_in_pack = replicate num_groups (- 1)\<rparr>"

definition pack_one :: "nat \<Rightarrow> rat list \<Rightarrow> nat \<Rightarrow> packing \<Rightarrow> (packing, unit) outcome" where
  "pack_one groups_per_pack weight grp p =
     (case first_min (\<lambda>k. pack_weights p ! k)
             (filter (\<lambda>k. pack_items p ! k < groups_per_pack) [0..<length (pack_items p)]) of
        None \<Rightarrow> (Inl ValueError, p)
      | Some pack \<Rightarrow>
          (Inr (), p\<lparr>pack_index := (pack_index p)[grp := int pack],
                     rank_in_pack := (rank_in_pack p)[grp := int (pack_items p ! pack)],
                     pack_weights := (pack_weights p)[pack := pack_weights p ! pack + weight ! grp],
                     pack_items := (pack_items p)[pack := Suc (pack_items p ! pack)]\<rparr>))"

fun pack_all :: "nat \<Rightarrow> rat list \<Rightarrow> nat list \<Rightarrow> packing \<Rightarrow> (packing, unit) outcome" where
  "pack_all groups_per_pack weight [] p = (Inr (), p)"
| "pack_all groups_per_pack weight (grp # groups) p =
     andthen (pack_one groups_per_pack weight grp p) (\<lambda>_ p1. pack_all groups_per_pack weight groups p1)"

definition balanced_packing :: "argsort \<Rightarrow> rat list \<Rightarrow> nat \<Rightarrow> (int list \<times> int list) res" where
  "balanced_packing argsort weight num_packs =
     (let num_groups = length weight in
      if num_packs = 0 then Inl ZeroDivisionError
      else if num_groups mod num_packs \<noteq> 0 then Inl AssertionError
      else
        let groups_per_pack = num_groups div num_packs in
        if groups_per_pack = 1 then Inr (map int [0..<num_groups], replicate num_groups 0)
        else
          (case pack_all groups_per_pack weight (argsort (map uminus weight)) (start_packing num_groups num_packs) of
             (Inl e, _) \<Rightarrow> Inl e
           | (Inr _, p) \<Rightarrow> Inr (pack_index p, rank_in_pack p)))"

subsection \<open>Replication\<close>

record replicas =
  phy2log :: "int list"
  rank :: "int list"
  logcnt :: "int list"

text \<open>\<open>argmax\<close>: the first of the greatest; the rows are not empty.\<close>

definition arg_max_row :: "rat list \<Rightarrow> nat" where
  "arg_max_row xs = (case first_min (\<lambda>i. - (xs ! i)) [0..<length xs] of None \<Rightarrow> 0 | Some i \<Rightarrow> i)"

definition add_replica :: "rat list \<Rightarrow> nat \<Rightarrow> replicas \<Rightarrow> replicas" where
  "add_replica weight i r =
     (let l = arg_max_row (map2 (\<lambda>w c. w / of_int c) weight (logcnt r))
      in r\<lparr>phy2log := (phy2log r)[i := int l], rank := (rank r)[i := logcnt r ! l],
           logcnt := (logcnt r)[l := logcnt r ! l + 1]\<rparr>)"

definition replicate_experts :: "rat list \<Rightarrow> nat \<Rightarrow> replicas res" where
  "replicate_experts weight num_phy =
     (let num_log = length weight in
      if num_phy < num_log then Inl AssertionError
      else if num_log = 0 \<and> num_phy > 0 then Inl ValueError
      else Inr (fold (add_replica weight) [num_log..<num_phy]
             \<lparr>phy2log = map int [0..<num_phy], rank = replicate num_phy 0, logcnt = replicate num_log 1\<rparr>))"

subsection \<open>The hierarchical policy\<close>

text \<open>\<open>inverse\<close>, on permutations, which leave no entry unset.\<close>

definition inverse_perm :: "int list \<Rightarrow> int list" where
  "inverse_perm perm =
     fold (\<lambda>j inv. inv[nat (perm ! j) := int j]) [0..<length perm] (replicate (length perm) 0)"

text \<open>\<open>take_along_axis\<close> and the rows of \<open>reshape\<close>.\<close>

definition take_along :: "'a list \<Rightarrow> int list \<Rightarrow> 'a list" where
  "take_along xs idxs = map (\<lambda>i. xs ! nat i) idxs"

definition row_of :: "nat \<Rightarrow> nat \<Rightarrow> 'a list \<Rightarrow> 'a list" where
  "row_of width k xs = take width (drop (k * width) xs)"

text \<open>Steps 2 and 3 for the experts of one node: the replicas in the order of their place on the GPUs.\<close>

definition place_on_node ::
  "argsort \<Rightarrow> nat \<Rightarrow> nat \<Rightarrow> nat \<Rightarrow> rat list \<Rightarrow> replicas res" where
  "place_on_node argsort num_phy num_gpus phy_experts_per_gpu tokens_per_mlog =
     (case replicate_experts tokens_per_mlog num_phy of Inl e \<Rightarrow> Inl e
      | Inr r \<Rightarrow>
          let tokens_per_phy = take_along (map2 (\<lambda>w c. w / of_int c) tokens_per_mlog (logcnt r)) (phy2log r) in
          (case balanced_packing argsort tokens_per_phy num_gpus of Inl e \<Rightarrow> Inl e
           | Inr (pack_idx, rank_in) \<Rightarrow>
               let pphy2phy = inverse_perm (map2 (\<lambda>p k. p * int phy_experts_per_gpu + k) pack_idx rank_in)
               in Inr \<lparr>phy2log = take_along (phy2log r) pphy2phy, rank = take_along (rank r) pphy2phy,
                       logcnt = logcnt r\<rparr>))"

fun place_on_nodes ::
  "argsort \<Rightarrow> nat \<Rightarrow> nat \<Rightarrow> nat \<Rightarrow> nat \<Rightarrow> rat list \<Rightarrow> nat list \<Rightarrow> replicas list res" where
  "place_on_nodes argsort num_phy num_gpus phy_experts_per_gpu width tokens [] = Inr []"
| "place_on_nodes argsort num_phy num_gpus phy_experts_per_gpu width tokens (k # ks) =
     (case place_on_node argsort num_phy num_gpus phy_experts_per_gpu (row_of width k tokens) of Inl e \<Rightarrow> Inl e
      | Inr r \<Rightarrow>
          (case place_on_nodes argsort num_phy num_gpus phy_experts_per_gpu width tokens ks of Inl e \<Rightarrow> Inl e
           | Inr rs \<Rightarrow> Inr (r # rs)))"

text \<open>Step 1: the groups are packed to nodes, which renumbers the experts.\<close>

definition group_order :: "nat \<Rightarrow> nat \<Rightarrow> int list \<Rightarrow> int list \<Rightarrow> int list" where
  "group_order groups_per_node group_size pack_idx rank_in =
     concat (map2 (\<lambda>p k. map (\<lambda>j. (p * int groups_per_node + k) * int group_size + int j) [0..<group_size])
               pack_idx rank_in)"

definition rebalance_experts_hierarchical ::
  "argsort \<Rightarrow> rat list \<Rightarrow> nat \<Rightarrow> nat \<Rightarrow> nat \<Rightarrow> nat \<Rightarrow> replicas res" where
  "rebalance_experts_hierarchical argsort weight num_physical_experts num_groups num_nodes num_gpus =
     (let num_logical_experts = length weight in
      if num_groups = 0 then Inl ZeroDivisionError
      else if num_logical_experts mod num_groups \<noteq> 0 then Inl AssertionError
      else if num_nodes = 0 then Inl ZeroDivisionError
      else if num_groups mod num_nodes \<noteq> 0 \<or> num_gpus mod num_nodes \<noteq> 0 then Inl AssertionError
      else if num_gpus = 0 then Inl ZeroDivisionError
      else if num_physical_experts mod num_gpus \<noteq> 0 then Inl AssertionError
      else
        let group_size = num_logical_experts div num_groups;
            groups_per_node = num_groups div num_nodes;
            phy_experts_per_gpu = num_physical_experts div num_gpus;
            width = num_logical_experts div num_nodes;
            tokens_per_group = map (\<lambda>g. sum_list (row_of group_size g weight)) [0..<num_groups]
        in case balanced_packing argsort tokens_per_group num_nodes of Inl e \<Rightarrow> Inl e
           | Inr (pack_idx, rank_in) \<Rightarrow>
               let log2mlog = group_order groups_per_node group_size pack_idx rank_in;
                   mlog2log = inverse_perm log2mlog
               in case place_on_nodes argsort (num_physical_experts div num_nodes) (num_gpus div num_nodes)
                         phy_experts_per_gpu width (take_along weight mlog2log) [0..<num_nodes] of
                    Inl e \<Rightarrow> Inl e
                  | Inr rs \<Rightarrow>
                      let pphy2mlog = concat (map2 (\<lambda>k r. map (\<lambda>l. l + int (k * width)) (phy2log r)) [0..<num_nodes] rs)
                      in Inr \<lparr>phy2log = take_along mlog2log pphy2mlog, rank = concat (map rank rs),
                              logcnt = take_along (concat (map logcnt rs)) log2mlog\<rparr>)"

subsection \<open>The tables\<close>

text \<open>The policy for one row.\<close>

definition place_row :: "argsort \<Rightarrow> nat \<Rightarrow> nat \<Rightarrow> nat \<Rightarrow> nat \<Rightarrow> rat list \<Rightarrow> replicas res" where
  "place_row argsort num_replicas num_groups num_nodes num_gpus weight =
     (if num_nodes = 0 then Inl ZeroDivisionError
      else if num_groups mod num_nodes = 0
      then rebalance_experts_hierarchical argsort weight num_replicas num_groups num_nodes num_gpus
      else replicate_experts weight num_replicas)"

text \<open>\<open>put_along_axis\<close> on the flattened table of a row.\<close>

definition log2phy_row :: "nat \<Rightarrow> nat \<Rightarrow> replicas \<Rightarrow> int list" where
  "log2phy_row num_logical_experts maxlogcnt r =
     fold (\<lambda>p t. t[nat (phy2log r ! p * int maxlogcnt + rank r ! p) := int p]) [0..<length (phy2log r)]
       (replicate (num_logical_experts * maxlogcnt) (- 1))"

fun place_rows :: "argsort \<Rightarrow> nat \<Rightarrow> nat \<Rightarrow> nat \<Rightarrow> nat \<Rightarrow> rat list list \<Rightarrow> replicas list res" where
  "place_rows argsort num_replicas num_groups num_nodes num_gpus [] = Inr []"
| "place_rows argsort num_replicas num_groups num_nodes num_gpus (w # ws) =
     (case place_row argsort num_replicas num_groups num_nodes num_gpus w of Inl e \<Rightarrow> Inl e
      | Inr r \<Rightarrow>
          (case place_rows argsort num_replicas num_groups num_nodes num_gpus ws of Inl e \<Rightarrow> Inl e
           | Inr rs \<Rightarrow> Inr (r # rs)))"

text \<open>For every layer: the expert of each replica, the replicas of each expert, and how many there are.\<close>

definition rebalance_experts ::
  "argsort \<Rightarrow> rat list list \<Rightarrow> nat \<Rightarrow> nat \<Rightarrow> nat \<Rightarrow> nat \<Rightarrow> (int list \<times> int list list \<times> int list) list res" where
  "rebalance_experts argsort weight num_replicas num_groups num_nodes num_gpus =
     (case place_rows argsort num_replicas num_groups num_nodes num_gpus weight of Inl e \<Rightarrow> Inl e
      | Inr rs \<Rightarrow>
          let counts = concat (map logcnt rs) in
          if counts = [] then Inl ValueError
          else
            let maxlogcnt = nat (Max (set counts)) in
            Inr (map2 (\<lambda>w r. (phy2log r,
                   map (\<lambda>l. row_of maxlogcnt l (log2phy_row (length w) maxlogcnt r)) [0..<length w], logcnt r)) weight rs))"

end
