(* ===== verification/ExpertBalanceProps.thy ===== *)
theory ExpertBalanceProps
  imports ExpertBalance
begin

text \<open>
  Balancing the experts: packing fills every pack and is a renumbering, replication gives every expert its replicas, and
  the tables of all policies list exactly the replicas of every expert.
\<close>

subsection \<open>Renumberings\<close>

definition is_perm :: "nat \<Rightarrow> int list \<Rightarrow> bool" where
  "is_perm n xs = (length xs = n \<and> set xs = int ` {..<n})"

lemma perm_distinct: "is_perm n xs \<Longrightarrow> distinct xs"
  by (intro card_distinct) (simp add: is_perm_def card_image)

lemma perm_nth: "is_perm n xs \<Longrightarrow> i < n \<Longrightarrow> \<exists>k < n. xs ! i = int k"
  using nth_mem [of i xs] by (auto simp: is_perm_def)

lemma permI:
  assumes "length xs = n" "\<And>i. i < n \<Longrightarrow> \<exists>k < n. xs ! i = int k" "distinct xs"
  shows "is_perm n xs"
proof -
  have "set xs \<subseteq> int ` {..<n}" using assms(1,2) by (force simp: in_set_conv_nth)
  moreover have "card (set xs) = card (int ` {..<n})" using assms(1,3) by (simp add: distinct_card card_image)
  ultimately have "set xs = int ` {..<n}" by (intro card_subset_eq) simp_all
  then show ?thesis using assms(1) by (simp add: is_perm_def)
qed

lemma inverse_fold:
  assumes "is_perm n xs" "m \<le> n"
  shows "length (fold (\<lambda>j inv. inv[nat (xs ! j) := int j]) [0..<m] (replicate n 0)) = n \<and>
    (\<forall>j < m. fold (\<lambda>j inv. inv[nat (xs ! j) := int j]) [0..<m] (replicate n 0) ! nat (xs ! j) = int j)"
  using assms(2)
proof (induction m)
  case 0
  then show ?case by simp
next
  case (Suc m)
  let ?t = "fold (\<lambda>j inv. inv[nat (xs ! j) := int j]) [0..<m] (replicate n 0)"
  have IH: "length ?t = n" "\<forall>j < m. ?t ! nat (xs ! j) = int j" using Suc by simp_all
  obtain k where k: "k < n" "xs ! m = int k" using perm_nth [OF assms(1)] Suc.prems by (meson Suc_le_eq)
  have "nat (xs ! m) \<noteq> nat (xs ! j)" if "j < m" for j
  proof -
    have j: "j < n" using that Suc.prems by simp
    obtain l where l: "xs ! j = int l" using perm_nth [OF assms(1) j] by blast
    have "xs ! j \<noteq> xs ! m" using perm_distinct [OF assms(1)] that Suc.prems assms(1)
      by (simp add: nth_eq_iff_index_eq is_perm_def)
    then show ?thesis using l k by simp
  qed
  then show ?case using IH k by (auto simp: less_Suc_eq)
qed

lemma inverse_perm:
  assumes "is_perm n xs"
  shows "is_perm n (inverse_perm xs)" "\<forall>j < n. inverse_perm xs ! nat (xs ! j) = int j"
    "\<forall>y < n. xs ! nat (inverse_perm xs ! y) = int y"
proof -
  have len: "length xs = n" using assms by (simp add: is_perm_def)
  have i: "length (inverse_perm xs) = n" "\<forall>j < n. inverse_perm xs ! nat (xs ! j) = int j"
    using inverse_fold [OF assms order_refl] by (simp_all add: inverse_perm_def len)
  then show "\<forall>j < n. inverse_perm xs ! nat (xs ! j) = int j" by simp
  have found_at: "\<exists>j < n. inverse_perm xs ! y = int j \<and> xs ! j = int y" if "y < n" for y
  proof -
    have "int y \<in> set xs" using assms that by (simp add: is_perm_def)
    then obtain j where "j < n" "xs ! j = int y" using len by (auto simp: in_set_conv_nth)
    then show ?thesis using i(2) by force
  qed
  then show "\<forall>y < n. xs ! nat (inverse_perm xs ! y) = int y" by fastforce
  have "y = z" if "y < n" "z < n" "inverse_perm xs ! y = inverse_perm xs ! z" for y z
    using found_at [OF that(1)] found_at [OF that(2)] that(3) by auto
  then have "distinct (inverse_perm xs)" using i(1) by (auto simp: distinct_conv_nth)
  moreover have "\<exists>k < n. inverse_perm xs ! y = int k" if "y < n" for y using found_at [OF that] by blast
  ultimately show "is_perm n (inverse_perm xs)" using i(1) by (intro permI)
qed

subsection \<open>Packing\<close>

lemma first_min_in: "xs \<noteq> [] \<Longrightarrow> \<exists>y \<in> set xs. first_min key xs = Some y"
proof (induction xs)
  case (Cons x xs)
  then show ?case by (cases "xs = []") (auto split: option.split)
qed simp

definition argsort_ok :: "argsort \<Rightarrow> bool" where
  "argsort_ok A = (\<forall>ws. mset (A ws) = mset [0..<length ws] \<and> sorted (map (\<lambda>i. ws ! i) (A ws)))"

definition packed_ok :: "nat \<Rightarrow> nat \<Rightarrow> nat \<Rightarrow> nat set \<Rightarrow> packing \<Rightarrow> bool" where
  "packed_ok m g n S p =
     (length (pack_items p) = m \<and> length (pack_index p) = n \<and> length (rank_in_pack p) = n \<and>
      (\<forall>k < m. pack_items p ! k \<le> g) \<and> sum_list (pack_items p) = card S \<and> S \<subseteq> {..<n} \<and>
      (\<forall>i \<in> S. \<exists>k < m. \<exists>r < pack_items p ! k. pack_index p ! i = int k \<and> rank_in_pack p ! i = int r) \<and>
      inj_on (\<lambda>i. (pack_index p ! i, rank_in_pack p ! i)) S)"

lemma sum_list_suc: "k < length xs \<Longrightarrow> sum_list (xs[k := Suc (xs ! k)]) = Suc (sum_list xs)"
  by (induction xs arbitrary: k) (auto split: nat.split simp: less_Suc_eq_0_disj nth_Cons')

lemma room_left:
  assumes "\<forall>k < length xs. xs ! k \<le> g" "sum_list xs < length xs * g"
  shows "filter (\<lambda>k. xs ! k < g) [0..<length xs] \<noteq> []"
proof
  assume "filter (\<lambda>k. xs ! k < g) [0..<length xs] = []"
  then have "\<forall>k < length xs. \<not> xs ! k < g" by (auto simp: filter_empty_conv)
  then have "xs = replicate (length xs) g" using assms(1) by (intro nth_equalityI) (auto simp: le_less)
  then have "sum_list xs = sum_list (replicate (length xs) g)" by simp
  also have "\<dots> = length xs * g" by (simp add: sum_list_replicate)
  finally have "sum_list xs = length xs * g" .
  then show False using assms(2) by simp
qed

lemma pack_one_ok:
  assumes "packed_ok m g n S p" "card S < m * g" "i < n" "i \<notin> S"
  shows "\<exists>p'. pack_one g w i p = (Inr (), p') \<and> packed_ok m g n (insert i S) p'"
proof -
  let ?ks = "filter (\<lambda>k. pack_items p ! k < g) [0..<length (pack_items p)]"
  have "?ks \<noteq> []" using assms(1,2) by (intro room_left) (simp_all add: packed_ok_def)
  then obtain k where k: "first_min (\<lambda>k. pack_weights p ! k) ?ks = Some k" "k \<in> set ?ks" using first_min_in by metis
  define p' where "p' = p\<lparr>pack_index := (pack_index p)[i := int k],
                     rank_in_pack := (rank_in_pack p)[i := int (pack_items p ! k)],
                     pack_weights := (pack_weights p)[k := pack_weights p ! k + w ! i],
                     pack_items := (pack_items p)[k := Suc (pack_items p ! k)]\<rparr>"
  have km: "k < m" "pack_items p ! k < g" "k < length (pack_items p)" using k(2) assms(1) by (auto simp: packed_ok_def)
  have fin: "finite S" using assms(1) finite_subset by (auto simp: packed_ok_def)
  have ne: "j \<noteq> i" if "j \<in> S" for j using that assms(4) by blast
  have old: "\<exists>k' < m. \<exists>r < pack_items p' ! k'. pack_index p' ! j = int k' \<and> rank_in_pack p' ! j = int r" if "j \<in> S" for j
  proof -
    have "\<forall>i \<in> S. \<exists>k < m. \<exists>r < pack_items p ! k. pack_index p ! i = int k \<and> rank_in_pack p ! i = int r"
      using assms(1) by (simp add: packed_ok_def)
    from bspec [OF this that] obtain k' r where
      "k' < m" "r < pack_items p ! k'" "pack_index p ! j = int k'" "rank_in_pack p ! j = int r" by blast
    moreover have "pack_items p ! k' \<le> pack_items p' ! k'" using km(3) by (simp add: p'_def nth_list_update)
    moreover have "pack_index p' ! j = pack_index p ! j" "rank_in_pack p' ! j = rank_in_pack p ! j"
      using ne [OF that] by (simp_all add: p'_def)
    ultimately show ?thesis by (intro exI [of _ k'] conjI exI [of _ r]) simp_all
  qed
  have new: "pack_index p' ! i = int k" "rank_in_pack p' ! i = int (pack_items p ! k)"
    "pack_items p' ! k = Suc (pack_items p ! k)"
    using assms(1,3) km by (auto simp: p'_def packed_ok_def)
  have same: "pack_index p' ! j = pack_index p ! j" "rank_in_pack p' ! j = rank_in_pack p ! j" if "j \<in> S" for j
    using ne [OF that] by (simp_all add: p'_def)
  have fresh: "(pack_index p' ! j, rank_in_pack p' ! j) \<noteq> (int k, int (pack_items p ! k))" if "j \<in> S" for j
    using assms(1) that same [OF that] by (auto simp: packed_ok_def)
  have "inj_on (\<lambda>i. (pack_index p' ! i, rank_in_pack p' ! i)) (insert i S)"
  proof (rule inj_on_insert [THEN iffD2], intro conjI)
    show "inj_on (\<lambda>i. (pack_index p' ! i, rank_in_pack p' ! i)) S"
      using assms(1) same by (auto simp: packed_ok_def inj_on_def)
    show "(pack_index p' ! i, rank_in_pack p' ! i) \<notin> (\<lambda>i. (pack_index p' ! i, rank_in_pack p' ! i)) ` (S - {i})"
      using fresh new(1,2) by (metis (no_types, lifting) DiffD1 imageE)
  qed
  moreover have "\<forall>j \<in> insert i S. \<exists>k' < m. \<exists>r < pack_items p' ! k'. pack_index p' ! j = int k' \<and> rank_in_pack p' ! j = int r"
    using old new km(1) by auto
  moreover have "\<forall>k' < m. pack_items p' ! k' \<le> g"
    using assms(1) km by (auto simp: p'_def nth_list_update packed_ok_def)
  moreover have "sum_list (pack_items p') = card (insert i S)"
    using assms(1,4) fin sum_list_suc [OF km(3)] by (simp add: p'_def packed_ok_def)
  ultimately have "packed_ok m g n (insert i S) p'"
    using assms(1,3) by (simp add: packed_ok_def p'_def)
  moreover have "pack_one g w i p = (Inr (), p')" using k(1) by (simp add: pack_one_def p'_def)
  ultimately show ?thesis by blast
qed

lemma pack_all_ok:
  assumes "packed_ok m g n S p" "distinct is" "set is \<inter> S = {}" "set is \<subseteq> {..<n}" "card S + length is \<le> m * g"
  shows "\<exists>p'. pack_all g w is p = (Inr (), p') \<and> packed_ok m g n (S \<union> set is) p'"
  using assms
proof (induction "is" arbitrary: S p)
  case Nil
  then show ?case by simp
next
  case (Cons i "is")
  have fin: "finite S" using Cons.prems(1) finite_subset by (auto simp: packed_ok_def)
  obtain p1 where p1: "pack_one g w i p = (Inr (), p1)" "packed_ok m g n (insert i S) p1"
    using pack_one_ok [OF Cons.prems(1), of i w] Cons.prems(3-5) by auto
  have "card (insert i S) = Suc (card S)" using fin Cons.prems(3) by simp
  then obtain p' where "pack_all g w is p1 = (Inr (), p')" "packed_ok m g n (insert i S \<union> set is) p'"
    using Cons.IH [OF p1(2)] Cons.prems(2-5) by auto
  then show ?case using p1(1) by simp
qed

text \<open>Packing numbers the places of all packs: item \<open>i\<close> goes to place \<open>pack_index * size + rank_in_pack\<close>.\<close>

definition places :: "nat \<Rightarrow> int list \<Rightarrow> int list \<Rightarrow> int list" where
  "places g pack_idx rank_in = map2 (\<lambda>p k. p * int g + k) pack_idx rank_in"

lemma place_lt:
  fixes k r g m :: nat
  assumes "k < m" "r < g"
  shows "k * g + r < m * g"
proof -
  have "k * g + r < Suc k * g" using assms(2) by simp
  also have "\<dots> \<le> m * g" using assms(1) by (intro mult_le_mono1) simp
  finally show ?thesis .
qed

lemma place_inj:
  fixes k r g :: nat
  assumes "r < g" "r' < g" "k * g + r = k' * g + r'"
  shows "k = k' \<and> r = r'"
proof -
  have "(k * g + r) div g = k" "(k' * g + r') div g = k'" using assms(1,2) by simp_all
  then show ?thesis using assms(3) by simp
qed

lemma packed_places:
  assumes "packed_ok m g n {..<n} p" "n = m * g"
  shows "is_perm n (places g (pack_index p) (rank_in_pack p))"
proof (rule permI)
  let ?xs = "places g (pack_index p) (rank_in_pack p)"
  have len: "length (pack_index p) = n" "length (rank_in_pack p) = n" using assms(1) by (simp_all add: packed_ok_def)
  show l: "length ?xs = n" using len by (simp add: places_def)
  have at: "\<exists>k < m. \<exists>r < g. pack_index p ! i = int k \<and> rank_in_pack p ! i = int r \<and> ?xs ! i = int (k * g + r)" if "i < n" for i
  proof -
    have "\<forall>i \<in> {..<n}. \<exists>k < m. \<exists>r < pack_items p ! k. pack_index p ! i = int k \<and> rank_in_pack p ! i = int r"
      using assms(1) by (simp add: packed_ok_def)
    from bspec [OF this, of i] that obtain k r where
      k: "k < m" "r < pack_items p ! k" "pack_index p ! i = int k" "rank_in_pack p ! i = int r" by auto
    have "pack_items p ! k \<le> g" using assms(1) k(1) by (simp add: packed_ok_def)
    then show ?thesis using k that len by (intro exI [of _ k] conjI exI [of _ r]) (simp_all add: places_def)
  qed
  show "\<exists>k < n. ?xs ! i = int k" if "i < n" for i
    using at [OF that] place_lt assms(2) by metis
  have "i = j" if ij: "i < n" "j < n" "?xs ! i = ?xs ! j" for i j
  proof -
    obtain k r where i: "r < g" "pack_index p ! i = int k" "rank_in_pack p ! i = int r" "?xs ! i = int (k * g + r)"
      using at [OF ij(1)] by blast
    obtain k' r' where j: "r' < g" "pack_index p ! j = int k'" "rank_in_pack p ! j = int r'" "?xs ! j = int (k' * g + r')"
      using at [OF ij(2)] by blast
    have "k * g + r = k' * g + r'" using ij(3) unfolding i(4) j(4) of_nat_eq_iff .
    from place_inj [OF i(1) j(1) this] have "(pack_index p ! i, rank_in_pack p ! i) = (pack_index p ! j, rank_in_pack p ! j)"
      using i j by simp
    moreover have "inj_on (\<lambda>i. (pack_index p ! i, rank_in_pack p ! i)) {..<n}" using assms(1) by (simp add: packed_ok_def)
    ultimately show ?thesis using ij(1,2) by (auto dest!: inj_onD)
  qed
  then show "distinct ?xs" using l by (auto simp: distinct_conv_nth)
qed

lemma balanced_packing_perm:
  assumes "argsort_ok A" "0 < m" "length w mod m = 0"
  shows "\<exists>pack_idx rank_in. balanced_packing A w m = Inr (pack_idx, rank_in) \<and>
    is_perm (length w) (places (length w div m) pack_idx rank_in)"
proof -
  let ?n = "length w" and ?g = "length w div m"
  have n: "?n = m * ?g" using assms(3) by auto
  show ?thesis
  proof (cases "?g = 1")
    case True
    have "places 1 (map int [0..<?n]) (replicate ?n 0) = map int [0..<?n]"
      by (intro nth_equalityI) (simp_all add: places_def)
    then show ?thesis using True assms(2,3) by (simp add: balanced_packing_def Let_def is_perm_def lessThan_atLeast0)
  next
    case False
    let ?is = "A (map uminus w)"
    have "mset ?is = mset [0..<?n]" using assms(1) by (simp add: argsort_ok_def)
    note is_m = mset_eq_imp_distinct_iff [OF this] mset_eq_setD [OF this] mset_eq_length [OF this]
    have is_n: "distinct ?is" "set ?is = {..<?n}" "length ?is = ?n" using is_m by (simp_all add: lessThan_atLeast0)
    have "packed_ok m ?g ?n {} (start_packing ?n m)" by (simp add: packed_ok_def start_packing_def sum_list_replicate)
    from pack_all_ok [OF this is_n(1), of w] obtain p' where
      "pack_all ?g w ?is (start_packing ?n m) = (Inr (), p')" "packed_ok m ?g ?n {..<?n} p'"
      using is_n n by auto
    then show ?thesis
      using False assms(2,3) packed_places [of m ?g ?n p'] n by (simp add: balanced_packing_def Let_def)
  qed
qed

subsection \<open>Replication\<close>

text \<open>The first \<open>i\<close> places hold replicas of all \<open>L\<close> experts, numbered for each expert; its count is how many.\<close>

definition placed :: "nat \<Rightarrow> nat \<Rightarrow> nat \<Rightarrow> replicas \<Rightarrow> bool" where
  "placed L P i r =
     (length (phy2log r) = P \<and> length (rank r) = P \<and> length (logcnt r) = L \<and>
      (\<forall>p < i. \<exists>l < L. \<exists>k. phy2log r ! p = int l \<and> rank r ! p = int k \<and> int k < logcnt r ! l) \<and>
      inj_on (\<lambda>p. (phy2log r ! p, rank r ! p)) {..<i} \<and>
      sum_list (logcnt r) = int i \<and> (\<forall>l < L. 1 \<le> logcnt r ! l))"

lemma arg_max_lt: "xs \<noteq> [] \<Longrightarrow> arg_max_row xs < length xs"
  using first_min_in [of "[0..<length xs]" "\<lambda>i. - (xs ! i)"] by (auto simp: arg_max_row_def)

lemma sum_list_inc: "k < length xs \<Longrightarrow> sum_list (xs[k := xs ! k + 1]) = sum_list xs + (1 :: int)"
  by (induction xs arbitrary: k) (auto split: nat.split simp: less_Suc_eq_0_disj nth_Cons')

lemma add_replica_placed:
  assumes "placed L P i r" "i < P" "length w = L" "0 < L"
  shows "placed L P (Suc i) (add_replica w i r)"
proof -
  define l where "l = arg_max_row (map2 (\<lambda>w c. w / of_int c) w (logcnt r))"
  define c where "c = logcnt r ! l"
  have len: "length (phy2log r) = P" "length (rank r) = P" "length (logcnt r) = L" using assms(1) by (simp_all add: placed_def)
  have ne: "map2 (\<lambda>w c. w / of_int c) w (logcnt r) \<noteq> []" using assms(3,4) len(3) by (simp flip: length_greater_0_conv)
  have l: "l < L" using arg_max_lt [OF ne] assms(3) len by (simp add: l_def)
  have c: "1 \<le> c" using assms(1) l by (simp add: placed_def c_def)
  define r' where "r' = r\<lparr>phy2log := (phy2log r)[i := int l], rank := (rank r)[i := c], logcnt := (logcnt r)[l := c + 1]\<rparr>"
  have add: "add_replica w i r = r'" by (simp add: add_replica_def Let_def l_def c_def r'_def)
  have up: "logcnt r ! x \<le> logcnt r' ! x" for x using l len(3) by (auto simp: r'_def nth_list_update c_def)
  have old: "\<exists>l < L. \<exists>k. phy2log r' ! p = int l \<and> rank r' ! p = int k \<and> int k < logcnt r' ! l" if pi: "p < i" for p
  proof -
    have "\<forall>p < i. \<exists>l < L. \<exists>k. phy2log r ! p = int l \<and> rank r ! p = int k \<and> int k < logcnt r ! l"
      using assms(1) by (simp add: placed_def)
    then obtain l' k where "l' < L" "phy2log r ! p = int l'" "rank r ! p = int k" "int k < logcnt r ! l'" using pi by blast
    then show ?thesis using pi up [of l'] by (intro exI [of _ l'] conjI exI [of _ k]) (simp_all add: r'_def)
  qed
  have new: "phy2log r' ! i = int l" "rank r' ! i = c" "logcnt r' ! l = c + 1" using l len assms(2) by (simp_all add: r'_def)
  have fresh: "(phy2log r ! p, rank r ! p) \<noteq> (int l, c)" if "p < i" for p
  proof -
    have "\<forall>p < i. \<exists>l < L. \<exists>k. phy2log r ! p = int l \<and> rank r ! p = int k \<and> int k < logcnt r ! l"
      using assms(1) by (simp add: placed_def)
    then show ?thesis using that by (auto simp: c_def)
  qed
  have same: "phy2log r' ! p = phy2log r ! p" "rank r' ! p = rank r ! p" if "p < i" for p using that by (simp_all add: r'_def)
  have "inj_on (\<lambda>p. (phy2log r' ! p, rank r' ! p)) (insert i {..<i})"
  proof (rule inj_on_insert [THEN iffD2], intro conjI)
    show "inj_on (\<lambda>p. (phy2log r' ! p, rank r' ! p)) {..<i}"
      using assms(1) same by (auto simp: placed_def inj_on_def)
    show "(phy2log r' ! i, rank r' ! i) \<notin> (\<lambda>p. (phy2log r' ! p, rank r' ! p)) ` ({..<i} - {i})"
      using fresh new same by (auto simp: image_iff) metis
  qed
  moreover have "\<exists>l < L. \<exists>k. phy2log r' ! p = int l \<and> rank r' ! p = int k \<and> int k < logcnt r' ! l" if "p < Suc i" for p
    using old [of p] new l c that by (cases "p = i") (auto intro!: exI [of _ l] exI [of _ "nat c"])
  moreover have "sum_list (logcnt r') = int (Suc i)"
    using assms(1) sum_list_inc [of l "logcnt r"] l len(3) by (simp add: r'_def c_def placed_def)
  moreover have "\<forall>x < L. 1 \<le> logcnt r' ! x" using assms(1) up by (auto simp: placed_def intro: order_trans)
  ultimately show ?thesis using len by (simp add: add placed_def lessThan_Suc r'_def)
qed

lemma replicate_placed:
  assumes "0 < length w" "length w \<le> P"
  shows "\<exists>r. replicate_experts w P = Inr r \<and> placed (length w) P P r"
proof -
  let ?L = "length w"
  let ?r0 = "\<lparr>phy2log = map int [0..<P], rank = replicate P 0, logcnt = replicate ?L 1\<rparr>"
  have r0: "placed ?L P ?L ?r0"
    using assms(2) by (auto simp: placed_def sum_list_replicate inj_on_def intro!: exI [of _ 0])
  have "placed ?L P m (fold (add_replica w) [?L..<m] ?r0)" if "?L \<le> m" "m \<le> P" for m
    using that
  proof (induction m)
    case 0
    then show ?case using assms(1) by simp
  next
    case (Suc m)
    show ?case
    proof (cases "?L \<le> m")
      case True
      then show ?thesis using add_replica_placed [OF Suc.IH, of w] Suc.prems assms(1) by simp
    next
      case False
      then show ?thesis using r0 Suc.prems by (simp add: le_Suc_eq)
    qed
  qed
  from this [OF assms(2) order_refl] show ?thesis using assms by (simp add: replicate_experts_def Let_def)
qed

text \<open>Every number below the count of an expert belongs to one of its replicas.\<close>

lemma placed_onto:
  assumes "placed L P P r" "l < L" "0 \<le> k" "k < logcnt r ! l"
  shows "\<exists>p < P. phy2log r ! p = int l \<and> rank r ! p = k"
proof -
  let ?pair = "\<lambda>p. (phy2log r ! p, rank r ! p)"
  let ?T = "Sigma (int ` {..<L}) (\<lambda>x. {0..<logcnt r ! nat x})"
  have at: "\<forall>p < P. \<exists>l < L. \<exists>k. phy2log r ! p = int l \<and> rank r ! p = int k \<and> int k < logcnt r ! l"
    using assms(1) by (simp add: placed_def)
  have "?pair ` {..<P} \<subseteq> ?T" using at by fastforce
  moreover have "card (?pair ` {..<P}) = P" using assms(1) by (simp add: card_image placed_def)
  moreover have "card ?T = P"
  proof -
    have "\<And>x. x < L \<Longrightarrow> int (nat (logcnt r ! x)) = logcnt r ! x" using assms(1) by (force simp: placed_def)
    then have "int (\<Sum>x < L. nat (logcnt r ! x)) = (\<Sum>x < L. logcnt r ! x)" unfolding of_nat_sum by (intro sum.cong) simp_all
    also have "\<dots> = int P"
      using assms(1) by (auto simp: placed_def sum_list_sum_nth lessThan_atLeast0)
    finally have "(\<Sum>x < L. nat (logcnt r ! x)) = P" unfolding of_nat_eq_iff .
    moreover have "card ?T = (\<Sum>x < L. nat (logcnt r ! x))" by (simp add: sum.reindex)
    ultimately show ?thesis by simp
  qed
  ultimately have "?pair ` {..<P} = ?T" by (intro card_subset_eq) simp_all
  moreover have "(int l, k) \<in> ?T" using assms(2-4) by simp
  ultimately show ?thesis by (metis (no_types, lifting) fst_conv imageE lessThan_iff snd_conv)
qed

subsection \<open>Rearranging replicas\<close>

lemma take_along_nth [simp]: "i < length idxs \<Longrightarrow> take_along xs idxs ! i = xs ! nat (idxs ! i)"
  by (simp add: take_along_def)

lemma take_along_length [simp]: "length (take_along xs idxs) = length idxs"
  by (simp add: take_along_def)

text \<open>Other places for the replicas.\<close>

lemma placed_permute:
  assumes "placed L P P r" "is_perm P q"
  shows "placed L P P \<lparr>phy2log = take_along (phy2log r) q, rank = take_along (rank r) q, logcnt = logcnt r\<rparr>"
proof -
  have len: "length q = P" using assms(2) by (simp add: is_perm_def)
  have at: "\<forall>p < P. \<exists>l < L. \<exists>k. phy2log r ! p = int l \<and> rank r ! p = int k \<and> int k < logcnt r ! l"
    using assms(1) by (simp add: placed_def)
  have inj: "inj_on (\<lambda>p. (phy2log r ! p, rank r ! p)) {..<P}" using assms(1) by (simp add: placed_def)
  have q: "\<exists>k < P. q ! p = int k" if "p < P" for p using perm_nth [OF assms(2) that] .
  have "p = p'" if pp: "p < P" "p' < P" "phy2log r ! nat (q ! p) = phy2log r ! nat (q ! p')" "rank r ! nat (q ! p) = rank r ! nat (q ! p')" for p p'
  proof -
    obtain k where k: "k < P" "q ! p = int k" using q [OF pp(1)] by blast
    obtain k' where k': "k' < P" "q ! p' = int k'" using q [OF pp(2)] by blast
    have "k = k'" using inj_onD [OF inj, of k k'] pp(3,4) k k' by simp
    then show ?thesis using k k' pp(1,2) perm_distinct [OF assms(2)] len nth_eq_iff_index_eq by metis
  qed
  moreover have "\<exists>l < L. \<exists>k. phy2log r ! nat (q ! p) = int l \<and> rank r ! nat (q ! p) = int k \<and> int k < logcnt r ! l" if p: "p < P" for p
    using q [OF p] at by auto
  ultimately show ?thesis
    using assms(1) len by (auto simp: placed_def inj_on_def)
qed

text \<open>Other numbers for the experts: \<open>q\<close> gives the number an expert is replicated under.\<close>

lemma placed_renumber:
  assumes "placed L P P r" "is_perm L q"
  shows "placed L P P \<lparr>phy2log = take_along (inverse_perm q) (phy2log r), rank = rank r, logcnt = take_along (logcnt r) q\<rparr>"
proof -
  note inv = inverse_perm [OF assms(2)]
  have len: "length q = L" "length (phy2log r) = P" "length (rank r) = P" "length (logcnt r) = L"
    using assms by (simp_all add: is_perm_def placed_def)
  have at: "\<forall>p < P. \<exists>l < L. \<exists>k. phy2log r ! p = int l \<and> rank r ! p = int k \<and> int k < logcnt r ! l"
    using assms(1) by (simp add: placed_def)
  have one: "\<exists>l < L. \<exists>k. inverse_perm q ! nat (phy2log r ! p) = int l \<and> q ! l = phy2log r ! p \<and> rank r ! p = int k \<and>
      int k < logcnt r ! nat (q ! l)" if p: "p < P" for p
  proof -
    obtain y k where y: "y < L" "phy2log r ! p = int y" "rank r ! p = int k" "int k < logcnt r ! y" using at p by blast
    obtain l where l: "l < L" "inverse_perm q ! y = int l" using perm_nth [OF inv(1) y(1)] by blast
    have "q ! nat (inverse_perm q ! y) = int y" using inv(3) y(1) by blast
    then have "q ! l = int y" using l(2) by simp
    then show ?thesis using y l by auto
  qed
  have "p = p'" if pp: "p < P" "p' < P" "inverse_perm q ! nat (phy2log r ! p) = inverse_perm q ! nat (phy2log r ! p')"
      "rank r ! p = rank r ! p'" for p p'
  proof -
    have "phy2log r ! p = phy2log r ! p'" using one [OF pp(1)] one [OF pp(2)] pp(3) by fastforce
    then show ?thesis using assms(1) pp by (auto simp: placed_def inj_on_def)
  qed
  moreover have "sum_list (take_along (logcnt r) q) = sum_list (logcnt r)"
  proof -
    have "distinct (map nat q)" using perm_distinct [OF assms(2)] assms(2) by (auto simp: distinct_map is_perm_def inj_on_def)
    moreover have "set (map nat q) = {..<L}" using assms(2) by (force simp: is_perm_def)
    ultimately have "mset (map nat q) = mset [0..<L]" by (subst set_eq_iff_mset_eq_distinct [symmetric]) auto
    then have "mset (map ((!) (logcnt r)) (map nat q)) = mset (map ((!) (logcnt r)) [0..<L])" by (metis mset_map)
    then have "sum_list (map ((!) (logcnt r)) (map nat q)) = sum_list (map ((!) (logcnt r)) [0..<L])" by (metis sum_mset_sum_list)
    moreover have "map ((!) (logcnt r)) [0..<L] = logcnt r" using len(4) by (metis map_nth)
    ultimately show ?thesis by (simp add: take_along_def comp_def)
  qed
  moreover have "\<forall>l < L. 1 \<le> logcnt r ! nat (q ! l)"
    using perm_nth [OF assms(2)] assms(1) by (fastforce simp: placed_def)
  moreover have "\<exists>l < L. \<exists>k. inverse_perm q ! nat (phy2log r ! p) = int l \<and> rank r ! p = int k \<and>
      int k < take_along (logcnt r) q ! l" if p: "p < P" for p
    using one [OF p] len(1) by auto
  ultimately show ?thesis
    using assms(1) len by (auto simp: placed_def inj_on_def)
qed

text \<open>The experts of one node after those of others.\<close>

lemma placed_append:
  assumes "placed L P P r" "placed L' P' P' r'"
  shows "placed (L + L') (P + P') (P + P')
    \<lparr>phy2log = phy2log r @ map (\<lambda>l. l + int L) (phy2log r'), rank = rank r @ rank r', logcnt = logcnt r @ logcnt r'\<rparr>"
proof -
  let ?p2l = "phy2log r @ map (\<lambda>l. l + int L) (phy2log r')" and ?rk = "rank r @ rank r'"
  have len: "length (phy2log r) = P" "length (rank r) = P" "length (logcnt r) = L"
    "length (phy2log r') = P'" "length (rank r') = P'" "length (logcnt r') = L'" using assms by (simp_all add: placed_def)
  have at: "\<forall>p < P. \<exists>l < L. \<exists>k. phy2log r ! p = int l \<and> rank r ! p = int k \<and> int k < logcnt r ! l"
    "\<forall>p < P'. \<exists>l < L'. \<exists>k. phy2log r' ! p = int l \<and> rank r' ! p = int k \<and> int k < logcnt r' ! l"
    using assms by (simp_all add: placed_def)
  have lo: "?p2l ! p = phy2log r ! p \<and> ?rk ! p = rank r ! p \<and> phy2log r ! p < int L" if "p < P" for p
    using that len at(1) by (fastforce simp: nth_append)
  have hi: "?p2l ! p = phy2log r' ! (p - P) + int L \<and> ?rk ! p = rank r' ! (p - P) \<and> 0 \<le> phy2log r' ! (p - P)"
    if "\<not> p < P" "p < P + P'" for p
  proof -
    have "p - P < P'" using that by simp
    then have "0 \<le> phy2log r' ! (p - P)" using at(2) by fastforce
    then show ?thesis using that len by (simp add: nth_append)
  qed
  have one: "\<exists>l < L + L'. \<exists>k. ?p2l ! p = int l \<and> ?rk ! p = int k \<and> int k < (logcnt r @ logcnt r') ! l" if p: "p < P + P'" for p
  proof (cases "p < P")
    case True
    then obtain l k where "l < L" "phy2log r ! p = int l" "rank r ! p = int k" "int k < logcnt r ! l" using at(1) by blast
    then show ?thesis using lo [OF True] len by (intro exI [of _ l] conjI exI [of _ k]) (simp_all add: nth_append)
  next
    case False
    have "p - P < P'" using p False by simp
    then obtain l k where "l < L'" "phy2log r' ! (p - P) = int l" "rank r' ! (p - P) = int k" "int k < logcnt r' ! l"
      using at(2) by blast
    then show ?thesis using hi [OF False p] len by (intro exI [of _ "L + l"] conjI exI [of _ k]) (simp_all add: nth_append)
  qed
  have "p = q" if pq: "p < P + P'" "q < P + P'" "?p2l ! p = ?p2l ! q" "?rk ! p = ?rk ! q" for p q
  proof (cases "p < P"; cases "q < P")
    assume "p < P" "q < P"
    then show ?thesis using lo pq(3,4) assms(1) by (auto simp: placed_def dest!: inj_onD)
  next
    assume "p < P" "\<not> q < P"
    then show ?thesis using lo [of p] hi [of q] pq by simp
  next
    assume "\<not> p < P" "q < P"
    then show ?thesis using lo [of q] hi [of p] pq by simp
  next
    assume n: "\<not> p < P" "\<not> q < P"
    then have "(phy2log r' ! (p - P), rank r' ! (p - P)) = (phy2log r' ! (q - P), rank r' ! (q - P))"
      using hi [of p] hi [of q] pq by simp
    moreover have "inj_on (\<lambda>p. (phy2log r' ! p, rank r' ! p)) {..<P'}" using assms(2) by (simp add: placed_def)
    ultimately have "p - P = q - P" using n pq(1,2) by (auto dest!: inj_onD)
    then show ?thesis using n by simp
  qed
  then have "inj_on (\<lambda>p. (?p2l ! p, ?rk ! p)) {..<P + P'}" by (auto simp: inj_on_def)
  moreover have "\<forall>l < L + L'. 1 \<le> (logcnt r @ logcnt r') ! l" using assms len by (auto simp: placed_def nth_append)
  ultimately show ?thesis using one assms len by (simp add: placed_def)
qed

subsection \<open>The hierarchical policy\<close>

lemma place_on_node_placed:
  assumes "argsort_ok A" "0 < length w" "length w \<le> P" "0 < d" "P mod d = 0" "e = P div d"
  shows "\<exists>r. place_on_node A P d e w = Inr r \<and> placed (length w) P P r"
proof -
  obtain r where r: "replicate_experts w P = Inr r" "placed (length w) P P r" using replicate_placed [OF assms(2,3)] by blast
  let ?t = "take_along (map2 (\<lambda>w c. w / of_int c) w (logcnt r)) (phy2log r)"
  have l: "length ?t = P" using r(2) by (simp add: placed_def)
  obtain pk rk where b: "balanced_packing A ?t d = Inr (pk, rk)" "is_perm P (places e pk rk)"
    using balanced_packing_perm [OF assms(1,4), of ?t] l assms(5,6) by auto
  have "place_on_node A P d e w =
    Inr \<lparr>phy2log = take_along (phy2log r) (inverse_perm (places e pk rk)),
         rank = take_along (rank r) (inverse_perm (places e pk rk)), logcnt = logcnt r\<rparr>"
    by (simp add: place_on_node_def r(1) Let_def b(1) places_def)
  then show ?thesis using placed_permute [OF r(2) inverse_perm(1) [OF b(2)]] by simp
qed

text \<open>The nodes side by side.\<close>

definition join_nodes :: "nat \<Rightarrow> nat list \<Rightarrow> replicas list \<Rightarrow> replicas" where
  "join_nodes width ks rs =
     \<lparr>phy2log = concat (map2 (\<lambda>k r. map (\<lambda>l. l + int (k * width)) (phy2log r)) ks rs),
      rank = concat (map rank rs), logcnt = concat (map logcnt rs)\<rparr>"

lemma join_placed:
  "list_all (placed W P P) rs \<Longrightarrow>
   placed (length rs * W) (length rs * P) (length rs * P) (join_nodes W [0..<length rs] rs)"
proof (induction rs rule: rev_induct)
  case Nil
  then show ?case by (simp add: placed_def join_nodes_def)
next
  case (snoc r rs)
  have "placed (length rs * W) (length rs * P) (length rs * P) (join_nodes W [0..<length rs] rs)" "placed W P P r"
    using snoc by simp_all
  from placed_append [OF this] show ?case by (simp add: join_nodes_def add.commute)
qed

lemma place_on_nodes_placed:
  assumes "argsort_ok A" "0 < W" "W \<le> P" "0 < d" "P mod d = 0" "e = P div d"
    "\<forall>k \<in> set ks. length (row_of W k tokens) = W"
  shows "\<exists>rs. place_on_nodes A P d e W tokens ks = Inr rs \<and> length rs = length ks \<and> list_all (placed W P P) rs"
  using assms(7)
proof (induction ks)
  case Nil
  then show ?case by simp
next
  case (Cons k ks)
  have l: "length (row_of W k tokens) = W" using Cons.prems by simp
  obtain r where "place_on_node A P d e (row_of W k tokens) = Inr r" "placed W P P r"
    using place_on_node_placed [OF assms(1), of "row_of W k tokens" P d e] l assms(2-6) by auto
  moreover obtain rs where "place_on_nodes A P d e W tokens ks = Inr rs" "length rs = length ks" "list_all (placed W P P) rs"
    using Cons by auto
  ultimately show ?case by simp
qed

lemma group_order_perm:
  assumes "is_perm n (places g pk rk)"
  shows "is_perm (n * s) (group_order g s pk rk)"
proof -
  let ?xs = "places g pk rk"
  have eq: "group_order g s pk rk = concat (map (\<lambda>x. map (\<lambda>j. x * int s + int j) [0..<s]) ?xs)"
    by (simp add: group_order_def places_def comp_def case_prod_unfold)
  have len: "length (group_order g s pk rk) = n * s"
    unfolding eq using assms by (simp add: is_perm_def length_concat comp_def sum_list_triv)
  have "set (group_order g s pk rk) = (\<lambda>(k, j). int (k * s + j)) ` ({..<n} \<times> {..<s})"
    unfolding eq using assms by (auto simp: is_perm_def image_iff)
  also have "\<dots> = int ` {..<n * s}"
  proof (intro set_eqI iffI)
    fix y assume "y \<in> int ` {..<n * s}"
    then obtain x where x: "y = int x" "x < n * s" by auto
    then have "0 < s" by (cases s) simp_all
    then have "x div s < n" "x mod s < s" "x = x div s * s + x mod s" using x(2) by (simp_all add: less_mult_imp_div_less)
    then show "y \<in> (\<lambda>(k, j). int (k * s + j)) ` ({..<n} \<times> {..<s})"
      unfolding x(1) by (intro image_eqI [of _ _ "(x div s, x mod s)"]) (simp_all del: of_nat_add of_nat_mult)
  qed (auto simp: place_lt simp del: of_nat_add of_nat_mult)
  finally show ?thesis using len by (simp add: is_perm_def)
qed

lemma row_length: "Suc k * W \<le> length xs \<Longrightarrow> length (row_of W k xs) = W"
  by (simp add: row_of_def)

lemma hierarchical_placed:
  assumes "argsort_ok A" "0 < length w" "length w \<le> P" "0 < G" "0 < N" "0 < D"
    "length w mod G = 0" "G mod N = 0" "D mod N = 0" "P mod D = 0"
  shows "\<exists>r. rebalance_experts_hierarchical A w P G N D = Inr r \<and> placed (length w) P P r"
proof -
  let ?L = "length w" and ?tokens = "map (\<lambda>g. sum_list (row_of (length w div G) g w)) [0..<G]"
  obtain pk rk where b: "balanced_packing A ?tokens N = Inr (pk, rk)" "is_perm G (places (G div N) pk rk)"
    using balanced_packing_perm [OF assms(1,5), of ?tokens] assms(8) by auto
  define q where "q = group_order (G div N) (?L div G) pk rk"
  have q: "is_perm ?L q" using group_order_perm [OF b(2), of "?L div G"] assms(7) by (auto simp: q_def)
  obtain d where d: "D = N * d" using assms(9) by auto
  obtain e where e: "P = D * e" using assms(10) by auto
  obtain g where g: "G = N * g" using assms(8) by auto
  obtain s where s: "?L = G * s" using assms(7) by auto
  have pos: "0 < d" "0 < e" "0 < g * s" using assms(2-6) d e g s by (auto intro: Nat.gr0I)
  have W: "?L div N = g * s" "?L = N * (g * s)" using g s assms(5) by (simp_all add: mult.assoc)
  have Pn: "P div N = d * e" "P = N * (d * e)" using d e assms(5) by (simp_all add: mult.assoc)
  have le: "g * s \<le> d * e" using assms(3,5) W(2) Pn(2) by simp
  have de: "D div N = d" "P div D = e" using d e assms(5,6) by simp_all
  let ?tk = "take_along w (inverse_perm q)"
  have "length ?tk = N * (g * s)" using inverse_perm(1) [OF q] W(2) by (simp add: is_perm_def)
  then have rows: "\<forall>k \<in> set [0..<N]. length (row_of (g * s) k ?tk) = g * s"
    by (auto intro!: row_length mult_le_mono1 simp del: mult_Suc)
  obtain rs where rs: "place_on_nodes A (d * e) d e (g * s) ?tk [0..<N] = Inr rs" "length rs = N"
      "list_all (placed (g * s) (d * e) (d * e)) rs"
    using place_on_nodes_placed [OF assms(1) pos(3) le pos(1) _ _ rows, of e] pos(1) by auto
  have j: "placed ?L P P (join_nodes (g * s) [0..<N] rs)"
    using join_placed [OF rs(3)] rs(2) W(2) Pn(2) by simp
  have "rebalance_experts_hierarchical A w P G N D =
    Inr \<lparr>phy2log = take_along (inverse_perm q) (phy2log (join_nodes (g * s) [0..<N] rs)),
         rank = rank (join_nodes (g * s) [0..<N] rs), logcnt = take_along (logcnt (join_nodes (g * s) [0..<N] rs)) q\<rparr>"
    using assms(4-10) b(1) rs(1) by (simp add: rebalance_experts_hierarchical_def Let_def q_def W(1) Pn(1) de join_nodes_def)
  then show ?thesis using placed_renumber [OF j q] by simp
qed

subsection \<open>The tables\<close>

text \<open>Filling a table at different places.\<close>

lemma scatter:
  assumes "inj_on f {..<m}" "\<forall>p < m. f p < n"
  shows "length (fold (\<lambda>p t. t[f p := int p]) [0..<m] (replicate n (- 1))) = n \<and>
    (\<forall>p < m. fold (\<lambda>p t. t[f p := int p]) [0..<m] (replicate n (- 1)) ! f p = int p) \<and>
    (\<forall>x < n. (\<forall>p < m. f p \<noteq> x) \<longrightarrow> fold (\<lambda>p t. t[f p := int p]) [0..<m] (replicate n (- 1)) ! x = - 1)"
  using assms
proof (induction m)
  case 0
  then show ?case by simp
next
  case (Suc m)
  let ?t = "fold (\<lambda>p t. t[f p := int p]) [0..<m] (replicate n (- 1))"
  have "inj_on f {..<m}" using Suc.prems(1) by (rule inj_on_subset) auto
  then have IH: "length ?t = n" "\<forall>p < m. ?t ! f p = int p" "\<forall>x < n. (\<forall>p < m. f p \<noteq> x) \<longrightarrow> ?t ! x = - 1"
    using Suc by auto
  have "f m \<noteq> f p" if "p < m" for p using inj_onD [OF Suc.prems(1), of m p] that by auto
  then show ?case using IH Suc.prems(2) by (auto simp: less_Suc_eq)
qed

text \<open>
  The tables of a layer: the row of an expert lists exactly its replicas, at least one and as many as are counted,
  and is filled up with \<open>-1\<close>.
\<close>

definition tables_ok :: "nat \<Rightarrow> nat \<Rightarrow> int list \<times> int list list \<times> int list \<Rightarrow> bool" where
  "tables_ok L P = (\<lambda>(p2l, l2p, cnt).
     length p2l = P \<and> length l2p = L \<and> length cnt = L \<and> (\<forall>p < P. \<exists>l < L. p2l ! p = int l) \<and>
     (\<forall>l < L. \<exists>reps pad. l2p ! l = map int reps @ replicate pad (- 1) \<and> distinct reps \<and>
        set reps = {p. p < P \<and> p2l ! p = int l} \<and> int (length reps) = cnt ! l \<and> 1 \<le> cnt ! l))"

lemma row_of_nth: "k < W \<Longrightarrow> Suc l * W \<le> length xs \<Longrightarrow> row_of W l xs ! k = xs ! (l * W + k)"
  by (simp add: row_of_def)

lemma tables_of_placed:
  assumes "placed L P P r" "\<forall>c \<in> set (logcnt r). c \<le> int W"
  shows "tables_ok L P (phy2log r, map (\<lambda>l. row_of W l (log2phy_row L W r)) [0..<L], logcnt r)"
proof -
  let ?f = "\<lambda>p. nat (phy2log r ! p * int W + rank r ! p)" and ?t = "log2phy_row L W r"
  have len: "length (phy2log r) = P" "length (logcnt r) = L" using assms(1) by (simp_all add: placed_def)
  have at: "\<exists>l < L. \<exists>k. phy2log r ! p = int l \<and> rank r ! p = int k \<and> int k < logcnt r ! l \<and> k < W \<and> ?f p = l * W + k" if p: "p < P" for p
  proof -
    obtain l k where l: "l < L" "phy2log r ! p = int l" "rank r ! p = int k" "int k < logcnt r ! l"
      using assms(1) p unfolding placed_def by blast
    have "logcnt r ! l \<in> set (logcnt r)" using l(1) len(2) by simp
    then have "k < W" using assms(2) l(4) by fastforce
    moreover have "?f p = l * W + k" unfolding l(2,3) by (metis nat_int of_nat_add of_nat_mult)
    ultimately show ?thesis using l by blast
  qed
  have inj: "inj_on ?f {..<P}"
  proof (rule inj_onI)
    fix p q assume "p \<in> {..<P}" "q \<in> {..<P}" and eq: "?f p = ?f q"
    then have pq: "p < P" "q < P" by simp_all
    obtain l k where p: "phy2log r ! p = int l" "rank r ! p = int k" "k < W" "?f p = l * W + k" using at [OF pq(1)] by blast
    obtain l' k' where q: "phy2log r ! q = int l'" "rank r ! q = int k'" "k' < W" "?f q = l' * W + k'" using at [OF pq(2)] by blast
    have "l * W + k = l' * W + k'" using eq unfolding p(4) q(4) .
    from place_inj [OF p(3) q(3) this] have "(phy2log r ! p, rank r ! p) = (phy2log r ! q, rank r ! q)" using p q by simp
    moreover have "inj_on (\<lambda>p. (phy2log r ! p, rank r ! p)) {..<P}" using assms(1) by (simp add: placed_def)
    ultimately show "p = q" using pq by (auto dest!: inj_onD)
  qed
  have lt: "\<forall>p < P. ?f p < L * W" using at place_lt by metis
  have t: "length ?t = L * W" "\<forall>p < P. ?t ! ?f p = int p" "\<forall>x < L * W. (\<forall>p < P. ?f p \<noteq> x) \<longrightarrow> ?t ! x = - 1"
    using scatter [OF inj lt] by (simp_all add: log2phy_row_def len(1))
  have row: "\<exists>reps pad. row_of W l ?t = map int reps @ replicate pad (- 1) \<and> distinct reps \<and>
        set reps = {p. p < P \<and> phy2log r ! p = int l} \<and> int (length reps) = logcnt r ! l \<and> 1 \<le> logcnt r ! l" if l: "l < L" for l
  proof -
    let ?c = "nat (logcnt r ! l)"
    have "logcnt r ! l \<in> set (logcnt r)" using l len(2) by simp
    then have "logcnt r ! l \<le> int W" using assms(2) by blast
    then have c: "1 \<le> logcnt r ! l" "?c \<le> W" using assms(1) l by (simp_all add: placed_def)
    have "Suc l * W \<le> L * W" using l by (intro mult_le_mono1) simp
    then have wl: "Suc l * W \<le> length ?t" by (simp only: t(1))
    have hit: "\<exists>p < P. phy2log r ! p = int l \<and> rank r ! p = int k \<and> row_of W l ?t ! k = int p" if k: "k < ?c" for k
    proof -
      obtain p where p: "p < P" "phy2log r ! p = int l" "rank r ! p = int k"
        using placed_onto [OF assms(1) l, of "int k"] k by (auto simp: zless_nat_eq_int_zless)
      have "?f p = l * W + k" unfolding p(2,3) by (metis nat_int of_nat_add of_nat_mult)
      then have "row_of W l ?t ! k = int p" using t(2) p(1) row_of_nth [OF _ wl, of k] k c(2) by auto
      then show ?thesis using p by blast
    qed
    have miss: "row_of W l ?t ! k = - 1" if k: "\<not> k < ?c" "k < W" for k
    proof -
      have "?f p \<noteq> l * W + k" if p: "p < P" for p
      proof
        assume e: "?f p = l * W + k"
        obtain l' k' where q: "int k' < logcnt r ! l'" "k' < W" "?f p = l' * W + k'" using at [OF p] by blast
        have "l' * W + k' = l * W + k" using e unfolding q(3) .
        from place_inj [OF q(2) k(2) this] show False using q(1) k(1) by simp
      qed
      then show ?thesis using t(3) place_lt [OF l k(2)] row_of_nth [OF k(2) wl] by auto
    qed
    define reps where "reps = map (\<lambda>k. nat (row_of W l ?t ! k)) [0..<?c]"
    have rl: "length (row_of W l ?t) = W" by (rule row_length [OF wl])
    have "row_of W l ?t = map int reps @ replicate (W - ?c) (- 1)"
    proof (rule nth_equalityI)
      show "length (row_of W l ?t) = length (map int reps @ replicate (W - ?c) (- 1))" using rl c(2) by (simp add: reps_def)
      fix k assume "k < length (row_of W l ?t)"
      then show "row_of W l ?t ! k = (map int reps @ replicate (W - ?c) (- 1)) ! k"
        using hit [of k] miss [of k] rl by (cases "k < ?c") (auto simp: reps_def nth_append)
    qed
    moreover have "distinct reps"
    proof -
      have "k = k'" if kk: "k < ?c" "k' < ?c" "nat (row_of W l ?t ! k) = nat (row_of W l ?t ! k')" for k k'
        using hit [OF kk(1)] hit [OF kk(2)] kk(3) by auto
      then show ?thesis by (auto simp: reps_def distinct_map inj_on_def)
    qed
    moreover have "set reps = {p. p < P \<and> phy2log r ! p = int l}"
    proof (intro set_eqI iffI)
      fix p assume "p \<in> set reps"
      then show "p \<in> {p. p < P \<and> phy2log r ! p = int l}" using hit by (auto simp: reps_def) (metis nat_int)+
    next
      fix p assume "p \<in> {p. p < P \<and> phy2log r ! p = int l}"
      then have p: "p < P" "phy2log r ! p = int l" by simp_all
      obtain k where k: "rank r ! p = int k" "int k < logcnt r ! l" using at [OF p(1)] p(2) by auto
      have "?f p = l * W + k" unfolding p(2) k(1) by (metis nat_int of_nat_add of_nat_mult)
      then have "row_of W l ?t ! k = int p" using t(2) p(1) row_of_nth [OF _ wl, of k] k(2) c(2) by auto
      then show "p \<in> set reps" using k(2) unfolding reps_def by (auto simp: image_iff intro!: bexI [of _ k])
    qed
    moreover have "int (length reps) = logcnt r ! l" using c(1) by (simp add: reps_def)
    ultimately show ?thesis using c(1) by blast
  qed
  have "\<forall>p < P. \<exists>l < L. phy2log r ! p = int l" using at by blast
  then show ?thesis using row len by (simp add: tables_ok_def)
qed

lemma place_rows_placed:
  assumes "\<And>w. w \<in> set ws \<Longrightarrow> \<exists>r. place_row A P G N D w = Inr r \<and> placed (length w) P P r"
  shows "\<exists>rs. place_rows A P G N D ws = Inr rs \<and> list_all2 (\<lambda>w r. placed (length w) P P r) ws rs"
  using assms
proof (induction ws)
  case Nil
  then show ?case by simp
next
  case (Cons w ws)
  then show ?case by fastforce
qed

text \<open>C26: for every policy and every shape of the cluster the code accepts, balancing returns tables that are inverse to each
  other: the row of an expert lists exactly the replicas that hold it, each once, and every expert has one.\<close>

theorem expert_tables_complete:
  assumes "argsort_ok A" "ws \<noteq> []" "\<forall>w \<in> set ws. length w = L" "0 < L" "L \<le> P" "0 < N"
    "G mod N = 0 \<longrightarrow> 0 < G \<and> 0 < D \<and> L mod G = 0 \<and> D mod N = 0 \<and> P mod D = 0"
  shows "\<exists>tables. rebalance_experts A ws P G N D = Inr tables \<and> length tables = length ws \<and> list_all (tables_ok L P) tables"
proof -
  have one: "\<exists>r. place_row A P G N D w = Inr r \<and> placed (length w) P P r" if "w \<in> set ws" for w
    using that assms hierarchical_placed [of A w P G N D] replicate_placed [of w P]
    by (auto simp: place_row_def)
  obtain rs where rs: "place_rows A P G N D ws = Inr rs" "list_all2 (\<lambda>w r. placed (length w) P P r) ws rs"
    using place_rows_placed [OF one] by blast
  let ?counts = "concat (map logcnt rs)" and ?W = "nat (Max (set (concat (map logcnt rs))))"
  have len: "length rs = length ws" using rs(2) by (simp add: list_all2_lengthD)
  have pl: "placed L P P (rs ! i)" "length (ws ! i) = L" if "i < length ws" for i
    using rs(2) that assms(3) by (auto simp: list_all2_conv_all_nth)
  have ne: "?counts \<noteq> []"
  proof -
    have "logcnt (rs ! 0) \<noteq> []" using pl(1) [of 0] assms(2,4) by (auto simp: placed_def)
    moreover have "rs ! 0 \<in> set rs" using len assms(2) by simp
    ultimately show ?thesis by auto
  qed
  have W: "\<forall>c \<in> set (logcnt (rs ! i)). c \<le> int ?W" if i: "i < length ws" for i
  proof
    fix c assume "c \<in> set (logcnt (rs ! i))"
    then have "c \<in> set ?counts" using i len by auto
    then have "c \<le> Max (set ?counts)" by simp
    then show "c \<le> int ?W" by simp
  qed
  let ?tables = "map2 (\<lambda>w r. (phy2log r, map (\<lambda>l. row_of ?W l (log2phy_row (length w) ?W r)) [0..<length w], logcnt r)) ws rs"
  have "rebalance_experts A ws P G N D = Inr ?tables"
    using rs(1) ne by (simp add: rebalance_experts_def Let_def)
  moreover have "list_all (tables_ok L P) ?tables"
    using tables_of_placed [OF pl(1) W] pl(2) len by (auto simp: list_all_length)
  ultimately show ?thesis using len by auto
qed

definition stable_argsort :: argsort where
  "stable_argsort ws = map snd (sort_key fst (zip ws [0..<length ws]))"

lemma stable_argsort_ok: "argsort_ok stable_argsort"
proof -
  have "mset (stable_argsort ws) = mset [0..<length ws]" for ws
  proof -
    have "mset (stable_argsort ws) = mset (map snd (zip ws [0..<length ws]))"
      unfolding stable_argsort_def by (metis mset_map mset_sort)
    then show ?thesis by simp
  qed
  moreover have "sorted (map (\<lambda>i. ws ! i) (stable_argsort ws))" for ws
  proof -
    have "\<forall>x \<in> set (sort_key fst (zip ws [0..<length ws])). ws ! snd x = fst x" by (auto simp: in_set_zip)
    then have "map (\<lambda>i. ws ! i) (stable_argsort ws) = map fst (sort_key fst (zip ws [0..<length ws]))"
      by (simp add: stable_argsort_def)
    then show ?thesis by simp
  qed
  ultimately show ?thesis by (simp add: argsort_ok_def)
qed

theorem expert_tables_complete_witness:
  "\<exists>tables. rebalance_experts stable_argsort [[9, 1, 3, 5, 2, 2, 8, 1]] 12 4 2 4 = Inr tables \<and> length tables = 1 \<and>
     list_all (tables_ok 8 12) tables"
  using expert_tables_complete [OF stable_argsort_ok, of "[[9, 1, 3, 5, 2, 2, 8, 1]]" 8 12 2 4 4] by simp

end
