(* ===== verification/PyText.thy ===== *)
theory PyText
  imports FDPrelude
begin

text \<open>
  Text that is put together and taken apart again: the decimal numeral of a natural number, \<open>int\<close> of a numeral, and
  \<open>str.split\<close> by one character. \<open>int\<close> also reads signs, blanks and underscores, which no numeral written
  here has; they are a \<open>ValueError\<close>.
\<close>

definition digit :: "nat \<Rightarrow> char" where
  "digit d = char_of (48 + d)"

definition digit_value :: "char \<Rightarrow> nat res" where
  "digit_value c = (let v = of_char c in if 48 \<le> v \<and> v < (58 :: nat) then Inr (v - 48) else Inl ValueError)"

fun numeral_of :: "nat \<Rightarrow> string" where
  "numeral_of n = (if n < 10 then [digit n] else numeral_of (n div 10) @ [digit (n mod 10)])"

fun read_digits :: "nat \<Rightarrow> string \<Rightarrow> nat res" where
  "read_digits acc [] = Inr acc"
| "read_digits acc (c # cs) = (case digit_value c of Inl e \<Rightarrow> Inl e | Inr v \<Rightarrow> read_digits (acc * 10 + v) cs)"

definition read_numeral :: "string \<Rightarrow> nat res" where
  "read_numeral s = (if s = [] then Inl ValueError else read_digits 0 s)"

fun split_on :: "char \<Rightarrow> string \<Rightarrow> string list" where
  "split_on sep [] = [[]]"
| "split_on sep (c # cs) =
     (if c = sep then [] # split_on sep cs
      else (case split_on sep cs of [] \<Rightarrow> [[c]] | p # ps \<Rightarrow> (c # p) # ps))"

declare numeral_of.simps [simp del]

subsection \<open>Reading back what was written\<close>

lemma digit_value_digit [simp]: "d < 10 \<Longrightarrow> digit_value (digit d) = Inr d"
  by (simp add: digit_value_def digit_def)

lemma digit_range: "d < 10 \<Longrightarrow> digit d \<noteq> CHR ''#''"
proof
  assume "d < 10" "digit d = CHR ''#''"
  then have "(of_char (digit d) :: nat) = 35" by simp
  then show False using \<open>d < 10\<close> by (simp add: digit_def)
qed

lemma read_digits_append:
  "read_digits acc (xs @ ys) = (case read_digits acc xs of Inl e \<Rightarrow> Inl e | Inr v \<Rightarrow> read_digits v ys)"
  by (induction xs arbitrary: acc) (auto split: sum.split)

lemma numeral_not_empty [simp]: "numeral_of n \<noteq> []"
  by (subst numeral_of.simps) simp

lemma read_digits_numeral: "\<exists>k. \<forall>acc. read_digits acc (numeral_of n) = Inr (acc * 10 ^ k + n)"
proof (induction n rule: numeral_of.induct)
  case (1 n)
  show ?case
  proof (cases "n < 10")
    case True
    then show ?thesis by (intro exI [of _ 1]) (simp add: numeral_of.simps [of n])
  next
    case False
    then obtain k where "\<forall>acc. read_digits acc (numeral_of (n div 10)) = Inr (acc * 10 ^ k + n div 10)"
      using 1 by blast
    then have "read_digits acc (numeral_of n) = Inr (acc * 10 ^ Suc k + n)" for acc
      using False by (simp add: numeral_of.simps [of n] read_digits_append algebra_simps)
    then show ?thesis by blast
  qed
qed

lemma read_numeral_of [simp]: "read_numeral (numeral_of n) = Inr n"
proof -
  obtain k where "\<forall>acc. read_digits acc (numeral_of n) = Inr (acc * 10 ^ k + n)" using read_digits_numeral by blast
  then show ?thesis by (simp add: read_numeral_def)
qed

lemma no_hash_in_numeral: "CHR ''#'' \<notin> set (numeral_of n)"
proof (induction n rule: numeral_of.induct)
  case (1 n)
  have "digit (n mod 10) \<noteq> CHR ''#''" by (rule digit_range) simp
  then show ?case using 1 digit_range by (subst numeral_of.simps) (auto simp: eq_commute)
qed

lemma split_on_not_empty [simp]: "split_on sep xs \<noteq> []"
  by (induction xs) (auto split: list.split)

lemma split_on_none: "sep \<notin> set xs \<Longrightarrow> split_on sep xs = [xs]"
  by (induction xs) auto

lemma split_on_append: "sep \<notin> set xs \<Longrightarrow> split_on sep (xs @ sep # ys) = xs # split_on sep ys"
  by (induction xs) auto

lemma split_on_length: "length (split_on sep xs) = Suc (count_list xs sep)"
  by (induction xs) (auto split: list.split)

end
