(* ===== verification/NodeInfo.thy ===== *)
theory NodeInfo
  imports PyValue PyText
begin

text \<open>
  What the instances of a cluster tell each other about their load (class \<open>NodeInfo\<close> of
  \<open>scheduler/splitwise_scheduler.py\<close>). The information travels as JSON, seen as the dictionary it denotes;
  the clock is an argument.
\<close>

text \<open>\<open>int(v)\<close>; of texts, decimal numerals only.\<close>

fun int_of :: "pyval \<Rightarrow> int res" where
  "int_of (PyInt i) = Inr i"
| "int_of (PyBool b) = Inr (if b then 1 else 0)"
| "int_of (PyFloat q) = Inr (if 0 \<le> q then \<lfloor>q\<rfloor> else \<lceil>q\<rceil>)"
| "int_of (PyStr s) = (case read_numeral s of Inl e \<Rightarrow> Inl e | Inr n \<Rightarrow> Inr (int n))"
| "int_of _ = Inl TypeError"

record node_info =
  ni_nodeid :: string
  ni_ts :: rat
  ni_host :: pyval
  ni_disaggregated :: pyval
  ni_role :: pyval
  ni_load :: int
  ni_reqs :: "(pyval \<times> int \<times> rat) list"

definition new_node :: "string \<Rightarrow> pyval \<Rightarrow> pyval \<Rightarrow> pyval \<Rightarrow> int \<Rightarrow> rat \<Rightarrow> node_info" where
  "new_node nodeid role host disaggregated load ts =
     \<lparr>ni_nodeid = nodeid, ni_ts = ts, ni_host = host, ni_disaggregated = disaggregated, ni_role = role,
      ni_load = load, ni_reqs = []\<rparr>"

text \<open>A time stamp that is no number raises as soon as it is compared; here, when it is read.\<close>

definition load_from :: "string \<Rightarrow> pydict \<Rightarrow> node_info res" where
  "load_from nodeid health =
     (case ditem ''ts'' health of Inl e \<Rightarrow> Inl e | Inr ts \<Rightarrow>
     (case ditem ''role'' health of Inl e \<Rightarrow> Inl e | Inr role \<Rightarrow>
     (case ditem ''load'' health of Inl e \<Rightarrow> Inl e | Inr l \<Rightarrow>
     (case int_of l of Inl e \<Rightarrow> Inl e | Inr load \<Rightarrow>
     (case ditem ''host'' health of Inl e \<Rightarrow> Inl e | Inr host \<Rightarrow>
     (case ditem ''disaggregated'' health of Inl e \<Rightarrow> Inl e | Inr dis \<Rightarrow>
     (case py_num ts of None \<Rightarrow> Inl TypeError | Some t \<Rightarrow> Inr (new_node nodeid role host dis load t))))))))"

definition node_expired :: "rat \<Rightarrow> rat \<Rightarrow> node_info \<Rightarrow> bool" where
  "node_expired period now n = (now - ni_ts n > period)"

definition serialize_node :: "rat \<Rightarrow> node_info \<Rightarrow> pydict \<times> node_info" where
  "serialize_node now n =
     ([(''ts'', PyFloat now), (''role'', ni_role n), (''load'', PyInt (ni_load n)), (''host'', ni_host n),
       (''disaggregated'', ni_disaggregated n)], n\<lparr>ni_ts := now\<rparr>)"

definition node_add_req :: "pyval \<Rightarrow> int \<Rightarrow> rat \<Rightarrow> node_info \<Rightarrow> node_info" where
  "node_add_req rid load now n =
     (if map_of (ni_reqs n) rid = None
      then n\<lparr>ni_reqs := ni_reqs n @ [(rid, load, now)], ni_load := ni_load n + load\<rparr> else n)"

definition node_finish_req :: "pyval \<Rightarrow> node_info \<Rightarrow> node_info" where
  "node_finish_req rid n =
     (case map_of (ni_reqs n) rid of None \<Rightarrow> n
      | Some (load, t) \<Rightarrow> n\<lparr>ni_load := ni_load n - load, ni_reqs := AList.delete rid (ni_reqs n)\<rparr>)"

definition update_req_timestamp :: "pyval list \<Rightarrow> rat \<Rightarrow> node_info \<Rightarrow> node_info" where
  "update_req_timestamp rids now n =
     n\<lparr>ni_reqs := map (\<lambda>(rid, load, t). (rid, load, if rid \<in> set rids then now else t)) (ni_reqs n)\<rparr>"

definition expire_reqs :: "rat \<Rightarrow> rat \<Rightarrow> node_info \<Rightarrow> node_info" where
  "expire_reqs ttl now n =
     fold node_finish_req (map fst (filter (\<lambda>(rid, load, t). now - t > ttl) (ni_reqs n))) n"

subsection \<open>The load is what the recorded requests add up to\<close>

definition node_ok :: "node_info \<Rightarrow> bool" where
  "node_ok n = (distinct (map fst (ni_reqs n)) \<and> ni_load n = sum_list (map (fst \<circ> snd) (ni_reqs n)))"

lemma node_ok_new: "node_ok (new_node i r h d 0 t)"
  by (simp add: node_ok_def new_node_def)

lemma sum_delete:
  "distinct (map fst xs) \<Longrightarrow> map_of xs k = Some (l, t) \<Longrightarrow>
   sum_list (map (fst \<circ> snd) (AList.delete k xs)) = sum_list (map (fst \<circ> snd) xs) - (l :: int)"
proof (induction xs)
  case Nil
  then show ?case by simp
next
  case (Cons x xs)
  show ?case
  proof (cases "fst x = k")
    case True
    then have "AList.delete k xs = xs" using Cons.prems(1) by (intro delete_id) (use True in auto)
    then show ?thesis using True Cons.prems(2) by (cases x) simp
  next
    case False
    then show ?thesis using Cons by (cases x) auto
  qed
qed

lemma node_ok_add: "node_ok n \<Longrightarrow> node_ok (node_add_req rid load now n)"
  by (auto simp: node_ok_def node_add_req_def map_of_eq_None_iff)

lemma node_ok_finish: "node_ok n \<Longrightarrow> node_ok (node_finish_req rid n)"
  by (auto simp: node_ok_def node_finish_req_def sum_delete distinct_delete split: option.splits)

lemma node_ok_update: "node_ok n \<Longrightarrow> node_ok (update_req_timestamp rids now n)"
  by (simp add: node_ok_def update_req_timestamp_def comp_def case_prod_unfold)

lemma node_ok_expire: "node_ok n \<Longrightarrow> node_ok (expire_reqs ttl now n)"
proof -
  have "node_ok m \<Longrightarrow> node_ok (fold node_finish_req rids m)" for rids m
    by (induction rids arbitrary: m) (simp_all add: node_ok_finish)
  then show "node_ok n \<Longrightarrow> node_ok (expire_reqs ttl now n)" by (simp add: expire_reqs_def)
qed

lemma finished_not_counted: "map_of (ni_reqs (node_finish_req rid n)) rid = None"
  by (auto simp: node_finish_req_def delete_conv' split: option.split)

lemma load_after_serialize:
  "load_from (ni_nodeid n) (fst (serialize_node now n)) = Inr (snd (serialize_node now n)\<lparr>ni_reqs := []\<rparr>)"
  by (simp add: load_from_def serialize_node_def ditem_def new_node_def)

end
