(* ===== verification/ResultReader.thy ===== *)
theory ResultReader
  imports RequestData PyText
begin

text \<open>
  The thread that fetches the results of a group of requests (class \<open>ResultReader\<close> of
  \<open>scheduler/splitwise_scheduler.py\<close>). \<open>data\<close> is a deque, its left end first: results enter on the left and leave on
  the right. What the store answers to a pop is an argument; a message is seen as the dictionary it denotes.
  The first token of a request comes from the instance that prefills it, the others from the one
  that decodes, so the others may come first; they wait in \<open>out_buffer\<close>.
\<close>

record reader =
  rr_group :: string
  rr_ttl :: nat
  rr_data :: "RequestOutput list"
  rr_reqs :: "(pyval \<times> pyval) list"
  out_buffer :: "(pyval \<times> RequestOutput list) list"

definition new_reader :: "string \<Rightarrow> nat \<Rightarrow> reader" where
  "new_reader grp ttl = \<lparr>rr_group = grp, rr_ttl = ttl, rr_data = [], rr_reqs = [], out_buffer = []\<rparr>"

definition reader_add_req :: "pyval \<Rightarrow> pyval \<Rightarrow> reader \<Rightarrow> reader" where
  "reader_add_req rid arrival r =
     r\<lparr>rr_reqs := AList.update rid arrival (rr_reqs r), out_buffer := AList.update rid [] (out_buffer r)\<rparr>"

subsection \<open>Handing out results\<close>

definition is_error :: "RequestOutput \<Rightarrow> bool" where
  "is_error item = (\<not> equals_int (error_code item) 200)"

record read_acc =
  ra_outputs :: "(pyval \<times> RequestOutput list) list"
  ra_groups :: "(pyval \<times> RequestOutput list) list"
  ra_finished :: "pyval list"

definition read_item :: "RequestOutput \<Rightarrow> read_acc \<Rightarrow> read_acc res" where
  "read_item item a =
     (let rid = ro_request_id item;
          a1 = (if is_error item \<or> truthy (ro_finished item) then a\<lparr>ra_finished := rid # ra_finished a\<rparr> else a)
      in if is_error item then Inr (a1\<lparr>ra_outputs := AList.update rid [item] (ra_outputs a1)\<rparr>)
         else (case outputs item of None \<Rightarrow> Inl AttributeError
               | Some c \<Rightarrow>
                   if equals_int (send_idx c) 0 then Inr (a1\<lparr>ra_outputs := AList.update rid [item] (ra_outputs a1)\<rparr>)
                   else Inr (a1\<lparr>ra_groups := add_to_group rid [item] (ra_groups a1)\<rparr>)))"

fun read_items :: "RequestOutput list \<Rightarrow> read_acc \<Rightarrow> read_acc res" where
  "read_items [] a = Inr a"
| "read_items (item # items) a = (case read_item item a of Inl e \<Rightarrow> Inl e | Inr a1 \<Rightarrow> read_items items a1)"

text \<open>\<open>outputs\<close> takes what waits in the buffer, then the groups are put behind.\<close>

fun take_buffered ::
  "(pyval \<times> RequestOutput list) list \<Rightarrow> (pyval \<times> RequestOutput list) list \<Rightarrow>
   (pyval \<times> RequestOutput list) list \<times> (pyval \<times> RequestOutput list) list" where
  "take_buffered [] buffer = ([], buffer)"
| "take_buffered ((rid, items) # outs) buffer =
     (case map_of buffer rid of
        None \<Rightarrow> (case take_buffered outs buffer of (outs1, buffer1) \<Rightarrow> ((rid, items) # outs1, buffer1))
      | Some waiting \<Rightarrow>
          (case take_buffered outs (AList.delete rid buffer) of (outs1, buffer1) \<Rightarrow>
             ((rid, items @ waiting) # outs1, buffer1)))"

fun add_groups ::
  "(pyval \<times> RequestOutput list) list \<Rightarrow>
   (pyval \<times> RequestOutput list) list \<times> (pyval \<times> RequestOutput list) list \<Rightarrow>
   (pyval \<times> RequestOutput list) list \<times> (pyval \<times> RequestOutput list) list" where
  "add_groups [] st = st"
| "add_groups ((rid, items) # groups) (outs, buffer) =
     (if map_of buffer rid \<noteq> None then add_groups groups (outs, add_to_group rid items buffer)
      else add_groups groups (add_to_group rid items outs, buffer))"

definition read_start :: read_acc where
  "read_start = \<lparr>ra_outputs = [], ra_groups = [], ra_finished = []\<rparr>"

definition reader_read :: "reader \<Rightarrow> (reader, (pyval \<times> RequestOutput list) list) outcome" where
  "reader_read r =
     (let r1 = r\<lparr>rr_data := []\<rparr> in
      case read_items (rev (rr_data r)) read_start of Inl e \<Rightarrow> (Inl e, r1)
      | Inr a \<Rightarrow>
          (case add_groups (ra_groups a) (take_buffered (ra_outputs a) (out_buffer r1)) of (outs, buffer) \<Rightarrow>
             (Inr outs, r1\<lparr>rr_reqs := filter (\<lambda>(rid, arrival). rid \<notin> set (ra_finished a)) (rr_reqs r1),
                          out_buffer := buffer\<rparr>)))"

subsection \<open>Fetching results\<close>

text \<open>\<open>fmt\<close> is \<open>str\<close> on values that are not text.\<close>

definition text_of :: "(pyval \<Rightarrow> string) \<Rightarrow> pyval \<Rightarrow> string" where
  "text_of fmt v = (case v of PyStr s \<Rightarrow> s | _ \<Rightarrow> fmt v)"

definition expired_result :: "(pyval \<Rightarrow> string) \<Rightarrow> nat \<Rightarrow> pyval \<Rightarrow> pyval \<Rightarrow> RequestOutput" where
  "expired_result fmt ttl rid arrival =
     new_RequestOutput rid (PyStr []) (PyList [])
       (Some \<lparr>co_index = PyInt (- 1), send_idx = PyInt (- 1), token_ids = PyList [], logprob = PyNone,
              top_logprobs = PyNone, co_logprobs = PyNone, draft_token_ids = PyNone, co_text = PyNone,
              reasoning_content = PyNone, tool_calls = PyNone\<rparr>)
       (PyBool False)
       (Some \<lparr>rm_arrival_time = arrival, rm_inference_start_time = PyNone, first_token_time = PyNone,
              time_in_queue = PyNone, preprocess_cost_time = PyNone, model_forward_time = PyNone,
              model_execute_time = PyNone, request_start_time = PyNone\<rparr>)
       (PyInt 0) (PyInt 500)
       (PyStr (''Req('' @ text_of fmt rid @ '') is expired('' @ numeral_of ttl @ '')''))"

text \<open>One pass over the requests: the expired ones get a result, the others are asked for.\<close>

fun expire_loop ::
  "(pyval \<Rightarrow> string) \<Rightarrow> nat \<Rightarrow> rat \<Rightarrow> (pyval \<times> pyval) list \<Rightarrow> pyval list \<Rightarrow> pyval list \<Rightarrow> RequestOutput list \<Rightarrow>
   (RequestOutput list, pyval list \<times> pyval list) outcome" where
  "expire_loop fmt ttl now [] keys gone ds = (Inr (keys, gone), ds)"
| "expire_loop fmt ttl now ((rid, arrival) # reqs) keys gone ds =
     (case py_num arrival of None \<Rightarrow> (Inl TypeError, ds)
      | Some t \<Rightarrow>
          if now - t > of_nat ttl
          then expire_loop fmt ttl now reqs keys (rid # gone) (expired_result fmt ttl rid arrival # ds)
          else expire_loop fmt ttl now reqs (keys @ [rid]) gone ds)"

fun receive :: "pydict list \<Rightarrow> RequestOutput list \<Rightarrow> RequestOutput list" where
  "receive [] ds = ds"
| "receive (m # ms) ds = (case output_from_dict m of Inl e \<Rightarrow> receive ms ds | Inr item \<Rightarrow> receive ms (item # ds))"

fun sync_results :: "(pyval \<Rightarrow> pydict list option) \<Rightarrow> pyval list \<Rightarrow> reader \<Rightarrow> nat \<times> reader" where
  "sync_results rpop [] r = (0, r)"
| "sync_results rpop (key # keys) r =
     (case rpop key of
        None \<Rightarrow> sync_results rpop keys r
      | Some results \<Rightarrow>
          (case sync_results rpop keys (r\<lparr>rr_data := receive results (rr_data r)\<rparr>) of (got, r1) \<Rightarrow>
             (length results + got, r1)))"

definition reader_step :: "(pyval \<Rightarrow> string) \<Rightarrow> rat \<Rightarrow> (pyval \<Rightarrow> pydict list option) \<Rightarrow> reader \<Rightarrow> reader" where
  "reader_step fmt now rpop r =
     (case expire_loop fmt (rr_ttl r) now (rr_reqs r) [] [] (rr_data r) of
        (Inl e, ds) \<Rightarrow> r\<lparr>rr_data := ds\<rparr>
      | (Inr (keys, gone), ds) \<Rightarrow>
          let r1 = r\<lparr>rr_data := ds, rr_reqs := filter (\<lambda>(rid, arrival). rid \<notin> set gone) (rr_reqs r)\<rparr> in
          if keys = [] then r1
          else snd (sync_results rpop (if rr_group r1 \<noteq> [] then [PyStr (rr_group r1)] else keys) r1))"

end
