(* ===== verification/ApiScheduler.thy ===== *)
theory ApiScheduler
  imports NodeInfo ResultReader
begin

text \<open>
  The front end's half of the scheduler for a cluster (class \<open>APIScheduler\<close> of \<open>scheduler/splitwise_scheduler.py\<close>): it
  gives each request to an instance that prefills and one that decodes, or to one that does both. What the shared
  store holds is an argument, what is sent to it a result: \<open>(key, message)\<close> in the order of the \<open>lpush\<close> calls.
  \<open>choice\<close> is \<open>random.choice\<close>. Passes of the threads' loops are functions; the \<open>continue\<close> after an exception is the
  end of the pass.
\<close>

type_synonym choice = "node_info list \<Rightarrow> node_info"

subsection \<open>Choosing an instance\<close>

fun blur_loop :: "int \<Rightarrow> nat \<Rightarrow> nat \<Rightarrow> node_info list \<Rightarrow> nat" where
  "blur_loop blur_max idx blur_idx [] = blur_idx"
| "blur_loop blur_max idx blur_idx (n # ns) =
     (if ni_load n \<ge> blur_max then blur_idx else blur_loop blur_max (Suc idx) idx ns)"

definition select_node :: "choice \<Rightarrow> node_info list \<Rightarrow> int \<Rightarrow> node_info res" where
  "select_node choice nodes blur_step =
     (case nodes of [] \<Rightarrow> Inl IndexError
      | least # _ \<Rightarrow> Inr (choice (take (blur_loop (ni_load least + blur_step) 0 0 nodes + 1) nodes)))"

text \<open>The length of a prompt is an integer; where \<open>div\<close> and \<open>int(size / rate)\<close> differ, below 0, the bounds apply.\<close>

definition select_pd :: "choice \<Rightarrow> pyval \<Rightarrow> node_info list \<Rightarrow> string \<Rightarrow> node_info res" where
  "select_pd choice prompt_len nodes role =
     (if role = ''prefill'' \<or> role = ''mixed'' then
        (case prompt_len of
           PyInt n \<Rightarrow>
             let rate = (if n < 1000 then 2 else 10) in
             select_node choice nodes (max 100 (min 500 (n div rate)))
         | _ \<Rightarrow> Inl TypeError)
      else if role = ''decode'' then select_node choice nodes (int (min (length nodes) 10))
      else Inl PyException)"

subsection \<open>The cluster\<close>

type_synonym cluster = "(string \<times> pydict) list"

fun sync_cluster ::
  "rat \<Rightarrow> rat \<Rightarrow> cluster \<Rightarrow> (node_info list \<times> node_info list \<times> node_info list) res" where
  "sync_cluster expire_period now [] = Inr ([], [], [])"
| "sync_cluster expire_period now ((nodeid, info) # rest) =
     (case load_from nodeid info of Inl e \<Rightarrow> Inl e
      | Inr node \<Rightarrow>
          (case sync_cluster expire_period now rest of Inl e \<Rightarrow> Inl e
           | Inr (ps, ds, ms) \<Rightarrow> Inr
               (if node_expired expire_period now node then (ps, ds, ms)
                else if ni_role node = PyStr ''prefill'' then (node # ps, ds, ms)
                else if ni_role node = PyStr ''decode'' then (ps, node # ds, ms)
                else if ni_role node = PyStr ''mixed'' then (ps, ds, node # ms)
                else (ps, ds, ms))))"

text \<open>What one pass removes from the cluster.\<close>

fun clear_expired_nodes :: "rat \<Rightarrow> rat \<Rightarrow> cluster \<Rightarrow> string list res" where
  "clear_expired_nodes period now [] = Inr []"
| "clear_expired_nodes period now ((nodeid, info) # rest) =
     (case load_from nodeid info of Inl e \<Rightarrow> Inl e
      | Inr node \<Rightarrow>
          (case clear_expired_nodes period now rest of Inl e \<Rightarrow> Inl e
           | Inr xs \<Rightarrow> Inr (if node_expired period now node then nodeid # xs else xs)))"

subsection \<open>Sending a request\<close>

text \<open>How the cache is transferred; of the values \<open>len\<close>, \<open>in\<close> and \<open>[0]\<close> apply to, lists and texts.\<close>

definition transfer_protocol :: "bool \<Rightarrow> pyval \<Rightarrow> pyval res" where
  "transfer_protocol same_host p =
     (case p of
        PyList xs \<Rightarrow>
          if length xs > 1 \<and> PyStr ''ipc'' \<in> set xs \<and> PyStr ''rdma'' \<in> set xs
          then Inr (PyStr (if same_host then ''ipc'' else ''rdma''))
          else (case xs of [] \<Rightarrow> Inl IndexError | x # _ \<Rightarrow> Inr x)
      | PyStr s \<Rightarrow>
          if length s > 1 \<and> sublist ''ipc'' s \<and> sublist ''rdma'' s
          then Inr (PyStr (if same_host then ''ipc'' else ''rdma''))
          else (case s of [] \<Rightarrow> Inl IndexError | c # _ \<Rightarrow> Inr (PyStr [c]))
      | _ \<Rightarrow> Inl TypeError)"

definition disaggregate_info :: "node_info \<Rightarrow> node_info \<Rightarrow> pyval res" where
  "disaggregate_info pnode dnode =
     (case ni_disaggregated dnode of
        PyDict m \<Rightarrow>
          (case ditem ''transfer_protocol'' m of Inl e \<Rightarrow> Inl e
           | Inr p \<Rightarrow>
               (case transfer_protocol (ni_host pnode = ni_host dnode) p of Inl e \<Rightarrow> Inl e
                | Inr t \<Rightarrow> Inr (PyDict (AList.update ''transfer_protocol'' t m))))
      | _ \<Rightarrow> Inl TypeError)"

definition queue_key :: "node_info \<Rightarrow> string" where
  "queue_key n = ''ReqQ_'' @ ni_nodeid n"

definition request_message :: "RequestData \<Rightarrow> string \<Rightarrow> pydict" where
  "request_message req grp = AList.update ''group'' (PyStr grp) (request_to_dict req)"

definition schedule_request ::
  "choice \<Rightarrow> RequestData \<Rightarrow> node_info list \<Rightarrow> node_info list \<Rightarrow> node_info list \<Rightarrow> string \<Rightarrow> (string \<times> pydict) list res" where
  "schedule_request choice req pnodes dnodes mnodes grp =
     (case select_pd choice (rd_prompt_token_ids_len req) (sort_key ni_load (pnodes @ mnodes)) ''prefill'' of
        Inl e \<Rightarrow> Inl e
      | Inr pnode \<Rightarrow>
          if ni_role pnode = PyStr ''mixed''
          then Inr [(queue_key pnode, request_message (req\<lparr>rd_disaggregate_info := PyNone\<rparr>) grp)]
          else
            (case select_pd choice (rd_prompt_token_ids_len req) (sort_key ni_load dnodes) ''decode'' of
               Inl e \<Rightarrow> Inl e
             | Inr dnode \<Rightarrow>
                 (case disaggregate_info pnode dnode of Inl e \<Rightarrow> Inl e
                  | Inr info \<Rightarrow>
                      let m = request_message (req\<lparr>rd_disaggregate_info := info\<rparr>) grp
                      in Inr [(queue_key dnode, m), (queue_key pnode, m)])))"

subsection \<open>The scheduler\<close>

text \<open>\<open>reqs_queue\<close> is a deque, its left end first: requests enter on the left.\<close>

record api_sched =
  api_expire_period :: rat
  api_queue :: "RequestData list"
  api_readers :: "reader list"
  api_reader_idx :: nat

definition new_api :: "rat \<Rightarrow> string \<Rightarrow> nat \<Rightarrow> nat \<Rightarrow> api_sched" where
  "new_api expire_period nodeid reader_parallel ttl =
     \<lparr>api_expire_period = expire_period, api_queue = [],
      api_readers = map (\<lambda>i. new_reader (nodeid @ ''-'' @ numeral_of i) ttl) [0..<reader_parallel], api_reader_idx = 0\<rparr>"

definition api_put_requests :: "RequestData list \<Rightarrow> api_sched \<Rightarrow> (pyval \<times> string option) list \<times> api_sched" where
  "api_put_requests reqs s =
     (map (\<lambda>r. (rd_request_id r, None)) reqs, s\<lparr>api_queue := rev reqs @ api_queue s\<rparr>)"

text \<open>A pass of \<open>loop_schedule\<close>: what is sent, and what became of the request it took, if it took one.\<close>

definition loop_schedule ::
  "choice \<Rightarrow> rat \<Rightarrow> cluster \<Rightarrow> api_sched \<Rightarrow> (RequestData \<times> (string \<times> pydict) list res) option \<times> api_sched" where
  "loop_schedule choice now clusters s =
     (if api_queue s = [] then (None, s)
      else
        (case sync_cluster (api_expire_period s) now clusters of
           Inl e \<Rightarrow> (None, s)
         | Inr (pnodes, dnodes, mnodes) \<Rightarrow>
             if mnodes = [] \<and> (pnodes = [] \<or> dnodes = []) then (None, s)
             else
               let req = last (api_queue s); s1 = s\<lparr>api_queue := butlast (api_queue s)\<rparr>; i = api_reader_idx s1 in
               if i \<ge> length (api_readers s1) then (Some (req, Inl IndexError), s1)
               else
                 let r = reader_add_req (rd_request_id req) (rd_arrival_time req) (api_readers s1 ! i);
                     s2 = s1\<lparr>api_readers := (api_readers s1)[i := r],
                             api_reader_idx := Suc i mod length (api_readers s1)\<rparr>
                 in (Some (req, schedule_request choice req pnodes dnodes mnodes (rr_group r)), s2)))"

fun read_all :: "reader list \<Rightarrow> (reader list, (pyval \<times> RequestOutput list) list) outcome" where
  "read_all [] = (Inr [], [])"
| "read_all (r # rs) =
     (case reader_read r of (Inl e, r1) \<Rightarrow> (Inl e, r1 # rs)
      | (Inr outs, r1) \<Rightarrow> (case read_all rs of (Inl e, rs1) \<Rightarrow> (Inl e, r1 # rs1) | (Inr outs1, rs1) \<Rightarrow> (Inr (outs @ outs1), r1 # rs1)))"

text \<open>\<open>dict.update\<close> with the results of one reader after the other.\<close>

definition api_get_results :: "api_sched \<Rightarrow> (api_sched, (pyval \<times> RequestOutput list) list) outcome" where
  "api_get_results s =
     (case read_all (api_readers s) of
        (Inl e, rs) \<Rightarrow> (Inl e, s\<lparr>api_readers := rs\<rparr>)
      | (Inr outs, rs) \<Rightarrow> (Inr (AList.updates (map fst outs) (map snd outs) []), s\<lparr>api_readers := rs\<rparr>))"

end
