(* ===== verification/ApiSchedulerProps.thy ===== *)
theory ApiSchedulerProps
  imports ApiScheduler FifoFront
begin

text \<open>
  Where requests go: to instances that are alive, play the right role and carry close to the least load, in the order in
  which they came; and a request that is lost.
\<close>

definition choice_ok :: "choice \<Rightarrow> bool" where
  "choice_ok choice = (\<forall>ns. ns \<noteq> [] \<longrightarrow> choice ns \<in> set ns)"

subsection \<open>Choosing an instance\<close>

lemma blur_loop_takeWhile:
  "blur_loop m idx b ns =
     (let k = length (takeWhile (\<lambda>n. ni_load n < m) ns) in if k = 0 then b else idx + k - 1)"
  by (induction m idx b ns rule: blur_loop.induct) (auto simp: Let_def)

lemma select_node_near:
  assumes "choice_ok choice" "sorted (map ni_load nodes)" "0 < step" "select_node choice nodes step = Inr n"
  shows "n \<in> set nodes \<and> (\<forall>n' \<in> set nodes. ni_load n < ni_load n' + step)"
proof -
  obtain l ns where nodes: "nodes = l # ns" using assms(4) by (cases nodes) (auto simp: select_node_def)
  let ?near = "takeWhile (\<lambda>n. ni_load n < ni_load l + step) nodes"
  have ne: "?near \<noteq> []" using nodes assms(3) by simp
  have "take (blur_loop (ni_load l + step) 0 0 nodes + 1) nodes = take (length ?near) nodes"
    using ne by (simp add: blur_loop_takeWhile Let_def)
  also have "\<dots> = ?near" by (metis takeWhile_eq_take)
  finally have "n = choice ?near" using assms(4) nodes by (simp add: select_node_def)
  then have n: "n \<in> set ?near" using assms(1) ne by (simp add: choice_ok_def)
  moreover have "ni_load l \<le> ni_load n'" if "n' \<in> set nodes" for n' using assms(2) nodes that by auto
  ultimately show ?thesis using set_takeWhileD [OF n] by force
qed

lemma select_pd_near:
  assumes "choice_ok choice" "select_pd choice len (sort_key ni_load nodes) role = Inr n"
  shows "n \<in> set nodes \<and>
    (\<forall>n' \<in> set nodes. ni_load n < ni_load n' + (if role = ''decode'' then int (min (length nodes) 10) else 500))"
proof (cases "role = ''decode''")
  case True
  then have s: "select_node choice (sort_key ni_load nodes) (int (min (length nodes) 10)) = Inr n"
    using assms(2) by (simp add: select_pd_def)
  then have "nodes \<noteq> []" by (auto simp: select_node_def)
  then show ?thesis using select_node_near [OF assms(1) _ _ s] True by simp
next
  case False
  then obtain step where s: "select_node choice (sort_key ni_load nodes) step = Inr n" "0 < step" "step \<le> 500"
    using assms(2) by (auto simp: select_pd_def Let_def split: pyval.splits if_splits)
  then show ?thesis using select_node_near [OF assms(1) _ s(2,1)] False by fastforce
qed

subsection \<open>The cluster\<close>

definition alive :: "rat \<Rightarrow> rat \<Rightarrow> cluster \<Rightarrow> string \<Rightarrow> node_info set" where
  "alive period now clusters role =
     {n. \<exists>(i, info) \<in> set clusters. load_from i info = Inr n \<and> \<not> node_expired period now n \<and> ni_role n = PyStr role}"

lemma sync_cluster_live:
  "sync_cluster period now clusters = Inr (ps, ds, ms) \<Longrightarrow>
   set ps = alive period now clusters ''prefill'' \<and> set ds = alive period now clusters ''decode'' \<and>
   set ms = alive period now clusters ''mixed''"
proof (induction clusters arbitrary: ps ds ms)
  case Nil
  then show ?case by (simp add: alive_def)
next
  case (Cons c clusters)
  obtain i info where c: "c = (i, info)" by fastforce
  obtain n ps1 ds1 ms1 where n: "load_from i info = Inr n" and
    s: "sync_cluster period now clusters = Inr (ps1, ds1, ms1)"
    using Cons.prems c by (auto split: sum.splits)
  have "alive period now (c # clusters) role =
    (if \<not> node_expired period now n \<and> ni_role n = PyStr role then insert n (alive period now clusters role)
     else alive period now clusters role)" for role
    using n c by (auto simp: alive_def)
  then show ?case using Cons.IH [OF s] Cons.prems c n s by (auto split: if_splits)
qed

subsection \<open>Scheduling\<close>

lemma schedule_request_near:
  assumes "choice_ok choice" "schedule_request choice req ps ds ms grp = Inr sent"
  shows "\<exists>p \<in> set (ps @ ms). (\<forall>n \<in> set (ps @ ms). ni_load p < ni_load n + 500) \<and>
    (if ni_role p = PyStr ''mixed'' then map fst sent = [queue_key p]
     else \<exists>d \<in> set ds. (\<forall>n \<in> set ds. ni_load d < ni_load n + int (min (length ds) 10)) \<and>
       map fst sent = [queue_key d, queue_key p])"
proof -
  obtain p where p: "select_pd choice (rd_prompt_token_ids_len req) (sort_key ni_load (ps @ ms)) ''prefill'' = Inr p"
    using assms(2) by (auto simp: schedule_request_def split: sum.splits)
  have near: "p \<in> set (ps @ ms)" "\<forall>n \<in> set (ps @ ms). ni_load p < ni_load n + 500"
    using select_pd_near [OF assms(1) p] by simp_all
  show ?thesis
  proof (cases "ni_role p = PyStr ''mixed''")
    case True
    then have "map fst sent = [queue_key p]" using assms(2) p by (auto simp: schedule_request_def)
    then show ?thesis using near True by (intro bexI [of _ p]) simp_all
  next
    case False
    then obtain d where d: "select_pd choice (rd_prompt_token_ids_len req) (sort_key ni_load ds) ''decode'' = Inr d"
      "map fst sent = [queue_key d, queue_key p]"
      using assms(2) p by (auto simp: schedule_request_def Let_def split: sum.splits)
    show ?thesis
      using near False d(2) select_pd_near [OF assms(1) d(1)] by (intro bexI [of _ p]) auto
  qed
qed

text \<open>C21: a request that a pass of the scheduler sends off goes to an instance that is alive and prefills, or does both, with less
  than 500 tokens more than the least loaded, and in the first case also to a live instance that decodes, with less than 10
  requests more than the least loaded.\<close>

theorem scheduled_near_least_load:
  assumes "choice_ok choice" "loop_schedule choice now clusters s = (Some (req, Inr sent), s')"
  shows "\<exists>p \<in> alive (api_expire_period s) now clusters ''prefill'' \<union> alive (api_expire_period s) now clusters ''mixed''.
    (\<forall>n \<in> alive (api_expire_period s) now clusters ''prefill'' \<union> alive (api_expire_period s) now clusters ''mixed''.
       ni_load p < ni_load n + 500) \<and>
    (if ni_role p = PyStr ''mixed'' then map fst sent = [queue_key p]
     else \<exists>d \<in> alive (api_expire_period s) now clusters ''decode''.
       (\<forall>n \<in> alive (api_expire_period s) now clusters ''decode''. ni_load d < ni_load n + 10) \<and>
       map fst sent = [queue_key d, queue_key p])"
proof -
  obtain ps ds ms grp where sc: "sync_cluster (api_expire_period s) now clusters = Inr (ps, ds, ms)"
    and sr: "schedule_request choice req ps ds ms grp = Inr sent"
    using assms(2) by (auto simp: loop_schedule_def Let_def split: if_splits sum.splits)
  have l: "set ps = alive (api_expire_period s) now clusters ''prefill''"
    "set ds = alive (api_expire_period s) now clusters ''decode''"
    "set ms = alive (api_expire_period s) now clusters ''mixed''"
    using sync_cluster_live [OF sc] by simp_all
  have bound: "\<forall>n \<in> set ds. ni_load d < ni_load n + 10"
    if "\<forall>n \<in> set ds. ni_load d < ni_load n + int (min (length ds) 10)" for d using that by fastforce
  obtain p where p: "p \<in> set (ps @ ms)" "\<forall>n \<in> set (ps @ ms). ni_load p < ni_load n + 500"
    "if ni_role p = PyStr ''mixed'' then map fst sent = [queue_key p]
     else \<exists>d \<in> set ds. (\<forall>n \<in> set ds. ni_load d < ni_load n + int (min (length ds) 10)) \<and>
       map fst sent = [queue_key d, queue_key p]"
    using schedule_request_near [OF assms(1) sr] by blast
  have "if ni_role p = PyStr ''mixed'' then map fst sent = [queue_key p]
     else \<exists>d \<in> set ds. (\<forall>n \<in> set ds. ni_load d < ni_load n + 10) \<and> map fst sent = [queue_key d, queue_key p]"
  proof (cases "ni_role p = PyStr ''mixed''")
    case True
    then show ?thesis using p(3) by simp
  next
    case False
    then obtain d where "d \<in> set ds" "\<forall>n \<in> set ds. ni_load d < ni_load n + int (min (length ds) 10)"
      "map fst sent = [queue_key d, queue_key p]" using p(3) by auto
    then show ?thesis using False bound [of d] by (simp only: if_False) blast
  qed
  with p(1,2) show ?thesis unfolding set_append l by blast
qed

definition node_entry :: "string \<Rightarrow> string \<Rightarrow> int \<Rightarrow> string \<times> pydict" where
  "node_entry nodeid role load =
     (nodeid, [(''ts'', PyFloat 10), (''role'', PyStr role), (''load'', PyInt load), (''host'', PyStr nodeid),
       (''disaggregated'', PyDict [(''transfer_protocol'', PyList [PyStr ''ipc'', PyStr ''rdma''])])])"

definition wire_request :: "string \<Rightarrow> int \<Rightarrow> RequestData" where
  "wire_request rid n =
     \<lparr>rd_request_id = PyStr rid, rd_prompt = PyNone, rd_prompt_token_ids = PyList (replicate (nat n) (PyInt 1)),
      rd_prompt_token_ids_len = PyInt n, rd_messages = PyNone, rd_system = PyNone, rd_history = PyNone,
      rd_tools = PyNone, rd_eos_token_ids = PyNone, rd_arrival_time = PyFloat 10, rd_preprocess_start_time = PyNone,
      rd_preprocess_end_time = PyNone, rd_multimodal_inputs = PyNone, rd_multimodal_data = PyNone,
      rd_disable_chat_template = PyNone, rd_disaggregate_info = PyNone, rd_draft_token_ids = PyNone,
      rd_enable_thinking = PyBool True, rd_trace_carrier = PyDict [], rd_chat_template = PyNone,
      rd_guided_json = PyNone, rd_guided_regex = PyNone, rd_guided_choice = PyNone, rd_guided_grammar = PyNone,
      rd_structural_tag = PyNone, rd_guided_json_object = PyNone,
      rd_sampling_params = (sampling_fields [(''max_tokens'', PyInt 100)])
        \<lparr>sp_seed := PyInt 7, reasoning_max_tokens := PyInt 80\<rparr>\<rparr>"

lemma choice_hd: "choice_ok hd"
  by (simp add: choice_ok_def)

abbreviation (input) small_cluster :: cluster where
  "small_cluster \<equiv> [node_entry ''p1'' ''prefill'' 900, node_entry ''p2'' ''prefill'' 40, node_entry ''d1'' ''decode'' 3]"

theorem scheduled_near_least_load_witness:
  "\<exists>p \<in> alive 3 11 small_cluster ''prefill'' \<union> alive 3 11 small_cluster ''mixed''.
     \<forall>n \<in> alive 3 11 small_cluster ''prefill'' \<union> alive 3 11 small_cluster ''mixed''. ni_load p < ni_load n + 500"
proof -
  let ?s = "snd (api_put_requests [wire_request ''a'' 4] (new_api 3 ''n'' 1 900))"
  let ?m = "request_message ((wire_request ''a'' 4)\<lparr>rd_disaggregate_info :=
      PyDict [(''transfer_protocol'', PyStr ''rdma'')]\<rparr>) ''n-0''"
  have f: "fst (loop_schedule hd 11 small_cluster ?s) = Some (wire_request ''a'' 4, Inr [(''ReqQ_d1'', ?m), (''ReqQ_p2'', ?m)])"
    by code_simp
  then have l: "loop_schedule hd 11 small_cluster ?s =
      (Some (wire_request ''a'' 4, Inr [(''ReqQ_d1'', ?m), (''ReqQ_p2'', ?m)]), snd (loop_schedule hd 11 small_cluster ?s))"
    by (metis prod.collapse)
  have "api_expire_period ?s = 3" by (simp add: api_put_requests_def new_api_def)
  with scheduled_near_least_load [OF choice_hd l] show ?thesis by (metis (no_types, lifting))
qed

text \<open>C38: when instances that do both are alive and none that decodes, a request for which an instance that only prefills is
  chosen has left the queue when the choice of the other one fails: it is never sent.\<close>

theorem request_without_decoder_lost:
  assumes "sync_cluster (api_expire_period s) now clusters = Inr (ps, [], ms)" "ms \<noteq> []" "api_queue s \<noteq> []"
    "api_reader_idx s < length (api_readers s)"
    "select_pd choice (rd_prompt_token_ids_len (last (api_queue s))) (sort_key ni_load (ps @ ms)) ''prefill'' = Inr p"
    "ni_role p = PyStr ''prefill''"
  shows "\<exists>s'. loop_schedule choice now clusters s = (Some (last (api_queue s), Inl IndexError), s') \<and>
    api_queue s' = butlast (api_queue s)"
  using assms by (simp add: loop_schedule_def Let_def schedule_request_def select_pd_def [of _ _ _ "''decode''"] select_node_def)

theorem request_without_decoder_lost_witness:
  "\<exists>s'. loop_schedule hd 11 [node_entry ''p1'' ''prefill'' 0, node_entry ''m1'' ''mixed'' 5]
       (snd (api_put_requests [wire_request ''a'' 4] (new_api 3 ''n'' 1 900))) = (Some (wire_request ''a'' 4, Inl IndexError), s') \<and>
     api_queue s' = []"
proof -
  let ?s = "snd (api_put_requests [wire_request ''a'' 4] (new_api 3 ''n'' 1 900))"
  let ?c = "[node_entry ''p1'' ''prefill'' 0, node_entry ''m1'' ''mixed'' 5]"
  let ?n = "\<lambda>i r l. new_node i (PyStr r) (PyStr i)
    (PyDict [(''transfer_protocol'', PyList [PyStr ''ipc'', PyStr ''rdma''])]) l 10"
  have q: "api_queue ?s = [wire_request ''a'' 4]" by (simp add: api_put_requests_def new_api_def)
  have s: "sync_cluster (api_expire_period ?s) 11 ?c = Inr ([?n ''p1'' ''prefill'' 0], [], [?n ''m1'' ''mixed'' 5])"
    by code_simp
  have p: "select_pd hd (rd_prompt_token_ids_len (last (api_queue ?s)))
      (sort_key ni_load ([?n ''p1'' ''prefill'' 0] @ [?n ''m1'' ''mixed'' 5])) ''prefill'' = Inr (?n ''p1'' ''prefill'' 0)"
    by code_simp
  have i: "api_reader_idx ?s < length (api_readers ?s)" by code_simp
  show ?thesis using request_without_decoder_lost [OF s _ _ i p] unfolding q by (simp add: new_node_def)
qed

subsection \<open>Order\<close>

definition api_pending :: "api_sched \<Rightarrow> pyval list" where
  "api_pending s = map rd_request_id (rev (api_queue s))"

definition api_put :: "api_sched \<Rightarrow> pyval list \<Rightarrow> api_sched \<Rightarrow> bool" where
  "api_put s xs s' = (\<exists>reqs. api_put_requests reqs s = (map (\<lambda>x. (x, None)) xs, s'))"

definition api_take :: "api_sched \<Rightarrow> pyval list \<Rightarrow> api_sched \<Rightarrow> bool" where
  "api_take s xs s' = (\<exists>choice now clusters taken. loop_schedule choice now clusters s = (taken, s') \<and>
     xs = (case taken of None \<Rightarrow> [] | Some (req, sent) \<Rightarrow> [rd_request_id req]))"

definition api_results :: "api_sched \<Rightarrow> api_sched \<Rightarrow> bool" where
  "api_results s s' = (s' = snd (api_get_results s) \<or> (\<exists>rs. s' = s\<lparr>api_readers := rs\<rparr>))"

lemma loop_schedule_queue:
  "loop_schedule choice now clusters s = (taken, s') \<Longrightarrow>
   (case taken of None \<Rightarrow> api_queue s' = api_queue s
    | Some (req, sent) \<Rightarrow> api_queue s \<noteq> [] \<and> req = last (api_queue s) \<and> api_queue s' = butlast (api_queue s))"
  unfolding loop_schedule_def Let_def by (auto split: if_splits sum.splits prod.splits)

interpretation apiq: fifo_front "\<lambda>_. True" api_pending api_put api_take api_results
proof unfold_locales
  fix s xs s'
  assume "api_put s xs s'"
  then obtain reqs where p: "map (\<lambda>r. (rd_request_id r, None :: string option)) reqs = map (\<lambda>x. (x, None)) xs"
    "s' = s\<lparr>api_queue := rev reqs @ api_queue s\<rparr>" by (auto simp: api_put_def api_put_requests_def)
  have "map rd_request_id reqs = xs" using arg_cong [OF p(1), of "map fst"] by (simp add: comp_def)
  then show "True \<and> api_pending s' = api_pending s @ xs" by (simp add: p(2) api_pending_def)
next
  fix s xs s'
  assume "api_take s xs s'"
  then obtain choice now clusters taken where l: "loop_schedule choice now clusters s = (taken, s')"
    "xs = (case taken of None \<Rightarrow> [] | Some (req, sent) \<Rightarrow> [rd_request_id req])" by (auto simp: api_take_def)
  show "True \<and> api_pending s = xs @ api_pending s'"
    using loop_schedule_queue [OF l(1)] l(2)
    by (cases "api_queue s" rule: rev_cases) (auto simp: api_pending_def split: option.splits)
next
  fix s s'
  assume "api_results s s'"
  then show "True \<and> api_pending s' = api_pending s"
    by (auto simp: api_results_def api_get_results_def api_pending_def split: prod.splits sum.splits)
qed

end
