(* ===== verification/InferScheduler.thy ===== *)
theory InferScheduler
  imports NodeInfo ResultReader
begin

text \<open>
  An instance's half of the scheduler for a cluster (classes \<open>InferScheduler\<close> and \<open>ResultWriter\<close> of
  \<open>scheduler/splitwise_scheduler.py\<close>): it takes the requests sent to it, hands them to the engine, and sends the
  results to the group of the reader that waits for them. What is popped from the shared store is an argument,
  what is pushed a result. \<open>md5\<close> is the number a digest denotes.
\<close>

subsection \<open>Sending results\<close>

text \<open>\<open>data\<close> is a deque, its left end first: results enter on the left and leave on the right.\<close>

record writer =
  wr_batch :: nat
  wr_data :: "(string \<times> pydict) list"

definition writer_put :: "string \<Rightarrow> pydict list \<Rightarrow> writer \<Rightarrow> writer" where
  "writer_put key items w = w\<lparr>wr_data := rev (map (\<lambda>item. (key, item)) items) @ wr_data w\<rparr>"

fun group_by_key :: "(string \<times> pydict) list \<Rightarrow> (string \<times> pydict list) list \<Rightarrow> (string \<times> pydict list) list" where
  "group_by_key [] groups = groups"
| "group_by_key ((key, item) # rest) groups = group_by_key rest (add_to_group key [item] groups)"

text \<open>A pass of \<open>run\<close>: one \<open>lpush\<close> for each key.\<close>

definition writer_step :: "writer \<Rightarrow> (string \<times> pydict list) list \<times> writer" where
  "writer_step w =
     (let n = min (length (wr_data w)) (wr_batch w)
      in (group_by_key (take n (rev (wr_data w))) [],
          w\<lparr>wr_data := take (length (wr_data w) - n) (wr_data w)\<rparr>))"

subsection \<open>The scheduler\<close>

text \<open>\<open>reqs_queue\<close> is a deque: requests enter on the right and leave on the left.\<close>

record infer_sched =
  inf_role :: string
  inf_ttl :: rat
  inf_queue :: "RequestData list"
  inf_node :: node_info
  inf_writers :: "writer list"

definition new_infer :: "string \<Rightarrow> string \<Rightarrow> pyval \<Rightarrow> pyval \<Rightarrow> rat \<Rightarrow> nat \<Rightarrow> nat \<Rightarrow> rat \<Rightarrow> infer_sched" where
  "new_infer nodeid role host disaggregated ttl writer_parallel batch now =
     \<lparr>inf_role = role, inf_ttl = ttl, inf_queue = [], inf_node = new_node nodeid (PyStr role) host disaggregated 0 now,
      inf_writers = replicate writer_parallel \<lparr>wr_batch = batch, wr_data = []\<rparr>\<rparr>"

definition select_writer :: "(string \<Rightarrow> nat) \<Rightarrow> pyval \<Rightarrow> infer_sched \<Rightarrow> nat res" where
  "select_writer md5 rid s =
     (case rid of
        PyStr i \<Rightarrow> if inf_writers s = [] then Inl ZeroDivisionError else Inr (md5 i mod length (inf_writers s))
      | _ \<Rightarrow> Inl AttributeError)"

definition local_id :: "string \<Rightarrow> nat \<Rightarrow> string \<Rightarrow> string" where
  "local_id rid idx grp = rid @ ''#'' @ numeral_of idx @ ''#'' @ grp"

text \<open>A message whose group is no text, or whose prompt length is no integer, is one no scheduler sends; reading it is a
  \<open>TypeError\<close> here.\<close>

definition receive_request :: "(string \<Rightarrow> nat) \<Rightarrow> int \<Rightarrow> rat \<Rightarrow> pydict \<Rightarrow> infer_sched \<Rightarrow> (infer_sched, unit) outcome" where
  "receive_request md5 rnd now d s =
     (case (dget ''group'' (PyStr []) d, request_from_dict rnd now d) of
        (_, Inl e) \<Rightarrow> (Inl e, s)
      | (PyStr grp, Inr req) \<Rightarrow>
          (case select_writer md5 (rd_request_id req) s of Inl e \<Rightarrow> (Inl e, s)
           | Inr idx \<Rightarrow>
               (case (rd_request_id req, rd_prompt_token_ids_len req) of
                  (PyStr rid, PyInt len) \<Rightarrow>
                    let req1 = req\<lparr>rd_request_id := PyStr (local_id rid idx grp)\<rparr> in
                    if inf_role s = ''prefill'' \<or> inf_role s = ''mixed''
                    then (Inr (), s\<lparr>inf_queue := inf_queue s @ [req1],
                                   inf_node := node_add_req (rd_request_id req1) len now (inf_node s)\<rparr>)
                    else (Inr (), s\<lparr>inf_node := node_add_req (rd_request_id req1) 1 now (inf_node s)\<rparr>)
                | _ \<Rightarrow> (Inl TypeError, s)))
      | _ \<Rightarrow> (Inl TypeError, s))"

text \<open>A pass of \<open>loop_get_reqs\<close>; an exception ends it.\<close>

fun loop_get_reqs :: "(string \<Rightarrow> nat) \<Rightarrow> int \<Rightarrow> rat \<Rightarrow> pydict list \<Rightarrow> infer_sched \<Rightarrow> infer_sched" where
  "loop_get_reqs md5 rnd now [] s = s"
| "loop_get_reqs md5 rnd now (d # ds) s =
     (case receive_request md5 rnd now d s of (Inl e, s1) \<Rightarrow> s1 | (Inr _, s1) \<Rightarrow> loop_get_reqs md5 rnd now ds s1)"

definition loop_expire_reqs :: "rat \<Rightarrow> rat \<Rightarrow> infer_sched \<Rightarrow> infer_sched" where
  "loop_expire_reqs period now s = s\<lparr>inf_node := expire_reqs period now (inf_node s)\<rparr>"

definition routine_report :: "rat \<Rightarrow> infer_sched \<Rightarrow> pydict \<times> infer_sched" where
  "routine_report now s =
     (case serialize_node now (inf_node s) of (info, n) \<Rightarrow> (info, s\<lparr>inf_node := n\<rparr>))"

subsection \<open>Handing out requests\<close>

text \<open>An exception in the loop, one of an empty queue too, returns what has been taken so far.\<close>

fun infer_pick ::
  "rat \<Rightarrow> int \<Rightarrow> int \<Rightarrow> int \<Rightarrow> int \<Rightarrow> nat \<Rightarrow> int \<Rightarrow> int \<Rightarrow> infer_sched \<Rightarrow> RequestData list \<times> infer_sched" where
  "infer_pick now available bs reserved token_limit 0 blocks tokens s = ([], s)"
| "infer_pick now available bs reserved token_limit (Suc n) blocks tokens s =
     (case inf_queue s of [] \<Rightarrow> ([], s)
      | req # rest \<Rightarrow>
          let s1 = s\<lparr>inf_queue := rest\<rparr> in
          (case (py_num (rd_arrival_time req), rd_prompt_token_ids_len req) of
             (Some t, len) \<Rightarrow>
               if now - t > inf_ttl s
               then infer_pick now available bs reserved token_limit n blocks tokens
                      (s1\<lparr>inf_node := node_finish_req (rd_request_id req) (inf_node s1)\<rparr>)
               else
                 (case len of
                    PyInt k \<Rightarrow>
                      if bs = 0 then ([], s1)
                      else
                        let tokens1 = tokens + k; blocks1 = blocks + ((k + bs - 1) div bs + reserved) in
                        if blocks1 > available \<or> tokens1 > token_limit then ([], s)
                        else (case infer_pick now available bs reserved token_limit n blocks1 tokens1 s1 of
                                (reqs, s2) \<Rightarrow> (req # reqs, s2))
                  | _ \<Rightarrow> ([], s1))
           | (None, _) \<Rightarrow> ([], s1)))"

definition infer_get_requests ::
  "rat \<Rightarrow> int \<Rightarrow> int \<Rightarrow> int \<Rightarrow> int \<Rightarrow> int \<Rightarrow> infer_sched \<Rightarrow> RequestData list \<times> infer_sched" where
  "infer_get_requests now available bs reserved token_limit batch s =
     (if inf_queue s = [] then ([], s)
      else infer_pick now available bs reserved token_limit (nat batch) 0 0 s)"

definition splitwise_get_requests ::
  "rat \<Rightarrow> int \<Rightarrow> int \<Rightarrow> int \<Rightarrow> int \<Rightarrow> int \<Rightarrow> infer_sched \<Rightarrow> RequestData list \<times> infer_sched" where
  "splitwise_get_requests now available bs reserved token_limit batch s =
     (if available \<le> reserved \<or> batch < 1 then ([], s)
      else infer_get_requests now available bs reserved token_limit batch s)"

subsection \<open>Results\<close>

text \<open>The three parts of the id of a result.\<close>

definition parse_id :: "pyval \<Rightarrow> (string \<times> string \<times> string) res" where
  "parse_id v =
     (case v of
        PyStr s \<Rightarrow> (case split_on (CHR ''#'') s of [rid, idx, grp] \<Rightarrow> Inr (rid, idx, grp) | _ \<Rightarrow> Inl ValueError)
      | _ \<Rightarrow> Inl AttributeError)"

type_synonym result_groups = "((string \<times> nat) \<times> pydict list) list"

definition put_one :: "string \<Rightarrow> RequestOutput \<Rightarrow> result_groups \<Rightarrow> result_groups res" where
  "put_one role result groups =
     (case parse_id (ro_request_id result) of Inl e \<Rightarrow> Inl e
      | Inr (rid, idx, grp) \<Rightarrow>
          (case read_numeral idx of Inl e \<Rightarrow> Inl e
           | Inr i \<Rightarrow>
               let key = (if grp = [] then rid else grp, i); r1 = result\<lparr>ro_request_id := PyStr rid\<rparr> in
               if role = ''prefill'' then
                 (case outputs result of None \<Rightarrow> Inl AttributeError
                  | Some c \<Rightarrow>
                      let r2 = (if equals_int (send_idx c) 0 then r1\<lparr>ro_finished := PyBool False\<rparr> else r1)
                      in Inr (add_to_group key [output_to_dict r2] groups))
               else Inr (add_to_group key [output_to_dict r1] groups)))"

fun put_loop :: "string \<Rightarrow> RequestOutput list \<Rightarrow> result_groups \<Rightarrow> node_info \<Rightarrow> (node_info, result_groups) outcome" where
  "put_loop role [] groups n = (Inr groups, n)"
| "put_loop role (result # results) groups n =
     (let n1 = (if is_error result \<or> truthy (ro_finished result) then node_finish_req (ro_request_id result) n else n) in
      case put_one role result groups of Inl e \<Rightarrow> (Inl e, n1)
      | Inr groups1 \<Rightarrow> put_loop role results groups1 n1)"

fun hand_to_writers :: "result_groups \<Rightarrow> writer list \<Rightarrow> (writer list, unit) outcome" where
  "hand_to_writers [] ws = (Inr (), ws)"
| "hand_to_writers (((key, idx), items) # groups) ws =
     (if idx < length ws then hand_to_writers groups (ws[idx := writer_put key items (ws ! idx)])
      else (Inl IndexError, ws))"

definition infer_put_results :: "rat \<Rightarrow> RequestOutput list \<Rightarrow> infer_sched \<Rightarrow> (infer_sched, unit) outcome" where
  "infer_put_results now results s =
     (case put_loop (inf_role s) results [] (inf_node s) of
        (Inl e, n) \<Rightarrow> (Inl e, s\<lparr>inf_node := n\<rparr>)
      | (Inr groups, n) \<Rightarrow>
          (case hand_to_writers groups (inf_writers s) of (r, ws) \<Rightarrow>
             (r, s\<lparr>inf_node := update_req_timestamp (map ro_request_id results) now n, inf_writers := ws\<rparr>)))"

end
