(* ===== verification/ResultReaderProps.thy ===== *)
theory ResultReaderProps
  imports ResultReader SchedulerData
begin

text \<open>
  What the reader of results hands out for one request: nothing before the first token is there, then the first token
  followed by the others in the order in which they arrived, however the arrivals are spread over the reads.
\<close>

definition is_first :: "RequestOutput \<Rightarrow> bool" where
  "is_first item = (case outputs item of None \<Rightarrow> False | Some c \<Rightarrow> equals_int (send_idx c) 0)"

definition mine :: "pyval \<Rightarrow> RequestOutput list \<Rightarrow> RequestOutput list" where
  "mine k items = filter (\<lambda>i. ro_request_id i = k) items"

definition firsts :: "pyval \<Rightarrow> RequestOutput list \<Rightarrow> RequestOutput list" where
  "firsts k items = filter is_first (mine k items)"

definition others :: "pyval \<Rightarrow> RequestOutput list \<Rightarrow> RequestOutput list" where
  "others k items = filter (\<lambda>i. \<not> is_first i) (mine k items)"

definition handed_out :: "pyval \<Rightarrow> RequestOutput list \<Rightarrow> RequestOutput list" where
  "handed_out k items = (if firsts k items = [] then [] else firsts k items @ others k items)"

lemma split_items [simp]:
  "mine k [] = []" "mine k (xs @ ys) = mine k xs @ mine k ys"
  "mine k (i # xs) = (if ro_request_id i = k then i # mine k xs else mine k xs)"
  "firsts k [] = []" "others k [] = []"
  "firsts k (xs @ ys) = firsts k xs @ firsts k ys" "others k (xs @ ys) = others k xs @ others k ys"
  "firsts k (i # xs) = (if ro_request_id i = k \<and> is_first i then i # firsts k xs else firsts k xs)"
  "others k (i # xs) = (if ro_request_id i = k \<and> \<not> is_first i then i # others k xs else others k xs)"
  by (simp_all add: mine_def firsts_def others_def)

subsection \<open>One read\<close>

definition readable :: "RequestOutput \<Rightarrow> bool" where
  "readable item = (outputs item \<noteq> None)"

definition keys_ok :: "read_acc \<Rightarrow> bool" where
  "keys_ok a = (distinct (map fst (ra_outputs a)) \<and> distinct (map fst (ra_groups a)))"

lemma read_item_effect:
  assumes "readable i" "keys_ok a"
  shows "\<exists>a'. read_item i a = Inr a' \<and> keys_ok a' \<and>
    (ro_request_id i = k \<longrightarrow> \<not> is_error i \<longrightarrow>
      (if is_first i then map_of (ra_outputs a') k = Some [i] \<and> map_of (ra_groups a') k = map_of (ra_groups a) k
       else map_of (ra_outputs a') k = map_of (ra_outputs a) k \<and>
            map_of (ra_groups a') k = Some (found (map_of (ra_groups a) k) @ [i]))) \<and>
    (ro_request_id i \<noteq> k \<longrightarrow> map_of (ra_outputs a') k = map_of (ra_outputs a) k \<and>
       map_of (ra_groups a') k = map_of (ra_groups a) k)"
proof -
  obtain c where "outputs i = Some c" using assms(1) by (auto simp: readable_def)
  then show ?thesis
    using assms(2)
    by (cases "is_error i"; cases "equals_int (send_idx c) 0"; cases "truthy (ro_finished i)")
      (auto simp: read_item_def Let_def keys_ok_def is_first_def update_conv' map_of_add_to_group distinct_update
        distinct_add_to_group)
qed

lemma read_items_effect:
  assumes "list_all readable xs" "keys_ok a" "\<forall>i \<in> set (mine k xs). \<not> is_error i"
  shows "\<exists>a'. read_items xs a = Inr a' \<and> keys_ok a' \<and>
    map_of (ra_outputs a') k = (if firsts k xs = [] then map_of (ra_outputs a) k else Some [last (firsts k xs)]) \<and>
    map_of (ra_groups a') k =
      (if others k xs = [] then map_of (ra_groups a) k else Some (found (map_of (ra_groups a) k) @ others k xs))"
  using assms
proof (induction xs arbitrary: a)
  case Nil
  then show ?case by simp
next
  case (Cons i xs)
  obtain a1 where a1: "read_item i a = Inr a1" "keys_ok a1"
    "ro_request_id i = k \<longrightarrow> \<not> is_error i \<longrightarrow>
      (if is_first i then map_of (ra_outputs a1) k = Some [i] \<and> map_of (ra_groups a1) k = map_of (ra_groups a) k
       else map_of (ra_outputs a1) k = map_of (ra_outputs a) k \<and>
            map_of (ra_groups a1) k = Some (found (map_of (ra_groups a) k) @ [i]))"
    "ro_request_id i \<noteq> k \<longrightarrow> map_of (ra_outputs a1) k = map_of (ra_outputs a) k \<and>
       map_of (ra_groups a1) k = map_of (ra_groups a) k"
    using read_item_effect [of i a k] Cons.prems(1,2) by auto
  have "\<forall>i \<in> set (mine k xs). \<not> is_error i" using Cons.prems(3) by auto
  then obtain a' where a': "read_items xs a1 = Inr a'" "keys_ok a'"
    "map_of (ra_outputs a') k = (if firsts k xs = [] then map_of (ra_outputs a1) k else Some [last (firsts k xs)])"
    "map_of (ra_groups a') k =
      (if others k xs = [] then map_of (ra_groups a1) k else Some (found (map_of (ra_groups a1) k) @ others k xs))"
    using Cons.IH [OF _ a1(2)] Cons.prems(1) by auto
  have e: "ro_request_id i = k \<Longrightarrow> \<not> is_error i" using Cons.prems(3) by simp
  have "read_items (i # xs) a = Inr a'" using a1(1) a'(1) by simp
  then show ?case
    using a1(3,4) a'(2-4) e
    by (intro exI [of _ a'] conjI; cases "ro_request_id i = k"; cases "is_first i") simp_all
qed

lemma take_buffered_effect:
  "distinct (map fst outs) \<Longrightarrow> take_buffered outs buffer = (outs1, buffer1) \<Longrightarrow>
   map_of outs1 k = map_option (\<lambda>items. items @ found (map_of buffer k)) (map_of outs k) \<and>
   map_of buffer1 k = (if map_of outs k = None then map_of buffer k else None)"
proof (induction outs buffer arbitrary: outs1 buffer1 rule: take_buffered.induct)
  case (1 buffer)
  then show ?case by simp
next
  case (2 rid items outs buffer)
  have rid: "map_of outs rid = None" using 2(3) by (simp add: map_of_eq_None_iff)
  show ?case
  proof (cases "map_of buffer rid")
    case None
    obtain o1 b1 where t: "take_buffered outs buffer = (o1, b1)" by fastforce
    then show ?thesis using 2(1) [OF None _ t] 2(3,4) None rid by auto
  next
    case (Some waiting)
    obtain o1 b1 where t: "take_buffered outs (AList.delete rid buffer) = (o1, b1)" by fastforce
    then show ?thesis using 2(2) [OF Some _ t] 2(3,4) Some rid by (auto simp: delete_conv')
  qed
qed

lemma add_groups_effect:
  "distinct (map fst groups) \<Longrightarrow> add_groups groups (outs, buffer) = (outs1, buffer1) \<Longrightarrow>
   (case map_of groups k of None \<Rightarrow> map_of outs1 k = map_of outs k \<and> map_of buffer1 k = map_of buffer k
    | Some items \<Rightarrow>
        (case map_of buffer k of
           None \<Rightarrow> map_of outs1 k = Some (found (map_of outs k) @ items) \<and> map_of buffer1 k = None
         | Some waiting \<Rightarrow> map_of outs1 k = map_of outs k \<and> map_of buffer1 k = Some (waiting @ items)))"
proof (induction groups arbitrary: outs buffer)
  case Nil
  then show ?case by simp
next
  case (Cons g groups)
  obtain rid items where g: "g = (rid, items)" by fastforce
  have rid: "map_of groups rid = None" using Cons.prems(1) g by (simp add: map_of_eq_None_iff)
  show ?case
  proof (cases "map_of buffer rid")
    case None
    then have "add_groups groups (add_to_group rid items outs, buffer) = (outs1, buffer1)" using Cons.prems(2) g by simp
    from Cons.IH [OF _ this] show ?thesis
      using Cons.prems(1) g rid None by (cases "k = rid") (auto simp: map_of_add_to_group simp del: map_of_eq_Some_iff split: option.splits)
  next
    case (Some waiting)
    then have "add_groups groups (outs, add_to_group rid items buffer) = (outs1, buffer1)" using Cons.prems(2) g by simp
    from Cons.IH [OF _ this] show ?thesis
      using Cons.prems(1) g rid Some by (cases "k = rid") (auto simp: map_of_add_to_group simp del: map_of_eq_Some_iff split: option.splits)
  qed
qed

lemma reader_read_effect:
  assumes "list_all readable (rr_data r)" "\<forall>i \<in> set (mine k (rev (rr_data r))). \<not> is_error i"
  shows "\<exists>outs r'. reader_read r = (Inr outs, r') \<and> rr_data r' = [] \<and>
    (let f = firsts k (rev (rr_data r)); rest = others k (rev (rr_data r)); b = map_of (out_buffer r) k in
      if f = [] then
        (case b of Some w \<Rightarrow> found (map_of outs k) = [] \<and> map_of (out_buffer r') k = Some (w @ rest)
         | None \<Rightarrow> found (map_of outs k) = rest \<and> map_of (out_buffer r') k = None)
      else found (map_of outs k) = last f # found b @ rest \<and> map_of (out_buffer r') k = None)"
proof -
  let ?xs = "rev (rr_data r)"
  have ok: "list_all readable ?xs" using assms(1) by simp
  have "keys_ok read_start" by (simp add: keys_ok_def read_start_def)
  from read_items_effect [OF ok this assms(2)] obtain a where a: "read_items ?xs read_start = Inr a" "keys_ok a"
    "map_of (ra_outputs a) k = (if firsts k ?xs = [] then None else Some [last (firsts k ?xs)])"
    "map_of (ra_groups a) k = (if others k ?xs = [] then None else Some (others k ?xs))"
    by (auto simp: read_start_def)
  obtain o1 b1 where t: "take_buffered (ra_outputs a) (out_buffer r) = (o1, b1)" by fastforce
  obtain o2 b2 where g: "add_groups (ra_groups a) (o1, b1) = (o2, b2)" by fastforce
  have d: "distinct (map fst (ra_outputs a))" "distinct (map fst (ra_groups a))" using a(2) by (simp_all add: keys_ok_def)
  show ?thesis
    using take_buffered_effect [OF d(1) t, of k] add_groups_effect [OF d(2) g, of k] a(3,4)
    by (auto simp: reader_read_def a(1) t g Let_def split: option.splits if_splits)
qed

subsection \<open>Fetching\<close>

lemma receive_effect: "\<exists>new. receive ms ds = new @ ds \<and> list_all readable new"
proof (induction ms arbitrary: ds)
  case Nil
  then show ?case by simp
next
  case (Cons m ms)
  show ?case
  proof (cases "output_from_dict m")
    case (Inl e)
    then show ?thesis using Cons [of ds] by simp
  next
    case (Inr item)
    then have "readable item"
      by (auto simp: output_from_dict_def new_RequestOutput_def readable_def Let_def split: sum.splits if_splits)
    moreover obtain new where "receive ms (item # ds) = new @ item # ds" "list_all readable new" using Cons by blast
    ultimately show ?thesis using Inr by (intro exI [of _ "new @ [item]"]) simp
  qed
qed

lemma expire_effect:
  "\<exists>new. snd (expire_loop fmt ttl now reqs keys gone ds) = new @ ds \<and> list_all readable new"
proof (induction fmt ttl now reqs keys gone ds rule: expire_loop.induct)
  case (1 fmt ttl now keys gone ds)
  then show ?case by simp
next
  case (2 fmt ttl now rid arrival reqs keys gone ds)
  show ?case
  proof (cases "py_num arrival")
    case None
    then show ?thesis by simp
  next
    case (Some t)
    show ?thesis
    proof (cases "now - t > of_nat ttl")
      case True
      obtain new where "snd (expire_loop fmt ttl now reqs keys (rid # gone) (expired_result fmt ttl rid arrival # ds)) =
          new @ expired_result fmt ttl rid arrival # ds" "list_all readable new"
        using 2(1) [OF Some True] by blast
      moreover have "readable (expired_result fmt ttl rid arrival)"
        by (simp add: readable_def expired_result_def new_RequestOutput_def)
      ultimately show ?thesis
        using Some True by (intro exI [of _ "new @ [expired_result fmt ttl rid arrival]"]) simp
    next
      case False
      then show ?thesis using 2(2) [OF Some False] Some by simp
    qed
  qed
qed

lemma sync_effect:
  "\<exists>new. rr_data (snd (sync_results rpop keys r)) = new @ rr_data r \<and> list_all readable new \<and>
     out_buffer (snd (sync_results rpop keys r)) = out_buffer r"
proof (induction rpop keys r rule: sync_results.induct)
  case (1 rpop r)
  then show ?case by simp
next
  case (2 rpop key keys r)
  show ?case
  proof (cases "rpop key")
    case None
    then show ?thesis using 2(1) by simp
  next
    case (Some results)
    obtain new1 where n1: "receive results (rr_data r) = new1 @ rr_data r" "list_all readable new1"
      using receive_effect by blast
    let ?r1 = "r\<lparr>rr_data := receive results (rr_data r)\<rparr>"
    obtain got r2 where s: "sync_results rpop keys ?r1 = (got, r2)" by fastforce
    obtain new2 where "rr_data r2 = new2 @ rr_data ?r1" "list_all readable new2" "out_buffer r2 = out_buffer ?r1"
      using 2(2) [OF Some] s by auto
    then show ?thesis using n1 s Some by (intro exI [of _ "new2 @ new1"]) simp
  qed
qed

lemma reader_step_effect:
  "\<exists>new. rr_data (reader_step fmt now rpop r) = new @ rr_data r \<and> list_all readable new \<and>
     out_buffer (reader_step fmt now rpop r) = out_buffer r"
proof -
  obtain res ds where e: "expire_loop fmt (rr_ttl r) now (rr_reqs r) [] [] (rr_data r) = (res, ds)" by fastforce
  obtain new where new: "ds = new @ rr_data r" "list_all readable new"
    using expire_effect [of fmt "rr_ttl r" now "rr_reqs r" "[]" "[]" "rr_data r"] e by auto
  show ?thesis
  proof (cases res)
    case (Inl x)
    then show ?thesis using e new by (auto simp: reader_step_def)
  next
    case (Inr kg)
    obtain keys gone where kg: "kg = (keys, gone)" by fastforce
    let ?r1 = "r\<lparr>rr_data := ds, rr_reqs := filter (\<lambda>(rid, arrival). rid \<notin> set gone) (rr_reqs r)\<rparr>"
    let ?ks = "if rr_group r \<noteq> [] then [PyStr (rr_group r)] else keys"
    obtain new2 where "rr_data (snd (sync_results rpop ?ks ?r1)) = new2 @ rr_data ?r1" "list_all readable new2"
      "out_buffer (snd (sync_results rpop ?ks ?r1)) = out_buffer ?r1"
      using sync_effect by blast
    then show ?thesis
      using e new Inr kg by (cases "keys = []") (auto simp: reader_step_def Let_def intro!: exI [of _ "new2 @ new"])
  qed
qed

subsection \<open>Runs of a reader\<close>

text \<open>
  A run as one request sees it: \<open>arrived\<close> are all results that entered the reader, \<open>delivered\<close> what was handed out for
  the request. It is registered once, before its first result; fetching, reading and registering others alternate at will.
\<close>

inductive reader_run :: "pyval \<Rightarrow> RequestOutput list \<Rightarrow> RequestOutput list \<Rightarrow> reader \<Rightarrow> bool" for k where
  registered: "list_all readable (rr_data r) \<Longrightarrow> mine k (rr_data r) = [] \<Longrightarrow>
    reader_run k (rev (rr_data r)) [] (reader_add_req k arrival r)"
| other_registered: "reader_run k arrived delivered r \<Longrightarrow> rid \<noteq> k \<Longrightarrow>
    reader_run k arrived delivered (reader_add_req rid arrival r)"
| fetched: "reader_run k arrived delivered r \<Longrightarrow> rr_data (reader_step fmt now rpop r) = new @ rr_data r \<Longrightarrow>
    reader_run k (arrived @ rev new) delivered (reader_step fmt now rpop r)"
| read: "reader_run k arrived delivered r \<Longrightarrow> reader_read r = (Inr outs, r') \<Longrightarrow>
    reader_run k arrived (delivered @ found (map_of outs k)) r'"

definition plain :: "pyval \<Rightarrow> RequestOutput list \<Rightarrow> bool" where
  "plain k items = ((\<forall>i \<in> set (mine k items). \<not> is_error i) \<and> length (firsts k items) \<le> 1)"

definition reader_inv :: "pyval \<Rightarrow> RequestOutput list \<Rightarrow> RequestOutput list \<Rightarrow> reader \<Rightarrow> bool" where
  "reader_inv k arrived delivered r =
     (list_all readable (rr_data r) \<and>
      (\<exists>gone. arrived = gone @ rev (rr_data r) \<and>
        (plain k gone \<longrightarrow> delivered = handed_out k gone \<and>
           map_of (out_buffer r) k = (if firsts k gone = [] then Some (others k gone) else None))))"

lemma plain_append: "plain k (xs @ ys) \<Longrightarrow> plain k xs"
  by (simp add: plain_def)

lemma reader_run_inv: "reader_run k arrived delivered r \<Longrightarrow> reader_inv k arrived delivered r"
proof (induction rule: reader_run.induct)
  case (registered r arrival)
  have "firsts k (rev (rr_data r)) = []" "others k (rev (rr_data r)) = []"
    using registered(2) by (simp_all add: firsts_def others_def mine_def rev_filter [symmetric])
  then show ?case
    using registered
    by (auto simp: reader_inv_def reader_add_req_def handed_out_def update_conv' intro!: exI [of _ "[]"])
next
  case (other_registered arrived delivered r rid arrival)
  then show ?case by (auto simp: reader_inv_def reader_add_req_def update_conv')
next
  case (fetched arrived delivered r fmt now rpop new)
  then show ?case using reader_step_effect [of fmt now rpop r] by (auto simp: reader_inv_def)
next
  case (read arrived delivered r outs r')
  let ?new = "rev (rr_data r)"
  obtain gone where g: "arrived = gone @ ?new" "list_all readable (rr_data r)"
    "plain k gone \<Longrightarrow> delivered = handed_out k gone \<and>
       map_of (out_buffer r) k = (if firsts k gone = [] then Some (others k gone) else None)"
    using read.IH by (auto simp: reader_inv_def)
  show ?case
  proof (cases "plain k arrived")
    case True
    then have p: "plain k gone" using g(1) plain_append by blast
    have ne: "\<forall>i \<in> set (mine k ?new). \<not> is_error i" using True g(1) by (simp add: plain_def)
    have one: "length (firsts k gone) + length (firsts k ?new) \<le> 1" using True g(1) by (simp add: plain_def)
    have e: "rr_data r' = []"
      "let f = firsts k ?new; rest = others k ?new; b = map_of (out_buffer r) k in
        if f = [] then
          (case b of Some w \<Rightarrow> found (map_of outs k) = [] \<and> map_of (out_buffer r') k = Some (w @ rest)
           | None \<Rightarrow> found (map_of outs k) = rest \<and> map_of (out_buffer r') k = None)
        else found (map_of outs k) = last f # found b @ rest \<and> map_of (out_buffer r') k = None"
      using reader_read_effect [OF g(2) ne] read.hyps(2) by auto
    have "delivered @ found (map_of outs k) = handed_out k arrived \<and>
      map_of (out_buffer r') k = (if firsts k arrived = [] then Some (others k arrived) else None)"
    proof (cases "firsts k ?new")
      case Nil
      then show ?thesis using e(2) g(3) [OF p] g(1) by (auto simp: handed_out_def Let_def)
    next
      case (Cons x xs)
      then have "firsts k gone = []" "firsts k ?new = [x]" using one by (cases xs; simp)+
      then show ?thesis using e(2) g(3) [OF p] g(1) by (auto simp: handed_out_def Let_def)
    qed
    then show ?thesis using e(1) by (auto simp: reader_inv_def)
  next
    case False
    have "rr_data r' = []" using read.hyps(2)
      by (auto simp: reader_read_def Let_def split: sum.splits prod.splits)
    then show ?thesis using False by (auto simp: reader_inv_def)
  qed
qed

text \<open>C19: when no error result and at most one first token arrives for a request, whatever the batches in which results arrive and are read, and
  in whatever order the first token comes among the others, reading returns, and all that the request has got then is nothing before its
  first token, and from there on the first token and the others in the order of their arrival, none lost and none twice.\<close>

theorem results_follow_first_token:
  assumes "reader_run k arrived delivered r" "plain k arrived"
  shows "\<exists>outs r'. reader_read r = (Inr outs, r') \<and> delivered @ found (map_of outs k) = handed_out k arrived"
proof -
  have inv: "reader_inv k arrived delivered r" by (rule reader_run_inv [OF assms(1)])
  then have "\<forall>i \<in> set (mine k (rev (rr_data r))). \<not> is_error i" "list_all readable (rr_data r)"
    using assms(2) by (auto simp: reader_inv_def plain_def)
  from reader_read_effect [OF this(2,1)] obtain outs r' where rd: "reader_read r = (Inr outs, r')" "rr_data r' = []" by blast
  have "reader_inv k arrived (delivered @ found (map_of outs k)) r'"
    by (rule reader_run_inv [OF reader_run.read [OF assms(1) rd(1)]])
  then show ?thesis using rd assms(2) by (auto simp: reader_inv_def)
qed

definition token_result :: "int \<Rightarrow> string \<Rightarrow> RequestOutput" where
  "token_result i rid =
     new_RequestOutput (PyStr rid) (PyStr []) (PyList [])
       (Some \<lparr>co_index = PyInt 0, send_idx = PyInt i, token_ids = PyList [PyInt (100 + i)], logprob = PyNone,
              top_logprobs = PyNone, co_logprobs = PyNone, draft_token_ids = PyNone, co_text = PyNone,
              reasoning_content = PyNone, tool_calls = PyNone\<rparr>)
       (PyBool False)
       (Some \<lparr>rm_arrival_time = PyFloat 0, rm_inference_start_time = PyNone, first_token_time = PyNone,
              time_in_queue = PyNone, preprocess_cost_time = PyNone, model_forward_time = PyNone,
              model_execute_time = PyNone, request_start_time = PyNone\<rparr>)
       (PyInt 0) (PyInt 200) PyNone"

abbreviation (input) reply :: "RequestOutput list \<Rightarrow> pyval \<Rightarrow> pydict list option" where
  "reply items \<equiv> \<lambda>key. Some (map output_to_dict items)"

lemma token_result_wire [simp]: "output_from_dict (output_to_dict (token_result i rid)) = Inr (token_result i rid)"
  by (simp add: token_result_def new_RequestOutput_def output_roundtrip)

lemma token_result_fields [simp]:
  "ro_request_id (token_result i rid) = PyStr rid" "\<not> is_error (token_result i rid)"
  "is_first (token_result i rid) \<longleftrightarrow> i = 0"
  "read_item (token_result i rid) a =
     Inr (if i = 0 then a\<lparr>ra_outputs := AList.update (PyStr rid) [token_result i rid] (ra_outputs a)\<rparr>
          else a\<lparr>ra_groups := add_to_group (PyStr rid) [token_result i rid] (ra_groups a)\<rparr>)"
  by (simp_all add: token_result_def new_RequestOutput_def is_error_def is_first_def equals_int_def read_item_def Let_def)

text \<open>The second token arrives and is read before the first result of another request, the first token and the third.\<close>

theorem results_follow_first_token_witness:
  "\<exists>outs r'. reader_read \<lparr>rr_group = ''n-0'', rr_ttl = 900, rr_data = [token_result 2 ''a'', token_result 0 ''a'', token_result 0 ''b''],
       rr_reqs = [(PyStr ''a'', PyFloat 0)], out_buffer = [(PyStr ''a'', [token_result 1 ''a''])]\<rparr> = (Inr outs, r') \<and>
     found (map_of outs (PyStr ''a'')) = [token_result 0 ''a'', token_result 1 ''a'', token_result 2 ''a'']"
proof -
  let ?a = "PyStr ''a''" and ?f = "\<lambda>_. []" and ?t = "\<lambda>i. token_result i ''a''"
  let ?r = "\<lambda>ds b. \<lparr>rr_group = ''n-0'', rr_ttl = 900, rr_data = ds, rr_reqs = [(?a, PyFloat 0)], out_buffer = [(?a, b)]\<rparr>"
  have "reader_run ?a (rev (rr_data (new_reader ''n-0'' 900))) [] (reader_add_req ?a (PyFloat 0) (new_reader ''n-0'' 900))"
    by (rule registered) (simp_all add: new_reader_def)
  then have r0: "reader_run ?a [] [] (?r [] [])" by (simp add: new_reader_def reader_add_req_def)
  have s1: "reader_step ?f 1 (reply [?t 1]) (?r [] []) = ?r [?t 1] []" by (simp add: reader_step_def Let_def)
  have r1: "reader_run ?a [?t 1] [] (?r [?t 1] [])" using fetched [OF r0, of ?f 1 "reply [?t 1]" "[?t 1]"] s1 by simp
  have e: "reader_read (?r [?t 1] []) = (Inr [], ?r [] [?t 1])"
    by (simp add: reader_read_def read_start_def add_to_group_def Let_def)
  have r2: "reader_run ?a [?t 1] [] (?r [] [?t 1])" using reader_run.read [OF r1 e] by simp
  let ?p = "reply [token_result 0 ''b'', ?t 0, ?t 2]" and ?new = "[?t 2, ?t 0, token_result 0 ''b'']"
  have s3: "reader_step ?f 2 ?p (?r [] [?t 1]) = ?r ?new [?t 1]" by (simp add: reader_step_def Let_def)
  have r3: "reader_run ?a [?t 1, token_result 0 ''b'', ?t 0, ?t 2] [] (?r ?new [?t 1])"
    using fetched [OF r2, of ?f 2 ?p ?new] s3 by simp
  have p: "plain ?a [?t 1, token_result 0 ''b'', ?t 0, ?t 2]" by (simp add: plain_def)
  have rel: "handed_out ?a [?t 1, token_result 0 ''b'', ?t 0, ?t 2] = [?t 0, ?t 1, ?t 2]" by (simp add: handed_out_def)
  show ?thesis using results_follow_first_token [OF r3 p] unfolding rel append_Nil .
qed

end
