(* ===== verification/InferSchedulerProps.thy ===== *)
theory InferSchedulerProps
  imports InferScheduler ResultReaderProps SchedulerData
begin

text \<open>
  An instance of the cluster: its load is what the requests it has add up to, it hands out requests in order and within the
  limits, and its results get back to the reader that waits for them.
\<close>

subsection \<open>The load\<close>

lemma node_of_receive: "node_ok (inf_node s) \<Longrightarrow> node_ok (inf_node (snd (receive_request md5 rnd now d s)))"
  by (auto simp: receive_request_def Let_def node_ok_add split: sum.split pyval.split)

lemma node_of_loop_get_reqs: "node_ok (inf_node s) \<Longrightarrow> node_ok (inf_node (loop_get_reqs md5 rnd now ds s))"
proof (induction ds arbitrary: s)
  case (Cons d ds)
  obtain r s1 where r: "receive_request md5 rnd now d s = (r, s1)" by fastforce
  then have "node_ok (inf_node s1)" using node_of_receive [OF Cons.prems, of md5 rnd now d] by simp
  then show ?case using Cons.IH r by (cases r) simp_all
qed simp

lemma node_of_infer_pick:
  "node_ok (inf_node s) \<Longrightarrow> node_ok (inf_node (snd (infer_pick now available bs reserved token_limit n blocks tokens s)))"
proof (induction n arbitrary: blocks tokens s)
  case 0
  then show ?case by simp
next
  case (Suc n)
  then show ?case
    by (simp add: node_ok_finish Let_def case_prod_unfold split: list.split option.split pyval.split)
qed

lemma node_of_put_loop: "node_ok n \<Longrightarrow> node_ok (snd (put_loop role results groups n))"
  by (induction role results groups n rule: put_loop.induct) (auto simp: Let_def node_ok_finish split: sum.split)

lemma node_of_put_results: "node_ok (inf_node s) \<Longrightarrow> node_ok (inf_node (snd (infer_put_results now results s)))"
  using node_of_put_loop [of "inf_node s" "inf_role s" results "[]"]
  by (auto simp: infer_put_results_def node_ok_update split: prod.split sum.split)

text \<open>Every step of the threads of an instance.\<close>

inductive infer_run :: "infer_sched \<Rightarrow> bool" where
  started: "infer_run (new_infer nodeid role host disaggregated ttl writer_parallel batch now)"
| got: "infer_run s \<Longrightarrow> infer_run (loop_get_reqs md5 rnd now ds s)"
| expired: "infer_run s \<Longrightarrow> infer_run (loop_expire_reqs period now s)"
| reported: "infer_run s \<Longrightarrow> infer_run (snd (routine_report now s))"
| fetched: "infer_run s \<Longrightarrow> infer_run (snd (splitwise_get_requests now available bs reserved token_limit batch s))"
| put: "infer_run s \<Longrightarrow> infer_run (snd (infer_put_results now results s))"
| written: "infer_run s \<Longrightarrow> i < length (inf_writers s) \<Longrightarrow>
    infer_run (s\<lparr>inf_writers := (inf_writers s)[i := snd (writer_step (inf_writers s ! i))]\<rparr>)"

lemma infer_run_node: "infer_run s \<Longrightarrow> node_ok (inf_node s)"
proof (induction rule: infer_run.induct)
  case (reported s now)
  then show ?case by (simp add: routine_report_def serialize_node_def node_ok_def)
qed (auto simp: new_infer_def node_ok_new node_of_loop_get_reqs loop_expire_reqs_def node_ok_expire
    splitwise_get_requests_def infer_get_requests_def node_of_infer_pick node_of_put_results)

text \<open>Whatever the threads of an instance do, the load it reports is the sum of the loads of the requests it holds, each counted
  once; with the last of them finished or expired the load is back at zero.\<close>

theorem reported_load_is_sum:
  assumes "infer_run s"
  shows "distinct (map fst (ni_reqs (inf_node s))) \<and>
    dget ''load'' PyNone (fst (routine_report now s)) =
      PyInt (sum_list (map (\<lambda>(rid, load, t). load) (ni_reqs (inf_node s))))"
  using infer_run_node [OF assms]
  by (simp add: node_ok_def routine_report_def serialize_node_def dget_def comp_def case_prod_unfold)

definition request_text :: "string \<Rightarrow> int \<Rightarrow> pydict" where
  "request_text rid n =
     [(''request_id'', PyStr rid), (''prompt_token_ids_len'', PyInt n), (''arrival_time'', PyFloat 5), (''max_tokens'', PyInt 100),
      (''group'', PyStr ''n-0'')]"

abbreviation (input) instance1 :: infer_sched where
  "instance1 \<equiv> loop_get_reqs length 7 6 [request_text ''a'' 4, request_text ''bc'' 10]
     (new_infer ''i1'' ''mixed'' (PyStr ''h'') PyNone 900 2 10 0)"

theorem reported_load_is_sum_witness:
  "dget ''load'' PyNone (fst (routine_report 9 instance1)) = PyInt 14"
proof -
  have r: "infer_run instance1" by (intro got started)
  have "sum_list (map (\<lambda>(rid, load, t). load) (ni_reqs (inf_node instance1))) = 14" by code_simp
  then show ?thesis using reported_load_is_sum [OF r, of 9] by simp
qed

subsection \<open>Handing out requests\<close>

definition req_len :: "RequestData \<Rightarrow> int" where
  "req_len r = (case rd_prompt_token_ids_len r of PyInt n \<Rightarrow> n | _ \<Rightarrow> 0)"

definition well_typed :: "RequestData \<Rightarrow> bool" where
  "well_typed r = ((case rd_prompt_token_ids_len r of PyInt n \<Rightarrow> True | _ \<Rightarrow> False) \<and> py_num (rd_arrival_time r) \<noteq> None)"

definition not_expired :: "rat \<Rightarrow> rat \<Rightarrow> RequestData \<Rightarrow> bool" where
  "not_expired ttl now r = (case py_num (rd_arrival_time r) of None \<Rightarrow> False | Some t \<Rightarrow> now - t \<le> ttl)"

definition req_blocks :: "int \<Rightarrow> int \<Rightarrow> RequestData \<Rightarrow> int" where
  "req_blocks bs reserved r = (req_len r + bs - 1) div bs + reserved"

text \<open>Taken off the queue: a prefix, of which the fresh requests are handed out; why no more is taken.\<close>

definition pick_ok ::
  "rat \<Rightarrow> int \<Rightarrow> int \<Rightarrow> int \<Rightarrow> int \<Rightarrow> nat \<Rightarrow> int \<Rightarrow> int \<Rightarrow> infer_sched \<Rightarrow> RequestData list \<Rightarrow> infer_sched \<Rightarrow> bool" where
  "pick_ok now available bs reserved token_limit n blocks tokens s reqs s' =
     (\<exists>taken. inf_queue s = taken @ inf_queue s' \<and> reqs = filter (not_expired (inf_ttl s) now) taken \<and> length taken \<le> n \<and>
        (reqs = [] \<or> blocks + sum_list (map (req_blocks bs reserved) reqs) \<le> available \<and>
           tokens + sum_list (map req_len reqs) \<le> token_limit) \<and>
        (length taken = n \<or> inf_queue s' = [] \<or>
           (let r = hd (inf_queue s') in
              blocks + sum_list (map (req_blocks bs reserved) (reqs @ [r])) > available \<or>
              tokens + sum_list (map req_len (reqs @ [r])) > token_limit)))"

lemma infer_pick_ok:
  assumes "list_all well_typed (inf_queue s)" "0 < bs"
    "infer_pick now available bs reserved token_limit n blocks tokens s = (reqs, s')"
  shows "pick_ok now available bs reserved token_limit n blocks tokens s reqs s'"
  using assms
proof (induction n arbitrary: blocks tokens s reqs s')
  case 0
  then show ?case by (simp add: pick_ok_def)
next
  case (Suc n)
  show ?case
  proof (cases "inf_queue s")
    case Nil
    then show ?thesis using Suc.prems(3) by (auto simp: pick_ok_def)
  next
    case (Cons r rest)
    obtain k t where r: "rd_prompt_token_ids_len r = PyInt k" "py_num (rd_arrival_time r) = Some t"
      using Suc.prems(1) Cons by (auto simp: well_typed_def split: pyval.splits)
    have rest: "list_all well_typed rest" using Suc.prems(1) Cons by simp
    show ?thesis
    proof (cases "now - t > inf_ttl s")
      case True
      let ?s1 = "s\<lparr>inf_queue := rest, inf_node := node_finish_req (rd_request_id r) (inf_node s)\<rparr>"
      have "infer_pick now available bs reserved token_limit n blocks tokens ?s1 = (reqs, s')"
        using Suc.prems(3) Cons r True by simp
      from Suc.IH [OF _ Suc.prems(2) this] rest
      have "pick_ok now available bs reserved token_limit n blocks tokens ?s1 reqs s'" by simp
      then obtain taken where "inf_queue ?s1 = taken @ inf_queue s'" "reqs = filter (not_expired (inf_ttl ?s1) now) taken"
        "length taken \<le> n" "reqs = [] \<or> blocks + sum_list (map (req_blocks bs reserved) reqs) \<le> available \<and>
           tokens + sum_list (map req_len reqs) \<le> token_limit"
        "length taken = n \<or> inf_queue s' = [] \<or>
           (let r = hd (inf_queue s') in
              blocks + sum_list (map (req_blocks bs reserved) (reqs @ [r])) > available \<or>
              tokens + sum_list (map req_len (reqs @ [r])) > token_limit)"
        unfolding pick_ok_def by blast
      moreover have "\<not> not_expired (inf_ttl s) now r" using r(2) True by (simp add: not_expired_def)
      ultimately show ?thesis
        unfolding pick_ok_def using Cons by (intro exI [of _ "r # taken"]) simp
    next
      case False
      let ?b = "blocks + req_blocks bs reserved r" and ?t = "tokens + k" and ?s1 = "s\<lparr>inf_queue := rest\<rparr>"
      have f: "not_expired (inf_ttl s) now r" using r(2) False by (simp add: not_expired_def)
      have k: "req_len r = k" using r(1) by (simp add: req_len_def)
      show ?thesis
      proof (cases "?b > available \<or> ?t > token_limit")
        case True
        then have "reqs = []" "s' = s"
          using Suc.prems(2,3) Cons r False k by (auto simp: Let_def req_blocks_def)
        then show ?thesis using True Cons k by (simp add: pick_ok_def Let_def)
      next
        case fits: False
        obtain reqs1 s2 where p: "infer_pick now available bs reserved token_limit n ?b ?t ?s1 = (reqs1, s2)" by fastforce
        then have e: "reqs = r # reqs1" "s' = s2"
          using Suc.prems(2,3) Cons r False fits k by (auto simp: Let_def req_blocks_def)
        from Suc.IH [OF _ Suc.prems(2) p] rest have "pick_ok now available bs reserved token_limit n ?b ?t ?s1 reqs1 s2" by simp
        then obtain taken where "inf_queue ?s1 = taken @ inf_queue s2" "reqs1 = filter (not_expired (inf_ttl ?s1) now) taken"
          "length taken \<le> n" "reqs1 = [] \<or> ?b + sum_list (map (req_blocks bs reserved) reqs1) \<le> available \<and>
             ?t + sum_list (map req_len reqs1) \<le> token_limit"
          "length taken = n \<or> inf_queue s2 = [] \<or>
             (let r = hd (inf_queue s2) in
                ?b + sum_list (map (req_blocks bs reserved) (reqs1 @ [r])) > available \<or>
                ?t + sum_list (map req_len (reqs1 @ [r])) > token_limit)"
          unfolding pick_ok_def by blast
        then show ?thesis
          unfolding pick_ok_def e using Cons f fits k
          by (intro exI [of _ "r # taken"]) (auto simp: Let_def add.assoc)
      qed
    qed
  qed
qed

text \<open>A fetch takes the oldest requests, at most a batch of them, drops those that waited too long and hands out the others in
  order within the blocks and tokens given; it stops early only when the queue is empty or the next request does not fit.\<close>

theorem instance_fetch_in_order:
  assumes "list_all well_typed (inf_queue s)" "0 < bs" "reserved < available" "1 \<le> batch"
    "splitwise_get_requests now available bs reserved token_limit batch s = (reqs, s')"
  shows "pick_ok now available bs reserved token_limit (nat batch) 0 0 s reqs s'"
proof (cases "inf_queue s = []")
  case True
  then show ?thesis using assms(3-5) by (auto simp: splitwise_get_requests_def infer_get_requests_def pick_ok_def)
next
  case False
  then show ?thesis
    using assms infer_pick_ok [OF assms(1,2)] by (simp add: splitwise_get_requests_def infer_get_requests_def)
qed

theorem instance_fetch_in_order_witness:
  "\<exists>reqs s'. splitwise_get_requests 9 10 4 2 20 1 instance1 = (reqs, s') \<and> map rd_request_id reqs = [PyStr ''a#1#n-0''] \<and>
     pick_ok 9 10 4 2 20 1 0 0 instance1 reqs s'"
proof -
  have w: "list_all well_typed (inf_queue instance1)" by code_simp
  obtain reqs s' where g: "splitwise_get_requests 9 10 4 2 20 1 instance1 = (reqs, s')" by fastforce
  have "map rd_request_id (fst (splitwise_get_requests 9 10 4 2 20 1 instance1)) = [PyStr ''a#1#n-0'']" by code_simp
  then have "map rd_request_id reqs = [PyStr ''a#1#n-0'']" unfolding g by simp
  moreover have "pick_ok 9 10 4 2 20 (nat 1) 0 0 instance1 reqs s'"
    using instance_fetch_in_order [OF w _ _ _ g] by simp
  ultimately show ?thesis using g by auto
qed

subsection \<open>The way back\<close>

lemma parse_local_id:
  assumes "CHR ''#'' \<notin> set rid" "CHR ''#'' \<notin> set grp"
  shows "parse_id (PyStr (local_id rid idx grp)) = Inr (rid, numeral_of idx, grp)"
proof -
  have "split_on (CHR ''#'') (rid @ CHR ''#'' # (numeral_of idx @ CHR ''#'' # grp)) = [rid, numeral_of idx, grp]"
    unfolding split_on_append [OF assms(1)] split_on_append [OF no_hash_in_numeral] split_on_none [OF assms(2)] ..
  then show ?thesis by (simp add: parse_id_def local_id_def)
qed

text \<open>A result of a request of this instance, with the parts of its id kept apart.\<close>

type_synonym local_result = "string \<times> nat \<times> string \<times> RequestOutput"

definition as_put :: "local_result \<Rightarrow> RequestOutput" where
  "as_put = (\<lambda>(rid, idx, grp, r). r\<lparr>ro_request_id := PyStr (local_id rid idx grp)\<rparr>)"

definition as_read :: "string \<Rightarrow> local_result \<Rightarrow> RequestOutput" where
  "as_read role = (\<lambda>(rid, idx, grp, r).
     (if role = ''prefill'' \<and> is_first r then r\<lparr>ro_finished := PyBool False\<rparr> else r)
       \<lparr>ro_request_id := PyStr rid, outputs := map_option (\<lambda>c. c\<lparr>tool_calls := PyNone\<rparr>) (outputs r)\<rparr>)"

definition route :: "local_result \<Rightarrow> string \<times> nat" where
  "route = (\<lambda>(rid, idx, grp, r). (if grp = [] then rid else grp, idx))"

definition sendable :: "nat \<Rightarrow> local_result \<Rightarrow> bool" where
  "sendable n = (\<lambda>(rid, idx, grp, r). CHR ''#'' \<notin> set rid \<and> CHR ''#'' \<notin> set grp \<and> idx < n \<and>
     outputs r \<noteq> None \<and> ro_metrics r \<noteq> None \<and> ro_prompt_token_ids r \<noteq> PyNone)"

lemma put_one_routes:
  assumes "sendable n x"
  shows "\<exists>m. put_one role (as_put x) groups = Inr (add_to_group (route x) [m] groups) \<and> output_from_dict m = Inr (as_read role x)"
proof -
  obtain rid idx grp r where x: "x = (rid, idx, grp, r)" by (cases x)
  obtain c me where r: "outputs r = Some c" "ro_metrics r = Some me" "ro_prompt_token_ids r \<noteq> PyNone"
    and h: "CHR ''#'' \<notin> set rid" "CHR ''#'' \<notin> set grp"
    using assms x by (auto simp: sendable_def)
  define r2 where "r2 = (if role = ''prefill'' \<and> is_first r then r\<lparr>ro_request_id := PyStr rid, ro_finished := PyBool False\<rparr>
    else r\<lparr>ro_request_id := PyStr rid\<rparr>)"
  have p: "put_one role (as_put x) groups = Inr (add_to_group (route x) [output_to_dict r2] groups)"
    using parse_local_id [OF h, of idx] r
    by (auto simp: put_one_def as_put_def route_def x is_first_def r2_def Let_def)
  have "output_from_dict (output_to_dict r2) = Inr (as_read role x)"
    using output_roundtrip [of r2 c me] r by (simp add: r2_def as_read_def x)
  with p show ?thesis by blast
qed

definition readings :: "pydict list \<Rightarrow> RequestOutput res list" where
  "readings ms = map output_from_dict ms"

lemma put_loop_routes:
  assumes "list_all (sendable n) xs"
  shows "\<exists>groups' node'. put_loop role (map as_put xs) groups node = (Inr groups', node') \<and>
    (\<forall>k. readings (found (map_of groups' k)) =
       readings (found (map_of groups k)) @ map (\<lambda>x. Inr (as_read role x)) (filter (\<lambda>x. route x = k) xs)) \<and>
    (distinct (map fst groups) \<longrightarrow> distinct (map fst groups')) \<and>
    fst ` set groups' = fst ` set groups \<union> route ` set xs"
  using assms
proof (induction xs arbitrary: groups node)
  case Nil
  then show ?case by simp
next
  case (Cons x xs)
  have s: "sendable n x" "list_all (sendable n) xs" using Cons.prems by simp_all
  obtain m where m: "put_one role (as_put x) groups = Inr (add_to_group (route x) [m] groups)"
    "output_from_dict m = Inr (as_read role x)" using put_one_routes [OF s(1)] by blast
  define n1 where "n1 = (if is_error (as_put x) \<or> truthy (ro_finished (as_put x))
      then node_finish_req (ro_request_id (as_put x)) node else node)"
  obtain groups' node' where g: "put_loop role (map as_put xs) (add_to_group (route x) [m] groups) n1 = (Inr groups', node')"
    "\<forall>k. readings (found (map_of groups' k)) = readings (found (map_of (add_to_group (route x) [m] groups) k)) @
       map (\<lambda>x. Inr (as_read role x)) (filter (\<lambda>x. route x = k) xs)"
    "distinct (map fst (add_to_group (route x) [m] groups)) \<longrightarrow> distinct (map fst groups')"
    "fst ` set groups' = fst ` set (add_to_group (route x) [m] groups) \<union> route ` set xs"
    using Cons.IH [OF s(2)] by blast
  have "fst ` set (add_to_group (route x) [m] groups) = insert (route x) (fst ` set groups)"
    by (simp add: add_to_group_def dom_update)
  then have f: "fst ` set groups' = fst ` set groups \<union> route ` set (x # xs)" using g(4) by simp
  have p: "put_loop role (map as_put (x # xs)) groups node = (Inr groups', node')"
    using m(1) g(1) by (simp add: n1_def Let_def)
  have d: "distinct (map fst groups) \<longrightarrow> distinct (map fst groups')" using g(3) distinct_add_to_group by metis
  have "readings (found (map_of groups' k)) =
      readings (found (map_of groups k)) @ map (\<lambda>x. Inr (as_read role x)) (filter (\<lambda>x. route x = k) (x # xs))" for k
    using spec [OF g(2), of k] m(2) by (cases "route x = k") (simp_all add: map_of_add_to_group readings_def)
  then show ?case using p d f by blast
qed

text \<open>What waits in a writer for a key.\<close>

definition queued_for :: "string \<Rightarrow> writer \<Rightarrow> pydict list" where
  "queued_for key w = map snd (filter (\<lambda>(k, item). k = key) (rev (wr_data w)))"

lemma queued_put: "queued_for key (writer_put key' items w) = queued_for key w @ (if key' = key then items else [])"
  by (simp add: queued_for_def writer_put_def comp_def rev_map [symmetric] filter_map)

lemma hand_to_writers_queued:
  assumes "distinct (map fst groups)" "\<forall>(key, idx) \<in> fst ` set groups. idx < length ws"
  shows "\<exists>ws'. hand_to_writers groups ws = (Inr (), ws') \<and> length ws' = length ws \<and>
    (\<forall>i < length ws. \<forall>key. queued_for key (ws' ! i) = queued_for key (ws ! i) @ found (map_of groups (key, i)))"
  using assms
proof (induction groups arbitrary: ws)
  case Nil
  then show ?case by simp
next
  case (Cons g groups)
  obtain key idx items where g: "g = ((key, idx), items)" by (cases g) auto
  have idx: "idx < length ws" using Cons.prems(2) g by auto
  let ?ws = "ws[idx := writer_put key items (ws ! idx)]"
  have "distinct (map fst groups)" "\<forall>(key, idx) \<in> fst ` set groups. idx < length ?ws" using Cons.prems by auto
  from Cons.IH [OF this] obtain ws' where ws': "hand_to_writers groups ?ws = (Inr (), ws')" "length ws' = length ws"
    "\<forall>i < length ws. \<forall>k. queued_for k (ws' ! i) = queued_for k (?ws ! i) @ found (map_of groups (k, i))" by auto
  have no: "map_of groups (key, idx) = None" using Cons.prems(1) g by (simp add: map_of_eq_None_iff)
  have "queued_for k (ws' ! i) = queued_for k (ws ! i) @ found (map_of (g # groups) (k, i))" if "i < length ws" for i k
    using ws'(3) that idx no by (cases "i = idx"; cases "k = key") (auto simp: g queued_put)
  then show ?case using ws' idx g by auto
qed

text \<open>C20: results put for requests of this instance wait, for each reader and writer, behind those that waited before, in the order in
  which they were put, provided that ids and groups contain no \<open>#\<close>, the writers exist, and outputs, metrics and prompt tokens are
  present; read back they are the results with the ids the front end gave, with the calls of tools gone and, for a first token of an
  instance that prefills, not finished.\<close>

theorem results_find_their_reader:
  assumes "list_all (sendable (length (inf_writers s))) xs"
  shows "\<exists>s'. infer_put_results now (map as_put xs) s = (Inr (), s') \<and>
    (\<forall>i < length (inf_writers s). \<forall>key.
       readings (queued_for key (inf_writers s' ! i)) = readings (queued_for key (inf_writers s ! i)) @
         map (\<lambda>x. Inr (as_read (inf_role s) x)) (filter (\<lambda>x. route x = (key, i)) xs))"
proof -
  obtain groups n where g: "put_loop (inf_role s) (map as_put xs) [] (inf_node s) = (Inr groups, n)"
    "\<forall>k. readings (found (map_of groups k)) = map (\<lambda>x. Inr (as_read (inf_role s) x)) (filter (\<lambda>x. route x = k) xs)"
    "distinct (map fst groups)" "fst ` set groups = route ` set xs"
    using put_loop_routes [OF assms, of "inf_role s" "[]" "inf_node s"] by (auto simp: readings_def)
  have "\<forall>(key, idx) \<in> fst ` set groups. idx < length (inf_writers s)"
    unfolding g(4) using assms by (auto simp: list_all_iff sendable_def route_def)
  from hand_to_writers_queued [OF g(3) this] obtain ws where ws: "hand_to_writers groups (inf_writers s) = (Inr (), ws)"
    "\<forall>i < length (inf_writers s). \<forall>key. queued_for key (ws ! i) = queued_for key (inf_writers s ! i) @ found (map_of groups (key, i))"
    by blast
  let ?s = "s\<lparr>inf_node := update_req_timestamp (map ro_request_id (map as_put xs)) now n, inf_writers := ws\<rparr>"
  have "infer_put_results now (map as_put xs) s = (Inr (), ?s)" by (simp add: infer_put_results_def g(1) ws(1))
  moreover have "readings (queued_for key (inf_writers ?s ! i)) = readings (queued_for key (inf_writers s ! i)) @
      map (\<lambda>x. Inr (as_read (inf_role s) x)) (filter (\<lambda>x. route x = (key, i)) xs)" if "i < length (inf_writers s)" for i key
  proof -
    have "queued_for key (ws ! i) = queued_for key (inf_writers s ! i) @ found (map_of groups (key, i))" using ws(2) that by blast
    then show ?thesis using g(2) by (simp add: readings_def)
  qed
  ultimately show ?thesis by blast
qed

abbreviation (input) results1 :: "local_result list" where
  "results1 \<equiv> [(''a'', 1, ''n-0'', token_result 0 ''z''), (''bc'', 0, ''n-0'', token_result 0 ''z''), (''a'', 1, ''n-0'', token_result 1 ''z'')]"

theorem results_find_their_reader_witness:
  "\<exists>s'. infer_put_results 9 (map as_put results1) instance1 = (Inr (), s') \<and>
     readings (queued_for ''n-0'' (inf_writers s' ! 1)) = [Inr (token_result 0 ''a''), Inr (token_result 1 ''a'')]"
proof -
  have s: "list_all (sendable (length (inf_writers instance1))) results1" by code_simp
  have "inf_role instance1 = ''mixed''" by code_simp
  moreover have "queued_for ''n-0'' (inf_writers instance1 ! 1) = []" "1 < length (inf_writers instance1)" by code_simp+
  moreover have "map (\<lambda>x. Inr (as_read ''mixed'' x)) (filter (\<lambda>x. route x = (''n-0'', 1)) results1) =
      [Inr (token_result 0 ''a''), Inr (token_result 1 ''a'') :: RequestOutput res]"
    by code_simp
  ultimately show ?thesis using results_find_their_reader [OF s, of 9] by (force simp: readings_def)
qed

text \<open>A writer pushes what waits for a key in order.\<close>

lemma group_by_key_found: "found (map_of (group_by_key xs groups) key) =
    found (map_of groups key) @ map snd (filter (\<lambda>(k, item). k = key) xs)"
proof (induction xs groups rule: group_by_key.induct)
  case (2 key' item rest groups)
  then show ?case by (simp add: map_of_add_to_group)
qed simp

lemma writer_step_order:
  assumes "writer_step w = (pushed, w')"
  shows "queued_for key w = found (map_of pushed key) @ queued_for key w'"
proof -
  let ?n = "min (length (wr_data w)) (wr_batch w)"
  have "rev (wr_data w) = take ?n (rev (wr_data w)) @ rev (take (length (wr_data w) - ?n) (wr_data w))"
    by (simp add: rev_take)
  then have "queued_for key w = map snd (filter (\<lambda>(k, item). k = key) (take ?n (rev (wr_data w)))) @
      map snd (filter (\<lambda>(k, item). k = key) (rev (take (length (wr_data w) - ?n) (wr_data w))))"
    unfolding queued_for_def by (metis filter_append map_append)
  then show ?thesis using assms by (auto simp: writer_step_def Let_def group_by_key_found queued_for_def)
qed

text \<open>When the id of a request contains a \<open>#\<close>, putting its result raises, and with it every result of the same call is lost.\<close>

theorem hash_in_id_loses_results:
  assumes "CHR ''#'' \<in> set rid" "result \<in> set results" "ro_request_id result = PyStr (local_id rid idx grp)"
  shows "\<exists>e s'. infer_put_results now results s = (Inl e, s') \<and> inf_writers s' = inf_writers s"
proof -
  have "count_list rid (CHR ''#'') \<noteq> 0" using assms(1) by (simp add: count_list_0_iff)
  then have "length (split_on (CHR ''#'') (local_id rid idx grp)) > 3" by (simp add: split_on_length local_id_def)
  then have "parse_id (ro_request_id result) = Inl ValueError"
    by (auto simp: parse_id_def assms(3) split: list.split)
  then have one: "put_one role result groups = Inl ValueError" for role groups by (simp add: put_one_def)
  have "\<exists>e n'. put_loop role results groups n = (Inl e, n')" for role groups n
    using assms(2)
  proof (induction results arbitrary: groups n)
    case (Cons x xs)
    then show ?case using one by (cases "x = result") (auto simp: Let_def split: sum.split)
  qed simp
  then obtain e n' where "put_loop (inf_role s) results [] (inf_node s) = (Inl e, n')" by blast
  then show ?thesis by (simp add: infer_put_results_def)
qed

theorem hash_in_id_loses_results_witness:
  "\<exists>e s'. infer_put_results 9 (map as_put results1 @ [as_put (''x#1'', 0, ''n-0'', token_result 0 ''z'')]) instance1 = (Inl e, s') \<and>
     inf_writers s' = inf_writers instance1"
  by (rule hash_in_id_loses_results [of "''x#1''" "as_put (''x#1'', 0, ''n-0'', token_result 0 ''z'')" _ 0 "''n-0''"])
    (simp_all add: as_put_def)

end
