(* ===== verification/SharedStore.thy ===== *)
theory SharedStore
  imports PyValue
begin

text \<open>
  The store all global schedulers share (\<open>scheduler/storage.py\<close>). The commands of the server are a parameter, one function
  for each, on a state of the server; \<open>AdaptedRedis\<close> builds its operations from them. The scripts run in the
  server are translated like the rest of the code; a pipeline is one command after the other. Messages are seen as the dictionaries
  they denote.
\<close>

record 's redis =
  r_rpush :: "string \<Rightarrow> pydict list \<Rightarrow> 's \<Rightarrow> 's"
  r_lpush :: "string \<Rightarrow> pydict list \<Rightarrow> 's \<Rightarrow> 's"
  r_lpop :: "string \<Rightarrow> nat \<Rightarrow> 's \<Rightarrow> pydict list option \<times> 's"
  r_lrange :: "string \<Rightarrow> int \<Rightarrow> int \<Rightarrow> 's \<Rightarrow> pydict list"
  r_ltrim :: "string \<Rightarrow> int \<Rightarrow> int \<Rightarrow> 's \<Rightarrow> 's"
  r_blpop :: "string list \<Rightarrow> 's \<Rightarrow> (string \<times> pydict) option \<times> 's"
  r_zincrby :: "string \<Rightarrow> int \<Rightarrow> string \<Rightarrow> 's \<Rightarrow> int \<times> 's"
  r_zrem :: "string \<Rightarrow> string \<Rightarrow> 's \<Rightarrow> bool \<times> 's"
  r_zrangebyscore :: "string \<Rightarrow> rat \<Rightarrow> nat \<Rightarrow> nat \<Rightarrow> 's \<Rightarrow> string list"
  r_exists :: "string \<Rightarrow> 's \<Rightarrow> bool"
  r_delete :: "string \<Rightarrow> 's \<Rightarrow> 's"
  r_expire :: "string \<Rightarrow> 's \<Rightarrow> 's"

definition lua_lpop :: "'s redis \<Rightarrow> string \<Rightarrow> nat \<Rightarrow> 's \<Rightarrow> pydict list \<times> 's" where
  "lua_lpop R key n s =
     (let elements = r_lrange R key 0 (int n - 1) s
      in (elements, if length elements > 0 then r_ltrim R key (int n) (- 1) s else s))"

definition lua_zincrby :: "'s redis \<Rightarrow> string \<Rightarrow> int \<Rightarrow> string \<Rightarrow> int option \<Rightarrow> 's \<Rightarrow> int \<times> 's" where
  "lua_zincrby R key amount member rem_amount s =
     (case r_zincrby R key amount member s of (current, s1) \<Rightarrow>
        if rem_amount = Some current then (0, snd (r_zrem R key member s1)) else (current, s1))"

definition ad_rpush :: "'s redis \<Rightarrow> string \<Rightarrow> pydict list \<Rightarrow> bool \<Rightarrow> 's \<Rightarrow> 's" where
  "ad_rpush R name vs ttl s = (let s1 = r_rpush R name vs s in if ttl then r_expire R name s1 else s1)"

definition ad_zincrby :: "'s redis \<Rightarrow> string \<Rightarrow> int \<Rightarrow> string \<Rightarrow> int option \<Rightarrow> bool \<Rightarrow> 's \<Rightarrow> int \<times> 's" where
  "ad_zincrby R name amount member rem_amount ttl s =
     (case (if rem_amount = None then r_zincrby R name amount member s
            else lua_zincrby R name amount member rem_amount s) of
        (v, s1) \<Rightarrow> (v, if ttl then r_expire R name s1 else s1))"

text \<open>\<open>old\<close>: the server has no \<open>LPOP\<close> with a count. The script answers an empty list where \<open>LPOP\<close> answers \<open>None\<close>.\<close>

definition ad_lpop :: "'s redis \<Rightarrow> bool \<Rightarrow> string \<Rightarrow> nat \<Rightarrow> bool \<Rightarrow> 's \<Rightarrow> pydict list option \<times> 's" where
  "ad_lpop R old name n ttl s =
     (case (if old then (case lua_lpop R name n s of (es, s1) \<Rightarrow> (Some es, s1)) else r_lpop R name n s) of
        (es, s1) \<Rightarrow> (es, if ttl then r_expire R name s1 else s1))"

subsection \<open>What is documented of the commands\<close>

text \<open>
  \<open>L\<close> gives the lists and \<open>Z\<close> the scores of the sorted sets a state of the server holds. The keys used do not expire
  within the operations considered; counts are positive. A key of the server holds a value of one type, and the
  laws are about keys used as they are here: the list commands and \<open>DEL\<close> get the names of queues, the others those of load
  tables, and no queue has the name of a table (lemma \<open>queue_not_table\<close>). So lists and tables are two name spaces, and
  a command on a queue leaves every table as it is.
\<close>

definition redis_laws :: "'s redis \<Rightarrow> ('s \<Rightarrow> string \<Rightarrow> pydict list) \<Rightarrow> ('s \<Rightarrow> string \<Rightarrow> string \<Rightarrow> int option) \<Rightarrow> bool" where
  "redis_laws R L Z =
     ((\<forall>k vs s. L (r_rpush R k vs s) = (L s)(k := L s k @ vs) \<and> Z (r_rpush R k vs s) = Z s) \<and>
      (\<forall>k vs s. L (r_lpush R k vs s) = (L s)(k := rev vs @ L s k) \<and> Z (r_lpush R k vs s) = Z s) \<and>
      (\<forall>k n s. fst (r_lpop R k n s) = (if L s k = [] then None else Some (take n (L s k))) \<and>
         L (snd (r_lpop R k n s)) = (L s)(k := drop n (L s k)) \<and> Z (snd (r_lpop R k n s)) = Z s) \<and>
      (\<forall>k n s. 0 < n \<longrightarrow> r_lrange R k 0 (int n - 1) s = take n (L s k)) \<and>
      (\<forall>k n s. L (r_ltrim R k (int n) (- 1) s) = (L s)(k := drop n (L s k)) \<and> Z (r_ltrim R k (int n) (- 1) s) = Z s) \<and>
      (\<forall>ks s. Z (snd (r_blpop R ks s)) = Z s \<and>
         (case fst (r_blpop R ks s) of
            None \<Rightarrow> L (snd (r_blpop R ks s)) = L s
          | Some (k, m) \<Rightarrow> k \<in> set ks \<and> L s k = m # L (snd (r_blpop R ks s)) k \<and>
              (\<forall>k'. k' \<noteq> k \<longrightarrow> L (snd (r_blpop R ks s)) k' = L s k'))) \<and>
      (\<forall>k a m s. let v = (case Z s k m of None \<Rightarrow> 0 | Some v \<Rightarrow> v) + a in
         fst (r_zincrby R k a m s) = v \<and> L (snd (r_zincrby R k a m s)) = L s \<and>
         Z (snd (r_zincrby R k a m s)) = (Z s)(k := (Z s k)(m := Some v))) \<and>
      (\<forall>k m s. L (snd (r_zrem R k m s)) = L s \<and> Z (snd (r_zrem R k m s)) = (Z s)(k := (Z s k)(m := None))) \<and>
      (\<forall>k lo off n s. \<forall>m \<in> set (r_zrangebyscore R k lo off n s). \<exists>v. Z s k m = Some v \<and> of_int v \<ge> lo) \<and>
      (\<forall>k s. L (r_delete R k s) = (L s)(k := []) \<and> Z (r_delete R k s) = Z s) \<and>
      (\<forall>k s. L (r_expire R k s) = L s \<and> Z (r_expire R k s) = Z s))"

definition score :: "int option \<Rightarrow> int" where
  "score v = (case v of None \<Rightarrow> 0 | Some i \<Rightarrow> i)"

lemma score_simps [simp]: "score None = 0" "score (Some i) = i"
  by (simp_all add: score_def)

lemma ad_rpush_law:
  "redis_laws R L Z \<Longrightarrow> L (ad_rpush R k vs ttl s) = (L s)(k := L s k @ vs) \<and> Z (ad_rpush R k vs ttl s) = Z s"
  by (simp add: redis_laws_def ad_rpush_def Let_def)

lemma lpush_law: "redis_laws R L Z \<Longrightarrow> L (r_lpush R k vs s) = (L s)(k := rev vs @ L s k) \<and> Z (r_lpush R k vs s) = Z s"
  by (simp add: redis_laws_def)

lemma lpop_law:
  assumes "redis_laws R L Z" "r_lpop R k n s = (es, s1)"
  shows "es = (if L s k = [] then None else Some (take n (L s k))) \<and> L s1 = (L s)(k := drop n (L s k)) \<and> Z s1 = Z s"
proof -
  have "\<forall>k n s. fst (r_lpop R k n s) = (if L s k = [] then None else Some (take n (L s k))) \<and>
      L (snd (r_lpop R k n s)) = (L s)(k := drop n (L s k)) \<and> Z (snd (r_lpop R k n s)) = Z s"
    using assms(1) unfolding redis_laws_def by (elim conjE)
  then show ?thesis using assms(2) by (metis fst_conv snd_conv)
qed

lemma lua_lpop_law:
  assumes "redis_laws R L Z" "0 < n" "lua_lpop R k n s = (es, s1)"
  shows "es = take n (L s k) \<and> L s1 = (L s)(k := drop n (L s k)) \<and> Z s1 = Z s"
proof -
  have r: "r_lrange R k 0 (int n - 1) s = take n (L s k)"
    and t: "L (r_ltrim R k (int n) (- 1) s) = (L s)(k := drop n (L s k)) \<and> Z (r_ltrim R k (int n) (- 1) s) = Z s"
    using assms(1,2) unfolding redis_laws_def by simp_all
  show ?thesis using assms(2,3) t by (cases "L s k = []") (auto simp: lua_lpop_def Let_def r)
qed

text \<open>The script for old servers pops what the command of new ones pops.\<close>

lemma ad_lpop_law:
  assumes "redis_laws R L Z" "0 < n" "ad_lpop R old k n ttl s = (es, s1)"
  shows "found es = take n (L s k) \<and> L s1 = (L s)(k := drop n (L s k)) \<and> Z s1 = Z s"
proof -
  have e: "L (r_expire R k s') = L s' \<and> Z (r_expire R k s') = Z s'" for s' using assms(1) by (simp add: redis_laws_def)
  show ?thesis
  proof (cases old)
    case True
    then show ?thesis
      using assms(3) lua_lpop_law [OF assms(1,2)] e by (cases "lua_lpop R k n s") (auto simp: ad_lpop_def split: if_splits)
  next
    case False
    obtain es1 s2 where p: "r_lpop R k n s = (es1, s2)" by fastforce
    then have "es = es1" "s1 = (if ttl then r_expire R k s2 else s2)" using assms(3) False by (auto simp: ad_lpop_def)
    then show ?thesis using lpop_law [OF assms(1) p] e by simp
  qed
qed

lemma zincrby_law:
  assumes "redis_laws R L Z" "r_zincrby R k a m s = (v, s1)"
  shows "v = score (Z s k m) + a \<and> L s1 = L s \<and> Z s1 = (Z s)(k := (Z s k)(m := Some v))"
proof -
  have "let v = (case Z s k m of None \<Rightarrow> 0 | Some v \<Rightarrow> v) + a in
         fst (r_zincrby R k a m s) = v \<and> L (snd (r_zincrby R k a m s)) = L s \<and>
         Z (snd (r_zincrby R k a m s)) = (Z s)(k := (Z s k)(m := Some v))"
    using assms(1) unfolding redis_laws_def by blast
  then show ?thesis by (simp add: assms(2) score_def Let_def)
qed

lemma zrem_law: "redis_laws R L Z \<Longrightarrow> L (snd (r_zrem R k m s)) = L s \<and> Z (snd (r_zrem R k m s)) = (Z s)(k := (Z s k)(m := None))"
  by (simp add: redis_laws_def)

lemma expire_law: "redis_laws R L Z \<Longrightarrow> L (r_expire R k s) = L s \<and> Z (r_expire R k s) = Z s"
  by (simp add: redis_laws_def)

lemma ad_zincrby_law:
  assumes "redis_laws R L Z"
  shows "L (snd (ad_zincrby R k a m rem ttl s)) = L s \<and>
    score (Z (snd (ad_zincrby R k a m (Some 0) ttl s)) k m) = score (Z s k m) + a \<and>
    score (Z (snd (ad_zincrby R k a m None ttl s)) k m) = score (Z s k m) + a \<and>
    (\<forall>k' m'. (k', m') \<noteq> (k, m) \<longrightarrow> Z (snd (ad_zincrby R k a m rem ttl s)) k' m' = Z s k' m')"
proof -
  obtain v s1 where z: "r_zincrby R k a m s = (v, s1)" by fastforce
  note l = zincrby_law [OF assms z] zrem_law [OF assms] expire_law [OF assms]
  show ?thesis by (auto simp: ad_zincrby_def lua_zincrby_def z l)
qed

lemma blpop_law:
  assumes "redis_laws R L Z" "r_blpop R ks s = (e, s1)"
  shows "Z s1 = Z s \<and>
    (case e of None \<Rightarrow> L s1 = L s
     | Some (k, m) \<Rightarrow> k \<in> set ks \<and> L s k = m # L s1 k \<and> (\<forall>k'. k' \<noteq> k \<longrightarrow> L s1 k' = L s k'))"
proof -
  have "Z (snd (r_blpop R ks s)) = Z s \<and>
         (case fst (r_blpop R ks s) of
            None \<Rightarrow> L (snd (r_blpop R ks s)) = L s
          | Some (k, m) \<Rightarrow> k \<in> set ks \<and> L s k = m # L (snd (r_blpop R ks s)) k \<and>
              (\<forall>k'. k' \<noteq> k \<longrightarrow> L (snd (r_blpop R ks s)) k' = L s k'))"
    using assms(1) unfolding redis_laws_def by blast
  then show ?thesis unfolding assms(2) fst_conv snd_conv .
qed

lemma zrange_law:
  assumes "redis_laws R L Z" "m \<in> set (r_zrangebyscore R k lo off n s)"
  shows "\<exists>v. Z s k m = Some v"
proof -
  have "\<forall>k lo off n s. \<forall>m \<in> set (r_zrangebyscore R k lo off n s). \<exists>v. Z s k m = Some v \<and> of_int v \<ge> lo"
    using assms(1) unfolding redis_laws_def by (elim conjE)
  then show ?thesis using assms(2) by blast
qed

end
