(* ===== verification/GlobalScheduler.thy ===== *)
theory GlobalScheduler
  imports SharedStore PyText SchedulerData LocalScheduler
begin

text \<open>
  The scheduler whose queues are shared by several instances (\<open>scheduler/global_scheduler.py\<close>). A node takes requests from
  its own queue; when that is empty it steals from another node, found by the load table. Results go back to the node
  that accepted the request. The store is a parameter (\<open>SharedStore\<close>), as are the checksum \<open>crc\<close> and the random
  functions \<open>choice\<close> and \<open>sample\<close>. Operations under the mutex are atomic, the two critical sections of
  \<open>_put_results_worker\<close> are taken as one, and a wait is modelled by the state found when it ends.
\<close>

record global_sched =
  gs_topic :: string
  gs_name :: string
  gs_shard :: nat
  load_shards_num :: nat
  min_load_score :: rat
  gs_chunked_prefill :: bool
  gs_max_partial :: int
  gs_max_long_partial :: int
  gs_long_threshold :: int
  load_slot :: nat
  local_responses :: "(pyval \<times> ScheduledResponse list) list"
  stolen_requests :: "(pyval \<times> ScheduledRequest) list"

subsection \<open>Names\<close>

definition instance_name :: "global_sched \<Rightarrow> string \<Rightarrow> string" where
  "instance_name g n = gs_topic g @ ''.ins.'' @ n"

definition request_queue :: "global_sched \<Rightarrow> string \<Rightarrow> string" where
  "request_queue g n = gs_topic g @ ''.req.'' @ n"

definition response_queue :: "global_sched \<Rightarrow> string \<Rightarrow> string" where
  "response_queue g n = gs_topic g @ ''.resp.'' @ n"

definition name_from_request_queue :: "global_sched \<Rightarrow> string \<Rightarrow> string" where
  "name_from_request_queue g q = drop (length (gs_topic g @ ''.req.'')) q"

definition load_table :: "global_sched \<Rightarrow> nat \<Rightarrow> string" where
  "load_table g shard = gs_topic g @ ''.load.'' @ numeral_of shard"

text \<open>Nodes of one topic never use a name both for a queue and for a load table.\<close>

lemma queue_not_table:
  "gs_topic g' = gs_topic g \<Longrightarrow> request_queue g n \<noteq> load_table g' shard \<and> response_queue g n \<noteq> load_table g' shard"
  by (simp add: request_queue_def response_queue_def load_table_def)

definition own_table :: "global_sched \<Rightarrow> string" where
  "own_table g = load_table g (gs_shard g)"

definition update_config :: "(string \<Rightarrow> nat) \<Rightarrow> nat option \<Rightarrow> bool \<Rightarrow> global_sched \<Rightarrow> global_sched" where
  "update_config crc shards reallocate g =
     (let g1 = (case shards of None \<Rightarrow> g | Some n \<Rightarrow> if n = 0 then g else g\<lparr>load_shards_num := n\<rparr>)
      in if reallocate then g1\<lparr>gs_shard := crc (gs_name g1) mod load_shards_num g1\<rparr> else g1)"

subsection \<open>Requests in\<close>

text \<open>The requests that are new, and for each task whether it was refused.\<close>

fun accept_requests ::
  "global_sched \<Rightarrow> rat \<Rightarrow> RequestData list \<Rightarrow> (pyval \<times> ScheduledResponse list) list \<Rightarrow>
   ScheduledRequest list \<times> (pyval \<times> string option) list \<times> (pyval \<times> ScheduledResponse list) list" where
  "accept_requests g now [] resps = ([], [], resps)"
| "accept_requests g now (r # rs) resps =
     (if map_of resps (rd_request_id r) \<noteq> None then
        (case accept_requests g now rs resps of (accepted, res, resps1) \<Rightarrow>
           (accepted, (rd_request_id r, Some ''duplicate request_id'') # res, resps1))
      else
        (case accept_requests g now rs (resps @ [(rd_request_id r, [])]) of (accepted, res, resps1) \<Rightarrow>
           (new_ScheduledRequest r (request_queue g (gs_name g)) (response_queue g (gs_name g)) now # accepted,
            (rd_request_id r, None) # res, resps1)))"

definition put_requests_worker ::
  "'s redis \<Rightarrow> rat \<Rightarrow> RequestData list \<Rightarrow> global_sched \<times> 's \<Rightarrow> (pyval \<times> string option) list \<times> global_sched \<times> 's" where
  "put_requests_worker R now rs = (\<lambda>(g, s).
     case accept_requests g now rs (local_responses g) of (accepted, res, resps) \<Rightarrow>
       (res, g\<lparr>local_responses := resps\<rparr>,
        if accepted = [] then s
        else snd (ad_zincrby R (own_table g) (int (length accepted)) (gs_name g) (Some 0) True
               (ad_rpush R (request_queue g (gs_name g)) (map serialize_request accepted) True s))))"

subsection \<open>Requests out\<close>

type_synonym pulled = "(string \<times> pydict) list"

definition split_batches :: "int \<Rightarrow> nat list" where
  "split_batches batch =
     (let mini = (batch + 1) div 2;
          b1 = (if batch \<ge> mini then (mini, batch - mini) else if batch > 0 then (batch, 0) else (0, batch));
          b2 = (if snd b1 \<ge> mini then mini else if snd b1 > 0 then snd b1 else 0)
      in map nat (filter (\<lambda>b. b > 0) [fst b1, b2]))"

fun pop_local :: "'s redis \<Rightarrow> bool \<Rightarrow> global_sched \<Rightarrow> nat list \<Rightarrow> 's \<Rightarrow> pulled \<times> 's" where
  "pop_local R old g [] s = ([], s)"
| "pop_local R old g (b # bs) s =
     (case ad_lpop R old (request_queue g (gs_name g)) b True s of
        (None, s1) \<Rightarrow> ([], s1)
      | (Some es, s1) \<Rightarrow>
          (case pop_local R old g bs
                  (snd (ad_zincrby R (own_table g) (- int (length es)) (gs_name g) (Some 0) True s1)) of
             (ms, s2) \<Rightarrow> (map (\<lambda>e. (request_queue g (gs_name g), e)) es @ ms, s2)))"

text \<open>The load tables are looked up from the next slot on, until one has members.\<close>

fun lookup_members :: "'s redis \<Rightarrow> global_sched \<Rightarrow> nat \<Rightarrow> 's \<Rightarrow> nat \<Rightarrow> string \<times> string list \<times> nat" where
  "lookup_members R g 0 s slot = ([], [], slot)"
| "lookup_members R g (Suc n) s slot =
     (let table = load_table g (slot mod load_shards_num g);
          members = r_zrangebyscore R table (min_load_score g) 0 50 s
      in if members \<noteq> [] \<or> n = 0 then (table, members, Suc slot) else lookup_members R g n s (Suc slot))"

type_synonym sample = "string list \<Rightarrow> nat \<Rightarrow> string list"

text \<open>The names to steal from, with the table that has them; no table at all raises at the first use of its members.\<close>

definition find_others ::
  "'s redis \<Rightarrow> sample \<Rightarrow> pulled \<Rightarrow> global_sched \<times> 's \<Rightarrow> (global_sched, string \<times> string list) outcome" where
  "find_others R sample es = (\<lambda>(g, s).
     if es \<noteq> [] then (Inr ([], []), g)
     else if min 5 (load_shards_num g) = 0 then (Inl PyException, g)
     else
       (case lookup_members R g (min 5 (load_shards_num g)) s (load_slot g) of (table, members, slot) \<Rightarrow>
          (Inr (table, if members = [] then []
                       else filter (\<lambda>n. n \<noteq> gs_name g) (sample members (min 10 (length members)))),
           g\<lparr>load_slot := slot\<rparr>)))"

definition steal ::
  "'s redis \<Rightarrow> bool \<Rightarrow> (string list \<Rightarrow> string) \<Rightarrow> global_sched \<Rightarrow> nat \<Rightarrow> string \<Rightarrow> string list \<Rightarrow> 's \<Rightarrow> pulled \<times> 's" where
  "steal R old choice g b table names s =
     (if names = [] then ([], s)
      else
        let lucky = choice names in
        (case ad_lpop R old (request_queue g lucky) b False s of (es, s1) \<Rightarrow>
           if es \<noteq> None \<and> found es \<noteq> [] then
             (map (\<lambda>e. (request_queue g lucky, e)) (found es),
              snd (ad_zincrby R table (- int (length (found es))) lucky (Some 0) True s1))
           else ([], if r_exists R (instance_name g lucky) s1 then s1 else snd (r_zrem R table lucky s1))))"

definition table_for :: "global_sched \<Rightarrow> string \<Rightarrow> string \<Rightarrow> string" where
  "table_for g table n = (if n \<noteq> gs_name g then table else own_table g)"

definition blocked_read ::
  "'s redis \<Rightarrow> global_sched \<Rightarrow> string \<Rightarrow> string list \<Rightarrow> pulled \<Rightarrow> 's \<Rightarrow> pulled \<times> 's" where
  "blocked_read R g table names es s =
     (if es \<noteq> [] then (es, s)
      else
        (case r_blpop R (request_queue g (gs_name g) # map (request_queue g) names) s of
           (None, s1) \<Rightarrow> ([], s1)
         | (Some (q, m), s1) \<Rightarrow>
             let n = name_from_request_queue g q
             in ([(q, m)], snd (ad_zincrby R (table_for g table n) (- 1) n (Some 0) True s1))))"

text \<open>Everything one call takes from the queues; \<open>None\<close> of the messages have been looked at yet.\<close>

definition pull ::
  "'s redis \<Rightarrow> bool \<Rightarrow> (string list \<Rightarrow> string) \<Rightarrow> sample \<Rightarrow> nat list \<Rightarrow> global_sched \<times> 's \<Rightarrow>
   (global_sched \<times> 's, string \<times> pulled) outcome" where
  "pull R old choice sample batches = (\<lambda>(g, s).
     case pop_local R old g batches s of (es, s1) \<Rightarrow>
       (case find_others R sample es (g, s1) of
          (Inl e, g1) \<Rightarrow> (Inl e, (g1, s1))
        | (Inr (table, names), g1) \<Rightarrow>
            (case steal R old choice g1 (hd batches) table names s1 of (es1, s2) \<Rightarrow>
               (case blocked_read R g1 table names (es @ es1) s2 of (es2, s3) \<Rightarrow> (Inr (table, es2), (g1, s3))))))"

text \<open>One request of the batch: the budget after it, and whether it is still within it.\<close>

definition gs_charge :: "global_sched \<Rightarrow> int \<Rightarrow> int \<Rightarrow> int \<Rightarrow> int \<Rightarrow> int \<Rightarrow> budget \<Rightarrow> budget \<times> bool" where
  "gs_charge g available bs reserved token_limit n b =
     (let b1 = b\<lparr>current_prefill_tokens := current_prefill_tokens b + n,
                 required_total_blocks := required_total_blocks b + (calc_required_blocks n bs + reserved)\<rparr>
      in if required_total_blocks b1 > available then (b1, False)
         else if gs_chunked_prefill g then
           if n > gs_long_threshold g then
             let b2 = b1\<lparr>long_partial_requests := long_partial_requests b1 + 1\<rparr> in
             if long_partial_requests b2 > gs_max_long_partial g then (b2, False)
             else (b2, short_partial_requests b2 + long_partial_requests b2 \<le> gs_max_partial g)
           else
             let b2 = b1\<lparr>short_partial_requests := short_partial_requests b1 + 1\<rparr> in
             (b2, short_partial_requests b2 + long_partial_requests b2 \<le> gs_max_partial g)
         else (b1, current_prefill_tokens b1 \<le> token_limit))"

text \<open>The requests to run, and the messages that remain: once one does not fit, all that follow remain.\<close>

fun gs_pick ::
  "global_sched \<Rightarrow> int \<Rightarrow> rat \<Rightarrow> int \<Rightarrow> int \<Rightarrow> int \<Rightarrow> int \<Rightarrow> budget \<Rightarrow> pulled \<Rightarrow> (ScheduledRequest list \<times> pulled) res" where
  "gs_pick g rnd now available bs reserved token_limit b [] = Inr ([], [])"
| "gs_pick g rnd now available bs reserved token_limit b ((q, m) # ms) =
     (case unserialize_request rnd now m of Inl e \<Rightarrow> Inl e
      | Inr req \<Rightarrow>
          (case prompt_tokens_ids_len req of Inl e \<Rightarrow> Inl e
           | Inr n \<Rightarrow>
               if bs = 0 then Inl ZeroDivisionError
               else
                 (case gs_charge g available bs reserved token_limit (int n) b of (b1, fits) \<Rightarrow>
                    if fits then
                      (case gs_pick g rnd now available bs reserved token_limit b1 ms of Inl e \<Rightarrow> Inl e
                       | Inr (reqs, rest) \<Rightarrow> Inr (req # reqs, rest))
                    else Inr ([], (q, m) # ms))))"

definition note_stolen :: "ScheduledRequest \<Rightarrow> global_sched \<Rightarrow> global_sched" where
  "note_stolen req g =
     (if request_queue_name req = request_queue g (gs_name g) then g
      else if map_of (stolen_requests g) (rd_request_id (sreq_raw req)) = None
      then g\<lparr>stolen_requests := stolen_requests g @ [(rd_request_id (sreq_raw req), req)]\<rparr>
      else g)"

definition group_pulled :: "pulled \<Rightarrow> (string \<times> pydict list) list" where
  "group_pulled ms = fold (\<lambda>(q, m). add_to_group q [m]) ms []"

fun push_back :: "'s redis \<Rightarrow> global_sched \<Rightarrow> string \<Rightarrow> (string \<times> pydict list) list \<Rightarrow> 's \<Rightarrow> 's" where
  "push_back R g table [] s = s"
| "push_back R g table ((q, ms) # groups) s =
     (let n = name_from_request_queue g q
      in push_back R g table groups
           (snd (ad_zincrby R (table_for g table n) (int (length ms)) n None True (r_lpush R q ms s))))"

definition gs_get_requests ::
  "'s redis \<Rightarrow> bool \<Rightarrow> (string list \<Rightarrow> string) \<Rightarrow> sample \<Rightarrow> int \<Rightarrow> rat \<Rightarrow> int \<Rightarrow> int \<Rightarrow> int \<Rightarrow> int \<Rightarrow> int \<Rightarrow>
   global_sched \<times> 's \<Rightarrow> (global_sched \<times> 's, RequestData list) outcome" where
  "gs_get_requests R old choice sample rnd now available bs reserved token_limit batch st =
     (if available \<le> reserved \<or> batch < 1 then (Inr [], st)
      else
        andthen (pull R old choice sample (split_batches batch) st) (\<lambda>(table, ms) (g, s).
          case gs_pick g rnd now available bs reserved token_limit no_budget ms of
            Inl e \<Rightarrow> (Inl e, (g, s))
          | Inr (reqs, rest) \<Rightarrow>
              let g1 = fold note_stolen reqs g
              in (Inr (map sreq_raw reqs), (g1, push_back R g1 table (group_pulled rest) s))))"

subsection \<open>Results\<close>

definition sres_finished :: "ScheduledResponse \<Rightarrow> bool" where
  "sres_finished r = truthy (ro_finished (sres_raw r))"

definition sres_id :: "ScheduledResponse \<Rightarrow> pyval" where
  "sres_id r = ro_request_id (sres_raw r)"

definition put_results_worker :: "'s redis \<Rightarrow> rat \<Rightarrow> RequestOutput list \<Rightarrow> global_sched \<times> 's \<Rightarrow> global_sched \<times> 's" where
  "put_results_worker R now results = (\<lambda>(g, s).
     let rs = map (\<lambda>r. new_ScheduledResponse r now) results;
         ours = filter (\<lambda>r. map_of (local_responses g) (sres_id r) \<noteq> None) rs;
         theirs = filter (\<lambda>r. map_of (local_responses g) (sres_id r) = None \<and>
                              map_of (stolen_requests g) (sres_id r) \<noteq> None) rs;
         groups = fold (\<lambda>r. case map_of (stolen_requests g) (sres_id r) of None \<Rightarrow> id
                          | Some req \<Rightarrow> add_to_group (response_queue_name req) [serialize_response r]) theirs []
     in (g\<lparr>local_responses := fold (\<lambda>r. add_to_group (sres_id r) [r]) ours (local_responses g),
           stolen_requests := filter (\<lambda>(i, req). i \<notin> sres_id ` set (filter sres_finished rs)) (stolen_requests g)\<rparr>,
         fold (\<lambda>(q, ms). ad_rpush R q ms True) groups s))"

fun read_responses :: "rat \<Rightarrow> pydict list \<Rightarrow> ScheduledResponse list res" where
  "read_responses now [] = Inr []"
| "read_responses now (m # ms) =
     (case unserialize_response now m of Inl e \<Rightarrow> Inl e
      | Inr r \<Rightarrow> (case read_responses now ms of Inl e \<Rightarrow> Inl e | Inr rs \<Rightarrow> Inr (r # rs)))"

text \<open>A pass of the thread that fetches results; an exception drops what was popped.\<close>

definition get_results_worker :: "'s redis \<Rightarrow> bool \<Rightarrow> rat \<Rightarrow> global_sched \<times> 's \<Rightarrow> global_sched \<times> 's" where
  "get_results_worker R old now = (\<lambda>(g, s).
     case ad_lpop R old (response_queue g (gs_name g)) 300 True s of (es, s1) \<Rightarrow>
       (case (if found es \<noteq> [] then (found es, s1)
              else (case r_blpop R [response_queue g (gs_name g)] s1 of
                      (None, s2) \<Rightarrow> ([], s2) | (Some (q, m), s2) \<Rightarrow> ([m], s2))) of
          (ms, s3) \<Rightarrow>
            (case read_responses now ms of Inl e \<Rightarrow> (g, s3)
             | Inr rs \<Rightarrow>
                 (g\<lparr>local_responses :=
                    fold (\<lambda>r m. if map_of m (sres_id r) = None then m else add_to_group (sres_id r) [r] m) rs
                      (local_responses g)\<rparr>, s3))))"

definition gs_get_results :: "global_sched \<Rightarrow> (pyval \<times> RequestOutput list) list \<times> global_sched" where
  "gs_get_results g =
     (map (\<lambda>(i, rs). (i, map sres_raw rs)) (local_responses g),
      g\<lparr>local_responses := map (\<lambda>(i, rs). (i, [])) (filter (\<lambda>(i, rs). \<not> list_ex sres_finished rs) (local_responses g))\<rparr>)"

definition gs_reset :: "'s redis \<Rightarrow> global_sched \<times> 's \<Rightarrow> global_sched \<times> 's" where
  "gs_reset R = (\<lambda>(g, s).
     (g\<lparr>local_responses := [], stolen_requests := []\<rparr>,
      snd (r_zrem R (own_table g) (gs_name g)
        (r_delete R (response_queue g (gs_name g)) (r_delete R (request_queue g (gs_name g)) s)))))"

end
