(* ===== verification/MemStore.thy ===== *)
theory MemStore
  imports SharedStore
begin

text \<open>
  A server that keeps everything in memory: an instance of the parameter of \<open>SharedStore\<close> for which the documented laws of the
  commands are proved. Nothing expires in it and every instance is alive.
\<close>

record mem =
  mem_lists :: "string \<Rightarrow> pydict list"
  mem_scores :: "((string \<times> string) \<times> int) list"

definition mem_range :: "int \<Rightarrow> int \<Rightarrow> 'a list \<Rightarrow> 'a list" where
  "mem_range lo hi xs = drop (nat lo) (take (nat (if hi < 0 then int (length xs) + hi + 1 else hi + 1)) xs)"

definition mem_set :: "string \<Rightarrow> pydict list \<Rightarrow> mem \<Rightarrow> mem" where
  "mem_set k xs s = s\<lparr>mem_lists := (mem_lists s)(k := xs)\<rparr>"

definition mem_blpop :: "string list \<Rightarrow> mem \<Rightarrow> (string \<times> pydict) option \<times> mem" where
  "mem_blpop ks s =
     (case filter (\<lambda>k. mem_lists s k \<noteq> []) ks of
        [] \<Rightarrow> (None, s)
      | k # _ \<Rightarrow> (Some (k, hd (mem_lists s k)), mem_set k (tl (mem_lists s k)) s))"

definition mem_score :: "mem \<Rightarrow> string \<Rightarrow> string \<Rightarrow> int option" where
  "mem_score s k m = map_of (mem_scores s) (k, m)"

definition mem_zrange :: "string \<Rightarrow> rat \<Rightarrow> nat \<Rightarrow> nat \<Rightarrow> mem \<Rightarrow> string list" where
  "mem_zrange k lo off n s =
     take n (drop off (filter (\<lambda>m. case mem_score s k m of None \<Rightarrow> False | Some v \<Rightarrow> lo \<le> of_int v)
       (map snd (filter (\<lambda>km. fst km = k) (map fst (mem_scores s))))))"

definition mem_store :: "mem redis" where
  "mem_store =
     \<lparr>r_rpush = (\<lambda>k vs s. mem_set k (mem_lists s k @ vs) s),
      r_lpush = (\<lambda>k vs s. mem_set k (rev vs @ mem_lists s k) s),
      r_lpop = (\<lambda>k n s. (if mem_lists s k = [] then None else Some (take n (mem_lists s k)), mem_set k (drop n (mem_lists s k)) s)),
      r_lrange = (\<lambda>k lo hi s. mem_range lo hi (mem_lists s k)),
      r_ltrim = (\<lambda>k lo hi s. mem_set k (mem_range lo hi (mem_lists s k)) s),
      r_blpop = mem_blpop,
      r_zincrby = (\<lambda>k a m s. let v = score (mem_score s k m) + a
                             in (v, s\<lparr>mem_scores := AList.update (k, m) v (mem_scores s)\<rparr>)),
      r_zrem = (\<lambda>k m s. (mem_score s k m \<noteq> None, s\<lparr>mem_scores := AList.delete (k, m) (mem_scores s)\<rparr>)),
      r_zrangebyscore = mem_zrange,
      r_exists = (\<lambda>k s. True),
      r_delete = (\<lambda>k s. mem_set k [] s),
      r_expire = (\<lambda>k s. s)\<rparr>"

definition empty_mem :: mem where
  "empty_mem = \<lparr>mem_lists = (\<lambda>k. []), mem_scores = []\<rparr>"

lemma mem_set_simps [simp]:
  "mem_lists (mem_set k xs s) = (mem_lists s)(k := xs)"
  "mem_score (mem_set k xs s) = mem_score s"
  by (simp_all add: mem_set_def mem_score_def fun_eq_iff)

lemma mem_blpop_law:
  "mem_score (snd (mem_blpop ks s)) = mem_score s \<and>
   (case fst (mem_blpop ks s) of
      None \<Rightarrow> mem_lists (snd (mem_blpop ks s)) = mem_lists s
    | Some (k, m) \<Rightarrow> k \<in> set ks \<and> mem_lists s k = m # mem_lists (snd (mem_blpop ks s)) k \<and>
        (\<forall>k'. k' \<noteq> k \<longrightarrow> mem_lists (snd (mem_blpop ks s)) k' = mem_lists s k'))"
proof (cases "filter (\<lambda>k. mem_lists s k \<noteq> []) ks")
  case Nil
  then show ?thesis by (simp add: mem_blpop_def)
next
  case (Cons k rest)
  then have "k \<in> set (filter (\<lambda>k. mem_lists s k \<noteq> []) ks)" by simp
  then have "k \<in> set ks" "mem_lists s k \<noteq> []" by simp_all
  then show ?thesis by (simp add: mem_blpop_def Cons)
qed

lemma mem_zrange_law: "m \<in> set (mem_zrange k lo off n s) \<Longrightarrow> \<exists>v. mem_score s k m = Some v \<and> of_int v \<ge> lo"
  by (auto simp: mem_zrange_def dest!: in_set_takeD in_set_dropD split: option.splits)

lemma mem_scores_after:
  "mem_score (s\<lparr>mem_scores := AList.update (k, m) v (mem_scores s)\<rparr>) = (mem_score s)(k := (mem_score s k)(m := Some v))"
  "mem_score (s\<lparr>mem_scores := AList.delete (k, m) (mem_scores s)\<rparr>) = (mem_score s)(k := (mem_score s k)(m := None))"
  by (auto simp: fun_eq_iff mem_score_def update_conv' delete_conv')

lemma mem_store_laws: "redis_laws mem_store mem_lists mem_score"
proof -
  have b: "r_blpop mem_store = mem_blpop" "r_zrangebyscore mem_store = mem_zrange" by (simp_all add: mem_store_def)
  show ?thesis
    unfolding redis_laws_def b
  proof (intro conjI)
    show "\<forall>ks s. mem_score (snd (mem_blpop ks s)) = mem_score s \<and>
        (case fst (mem_blpop ks s) of
           None \<Rightarrow> mem_lists (snd (mem_blpop ks s)) = mem_lists s
         | Some (k, m) \<Rightarrow> k \<in> set ks \<and> mem_lists s k = m # mem_lists (snd (mem_blpop ks s)) k \<and>
             (\<forall>k'. k' \<noteq> k \<longrightarrow> mem_lists (snd (mem_blpop ks s)) k' = mem_lists s k'))"
      using mem_blpop_law by blast
    show "\<forall>k lo off n s. \<forall>m \<in> set (mem_zrange k lo off n s). \<exists>v. mem_score s k m = Some v \<and> of_int v \<ge> lo"
      using mem_zrange_law by blast
  qed (simp_all add: mem_store_def mem_scores_after mem_range_def score_def Let_def)
qed

end
