(* ===== verification/GlobalSchedulerProps.thy ===== *)
theory GlobalSchedulerProps
  imports GlobalScheduler MemStore
begin

text \<open>
  The shared queues: what one call takes and puts back, that no request is lost or given out twice on the way, and that the load
  tables count exactly the requests that wait.
\<close>

definition of_queue :: "string \<Rightarrow> pulled \<Rightarrow> pydict list" where
  "of_queue q ms = map snd (filter (\<lambda>(q', m). q' = q) ms)"

lemma of_queue_simps [simp]:
  "of_queue q [] = []"
  "of_queue q (ms @ ms') = of_queue q ms @ of_queue q ms'"
  "of_queue q ((q', m) # ms) = (if q' = q then m # of_queue q ms else of_queue q ms)"
  "of_queue q (map (\<lambda>e. (q', e)) es) = (if q' = q then es else [])"
  by (auto simp: of_queue_def filter_map comp_def)

lemma request_queue_eq [simp]: "request_queue g n = request_queue g m \<longleftrightarrow> n = m"
  by (simp add: request_queue_def)

lemma name_of_queue [simp]: "name_from_request_queue g (request_queue g n) = n"
  by (simp add: name_from_request_queue_def request_queue_def)

lemma queues_differ [simp]:
  "gs_topic g = gs_topic g' \<Longrightarrow> request_queue g n \<noteq> response_queue g' m"
  "gs_topic g = gs_topic g' \<Longrightarrow> response_queue g' m \<noteq> request_queue g n"
  by (simp_all add: request_queue_def response_queue_def)

lemma queue_names_cong:
  "gs_topic g' = gs_topic g \<Longrightarrow> request_queue g' n = request_queue g n"
  "gs_topic g' = gs_topic g \<Longrightarrow> response_queue g' n = response_queue g n"
  "gs_topic g' = gs_topic g \<Longrightarrow> name_from_request_queue g' q = name_from_request_queue g q"
  by (simp_all add: request_queue_def response_queue_def name_from_request_queue_def)

subsection \<open>The load tables\<close>

text \<open>\<open>T\<close> gives the table of every node. A table counts what waits in the queues of its nodes, and has no others.\<close>

definition loads_ok ::
  "global_sched \<Rightarrow> (string \<Rightarrow> string) \<Rightarrow> (string \<Rightarrow> pydict list) \<Rightarrow> (string \<Rightarrow> string \<Rightarrow> int option) \<Rightarrow> bool" where
  "loads_ok g T Ls Zs =
     ((\<forall>n. score (Zs (T n) n) = int (length (Ls (request_queue g n)))) \<and> (\<forall>t m. t \<noteq> T m \<longrightarrow> Zs t m = None))"

lemma loads_ok_step:
  assumes "loads_ok g T Ls Zs" "Ls' = Ls(request_queue g n := xs)"
    "score (Zs' (T n) n) = score (Zs (T n) n) + int (length xs) - int (length (Ls (request_queue g n)))"
    "\<forall>t m. (t, m) \<noteq> (T n, n) \<longrightarrow> Zs' t m = Zs t m"
  shows "loads_ok g T Ls' Zs'"
proof -
  have "score (Zs' (T m) m) = int (length (Ls' (request_queue g m)))" for m
    using assms by (cases "m = n") (simp_all add: loads_ok_def)
  moreover have "Zs' t m = None" if "t \<noteq> T m" for t m
  proof -
    have "(t, m) \<noteq> (T n, n)" using that by auto
    then show ?thesis using assms(1,4) that by (simp add: loads_ok_def)
  qed
  ultimately show ?thesis by (simp add: loads_ok_def)
qed

text \<open>The two ways a queue and its table change together.\<close>

lemma take_counted:
  assumes "redis_laws R L Z" "loads_ok g T (L s) (Z s)" "L s1 = (L s)(request_queue g n := drop b (L s (request_queue g n)))"
    "Z s1 = Z s" "es = take b (L s (request_queue g n))"
  shows "loads_ok g T (L (snd (ad_zincrby R (T n) (- int (length es)) n (Some 0) keep s1)))
    (Z (snd (ad_zincrby R (T n) (- int (length es)) n (Some 0) keep s1)))"
proof (rule loads_ok_step [OF assms(2)])
  note z = ad_zincrby_law [OF assms(1), of "T n" "- int (length es)" n _ keep s1]
  show "L (snd (ad_zincrby R (T n) (- int (length es)) n (Some 0) keep s1)) =
      (L s)(request_queue g n := drop b (L s (request_queue g n)))"
    using z [of "Some 0"] assms(3) by simp
  show "score (Z (snd (ad_zincrby R (T n) (- int (length es)) n (Some 0) keep s1)) (T n) n) =
      score (Z s (T n) n) + int (length (drop b (L s (request_queue g n)))) - int (length (L s (request_queue g n)))"
    using z assms(4,5) by auto
  show "\<forall>t m. (t, m) \<noteq> (T n, n) \<longrightarrow>
      Z (snd (ad_zincrby R (T n) (- int (length es)) n (Some 0) keep s1)) t m = Z s t m"
    using z [of "Some 0"] assms(4) by simp
qed

lemma put_counted:
  assumes "redis_laws R L Z" "loads_ok g T (L s) (Z s)" "L s1 = (L s)(request_queue g n := xs)"
    "Z s1 = Z s" "length xs = length es + length (L s (request_queue g n))" "rem = None \<or> rem = Some 0"
  shows "loads_ok g T (L (snd (ad_zincrby R (T n) (int (length es)) n rem keep s1)))
    (Z (snd (ad_zincrby R (T n) (int (length es)) n rem keep s1)))"
proof (rule loads_ok_step [OF assms(2)])
  note z = ad_zincrby_law [OF assms(1), of "T n" "int (length es)" n _ keep s1]
  show "L (snd (ad_zincrby R (T n) (int (length es)) n rem keep s1)) = (L s)(request_queue g n := xs)"
    using z [of rem] assms(3) by simp
  show "score (Z (snd (ad_zincrby R (T n) (int (length es)) n rem keep s1)) (T n) n) =
      score (Z s (T n) n) + int (length xs) - int (length (L s (request_queue g n)))"
    using z assms(4-6) by auto
  show "\<forall>t m. (t, m) \<noteq> (T n, n) \<longrightarrow> Z (snd (ad_zincrby R (T n) (int (length es)) n rem keep s1)) t m = Z s t m"
    using z [of rem] assms(4) by simp
qed

subsection \<open>Taking requests\<close>

text \<open>\<open>es\<close> has been taken from the heads of the queues of nodes whose tables are known.\<close>

definition taken ::
  "global_sched \<Rightarrow> (string \<Rightarrow> string) \<Rightarrow> string \<Rightarrow> pulled \<Rightarrow> (string \<Rightarrow> pydict list) \<Rightarrow> (string \<Rightarrow> string \<Rightarrow> int option) \<Rightarrow>
   (string \<Rightarrow> pydict list) \<Rightarrow> (string \<Rightarrow> string \<Rightarrow> int option) \<Rightarrow> bool" where
  "taken g T table es Ls Zs Ls' Zs' =
     ((\<forall>q. Ls q = of_queue q es @ Ls' q) \<and> (loads_ok g T Ls Zs \<longrightarrow> loads_ok g T Ls' Zs') \<and>
      (\<forall>(q, m) \<in> set es. \<exists>n. q = request_queue g n \<and> (loads_ok g T Ls Zs \<longrightarrow> T n = table_for g table n)))"

lemma taken_none: "taken g T table [] Ls Zs Ls Zs"
  by (simp add: taken_def)

lemma taken_trans:
  assumes "taken g T table es Ls Zs Ls' Zs'" "taken g T table es' Ls' Zs' Ls'' Zs''"
  shows "taken g T table (es @ es') Ls Zs Ls'' Zs''"
  unfolding taken_def
proof (intro conjI)
  show "\<forall>q. Ls q = of_queue q (es @ es') @ Ls'' q" using assms by (simp add: taken_def)
  show "loads_ok g T Ls Zs \<longrightarrow> loads_ok g T Ls'' Zs''" using assms by (simp add: taken_def)
  show "\<forall>(q, m) \<in> set (es @ es'). \<exists>n. q = request_queue g n \<and> (loads_ok g T Ls Zs \<longrightarrow> T n = table_for g table n)"
    using assms unfolding taken_def by fastforce
qed

lemma pop_local_taken:
  assumes "redis_laws R L Z" "T (gs_name g) = own_table g" "list_all (\<lambda>b. 0 < b) bs" "pop_local R old g bs s = (es, s')"
  shows "taken g T table es (L s) (Z s) (L s') (Z s')"
  using assms(3,4)
proof (induction bs arbitrary: es s)
  case Nil
  then show ?case by (simp add: taken_none)
next
  case (Cons b bs)
  let ?q = "request_queue g (gs_name g)"
  obtain es1 s1 where p: "ad_lpop R old ?q b True s = (es1, s1)" by fastforce
  have b: "0 < b" using Cons.prems(1) by simp
  have l: "found es1 = take b (L s ?q)" "L s1 = (L s)(?q := drop b (L s ?q))" "Z s1 = Z s"
    using ad_lpop_law [OF assms(1) b p] by simp_all
  show ?case
  proof (cases es1)
    case None
    then have "es = []" "s' = s1" using Cons.prems(2) p by simp_all
    moreover have "L s ?q = []" using l(1) None b by (simp add: take_eq_Nil)
    ultimately show ?thesis using l(2,3) by (simp add: taken_none fun_upd_idem)
  next
    case (Some es0)
    define s2 where "s2 = snd (ad_zincrby R (own_table g) (- int (length es0)) (gs_name g) (Some 0) True s1)"
    obtain ms where r: "pop_local R old g bs s2 = (ms, s')" "es = map (\<lambda>e. (?q, e)) es0 @ ms"
      using Cons.prems(2) p Some by (auto simp: s2_def split: prod.splits)
    have L2: "L s2 = L s1" using ad_zincrby_law [OF assms(1)] by (simp add: s2_def)
    have "taken g T table (map (\<lambda>e. (?q, e)) es0) (L s) (Z s) (L s2) (Z s2)"
      unfolding taken_def
    proof (intro conjI)
      show "\<forall>q. L s q = of_queue q (map (\<lambda>e. (?q, e)) es0) @ L s2 q" using l Some L2 by simp
      show "loads_ok g T (L s) (Z s) \<longrightarrow> loads_ok g T (L s2) (Z s2)"
        using take_counted [OF assms(1), of g T s s1 "gs_name g" b es0 True] l Some assms(2) by (simp add: s2_def)
      show "\<forall>(q, m) \<in> set (map (\<lambda>e. (?q, e)) es0).
          \<exists>n. q = request_queue g n \<and> (loads_ok g T (L s) (Z s) \<longrightarrow> T n = table_for g table n)"
        using assms(2) by (auto simp: table_for_def)
    qed
    moreover have "taken g T table ms (L s2) (Z s2) (L s') (Z s')" using Cons.IH [OF _ r(1)] Cons.prems(1) by simp
    ultimately show ?thesis unfolding r(2) by (rule taken_trans)
  qed
qed

lemma lookup_members_tables:
  assumes "redis_laws R L Z" "lookup_members R g n s slot = (table, members, slot')" "m \<in> set members"
  shows "\<exists>v. Z s table m = Some v"
  using assms(2)
proof (induction n arbitrary: slot)
  case 0
  then show ?case using assms(3) by simp
next
  case (Suc n)
  then show ?case using assms(1,3) zrange_law by (auto simp: Let_def split: if_splits)
qed

definition choice_in :: "(string list \<Rightarrow> string) \<Rightarrow> bool" where
  "choice_in choice = (\<forall>ns. ns \<noteq> [] \<longrightarrow> choice ns \<in> set ns)"

definition sample_in :: "sample \<Rightarrow> bool" where
  "sample_in sample = (\<forall>ns k. set (sample ns k) \<subseteq> set ns)"

lemma find_others_tables:
  assumes "redis_laws R L Z" "sample_in sample" "find_others R sample es (g, s) = (Inr (table, names), g')"
  shows "(\<exists>slot. g' = g\<lparr>load_slot := slot\<rparr>) \<and> (\<forall>n \<in> set names. n \<noteq> gs_name g) \<and>
    (loads_ok g T (L s) (Z s) \<longrightarrow> (\<forall>n \<in> set names. T n = table))"
proof (cases "es \<noteq> [] \<or> min 5 (load_shards_num g) = 0")
  case True
  then show ?thesis using assms(3) by (auto simp: find_others_def intro: exI [of _ "load_slot g"] split: if_splits)
next
  case False
  then have ne: "es = []" "(min 5 (load_shards_num g) = 0) = False" by simp_all
  obtain t members slot where l: "lookup_members R g (min 5 (load_shards_num g)) s (load_slot g) = (t, members, slot)"
    using prod_cases3 by blast
  have r: "find_others R sample es (g, s) = (Inr (t, if members = [] then []
      else filter (\<lambda>n. n \<noteq> gs_name g) (sample members (min 10 (length members)))), g\<lparr>load_slot := slot\<rparr>)"
    unfolding find_others_def prod.case ne(2) l using ne(1) by simp
  have e: "g' = g\<lparr>load_slot := slot\<rparr>" "table = t"
    "names = (if members = [] then [] else filter (\<lambda>n. n \<noteq> gs_name g) (sample members (min 10 (length members))))"
    using assms(3) r by auto
  have "set (sample members (min 10 (length members))) \<subseteq> set members" using assms(2) by (simp add: sample_in_def)
  then have "set names \<subseteq> set members" unfolding e(3) by auto
  then have "T n = table" if "loads_ok g T (L s) (Z s)" "n \<in> set names" for n
    using lookup_members_tables [OF assms(1) l, of n] that e(2) unfolding loads_ok_def
    by (metis option.distinct(1) subsetD)
  moreover have "n \<noteq> gs_name g" if "n \<in> set names" for n using that unfolding e(3) by (auto split: if_splits)
  ultimately show ?thesis using e(1) by blast
qed

lemma steal_taken:
  assumes "redis_laws R L Z" "choice_in choice" "0 < b" "\<forall>n \<in> set names. n \<noteq> gs_name g"
    "loads_ok g T (L s) (Z s) \<longrightarrow> (\<forall>n \<in> set names. T n = table)" "steal R old choice g b table names s = (es, s')"
  shows "taken g T table es (L s) (Z s) (L s') (Z s')"
proof (cases "names = []")
  case True
  then show ?thesis using assms(6) by (simp add: steal_def taken_none)
next
  case False
  let ?n = "choice names"
  let ?q = "request_queue g ?n"
  have n: "?n \<in> set names" using assms(2) False by (simp add: choice_in_def)
  obtain es1 s1 where p: "ad_lpop R old ?q b False s = (es1, s1)" by fastforce
  have l: "found es1 = take b (L s ?q)" "L s1 = (L s)(?q := drop b (L s ?q))" "Z s1 = Z s"
    using ad_lpop_law [OF assms(1,3) p] by simp_all
  show ?thesis
  proof (cases "found es1 = []")
    case True
    then have e: "es = []" "s' = (if r_exists R (instance_name g ?n) s1 then s1 else snd (r_zrem R table ?n s1))"
      using assms(6) False p by (auto simp: steal_def Let_def split: if_splits)
    have empty: "L s ?q = []" using True l(1) assms(3) by (simp add: take_eq_Nil)
    then have L1: "L s1 = L s" using l(2) by (simp add: fun_upd_idem)
    have "L s' = L s" using e(2) L1 zrem_law [OF assms(1)] by simp
    moreover have "loads_ok g T (L s) (Z s')" if ok: "loads_ok g T (L s) (Z s)"
    proof (rule loads_ok_step [OF ok, of "L s" ?n "[]"])
      show "L s = (L s)(?q := [])" using empty by (simp add: fun_upd_idem)
      have T: "T ?n = table" using ok assms(5) n by blast
      have zero: "score (Z s (T ?n) ?n) = 0" using ok empty unfolding loads_ok_def by simp
      show "score (Z s' (T ?n) ?n) = score (Z s (T ?n) ?n) + int (length []) - int (length (L s ?q))"
        using e(2) l(3) zrem_law [OF assms(1)] zero empty T by simp
      show "\<forall>t m. (t, m) \<noteq> (T ?n, ?n) \<longrightarrow> Z s' t m = Z s t m"
        using e(2) l(3) zrem_law [OF assms(1)] T by auto
    qed
    ultimately show ?thesis by (simp add: e(1) taken_def)
  next
    case nonempty: False
    then have e: "es = map (\<lambda>e. (?q, e)) (found es1)"
      "s' = snd (ad_zincrby R table (- int (length (found es1))) ?n (Some 0) True s1)"
      using assms(6) False p by (auto simp: steal_def Let_def split: if_splits)
    have L': "L s' = L s1" using ad_zincrby_law [OF assms(1)] by (simp add: e(2))
    show ?thesis
      unfolding taken_def
    proof (intro conjI)
      show "\<forall>q. L s q = of_queue q es @ L s' q" using l L' by (simp add: e(1))
      show "loads_ok g T (L s) (Z s) \<longrightarrow> loads_ok g T (L s') (Z s')"
      proof
        assume ok: "loads_ok g T (L s) (Z s)"
        then have "T ?n = table" using assms(5) n by blast
        then show "loads_ok g T (L s') (Z s')"
          using take_counted [OF assms(1) ok l(2,3) l(1), of True] by (simp add: e(2))
      qed
      show "\<forall>(q, m) \<in> set es. \<exists>n. q = request_queue g n \<and> (loads_ok g T (L s) (Z s) \<longrightarrow> T n = table_for g table n)"
        using assms(4,5) n by (auto simp: e(1) table_for_def)
    qed
  qed
qed

lemma blocked_read_taken:
  assumes "redis_laws R L Z" "T (gs_name g) = own_table g" "\<forall>n \<in> set names. n \<noteq> gs_name g"
    "loads_ok g T (L s) (Z s) \<longrightarrow> (\<forall>n \<in> set names. T n = table)" "blocked_read R g table names [] s = (es, s')"
  shows "taken g T table es (L s) (Z s) (L s') (Z s')"
proof -
  obtain e s1 where b: "r_blpop R (request_queue g (gs_name g) # map (request_queue g) names) s = (e, s1)" by fastforce
  note l = blpop_law [OF assms(1) b]
  show ?thesis
  proof (cases e)
    case None
    then show ?thesis using assms(5) b l by (simp add: blocked_read_def taken_none)
  next
    case (Some qm)
    obtain q m where qm: "qm = (q, m)" by fastforce
    have e: "q \<in> set (request_queue g (gs_name g) # map (request_queue g) names)" "L s q = m # L s1 q"
      "\<forall>q'. q' \<noteq> q \<longrightarrow> L s1 q' = L s q'" "Z s1 = Z s" using l Some qm by simp_all
    obtain n where n: "q = request_queue g n" "n = gs_name g \<or> n \<in> set names" using e(1) by auto
    have T: "T n = table_for g table n" if "loads_ok g T (L s) (Z s)"
      using n(2) assms(2-4) that by (auto simp: table_for_def)
    have r: "es = [(q, m)]" "s' = snd (ad_zincrby R (table_for g table n) (- 1) n (Some 0) True s1)"
      using assms(5) b Some qm n(1) by (simp_all add: blocked_read_def Let_def)
    have L': "L s' = L s1" using ad_zincrby_law [OF assms(1)] by (simp add: r(2))
    have L1: "L s1 = (L s)(q := drop 1 (L s q))" using e(2,3) by auto
    show ?thesis
      unfolding taken_def
    proof (intro conjI)
      show "\<forall>q. L s q = of_queue q es @ L s' q" using e(2,3) by (simp add: r(1) L')
      show "loads_ok g T (L s) (Z s) \<longrightarrow> loads_ok g T (L s') (Z s')"
      proof
        assume ok: "loads_ok g T (L s) (Z s)"
        have "[m] = take 1 (L s q)" using e(2) by simp
        from take_counted [OF assms(1) ok L1 [unfolded n(1)] e(4) this [unfolded n(1)], of True] T [OF ok]
        show "loads_ok g T (L s') (Z s')" by (simp add: r(2))
      qed
      show "\<forall>(q, m) \<in> set es. \<exists>n. q = request_queue g n \<and> (loads_ok g T (L s) (Z s) \<longrightarrow> T n = table_for g table n)"
        using T n(1) by (auto simp: r(1))
    qed
  qed
qed

lemma split_batches_pos: "list_all (\<lambda>b. 0 < b) (split_batches batch)" "1 \<le> batch \<Longrightarrow> split_batches batch \<noteq> []"
  by (auto simp: split_batches_def Let_def)

lemma table_for_slot [simp]: "table_for (g\<lparr>load_slot := x\<rparr>) t n = table_for g t n"
  "request_queue (g\<lparr>load_slot := x\<rparr>) n = request_queue g n"
  by (simp_all add: table_for_def own_table_def load_table_def request_queue_def)

lemma loads_ok_slot [simp]: "loads_ok (g\<lparr>load_slot := x\<rparr>) T Ls Zs = loads_ok g T Ls Zs"
  by (simp add: loads_ok_def)

lemma taken_slot [simp]: "taken (g\<lparr>load_slot := x\<rparr>) T t es Ls Zs Ls' Zs' = taken g T t es Ls Zs Ls' Zs'"
  by (simp add: taken_def)

lemma pull_taken:
  assumes "redis_laws R L Z" "choice_in choice" "sample_in sample" "T (gs_name g) = own_table g" "0 < load_shards_num g"
    "1 \<le> batch"
  shows "\<exists>table es slot s'. pull R old choice sample (split_batches batch) (g, s) = (Inr (table, es), (g\<lparr>load_slot := slot\<rparr>, s')) \<and>
    taken g T table es (L s) (Z s) (L s') (Z s')"
proof -
  obtain es s1 where p: "pop_local R old g (split_batches batch) s = (es, s1)" by fastforce
  obtain r g1 where f: "find_others R sample es (g, s1) = (r, g1)" by fastforce
  have "r \<noteq> Inl e" for e
    using f assms(5) by (auto simp: find_others_def split: if_splits prod.splits)
  then obtain table names where r: "r = Inr (table, names)" by (cases r) auto
  note fo = find_others_tables [OF assms(1,3) f [unfolded r], of T]
  obtain slot where g1: "g1 = g\<lparr>load_slot := slot\<rparr>" using fo by blast
  have names: "\<forall>n \<in> set names. n \<noteq> gs_name g1" using fo g1 by simp
  obtain es1 s2 where st: "steal R old choice g1 (hd (split_batches batch)) table names s1 = (es1, s2)" by fastforce
  have hd: "0 < hd (split_batches batch)"
    using split_batches_pos(1) [of batch] split_batches_pos(2) [OF assms(6)] by (cases "split_batches batch") simp_all
  have own: "T (gs_name g1) = own_table g1" using assms(4) g1 by (simp add: own_table_def load_table_def)
  have t0: "taken g T table es (L s) (Z s) (L s1) (Z s1)"
    using pop_local_taken [OF assms(1), where T = T and g = g] assms(4) split_batches_pos(1) p by blast
  have T1: "loads_ok g1 T (L s1) (Z s1) \<longrightarrow> (\<forall>n \<in> set names. T n = table)" using fo g1 by simp
  have t1: "taken g T table es1 (L s1) (Z s1) (L s2) (Z s2)"
    using steal_taken [OF assms(1,2) hd names T1 st] g1 by simp
  obtain es2 s3 where b: "blocked_read R g1 table names (es @ es1) s2 = (es2, s3)" by fastforce
  have "taken g T table es2 (L s) (Z s) (L s3) (Z s3)"
  proof (cases "es @ es1 = []")
    case False
    then have "es2 = es @ es1" "s3 = s2" using b by (simp_all add: blocked_read_def)
    then show ?thesis using taken_trans [OF t0 t1] by simp
  next
    case True
    have "es1 = []" using True by simp
    then have "loads_ok g1 T (L s2) (Z s2) \<longrightarrow> (\<forall>n \<in> set names. T n = table)"
      if "loads_ok g1 T (L s1) (Z s1)" using T1 that by simp
    have b': "blocked_read R g1 table names [] s2 = (es2, s3)" using b True by simp
    show ?thesis
    proof (cases "loads_ok g T (L s) (Z s)")
      case ok: True
      then have "loads_ok g T (L s1) (Z s1)" using t0 by (simp add: taken_def)
      then have T2: "loads_ok g1 T (L s2) (Z s2) \<longrightarrow> (\<forall>n \<in> set names. T n = table)" using T1 g1 by simp
      from blocked_read_taken [where T = T, OF assms(1) own names T2 b'] g1 True
      show ?thesis using taken_trans [OF taken_trans [OF t0 t1]] by auto
    next
      case no: False
      let ?T = "\<lambda>n. if n \<in> set names then table else T n"
      have own': "?T (gs_name g1) = own_table g1" using own names by auto
      have "taken g1 ?T table es2 (L s2) (Z s2) (L s3) (Z s3)"
        by (rule blocked_read_taken [where T = ?T, OF assms(1) own' names _ b']) simp
      then have q: "\<forall>q. L s2 q = of_queue q es2 @ L s3 q" "\<forall>(q, m) \<in> set es2. \<exists>n. q = request_queue g n"
        using g1 by (fastforce simp: taken_def)+
      have "\<forall>q. L s q = of_queue q es2 @ L s3 q" using t0 t1 True q(1) by (simp add: taken_def)
      then show ?thesis using no q(2) by (auto simp: taken_def)
    qed
  qed
  moreover have "pull R old choice sample (split_batches batch) (g, s) = (Inr (table, es2), (g1, s3))"
    by (simp add: pull_def p f r st b)
  ultimately show ?thesis using g1 by blast
qed

subsection \<open>Looking at what was taken\<close>

definition readable_request :: "int \<Rightarrow> rat \<Rightarrow> pydict \<Rightarrow> bool" where
  "readable_request rnd now m =
     (case unserialize_request rnd now m of Inl e \<Rightarrow> False
      | Inr req \<Rightarrow> (case prompt_tokens_ids_len req of Inl e \<Rightarrow> False | Inr n \<Rightarrow> True))"

lemma gs_pick_parts:
  assumes "list_all (\<lambda>(q, m). readable_request rnd now m) ms" "bs \<noteq> 0"
  shows "\<exists>reqs handed rest. gs_pick g rnd now available bs reserved token_limit b ms = Inr (reqs, rest) \<and> ms = handed @ rest \<and>
    map (\<lambda>(q, m). unserialize_request rnd now m) handed = map Inr reqs"
  using assms(1)
proof (induction ms arbitrary: b)
  case Nil
  then show ?case by simp
next
  case (Cons x ms)
  obtain q m where x: "x = (q, m)" by fastforce
  obtain req n where req: "unserialize_request rnd now m = Inr req" "prompt_tokens_ids_len req = Inr n"
    using Cons.prems x by (auto simp: readable_request_def split: sum.splits)
  obtain b1 fits where c: "gs_charge g available bs reserved token_limit (int n) b = (b1, fits)" by fastforce
  show ?case
  proof (cases fits)
    case True
    obtain reqs handed rest where "gs_pick g rnd now available bs reserved token_limit b1 ms = Inr (reqs, rest)"
      "ms = handed @ rest" "map (\<lambda>(q, m). unserialize_request rnd now m) handed = map Inr reqs"
      using Cons.IH Cons.prems by fastforce
    then show ?thesis using x req c True assms(2)
      by (intro exI [of _ "req # reqs"] exI [of _ "x # handed"] exI [of _ rest]) simp
  next
    case False
    then show ?thesis using x req c assms(2) by (intro exI [of _ "[]"] exI [of _ "x # ms"]) simp
  qed
qed

subsection \<open>Putting back\<close>

lemma group_pulled_queue:
  "found (map_of (group_pulled ms) q) = of_queue q ms" "distinct (map fst (group_pulled ms))"
  "fst ` set (group_pulled ms) = fst ` set ms"
proof -
  have "found (map_of (fold (\<lambda>(q, m). add_to_group q [m]) ms gs) q) = found (map_of gs q) @ of_queue q ms \<and>
    (distinct (map fst gs) \<longrightarrow> distinct (map fst (fold (\<lambda>(q, m). add_to_group q [m]) ms gs))) \<and>
    fst ` set (fold (\<lambda>(q, m). add_to_group q [m]) ms gs) = fst ` set gs \<union> fst ` set ms" for gs
  proof (induction ms arbitrary: gs)
    case (Cons x ms)
    obtain q' m where x: "x = (q', m)" by fastforce
    have f: "fst ` set (add_to_group q' [m] gs) = insert q' (fst ` set gs)" by (simp add: add_to_group_def dom_update)
    have "found (map_of (add_to_group q' [m] gs) q) @ of_queue q ms = found (map_of gs q) @ of_queue q (x # ms)"
      by (simp add: x map_of_add_to_group)
    then show ?case using Cons [of "add_to_group q' [m] gs"] distinct_add_to_group [of gs q' "[m]"] f by (simp add: x)
  qed simp
  from this [of "[]"] show "found (map_of (group_pulled ms) q) = of_queue q ms" "distinct (map fst (group_pulled ms))"
    "fst ` set (group_pulled ms) = fst ` set ms" by (simp_all add: group_pulled_def)
qed

lemma push_back_lists:
  assumes "redis_laws R L Z" "distinct (map fst groups)"
  shows "L (push_back R g table groups s) q = rev (found (map_of groups q)) @ L s q"
  using assms(2)
proof (induction groups arbitrary: s)
  case Nil
  then show ?case by simp
next
  case (Cons x groups)
  obtain q1 ms where x: "x = (q1, ms)" by fastforce
  let ?n = "name_from_request_queue g q1"
  define s2 where "s2 = snd (ad_zincrby R (table_for g table ?n) (int (length ms)) ?n None True (r_lpush R q1 ms s))"
  have l: "L s2 = (L s)(q1 := rev ms @ L s q1)"
    using lpush_law [OF assms(1)] ad_zincrby_law [OF assms(1)] by (simp add: s2_def)
  have "map_of groups q1 = None" using Cons.prems x by (simp add: map_of_eq_None_iff)
  moreover have "L (push_back R g table groups s2) q = rev (found (map_of groups q)) @ L s2 q"
    using Cons by simp
  ultimately show ?case using l by (simp add: x s2_def Let_def)
qed

lemma push_back_loads:
  assumes "redis_laws R L Z" "loads_ok g T (L s) (Z s)"
    "\<forall>q \<in> fst ` set groups. \<exists>n. q = request_queue g n \<and> T n = table_for g table n"
  shows "loads_ok g T (L (push_back R g table groups s)) (Z (push_back R g table groups s))"
  using assms(2,3)
proof (induction groups arbitrary: s)
  case Nil
  then show ?case by simp
next
  case (Cons x groups)
  obtain q ms where x: "x = (q, ms)" by fastforce
  obtain n where n: "q = request_queue g n" "T n = table_for g table n" using Cons.prems(2) x by auto
  let ?s1 = "r_lpush R q ms s"
  have l: "L ?s1 = (L s)(q := rev ms @ L s q)" "Z ?s1 = Z s" using lpush_law [OF assms(1)] by simp_all
  have ok: "loads_ok g T (L (snd (ad_zincrby R (T n) (int (length ms)) n None True ?s1)))
      (Z (snd (ad_zincrby R (T n) (int (length ms)) n None True ?s1)))"
    using put_counted [OF assms(1) Cons.prems(1) l(1) [unfolded n(1)] l(2) [unfolded n(1)], of ms None True] n(1) by simp
  have "push_back R g table (x # groups) s =
      push_back R g table groups (snd (ad_zincrby R (T n) (int (length ms)) n None True ?s1))"
    by (simp add: x n)
  then show ?case using Cons.IH [OF ok] Cons.prems(2) by simp
qed

subsection \<open>One fetch\<close>

lemma note_stolen_keeps: "\<exists>x. fold note_stolen reqs g = g\<lparr>stolen_requests := x\<rparr>"
proof (induction reqs arbitrary: g)
  case Nil
  show ?case by (intro exI [of _ "stolen_requests g"]) simp
next
  case (Cons req reqs)
  obtain x where "note_stolen req g = g\<lparr>stolen_requests := x\<rparr>"
    by (cases "note_stolen req g = g") (auto simp: note_stolen_def split: if_splits intro: that [of "stolen_requests g"])
  then show ?case using Cons [of "g\<lparr>stolen_requests := x\<rparr>"] by auto
qed

lemma push_back_stolen [simp]: "push_back R (g\<lparr>stolen_requests := x\<rparr>) t groups s = push_back R g t groups s"
  by (induction groups arbitrary: s)
    (auto simp: Let_def table_for_def own_table_def load_table_def name_from_request_queue_def)

lemma push_back_slot [simp]: "push_back R (g\<lparr>load_slot := x\<rparr>) t groups s = push_back R g t groups s"
  by (induction groups arbitrary: s)
    (auto simp: Let_def table_for_def own_table_def load_table_def name_from_request_queue_def)

text \<open>A fetch takes messages from the heads of queues, hands out the first of them, and puts the rest back, the last of a queue first.\<close>

lemma fetch_effect:
  assumes "redis_laws R L Z" "choice_in choice" "sample_in sample" "T (gs_name g) = own_table g" "0 < load_shards_num g"
    "1 \<le> batch" "reserved < available" "bs \<noteq> 0" "\<forall>n. list_all (readable_request rnd now) (L s (request_queue g n))"
  shows "\<exists>reqs g' s' handed rest Lr. gs_get_requests R old choice sample rnd now available bs reserved token_limit batch (g, s) =
      (Inr (map sreq_raw reqs), (g', s')) \<and> map (\<lambda>(q, m). unserialize_request rnd now m) handed = map Inr reqs \<and>
    (\<forall>q. L s q = of_queue q handed @ of_queue q rest @ Lr q \<and> L s' q = rev (of_queue q rest) @ Lr q) \<and>
    (loads_ok g T (L s) (Z s) \<longrightarrow> loads_ok g T (L s') (Z s'))"
proof -
  obtain table es slot s1 where p: "pull R old choice sample (split_batches batch) (g, s) = (Inr (table, es), (g\<lparr>load_slot := slot\<rparr>, s1))"
    "taken g T table es (L s) (Z s) (L s1) (Z s1)"
    using pull_taken [where T = T and old = old and s = s, OF assms(1-6)] by (elim exE conjE) (rule that)
  have mem: "\<exists>n. m \<in> set (L s (request_queue g n))" if "(q, m) \<in> set es" for q m
  proof -
    have "\<forall>(q, m) \<in> set es. \<exists>n. q = request_queue g n \<and> (loads_ok g T (L s) (Z s) \<longrightarrow> T n = table_for g table n)"
      using p(2) unfolding taken_def by (elim conjE)
    from bspec [OF this that] obtain n where q: "q = request_queue g n" by auto
    have "L s q = of_queue q es @ L s1 q" using p(2) unfolding taken_def by blast
    then have "set (of_queue q es) \<subseteq> set (L s q)" by simp
    moreover have "m \<in> set (of_queue q es)" using that by (force simp: of_queue_def)
    ultimately show ?thesis using q by blast
  qed
  have "readable_request rnd now m" if "(q, m) \<in> set es" for q m
    using mem [OF that] assms(9) by (auto simp: list_all_iff)
  then have "list_all (\<lambda>(q, m). readable_request rnd now m) es" by (auto simp: list_all_iff)
  from gs_pick_parts [OF this assms(8), of "g\<lparr>load_slot := slot\<rparr>" available reserved token_limit no_budget]
  obtain reqs handed rest where
    g: "gs_pick (g\<lparr>load_slot := slot\<rparr>) rnd now available bs reserved token_limit no_budget es = Inr (reqs, rest)"
    "es = handed @ rest" "map (\<lambda>(q, m). unserialize_request rnd now m) handed = map Inr reqs" by (elim exE conjE)
  obtain x where x: "fold note_stolen reqs (g\<lparr>load_slot := slot\<rparr>) = g\<lparr>load_slot := slot, stolen_requests := x\<rparr>"
    using note_stolen_keeps by blast
  let ?s' = "push_back R g table (group_pulled rest) s1"
  have r: "gs_get_requests R old choice sample rnd now available bs reserved token_limit batch (g, s) =
      (Inr (map sreq_raw reqs), (g\<lparr>load_slot := slot, stolen_requests := x\<rparr>, ?s'))"
    using assms(6,7) p(1) g(1) x by (simp add: gs_get_requests_def Let_def)
  have l: "L ?s' q = rev (of_queue q rest) @ L s1 q" for q
    using push_back_lists [OF assms(1) group_pulled_queue(2)] by (simp add: group_pulled_queue(1))
  moreover have "L s q = of_queue q handed @ of_queue q rest @ L s1 q" for q
    using p(2) g(2) by (simp add: taken_def)
  moreover have "loads_ok g T (L ?s') (Z ?s')" if ok: "loads_ok g T (L s) (Z s)"
  proof (rule push_back_loads [OF assms(1)])
    show "loads_ok g T (L s1) (Z s1)" using p(2) ok by (simp add: taken_def)
    show "\<forall>q \<in> fst ` set (group_pulled rest). \<exists>n. q = request_queue g n \<and> T n = table_for g table n"
      unfolding group_pulled_queue(3) using p(2) g(2) ok by (fastforce simp: taken_def)
  qed
  ultimately show ?thesis
    using r g(3) by (intro exI [of _ reqs] exI [of _ "g\<lparr>load_slot := slot, stolen_requests := x\<rparr>"] exI [of _ ?s']
        exI [of _ handed] exI [of _ rest] exI [of _ "L s1"]) simp
qed

definition sample_node :: "string \<Rightarrow> global_sched" where
  "sample_node n =
     \<lparr>gs_topic = ''t'', gs_name = n, gs_shard = 0, load_shards_num = 1, min_load_score = 1, gs_chunked_prefill = False,
      gs_max_partial = 1, gs_max_long_partial = 1, gs_long_threshold = 0, load_slot = 0, local_responses = [],
      stolen_requests = []\<rparr>"

definition sample_request :: "string \<Rightarrow> RequestData" where
  "sample_request i =
     (case request_from_dict 3 0 [(''request_id'', PyStr i), (''prompt_token_ids'', PyList [PyInt 4, PyInt 7])] of
        Inr r \<Rightarrow> r | Inl e \<Rightarrow> undefined)"

definition sample_message :: "string \<Rightarrow> pydict" where
  "sample_message i = serialize_request (new_ScheduledRequest (sample_request i) ''t.req.a'' ''t.resp.a'' 0)"

definition sample_store :: mem where
  "sample_store = mem_set ''t.req.a'' [sample_message ''x'', sample_message ''y'', sample_message ''z''] empty_mem"

lemma sample_readable: "\<forall>n. list_all (readable_request 0 1) (mem_lists sample_store (request_queue g n))"
proof -
  have "list_all (readable_request 0 1) [sample_message ''x'', sample_message ''y'', sample_message ''z'']" by code_simp
  then show ?thesis by (simp add: sample_store_def empty_mem_def)
qed

lemma sample_oracles: "choice_in hd" "sample_in (\<lambda>ns k. take k ns)"
  by (auto simp: choice_in_def sample_in_def dest: in_set_takeD)

text \<open>C24: when every message in a request queue of the topic can be read as a request with a prompt, then, whatever the store picks and
  whomever a node steals from, a fetch with room for a request returns, the requests it returns are read from messages it took off the queues,
  and every other message is still in its queue: no request is lost and none is given out twice.\<close>

theorem no_request_lost_or_copied:
  assumes "redis_laws R L Z" "choice_in choice" "sample_in sample" "0 < load_shards_num g"
    "1 \<le> batch" "reserved < available" "bs \<noteq> 0" "\<forall>n. list_all (readable_request rnd now) (L s (request_queue g n))"
  shows "\<exists>rs g' s' handed. gs_get_requests R old choice sample rnd now available bs reserved token_limit batch (g, s) = (Inr rs, (g', s')) \<and>
    map (\<lambda>(q, m). map_sum id sreq_raw (unserialize_request rnd now m)) handed = map Inr rs \<and>
    (\<forall>q. mset (L s q) = mset (of_queue q handed) + mset (L s' q))"
proof -
  obtain reqs g' s' handed rest Lr where
    r: "gs_get_requests R old choice sample rnd now available bs reserved token_limit batch (g, s) = (Inr (map sreq_raw reqs), (g', s'))"
    "map (\<lambda>(q, m). unserialize_request rnd now m) handed = map Inr reqs"
    "\<forall>q. L s q = of_queue q handed @ of_queue q rest @ Lr q \<and> L s' q = rev (of_queue q rest) @ Lr q"
    using fetch_effect [where T = "\<lambda>_. own_table g" and old = old and token_limit = token_limit, OF assms(1-3) refl assms(4-8)]
    by (elim exE conjE) (rule that)
  have "map (\<lambda>(q, m). map_sum id sreq_raw (unserialize_request rnd now m)) handed =
      map (map_sum id sreq_raw) (map (\<lambda>(q, m). unserialize_request rnd now m) handed)"
    by (simp add: case_prod_unfold)
  then have "map (\<lambda>(q, m). map_sum id sreq_raw (unserialize_request rnd now m)) handed = map Inr (map sreq_raw reqs)"
    unfolding r(2) by simp
  moreover have "mset (L s q) = mset (of_queue q handed) + mset (L s' q)" for q using r(3) by simp
  ultimately show ?thesis using r(1) by blast
qed

theorem no_request_lost_or_copied_witness:
  "\<exists>rs g' s' handed.
     gs_get_requests mem_store True hd (\<lambda>ns k. take k ns) 0 1 9 16 2 50 2 (sample_node ''b'', sample_store) = (Inr rs, (g', s')) \<and>
     map (\<lambda>(q, m). map_sum id sreq_raw (unserialize_request 0 1 m)) handed = map Inr rs \<and>
     (\<forall>q. mset (mem_lists sample_store q) = mset (of_queue q handed) + mset (mem_lists s' q))"
  by (rule no_request_lost_or_copied [OF mem_store_laws sample_oracles _ _ _ _ sample_readable]) (simp_all add: sample_node_def)

lemma pop_local_all:
  assumes "redis_laws R L Z" "list_all (\<lambda>b. 0 < b) bs" "pop_local R old g bs s = (es, s')"
  shows "es = map (\<lambda>e. (request_queue g (gs_name g), e)) (take (sum_list bs) (L s (request_queue g (gs_name g))))"
  using assms(2,3)
proof (induction bs arbitrary: es s)
  case Nil
  then show ?case by simp
next
  case (Cons b bs)
  let ?q = "request_queue g (gs_name g)"
  obtain es1 s1 where p: "ad_lpop R old ?q b True s = (es1, s1)" by fastforce
  have b: "0 < b" using Cons.prems(1) by simp
  have l: "found es1 = take b (L s ?q)" "L s1 = (L s)(?q := drop b (L s ?q))" using ad_lpop_law [OF assms(1) b p] by simp_all
  show ?case
  proof (cases es1)
    case None
    then show ?thesis using Cons.prems(2) p l(1) b by (simp add: take_eq_Nil)
  next
    case (Some es0)
    define s2 where "s2 = snd (ad_zincrby R (own_table g) (- int (length es0)) (gs_name g) (Some 0) True s1)"
    obtain ms where r: "pop_local R old g bs s2 = (ms, s')" "es = map (\<lambda>e. (?q, e)) es0 @ ms"
      using Cons.prems(2) p Some by (auto simp: s2_def split: prod.splits)
    have "L s2 ?q = drop b (L s ?q)" using ad_zincrby_law [OF assms(1)] l(2) by (simp add: s2_def)
    then have "ms = map (\<lambda>e. (?q, e)) (take (sum_list bs) (drop b (L s ?q)))" using Cons.IH [OF _ r(1)] Cons.prems(1) by simp
    then show ?thesis using r(2) l(1) Some by (simp add: take_add)
  qed
qed

lemma split_batches_sum: "1 \<le> batch \<Longrightarrow> sum_list (split_batches batch) = nat batch"
  by (auto simp: split_batches_def Let_def)

text \<open>C40: when the oldest request of a node does not fit, the whole batch it took goes back into the queue in the opposite order, so that
  the oldest request is now behind the others of the batch.\<close>

theorem unfitting_batch_reversed:
  assumes "redis_laws R L Z" "1 \<le> batch" "reserved < available" "bs \<noteq> 0"
    "L s (request_queue g (gs_name g)) = m # ms" "unserialize_request rnd now m = Inr req" "prompt_tokens_ids_len req = Inr n"
    "calc_required_blocks (int n) bs + reserved > available"
  shows "\<exists>g' s'. gs_get_requests R old choice sample rnd now available bs reserved token_limit batch (g, s) = (Inr [], (g', s')) \<and>
    L s' (request_queue g (gs_name g)) = rev (take (nat batch) (m # ms)) @ drop (nat batch) (m # ms)"
proof -
  let ?q = "request_queue g (gs_name g)"
  obtain es s1 where p: "pop_local R old g (split_batches batch) s = (es, s1)" by fastforce
  have es: "es = map (\<lambda>e. (?q, e)) (take (nat batch) (m # ms))"
    using pop_local_all [OF assms(1) split_batches_pos(1) p] split_batches_sum [OF assms(2)] assms(5) by simp
  have t: "taken g (\<lambda>_. own_table g) [] es (L s) (Z s) (L s1) (Z s1)"
    by (rule pop_local_taken [where T = "\<lambda>_. own_table g", OF assms(1) refl split_batches_pos(1) p])
  have "L s ?q = of_queue ?q es @ L s1 ?q" using t unfolding taken_def by blast
  then have "take (nat batch) (m # ms) @ L s1 ?q = take (nat batch) (m # ms) @ drop (nat batch) (m # ms)"
    using assms(5) by (simp add: es del: take_Suc_Cons)
  then have L1: "L s1 ?q = drop (nat batch) (m # ms)" by (rule iffD1 [OF same_append_eq])
  obtain k where k: "nat batch = Suc k" using assms(2) by (cases "nat batch") simp_all
  then have es': "es = (?q, m) # map (\<lambda>e. (?q, e)) (take k ms)" by (simp add: es)
  have pull: "pull R old choice sample (split_batches batch) (g, s) = (Inr ([], es), (g, s1))"
    by (simp add: pull_def p find_others_def steal_def blocked_read_def es')
  have pick: "gs_pick g rnd now available bs reserved token_limit no_budget es = Inr ([], es)"
    using assms(4,6-8) by (simp add: es' gs_charge_def no_budget_def Let_def)
  have "gs_get_requests R old choice sample rnd now available bs reserved token_limit batch (g, s) =
      (Inr [], (g, push_back R g [] (group_pulled es) s1))"
    using assms(2,3) by (simp add: gs_get_requests_def pull pick)
  moreover have "L (push_back R g [] (group_pulled es) s1) ?q = rev (take (nat batch) (m # ms)) @ drop (nat batch) (m # ms)"
    using push_back_lists [OF assms(1) group_pulled_queue(2)] L1 by (simp add: group_pulled_queue(1) es)
  ultimately show ?thesis by blast
qed

theorem unfitting_batch_reversed_witness:
  "\<exists>g' s'. gs_get_requests mem_store False hd (\<lambda>ns k. take k ns) 0 1 3 1 2 50 2 (sample_node ''a'', sample_store) = (Inr [], (g', s')) \<and>
    mem_lists s' ''t.req.a'' = [sample_message ''y'', sample_message ''x'', sample_message ''z'']"
proof -
  have q: "request_queue (sample_node ''a'') (gs_name (sample_node ''a'')) = ''t.req.a''"
    by (simp add: request_queue_def sample_node_def)
  have l: "mem_lists sample_store (request_queue (sample_node ''a'') (gs_name (sample_node ''a''))) =
      sample_message ''x'' # [sample_message ''y'', sample_message ''z'']" by (simp add: q sample_store_def)
  obtain req where u: "unserialize_request 0 1 (sample_message ''x'') = Inr req" "prompt_tokens_ids_len req = Inr 2"
  proof -
    have "map_sum id prompt_tokens_ids_len (unserialize_request 0 1 (sample_message ''x'')) = Inr (Inr 2)" by code_simp
    then show ?thesis using that by (cases "unserialize_request 0 1 (sample_message ''x'')") simp_all
  qed
  have "\<exists>g' s'. gs_get_requests mem_store False hd (\<lambda>ns k. take k ns) 0 1 3 1 2 50 2 (sample_node ''a'', sample_store) = (Inr [], (g', s')) \<and>
    mem_lists s' (request_queue (sample_node ''a'') (gs_name (sample_node ''a''))) =
      rev (take (nat 2) (sample_message ''x'' # [sample_message ''y'', sample_message ''z''])) @
      drop (nat 2) (sample_message ''x'' # [sample_message ''y'', sample_message ''z''])"
    by (rule unfitting_batch_reversed [OF mem_store_laws _ _ _ l u]) (simp_all add: calc_required_blocks_def)
  then show ?thesis unfolding q by (simp add: numeral_2_eq_2)
qed

end
