(* ===== verification/GlobalSystem.thy ===== *)
theory GlobalSystem
  imports GlobalSchedulerProps
begin

text \<open>
  Several nodes on one store: whatever they do and in whatever order, the load tables count exactly what waits, and the results of a stolen
  request return to the node that accepted it.
\<close>

subsection \<open>The steps of a node\<close>

type_synonym 's fleet = "(string \<Rightarrow> global_sched option) \<times> 's"

inductive gs_step :: "'s redis \<Rightarrow> 's fleet \<Rightarrow> 's fleet \<Rightarrow> bool" for R where
  accepts: "nodes n = Some g \<Longrightarrow> put_requests_worker R now rs (g, s) = (res, g', s') \<Longrightarrow>
    gs_step R (nodes, s) (nodes(n \<mapsto> g'), s')"
| fetches: "nodes n = Some g \<Longrightarrow> choice_in choice \<Longrightarrow> sample_in sample \<Longrightarrow>
    gs_get_requests R old choice sample rnd now available bs reserved token_limit batch (g, s) = (out, (g', s')) \<Longrightarrow>
    gs_step R (nodes, s) (nodes(n \<mapsto> g'), s')"
| answers: "nodes n = Some g \<Longrightarrow> put_results_worker R now rs (g, s) = (g', s') \<Longrightarrow>
    gs_step R (nodes, s) (nodes(n \<mapsto> g'), s')"
| receives: "nodes n = Some g \<Longrightarrow> get_results_worker R old now (g, s) = (g', s') \<Longrightarrow>
    gs_step R (nodes, s) (nodes(n \<mapsto> g'), s')"
| delivers: "nodes n = Some g \<Longrightarrow> gs_get_results g = (res, g') \<Longrightarrow> gs_step R (nodes, s) (nodes(n \<mapsto> g'), s)"
| resets: "nodes n = Some g \<Longrightarrow> gs_reset R (g, s) = (g', s') \<Longrightarrow> gs_step R (nodes, s) (nodes(n \<mapsto> g'), s')"

definition fleet_start :: "string \<Rightarrow> (string \<Rightarrow> global_sched option) \<Rightarrow> bool" where
  "fleet_start topic nodes =
     (\<forall>n g. nodes n = Some g \<longrightarrow> gs_topic g = topic \<and> gs_name g = n \<and> 0 < load_shards_num g \<and> stolen_requests g = [])"

subsection \<open>What a node is known by does not change\<close>

definition same_node :: "global_sched \<Rightarrow> global_sched \<Rightarrow> bool" where
  "same_node g' g = (\<exists>slot resps st. g' = g\<lparr>load_slot := slot, local_responses := resps, stolen_requests := st\<rparr>)"

lemma same_node_refl: "same_node g g"
  unfolding same_node_def
  by (intro exI [of _ "load_slot g"] exI [of _ "local_responses g"] exI [of _ "stolen_requests g"]) simp

lemma same_node_update:
  "same_node (g\<lparr>load_slot := x\<rparr>) g" "same_node (g\<lparr>local_responses := y\<rparr>) g" "same_node (g\<lparr>stolen_requests := z\<rparr>) g"
  "same_node (g\<lparr>local_responses := y, stolen_requests := z\<rparr>) g" "same_node (g\<lparr>load_slot := x, stolen_requests := z\<rparr>) g"
  unfolding same_node_def
      apply (intro exI [of _ x] exI [of _ "local_responses g"] exI [of _ "stolen_requests g"], simp)
     apply (intro exI [of _ "load_slot g"] exI [of _ y] exI [of _ "stolen_requests g"], simp)
    apply (intro exI [of _ "load_slot g"] exI [of _ "local_responses g"] exI [of _ z], simp)
   apply (intro exI [of _ "load_slot g"] exI [of _ y] exI [of _ z], simp)
  apply (intro exI [of _ x] exI [of _ "local_responses g"] exI [of _ z], simp)
  done

lemma same_node_names:
  "same_node g' g \<Longrightarrow> gs_topic g' = gs_topic g \<and> gs_name g' = gs_name g \<and> load_shards_num g' = load_shards_num g \<and>
     own_table g' = own_table g \<and> request_queue g' = request_queue g \<and> response_queue g' = response_queue g"
  by (auto simp: same_node_def own_table_def load_table_def request_queue_def response_queue_def fun_eq_iff)

subsection \<open>Messages and stolen requests\<close>

definition sent_by :: "global_sched \<Rightarrow> string \<Rightarrow> ScheduledRequest \<Rightarrow> bool" where
  "sent_by g n req = (request_queue_name req = request_queue g n \<and> response_queue_name req = response_queue g n)"

definition addressed :: "global_sched \<Rightarrow> string \<Rightarrow> pydict \<Rightarrow> bool" where
  "addressed g n m = (\<forall>rnd now req. unserialize_request rnd now m = Inr req \<longrightarrow> sent_by g n req)"

lemma addressed_serialized:
  "addressed g n (serialize_request (new_ScheduledRequest r (request_queue g n) (response_queue g n) now))"
  by (auto simp: addressed_def sent_by_def serialize_request_def unserialize_request_def ditem_def dget_def new_ScheduledRequest_def
      split: sum.splits)

lemma accepted_addressed:
  "accept_requests g now rs resps = (accepted, res, resps1) \<Longrightarrow> m \<in> set (map serialize_request accepted) \<Longrightarrow>
     addressed g (gs_name g) m"
  by (induction g now rs resps arbitrary: accepted res resps1 rule: accept_requests.induct)
    (auto split: prod.splits if_splits intro: addressed_serialized)

lemma note_stolen_set:
  "(i, req) \<in> set (stolen_requests (fold note_stolen reqs g)) \<Longrightarrow>
     (i, req) \<in> set (stolen_requests g) \<or> req \<in> set reqs \<and> i = rd_request_id (sreq_raw req)"
proof (induction reqs arbitrary: g)
  case (Cons r reqs)
  have "(i, req) \<in> set (stolen_requests (note_stolen r g)) \<Longrightarrow>
      (i, req) \<in> set (stolen_requests g) \<or> req = r \<and> i = rd_request_id (sreq_raw r)"
    by (auto simp: note_stolen_def split: if_splits)
  then show ?case using Cons.IH [of "note_stolen r g"] Cons.prems by auto
qed simp

lemma gs_pick_result:
  "gs_pick g rnd now available bs reserved token_limit b ms = Inr (reqs, rest) \<Longrightarrow>
     \<exists>handed. ms = handed @ rest \<and> map (\<lambda>(q, m). unserialize_request rnd now m) handed = map Inr reqs"
proof (induction ms arbitrary: b reqs)
  case Nil
  then show ?case by simp
next
  case (Cons x ms)
  obtain q m where x: "x = (q, m)" by fastforce
  obtain req n where u: "unserialize_request rnd now m = Inr req" "prompt_tokens_ids_len req = Inr n" "bs \<noteq> 0"
    using Cons.prems by (auto simp: x split: sum.splits if_splits)
  obtain b1 fits where c: "gs_charge g available bs reserved token_limit (int n) b = (b1, fits)" by fastforce
  show ?case
  proof (cases fits)
    case False
    then have "reqs = []" "rest = x # ms" using Cons.prems by (simp_all add: x u c)
    then show ?thesis by simp
  next
    case True
    then obtain reqs1 where p: "gs_pick g rnd now available bs reserved token_limit b1 ms = Inr (reqs1, rest)" "reqs = req # reqs1"
      using Cons.prems by (auto simp: x u c split: sum.splits)
    obtain handed where "ms = handed @ rest" "map (\<lambda>(q, m). unserialize_request rnd now m) handed = map Inr reqs1"
      using Cons.IH [OF p(1)] by (elim exE conjE)
    then show ?thesis by (intro exI [of _ "x # handed"]) (simp add: x u p(2))
  qed
qed

lemma in_of_queue: "m \<in> set (of_queue q es) \<longleftrightarrow> (q, m) \<in> set es"
  by (force simp: of_queue_def)

subsection \<open>What each operation does to the queues and tables\<close>

text \<open>From here on a node only writes to the tables and queues of the fleet; \<open>stays\<close> collects what every step keeps.\<close>

definition stays ::
  "(string \<Rightarrow> string) \<Rightarrow> ('s \<Rightarrow> string \<Rightarrow> pydict list) \<Rightarrow> ('s \<Rightarrow> string \<Rightarrow> string \<Rightarrow> int option) \<Rightarrow>
   global_sched \<Rightarrow> 's \<Rightarrow> global_sched \<Rightarrow> 's \<Rightarrow> bool" where
  "stays T L Z g s g' s' =
     (same_node g' g \<and> loads_ok g T (L s') (Z s') \<and>
      (\<forall>n. \<forall>m \<in> set (L s' (request_queue g n)). m \<in> set (L s (request_queue g n)) \<or> addressed g n m) \<and>
      (\<forall>(i, req) \<in> set (stolen_requests g'). (i, req) \<in> set (stolen_requests g) \<or>
         (\<exists>n rnd now. \<exists>m \<in> set (L s (request_queue g n)). unserialize_request rnd now m = Inr req)))"

lemma loads_ok_same:
  "loads_ok g T Ls Zs \<Longrightarrow> (\<And>n. Ls' (request_queue g n) = Ls (request_queue g n)) \<Longrightarrow> loads_ok g T Ls' Zs"
  by (simp add: loads_ok_def)

lemma put_requests_stays:
  assumes "redis_laws R L Z" "T (gs_name g) = own_table g" "loads_ok g T (L s) (Z s)"
    "put_requests_worker R now rs (g, s) = (res, g', s')"
  shows "stays T L Z g s g' s'"
proof -
  let ?q = "request_queue g (gs_name g)"
  obtain accepted res1 resps where a: "accept_requests g now rs (local_responses g) = (accepted, res1, resps)"
    using prod_cases3 by blast
  have g': "g' = g\<lparr>local_responses := resps\<rparr>" using assms(4) by (auto simp: put_requests_worker_def a)
  show ?thesis
  proof (cases "accepted = []")
    case True
    then have "s' = s" using assms(4) by (auto simp: put_requests_worker_def a)
    then show ?thesis using assms(3) by (auto simp: stays_def g' same_node_update)
  next
    case False
    define s1 where "s1 = ad_rpush R ?q (map serialize_request accepted) True s"
    have l: "L s1 = (L s)(?q := L s ?q @ map serialize_request accepted)" "Z s1 = Z s"
      using ad_rpush_law [OF assms(1)] by (simp_all add: s1_def)
    have s': "s' = snd (ad_zincrby R (T (gs_name g)) (int (length accepted)) (gs_name g) (Some 0) True s1)"
      using assms(2,4) False by (auto simp: put_requests_worker_def a s1_def)
    have L': "L s' = L s1" using ad_zincrby_law [OF assms(1)] by (simp add: s')
    have ok: "loads_ok g T (L s') (Z s')"
      unfolding s' by (rule put_counted [OF assms(1,3) l]) simp_all
    have "addressed g (gs_name g) m" if "m \<in> set (map serialize_request accepted)" for m
      using accepted_addressed [OF a that] .
    then have "\<forall>n. \<forall>m \<in> set (L s' (request_queue g n)). m \<in> set (L s (request_queue g n)) \<or> addressed g n m"
      unfolding L' l by auto
    then show ?thesis using ok by (auto simp: stays_def g' same_node_update)
  qed
qed

lemma fetch_stays:
  assumes "redis_laws R L Z" "choice_in choice" "sample_in sample" "T (gs_name g) = own_table g" "0 < load_shards_num g"
    "loads_ok g T (L s) (Z s)"
    "gs_get_requests R old choice sample rnd now available bs reserved token_limit batch (g, s) = (out, (g', s'))"
  shows "stays T L Z g s g' s'"
proof (cases "available \<le> reserved \<or> batch < 1")
  case True
  then have "g' = g" "s' = s" using assms(7) by (simp_all add: gs_get_requests_def)
  then show ?thesis using assms(6) by (auto simp: stays_def same_node_refl)
next
  case False
  then have b: "1 \<le> batch" by simp
  obtain table es slot s1 where p: "pull R old choice sample (split_batches batch) (g, s) = (Inr (table, es), (g\<lparr>load_slot := slot\<rparr>, s1))"
    "taken g T table es (L s) (Z s) (L s1) (Z s1)"
    using pull_taken [where T = T and old = old and s = s, OF assms(1-5) b] by (elim exE conjE) (rule that)
  have q: "L s q = of_queue q es @ L s1 q" for q using p(2) unfolding taken_def by blast
  have ok1: "loads_ok g T (L s1) (Z s1)" using p(2) assms(6) unfolding taken_def by blast
  have src: "\<exists>n. q = request_queue g n \<and> T n = table_for g table n" if "(q, m) \<in> set es" for q m
    using p(2) assms(6) that unfolding taken_def by blast
  show ?thesis
  proof (cases "gs_pick (g\<lparr>load_slot := slot\<rparr>) rnd now available bs reserved token_limit no_budget es")
    case (Inl e)
    then have "g' = g\<lparr>load_slot := slot\<rparr>" "s' = s1" using assms(7) False p(1) by (auto simp: gs_get_requests_def)
    then show ?thesis using ok1 q by (auto simp: stays_def same_node_update)
  next
    case (Inr pr)
    then obtain reqs rest where k: "gs_pick (g\<lparr>load_slot := slot\<rparr>) rnd now available bs reserved token_limit no_budget es = Inr (reqs, rest)"
      by (cases pr) simp
    obtain handed where h: "es = handed @ rest" "map (\<lambda>(q, m). unserialize_request rnd now m) handed = map Inr reqs"
      using gs_pick_result [OF k] by (elim exE conjE)
    obtain x where x: "fold note_stolen reqs (g\<lparr>load_slot := slot\<rparr>) = g\<lparr>load_slot := slot, stolen_requests := x\<rparr>"
      using note_stolen_keeps by blast
    have r: "g' = g\<lparr>load_slot := slot, stolen_requests := x\<rparr>" "s' = push_back R g table (group_pulled rest) s1"
      using assms(7) False p(1) k x by (auto simp: gs_get_requests_def Let_def)
    have l: "L s' q = rev (of_queue q rest) @ L s1 q" for q
      using push_back_lists [OF assms(1) group_pulled_queue(2)] by (simp add: group_pulled_queue(1) r(2))
    have ok: "loads_ok g T (L s') (Z s')"
      unfolding r(2)
    proof (rule push_back_loads [OF assms(1) ok1])
      show "\<forall>q \<in> fst ` set (group_pulled rest). \<exists>n. q = request_queue g n \<and> T n = table_for g table n"
        unfolding group_pulled_queue(3) using src h(1) by fastforce
    qed
    have sub: "set (L s' q) \<subseteq> set (L s q)" for q using l q h(1) by auto
    have "(i, req) \<in> set (stolen_requests g) \<or> (\<exists>n rnd now. \<exists>m \<in> set (L s (request_queue g n)). unserialize_request rnd now m = Inr req)"
      if "(i, req) \<in> set (stolen_requests g')" for i req
    proof -
      have "(i, req) \<in> set (stolen_requests (fold note_stolen reqs (g\<lparr>load_slot := slot\<rparr>)))" using that r(1) x by simp
      from note_stolen_set [OF this] have "(i, req) \<in> set (stolen_requests g) \<or> req \<in> set reqs" by auto
      moreover have "\<exists>n rnd now. \<exists>m \<in> set (L s (request_queue g n)). unserialize_request rnd now m = Inr req" if "req \<in> set reqs"
      proof -
        have "Inr req \<in> set (map (\<lambda>(q, m). unserialize_request rnd now m) handed)" using that h(2) by simp
        then obtain q' m where m: "(q', m) \<in> set handed" "unserialize_request rnd now m = Inr req" by auto
        then obtain n where "q' = request_queue g n" using src h(1) by fastforce
        moreover have "m \<in> set (L s q')" using m(1) h(1) q by (simp add: in_of_queue)
        ultimately show ?thesis using m(2) by blast
      qed
      ultimately show ?thesis by blast
    qed
    then show ?thesis using ok sub by (auto simp: stays_def r(1) same_node_update)
  qed
qed

definition forwards :: "global_sched \<Rightarrow> string \<Rightarrow> ScheduledResponse \<Rightarrow> bool" where
  "forwards g q r =
     (map_of (local_responses g) (sres_id r) = None \<and>
      (case map_of (stolen_requests g) (sres_id r) of None \<Rightarrow> False | Some req \<Rightarrow> response_queue_name req = q))"

lemma push_groups:
  assumes "redis_laws R L Z" "distinct (map fst groups)"
  shows "L (fold (\<lambda>(q, ms). ad_rpush R q ms True) groups s) q = L s q @ found (map_of groups q) \<and>
    Z (fold (\<lambda>(q, ms). ad_rpush R q ms True) groups s) = Z s"
  using assms(2)
proof (induction groups arbitrary: s)
  case (Cons x groups)
  obtain q' ms where x: "x = (q', ms)" by fastforce
  have "map_of groups q' = None" using Cons.prems x by (simp add: map_of_eq_None_iff)
  then show ?case using Cons ad_rpush_law [OF assms(1), of q' ms True s] by (auto simp: x)
qed simp

lemma group_forwarded:
  fixes g :: global_sched
  defines "f \<equiv> \<lambda>r. case map_of (stolen_requests g) (sres_id r) of None \<Rightarrow> id
                   | Some req \<Rightarrow> add_to_group (response_queue_name req) [serialize_response r]"
  shows "found (map_of (fold f rs groups) q) = found (map_of groups q) @
      map serialize_response (filter (\<lambda>r. case map_of (stolen_requests g) (sres_id r) of None \<Rightarrow> False
        | Some req \<Rightarrow> response_queue_name req = q) rs)"
    "distinct (map fst groups) \<Longrightarrow> distinct (map fst (fold f rs groups))"
proof -
  show "found (map_of (fold f rs groups) q) = found (map_of groups q) @
      map serialize_response (filter (\<lambda>r. case map_of (stolen_requests g) (sres_id r) of None \<Rightarrow> False
        | Some req \<Rightarrow> response_queue_name req = q) rs)"
    by (induction rs arbitrary: groups) (auto simp: f_def map_of_add_to_group split: option.split)
  show "distinct (map fst groups) \<Longrightarrow> distinct (map fst (fold f rs groups))"
    by (induction rs arbitrary: groups) (auto simp: f_def distinct_add_to_group split: option.split)
qed

lemma forward_effect:
  assumes "redis_laws R L Z" "put_results_worker R now results (g, s) = (g', s')"
  shows "L s' q = L s q @ map serialize_response (filter (forwards g q) (map (\<lambda>r. new_ScheduledResponse r now) results)) \<and> Z s' = Z s"
proof -
  let ?rs = "map (\<lambda>r. new_ScheduledResponse r now) results"
  let ?theirs = "filter (\<lambda>r. map_of (local_responses g) (sres_id r) = None \<and> map_of (stolen_requests g) (sres_id r) \<noteq> None) ?rs"
  let ?groups = "fold (\<lambda>r. case map_of (stolen_requests g) (sres_id r) of None \<Rightarrow> id
    | Some req \<Rightarrow> add_to_group (response_queue_name req) [serialize_response r]) ?theirs []"
  have s': "s' = fold (\<lambda>(q, ms). ad_rpush R q ms True) ?groups s"
    using assms(2) by (auto simp: put_results_worker_def Let_def)
  have "distinct (map fst ?groups)" by (rule group_forwarded(2)) simp
  then have "L s' q = L s q @ found (map_of ?groups q)" "Z s' = Z s" using push_groups [OF assms(1)] s' by simp_all
  moreover have "found (map_of ?groups q) = map serialize_response (filter (forwards g q) ?rs)"
  proof -
    have f: "(\<lambda>r. (map_of (local_responses g) (sres_id r) = None \<and> map_of (stolen_requests g) (sres_id r) \<noteq> None) \<and>
        (case map_of (stolen_requests g) (sres_id r) of None \<Rightarrow> False | Some req \<Rightarrow> response_queue_name req = q)) = forwards g q"
      by (auto simp: fun_eq_iff forwards_def split: option.split)
    show ?thesis unfolding group_forwarded(1) filter_filter f by simp
  qed
  ultimately show ?thesis by simp
qed

lemma put_results_stays:
  assumes "redis_laws R L Z" "loads_ok g T (L s) (Z s)" "\<forall>(i, req) \<in> set (stolen_requests g). \<exists>n. sent_by g n req"
    "put_results_worker R now results (g, s) = (g', s')"
  shows "stays T L Z g s g' s'"
proof -
  note e = forward_effect [OF assms(1,4)]
  have "\<not> forwards g (request_queue g n) r" for n r
    using assms(3) by (auto simp: forwards_def sent_by_def dest!: map_of_SomeD split: option.splits)
  then have q: "L s' (request_queue g n) = L s (request_queue g n)" for n using e by simp
  then have "loads_ok g T (L s') (Z s')" using loads_ok_same [OF assms(2), of "L s'"] e by simp
  moreover have "\<exists>y z. g' = g\<lparr>local_responses := y, stolen_requests := filter z (stolen_requests g)\<rparr>"
    using assms(4) by (auto simp: put_results_worker_def Let_def)
  ultimately show ?thesis using q by (auto simp: stays_def same_node_update)
qed

text \<open>A pass of the receiving thread takes from the response queue of the node only.\<close>

lemma receive_queues:
  fixes s :: 's
  assumes "redis_laws R L Z" "get_results_worker R old now (g, s) = (g', s')"
  shows "Z s' = Z s \<and> (\<forall>q. q \<noteq> response_queue g (gs_name g) \<longrightarrow> L s' q = L s q) \<and> (\<exists>y. g' = g\<lparr>local_responses := y\<rparr>)"
proof -
  let ?q = "response_queue g (gs_name g)"
  obtain es s1 where p: "ad_lpop R old ?q 300 True s = (es, s1)" by fastforce
  have l: "L s1 = (L s)(?q := drop 300 (L s ?q))" "Z s1 = Z s" using ad_lpop_law [OF assms(1) _ p] by simp_all
  obtain e s2 where b: "r_blpop R [?q] s1 = (e, s2)" by fastforce
  have l2: "Z s2 = Z s1" "\<forall>q. q \<noteq> ?q \<longrightarrow> L s2 q = L s1 q"
    using blpop_law [OF assms(1) b] by (auto split: option.splits)
  define f where "f = (\<lambda>(ms :: pydict list, s3 :: 's). case read_responses now ms of Inl e \<Rightarrow> (g, s3)
    | Inr rs \<Rightarrow> (g\<lparr>local_responses :=
        fold (\<lambda>r m. if map_of m (sres_id r) = None then m else add_to_group (sres_id r) [r] m) rs (local_responses g)\<rparr>, s3))"
  have f: "snd (f (ms, s3)) = s3" "\<exists>y. fst (f (ms, s3)) = g\<lparr>local_responses := y\<rparr>" for ms s3
    by (auto simp: f_def split: sum.split intro: exI [of _ "local_responses g"])
  have r: "(g', s') = f (if found es \<noteq> [] then (found es, s1) else case e of None \<Rightarrow> ([], s2) | Some (q, m) \<Rightarrow> ([m], s2))"
    using assms(2) unfolding get_results_worker_def prod.case p
    by (cases e) (auto simp: f_def b)
  then obtain ms s3 where m: "(g', s') = f (ms, s3)" "s3 = s1 \<or> s3 = s2" by (auto split: if_splits option.splits)
  have "s' = s3" using f(1) [of ms s3] m(1) [symmetric] by simp
  moreover have "\<exists>y. g' = g\<lparr>local_responses := y\<rparr>" using f(2) [of ms s3] m(1) [symmetric] by simp
  ultimately show ?thesis using l l2 m(2) by auto
qed

lemma receive_stays:
  assumes "redis_laws R L Z" "loads_ok g T (L s) (Z s)" "get_results_worker R old now (g, s) = (g', s')"
  shows "stays T L Z g s g' s'"
proof -
  note e = receive_queues [OF assms(1,3)]
  then have q: "L s' (request_queue g n) = L s (request_queue g n)" for n by simp
  then have "loads_ok g T (L s') (Z s')" using loads_ok_same [OF assms(2), of "L s'"] e by simp
  then show ?thesis using q e by (auto simp: stays_def same_node_update)
qed

lemma reset_stays:
  assumes "redis_laws R L Z" "T (gs_name g) = own_table g" "loads_ok g T (L s) (Z s)" "gs_reset R (g, s) = (g', s')"
  shows "stays T L Z g s g' s'"
proof -
  let ?n = "gs_name g"
  have d: "L (r_delete R k s) = (L s)(k := []) \<and> Z (r_delete R k s) = Z s" for k s using assms(1) by (simp add: redis_laws_def)
  have g': "g' = g\<lparr>local_responses := [], stolen_requests := []\<rparr>"
    and s': "s' = snd (r_zrem R (T ?n) ?n (r_delete R (response_queue g ?n) (r_delete R (request_queue g ?n) s)))"
    using assms(2,4) by (simp_all add: gs_reset_def)
  have l: "L s' = (L s)(request_queue g ?n := [], response_queue g ?n := [])" "Z s' = (Z s)(T ?n := (Z s (T ?n))(?n := None))"
    using zrem_law [OF assms(1)] d by (simp_all add: s')
  have z: "score (Z s (T ?n) ?n) = int (length (L s (request_queue g ?n)))" using assms(3) by (simp add: loads_ok_def)
  have "loads_ok g T ((L s)(request_queue g ?n := [])) (Z s')"
    by (rule loads_ok_step [OF assms(3) refl]) (auto simp: l(2) z)
  then have "loads_ok g T (L s') (Z s')" by (rule loads_ok_same) (simp add: l(1))
  then show ?thesis by (auto simp: stays_def g' l(1) same_node_update)
qed

subsection \<open>The invariant of the fleet\<close>

definition fleet_ok ::
  "global_sched \<Rightarrow> (string \<Rightarrow> string) \<Rightarrow> (string \<Rightarrow> global_sched option) \<Rightarrow> (string \<Rightarrow> pydict list) \<Rightarrow>
   (string \<Rightarrow> string \<Rightarrow> int option) \<Rightarrow> bool" where
  "fleet_ok g0 T nodes Ls Zs =
     ((\<forall>n g. nodes n = Some g \<longrightarrow> gs_topic g = gs_topic g0 \<and> gs_name g = n \<and> own_table g = T n \<and> 0 < load_shards_num g \<and>
         (\<forall>(i, req) \<in> set (stolen_requests g). \<exists>m. sent_by g0 m req)) \<and>
      loads_ok g0 T Ls Zs \<and> (\<forall>n. \<forall>m \<in> set (Ls (request_queue g0 n)). addressed g0 n m))"

lemma same_topic:
  assumes "gs_topic g = gs_topic g0"
  shows "request_queue g = request_queue g0" "response_queue g = response_queue g0" "loads_ok g = loads_ok g0"
    "addressed g = addressed g0" "sent_by g = sent_by g0"
proof -
  show r: "request_queue g = request_queue g0" "response_queue g = response_queue g0"
    using assms by (simp_all add: fun_eq_iff request_queue_def response_queue_def)
  show "loads_ok g = loads_ok g0" by (simp add: fun_eq_iff loads_ok_def r)
  show s: "sent_by g = sent_by g0" by (simp add: fun_eq_iff sent_by_def r)
  show "addressed g = addressed g0" by (simp add: fun_eq_iff addressed_def s)
qed

lemma fleet_ok_stays:
  assumes "fleet_ok g0 T nodes (L s) (Z s)" "nodes n = Some g" "stays T L Z g s g' s'"
  shows "fleet_ok g0 T (nodes(n \<mapsto> g')) (L s') (Z s')"
proof -
  have g: "gs_topic g = gs_topic g0" "gs_name g = n" "own_table g = T n" "0 < load_shards_num g"
    "\<forall>(i, req) \<in> set (stolen_requests g). \<exists>m. sent_by g0 m req"
    using assms(1,2) unfolding fleet_ok_def by blast+
  have a: "\<forall>n. \<forall>m \<in> set (L s (request_queue g0 n)). addressed g0 n m" using assms(1) unfolding fleet_ok_def by blast
  note t = same_topic [OF g(1)]
  have st: "same_node g' g" "loads_ok g0 T (L s') (Z s')"
    "\<forall>n. \<forall>m \<in> set (L s' (request_queue g0 n)). m \<in> set (L s (request_queue g0 n)) \<or> addressed g0 n m"
    "\<forall>(i, req) \<in> set (stolen_requests g'). (i, req) \<in> set (stolen_requests g) \<or>
       (\<exists>n rnd now. \<exists>m \<in> set (L s (request_queue g0 n)). unserialize_request rnd now m = Inr req)"
    using assms(3) unfolding stays_def t by blast+
  have "\<forall>(i, req) \<in> set (stolen_requests g'). \<exists>m. sent_by g0 m req"
    using st(4) g(5) a unfolding addressed_def by blast
  moreover have "\<forall>n. \<forall>m \<in> set (L s' (request_queue g0 n)). addressed g0 n m" using st(3) a by blast
  ultimately show ?thesis
    using assms(1) g same_node_names [OF st(1)] st(2) unfolding fleet_ok_def by simp
qed

lemma fleet_ok_step:
  assumes "redis_laws R L Z" "fleet_ok g0 T nodes (L s) (Z s)" "gs_step R (nodes, s) (nodes', s')"
  shows "fleet_ok g0 T nodes' (L s') (Z s')"
proof -
  have g: "T (gs_name g) = own_table g \<and> 0 < load_shards_num g \<and> loads_ok g T (L s) (Z s) \<and>
      (\<forall>(i, req) \<in> set (stolen_requests g). \<exists>m. sent_by g m req)" if "nodes n = Some g" for n g
  proof -
    have f: "gs_topic g = gs_topic g0" "gs_name g = n" "own_table g = T n" "0 < load_shards_num g"
      "\<forall>(i, req) \<in> set (stolen_requests g). \<exists>m. sent_by g0 m req" "loads_ok g0 T (L s) (Z s)"
      using assms(2) that unfolding fleet_ok_def by blast+
    show ?thesis unfolding same_topic [OF f(1)] f(2,3) using f(4-6) by blast
  qed
  show ?thesis using assms(3)
  proof (cases rule: gs_step.cases)
    case (accepts n g now rs res g')
    have "stays T L Z g s g' s'" by (rule put_requests_stays [OF assms(1) _ _ accepts(3)]) (use g [OF accepts(2)] in simp_all)
    then show ?thesis using fleet_ok_stays [where L = L and Z = Z, OF assms(2) accepts(2)] accepts(1) by simp
  next
    case (fetches n g choice sample old rnd now available bs reserved token_limit batch out g')
    have "stays T L Z g s g' s'"
      by (rule fetch_stays [OF assms(1) fetches(3,4) _ _ _ fetches(5)]) (use g [OF fetches(2)] in simp_all)
    then show ?thesis using fleet_ok_stays [where L = L and Z = Z, OF assms(2) fetches(2)] fetches(1) by simp
  next
    case (answers n g now rs g')
    have "stays T L Z g s g' s'" by (rule put_results_stays [OF assms(1) _ _ answers(3)]) (use g [OF answers(2)] in simp_all)
    then show ?thesis using fleet_ok_stays [where L = L and Z = Z, OF assms(2) answers(2)] answers(1) by simp
  next
    case (receives n g old now g')
    have "stays T L Z g s g' s'" by (rule receive_stays [OF assms(1) _ receives(3)]) (use g [OF receives(2)] in simp_all)
    then show ?thesis using fleet_ok_stays [where L = L and Z = Z, OF assms(2) receives(2)] receives(1) by simp
  next
    case (delivers n g res g')
    have "stays T L Z g s g' s'"
      using delivers(2,4) g [OF delivers(3)] by (auto simp: gs_get_results_def stays_def same_node_update)
    then show ?thesis using fleet_ok_stays [where L = L and Z = Z, OF assms(2) delivers(3)] delivers(1) by simp
  next
    case (resets n g g')
    have "stays T L Z g s g' s'" by (rule reset_stays [OF assms(1) _ _ resets(3)]) (use g [OF resets(2)] in simp_all)
    then show ?thesis using fleet_ok_stays [where L = L and Z = Z, OF assms(2) resets(2)] resets(1) by simp
  qed
qed

definition start_table :: "(string \<Rightarrow> global_sched option) \<Rightarrow> string \<Rightarrow> string" where
  "start_table nodes n = (case nodes n of None \<Rightarrow> [] | Some g \<Rightarrow> own_table g)"

lemma fleet_ok_reached:
  assumes "redis_laws R L Z" "fleet_start (gs_topic g0) nodes" "\<forall>q. L s q = []" "\<forall>t m. Z s t m = None"
    "(gs_step R)\<^sup>*\<^sup>* (nodes, s) (nodes', s')"
  shows "fleet_ok g0 (start_table nodes) nodes' (L s') (Z s')"
  using assms(5)
proof (induction rule: rtranclp_induct2)
  case refl
  then show ?case using assms(2-4) by (auto simp: fleet_ok_def fleet_start_def loads_ok_def start_table_def)
next
  case (step nodes1 s1 nodes2 s2)
  then show ?case using fleet_ok_step [OF assms(1)] by blast
qed

text \<open>C22: from an empty store, in whatever order whole calls of the nodes of one topic happen, each as one step on the store, and as long as no node changes its load table
  by \<open>update_config\<close>, the score a node has in its load table is the number of requests that wait in its queue: requests that
  are accepted, stolen, put back or dropped by a reset are counted once each.\<close>

theorem load_tables_exact:
  assumes "redis_laws R L Z" "fleet_start topic nodes" "\<forall>q. L s q = []" "\<forall>t m. Z s t m = None"
    "(gs_step R)\<^sup>*\<^sup>* (nodes, s) (nodes', s')" "nodes' n = Some g"
  shows "score (Z s' (own_table g) n) = int (length (L s' (request_queue g n)))"
proof -
  let ?g0 = "g\<lparr>gs_topic := topic\<rparr>"
  have "fleet_ok ?g0 (start_table nodes) nodes' (L s') (Z s')"
    by (rule fleet_ok_reached [OF assms(1) _ assms(3-5)]) (simp add: assms(2))
  then have "loads_ok ?g0 (start_table nodes) (L s') (Z s')" "own_table g = start_table nodes n" "gs_topic g = gs_topic ?g0"
    using assms(6) unfolding fleet_ok_def by blast+
  then show ?thesis by (simp add: loads_ok_def same_topic(1) [OF \<open>gs_topic g = gs_topic ?g0\<close>])
qed

text \<open>Node \<open>a\<close> accepts a request, and node \<open>b\<close> steals it.\<close>

definition sample_fleet :: "string \<Rightarrow> global_sched option" where
  "sample_fleet = [''a'' \<mapsto> sample_node ''a'', ''b'' \<mapsto> sample_node ''b'']"

definition sample_put :: "(pyval \<times> string option) list \<times> global_sched \<times> mem" where
  "sample_put = put_requests_worker mem_store 0 [sample_request ''x'', sample_request ''y''] (sample_node ''a'', empty_mem)"

definition sample_stolen :: "(global_sched \<times> mem, RequestData list) outcome" where
  "sample_stolen = gs_get_requests mem_store False hd (\<lambda>ns k. take k ns) 0 1 9 16 2 50 1 (sample_node ''b'', snd (snd sample_put))"

definition fleet_stolen :: "string \<Rightarrow> global_sched option" where
  "fleet_stolen = sample_fleet(''a'' \<mapsto> fst (snd sample_put), ''b'' \<mapsto> fst (snd sample_stolen))"

lemma sample_start:
  "fleet_start ''t'' sample_fleet" "\<forall>q. mem_lists empty_mem q = []" "\<forall>t m. mem_score empty_mem t m = None"
  by (auto simp: fleet_start_def sample_fleet_def sample_node_def empty_mem_def mem_score_def)

lemma sample_reached: "(gs_step mem_store)\<^sup>*\<^sup>* (sample_fleet, empty_mem) (fleet_stolen, snd (snd sample_stolen))"
proof -
  let ?n1 = "sample_fleet(''a'' \<mapsto> fst (snd sample_put))"
  have "gs_step mem_store (sample_fleet, empty_mem) (?n1, snd (snd sample_put))"
    by (rule gs_step.accepts [where g = "sample_node ''a''" and now = 0 and rs = "[sample_request ''x'', sample_request ''y'']"
          and res = "fst sample_put"]) (simp_all add: sample_fleet_def sample_put_def)
  moreover have "gs_step mem_store (?n1, snd (snd sample_put)) (?n1(''b'' \<mapsto> fst (snd sample_stolen)), snd (snd sample_stolen))"
    by (rule gs_step.fetches [where g = "sample_node ''b''" and choice = hd and sample = "\<lambda>ns k. take k ns" and old = False and rnd = 0
          and now = 1 and available = 9 and bs = 16 and reserved = 2 and token_limit = 50 and batch = 1 and out = "fst sample_stolen"])
      (simp_all add: sample_oracles sample_fleet_def sample_stolen_def)
  ultimately show ?thesis unfolding fleet_stolen_def by (rule converse_rtranclp_into_rtranclp [OF _ r_into_rtranclp])
qed

theorem load_tables_exact_witness:
  "score (mem_score (snd (snd sample_stolen)) ''t.load.0'' ''a'') = int (length (mem_lists (snd (snd sample_stolen)) ''t.req.a'')) \<and>
   length (mem_lists (snd (snd sample_stolen)) ''t.req.a'') = 1"
proof -
  have g: "fleet_stolen ''a'' = Some (fst (snd sample_put))" by (simp add: fleet_stolen_def)
  have n: "own_table (fst (snd sample_put)) = ''t.load.0'' \<and> request_queue (fst (snd sample_put)) ''a'' = ''t.req.a''" by code_simp
  have l: "length (mem_lists (snd (snd sample_stolen)) ''t.req.a'') = 1" by code_simp
  show ?thesis using load_tables_exact [OF mem_store_laws sample_start sample_reached g] n l by simp
qed

subsection \<open>The way back of a result\<close>

definition complete_output :: "RequestOutput \<Rightarrow> bool" where
  "complete_output r =
     ((case outputs r of None \<Rightarrow> False | Some c \<Rightarrow> tool_calls c = PyNone) \<and> ro_metrics r \<noteq> None \<and> ro_prompt_token_ids r \<noteq> PyNone)"

lemma read_back:
  assumes "complete_output r"
  shows "unserialize_response now' (serialize_response (new_ScheduledResponse r now)) = Inr (new_ScheduledResponse r now)"
proof -
  obtain c m where c: "outputs r = Some c" "tool_calls c = PyNone" "ro_metrics r = Some m" "ro_prompt_token_ids r \<noteq> PyNone"
    using assms by (auto simp: complete_output_def split: option.splits)
  have "r\<lparr>outputs := Some (c\<lparr>tool_calls := PyNone\<rparr>)\<rparr> = r" using c(1,2) by simp
  then show ?thesis
    using output_roundtrip [OF c(1,3,4)]
    by (simp add: unserialize_response_def serialize_response_def ditem_def new_ScheduledResponse_def)
qed

lemma read_all_back:
  "\<forall>r \<in> set rs. complete_output r \<Longrightarrow>
     read_responses now' (map serialize_response (map (\<lambda>r. new_ScheduledResponse r now) rs)) = Inr (map (\<lambda>r. new_ScheduledResponse r now) rs)"
  by (induction rs) (simp_all add: read_back)

lemma read_append:
  "read_responses now ms = Inr rs \<Longrightarrow> read_responses now ms' = Inr rs' \<Longrightarrow> read_responses now (ms @ ms') = Inr (rs @ rs')"
  by (induction ms arbitrary: rs) (auto split: sum.splits)

lemma local_append:
  assumes "map_of m i \<noteq> None"
  shows "found (map_of (fold (\<lambda>r m. if map_of m (sres_id r) = None then m else add_to_group (sres_id r) [r] m) rs m) i) =
    found (map_of m i) @ filter (\<lambda>r. sres_id r = i) rs"
  using assms by (induction rs arbitrary: m) (auto simp: map_of_add_to_group)

text \<open>C23: after any order of whole calls of the nodes of one topic on a store empty at first, complete results of requests that \<open>b\<close> has stolen from \<open>a\<close>, under ids that \<open>b\<close> has
  not accepted itself, go through the store to \<open>a\<close>: the next pass of its receiving thread appends the readable results that already
  waited in its queue and then these, at most 300 in all, in order, to what waits for the client that sent each request.\<close>

theorem stolen_results_return:
  assumes "redis_laws R L Z" "fleet_start topic nodes" "\<forall>q. L s q = []" "\<forall>t m. Z s t m = None"
    "(gs_step R)\<^sup>*\<^sup>* (nodes, s) (nodes', s')" "nodes' a = Some ga" "nodes' b = Some gb"
    "L s' (response_queue ga a) = map serialize_response olds" "read_responses now' (map serialize_response olds) = Inr olds"
    "rs \<noteq> []" "length olds + length rs \<le> 300"
    "\<forall>r \<in> set rs. complete_output r \<and> map_of (local_responses gb) (ro_request_id r) = None \<and>
       (\<exists>req. map_of (stolen_requests gb) (ro_request_id r) = Some req \<and> request_queue_name req = request_queue ga a)"
    "put_results_worker R now rs (gb, s') = (gb', s1)" "get_results_worker R old now' (ga, s1) = (ga', s2)"
    "map_of (local_responses ga) i \<noteq> None"
  shows "found (map_of (local_responses ga') i) =
    found (map_of (local_responses ga) i) @ filter (\<lambda>r. sres_id r = i) olds @
      map (\<lambda>r. new_ScheduledResponse r now) (filter (\<lambda>r. ro_request_id r = i) rs)"
proof -
  let ?q = "response_queue ga a" and ?rs = "map (\<lambda>r. new_ScheduledResponse r now) rs"
  have ok: "fleet_ok ga (start_table nodes) nodes' (L s') (Z s')" if "gs_topic ga = topic"
    using fleet_ok_reached [OF assms(1) _ assms(3-5), of ga] assms(2) that by simp
  have "gs_topic ga = topic"
    using fleet_ok_reached [OF assms(1) _ assms(3-5), of "ga\<lparr>gs_topic := topic\<rparr>"] assms(2,6) unfolding fleet_ok_def by auto
  note ok = ok [OF this]
  have a: "gs_name ga = a" using ok assms(6) unfolding fleet_ok_def by blast
  have "forwards gb ?q (new_ScheduledResponse r now)" if r: "r \<in> set rs" for r
  proof -
    obtain req where req: "map_of (stolen_requests gb) (ro_request_id r) = Some req" "request_queue_name req = request_queue ga a"
      "map_of (local_responses gb) (ro_request_id r) = None" using bspec [OF assms(12) r] by (elim exE conjE)
    have "\<forall>(i, req) \<in> set (stolen_requests gb). \<exists>m. sent_by ga m req" using ok assms(7) unfolding fleet_ok_def by blast
    then obtain m where "sent_by ga m req" using map_of_SomeD [OF req(1)] by blast
    then have "response_queue_name req = ?q" using req(2) by (simp add: sent_by_def)
    then show ?thesis using req by (simp add: forwards_def sres_id_def new_ScheduledResponse_def)
  qed
  then have "filter (forwards gb ?q) ?rs = ?rs" by (simp add: filter_id_conv)
  then have q: "L s1 ?q = map serialize_response (olds @ ?rs)"
    using forward_effect [OF assms(1,13), of ?q] assms(8) by simp
  obtain es s3 where p: "ad_lpop R old ?q 300 True s1 = (es, s3)" by fastforce
  have "found es = map serialize_response (olds @ ?rs)" using ad_lpop_law [OF assms(1) _ p] q assms(11) by simp
  moreover have "read_responses now' (map serialize_response (olds @ ?rs)) = Inr (olds @ ?rs)"
    using read_append [OF assms(9) read_all_back, of rs now] assms(12) by (simp del: map_map)
  ultimately have "ga' = ga\<lparr>local_responses :=
      fold (\<lambda>r m. if map_of m (sres_id r) = None then m else add_to_group (sres_id r) [r] m) (olds @ ?rs) (local_responses ga)\<rparr>"
    using assms(10,14) by (simp add: get_results_worker_def a p del: map_map map_append fold_append)
  then show ?thesis
    using local_append [OF assms(15), of "olds @ ?rs"]
    by (simp add: filter_map comp_def sres_id_def new_ScheduledResponse_def del: fold_append)
qed

definition sample_result :: RequestOutput where
  "sample_result =
     new_RequestOutput (PyStr ''x'') PyNone (PyList [PyInt 4, PyInt 7])
       (Some \<lparr>co_index = PyInt 0, send_idx = PyInt 0, token_ids = PyList [PyInt 5], logprob = PyNone, top_logprobs = PyNone,
              co_logprobs = PyNone, draft_token_ids = PyNone, co_text = PyStr [], reasoning_content = PyNone, tool_calls = PyNone\<rparr>)
       (PyBool True)
       (Some \<lparr>rm_arrival_time = PyFloat 1, rm_inference_start_time = PyNone, first_token_time = PyNone, time_in_queue = PyNone,
              preprocess_cost_time = PyNone, model_forward_time = PyNone, model_execute_time = PyNone, request_start_time = PyNone\<rparr>)
       (PyInt 0) (PyInt 200) PyNone"

theorem stolen_results_return_witness:
  "found (map_of (local_responses (fst (get_results_worker mem_store False 3
       (fst (snd sample_put), snd (put_results_worker mem_store 2 [sample_result] (snd sample_stolen)))))) (PyStr ''x'')) =
   [new_ScheduledResponse sample_result 2]"
proof -
  let ?p = "put_results_worker mem_store 2 [sample_result] (snd sample_stolen)"
  let ?r = "get_results_worker mem_store False 3 (fst (snd sample_put), snd ?p)"
  have n: "fleet_stolen ''a'' = Some (fst (snd sample_put))" "fleet_stolen ''b'' = Some (fst (snd sample_stolen))"
    by (simp_all add: fleet_stolen_def)
  have "mem_lists (snd (snd sample_stolen)) (response_queue (fst (snd sample_put)) ''a'') = []" by code_simp
  then have q: "mem_lists (snd (snd sample_stolen)) (response_queue (fst (snd sample_put)) ''a'') = map serialize_response []" by simp
  have st: "case map_of (stolen_requests (fst (snd sample_stolen))) (PyStr ''x'') of None \<Rightarrow> False
     | Some req \<Rightarrow> request_queue_name req = request_queue (fst (snd sample_put)) ''a''" by code_simp
  have lo: "map_of (local_responses (fst (snd sample_stolen))) (PyStr ''x'') = None" by code_simp
  have i: "map_of (local_responses (fst (snd sample_put))) (PyStr ''x'') = Some []" by code_simp
  have c: "complete_output sample_result" "ro_request_id sample_result = PyStr ''x''"
    by (simp_all add: complete_output_def sample_result_def new_RequestOutput_def)
  have "found (map_of (local_responses (fst ?r)) (PyStr ''x'')) =
      found (map_of (local_responses (fst (snd sample_put))) (PyStr ''x'')) @
      filter (\<lambda>r. sres_id r = PyStr ''x'') [] @
      map (\<lambda>r. new_ScheduledResponse r 2) (filter (\<lambda>r. ro_request_id r = PyStr ''x'') [sample_result])"
  proof (rule stolen_results_return [OF mem_store_laws sample_start sample_reached n q])
    show "put_results_worker mem_store 2 [sample_result] (fst (snd sample_stolen), snd (snd sample_stolen)) = (fst ?p, snd ?p)" by simp
    show "get_results_worker mem_store False 3 (fst (snd sample_put), snd ?p) = (fst ?r, snd ?r)" by simp
    show "\<forall>r \<in> set [sample_result]. complete_output r \<and> map_of (local_responses (fst (snd sample_stolen))) (ro_request_id r) = None \<and>
       (\<exists>req. map_of (stolen_requests (fst (snd sample_stolen))) (ro_request_id r) = Some req \<and>
          request_queue_name req = request_queue (fst (snd sample_put)) ''a'')"
      using st lo c by (simp split: option.splits)
  qed (simp_all add: i)
  then show ?thesis using i c by simp
qed

end
