(* ===== verification/Workers.thy ===== *)
theory Workers
  imports FDPrelude
begin

text \<open>
  The pool of worker threads of the global scheduler (\<open>scheduler/workers.py\<close>). Every operation holds the mutex; one that
  waits is modelled by what it does when its condition is evaluated, and returns nothing while it has to wait on. A
  time out is the evaluation after which the caller gives up. What the work function returns is an argument.
\<close>

record 'a task =
  task_id :: req_id
  task_raw :: 'a
  task_reason :: "string option"

definition new_task :: "req_id \<Rightarrow> 'a \<Rightarrow> 'a task" where
  "new_task i x = \<lparr>task_id = i, task_raw = x, task_reason = None\<rparr>"

record 'a workers =
  max_task_batch_size :: nat
  wk_pool :: nat
  wk_tasks :: "'a task list"
  wk_results :: "'a task list"
  running_tasks :: "(nat \<times> 'a task list) list"
  wk_stop :: bool
  stopped_count :: nat

definition new_workers :: "nat \<Rightarrow> 'a workers" where
  "new_workers batch =
     \<lparr>max_task_batch_size = batch, wk_pool = 0, wk_tasks = [], wk_results = [], running_tasks = [], wk_stop = False,
      stopped_count = 0\<rparr>"

text \<open>Started threads register an empty list of running tasks.\<close>

definition start_workers :: "nat \<Rightarrow> 'a workers \<Rightarrow> 'a workers" where
  "start_workers n w =
     w\<lparr>wk_pool := max n (wk_pool w), running_tasks := fold (\<lambda>i. AList.update i []) [wk_pool w..<n] (running_tasks w)\<rparr>"

text \<open>The tasks a filter accepts, until there are enough.\<close>

fun take_matching :: "('a task \<Rightarrow> bool) \<Rightarrow> nat \<Rightarrow> 'a task list \<Rightarrow> 'a task list \<times> 'a task list" where
  "take_matching accept batch [] = ([], [])"
| "take_matching accept batch (t # ts) =
     (if \<not> accept t then (case take_matching accept batch ts of (xs, rest) \<Rightarrow> (xs, t # rest))
      else if batch \<le> 1 then ([t], ts)
      else (case take_matching accept (batch - 1) ts of (xs, rest) \<Rightarrow> (t # xs, rest)))"

definition wk_get_tasks :: "nat \<Rightarrow> ('a task \<Rightarrow> bool) option \<Rightarrow> 'a workers \<Rightarrow> 'a task list \<times> 'a workers" where
  "wk_get_tasks index accept w =
     (if wk_stop w then ([], w)
      else
        (case (case accept of
                 None \<Rightarrow> (take (max_task_batch_size w) (wk_tasks w), drop (max_task_batch_size w) (wk_tasks w))
               | Some f \<Rightarrow> take_matching f (max_task_batch_size w) (wk_tasks w)) of
           (ts, rest) \<Rightarrow> (ts, w\<lparr>wk_tasks := rest, running_tasks := AList.update index ts (running_tasks w)\<rparr>)))"

text \<open>A thread that sees the stop signal leaves; the others run the work function: \<open>None\<close> is an exception.\<close>

definition wk_leave :: "'a workers \<Rightarrow> 'a workers" where
  "wk_leave w = (if wk_stop w then w\<lparr>stopped_count := stopped_count w + 1\<rparr> else w)"

definition wk_work :: "'a task list option \<Rightarrow> 'a workers \<Rightarrow> 'a workers" where
  "wk_work res w = (case res of None \<Rightarrow> w | Some rs \<Rightarrow> w\<lparr>wk_results := wk_results w @ rs\<rparr>)"

definition wk_get_results :: "nat \<Rightarrow> 'a workers \<Rightarrow> 'a task list \<times> 'a workers" where
  "wk_get_results n w =
     (if wk_stop w then ([], w) else (take n (wk_results w), w\<lparr>wk_results := drop n (wk_results w)\<rparr>))"

definition wk_add_tasks :: "bool \<Rightarrow> 'a task list \<Rightarrow> 'a workers \<Rightarrow> 'a workers" where
  "wk_add_tasks unique ts w =
     (if \<not> unique then w\<lparr>wk_tasks := wk_tasks w @ ts\<rparr>
      else
        let known = task_id ` (set (wk_tasks w) \<union> \<Union> (set ` snd ` set (running_tasks w)))
        in w\<lparr>wk_tasks := wk_tasks w @ filter (\<lambda>t. task_id t \<notin> known) ts\<rparr>)"

definition wk_terminate :: "'a workers \<Rightarrow> 'a workers" where
  "wk_terminate w = w\<lparr>wk_stop := True\<rparr>"

text \<open>The end of \<open>terminate\<close>, when all threads have left.\<close>

definition wk_terminated :: "'a workers \<Rightarrow> 'a workers" where
  "wk_terminated w =
     (if wk_stop w \<and> stopped_count w = wk_pool w
      then w\<lparr>wk_pool := 0, wk_tasks := [], wk_results := [], running_tasks := [], wk_stop := False, stopped_count := 0\<rparr>
      else w)"

subsection \<open>Every task goes to one worker\<close>

lemma take_matching_parts:
  "take_matching f n ts = (xs, rest) \<Longrightarrow> mset ts = mset xs + mset rest \<and> list_all f xs \<and> (0 < n \<longrightarrow> length xs \<le> n)"
proof (induction f n ts arbitrary: xs rest rule: take_matching.induct)
  case (2 accept batch t ts)
  show ?case
  proof (cases "accept t")
    case False
    then show ?thesis using 2 by (auto split: prod.splits)
  next
    case True
    show ?thesis
    proof (cases "batch \<le> 1")
      case True
      then show ?thesis using \<open>accept t\<close> 2(3) by auto
    next
      case False
      then show ?thesis using \<open>accept t\<close> 2(2) [OF _ False] 2(3) by (fastforce split: prod.splits)
    qed
  qed
qed simp

text \<open>A run of the pool: all tasks added, and the batches handed to the work function.\<close>

inductive wk_run :: "'a task list \<Rightarrow> 'a task list list \<Rightarrow> 'a workers \<Rightarrow> bool" where
  "wk_run [] [] (start_workers n (new_workers batch))"
| "wk_run added handed w \<Longrightarrow> wk_run (added @ ts) handed (wk_add_tasks False ts w)"
| "wk_run added handed w \<Longrightarrow> wk_get_tasks i accept w = (ts, w') \<Longrightarrow> wk_run added (handed @ [ts]) w'"
| "wk_run added handed w \<Longrightarrow> wk_run added handed (wk_work res w)"
| "wk_run added handed w \<Longrightarrow> wk_run added handed (snd (wk_get_results n w))"

lemma wk_get_tasks_parts: "wk_get_tasks i accept w = (ts, w') \<Longrightarrow> mset (wk_tasks w) = mset ts + mset (wk_tasks w')"
  using take_matching_parts
  by (auto simp: wk_get_tasks_def block_simps split: if_splits option.splits prod.splits) blast

lemma wk_run_once: "wk_run added handed w \<Longrightarrow> mset added = mset (concat handed) + mset (wk_tasks w)"
proof (induction rule: wk_run.induct)
  case (1 n batch)
  then show ?case by (simp add: start_workers_def new_workers_def)
next
  case (3 added handed w i accept ts w')
  then show ?case using wk_get_tasks_parts by fastforce
qed (auto simp: wk_add_tasks_def wk_work_def wk_get_results_def split: option.split)

text \<open>Without filters a pool is a queue.\<close>

lemma wk_get_tasks_order:
  "wk_get_tasks i None w = (ts, w') \<Longrightarrow> wk_tasks w = ts @ wk_tasks w'"
  by (auto simp: wk_get_tasks_def split: if_splits)

end
