(* ===== verification/SplitConnector.thy ===== *)
theory SplitConnector
  imports EngineQueues EngineRequest
begin

text \<open>
  The connector between instances that prefill and instances that decode (\<open>splitwise/splitwise_connector.py\<close>). Instances on the
  same machine share their worker queues, known by their ports; others get messages, which are the list \<open>sent\<close>.
  A task put into a queue or a message is a copy. A call that waits for a queue is \<open>NoReturn\<close>
  in a state in which it has to wait. Ports of prefill instances are those of other instances.
\<close>

datatype dq_item = PrefillSlot | PrefillDone req_id string | Work string "Request list" | FirstTokens string "tp_result list"

datatype cache_note =
    DestIpc req_id "string list" "block_id list"
  | DestRdma req_id "string list" string "string list" "block_id list"
  | Src req_id "block_id list" int

type_synonym ewq = "(Request list \<times> nat, cache_note, dq_item) worker_queue"

datatype peer_message = PrefillMsg "Request list" | DecodeMsg "tp_result list" | CacheSync "cache_note list"

record split_config =
  innode_prefill_ports :: "int list option"
  own_port :: int
  sc_device_ids :: "string list"
  sc_host_ip :: string
  own_rdma_ports :: "string list"
  pd_changeable :: bool

record connector =
  cn_queue :: ewq
  cn_peers :: "int \<Rightarrow> ewq"
  connected :: "int list"
  current_request_ids :: "(req_id \<times> string) list"
  own_place :: cache_place
  sent :: "(string \<times> peer_message) list"

definition create_connection :: "int \<Rightarrow> connector \<Rightarrow> connector" where
  "create_connection port c = (if port \<in> set (connected c) then c else c\<lparr>connected := connected c @ [port]\<rparr>)"

definition put_peer :: "int \<Rightarrow> dq_item \<Rightarrow> connector \<Rightarrow> connector" where
  "put_peer port x c =
     (let c1 = create_connection port c
      in c1\<lparr>cn_peers := (cn_peers c1)(port := put_disaggregated_tasks x (cn_peers c1 port))\<rparr>)"

definition send_message :: "string \<Rightarrow> peer_message \<Rightarrow> connector \<Rightarrow> connector" where
  "send_message addr msg c = (if addr = [] then c else c\<lparr>sent := sent c @ [(addr, msg)]\<rparr>)"

subsection \<open>Choosing a prefill instance on the same machine\<close>

fun all_prefill_busy :: "int list \<Rightarrow> connector \<Rightarrow> bool \<times> connector" where
  "all_prefill_busy [] c = (True, c)"
| "all_prefill_busy (port # ports) c =
     (let c1 = create_connection port c
      in if available_prefill_instances (cn_peers c1 port) \<noteq> [] then (False, c1) else all_prefill_busy ports c1)"

definition has_splitwise_tasks :: "split_config \<Rightarrow> connector \<Rightarrow> bool \<times> connector" where
  "has_splitwise_tasks sc c = (case innode_prefill_ports sc of None \<Rightarrow> (True, c) | Some ports \<Rightarrow> all_prefill_busy ports c)"

definition ipc_info :: "string \<Rightarrow> int \<Rightarrow> int \<Rightarrow> disaggregate" where
  "ipc_info r port current_id =
     \<lparr>role = r, shared_block_tables = None, transfer_protocol = ''ipc'',
      cache_place = \<lparr>ipc_part = Some \<lparr>ipc_port = port, ipc_current_id = Some current_id\<rparr>, rdma_part = None\<rparr>\<rparr>"

definition with_info :: "disaggregate \<Rightarrow> Request \<Rightarrow> Request" where
  "with_info d task = task\<lparr>disaggregate_info := Some d\<rparr>"

text \<open>One round over the ports: the port whose free slot was taken.\<close>

fun dispatch_round ::
  "split_config \<Rightarrow> Request list \<Rightarrow> int \<Rightarrow> int list \<Rightarrow> connector \<Rightarrow> int option \<times> connector" where
  "dispatch_round sc tasks current_id [] c = (None, c)"
| "dispatch_round sc tasks current_id (port # ports) c =
     (let c1 = create_connection port c in
      case get_prefill_instances (cn_peers c1 port) of (got, q) \<Rightarrow>
        let c2 = c1\<lparr>cn_peers := (cn_peers c1)(port := q)\<rparr> in
        if got = Some PrefillSlot then
          (Some port, put_peer port (Work ''prefill'' (map (with_info (ipc_info ''prefill'' (own_port sc) current_id)) tasks)) c2)
        else dispatch_round sc tasks current_id ports c2)"

definition dispatch_innode ::
  "split_config \<Rightarrow> int list \<Rightarrow> Request list \<Rightarrow> int \<Rightarrow> connector \<Rightarrow> (connector, Request list) outcome" where
  "dispatch_innode sc ports tasks current_id c =
     (if ports = [] then (Inl PyException, c)
      else
        (case dispatch_round sc tasks current_id ports c of
           (Some port, c1) \<Rightarrow> (Inr (map (with_info (ipc_info ''decode'' port current_id)) tasks), c1)
         | (None, c1) \<Rightarrow> if pd_changeable sc then (Inr tasks, c1) else (Inl NoReturn, c1)))"

subsection \<open>Sending tasks\<close>

definition set_ipc :: "ipc_place \<Rightarrow> disaggregate \<Rightarrow> disaggregate" where
  "set_ipc i d = d\<lparr>cache_place := (cache_place d)\<lparr>ipc_part := Some i\<rparr>\<rparr>"

definition rdma_addr :: "rdma_place \<Rightarrow> string" where
  "rdma_addr r = rdma_ip r @ '':'' @ rdma_port r"

definition send_task :: "split_config \<Rightarrow> int \<Rightarrow> Request \<Rightarrow> connector \<Rightarrow> (connector, Request) outcome" where
  "send_task sc current_id task c =
     (case disaggregate_info task of
        None \<Rightarrow> (Inr task, c)
      | Some d \<Rightarrow>
          if transfer_protocol d = ''ipc'' then
            (case ipc_part (cache_place d) of None \<Rightarrow> (Inl KeyError, c)
             | Some i \<Rightarrow>
                 let i1 = i\<lparr>ipc_current_id := Some current_id\<rparr>
                 in (Inr (with_info ((set_ipc i1 d)\<lparr>role := ''prefill''\<rparr>) task),
                     put_peer (ipc_port i) (Work ''decode'' [with_info (set_ipc (i1\<lparr>ipc_port := own_port sc\<rparr>) d) task]) c))
          else
            (case rdma_part (cache_place d) of None \<Rightarrow> (Inl KeyError, c)
             | Some r \<Rightarrow>
                 let c1 = c\<lparr>current_request_ids := AList.update (request_id task) ''init'' (current_request_ids c)\<rparr> in
                 case rdma_part (own_place c1) of None \<Rightarrow> (Inl KeyError, c1)
                 | Some own \<Rightarrow>
                     let place = (own_place c1)\<lparr>rdma_part := Some (own\<lparr>rdma_current_id := Some current_id\<rparr>)\<rparr>
                     in (Inr (with_info (d\<lparr>role := ''prefill''\<rparr>) task),
                         send_message (rdma_addr r) (PrefillMsg [with_info (d\<lparr>cache_place := place\<rparr>) task])
                           (c1\<lparr>own_place := place\<rparr>))))"

fun send_tasks :: "split_config \<Rightarrow> int \<Rightarrow> Request list \<Rightarrow> connector \<Rightarrow> (connector, Request list) outcome" where
  "send_tasks sc current_id [] c = (Inr [], c)"
| "send_tasks sc current_id (t # ts) c =
     andthen (send_task sc current_id t c)
       (\<lambda>t1 c1. andthen (send_tasks sc current_id ts c1) (\<lambda>ts1 c2. (Inr (t1 # ts1), c2)))"

definition send_splitwise_tasks :: "split_config \<Rightarrow> Request list \<Rightarrow> int \<Rightarrow> connector \<Rightarrow> (connector, Request list) outcome" where
  "send_splitwise_tasks sc tasks current_id c =
     (case innode_prefill_ports sc of
        Some ports \<Rightarrow> dispatch_innode sc ports tasks current_id c
      | None \<Rightarrow> send_tasks sc current_id tasks c)"

definition send_first_token :: "disaggregate \<Rightarrow> tp_result list \<Rightarrow> connector \<Rightarrow> (connector, unit) outcome" where
  "send_first_token d rs c =
     (if transfer_protocol d = ''ipc'' then
        (case ipc_part (cache_place d) of None \<Rightarrow> (Inl KeyError, c)
         | Some i \<Rightarrow> (Inr (), put_peer (ipc_port i) (FirstTokens ''decode'' rs) c))
      else
        (case rdma_part (cache_place d) of None \<Rightarrow> (Inl KeyError, c)
         | Some r \<Rightarrow> (Inr (), send_message (rdma_addr r) (DecodeMsg rs) c)))"

subsection \<open>Where the cache blocks go\<close>

datatype cache_dest = ToWorkers | ToPort int | ToAddr string

text \<open>The note on one task: where it goes, whether it is for decoding, and the current id from then on.\<close>

definition note_task ::
  "split_config \<Rightarrow> int \<Rightarrow> connector \<Rightarrow> Request \<Rightarrow> disaggregate \<Rightarrow> ((cache_dest \<times> cache_note) \<times> bool \<times> int) res" where
  "note_task sc current_id c task d =
     (if role d = ''decode'' then
        (case shared_block_tables d of None \<Rightarrow> Inl KeyError
         | Some bs \<Rightarrow>
             if transfer_protocol d = ''ipc'' then
               (case ipc_part (cache_place d) of None \<Rightarrow> Inl KeyError
                | Some i \<Rightarrow> Inr ((ToPort (ipc_port i), DestIpc (request_id task) (sc_device_ids sc) bs), True, current_id))
             else
               (case rdma_part (cache_place d) of None \<Rightarrow> Inl KeyError
                | Some r \<Rightarrow>
                    Inr ((ToAddr (rdma_addr r),
                          DestRdma (request_id task) (sc_device_ids sc) (sc_host_ip sc) (own_rdma_ports sc) bs), True, current_id)))
      else if current_id = - 1 then
        (case ipc_part (cache_place d) of None \<Rightarrow> Inl KeyError
         | Some i \<Rightarrow>
             (case ipc_current_id i of None \<Rightarrow> Inl KeyError
              | Some k \<Rightarrow> Inr ((ToWorkers, Src (request_id task) (block_tables task) k), False, k)))
      else Inr ((ToWorkers, Src (request_id task) (block_tables task) current_id), False, current_id))"

definition add_note :: "cache_dest \<Rightarrow> cache_note \<Rightarrow> (cache_dest \<times> cache_note list) list \<Rightarrow> (cache_dest \<times> cache_note list) list" where
  "add_note k x groups = AList.update k ((case map_of groups k of None \<Rightarrow> [] | Some xs \<Rightarrow> xs) @ [x]) groups"

fun note_tasks ::
  "split_config \<Rightarrow> int \<Rightarrow> connector \<Rightarrow> Request list \<Rightarrow> bool \<Rightarrow> (cache_dest \<times> cache_note list) list \<Rightarrow>
   (bool \<times> (cache_dest \<times> cache_note list) list) res" where
  "note_tasks sc current_id c [] decode groups = Inr (decode, groups)"
| "note_tasks sc current_id c (task # tasks) decode groups =
     (case disaggregate_info task of None \<Rightarrow> note_tasks sc current_id c tasks decode groups
      | Some d \<Rightarrow>
          (case note_task sc current_id c task d of Inl e \<Rightarrow> Inl e
           | Inr ((k, x), dec, current) \<Rightarrow> note_tasks sc current c tasks (decode \<or> dec) (add_note k x groups)))"

definition put_own_cache_info :: "cache_note list \<Rightarrow> connector \<Rightarrow> (connector, unit) outcome" where
  "put_own_cache_info notes c =
     (case put_cache_info notes (cn_queue c) of None \<Rightarrow> (Inl NoReturn, c) | Some q \<Rightarrow> (Inr (), c\<lparr>cn_queue := q\<rparr>))"

text \<open>With tasks of both roles at once the notes for the workers would go to a connection named \<open>prefill\<close>.\<close>

fun deliver_notes :: "bool \<Rightarrow> (cache_dest \<times> cache_note list) list \<Rightarrow> connector \<Rightarrow> (connector, unit) outcome" where
  "deliver_notes decode [] c = (Inr (), c)"
| "deliver_notes decode ((k, notes) # groups) c =
     andthen
       (if \<not> decode then put_own_cache_info notes c
        else
          (case k of
             ToAddr a \<Rightarrow> (Inr (), send_message a (CacheSync notes) c)
           | ToWorkers \<Rightarrow> (Inl ValueError, c)
           | ToPort p \<Rightarrow>
               let c1 = create_connection p c in
               (case put_cache_info notes (cn_peers c1 p) of None \<Rightarrow> (Inl NoReturn, c1)
                | Some q \<Rightarrow> (Inr (), c1\<lparr>cn_peers := (cn_peers c1)(p := q)\<rparr>))))
       (\<lambda>_ c1. deliver_notes decode groups c1)"

definition send_cache_infos :: "split_config \<Rightarrow> Request list \<Rightarrow> int \<Rightarrow> connector \<Rightarrow> (connector, bool) outcome" where
  "send_cache_infos sc tasks current_id c =
     (case note_tasks sc current_id c tasks False [] of Inl e \<Rightarrow> (Inl e, c)
      | Inr (decode, groups) \<Rightarrow> andthen (deliver_notes decode groups c) (\<lambda>_ c1. (Inr decode, c1)))"

subsection \<open>Messages of other instances\<close>

definition note_request :: "cache_note \<Rightarrow> req_id" where
  "note_request x = (case x of DestIpc i _ _ \<Rightarrow> i | DestRdma i _ _ _ _ \<Rightarrow> i | Src i _ _ \<Rightarrow> i)"

fun forget_requests :: "cache_note list \<Rightarrow> connector \<Rightarrow> (connector, unit) outcome" where
  "forget_requests [] c = (Inr (), c)"
| "forget_requests (x # xs) c =
     (if map_of (current_request_ids c) (note_request x) = None then (Inl KeyError, c)
      else forget_requests xs (c\<lparr>current_request_ids := AList.delete (note_request x) (current_request_ids c)\<rparr>))"

text \<open>The first token of a request is made a result of its own: index and tokens are kept.\<close>

definition received_token :: "tp_result \<Rightarrow> tp_result" where
  "received_token r =
     \<lparr>tp_request_id = tp_request_id r, tp_index = tp_index r, tp_send_idx = 0, tp_token_ids = tp_token_ids r,
      tp_draft_token_ids = None, tp_finished = True, tp_num_cached_tokens = 0, tp_error_code = 200, tp_error_msg = None\<rparr>"

definition put_own :: "dq_item \<Rightarrow> connector \<Rightarrow> connector" where
  "put_own x c = c\<lparr>cn_queue := put_disaggregated_tasks x (cn_queue c)\<rparr>"

text \<open>An exception is logged; what was done before it stays.\<close>

definition process_message :: "peer_message \<Rightarrow> connector \<Rightarrow> (connector, unit) outcome" where
  "process_message msg c =
     (case msg of
        PrefillMsg tasks \<Rightarrow> (Inr (), put_own (Work ''decode'' tasks) c)
      | DecodeMsg rs \<Rightarrow> (Inr (), put_own (FirstTokens ''decode'' (map received_token rs)) c)
      | CacheSync notes \<Rightarrow> andthen (forget_requests notes c) (\<lambda>_ c1. put_own_cache_info notes c1))"

end
