(* ===== verification/PlainEngine.thy ===== *)
theory PlainEngine
  imports SplitConnector ResourceManager LocalScheduler ChunkPlan
begin

text \<open>
  The engine with the first resource manager (\<open>engine/common_engine.py\<close>): a thread takes requests from the scheduler, gives them
  slots and blocks and puts them to the workers; another serves the requests and first tokens of other instances. Text models only:
  the chunks of multimodal prompts are cut by a device operator. Tasks are the same objects for the resource manager and the engine; what the
  engine changes in them is written to the slots. A call that has to wait for a queue, or never returns, is \<open>NoReturn\<close>.
\<close>

record engine0_config =
  e0_split :: split_config
  splitwise_role :: string
  scheduler_name :: string
  draft_model :: bool
  e0_chunked_prefill :: bool
  e0_max_batched_tokens :: int
  e0_max_partial :: nat
  e0_prefill_batch :: int
  e0_enc_dec_blocks :: int

record engine0 =
  e0_sched :: "tp_result local_sched"
  e0_rm :: "Request rm"
  e0_conn :: connector
  e0_counter :: "req_id \<Rightarrow> nat"
  number_of_tasks :: nat
  number_of_input_tokens :: int
  waiting_requests :: "Request list"
  e0_current_id :: int
  e0_status :: "req_id \<Rightarrow> string option"

definition lift_rm :: "(Request rm \<Rightarrow> (Request rm, 'b) outcome) \<Rightarrow> engine0 \<Rightarrow> (engine0, 'b) outcome" where
  "lift_rm f e = (case f (e0_rm e) of (r, s) \<Rightarrow> (r, e\<lparr>e0_rm := s\<rparr>))"

definition lift_conn :: "(connector \<Rightarrow> (connector, 'b) outcome) \<Rightarrow> engine0 \<Rightarrow> (engine0, 'b) outcome" where
  "lift_conn f e = (case f (e0_conn e) of (r, c) \<Rightarrow> (r, e\<lparr>e0_conn := c\<rparr>))"

definition write_task :: "Request \<Rightarrow> engine0 \<Rightarrow> engine0" where
  "write_task t e =
     (case idx t of None \<Rightarrow> e
      | Some p \<Rightarrow> e\<lparr>e0_rm := (e0_rm e)\<lparr>tasks_list := (tasks_list (e0_rm e))[p := Some t]\<rparr>\<rparr>)"

definition put_batch :: "Request list \<Rightarrow> engine0 \<Rightarrow> (engine0, unit) outcome" where
  "put_batch ts e =
     (case put_tasks (ts, real_bsz (e0_rm e)) (cn_queue (e0_conn e)) of
        None \<Rightarrow> (Inl NoReturn, e)
      | Some q \<Rightarrow> (Inr (), e\<lparr>e0_conn := (e0_conn e)\<lparr>cn_queue := q\<rparr>\<rparr>))"

subsection \<open>New tasks\<close>

text \<open>The chunks of the prompts; of a plan only the number of chunks is kept.\<close>

definition cut_chunks :: "engine0_config \<Rightarrow> Request list \<Rightarrow> engine0 \<Rightarrow> (engine0, Request list) outcome" where
  "cut_chunks ec ts e =
     (case update_requests_chunk_size (e0_chunked_prefill ec) (int (block_size (cfg (e0_rm e)))) (e0_max_batched_tokens ec)
             (e0_max_partial ec) (map prompt_token_ids_len ts) of
        None \<Rightarrow> (Inl NoReturn, e)
      | Some (Inl x) \<Rightarrow> (Inl x, e)
      | Some (Inr None) \<Rightarrow> (Inr ts, e)
      | Some (Inr (Some chunks)) \<Rightarrow>
          (let ts1 = map (\<lambda>(t, row). t\<lparr>prefill_chunk_info := Some (length row)\<rparr>) (zip ts chunks)
           in (Inr ts1, fold write_task ts1 e)))"

definition has_role :: "(string \<Rightarrow> bool) \<Rightarrow> Request \<Rightarrow> bool" where
  "has_role P t = (case disaggregate_info t of None \<Rightarrow> False | Some d \<Rightarrow> P (role d))"

definition start_tasks :: "engine0_config \<Rightarrow> int \<Rightarrow> Request list \<Rightarrow> engine0 \<Rightarrow> (engine0, bool) outcome" where
  "start_tasks ec now ts e =
     (let is_prefill = list_ex (has_role (\<lambda>r. r \<noteq> ''decode'')) ts;
          ts1 = map (\<lambda>t. t\<lparr>inference_start_time := Some now\<rparr>) ts;
          e1 = fold write_task ts1 e
      in andthen (if is_prefill then (Inr ts1, e1) else cut_chunks ec ts1 e1) (\<lambda>ts2 e2.
         andthen (put_batch ts2 e2) (\<lambda>_ e3.
           (Inr True,
            if is_prefill \<and> scheduler_name ec \<noteq> ''splitwise''
            then e3\<lparr>e0_conn := (e0_conn e3)\<lparr>cn_queue := (cn_queue (e0_conn e3))
                      \<lparr>available_prefill_instances := available_prefill_instances (cn_queue (e0_conn e3)) @ [PrefillSlot]\<rparr>\<rparr>\<rparr>
            else e3))))"

definition insert_tasks ::
  "(token list \<Rightarrow> int) \<Rightarrow> int \<Rightarrow> (nat \<Rightarrow> int) \<Rightarrow> engine0_config \<Rightarrow> Request list \<Rightarrow> int \<Rightarrow> engine0 \<Rightarrow> (engine0, bool) outcome" where
  "insert_tasks H now rnd ec tasks current_id e =
     andthen (lift_rm check_and_free_block_tables e) (\<lambda>_ e1.
     andthen (lift_rm (allocate_resources_for_new_tasks H now rnd (take (available_batch (e0_rm e1)) tasks)) e1) (\<lambda>ts e2.
       if ts = [] then (Inl EngineError, e2)
       else
         let e3 = e2\<lparr>number_of_tasks := number_of_tasks e2 + length ts,
                     number_of_input_tokens := number_of_input_tokens e2 + sum_list (map prompt_token_ids_len ts)\<rparr>
         in andthen (lift_conn (send_cache_infos (e0_split ec) ts current_id) e3) (\<lambda>_ e4.
              if list_ex (has_role (\<lambda>r. r = ''decode'')) ts then (Inr True, e4) else start_tasks ec now ts e4)))"

subsection \<open>First tokens of requests prefilled elsewhere\<close>

definition insert_one_token :: "engine0_config \<Rightarrow> tp_result \<Rightarrow> engine0 \<Rightarrow> (engine0, Request option) outcome" where
  "insert_one_token ec r e =
     (let rid = tp_request_id r; s = e0_rm e in
      case req_dict s rid of None \<Rightarrow> (Inl KeyError, e)
      | Some i \<Rightarrow>
          let s1 = s\<lparr>req_dict := (req_dict s)(rid := None)\<rparr>; e1 = e\<lparr>e0_rm := s1\<rparr> in
          if i \<ge> length (tasks_list s1) then (Inl IndexError, e1)
          else
            (case tasks_list s1 ! i of None \<Rightarrow> (Inl AttributeError, e1)
             | Some t \<Rightarrow>
                 (case (prompt_token_ids t, tp_token_ids r) of
                    (p # ps, x # xs) \<Rightarrow>
                      let t1 = t\<lparr>prompt_token_ids := x # ps,
                                 request_draft_ids := (if draft_model ec \<and> splitwise_role ec = ''decode''
                                                       then tp_draft_token_ids r else request_draft_ids t)\<rparr>
                      in if tp_error_code r \<noteq> 200 then
                           (Inr None,
                            e1\<lparr>e0_rm := recycle_slot i t1 s1, e0_counter := (e0_counter e1)(rid := 0),
                               e0_sched := put_results [result_response r] (e0_sched e1)\<rparr>)
                         else
                           (Inr (Some t1),
                            e1\<lparr>e0_rm := s1\<lparr>tasks_list := (tasks_list s1)[i := Some t1]\<rparr>,
                               e0_counter := (e0_counter e1)(rid := 1)\<rparr>)
                  | _ \<Rightarrow> (Inl IndexError, e1))))"

fun insert_token_loop :: "engine0_config \<Rightarrow> tp_result list \<Rightarrow> engine0 \<Rightarrow> (engine0, Request list) outcome" where
  "insert_token_loop ec [] e = (Inr [], e)"
| "insert_token_loop ec (r # rs) e =
     andthen (insert_one_token ec r e) (\<lambda>t e1.
     andthen (insert_token_loop ec rs e1) (\<lambda>ts e2. (Inr (case t of None \<Rightarrow> ts | Some t \<Rightarrow> t # ts), e2)))"

definition insert_first_tokens :: "engine0_config \<Rightarrow> tp_result list \<Rightarrow> engine0 \<Rightarrow> (engine0, bool) outcome" where
  "insert_first_tokens ec rs e =
     andthen (insert_token_loop ec rs e) (\<lambda>ts e1. andthen (put_batch ts e1) (\<lambda>_ e2. (Inr True, e2)))"

subsection \<open>The thread that inserts tasks\<close>

text \<open>
  One pass of \<open>_insert_task_to_worker\<close>, with the tasks it takes from the scheduler; \<open>signal\<close> is what the workers report of running prefills. An
  exception is logged and the loop goes on.
\<close>

definition prefill_busy :: "engine0_config \<Rightarrow> int \<Rightarrow> engine0 \<Rightarrow> bool \<times> engine0" where
  "prefill_busy ec signal e =
     (if signal > 0 then
        (if splitwise_role ec = ''mixed'' then (True, e)
         else (case has_splitwise_tasks (e0_split ec) (e0_conn e) of (b, c) \<Rightarrow> (b, e\<lparr>e0_conn := c\<rparr>)))
      else (False, e))"

definition fetch_and_insert ::
  "(token list \<Rightarrow> int) \<Rightarrow> int \<Rightarrow> (nat \<Rightarrow> int) \<Rightarrow> engine0_config \<Rightarrow> engine0 \<Rightarrow> (engine0, Request list) outcome" where
  "fetch_and_insert H now rnd ec e =
     (let batch = min (int (available_batch (e0_rm e))) (e0_prefill_batch ec) in
      andthen (lift_rm check_and_free_block_tables e) (\<lambda>_ e1.
        case get_requests (available_block_num (e0_rm e1)) (int (block_size (cfg (e0_rm e1)))) (e0_enc_dec_blocks ec)
               (e0_max_batched_tokens ec) batch (e0_sched e1) of
          (Inl x, sc) \<Rightarrow> (Inl x, e1\<lparr>e0_sched := sc\<rparr>)
        | (Inr tasks, sc) \<Rightarrow>
            if tasks = [] then (Inr [], e1\<lparr>e0_sched := sc\<rparr>)
            else
              let k = (e0_current_id e1 + 1) mod 100003;
                  e2 = e1\<lparr>e0_sched := sc, e0_current_id := k\<rparr>
              in andthen (if splitwise_role ec \<noteq> ''mixed'' then lift_conn (send_splitwise_tasks (e0_split ec) tasks k) e2
                          else (Inr tasks, e2)) (\<lambda>ts e3.
                 andthen (insert_tasks H now rnd ec ts k e3) (\<lambda>_ e4. (Inr tasks, e4)))))"

definition insert_pass ::
  "(token list \<Rightarrow> int) \<Rightarrow> int \<Rightarrow> (nat \<Rightarrow> int) \<Rightarrow> engine0_config \<Rightarrow> int \<Rightarrow> engine0 \<Rightarrow> (engine0, Request list) outcome" where
  "insert_pass H now rnd ec signal e =
     (if available_batch (e0_rm e) = 0 \<or> num_tasks (cn_queue (e0_conn e)) > 0 then (Inr [], e)
      else
        (case prefill_busy ec signal e of (busy, e1) \<Rightarrow>
           if busy \<or> num_cache_infos (cn_queue (e0_conn e1)) > 0 \<or> current_request_ids (e0_conn e1) \<noteq> []
           then (Inr [], e1) else fetch_and_insert H now rnd ec e1))"

subsection \<open>The thread that serves other instances\<close>

text \<open>Requests that wait for resources; when an insertion raises, those inserted before it are not taken off the list.\<close>

fun serve_waiting ::
  "(token list \<Rightarrow> int) \<Rightarrow> int \<Rightarrow> (nat \<Rightarrow> int) \<Rightarrow> engine0_config \<Rightarrow> Request list \<Rightarrow> engine0 \<Rightarrow> (engine0, nat) outcome" where
  "serve_waiting H now rnd ec [] e = (Inr 0, e)"
| "serve_waiting H now rnd ec (t # ts) e =
     (if is_resource_sufficient (prompt_token_ids_len t) (e0_rm e) then
        andthen (insert_tasks H now rnd ec [t] (- 1) e) (\<lambda>_ e1.
        andthen (serve_waiting H now rnd ec ts e1) (\<lambda>n e2. (Inr (Suc n), e2)))
      else (Inr 0, e))"

fun insert_or_wait ::
  "(token list \<Rightarrow> int) \<Rightarrow> int \<Rightarrow> (nat \<Rightarrow> int) \<Rightarrow> engine0_config \<Rightarrow> Request list \<Rightarrow> engine0 \<Rightarrow> (engine0, Request list) outcome" where
  "insert_or_wait H now rnd ec [] e = (Inr [], e)"
| "insert_or_wait H now rnd ec (t # ts) e =
     (if is_resource_sufficient (prompt_token_ids_len t) (e0_rm e) then
        andthen (insert_tasks H now rnd ec [t] (- 1) e) (\<lambda>_ e1. insert_or_wait H now rnd ec ts e1)
      else andthen (insert_or_wait H now rnd ec ts e) (\<lambda>w e1. (Inr (t # w), e1)))"

definition serve_item ::
  "(token list \<Rightarrow> int) \<Rightarrow> int \<Rightarrow> (nat \<Rightarrow> int) \<Rightarrow> engine0_config \<Rightarrow> dq_item \<Rightarrow> engine0 \<Rightarrow> (engine0, unit) outcome" where
  "serve_item H now rnd ec item e =
     (case item of
        Work r tasks \<Rightarrow>
          if r = ''prefill'' then
            andthen (insert_tasks H now rnd ec (map (\<lambda>t. t\<lparr>token_limits := Some (2, 2)\<rparr>) tasks) (- 1) e) (\<lambda>_ e1. (Inr (), e1))
          else if r = ''decode'' then
            if tasks = [] then (Inl IndexError, e)
            else if waiting_requests e \<noteq> [] then (Inr (), e\<lparr>waiting_requests := waiting_requests e @ tasks\<rparr>)
            else
              andthen (insert_or_wait H now rnd ec tasks e) (\<lambda>w e1.
                (Inr (), e1\<lparr>waiting_requests := waiting_requests e1 @ w\<rparr>))
          else (Inr (), e)
      | FirstTokens r rs \<Rightarrow>
          if r = ''decode'' then
            if rs = [] then (Inl IndexError, e)
            else
              let rs1 = map (\<lambda>x. x\<lparr>tp_finished := False\<rparr>) rs in
              andthen (insert_first_tokens ec rs1 e) (\<lambda>_ e1.
                (Inr (), if innode_prefill_ports (e0_split ec) \<noteq> None
                         then e1\<lparr>e0_sched := put_results (map result_response rs1) (e0_sched e1)\<rparr> else e1))
          else (Inr (), e)
      | PrefillSlot \<Rightarrow> (Inl TypeError, e)
      | PrefillDone i m \<Rightarrow> (Inr (), e))"

fun serve_items ::
  "(token list \<Rightarrow> int) \<Rightarrow> int \<Rightarrow> (nat \<Rightarrow> int) \<Rightarrow> engine0_config \<Rightarrow> dq_item list \<Rightarrow> engine0 \<Rightarrow> (engine0, unit) outcome" where
  "serve_items H now rnd ec [] e = (Inr (), e)"
| "serve_items H now rnd ec (x # xs) e = andthen (serve_item H now rnd ec x e) (\<lambda>_ e1. serve_items H now rnd ec xs e1)"

text \<open>One pass of \<open>split_mode_get_tasks\<close>: the items are off the queue before the first is served.\<close>

definition receiver_pass ::
  "(token list \<Rightarrow> int) \<Rightarrow> int \<Rightarrow> (nat \<Rightarrow> int) \<Rightarrow> engine0_config \<Rightarrow> engine0 \<Rightarrow> (engine0, unit) outcome" where
  "receiver_pass H now rnd ec e =
     andthen (serve_waiting H now rnd ec (waiting_requests e) e) (\<lambda>n e1.
       let e2 = e1\<lparr>waiting_requests := drop n (waiting_requests e1)\<rparr> in
       case get_disaggregated_tasks (cn_queue (e0_conn e2)) of
         (None, q) \<Rightarrow> (Inr (), e2)
       | (Some items, q) \<Rightarrow> serve_items H now rnd ec items (e2\<lparr>e0_conn := (e0_conn e2)\<lparr>cn_queue := q\<rparr>\<rparr>))"

end
