(* ===== verification/PlainEngineProps.thy ===== *)
theory PlainEngineProps
  imports PlainEngine ResourceManagerProps LocalSchedulerProps LocalSchedulerClaims QueueClaims ChunkPlanProps
begin

text \<open>
  The engine with the first resource manager and without prefix caching: what the scheduler hands out always fits, so that
  inserting it returns and every request reaches the workers with its slot and its blocks.
\<close>

subsection \<open>Tasks that fit are admitted\<close>

definition required_blocks :: "cache_config \<Rightarrow> Request \<Rightarrow> int" where
  "required_blocks c t = (prompt_token_ids_len t + int (block_size c) - 1 + int (dec_token_num c)) div int (block_size c)"

lemma required_block_number: "get_required_block_number (prompt_token_ids_len t) s = required_blocks (cfg s) t"
  by (simp add: get_required_block_number_def required_blocks_def)

definition slot_ids :: "Request option list \<Rightarrow> req_id multiset" where
  "slot_ids ts = sum_list (map (\<lambda>t. case t of None \<Rightarrow> {#} | Some r \<Rightarrow> {#request_id r#}) ts)"

lemma slot_ids_update:
  assumes "i < length ts"
  shows "slot_ids (ts[i := x]) + (case ts ! i of None \<Rightarrow> {#} | Some r \<Rightarrow> {#request_id r#}) =
    slot_ids ts + (case x of None \<Rightarrow> {#} | Some r \<Rightarrow> {#request_id r#})"
  using sum_list_update_mset [OF assms, of "\<lambda>t. case t of None \<Rightarrow> {#} | Some r \<Rightarrow> {#request_id r#}" x]
  by (simp add: slot_ids_def)

lemma busy_blocks_update:
  assumes "i < length ts"
  shows "busy_blocks (ts[i := x]) + (case ts ! i of None \<Rightarrow> {#} | Some r \<Rightarrow> mset (block_tables r)) =
    busy_blocks ts + (case x of None \<Rightarrow> {#} | Some r \<Rightarrow> mset (block_tables r))"
  using sum_list_update_mset [OF assms, of "\<lambda>t. case t of None \<Rightarrow> {#} | Some r \<Rightarrow> mset (block_tables r)" x]
  by (simp add: busy_blocks_def)

text \<open>A task as it came in, and as it is in its slot.\<close>

definition admitted :: "cache_config \<Rightarrow> Request \<Rightarrow> Request \<Rightarrow> bool" where
  "admitted c t0 t =
     (request_id t = request_id t0 \<and> prompt_token_ids t = prompt_token_ids t0 \<and>
      prompt_token_ids_len t = prompt_token_ids_len t0 \<and> disaggregate_info t = None \<and>
      int (length (block_tables t)) = required_blocks c t0)"

definition placed :: "Request list \<Rightarrow> (Request, 'a) rm_scheme \<Rightarrow> bool" where
  "placed ts s = (\<forall>t \<in> set ts. \<exists>p < max_num_seqs s. idx t = Some p \<and> tasks_list s ! p = Some t)"

definition all_plain :: "Request option list \<Rightarrow> bool" where
  "all_plain tab = (\<forall>t. Some t \<in> set tab \<longrightarrow> disaggregate_info t = None)"

lemma all_plain_update: "all_plain tab \<Longrightarrow> disaggregate_info t = None \<Longrightarrow> all_plain (tab[p := Some t])"
  unfolding all_plain_def by (metis in_set_conv_nth length_list_update nth_list_update_eq nth_list_update_neq option.inject)

lemma admit_task_enough:
  assumes "rm_plain s" "disaggregate_info task = None" "0 < required_blocks (cfg s) task"
    "required_blocks (cfg s) task \<le> int (length (gpu_free_block_list (cache_manager s)))" "p < max_num_seqs s" "stop_flags s ! p"
  shows "\<exists>t s'. admit_task H now rnd p task s = (Inr t, s') \<and> admitted (cfg s) task t \<and> idx t = Some p \<and> rm_plain s' \<and>
    plain_account s' = plain_account s \<and> tasks_list s' = (tasks_list s)[p := Some t] \<and> stop_flags s' = (stop_flags s)[p := False] \<and>
    max_num_seqs s' = max_num_seqs s \<and> cfg s' = cfg s \<and>
    int (length (gpu_free_block_list (cache_manager s'))) =
      int (length (gpu_free_block_list (cache_manager s))) - required_blocks (cfg s) task"
proof -
  let ?new = "task\<lparr>seed := (case seed task of None \<Rightarrow> Some rnd | sd \<Rightarrow> sd), idx := Some p\<rparr>"
  let ?k = "required_blocks (cfg s) task"
  let ?free = "gpu_free_block_list (cache_manager s)"
  let ?t = "?new\<lparr>block_tables := take (nat ?k) ?free, need_block_tables := Some (take (nat ?k) ?free),
    inference_start_time := Some now, tokens_all_num := Some 0\<rparr>"
  let ?s' = "place_task p ?t (s\<lparr>cache_manager := (cache_manager s)\<lparr>gpu_free_block_list := drop (nat ?k) ?free\<rparr>\<rparr>)"
  have np: "\<not> enable_prefix_cache s" using assms(1) by (simp add: rm_plain_def)
  have k: "get_required_block_number (prompt_token_ids_len ?new) s = ?k" by (simp add: required_block_number [symmetric] get_required_block_number_def)
  have a: "admit_plain p ?new s = (Inr (?new\<lparr>block_tables := take (nat ?k) ?free, need_block_tables := Some (take (nat ?k) ?free)\<rparr>),
      s\<lparr>cache_manager := (cache_manager s)\<lparr>gpu_free_block_list := drop (nat ?k) ?free\<rparr>\<rparr>)"
    using admit_plain_eq [of ?new s p] assms(2-4) unfolding k Let_def by (simp add: share_blocks_def)
  have "admit_task H now rnd p task s =
      andthen (admit_plain p ?new s) (\<lambda>task1 s1.
        (Inr (task1\<lparr>inference_start_time := Some now, tokens_all_num := Some 0\<rparr>),
         place_task p (task1\<lparr>inference_start_time := Some now, tokens_all_num := Some 0\<rparr>) s1))"
    using np by (simp add: admit_task_def Let_def)
  then have e: "admit_task H now rnd p task s = (Inr ?t, ?s')" unfolding a by simp
  from admit_task_plain [OF assms(1,5,6), of H now rnd task] e
  have "rm_plain ?s'" "plain_account ?s' = plain_account s" by auto
  moreover have "admitted (cfg s) task ?t" using assms(2-4) by (simp add: admitted_def)
  ultimately show ?thesis using e assms(3,4) by (intro exI [of _ ?t] exI [of _ ?s']) (simp add: place_task_def)
qed

definition free_from :: "bool list \<Rightarrow> nat \<Rightarrow> nat \<Rightarrow> nat" where
  "free_from flags n pos = length (filter (\<lambda>i. flags ! i) [pos..<n])"

lemma next_slot_free:
  assumes "0 < free_from flags n pos" "length flags = n"
  shows "\<exists>p. next_slot flags n pos = Some p \<and> pos \<le> p \<and> p < n \<and> flags ! p \<and> free_from flags n pos = Suc (free_from (flags[p := False]) n (Suc p))"
proof -
  obtain p where p: "next_slot flags n pos = Some p"
  proof (cases "next_slot flags n pos")
    case None
    then have "\<not> flags ! i" if "pos \<le> i" "i < n" for i using next_slot_None [OF None] that assms(2) by blast
    then have "filter (\<lambda>i. flags ! i) [pos..<n] = []" by (simp add: filter_empty_conv)
    then show ?thesis using assms(1) by (simp add: free_from_def)
  qed
  note q = next_slot_Some [OF p]
  have gap: "\<not> flags ! i" if "pos \<le> i" "i < p" for i
    using p that assms(2)
  proof (induction flags n pos rule: next_slot.induct)
    case (1 flags n pos)
    then show ?case by (subst (asm) (2) next_slot.simps) (cases "i = pos"; auto split: if_splits)
  qed
  have "[pos..<n] = [pos..<p] @ p # [Suc p..<n]" using q by (metis le_eq_less_or_eq upt_conv_Cons upt_add_eq_append le_add_diff_inverse)
  moreover have "filter (\<lambda>i. flags ! i) [pos..<p] = []" using gap by (simp add: filter_empty_conv)
  moreover have "filter (\<lambda>i. flags[p := False] ! i) [Suc p..<n] = filter (\<lambda>i. flags ! i) [Suc p..<n]"
    by (rule filter_cong) auto
  ultimately show ?thesis using p q by (simp add: free_from_def)
qed

lemma admit_tasks_enough:
  assumes "rm_plain s" "\<forall>t \<in> set tasks. disaggregate_info t = None \<and> 0 < required_blocks (cfg s) t"
    "sum_list (map (required_blocks (cfg s)) tasks) \<le> int (length (gpu_free_block_list (cache_manager s)))"
    "length tasks \<le> free_from (stop_flags s) (max_num_seqs s) pos"
  shows "\<exists>ts s'. admit_tasks H now rnd pos tasks s = (Inr ts, s') \<and> list_all2 (admitted (cfg s)) tasks ts \<and> rm_plain s' \<and>
    plain_account s' = plain_account s \<and> max_num_seqs s' = max_num_seqs s \<and> cfg s' = cfg s \<and> placed ts s' \<and>
    distinct (map idx ts) \<and> (\<forall>t \<in> set ts. \<exists>p \<ge> pos. idx t = Some p) \<and> (\<forall>i < pos. tasks_list s' ! i = tasks_list s ! i) \<and>
    slot_ids (tasks_list s') = slot_ids (tasks_list s) + mset (map request_id tasks) \<and>
    (all_plain (tasks_list s) \<longrightarrow> all_plain (tasks_list s'))"
  using assms
proof (induction tasks arbitrary: s pos)
  case Nil
  then show ?case by (simp add: placed_def)
next
  case (Cons task tasks)
  have so: "slots_ok s" using Cons.prems(1) by (simp add: rm_plain_def)
  obtain p where p: "next_slot (stop_flags s) (max_num_seqs s) pos = Some p" "pos \<le> p" "p < max_num_seqs s" "stop_flags s ! p"
    "free_from (stop_flags s) (max_num_seqs s) pos = Suc (free_from ((stop_flags s)[p := False]) (max_num_seqs s) (Suc p))"
    using next_slot_free [of "stop_flags s" "max_num_seqs s" pos] Cons.prems(4) so by (auto simp: slots_ok_def)
  have pos: "0 \<le> sum_list (map (required_blocks (cfg s)) tasks)"
    by (rule sum_list_nonneg) (use Cons.prems(2) in fastforce)
  obtain t s1 where t: "admit_task H now (rnd p) p task s = (Inr t, s1)" "admitted (cfg s) task t" "idx t = Some p" "rm_plain s1"
    "plain_account s1 = plain_account s" "tasks_list s1 = (tasks_list s)[p := Some t]" "stop_flags s1 = (stop_flags s)[p := False]"
    "max_num_seqs s1 = max_num_seqs s" "cfg s1 = cfg s"
    "int (length (gpu_free_block_list (cache_manager s1))) =
      int (length (gpu_free_block_list (cache_manager s))) - required_blocks (cfg s) task"
    using admit_task_enough [OF Cons.prems(1), of task p H now "rnd p"] Cons.prems(2,3) pos p(3,4) by auto
  have free: "p < length (tasks_list s)" "tasks_list s ! p = None" using so p(3,4) by (auto simp: slots_ok_def)
  obtain ts s' where r: "admit_tasks H now rnd (Suc p) tasks s1 = (Inr ts, s')" "list_all2 (admitted (cfg s1)) tasks ts" "rm_plain s'"
    "plain_account s' = plain_account s1" "max_num_seqs s' = max_num_seqs s1" "cfg s' = cfg s1" "placed ts s'" "distinct (map idx ts)"
    "\<forall>t \<in> set ts. \<exists>i \<ge> Suc p. idx t = Some i" "\<forall>i < Suc p. tasks_list s' ! i = tasks_list s1 ! i"
    "slot_ids (tasks_list s') = slot_ids (tasks_list s1) + mset (map request_id tasks)"
    "all_plain (tasks_list s1) \<longrightarrow> all_plain (tasks_list s')"
    using Cons.IH [OF t(4), of "Suc p"] Cons.prems(2-4) t(7-10) p(5) by auto
  have "slot_ids (tasks_list s1) = add_mset (request_id task) (slot_ids (tasks_list s))"
    using slot_ids_update [OF free(1), of "Some t"] free(2) t(2,6) by (simp add: admitted_def)
  moreover have "all_plain (tasks_list s) \<longrightarrow> all_plain (tasks_list s')"
    using r(12) t(2,6) all_plain_update by (auto simp: admitted_def)
  moreover have "tasks_list s' ! p = Some t" using r(10) t(6) free(1) by simp
  moreover have "idx t \<notin> set (map idx ts)" using r(9) t(3) by fastforce
  moreover have "\<forall>i < pos. tasks_list s' ! i = tasks_list s ! i" using r(10) t(6) p(2) by simp
  moreover have "\<forall>u \<in> set (t # ts). \<exists>i \<ge> pos. idx u = Some i" using r(9) t(3) p(2) by force
  ultimately show ?case
    using p(1,3) t r by (intro exI [of _ "t # ts"] exI [of _ s']) (simp add: placed_def)
qed

lemma free_slots: "slots_ok s \<Longrightarrow> free_from (stop_flags s) (max_num_seqs s) 0 = available_batch s"
  by (simp add: free_from_def available_batch_def slots_ok_def length_filter_conv_card cong: conj_cong)

subsection \<open>Writing tasks to their slots\<close>

definition same_seat :: "Request \<Rightarrow> Request \<Rightarrow> bool" where
  "same_seat t u = (idx u = idx t \<and> request_id u = request_id t \<and> block_tables u = block_tables t \<and> disaggregate_info u = disaggregate_info t)"

definition with_tasks :: "Request option list \<Rightarrow> engine0 \<Rightarrow> engine0" where
  "with_tasks tab e = e\<lparr>e0_rm := (e0_rm e)\<lparr>tasks_list := tab\<rparr>\<rparr>"

definition seats_kept :: "Request option list \<Rightarrow> Request option list \<Rightarrow> bool" where
  "seats_kept tab tab' =
     (length tab' = length tab \<and>
      (\<forall>i < length tab. rel_option same_seat (tab ! i) (tab' ! i)) \<and> slot_ids tab' = slot_ids tab \<and> busy_blocks tab' = busy_blocks tab)"

lemma same_seat_trans: "same_seat a b \<Longrightarrow> same_seat b c \<Longrightarrow> same_seat a c"
  by (simp add: same_seat_def)

lemma seats_kept_refl: "seats_kept tab tab"
  by (auto simp: seats_kept_def same_seat_def rel_option_iff split: option.split)

lemma seats_kept_trans:
  assumes "seats_kept a b" "seats_kept b c"
  shows "seats_kept a c"
proof -
  have "rel_option same_seat (a ! i) (c ! i)" if "i < length a" for i
  proof -
    have "rel_option same_seat (a ! i) (b ! i)" "rel_option same_seat (b ! i) (c ! i)"
      using assms that by (simp_all add: seats_kept_def)
    then show ?thesis by (cases "a ! i"; cases "b ! i"; cases "c ! i") (simp_all add: same_seat_def)
  qed
  then show ?thesis using assms by (simp add: seats_kept_def)
qed

lemma seats_kept_update:
  assumes "p < length tab" "tab ! p = Some t" "same_seat t u"
  shows "seats_kept tab (tab[p := Some u])"
proof -
  have "slot_ids (tab[p := Some u]) = slot_ids tab"
    using slot_ids_update [OF assms(1), of "Some u"] assms(2,3) by (simp add: same_seat_def)
  moreover have "busy_blocks (tab[p := Some u]) = busy_blocks tab"
    using busy_blocks_update [OF assms(1), of "Some u"] assms(2,3) by (simp add: same_seat_def)
  moreover have "rel_option same_seat (tab ! i) (tab[p := Some u] ! i)" if "i < length tab" for i
    using assms that by (cases "i = p"; cases "tab ! i") (auto simp: same_seat_def)
  ultimately show ?thesis by (simp add: seats_kept_def)
qed

lemma all_plain_seats:
  assumes "all_plain tab" "seats_kept tab tab'"
  shows "all_plain tab'"
  unfolding all_plain_def
proof (intro allI impI)
  fix u assume "Some u \<in> set tab'"
  then obtain i where i: "i < length tab'" "tab' ! i = Some u" by (auto simp: in_set_conv_nth)
  then have n: "i < length tab" "rel_option same_seat (tab ! i) (Some u)" using assms(2) by (auto simp: seats_kept_def)
  then obtain t where t: "tab ! i = Some t" "same_seat t u" by (auto simp: option_rel_Some2)
  then have "Some t \<in> set tab" using n(1) by (metis nth_mem)
  then show "disaggregate_info u = None" using assms(1) t(2) by (auto simp: all_plain_def same_seat_def)
qed

lemma slots_ok_seats:
  assumes "slots_ok s" "seats_kept (tasks_list s) tab"
  shows "slots_ok (s\<lparr>tasks_list := tab\<rparr>)"
proof -
  have r: "rel_option same_seat (tasks_list s ! i) (tab ! i)" if "i < max_num_seqs s" for i
    using assms that by (simp add: seats_kept_def slots_ok_def)
  have "stop_flags s ! i = (tab ! i = None)" "tab ! i = Some t \<Longrightarrow> idx t = Some i" if i: "i < max_num_seqs s" for i t
  proof -
    have f: "stop_flags s ! i = (tasks_list s ! i = None)" "\<forall>t. tasks_list s ! i = Some t \<longrightarrow> idx t = Some i"
      using assms(1) i by (simp_all add: slots_ok_def)
    show "stop_flags s ! i = (tab ! i = None)" using r [OF i] f(1) by (cases "tasks_list s ! i"; cases "tab ! i") auto
    show "idx t = Some i" if "tab ! i = Some t"
      using r [OF i] f(2) that by (cases "tasks_list s ! i") (auto simp: same_seat_def)
  qed
  then show ?thesis using assms by (simp add: slots_ok_def seats_kept_def)
qed

lemma plain_seats:
  assumes "rm_plain s" "seats_kept (tasks_list s) tab"
  shows "rm_plain (s\<lparr>tasks_list := tab\<rparr>)" "plain_account (s\<lparr>tasks_list := tab\<rparr>) = plain_account s"
proof -
  have "slots_ok (s\<lparr>tasks_list := tab\<rparr>)" using slots_ok_seats [OF _ assms(2)] assms(1) by (simp add: rm_plain_def)
  then show "rm_plain (s\<lparr>tasks_list := tab\<rparr>)" using assms(1) by (simp add: rm_plain_def)
  show "plain_account (s\<lparr>tasks_list := tab\<rparr>) = plain_account s"
    using assms(2) by (simp add: plain_account_def seats_kept_def)
qed

lemma write_tasks:
  assumes "placed ts (e0_rm e)" "distinct (map idx ts)" "list_all2 same_seat ts us" "length (tasks_list (e0_rm e)) = max_num_seqs (e0_rm e)"
  shows "\<exists>tab. fold write_task us e = with_tasks tab e \<and> placed us ((e0_rm e)\<lparr>tasks_list := tab\<rparr>) \<and> seats_kept (tasks_list (e0_rm e)) tab \<and>
    (\<forall>i. Some i \<notin> set (map idx ts) \<longrightarrow> tab ! i = tasks_list (e0_rm e) ! i)"
  using assms(3,1,2,4)
proof (induction ts us arbitrary: e rule: list_all2_induct)
  case Nil
  then show ?case by (intro exI [of _ "tasks_list (e0_rm e)"]) (simp add: with_tasks_def placed_def seats_kept_refl)
next
  case (Cons t ts u us)
  obtain p where p: "p < max_num_seqs (e0_rm e)" "idx t = Some p" "tasks_list (e0_rm e) ! p = Some t"
    using Cons.prems(1) by (auto simp: placed_def)
  let ?tab = "(tasks_list (e0_rm e))[p := Some u]"
  have w: "write_task u e = with_tasks ?tab e"
    using p(2) Cons.hyps(1) by (simp add: write_task_def with_tasks_def same_seat_def)
  have k: "seats_kept (tasks_list (e0_rm e)) ?tab" using seats_kept_update p Cons.hyps(1) Cons.prems(3) by simp
  have "placed ts (e0_rm (with_tasks ?tab e))"
    unfolding placed_def
  proof
    fix v assume v: "v \<in> set ts"
    then obtain q where q: "q < max_num_seqs (e0_rm e)" "idx v = Some q" "tasks_list (e0_rm e) ! q = Some v"
      using Cons.prems(1) by (auto simp: placed_def)
    have "q \<noteq> p" using Cons.prems(2) v q(2) p(2) by force
    then show "\<exists>q < max_num_seqs (e0_rm (with_tasks ?tab e)). idx v = Some q \<and> tasks_list (e0_rm (with_tasks ?tab e)) ! q = Some v"
      using q by (auto simp: with_tasks_def)
  qed
  then obtain tab where tab: "fold write_task us (with_tasks ?tab e) = with_tasks tab (with_tasks ?tab e)"
    "placed us ((e0_rm (with_tasks ?tab e))\<lparr>tasks_list := tab\<rparr>)" "seats_kept ?tab tab"
    "\<forall>i. Some i \<notin> set (map idx ts) \<longrightarrow> tab ! i = ?tab ! i"
    using Cons.IH [of "with_tasks ?tab e"] Cons.prems(2,3) by (auto simp: with_tasks_def)
  have "tab ! p = Some u" using tab(4) Cons.prems(2,3) p by (auto simp: image_iff)
  moreover have "idx u = Some p" using p(2) Cons.hyps(1) by (simp add: same_seat_def)
  ultimately have "placed (u # us) ((e0_rm e)\<lparr>tasks_list := tab\<rparr>)" using tab(2) p(1) by (simp add: placed_def with_tasks_def)
  moreover have "\<forall>i. Some i \<notin> set (map idx (t # ts)) \<longrightarrow> tab ! i = tasks_list (e0_rm e) ! i" using tab(4) p(2) by auto
  ultimately show ?case
    using tab(1) seats_kept_trans [OF k tab(3)] by (intro exI [of _ tab]) (simp add: w with_tasks_def)
qed

subsection \<open>Inserting tasks\<close>

definition plain_request :: "Request \<Rightarrow> bool" where
  "plain_request t =
     (disaggregate_info t = None \<and> prompt_token_ids t \<noteq> [] \<and> prompt_token_ids_len t = int (length (prompt_token_ids t)))"

definition chunks_fit :: "engine0_config \<Rightarrow> nat \<Rightarrow> nat \<Rightarrow> bool" where
  "chunks_fit ec bs k =
     (e0_chunked_prefill ec \<longrightarrow> int bs * int k \<le> e0_max_batched_tokens ec \<and> k \<le> e0_max_partial ec)"

lemma no_notes: "\<forall>t \<in> set ts. disaggregate_info t = None \<Longrightarrow> send_cache_infos sc ts k c = (Inr False, c)"
proof -
  have "\<forall>t \<in> set ts. disaggregate_info t = None \<Longrightarrow> note_tasks sc k c ts d groups = Inr (d, groups)" for d groups
    by (induction ts) simp_all
  then show "\<forall>t \<in> set ts. disaggregate_info t = None \<Longrightarrow> send_cache_infos sc ts k c = (Inr False, c)"
    by (simp add: send_cache_infos_def)
qed

lemma no_role: "\<forall>t \<in> set ts. disaggregate_info t = None \<Longrightarrow> \<not> list_ex (has_role P) ts"
  by (induction ts) (simp_all add: has_role_def)

lemma chunks_cut:
  assumes "0 < bs" "\<forall>l \<in> set lens. 0 < l" "bs * int (length lens) \<le> max_tokens" "length lens \<le> max_partial" "lens \<noteq> []"
  shows "\<exists>chunks. update_requests_chunk_size True bs max_tokens max_partial lens = Some (Inr (Some chunks)) \<and> length chunks = length lens"
  using plan_rounds_ok [OF start_ok [OF assms(2)] assms(1,3,4)] assms(5)
  by (auto simp: update_requests_chunk_size_def plan_ok_def)

lemma same_chunks: "(t :: Request)\<lparr>prefill_chunk_info := prefill_chunk_info t\<rparr> = t"
  by (cases t) simp

lemma cut_chunks_ok:
  assumes "placed ts (e0_rm e)" "distinct (map idx ts)" "ts \<noteq> []" "slots_ok (e0_rm e)" "0 < block_size (cfg (e0_rm e))"
    "\<forall>t \<in> set ts. 0 < prompt_token_ids_len t" "chunks_fit ec (block_size (cfg (e0_rm e))) (length ts)"
  shows "\<exists>us tab. cut_chunks ec ts e = (Inr us, with_tasks tab e) \<and> placed us ((e0_rm e)\<lparr>tasks_list := tab\<rparr>) \<and>
    seats_kept (tasks_list (e0_rm e)) tab \<and> (\<exists>f. us = map2 (\<lambda>t n. t\<lparr>prefill_chunk_info := f t n\<rparr>) ts [0..<length ts])"
proof (cases "e0_chunked_prefill ec")
  case False
  let ?f = "\<lambda>(t :: Request) (n :: nat). prefill_chunk_info t"
  have c: "cut_chunks ec ts e = (Inr ts, e)" using False by (simp add: cut_chunks_def update_requests_chunk_size_def)
  have w: "with_tasks (tasks_list (e0_rm e)) e = e" by (simp add: with_tasks_def)
  have m: "ts = map2 (\<lambda>t n. t\<lparr>prefill_chunk_info := ?f t n\<rparr>) ts [0..<length ts]"
    by (rule nth_equalityI) (simp_all add: same_chunks)
  have p: "placed ts ((e0_rm e)\<lparr>tasks_list := tasks_list (e0_rm e)\<rparr>)" using assms(1) by simp
  show ?thesis
    by (rule exI [of _ ts], rule exI [of _ "tasks_list (e0_rm e)"])
       (intro conjI p seats_kept_refl exI [of _ ?f] m, simp only: c w)
next
  case True
  have c: "int (block_size (cfg (e0_rm e))) * int (length (map prompt_token_ids_len ts)) \<le> e0_max_batched_tokens ec"
    "length (map prompt_token_ids_len ts) \<le> e0_max_partial ec" using assms(7) True by (simp_all add: chunks_fit_def)
  obtain chunks where k: "update_requests_chunk_size True (int (block_size (cfg (e0_rm e)))) (e0_max_batched_tokens ec)
      (e0_max_partial ec) (map prompt_token_ids_len ts) = Some (Inr (Some chunks))" "length chunks = length ts"
    using chunks_cut [OF _ _ c] assms(3,5,6) by auto
  let ?us = "map (\<lambda>(t, row). t\<lparr>prefill_chunk_info := Some (length row)\<rparr>) (zip ts chunks)"
  have seat: "list_all2 same_seat ts ?us" using k(2) by (simp add: list_all2_conv_all_nth same_seat_def)
  have tl: "length (tasks_list (e0_rm e)) = max_num_seqs (e0_rm e)" using assms(4) by (simp add: slots_ok_def)
  obtain tab where t: "fold write_task ?us e = with_tasks tab e" "placed ?us ((e0_rm e)\<lparr>tasks_list := tab\<rparr>)"
    "seats_kept (tasks_list (e0_rm e)) tab"
    using write_tasks [OF assms(1,2) seat tl] by blast
  have "?us = map2 (\<lambda>t n. t\<lparr>prefill_chunk_info := (\<lambda>t n. Some (length (chunks ! n))) t n\<rparr>) ts [0..<length ts]"
    by (rule nth_equalityI) (simp_all add: k(2))
  then show ?thesis using k(1) True t
    by (intro exI [of _ ?us] exI [of _ tab]) (auto simp: cut_chunks_def Let_def)
qed

text \<open>A task as it came in, and as the workers get it.\<close>

lemma admitted_chunks:
  assumes "list_all2 (admitted c) tasks ts"
  shows "list_all2 (admitted c) tasks (map (\<lambda>t. t\<lparr>inference_start_time := x\<rparr>) ts)"
    "list_all2 (admitted c) tasks (map2 (\<lambda>t n. t\<lparr>prefill_chunk_info := f t n\<rparr>) ts [0..<length ts])"
  using assms by (auto simp: list_all2_conv_all_nth admitted_def)

lemma insert_tasks_ok:
  assumes "rm_plain (e0_rm e)" "\<forall>t \<in> set tasks. plain_request t" "tasks \<noteq> []" "0 < block_size (cfg (e0_rm e))"
    "sum_list (map (required_blocks (cfg (e0_rm e))) tasks) \<le> available_block_num (e0_rm e)"
    "length tasks \<le> available_batch (e0_rm e)" "tq.delivered batches got (cn_queue (e0_conn e))" "wq_tasks (cn_queue (e0_conn e)) = []"
    "chunks_fit ec (block_size (cfg (e0_rm e))) (length tasks)"
  shows "\<exists>ts e' q s'. insert_tasks H now rnd ec tasks k e = (Inr True, e') \<and> list_all2 (admitted (cfg (e0_rm e))) tasks ts \<and>
    put_tasks (ts, real_bsz s') (cn_queue (e0_conn e)) = Some q \<and> e0_rm e' = s' \<and> e0_conn e' = (e0_conn e)\<lparr>cn_queue := q\<rparr> \<and>
    e0_sched e' = e0_sched e \<and> placed ts s' \<and> rm_plain s' \<and> plain_account s' = plain_account (e0_rm e) \<and>
    max_num_seqs s' = max_num_seqs (e0_rm e) \<and> cfg s' = cfg (e0_rm e) \<and>
    slot_ids (tasks_list s') = slot_ids (tasks_list (e0_rm e)) + mset (map request_id tasks) \<and>
    (all_plain (tasks_list (e0_rm e)) \<longrightarrow> all_plain (tasks_list s'))"
proof -
  let ?s = "e0_rm e" and ?c = "cfg (e0_rm e)"
  have np: "\<not> enable_prefix_cache ?s" and so: "slots_ok ?s" using assms(1) by (simp_all add: rm_plain_def)
  have f: "lift_rm check_and_free_block_tables e = (Inr (), e)"
    using np by (simp add: lift_rm_def check_and_free_block_tables_def)
  have pos: "0 < required_blocks ?c t" if "t \<in> set tasks" for t
  proof -
    have "1 \<le> prompt_token_ids_len t" using assms(2) that by (cases "prompt_token_ids t") (auto simp: plain_request_def)
    then have "int (block_size ?c) div int (block_size ?c) \<le> required_blocks ?c t"
      unfolding required_blocks_def by (intro zdiv_mono1) (use assms(4) in simp_all)
    then show ?thesis using assms(4) by simp
  qed
  obtain ts s1 where a: "admit_tasks H now rnd 0 tasks ?s = (Inr ts, s1)" "list_all2 (admitted ?c) tasks ts" "rm_plain s1"
    "plain_account s1 = plain_account ?s" "max_num_seqs s1 = max_num_seqs ?s" "cfg s1 = ?c" "placed ts s1" "distinct (map idx ts)"
    "slot_ids (tasks_list s1) = slot_ids (tasks_list ?s) + mset (map request_id tasks)"
    "all_plain (tasks_list ?s) \<longrightarrow> all_plain (tasks_list s1)"
    using admit_tasks_enough [OF assms(1), of tasks 0 H now rnd] assms(2,5,6) pos free_slots [OF so]
    by (auto simp: plain_request_def available_block_num_def)
  define s2 where "s2 = s1\<lparr>real_bsz := last_busy (stop_flags s1) (max_num_seqs s1) (real_bsz s1)\<rparr>"
  have al: "lift_rm (allocate_resources_for_new_tasks H now rnd (take (available_batch ?s) tasks)) e = (Inr ts, e\<lparr>e0_rm := s2\<rparr>)"
    using assms(6) a(1) by (simp add: lift_rm_def allocate_resources_for_new_tasks_def s2_def)
  have len: "length ts = length tasks" using a(2) by (simp add: list_all2_lengthD)
  then have ne: "ts \<noteq> []" using assms(3) by auto
  have dis: "\<forall>t \<in> set ts. disaggregate_info t = None"
    using a(2) by (auto simp: list_all2_conv_all_nth admitted_def in_set_conv_nth)
  let ?e3 = "e\<lparr>e0_rm := s2, number_of_tasks := number_of_tasks e + length ts,
    number_of_input_tokens := number_of_input_tokens e + sum_list (map prompt_token_ids_len ts)\<rparr>"
  let ?ts1 = "map (\<lambda>t. t\<lparr>inference_start_time := Some now\<rparr>) ts"
  have so2: "slots_ok s2" "rm_plain s2" "placed ts s2" using a(3,7) by (simp_all add: s2_def rm_plain_def slots_ok_def placed_def)
  have "list_all2 same_seat ts ?ts1" by (simp add: list_all2_conv_all_nth same_seat_def)
  moreover have "length (tasks_list (e0_rm ?e3)) = max_num_seqs (e0_rm ?e3)" using so2(1) by (simp add: slots_ok_def)
  moreover have "placed ts (e0_rm ?e3)" using so2(3) by simp
  ultimately obtain tab where w: "fold write_task ?ts1 ?e3 = with_tasks tab ?e3" "placed ?ts1 (s2\<lparr>tasks_list := tab\<rparr>)"
    "seats_kept (tasks_list s2) tab" using write_tasks [OF _ a(8)] by fastforce
  let ?e4 = "with_tasks tab ?e3"
  have d1: "distinct (map idx ?ts1)" using a(8) by (simp add: comp_def)
  have p1: "placed ?ts1 (e0_rm ?e4)" "slots_ok (e0_rm ?e4)" using w(2) slots_ok_seats [OF so2(1) w(3)] by (simp_all add: with_tasks_def)
  have c4: "cfg (e0_rm ?e4) = ?c" using a(6) by (simp add: with_tasks_def s2_def)
  have len1: "\<forall>t \<in> set ?ts1. 0 < prompt_token_ids_len t"
    using a(2) assms(2) by (auto simp: list_all2_conv_all_nth admitted_def in_set_conv_nth plain_request_def) (metis assms(2) length_greater_0_conv nth_mem of_nat_0_less_iff plain_request_def)
  obtain us tab2 f where u: "cut_chunks ec ?ts1 ?e4 = (Inr us, with_tasks tab2 ?e4)" "placed us ((e0_rm ?e4)\<lparr>tasks_list := tab2\<rparr>)"
    "seats_kept (tasks_list (e0_rm ?e4)) tab2" "us = map2 (\<lambda>t n. t\<lparr>prefill_chunk_info := f t n\<rparr>) ?ts1 [0..<length ?ts1]"
    using cut_chunks_ok [OF p1(1) d1 _ p1(2) _ len1, of ec] ne assms(4,9) len unfolding c4 by auto
  let ?s' = "s2\<lparr>tasks_list := tab2\<rparr>"
  let ?e5 = "with_tasks tab2 ?e4"
  have e5: "e0_rm ?e5 = ?s'" "e0_conn ?e5 = e0_conn e" "e0_sched ?e5 = e0_sched e" by (simp_all add: with_tasks_def)
  have kept: "seats_kept (tasks_list s2) tab2" using seats_kept_trans [OF w(3)] u(3) by (simp add: with_tasks_def)
  have wf: "tasks_wf (cn_queue (e0_conn e))" using assms(7) unfolding tq.delivered_def by blast
  have r: "readers_of (client_read_flag (cn_queue (e0_conn e))) = {..<num_client (cn_queue (e0_conn e))}"
    using wf assms(8) by (auto simp: tasks_wf_def split: if_splits)
  obtain q where q: "put_tasks (us, real_bsz ?s') (cn_queue (e0_conn e)) = Some q"
    using flags_full(1) [of "num_client (cn_queue (e0_conn e))" "client_read_flag (cn_queue (e0_conn e))"] wf r
    by (simp add: put_tasks_def tasks_wf_def)
  let ?e6 = "?e5\<lparr>e0_conn := (e0_conn e)\<lparr>cn_queue := q\<rparr>\<rparr>"
  have pb: "put_batch us ?e5 = (Inr (), ?e6)" unfolding put_batch_def e5 q by simp
  have st: "start_tasks ec now ts ?e3 = (Inr True, ?e6)"
    using no_role [OF dis] w(1) u(1) pb by (simp add: start_tasks_def Let_def)
  have nn: "lift_conn (send_cache_infos (e0_split ec) ts k) ?e3 = (Inr False, ?e3)"
    unfolding lift_conn_def no_notes [OF dis] by simp
  have i: "insert_tasks H now rnd ec tasks k e = (Inr True, ?e6)"
    unfolding insert_tasks_def f andthen_simps al Let_def using ne no_role [OF dis] nn st by simp
  have adm: "list_all2 (admitted ?c) tasks us" unfolding u(4) by (intro admitted_chunks a(2))
  have acc: "rm_plain ?s'" "plain_account ?s' = plain_account s2" using plain_seats [OF so2(2) kept] by simp_all
  have "e0_rm ?e6 = ?s'" "e0_sched ?e6 = e0_sched e" using e5 by simp_all
  moreover have "placed us ?s'" using u(2) by (simp add: with_tasks_def)
  moreover have "plain_account s2 = plain_account ?s" using a(4) by (simp add: s2_def)
  moreover have "slot_ids tab2 = slot_ids (tasks_list ?s) + mset (map request_id tasks)"
    using kept a(9) by (simp add: seats_kept_def s2_def)
  moreover have "all_plain (tasks_list ?s) \<longrightarrow> all_plain tab2"
    using a(10) all_plain_seats [OF _ kept] by (simp add: s2_def)
  ultimately show ?thesis
    using i q adm acc a(5,6) by (intro exI [of _ us] exI [of _ ?e6] exI [of _ q] exI [of _ ?s']) (simp add: s2_def)
qed

end
