(* ===== verification/PlainOutput.thy ===== *)
theory PlainOutput
  imports PlainEngine TokenProcessor
begin

text \<open>
  The thread that takes the sampled tokens with the first resource manager (\<open>output/token_processor.py\<close>), without speculative decoding: each
  slot has one token of the buffer, whose second entry is the size of the batch. What the workers report of finished
  transfers comes from the worker queue.
\<close>

definition done_batch :: "dq_item \<Rightarrow> (req_id \<times> string) list" where
  "done_batch x = (case x of PrefillDone i m \<Rightarrow> [(i, m)] | _ \<Rightarrow> [])"

definition read_finished :: "nat \<Rightarrow> connector \<Rightarrow> connector" where
  "read_finished n c = c\<lparr>cn_queue := ((\<lambda>q. snd (get_finished_req q)) ^^ n) (cn_queue c)\<rparr>"

text \<open>The first token goes to the decoding instance before the outcome of the transfer is looked at.\<close>

definition recycle_prefill0 :: "req_id \<Rightarrow> nat \<Rightarrow> Request \<Rightarrow> disaggregate \<Rightarrow> tp_result \<Rightarrow> engine0 \<Rightarrow> (engine0, tp_result) outcome" where
  "recycle_prefill0 rid i t d res e =
     (let queued = map done_batch (finished_req_queue (cn_queue (e0_conn e))) in
      case wait_prefill rid queued (e0_status e) of
        None \<Rightarrow> (Inl NoReturn, e)
      | Some (rest, st) \<Rightarrow>
          let e1 = e\<lparr>e0_status := st, e0_conn := read_finished (length queued - length rest) (e0_conn e)\<rparr> in
          andthen (lift_conn (send_first_token d [res]) e1) (\<lambda>_ e2.
            let e3 = e2\<lparr>e0_rm := recycle_slot i t (e0_rm e2)\<rparr>;
                res1 = (if st rid \<noteq> Some ''finished'' then res\<lparr>tp_error_code := 400\<rparr> else res)
            in if req_dict (e0_rm e3) rid = None then (Inl KeyError, e3)
               else (Inr res1, e3\<lparr>e0_rm := (e0_rm e3)\<lparr>req_dict := (req_dict (e0_rm e3))(rid := None)\<rparr>\<rparr>)))"

definition recycle_resources0 :: "req_id \<Rightarrow> nat \<Rightarrow> Request \<Rightarrow> tp_result \<Rightarrow> engine0 \<Rightarrow> (engine0, tp_result) outcome" where
  "recycle_resources0 rid i t res e =
     andthen
       (case disaggregate_info t of
          Some d \<Rightarrow> if role d = ''prefill'' then recycle_prefill0 rid i t d res e
                    else (Inr res, e\<lparr>e0_rm := recycle_slot i t (e0_rm e)\<rparr>)
        | None \<Rightarrow> (Inr res, e\<lparr>e0_rm := recycle_slot i t (e0_rm e)\<rparr>))
       (\<lambda>res1 e1. (Inr res1, e1\<lparr>e0_counter := (e0_counter e1)(rid := 0)\<rparr>))"

text \<open>The chunk of a prompt that was prefilled: whether it is the last one, and the task with the chunk counted.\<close>

definition count_chunk0 :: "Request \<Rightarrow> bool \<times> Request" where
  "count_chunk0 t =
     (case prefill_chunk_info t of
        None \<Rightarrow> (True, t)
      | Some chunks \<Rightarrow> (let n = prefill_chunk_num t + 1 in (n \<ge> chunks, t\<lparr>prefill_chunk_num := n\<rparr>)))"

definition first_result :: "nat \<Rightarrow> Request \<Rightarrow> nat \<Rightarrow> tp_result" where
  "first_result i t n =
     \<lparr>tp_request_id = request_id t, tp_index = i, tp_send_idx = n, tp_token_ids = [], tp_draft_token_ids = Some [],
      tp_finished = False, tp_num_cached_tokens = (if n = 0 then num_cached_tokens t else 0), tp_error_code = 200,
      tp_error_msg = None\<rparr>"

definition emit_token0 :: "engine0_config \<Rightarrow> nat \<Rightarrow> token \<Rightarrow> Request \<Rightarrow> engine0 \<Rightarrow> (engine0, tp_result option) outcome" where
  "emit_token0 ec i tok t e =
     (let rid = request_id t; n = e0_counter e rid; is_prefill = is_prefill_role t; stop = (tok = RECOVERY_STOP_SIGNAL);
          t1 = (if stop then t else t\<lparr>output_token_ids := output_token_ids t @ [tok]\<rparr>);
          res = (first_result i t n)\<lparr>tp_token_ids := (if stop then [] else [tok])\<rparr>;
          e1 = e\<lparr>e0_rm := (e0_rm e)\<lparr>tasks_list := (tasks_list (e0_rm e))[i := Some t1]\<rparr>,
                 e0_counter := (e0_counter e)(rid := n + 1)\<rparr>
      in andthen
           (if tok \<in> set (eos_token_ids t1) \<or> is_prefill \<or> stop then
              recycle_resources0 rid i t1
                (res\<lparr>tp_finished := True,
                     tp_error_msg := (if stop then Some ''Recover is not supported, the result is incomplete!''
                                      else tp_error_msg res)\<rparr>) e1
            else (Inr res, e1))
           (\<lambda>res1 e2. (Inr (if \<not> is_prefill \<or> scheduler_name ec = ''splitwise'' then Some res1 else None), e2)))"

definition process_slot0 :: "engine0_config \<Rightarrow> int list \<Rightarrow> nat \<Rightarrow> engine0 \<Rightarrow> (engine0, tp_result option) outcome" where
  "process_slot0 ec raw i e =
     (let s = e0_rm e in
      if i \<ge> length (stop_flags s) then (Inl IndexError, e)
      else if stop_flags s ! i then (Inr None, e)
      else if i \<ge> length (tasks_list s) then (Inl IndexError, e)
      else
        (case tasks_list s ! i of None \<Rightarrow> (Inl AttributeError, e)
         | Some t \<Rightarrow>
             (case py_nth raw (2 + int i) of Inl x \<Rightarrow> (Inl x, e)
              | Inr tok \<Rightarrow>
                  if tok \<noteq> RECOVERY_STOP_SIGNAL \<and> tok < 0 then (Inr None, e)
                  else
                    (case count_chunk0 t of (last_chunk, t1) \<Rightarrow>
                       let e1 = e\<lparr>e0_rm := s\<lparr>tasks_list := (tasks_list s)[i := Some t1]\<rparr>\<rparr> in
                       if last_chunk then emit_token0 ec i tok t1 e1 else (Inr None, e1)))))"

fun process_slots0 ::
  "engine0_config \<Rightarrow> int list \<Rightarrow> nat list \<Rightarrow> tp_result list \<Rightarrow> engine0 \<Rightarrow> (engine0, tp_result list) outcome" where
  "process_slots0 ec raw [] acc e = (Inr acc, e)"
| "process_slots0 ec raw (i # slots) acc e =
     andthen (process_slot0 ec raw i e) (\<lambda>r e1. process_slots0 ec raw slots (case r of None \<Rightarrow> acc | Some x \<Rightarrow> acc @ [x]) e1)"

text \<open>A batch: an exception is logged by the thread, and the results before it are lost.\<close>

definition process_batch0 :: "engine0_config \<Rightarrow> int list \<Rightarrow> engine0 \<Rightarrow> (engine0, unit) outcome" where
  "process_batch0 ec raw e =
     (case py_nth raw 1 of Inl x \<Rightarrow> (Inl x, e)
      | Inr batch \<Rightarrow>
          andthen (process_slots0 ec raw [0..<nat batch] [] e) (\<lambda>rs e1.
            (Inr (), e1\<lparr>e0_sched := put_results (map result_response rs) (e0_sched e1)\<rparr>)))"

end
