(* ===== verification/PlainEngineRun.thy ===== *)
theory PlainEngineRun
  imports PlainEngineProps PlainOutput
begin

text \<open>
  Runs of the engine with the first resource manager: the steps of the front end, of the thread that inserts tasks, of the workers and of
  the thread that takes the sampled tokens, in any order. Each request that was taken from the scheduler is in exactly one slot
  until its last result waits for the front end.
\<close>

subsection \<open>What a fetch hands out fits\<close>

definition chunk_conf :: "'o local_sched \<Rightarrow> bool \<times> int" where
  "chunk_conf s = (enable_chunked_prefill s, max_num_partial_prefills s)"

lemma conf_forget: "chunk_conf (forget i s) = chunk_conf s"
  by (simp add: chunk_conf_def forget_def)

lemma conf_recycle: "chunk_conf (snd (recycle_request i s)) = chunk_conf s"
  using conf_forget [of i s] by (simp add: recycle_request_def Let_def chunk_conf_def)

lemma conf_put_results: "chunk_conf (put_results rs s) = chunk_conf s"
proof -
  have "chunk_conf (fold put_result rs s) = chunk_conf s"
    by (induction rs arbitrary: s) (simp_all add: put_result_def chunk_conf_def)
  then show ?thesis by (simp add: put_results_def)
qed

lemma conf_finished: "chunk_conf (snd (recycle_finished os s)) = chunk_conf s"
proof (induction os s rule: recycle_finished.induct)
  case (2 rid os rest s)
  show ?case
  proof (cases "list_ex out_finished os")
    case True
    show ?thesis
      unfolding recycle_finished.simps if_P [OF True]
      by (rule snd_andthen_keeps [where P = "\<lambda>x. chunk_conf x = chunk_conf s"]) (use conf_recycle 2(1) [OF True] in auto)
  next
    case False
    then show ?thesis using 2(2) by simp
  qed
qed simp

lemma conf_collect: "chunk_conf (snd (get_results s)) = chunk_conf s"
  unfolding get_results_def
  by (rule snd_andthen_keeps [where P = "\<lambda>x. chunk_conf x = chunk_conf s"])
     (simp_all add: conf_finished, simp add: chunk_conf_def)

lemma conf_put: "local_ok s \<Longrightarrow> chunk_conf (snd (put_requests now rs s)) = chunk_conf s"
  by (simp add: put_requests_def recycle_expired_idle chunk_conf_def split: prod.split)

lemma conf_get: "chunk_conf (snd (get_requests a b r m n s)) = chunk_conf s"
  by (simp add: get_requests_def chunk_conf_def split: sum.split)

lemma finished_no_responses: "ls_responses s = [] \<Longrightarrow> ls_responses (snd (recycle_finished os s)) = []"
proof (induction os s rule: recycle_finished.induct)
  case (2 rid os rest s)
  have r: "ls_responses (snd (recycle_request rid s)) = []"
    using 2(3) by (simp add: recycle_request_def Let_def forget_def)
  show ?case
  proof (cases "list_ex out_finished os")
    case True
    show ?thesis
      unfolding recycle_finished.simps if_P [OF True]
      by (rule snd_andthen_keeps [where P = "\<lambda>x. ls_responses x = []"]) (use r 2(1) [OF True] in auto)
  next
    case False
    then show ?thesis using 2 by simp
  qed
qed simp

lemma collect_no_responses: "ls_responses (snd (get_results s)) = []"
  unfolding get_results_def
  by (rule snd_andthen_keeps [where P = "\<lambda>x. ls_responses x = []"]) (simp_all add: finished_no_responses)

lemma pick_length: "pick s a bs r m b rids = Inr rs \<Longrightarrow> length rs \<le> length rids"
proof (induction s a bs r m b rids arbitrary: rs rule: pick.induct)
  case (2 s a bs r m b rid rids)
  then show ?case by (auto split: option.splits if_splits prod.splits sum.splits)
qed simp

lemma py_slice_length: "0 \<le> a \<Longrightarrow> 0 \<le> k \<Longrightarrow> length (py_slice a (a + k) xs) \<le> nat k"
  by (simp add: py_slice_front)

lemma fetched_blocks:
  assumes "0 < block_size c" "int (dec_token_num c) \<le> enc_dec * int (block_size c)" "plain_request t"
  shows "required_blocks c t \<le> calc_required_blocks (int (length (prompt_token_ids t))) (int (block_size c)) + enc_dec"
proof -
  let ?n = "int (length (prompt_token_ids t))" and ?b = "int (block_size c)"
  have "required_blocks c t \<le> (?n + ?b - 1 + enc_dec * ?b) div ?b"
    unfolding required_blocks_def using assms by (intro zdiv_mono1) (simp_all add: plain_request_def)
  also have "\<dots> = (?n + ?b - 1) div ?b + enc_dec" using assms(1) by simp
  finally show ?thesis by (simp add: calc_required_blocks_def)
qed

lemma fetched_fits:
  assumes "get_requests a (int (block_size c)) enc_dec m batch s = (Inr rs, s')" "local_ok s" "rs \<noteq> []" "\<forall>t \<in> set rs. plain_request t"
    "0 < block_size c" "int (dec_token_num c) \<le> enc_dec * int (block_size c)"
  shows "sum_list (map (required_blocks c) rs) \<le> a" "int (length rs) \<le> batch"
    "enable_chunked_prefill s \<Longrightarrow> int (length rs) \<le> max_num_partial_prefills s"
proof -
  let ?slice = "py_slice (ids_read_cursor s) (ids_read_cursor s + batch) (ids s)"
  have p: "pick s a (int (block_size c)) enc_dec m no_budget ?slice = Inr rs" and b: "1 \<le> batch"
    using assms(1,3) by (auto simp: get_requests_def split: if_splits sum.splits)
  have w: "takes_within s a (int (block_size c)) enc_dec m no_budget rs" by (rule pick_within [OF p assms(3)])
  have "sum_list (map (required_blocks c) rs) \<le> blocks_of (int (block_size c)) enc_dec rs"
    unfolding blocks_of_def using assms(4) fetched_blocks [OF assms(5,6)] by (intro sum_list_mono) simp
  also have "\<dots> \<le> a" using w by (simp add: takes_within_def no_budget_def)
  finally show "sum_list (map (required_blocks c) rs) \<le> a" .
  have "length rs \<le> nat batch"
    using pick_length [OF p] py_slice_length [OF local_okD(7) [OF assms(2)], of batch "ids s"] b by linarith
  then show "int (length rs) \<le> batch" using b by linarith
  show "int (length rs) \<le> max_num_partial_prefills s" if "enable_chunked_prefill s"
    using w that by (simp add: takes_within_def no_budget_def)
qed

subsection \<open>Runs\<close>

definition plain_config :: "engine0_config \<Rightarrow> cache_config \<Rightarrow> bool" where
  "plain_config ec c =
     (splitwise_role ec = ''mixed'' \<and> 0 < block_size c \<and> int (dec_token_num c) \<le> e0_enc_dec_blocks ec * int (block_size c) \<and>
      (e0_chunked_prefill ec \<longrightarrow> int (block_size c) * int (e0_max_partial ec) \<le> e0_max_batched_tokens ec))"

definition init_engine0 ::
  "tp_result local_sched \<Rightarrow> cache_config \<Rightarrow> nat \<Rightarrow> nat \<Rightarrow> nat \<Rightarrow> nat \<Rightarrow> cache_place \<Rightarrow> engine0" where
  "init_engine0 sched c n gpu cpu workers place =
     \<lparr>e0_sched = sched, e0_rm = init_rm c n False (init_pcm gpu cpu False),
      e0_conn = \<lparr>cn_queue = init_worker_queue workers, cn_peers = (\<lambda>p. init_worker_queue workers), connected = [],
                 current_request_ids = [], own_place = place, sent = []\<rparr>,
      e0_counter = (\<lambda>_. 0), number_of_tasks = 0, number_of_input_tokens = 0, waiting_requests = [], e0_current_id = - 1,
      e0_status = Map.empty\<rparr>"

text \<open>A buffer of the workers has the size of the batch and a token for each of its slots.\<close>

definition buffer_ok :: "nat \<Rightarrow> int list \<Rightarrow> bool" where
  "buffer_ok n raw = (2 \<le> length raw \<and> 0 \<le> raw ! 1 \<and> raw ! 1 \<le> int n \<and> raw ! 1 + 2 \<le> int (length raw))"

inductive engine0_run ::
  "cache_config \<Rightarrow> nat \<Rightarrow> nat \<Rightarrow> engine0_config \<Rightarrow> req_id list \<Rightarrow>
   (Request list \<times> nat) list \<Rightarrow> (nat \<Rightarrow> (Request list \<times> nat) list) \<Rightarrow> engine0 \<Rightarrow> bool"
  for c n gpu ec where
  p_init: "0 < workers \<Longrightarrow> engine0_run c n gpu ec [] [] (\<lambda>_. [])
     (init_engine0 (init_local cap life (e0_chunked_prefill ec) (int (e0_max_partial ec)) l th) c n gpu cpu workers place)"
| p_put: "engine0_run c n gpu ec acc batches got e \<Longrightarrow> \<forall>t \<in> set rs. plain_request t \<Longrightarrow>
     put_requests now rs (e0_sched e) = (Inr res, sc) \<Longrightarrow>
     engine0_run c n gpu ec (acc @ map fst (filter (\<lambda>(i, x). x = None) res)) batches got (e\<lparr>e0_sched := sc\<rparr>)"
| p_collect: "engine0_run c n gpu ec acc batches got e \<Longrightarrow>
     engine0_run c n gpu ec acc batches got (e\<lparr>e0_sched := snd (get_results (e0_sched e))\<rparr>)"
| p_insert: "engine0_run c n gpu ec acc batches got e \<Longrightarrow> insert_pass H now rnd ec signal e = (Inr tasks, e') \<Longrightarrow>
     engine0_run c n gpu ec acc (if tasks = [] then batches else batches @ wq_tasks (cn_queue (e0_conn e'))) got e'"
| p_work: "engine0_run c n gpu ec acc batches got e \<Longrightarrow> w < num_client (cn_queue (e0_conn e)) \<Longrightarrow>
     client_read_flag (cn_queue (e0_conn e)) ! w = 0 \<Longrightarrow> get_tasks w (cn_queue (e0_conn e)) = (([b], fin), q) \<Longrightarrow>
     engine0_run c n gpu ec acc batches (got(w := got w @ [b])) (e\<lparr>e0_conn := (e0_conn e)\<lparr>cn_queue := q\<rparr>\<rparr>)"
| p_output: "engine0_run c n gpu ec acc batches got e \<Longrightarrow> buffer_ok n raw \<Longrightarrow>
     engine0_run c n gpu ec acc batches got (snd (process_batch0 ec raw e))"

definition batch_ids :: "(Request list \<times> nat) list \<Rightarrow> req_id list" where
  "batch_ids bs = map request_id (concat (map fst bs))"

lemma batch_ids_simps [simp]:
  "batch_ids [] = []" "batch_ids (xs @ ys) = batch_ids xs @ batch_ids ys" "batch_ids [(ts, k)] = map request_id ts"
  by (simp_all add: batch_ids_def)

text \<open>Requests whose last result waits for the front end.\<close>

definition answered :: "'o local_sched \<Rightarrow> req_id set" where
  "answered s = {i. \<exists>rs. (i, rs) \<in> set (ls_responses s) \<and> list_ex out_finished rs}"

definition unanswered :: "'o local_sched \<Rightarrow> req_id set" where
  "unanswered s = set (in_flight s) - answered s"

definition rm_part :: "cache_config \<Rightarrow> nat \<Rightarrow> nat \<Rightarrow> (Request, 'a) rm_scheme \<Rightarrow> bool" where
  "rm_part c n gpu s =
     (rm_plain s \<and> plain_account s = mset (map int [0..<gpu]) \<and> max_num_seqs s = n \<and> cfg s = c \<and> all_plain (tasks_list s))"

definition sched_part :: "engine0_config \<Rightarrow> tp_result local_sched \<Rightarrow> bool" where
  "sched_part ec s =
     (local_ok s \<and> all_hold plain_request s \<and> chunk_conf s = (e0_chunked_prefill ec, int (e0_max_partial ec)))"

definition conn_part :: "(Request list \<times> nat) list \<Rightarrow> (nat \<Rightarrow> (Request list \<times> nat) list) \<Rightarrow> connector \<Rightarrow> bool" where
  "conn_part batches got k =
     (tq.delivered batches got (cn_queue k) \<and> num_cache_infos (cn_queue k) = 0 \<and> current_request_ids k = [])"

definition engine0_inv ::
  "cache_config \<Rightarrow> nat \<Rightarrow> nat \<Rightarrow> engine0_config \<Rightarrow> req_id list \<Rightarrow>
   (Request list \<times> nat) list \<Rightarrow> (nat \<Rightarrow> (Request list \<times> nat) list) \<Rightarrow> engine0 \<Rightarrow> bool" where
  "engine0_inv c n gpu ec acc batches got e =
     (rm_part c n gpu (e0_rm e) \<and> sched_part ec (e0_sched e) \<and> conn_part batches got (e0_conn e) \<and>
      slot_ids (tasks_list (e0_rm e)) = mset_set (unanswered (e0_sched e)) \<and>
      acc = batch_ids batches @ pending (e0_sched e))"

lemma unanswered_facts [simp]: "finite (unanswered s)" "unanswered s \<subseteq> set (in_flight s)"
  by (auto simp: unanswered_def)

lemma sched_part_put:
  assumes "sched_part ec s" "\<forall>t \<in> set rs. plain_request t"
  shows "sched_part ec (snd (put_requests now rs s)) \<and> unanswered (snd (put_requests now rs s)) = unanswered s"
proof -
  have ok: "local_ok s" using assms(1) by (simp add: sched_part_def)
  obtain res s' where p: "put_requests now rs s = (Inr res, s')" "local_ok s'" "in_flight s' = in_flight s"
    by (rule put_requests_effect [OF ok, of now rs])
  have "ls_responses (snd (put_requests now rs s)) = ls_responses s"
    unfolding put_requests_def recycle_expired_idle [OF ok] by (simp split: prod.split)
  then have "ls_responses s' = ls_responses s" using p(1) by simp
  then have "unanswered s' = unanswered s" using p(3) by (simp add: unanswered_def answered_def)
  moreover have "all_hold plain_request s'" "chunk_conf s' = chunk_conf s"
    using hold_put [of plain_request s rs now] conf_put [OF ok, of now rs] assms p(1) by (simp_all add: sched_part_def)
  ultimately show ?thesis using assms(1) p(1,2) by (simp add: sched_part_def)
qed

lemma sched_part_collect:
  assumes "sched_part ec s"
  shows "sched_part ec (snd (get_results s)) \<and> unanswered (snd (get_results s)) = unanswered s"
proof -
  have ok: "local_ok s" using assms by (simp add: sched_part_def)
  obtain s' where g: "get_results s = (Inr (ls_responses s), s')" "local_ok s'" "pending s' = pending s"
    "set (in_flight s') = set (in_flight s) - {i. \<exists>rs. (i, rs) \<in> set (ls_responses s) \<and> list_ex out_finished rs}"
    by (rule get_results_effect [OF ok])
  have "ls_responses s' = []" using collect_no_responses [of s] g(1) by simp
  then show ?thesis
    using assms g hold_collect [of plain_request s] conf_collect [of s]
    by (simp add: sched_part_def unanswered_def answered_def)
qed

lemma sched_part_get:
  assumes "sched_part ec s" "bs \<noteq> 0"
  obtains rs s' where "get_requests a bs r m batch s = (Inr rs, s')" "sched_part ec s'"
    "pending s = map request_id rs @ pending s'" "\<forall>t \<in> set rs. plain_request t"
    "mset_set (unanswered s') = mset_set (unanswered s) + mset (map request_id rs)"
proof -
  have ok: "local_ok s" "all_hold plain_request s" using assms(1) by (simp_all add: sched_part_def)
  obtain rs s' where g: "get_requests a bs r m batch s = (Inr rs, s')" "local_ok s'"
    "pending s = map request_id rs @ pending s'" "in_flight s' = in_flight s @ map request_id rs"
    by (rule get_requests_effect [OF ok(1) assms(2), of a r m batch])
  have f: "sched_part ec s'" "\<forall>t \<in> set rs. plain_request t"
    using hold_get [OF ok(2) g(1)] conf_get [of a bs r m batch s] g(1,2) assms(1) by (simp_all add: sched_part_def)
  have "ls_responses s' = ls_responses s" using g(1) by (auto simp: get_requests_def split: if_splits sum.splits)
  then have an: "answered s' = answered s" by (simp add: answered_def)
  have sub: "answered s \<subseteq> set (in_flight s)" using local_okD(6) [OF ok(1)] by (force simp: answered_def)
  have d: "distinct (in_flight s @ map request_id rs)"
    unfolding g(4) [symmetric] using local_okD(1) [OF g(2)] by (simp add: in_flight_def)
  have u: "unanswered s' = unanswered s \<union> request_id ` set rs" "unanswered s \<inter> request_id ` set rs = {}"
    using d sub unfolding unanswered_def an g(4) by auto
  have "mset_set (unanswered s') = mset_set (unanswered s) + mset_set (set (map request_id rs))"
    unfolding u(1) using u(2) by (subst mset_set_Union) simp_all
  moreover have "mset_set (set (map request_id rs)) = mset (map request_id rs)" using d by (intro mset_set_set) simp
  ultimately show ?thesis using that [OF g(1) f(1) g(3) f(2)] by simp
qed

subsection \<open>A pass of the thread that inserts tasks\<close>

lemma chunks_fit_fetched:
  assumes "plain_config ec c" "sched_part ec s" "enable_chunked_prefill s \<Longrightarrow> int k \<le> max_num_partial_prefills s"
  shows "chunks_fit ec (block_size c) k"
proof (cases "e0_chunked_prefill ec")
  case True
  then have k: "k \<le> e0_max_partial ec" using assms(2,3) by (simp add: sched_part_def chunk_conf_def)
  have "int (block_size c) * int k \<le> int (block_size c) * int (e0_max_partial ec)" using k by (intro mult_left_mono) simp_all
  also have "\<dots> \<le> e0_max_batched_tokens ec" using assms(1) True by (simp add: plain_config_def)
  finally show ?thesis using k by (simp add: chunks_fit_def)
qed (simp add: chunks_fit_def)

lemma put_batch_alone:
  assumes "tq.delivered batches got q" "wq_tasks q = []" "put_tasks b q = Some q'"
  shows "tq.delivered (batches @ [b]) got q'" "wq_tasks q' = [b]" "num_cache_infos q' = num_cache_infos q"
  using assms(3) tq.delivered_put [OF assms(1), of b q']
  by (auto simp: tasks_put_def put_tasks_def num_cache_infos_def split: if_splits)

text \<open>What a pass did: it handed on the head of the queue of the scheduler, seated it and put it to the workers as one batch.\<close>

definition handed_on :: "cache_config \<Rightarrow> Request list \<Rightarrow> engine0 \<Rightarrow> engine0 \<Rightarrow> bool" where
  "handed_on c tasks e e' =
     (pending (e0_sched e) = map request_id tasks @ pending (e0_sched e') \<and>
      (tasks \<noteq> [] \<longrightarrow>
         (\<exists>ts. list_all2 (admitted c) tasks ts \<and> placed ts (e0_rm e') \<and>
            wq_tasks (cn_queue (e0_conn e')) = [(ts, real_bsz (e0_rm e'))])))"

lemma fetch_and_insert_ok:
  assumes "engine0_inv c n gpu ec acc batches got e" "plain_config ec c" "wq_tasks (cn_queue (e0_conn e)) = []"
  shows "\<exists>tasks e'. fetch_and_insert H now rnd ec e = (Inr tasks, e') \<and> handed_on c tasks e e' \<and>
    engine0_inv c n gpu ec acc (if tasks = [] then batches else batches @ wq_tasks (cn_queue (e0_conn e'))) got e'"
proof -
  let ?s = "e0_rm e"
  have inv: "rm_part c n gpu ?s" "sched_part ec (e0_sched e)" "conn_part batches got (e0_conn e)"
    "slot_ids (tasks_list ?s) = mset_set (unanswered (e0_sched e))" "acc = batch_ids batches @ pending (e0_sched e)"
    using assms(1) by (simp_all add: engine0_inv_def)
  have rm: "rm_plain ?s" "cfg ?s = c" "all_plain (tasks_list ?s)" "\<not> enable_prefix_cache ?s"
    using inv(1) by (simp_all add: rm_part_def rm_plain_def)
  have pc: "splitwise_role ec = ''mixed''" "0 < block_size c" "int (dec_token_num c) \<le> e0_enc_dec_blocks ec * int (block_size c)"
    using assms(2) by (simp_all add: plain_config_def)
  have f: "lift_rm check_and_free_block_tables e = (Inr (), e)"
    using rm(4) by (simp add: lift_rm_def check_and_free_block_tables_def)
  let ?batch = "min (int (available_batch ?s)) (e0_prefill_batch ec)"
  obtain tasks sc where g: "get_requests (available_block_num ?s) (int (block_size c)) (e0_enc_dec_blocks ec)
      (e0_max_batched_tokens ec) ?batch (e0_sched e) = (Inr tasks, sc)" "sched_part ec sc"
    "pending (e0_sched e) = map request_id tasks @ pending sc" "\<forall>t \<in> set tasks. plain_request t"
    "mset_set (unanswered sc) = mset_set (unanswered (e0_sched e)) + mset (map request_id tasks)"
    using sched_part_get [OF inv(2), of "int (block_size c)" "available_block_num ?s" "e0_enc_dec_blocks ec" "e0_max_batched_tokens ec" ?batch]
      pc(2) by (metis of_nat_0_less_iff less_irrefl)
  show ?thesis
  proof (cases "tasks = []")
    case True
    then have "fetch_and_insert H now rnd ec e = (Inr [], e\<lparr>e0_sched := sc\<rparr>)"
      using g(1) f rm(2) by (simp add: fetch_and_insert_def Let_def)
    then show ?thesis using True g inv by (simp add: handed_on_def engine0_inv_def)
  next
    case False
    let ?k = "(e0_current_id e + 1) mod 100003"
    let ?e2 = "e\<lparr>e0_sched := sc, e0_current_id := ?k\<rparr>"
    have ok: "local_ok (e0_sched e)" using inv(2) by (simp add: sched_part_def)
    note fits = fetched_fits [OF g(1) ok False g(4) pc(2,3)]
    have deliv: "tq.delivered batches got (cn_queue (e0_conn ?e2))" "num_cache_infos (cn_queue (e0_conn e)) = 0"
      "current_request_ids (e0_conn e) = []" using inv(3) by (simp_all add: conn_part_def)
    have pre: "rm_plain (e0_rm ?e2)" "0 < block_size (cfg (e0_rm ?e2))"
      "sum_list (map (required_blocks (cfg (e0_rm ?e2))) tasks) \<le> available_block_num (e0_rm ?e2)"
      "length tasks \<le> available_batch (e0_rm ?e2)" "wq_tasks (cn_queue (e0_conn ?e2)) = []"
      "chunks_fit ec (block_size (cfg (e0_rm ?e2))) (length tasks)"
      using rm(1,2) pc(2) fits(1,2) assms(3) chunks_fit_fetched [OF assms(2) inv(2) fits(3)] by simp_all
    obtain ts e' q s' where i: "insert_tasks H now rnd ec tasks ?k ?e2 = (Inr True, e')" "list_all2 (admitted c) tasks ts"
      "put_tasks (ts, real_bsz s') (cn_queue (e0_conn e)) = Some q" "e0_rm e' = s'" "e0_conn e' = (e0_conn e)\<lparr>cn_queue := q\<rparr>"
      "e0_sched e' = sc" "placed ts s'" "rm_plain s'" "plain_account s' = plain_account ?s"
      "max_num_seqs s' = max_num_seqs ?s" "cfg s' = c" "slot_ids (tasks_list s') = slot_ids (tasks_list ?s) + mset (map request_id tasks)"
      "all_plain (tasks_list s')"
      using insert_tasks_ok [OF pre(1) g(4) False pre(2,3,4) deliv(1) pre(5,6), of H now rnd ?k] rm(2,3) by auto
    have r: "fetch_and_insert H now rnd ec e = (Inr tasks, e')"
      unfolding fetch_and_insert_def Let_def f andthen_simps rm(2) using g(1) False i(1) pc(1) by (simp add: Let_def)
    have q: "tq.delivered (batches @ wq_tasks q) got q" "wq_tasks q = [(ts, real_bsz s')]" "num_cache_infos q = 0"
      using put_batch_alone [OF deliv(1), of "(ts, real_bsz s')" q] i(3) assms(3) deliv(2) by simp_all
    have ids: "map request_id ts = map request_id tasks"
      using i(2) by (auto simp: list_all2_conv_all_nth admitted_def intro: nth_equalityI)
    have "engine0_inv c n gpu ec acc (batches @ wq_tasks (cn_queue (e0_conn e'))) got e'"
      using inv(1,4,5) g(2,3,5) i(4-13) q deliv(3) ids by (simp add: engine0_inv_def rm_part_def conn_part_def)
    moreover have "handed_on c tasks e e'" using g(3) i(2,4-7) q(2) by (auto simp: handed_on_def)
    ultimately show ?thesis using r False by auto
  qed
qed

lemma insert_pass_ok:
  assumes "engine0_inv c n gpu ec acc batches got e" "plain_config ec c"
  shows "\<exists>tasks e'. insert_pass H now rnd ec signal e = (Inr tasks, e') \<and> handed_on c tasks e e' \<and>
    engine0_inv c n gpu ec acc (if tasks = [] then batches else batches @ wq_tasks (cn_queue (e0_conn e'))) got e'"
proof (cases "available_batch (e0_rm e) = 0 \<or> num_tasks (cn_queue (e0_conn e)) > 0 \<or> signal > 0")
  case True
  then have "insert_pass H now rnd ec signal e = (Inr [], e)"
    using assms(2) by (auto simp: insert_pass_def prefill_busy_def plain_config_def)
  then show ?thesis using assms(1) by (simp add: handed_on_def)
next
  case False
  then have "insert_pass H now rnd ec signal e = fetch_and_insert H now rnd ec e"
    using assms(1) by (simp add: insert_pass_def prefill_busy_def engine0_inv_def conn_part_def)
  then show ?thesis using fetch_and_insert_ok [OF assms, of H now rnd] False by (simp add: num_tasks_def)
qed

end
