(* ===== verification/PlainEngineClaims.thy ===== *)
theory PlainEngineClaims
  imports PlainEngineRun "HOL-Library.Sublist"
begin

text \<open>What the threads of the engine with the first resource manager guarantee together, in every order of their steps.\<close>

subsection \<open>Sampled tokens\<close>

definition finished_ids :: "tp_result list \<Rightarrow> req_id list" where
  "finished_ids rs = map tp_request_id (filter tp_finished rs)"

lemma rm_part_write:
  assumes "rm_part c n gpu s" "i < n" "tasks_list s ! i = Some t" "same_seat t u"
  shows "rm_part c n gpu (s\<lparr>tasks_list := (tasks_list s)[i := Some u]\<rparr>)"
    "slot_ids ((tasks_list s)[i := Some u]) = slot_ids (tasks_list s)"
proof -
  have l: "i < length (tasks_list s)" using assms(1,2) by (simp add: rm_part_def rm_plain_def slots_ok_def)
  have k: "seats_kept (tasks_list s) ((tasks_list s)[i := Some u])" by (rule seats_kept_update [OF l assms(3,4)])
  have p: "rm_plain s" "all_plain (tasks_list s)" using assms(1) by (simp_all add: rm_part_def)
  show "rm_part c n gpu (s\<lparr>tasks_list := (tasks_list s)[i := Some u]\<rparr>)"
    using assms(1) plain_seats [OF p(1) k] all_plain_seats [OF p(2) k] by (simp add: rm_part_def)
  show "slot_ids ((tasks_list s)[i := Some u]) = slot_ids (tasks_list s)" using k by (simp add: seats_kept_def)
qed

lemma rm_part_recycle:
  assumes "rm_part c n gpu s" "i < n" "tasks_list s ! i = Some t"
  shows "rm_part c n gpu (recycle_slot i t s)"
    "slot_ids (tasks_list s) = add_mset (request_id t) (slot_ids (tasks_list (recycle_slot i t s)))"
proof -
  have p: "rm_plain s" "all_plain (tasks_list s)" "max_num_seqs s = n" using assms(1) by (simp_all add: rm_part_def)
  have l: "i < length (tasks_list s)" using assms(2) p by (simp add: rm_plain_def slots_ok_def)
  have t: "tasks_list (recycle_slot i t s) = (tasks_list s)[i := None]"
    by (simp add: recycle_slot_def recycle_block_tables_def)
  have "all_plain ((tasks_list s)[i := None])"
    unfolding all_plain_def
  proof (intro allI impI)
    fix u assume "Some u \<in> set ((tasks_list s)[i := None])"
    then have "Some u \<in> insert None (set (tasks_list s))" using set_update_subset_insert by fast
    then show "disaggregate_info u = None" using p(2) by (auto simp: all_plain_def)
  qed
  moreover have "max_num_seqs (recycle_slot i t s) = n" "cfg (recycle_slot i t s) = cfg s"
    using p(3) by (simp_all add: recycle_slot_def recycle_block_tables_def)
  ultimately show "rm_part c n gpu (recycle_slot i t s)"
    using recycle_slot_plain [OF p(1) _ assms(3)] assms(1,2) p(3) by (simp add: rm_part_def t)
  show "slot_ids (tasks_list s) = add_mset (request_id t) (slot_ids (tasks_list (recycle_slot i t s)))"
    using slot_ids_update [OF l, of None] assms(3) by (simp add: t)
qed

text \<open>What one slot does: nothing but the slots changes, and a result that ends a request frees its slot.\<close>

definition slot_step :: "cache_config \<Rightarrow> nat \<Rightarrow> nat \<Rightarrow> engine0 \<Rightarrow> tp_result list \<Rightarrow> engine0 \<Rightarrow> bool" where
  "slot_step c n gpu e rs e' =
     (rm_part c n gpu (e0_rm e') \<and> e0_sched e' = e0_sched e \<and> e0_conn e' = e0_conn e \<and>
      slot_ids (tasks_list (e0_rm e)) = slot_ids (tasks_list (e0_rm e')) + mset (finished_ids rs) \<and>
      (\<forall>r \<in> set rs. tp_request_id r \<in># slot_ids (tasks_list (e0_rm e))))"

lemma slot_step_none: "rm_part c n gpu (e0_rm e) \<Longrightarrow> slot_step c n gpu e [] e"
  by (simp add: slot_step_def finished_ids_def)

lemma slot_step_trans:
  assumes "slot_step c n gpu e rs e1" "slot_step c n gpu e1 rs' e2"
  shows "slot_step c n gpu e (rs @ rs') e2"
  using assms by (auto simp: slot_step_def finished_ids_def)

lemma emit_token0_ok:
  assumes "rm_part c n gpu (e0_rm e)" "i < n" "tasks_list (e0_rm e) ! i = Some t"
  shows "\<exists>r e'. emit_token0 ec i tok t e = (Inr (Some r), e') \<and> slot_step c n gpu e [r] e'"
proof -
  let ?t1 = "if tok = RECOVERY_STOP_SIGNAL then t else t\<lparr>output_token_ids := output_token_ids t @ [tok]\<rparr>"
  let ?s1 = "(e0_rm e)\<lparr>tasks_list := (tasks_list (e0_rm e))[i := Some ?t1]\<rparr>"
  have l: "i < length (tasks_list (e0_rm e))" using assms(1,2) by (simp add: rm_part_def rm_plain_def slots_ok_def)
  have same: "same_seat t ?t1" by (simp add: same_seat_def)
  note w = rm_part_write [OF assms same]
  have dis: "disaggregate_info t = None"
    using assms(1,3) l unfolding rm_part_def all_plain_def by (metis nth_mem)
  then have np: "\<not> is_prefill_role t" "disaggregate_info ?t1 = None" by (simp_all add: is_prefill_role_def)
  have rid: "request_id ?t1 = request_id t" by simp
  have at: "tasks_list ?s1 ! i = Some ?t1" using l by simp
  note rc = rm_part_recycle [OF w(1) assms(2) at]
  have mem: "request_id t \<in># slot_ids (tasks_list (e0_rm e))" using rc(2) w(2) rid by simp
  show ?thesis
  proof (cases "tok \<in> set (eos_token_ids ?t1) \<or> tok = RECOVERY_STOP_SIGNAL")
    case True
    then show ?thesis
      using rc w(2) mem rid np
      unfolding emit_token0_def Let_def recycle_resources0_def
      by (auto simp: slot_step_def finished_ids_def first_result_def)
  next
    case False
    then show ?thesis
      using w mem np
      unfolding emit_token0_def Let_def
      by (auto simp: slot_step_def finished_ids_def first_result_def)
  qed
qed

lemma process_slot0_ok:
  assumes "rm_part c n gpu (e0_rm e)" "i < n" "i + 2 < length raw"
  shows "\<exists>r e'. process_slot0 ec raw i e = (Inr r, e') \<and> slot_step c n gpu e (case r of None \<Rightarrow> [] | Some x \<Rightarrow> [x]) e'"
proof -
  let ?s = "e0_rm e"
  have so: "slots_ok ?s" "max_num_seqs ?s = n" using assms(1) by (simp_all add: rm_part_def rm_plain_def)
  have l: "i < length (stop_flags ?s)" "i < length (tasks_list ?s)" "stop_flags ?s ! i = (tasks_list ?s ! i = None)"
    using so assms(2) by (simp_all add: slots_ok_def)
  have tok: "py_nth raw (2 + int i) = Inr (raw ! (i + 2))" using assms(3) by (simp add: py_nth_def nat_add_distrib)
  show ?thesis
  proof (cases "tasks_list ?s ! i")
    case None
    then show ?thesis using l slot_step_none [OF assms(1)] by (simp add: process_slot0_def Let_def)
  next
    case (Some t)
    obtain lst t1 where k: "count_chunk0 t = (lst, t1)" by fastforce
    have same: "same_seat t t1" using k by (auto simp: count_chunk0_def Let_def same_seat_def split: option.splits)
    note w = rm_part_write [OF assms(1,2) Some same]
    let ?e1 = "e\<lparr>e0_rm := ?s\<lparr>tasks_list := (tasks_list ?s)[i := Some t1]\<rparr>\<rparr>"
    have step: "slot_step c n gpu e [] ?e1" using w by (simp add: slot_step_def finished_ids_def)
    have at: "rm_part c n gpu (e0_rm ?e1)" "tasks_list (e0_rm ?e1) ! i = Some t1" using w l(2) by simp_all
    obtain r e' where em: "emit_token0 ec i (raw ! (i + 2)) t1 ?e1 = (Inr (Some r), e')" "slot_step c n gpu ?e1 [r] e'"
      using emit_token0_ok [OF at(1) assms(2) at(2)] by blast
    have "slot_step c n gpu e [r] e'" using slot_step_trans [OF step em(2)] by simp
    then show ?thesis
      using l Some tok k em(1) step slot_step_none [OF assms(1)]
      by (auto simp: process_slot0_def Let_def split: prod.split if_splits)
  qed
qed

lemma process_slots0_ok:
  assumes "rm_part c n gpu (e0_rm e)" "\<forall>i \<in> set slots. i < n \<and> i + 2 < length raw"
  shows "\<exists>rs e'. process_slots0 ec raw slots acc e = (Inr (acc @ rs), e') \<and> slot_step c n gpu e rs e'"
  using assms
proof (induction slots arbitrary: acc e)
  case Nil
  then show ?case using slot_step_none by fastforce
next
  case (Cons i slots)
  obtain r e1 where r: "process_slot0 ec raw i e = (Inr r, e1)" "slot_step c n gpu e (case r of None \<Rightarrow> [] | Some x \<Rightarrow> [x]) e1"
    using process_slot0_ok [OF Cons.prems(1), of i raw ec] Cons.prems(2) by auto
  have "rm_part c n gpu (e0_rm e1)" using r(2) by (simp add: slot_step_def)
  then obtain rs e' where rs: "process_slots0 ec raw slots (acc @ (case r of None \<Rightarrow> [] | Some x \<Rightarrow> [x])) e1
      = (Inr ((acc @ (case r of None \<Rightarrow> [] | Some x \<Rightarrow> [x])) @ rs), e')" "slot_step c n gpu e1 rs e'"
    using Cons.IH [of e1] Cons.prems(2) by (meson list.set_intros(2))
  show ?case using r(1) rs(1) slot_step_trans [OF r(2) rs(2)]
    by (cases r) auto
qed

text \<open>Results reach the scheduler for requests that wait for one.\<close>

lemma answered_put:
  assumes "local_ok s" "out_id r \<in> set (ids s)"
  shows "answered (put_result r s) = answered s \<union> (if out_finished r then {out_id r} else {})"
proof -
  have d: "distinct (map fst (ls_responses s))" by (rule local_okD(5) [OF assms(1)])
  have k: "map_of (ls_requests s) (out_id r) \<noteq> None"
    using assms local_okD(3) [OF assms(1)] by (simp add: map_of_eq_None_iff)
  let ?old = "case map_of (ls_responses s) (out_id r) of None \<Rightarrow> [] | Some os \<Rightarrow> os"
  let ?new = "AList.update (out_id r) (?old @ [r]) (ls_responses s)"
  have new: "ls_responses (put_result r s) = ?new" using k by (auto simp: put_result_def)
  have m: "map_of ?new = (map_of (ls_responses s))(out_id r \<mapsto> ?old @ [r])" by (simp add: update_conv')
  have a: "answered s = {i. \<exists>rs. map_of (ls_responses s) i = Some rs \<and> list_ex out_finished rs}"
    unfolding answered_def using d by simp
  have "answered (put_result r s) = {i. \<exists>rs. map_of ?new i = Some rs \<and> list_ex out_finished rs}"
    unfolding answered_def new using distinct_update [OF d, of "out_id r" "?old @ [r]"] by simp
  also have "\<dots> = answered s \<union> (if out_finished r then {out_id r} else {})"
    unfolding m a by (auto split: option.splits if_splits)
  finally show ?thesis .
qed

lemma put_result_kept:
  assumes "local_ok s" "out_id r \<in> set (in_flight s)"
  shows "local_ok (put_result r s)" "pending (put_result r s) = pending s" "in_flight (put_result r s) = in_flight s"
    "answered (put_result r s) = answered s \<union> (if out_finished r then {out_id r} else {})"
proof -
  have d: "distinct (in_flight s @ pending s)" unfolding queues_append by (rule local_okD(1) [OF assms(1)])
  then have "out_id r \<notin> set (pending s)" using assms(2) unfolding distinct_append by blast
  then show "local_ok (put_result r s)" "pending (put_result r s) = pending s" "in_flight (put_result r s) = in_flight s"
    using put_result_effect [OF assms(1)] by blast+
  have "out_id r \<in> set (ids s)" using assms(2) queues_append [of s] by (metis UnI1 set_append)
  then show "answered (put_result r s) = answered s \<union> (if out_finished r then {out_id r} else {})" by (rule answered_put [OF assms(1)])
qed

lemma put_results_kept:
  assumes "local_ok s" "\<forall>r \<in> set rs. tp_request_id r \<in> set (in_flight s)"
  shows "local_ok (put_results (map result_response rs) s) \<and> pending (put_results (map result_response rs) s) = pending s \<and>
    in_flight (put_results (map result_response rs) s) = in_flight s \<and>
    answered (put_results (map result_response rs) s) = answered s \<union> set (finished_ids rs)"
  using assms
proof (induction rs arbitrary: s)
  case Nil
  then show ?case by (simp add: put_results_def finished_ids_def)
next
  case (Cons r rs)
  have id: "out_id (result_response r) = tp_request_id r" "out_finished (result_response r) = tp_finished r"
    by (simp_all add: result_response_def)
  note k = put_result_kept [OF Cons.prems(1), of "result_response r", unfolded id]
  have i: "tp_request_id r \<in> set (in_flight s)" using Cons.prems(2) by simp
  show ?case using Cons.IH [OF k(1) [OF i]] Cons.prems(2) k [OF i]
    by (auto simp: put_results_def finished_ids_def)
qed

lemma sched_part_results:
  assumes "sched_part ec s" "\<forall>r \<in> set rs. tp_request_id r \<in> unanswered s" "mset_set (unanswered s) = M + mset (finished_ids rs)"
  shows "sched_part ec (put_results (map result_response rs) s)" "pending (put_results (map result_response rs) s) = pending s"
    "mset_set (unanswered (put_results (map result_response rs) s)) = M"
proof -
  let ?s = "put_results (map result_response rs) s"
  have "\<forall>r \<in> set rs. tp_request_id r \<in> set (in_flight s)" using assms(2) by (simp add: unanswered_def)
  then have k: "local_ok ?s" "pending ?s = pending s" "in_flight ?s = in_flight s" "answered ?s = answered s \<union> set (finished_ids rs)"
    using put_results_kept assms(1) by (auto simp: sched_part_def)
  show "pending ?s = pending s" by (rule k(2))
  show "sched_part ec ?s"
    using k(1) assms(1) hold_put_results [of plain_request "map result_response rs" s] conf_put_results [of "map result_response rs" s]
    by (simp add: sched_part_def)
  have u: "unanswered ?s = unanswered s - set (finished_ids rs)" using k(3,4) by (auto simp: unanswered_def)
  have sub: "set (finished_ids rs) \<subseteq> unanswered s" using assms(2) by (auto simp: finished_ids_def)
  have "distinct (finished_ids rs)"
    unfolding distinct_count_atmost_1
  proof
    fix i
    have "count (mset_set (unanswered s)) i = count M i + count (mset (finished_ids rs)) i" using assms(3) by simp
    moreover have "count (mset_set (unanswered s)) i \<le> 1" by (cases "i \<in> unanswered s") simp_all
    ultimately have "count (mset (finished_ids rs)) i \<le> 1" by simp
    moreover have "count (mset (finished_ids rs)) i = 0 \<longleftrightarrow> i \<notin> set (finished_ids rs)" by (rule count_mset_0_iff)
    ultimately show "count (mset (finished_ids rs)) i = (if i \<in> set (finished_ids rs) then 1 else 0)"
      by (metis One_nat_def le_SucE le_zero_eq)
  qed
  then have "mset (finished_ids rs) = mset_set (set (finished_ids rs))" by (simp add: mset_set_set)
  then show "mset_set (unanswered ?s) = M" unfolding u using assms(3) mset_set_Diff [OF _ sub] by simp
qed

subsection \<open>Every step keeps the invariant\<close>

lemma process_batch0_ok:
  assumes "engine0_inv c n gpu ec acc batches got e" "buffer_ok n raw"
  shows "\<exists>e'. process_batch0 ec raw e = (Inr (), e') \<and> engine0_inv c n gpu ec acc batches got e'"
proof -
  have inv: "rm_part c n gpu (e0_rm e)" "sched_part ec (e0_sched e)" "conn_part batches got (e0_conn e)"
    "slot_ids (tasks_list (e0_rm e)) = mset_set (unanswered (e0_sched e))" "acc = batch_ids batches @ pending (e0_sched e)"
    using assms(1) by (simp_all add: engine0_inv_def)
  have b: "py_nth raw 1 = Inr (raw ! 1)" using assms(2) by (simp add: py_nth_def buffer_ok_def)
  have fit: "\<forall>i \<in> set [0..<nat (raw ! 1)]. i < n \<and> i + 2 < length raw" using assms(2) by (auto simp: buffer_ok_def)
  obtain rs e1 where r: "process_slots0 ec raw [0..<nat (raw ! 1)] [] e = (Inr rs, e1)" "slot_step c n gpu e rs e1"
    using process_slots0_ok [OF inv(1) fit, of ec "[]"] by auto
  let ?e' = "e1\<lparr>e0_sched := put_results (map result_response rs) (e0_sched e1)\<rparr>"
  have s: "rm_part c n gpu (e0_rm e1)" "e0_sched e1 = e0_sched e" "e0_conn e1 = e0_conn e"
    "mset_set (unanswered (e0_sched e)) = slot_ids (tasks_list (e0_rm e1)) + mset (finished_ids rs)"
    "\<forall>x \<in> set rs. tp_request_id x \<in> unanswered (e0_sched e)"
    using r(2) inv(4) by (simp_all add: slot_step_def)
  note p = sched_part_results [OF inv(2) s(5,4)]
  have "process_batch0 ec raw e = (Inr (), ?e')" using b r(1) by (simp add: process_batch0_def)
  moreover have "engine0_inv c n gpu ec acc batches got ?e'"
    using s(1,2,3) p inv(3,5) by (simp add: engine0_inv_def)
  ultimately show ?thesis by blast
qed

lemma engine0_inv_init:
  assumes "0 < workers"
  shows "engine0_inv c n gpu ec [] [] (\<lambda>_. [])
    (init_engine0 (init_local cap life (e0_chunked_prefill ec) (int (e0_max_partial ec)) l th) c n gpu cpu workers place)"
proof -
  have empty: "slot_ids (replicate n None) = {#}" "busy_blocks (replicate n None) = {#}"
    by (induction n) (simp_all add: slot_ids_def busy_blocks_def)
  have "rm_part c n gpu (init_rm c n False (init_pcm gpu cpu False) :: Request rm)"
    using empty(2) rm_reachable_inv [OF rm_init, of c n gpu cpu]
    by (simp add: rm_part_def all_plain_def init_rm_def)
  moreover have "num_cache_infos (init_worker_queue workers) = 0" by (simp add: num_cache_infos_def init_worker_queue_def)
  ultimately show ?thesis
    using init_delivered(1) [OF assms] empty(1)
    by (simp add: engine0_inv_def init_engine0_def sched_part_def conn_part_def all_hold_def init_local_def
        unanswered_def in_flight_def init_rm_def chunk_conf_def
        local_ok_init [unfolded init_local_def])
qed

lemma engine0_run_inv:
  assumes "engine0_run c n gpu ec acc batches got e" "plain_config ec c"
  shows "engine0_inv c n gpu ec acc batches got e"
  using assms(1)
proof (induction rule: engine0_run.induct)
  case (p_init workers cap life l th cpu place)
  then show ?case by (rule engine0_inv_init)
next
  case (p_put acc batches got e rs now res sc)
  have s: "sched_part ec (e0_sched e)" using p_put.IH by (simp add: engine0_inv_def)
  then have ok: "local_ok (e0_sched e)" by (simp add: sched_part_def)
  obtain res' s' where p: "put_requests now rs (e0_sched e) = (Inr res', s')"
    "pending s' = pending (e0_sched e) @ map fst (filter (\<lambda>(i, x). x = None) res')"
    by (rule put_requests_effect [OF ok, of now rs])
  then have e: "res' = res" "s' = sc" using p_put.hyps(3) by simp_all
  show ?case
    using sched_part_put [OF s p_put.hyps(2), of now] p_put.hyps(3) p_put.IH p(2) unfolding e
    by (simp add: engine0_inv_def)
next
  case (p_collect acc batches got e)
  have s: "sched_part ec (e0_sched e)" using p_collect.IH by (simp add: engine0_inv_def)
  then have ok: "local_ok (e0_sched e)" by (simp add: sched_part_def)
  have "pending (snd (get_results (e0_sched e))) = pending (e0_sched e)" by (rule get_results_effect [OF ok]) simp
  then show ?case using sched_part_collect [OF s] p_collect.IH by (simp add: engine0_inv_def)
next
  case (p_insert acc batches got e H now rnd signal tasks e')
  then show ?case using insert_pass_ok [OF p_insert.IH assms(2), of H now rnd signal] by auto
next
  case (p_work acc batches got e w b fin q)
  have "tq.delivered batches got (cn_queue (e0_conn e))" using p_work.IH by (simp add: engine0_inv_def conn_part_def)
  then have "tq.delivered batches (got(w := got w @ [b])) q"
    by (rule tq.delivered_recv) (use p_work.hyps in \<open>auto simp: tasks_recv_def\<close>)
  moreover have "num_cache_infos q = num_cache_infos (cn_queue (e0_conn e))"
    using p_work.hyps(4) by (auto simp: get_tasks_def Let_def num_cache_infos_def)
  ultimately show ?case using p_work.IH by (simp add: engine0_inv_def conn_part_def fun_upd_def)
next
  case (p_output acc batches got e raw)
  then show ?case using process_batch0_ok [OF p_output.IH p_output.hyps(2)] by auto
qed

subsection \<open>What the runs guarantee\<close>

text \<open>C1: an instance with the first resource manager in the role \<open>mixed\<close>, without prefix caching and configured as in
  \<open>plain_config\<close> (blocks are not empty, the tokens reserved for decoding fit into the reserved blocks, and with chunked prefill
  the token budget has a block for each partial prefill), on text requests with a nonempty prompt and without disaggregation
  information, gives the workers the requests in the order in which the scheduler accepted them, each once: what any worker
  has read so far, batch after batch, by calls with its read flag clear, is an initial part of the accepted ids, however the passes of the
  threads interleave.\<close>

theorem workers_read_in_order:
  assumes "engine0_run c n gpu ec acc batches got e" "plain_config ec c" "w < num_client (cn_queue (e0_conn e))"
  shows "prefix (batch_ids (got w)) acc"
proof -
  have inv: "conn_part batches got (e0_conn e)" "acc = batch_ids batches @ pending (e0_sched e)"
    using engine0_run_inv [OF assms(1,2)] by (simp_all add: engine0_inv_def)
  obtain k where k: "got w = take k batches"
    using tq.deliveredD(1) [OF _ assms(3)] inv(1) by (auto simp: conn_part_def)
  have "batch_ids batches = batch_ids (take k batches) @ batch_ids (drop k batches)"
    by (simp add: batch_ids_simps(2) [symmetric])
  then show ?thesis by (simp add: k inv(2))
qed

text \<open>C2: in the same runs (role \<open>mixed\<close>, no prefix caching, \<open>plain_config\<close>, plain text requests, workers that read when their flag is
  clear), each request the engine with the first resource manager has taken from the scheduler is in exactly one slot until its last
  result waits for the front end, and no slot holds anything else: the ids in the slots are, each once, those in
  flight whose last result has not been put.\<close>

theorem slots_hold_unanswered:
  assumes "engine0_run c n gpu ec acc batches got e" "plain_config ec c"
  shows "slot_ids (tasks_list (e0_rm e)) = mset_set (set (in_flight (e0_sched e)) - answered (e0_sched e))"
  using engine0_run_inv [OF assms] by (simp add: engine0_inv_def unanswered_def)

text \<open>C3: in every state of the same runs (role \<open>mixed\<close>, no prefix caching, \<open>plain_config\<close>, plain text requests, workers that read when
  their flag is clear) a pass of the thread that inserts tasks returns, whatever the workers report: it takes the head of
  the queue of the scheduler, gives each request taken a slot of its own and exactly the blocks it needs, and puts
  them to the workers as one batch, in order. No exception, no wait for a slot, for blocks or for the workers.\<close>

theorem insert_pass_hands_on:
  assumes "engine0_run c n gpu ec acc batches got e" "plain_config ec c"
  shows "\<exists>tasks e'. insert_pass H now rnd ec signal e = (Inr tasks, e') \<and>
    pending (e0_sched e) = map request_id tasks @ pending (e0_sched e') \<and>
    (tasks \<noteq> [] \<longrightarrow>
       (\<exists>ts. list_all2 (admitted c) tasks ts \<and> placed ts (e0_rm e') \<and>
          wq_tasks (cn_queue (e0_conn e')) = [(ts, real_bsz (e0_rm e'))]))"
  using insert_pass_ok [OF engine0_run_inv [OF assms] assms(2), of H now rnd signal] unfolding handed_on_def by blast

lemma pass_takes_head:
  assumes "engine0_inv c n gpu ec acc batches got e" "plain_config ec c"
    "pending (e0_sched e) = rid # rest" "map_of (ls_requests (e0_sched e)) rid = Some r"
    "0 < available_batch (e0_rm e)" "num_tasks (cn_queue (e0_conn e)) = 0" "1 \<le> e0_prefill_batch ec"
    "calc_required_blocks (prompt_len r) (int (block_size c)) + e0_enc_dec_blocks ec \<le> available_block_num (e0_rm e)"
    "e0_enc_dec_blocks ec < available_block_num (e0_rm e)"
    "\<not> e0_chunked_prefill ec \<longrightarrow> prompt_len r \<le> e0_max_batched_tokens ec"
    "e0_chunked_prefill ec \<longrightarrow> 1 \<le> e0_max_partial ec \<and> 1 \<le> max_long_partial_prefills (e0_sched e)"
  shows "\<exists>tasks e'. insert_pass H now rnd ec 0 e = (Inr (lr_raw r # tasks), e') \<and> handed_on c (lr_raw r # tasks) e e' \<and>
    engine0_inv c n gpu ec acc (batches @ wq_tasks (cn_queue (e0_conn e'))) got e'"
proof -
  obtain tasks e' where p: "insert_pass H now rnd ec 0 e = (Inr tasks, e')" "handed_on c tasks e e'"
    "engine0_inv c n gpu ec acc (if tasks = [] then batches else batches @ wq_tasks (cn_queue (e0_conn e'))) got e'"
    using insert_pass_ok [OF assms(1,2), of H now rnd 0] by blast
  have inv: "rm_part c n gpu (e0_rm e)" "sched_part ec (e0_sched e)" "conn_part batches got (e0_conn e)"
    using assms(1) by (simp_all add: engine0_inv_def)
  have bs: "int (block_size c) \<noteq> 0" using assms(2) by (simp add: plain_config_def)
  have ok: "local_ok (e0_sched e)" and conf: "enable_chunked_prefill (e0_sched e) = e0_chunked_prefill ec"
    "max_num_partial_prefills (e0_sched e) = int (e0_max_partial ec)"
    using inv(2) by (simp_all add: sched_part_def chunk_conf_def)
  let ?batch = "min (int (available_batch (e0_rm e))) (e0_prefill_batch ec)"
  obtain rs sc where g: "get_requests (available_block_num (e0_rm e)) (int (block_size c)) (e0_enc_dec_blocks ec)
      (e0_max_batched_tokens ec) ?batch (e0_sched e) = (Inr (lr_raw r # rs), sc)"
    using head_taken [OF ok assms(3,4) bs, of ?batch "e0_enc_dec_blocks ec" "available_block_num (e0_rm e)" "e0_max_batched_tokens ec"]
      assms(5,7-11) conf by auto
  have f: "lift_rm check_and_free_block_tables e = (Inr (), e)" "cfg (e0_rm e) = c"
    using inv(1) by (simp_all add: lift_rm_def check_and_free_block_tables_def rm_part_def rm_plain_def)
  have i: "insert_pass H now rnd ec 0 e = fetch_and_insert H now rnd ec e"
    using assms(5,6) inv(3) by (simp add: insert_pass_def prefill_busy_def conn_part_def)
  have "tasks = lr_raw r # rs"
    using p(1) assms(2) unfolding i fetch_and_insert_def Let_def f andthen_simps g
    by (auto simp: plain_config_def andthen_def split: prod.splits sum.splits)
  then show ?thesis using p by auto
qed

text \<open>C4: in every state of the same runs (role \<open>mixed\<close>, no prefix caching, \<open>plain_config\<close>, plain text requests, workers that read when
  their flag is clear) the first waiting request reaches the workers in the next pass, as the first of the batch, once a slot is free, the
  workers have read the last batch and run no prefill (their signal is 0), and its blocks with the reserve for decoding are
  available, with more blocks available than the reserve: provided that a prefill batch may have a request, that without chunked prefill the prompt fits into
  the token budget, and that with it a partial prefill and a long one are allowed.\<close>

theorem head_request_starts:
  assumes "engine0_run c n gpu ec acc batches got e" "plain_config ec c"
    "pending (e0_sched e) = rid # rest" "map_of (ls_requests (e0_sched e)) rid = Some r"
    "0 < available_batch (e0_rm e)" "num_tasks (cn_queue (e0_conn e)) = 0" "1 \<le> e0_prefill_batch ec"
    "calc_required_blocks (prompt_len r) (int (block_size c)) + e0_enc_dec_blocks ec \<le> available_block_num (e0_rm e)"
    "e0_enc_dec_blocks ec < available_block_num (e0_rm e)"
    "\<not> e0_chunked_prefill ec \<longrightarrow> prompt_len r \<le> e0_max_batched_tokens ec"
    "e0_chunked_prefill ec \<longrightarrow> 1 \<le> e0_max_partial ec \<and> 1 \<le> max_long_partial_prefills (e0_sched e)"
  shows "\<exists>tasks e' t ts k. insert_pass H now rnd ec 0 e = (Inr tasks, e') \<and>
    wq_tasks (cn_queue (e0_conn e')) = [(t # ts, k)] \<and> request_id t = rid"
proof -
  have inv: "engine0_inv c n gpu ec acc batches got e" by (rule engine0_run_inv [OF assms(1,2)])
  obtain tasks e' where p: "insert_pass H now rnd ec 0 e = (Inr (lr_raw r # tasks), e')" "handed_on c (lr_raw r # tasks) e e'"
    using pass_takes_head [OF inv assms(2-11), of H now rnd] by blast
  have "request_id (lr_raw r) = rid" using p(2) assms(3) by (simp add: handed_on_def)
  then show ?thesis using p by (auto simp: handed_on_def admitted_def list_all2_Cons1)
qed

subsection \<open>An engine with two slots and one worker\<close>

abbreviation (input) two_config :: engine0_config where
  "two_config \<equiv>
     \<lparr>e0_split = \<lparr>innode_prefill_ports = None, own_port = 0, sc_device_ids = [], sc_host_ip = [], own_rdma_ports = [], pd_changeable = False\<rparr>,
      splitwise_role = ''mixed'', scheduler_name = ''local'', draft_model = False, e0_chunked_prefill = False,
      e0_max_batched_tokens = 100, e0_max_partial = 1, e0_prefill_batch = 2, e0_enc_dec_blocks = 1\<rparr>"

abbreviation (input) two_queued :: "tp_result local_sched" where
  "two_queued \<equiv> snd (put_requests 0 [small_task ''a'', small_task ''b''] (init_local 10 100 False 1 1 100))"

abbreviation (input) two_place :: cache_place where
  "two_place \<equiv> \<lparr>ipc_part = None, rdma_part = None\<rparr>"

definition two_engine :: engine0 where
  "two_engine = (init_engine0 (init_local 10 100 False 1 1 100) small_cfg 2 8 0 1 two_place)\<lparr>e0_sched := two_queued\<rparr>"

lemma two_plain: "plain_config two_config small_cfg"
  by (simp add: plain_config_def)

lemma two_run: "engine0_run small_cfg 2 8 two_config [''a'', ''b''] [] (\<lambda>_. []) two_engine"
proof -
  have i: "engine0_run small_cfg 2 8 two_config [] [] (\<lambda>_. []) (init_engine0 (init_local 10 100 False 1 1 100) small_cfg 2 8 0 1 two_place)"
    using p_init [of 1 small_cfg 2 8 two_config 10 100 1 100 0 two_place] by simp
  have p: "put_requests 0 [small_task ''a'', small_task ''b''] (e0_sched (init_engine0 (init_local 10 100 False 1 1 100) small_cfg 2 8 0 1 two_place))
      = (Inr [(''a'', None), (''b'', None)], two_queued)"
    unfolding init_engine0_def engine0.simps by (intro prod_eqI) (simp_all, code_simp)
  have "\<forall>t \<in> set [small_task ''a'', small_task ''b'']. plain_request t" by (simp add: plain_request_def new_Request_def)
  from p_put [OF i this p] show ?thesis by (simp add: two_engine_def)
qed

lemma two_fields:
  "e0_rm two_engine = init_rm small_cfg 2 False (init_pcm 8 0 False)" "e0_sched two_engine = two_queued"
  "cn_queue (e0_conn two_engine) = init_worker_queue 1"
  by (simp_all add: two_engine_def init_engine0_def)

lemma two_pending: "pending two_queued = [''a'', ''b'']"
  by code_simp

lemma two_stored: "map_of (ls_requests two_queued) ''a'' = Some \<lparr>lr_raw = small_task ''a'', lr_schedule_time = 0\<rparr>"
  by code_simp

lemma two_resources:
  "available_batch (init_rm small_cfg 2 False (init_pcm 8 0 False) :: Request rm) = 2"
  "available_block_num (init_rm small_cfg 2 False (init_pcm 8 0 False) :: Request rm) = 8"
  "num_tasks (init_worker_queue 1 :: ewq) = 0"
  by (simp_all add: available_batch_def available_block_num_def init_rm_def init_pcm_def heapify_def num_tasks_def init_worker_queue_def)

lemma two_facts:
  "pending (e0_sched two_engine) = [''a'', ''b'']"
  "map_of (ls_requests (e0_sched two_engine)) ''a'' = Some \<lparr>lr_raw = small_task ''a'', lr_schedule_time = 0\<rparr>"
  "available_batch (e0_rm two_engine) = 2" "available_block_num (e0_rm two_engine) = 8"
  "num_tasks (cn_queue (e0_conn two_engine)) = 0"
  unfolding two_fields by (rule two_pending two_stored two_resources)+

lemma two_len: "prompt_len \<lparr>lr_raw = small_task ''a'', lr_schedule_time = 0\<rparr> = 3"
  by (simp add: prompt_len_def new_Request_def)

lemma two_blocks: "calc_required_blocks 3 (int (block_size small_cfg)) + 1 = 3"
  by (simp add: calc_required_blocks_def)

theorem insert_pass_hands_on_witness:
  "\<exists>tasks e'. insert_pass sum_list 0 (\<lambda>_. 7) two_config 0 two_engine = (Inr tasks, e')"
  using insert_pass_hands_on [OF two_run two_plain, of sum_list 0 "\<lambda>_. 7" 0] by blast

theorem head_request_starts_witness:
  "\<exists>tasks e' t ts k. insert_pass sum_list 0 (\<lambda>_. 7) two_config 0 two_engine = (Inr tasks, e') \<and>
    wq_tasks (cn_queue (e0_conn e')) = [(t # ts, k)] \<and> request_id t = ''a''"
  by (rule head_request_starts [OF two_run two_plain two_facts(1,2)])
     (simp_all only: two_facts(3-5) two_len two_blocks engine0_config.simps, simp_all)

text \<open>The state after a pass, and after the worker has read its batch.\<close>

lemma two_passed:
  "\<exists>e ts k. engine0_run small_cfg 2 8 two_config [''a'', ''b''] [(ts, k)] (\<lambda>_. []) e \<and> ts \<noteq> [] \<and> wq_tasks (cn_queue (e0_conn e)) = [(ts, k)]"
proof -
  have inv: "engine0_inv small_cfg 2 8 two_config [''a'', ''b''] [] (\<lambda>_. []) two_engine" by (rule engine0_run_inv [OF two_run two_plain])
  obtain tasks e' where p: "insert_pass sum_list 0 (\<lambda>_. 7) two_config 0 two_engine = (Inr (small_task ''a'' # tasks), e')"
    "handed_on small_cfg (small_task ''a'' # tasks) two_engine e'"
    using pass_takes_head [OF inv two_plain two_facts(1,2), of sum_list 0 "\<lambda>_. 7"]
    unfolding two_facts(3-5) two_len two_blocks engine0_config.simps by auto
  obtain ts where ts: "list_all2 (admitted small_cfg) (small_task ''a'' # tasks) ts"
    "wq_tasks (cn_queue (e0_conn e')) = [(ts, real_bsz (e0_rm e'))]" using p(2) by (auto simp: handed_on_def)
  have "ts \<noteq> []" using ts(1) by auto
  moreover have "engine0_run small_cfg 2 8 two_config [''a'', ''b''] [(ts, real_bsz (e0_rm e'))] (\<lambda>_. []) e'"
    using p_insert [OF two_run p(1)] ts(2) by simp
  ultimately show ?thesis using ts(2) by blast
qed

lemma two_read:
  "\<exists>e ts k. engine0_run small_cfg 2 8 two_config [''a'', ''b''] [(ts, k)] ((\<lambda>_. [])(0 := [(ts, k)])) e \<and> ts \<noteq> [] \<and>
    0 < num_client (cn_queue (e0_conn e))"
proof -
  obtain e ts k where e: "engine0_run small_cfg 2 8 two_config [''a'', ''b''] [(ts, k)] (\<lambda>_. []) e" "ts \<noteq> []"
    "wq_tasks (cn_queue (e0_conn e)) = [(ts, k)]" using two_passed by blast
  let ?q = "cn_queue (e0_conn e)"
  have d: "tq.delivered [(ts, k)] (\<lambda>_. []) ?q"
    using engine0_run_inv [OF e(1) two_plain] by (simp add: engine0_inv_def conn_part_def)
  then have wf: "tasks_wf ?q" "0 \<notin> tasks_readers ?q"
    unfolding tq.delivered_def using e(3) by (auto simp: tasks_wf_def split: if_splits)
  then have n: "0 < num_client ?q" "client_read_flag ?q ! 0 = 0"
    using e(3) by (auto simp: tasks_wf_def tasks_readers_def current_readers_def readers_of_def flags_ok_def split: if_splits)
  obtain fin q where g: "get_tasks 0 ?q = (([(ts, k)], fin), q)" using e(3) by (simp add: get_tasks_def Let_def)
  then have "num_client q = num_client ?q" by (auto simp: get_tasks_def Let_def)
  then show ?thesis using p_work [OF e(1) n g] e(2) n(1)
    by (intro exI [of _ "e\<lparr>e0_conn := (e0_conn e)\<lparr>cn_queue := q\<rparr>\<rparr>"] exI [of _ ts] exI [of _ k]) simp
qed

theorem workers_read_in_order_witness: "\<exists>ts k. ts \<noteq> [] \<and> prefix (batch_ids [(ts, k)]) [''a'', ''b'']"
proof -
  obtain e ts k where e: "engine0_run small_cfg 2 8 two_config [''a'', ''b''] [(ts, k)] ((\<lambda>_. [])(0 := [(ts, k)])) e" "ts \<noteq> []"
    "0 < num_client (cn_queue (e0_conn e))" using two_read by blast
  from workers_read_in_order [OF e(1) two_plain e(3)] e(2) show ?thesis by auto
qed

theorem slots_hold_unanswered_witness:
  "\<exists>(e :: engine0) ts k. ts \<noteq> [] \<and> wq_tasks (cn_queue (e0_conn e)) = [(ts, k)] \<and>
    slot_ids (tasks_list (e0_rm e)) = mset_set (set (in_flight (e0_sched e)) - answered (e0_sched e))"
proof -
  obtain e ts k where e: "engine0_run small_cfg 2 8 two_config [''a'', ''b''] [(ts, k)] (\<lambda>_. []) e" "ts \<noteq> []"
    "wq_tasks (cn_queue (e0_conn e)) = [(ts, k)]" using two_passed by blast
  show ?thesis
    by (rule exI [of _ e], rule exI [of _ ts], rule exI [of _ k])
       (intro conjI e(2,3) slots_hold_unanswered [OF e(1) two_plain])
qed

end
