(* ===== verification/SplitClaims.thy ===== *)
theory SplitClaims
  imports PlainEngineRun
begin

text \<open>What an instance that prefills tells the one that decodes.\<close>

lemma received_never_fails:
  "insert_one_token ec (received_token r) f = (Inr u, f') \<Longrightarrow> u \<noteq> None"
  by (auto simp: insert_one_token_def received_token_def Let_def split: option.splits if_splits list.splits)

lemma prefill_outcome:
  assumes "recycle_prefill0 rid i t d res e = (Inr res1, e')" "transfer_protocol d \<noteq> ''ipc''" "rdma_part (cache_place d) = Some p"
  shows "sent (e0_conn e') = sent (e0_conn e) @ [(rdma_addr p, DecodeMsg [res])]"
    "e0_status e' rid \<noteq> Some ''finished'' \<Longrightarrow> tp_error_code res1 = 400"
  using assms
  by (auto simp: recycle_prefill0_def Let_def send_first_token_def send_message_def lift_conn_def rdma_addr_def read_finished_def
      andthen_def split: option.splits prod.splits sum.splits if_splits)

text \<open>C37: with the splitwise scheduler, a protocol other than ipc and the address of the decoding instance known, when the result of
  sending the cache of a prefilled request is not \<open>finished\<close>, the prefilling instance marks its own result with an error, but the first token it has sent to
  the decoding instance before has the code of success, and the decoding instance inserts every first token that reaches it by a message
  if the insertion returns: the request is decoded on blocks whose contents never arrived.\<close>

theorem failed_prefill_is_decoded:
  assumes "emit_token0 ec i tok t e = (Inr x, e')" "scheduler_name ec = ''splitwise''"
    "disaggregate_info t = Some d" "role d = ''prefill''" "transfer_protocol d \<noteq> ''ipc''" "rdma_part (cache_place d) = Some p"
    "e0_status e' (request_id t) \<noteq> Some ''finished''"
  shows "\<exists>y r. x = Some y \<and> tp_error_code y = 400 \<and> sent (e0_conn e') = sent (e0_conn e) @ [(rdma_addr p, DecodeMsg [r])] \<and>
    tp_request_id r = request_id t \<and> tp_error_code r = 200 \<and>
    (\<forall>dc f u f'. insert_one_token dc (received_token r) f = (Inr u, f') \<longrightarrow> u \<noteq> None)"
proof -
  let ?stop = "tok = RECOVERY_STOP_SIGNAL" and ?rid = "request_id t"
  let ?t1 = "if ?stop then t else t\<lparr>output_token_ids := output_token_ids t @ [tok]\<rparr>"
  let ?res = "(first_result i t (e0_counter e ?rid))\<lparr>tp_token_ids := (if ?stop then [] else [tok])\<rparr>"
  let ?r = "?res\<lparr>tp_finished := True, tp_error_msg := (if ?stop then Some ''Recover is not supported, the result is incomplete!''
    else tp_error_msg ?res)\<rparr>"
  let ?e1 = "e\<lparr>e0_rm := (e0_rm e)\<lparr>tasks_list := (tasks_list (e0_rm e))[i := Some ?t1]\<rparr>,
    e0_counter := (e0_counter e)(?rid := e0_counter e ?rid + 1)\<rparr>"
  have dis: "disaggregate_info ?t1 = Some d" "request_id ?t1 = ?rid" and pre: "is_prefill_role t"
    using assms(3,4) by (simp_all add: is_prefill_role_def)
  obtain y e2 where p: "recycle_prefill0 ?rid i ?t1 d ?r ?e1 = (Inr y, e2)" "x = Some y"
    "e' = e2\<lparr>e0_counter := (e0_counter e2)(?rid := 0)\<rparr>"
    using assms(1,2,4) pre dis unfolding emit_token0_def Let_def recycle_resources0_def
    by (auto simp: andthen_def split: prod.splits sum.splits)
  note out = prefill_outcome [OF p(1) assms(5,6)]
  have "tp_error_code y = 400" using out(2) assms(7) p(3) by simp
  moreover have "sent (e0_conn e') = sent (e0_conn e) @ [(rdma_addr p, DecodeMsg [?r])]" using out(1) p(3) by simp
  moreover have "tp_request_id ?r = ?rid" "tp_error_code ?r = 200" by (simp_all add: first_result_def)
  ultimately show ?thesis using p(2) received_never_fails by (intro exI [of _ y] exI [of _ ?r]) blast
qed

abbreviation (input) split_config0 :: engine0_config where
  "split_config0 \<equiv>
     \<lparr>e0_split = \<lparr>innode_prefill_ports = None, own_port = 0, sc_device_ids = [], sc_host_ip = [], own_rdma_ports = [], pd_changeable = False\<rparr>,
      splitwise_role = ''prefill'', scheduler_name = ''splitwise'', draft_model = False, e0_chunked_prefill = False,
      e0_max_batched_tokens = 100, e0_max_partial = 1, e0_prefill_batch = 2, e0_enc_dec_blocks = 1\<rparr>"

abbreviation (input) split_place :: rdma_place where
  "split_place \<equiv> \<lparr>rdma_ip = ''10.0.0.1'', rdma_port = ''80'', rdma_current_id = None\<rparr>"

abbreviation (input) split_info :: disaggregate where
  "split_info \<equiv>
     \<lparr>role = ''prefill'', shared_block_tables = None, transfer_protocol = ''rdma'',
      cache_place = \<lparr>ipc_part = None, rdma_part = Some split_place\<rparr>\<rparr>"

abbreviation (input) split_task :: Request where
  "split_task \<equiv> (new_Request ''a'' [1, 2, 3] 3 None (Some split_info))\<lparr>idx := Some 0, block_tables := [0, 1, 2]\<rparr>"

definition split_engine :: engine0 where
  "split_engine =
     (let e = init_engine0 (init_local 10 100 False 1 1 100) \<lparr>block_size = 2, dec_token_num = 2, max_block_num_per_seq = 4\<rparr> 1 8 0 1
                \<lparr>ipc_part = None, rdma_part = None\<rparr>
      in e\<lparr>e0_rm := (e0_rm e)\<lparr>stop_flags := [False], tasks_list := [Some split_task], req_dict := [''a'' \<mapsto> 0]\<rparr>,
           e0_conn := (e0_conn e)\<lparr>cn_queue := put_finished_req (PrefillDone ''a'' ''write cache error'') (cn_queue (e0_conn e))\<rparr>\<rparr>)"

lemma split_emits:
  "\<exists>x e'. emit_token0 split_config0 0 5 split_task split_engine = (Inr x, e') \<and> e0_status e' ''a'' = Some ''write cache error''"
  by (simp add: emit_token0_def recycle_resources0_def recycle_prefill0_def split_engine_def init_engine0_def Let_def new_Request_def
      is_prefill_role_def put_finished_req_def init_worker_queue_def done_batch_def lift_conn_def send_first_token_def
      RECOVERY_STOP_SIGNAL_def init_rm_def recycle_slot_def recycle_block_tables_def)

theorem failed_prefill_is_decoded_witness:
  "\<exists>(y :: tp_result) r. tp_error_code y = 400 \<and> tp_request_id r = ''a'' \<and> tp_error_code r = 200 \<and>
    (\<forall>dc f u f'. insert_one_token dc (received_token r) f = (Inr u, f') \<longrightarrow> u \<noteq> None)"
proof -
  obtain x e' where e: "emit_token0 split_config0 0 5 split_task split_engine = (Inr x, e')"
    "e0_status e' ''a'' = Some ''write cache error''" using split_emits by blast
  have f: "disaggregate_info split_task = Some split_info" "request_id split_task = ''a''" by (simp_all add: new_Request_def)
  have st: "e0_status e' (request_id split_task) \<noteq> Some ''finished''" unfolding f(2) e(2) by simp
  have g: "scheduler_name split_config0 = ''splitwise''" "role split_info = ''prefill''" "transfer_protocol split_info \<noteq> ''ipc''"
    "rdma_part (cache_place split_info) = Some split_place" by simp_all
  note h = failed_prefill_is_decoded [OF e(1) g(1) f(1) g(2-4) st, unfolded f(2)]
  then show ?thesis by blast
qed

end
