(* ===== verification/TransferLoop.thy ===== *)
theory TransferLoop
  imports QueueClaims
begin

text \<open>
  The transfer processes of one tensor parallel group, one per rank (\<open>cache_manager/cache_transfer_manager.py\<close>,
  \<open>do_data_transfer\<close>). A signal in shared memory, set by rank 0 and taken back by the last reader of a task, tells all ranks whether a
  task is to be read; three barriers keep them in step. A rank that waits at a barrier moves when all ranks are there; the
  resetting of a barrier all ranks have passed changes nothing. The statements between two accesses to what the ranks share are one step.
\<close>

datatype pc = Top | Bar1 | Check | Fetch | Reset | Bar2 | Bar3

record 't transfer_group =
  tg_queue :: "'t transfer_queue"
  tg_signal :: bool
  tg_pc :: "nat \<Rightarrow> pc"

definition init_group :: "nat \<Rightarrow> 't transfer_group" where
  "init_group n = \<lparr>tg_queue = init_transfer_queue n, tg_signal = False, tg_pc = (\<lambda>_. Top)\<rparr>"

abbreviation goto :: "nat \<Rightarrow> pc \<Rightarrow> 't transfer_group \<Rightarrow> 't transfer_group" where
  "goto r p s \<equiv> s\<lparr>tg_pc := (tg_pc s)(r := p)\<rparr>"

text \<open>
  One step of a rank that is not at a barrier, with the task it takes. Without a task the unpacking of what the queue returned
  raises; the exception is logged and the rank goes back to the top of the loop.
\<close>

definition rank_step :: "nat \<Rightarrow> 't transfer_group \<Rightarrow> ('t option \<times> 't transfer_group) option" where
  "rank_step r s =
     (case tg_pc s r of
        Top \<Rightarrow> Some (None, goto r Bar1 (if r = 0 \<and> \<not> transfer_empty (tg_queue s) then s\<lparr>tg_signal := True\<rparr> else s))
      | Check \<Rightarrow> Some (None, goto r (if tg_signal s then Fetch else Bar2) s)
      | Fetch \<Rightarrow>
          (case get_transfer_task r (tg_queue s) of ((data, read_finish), q) \<Rightarrow>
             Some (data, goto r (case data of None \<Rightarrow> (if read_finish then Reset else Top)
                                 | Some x \<Rightarrow> (if read_finish then Reset else Bar3)) (s\<lparr>tg_queue := q\<rparr>)))
      | Reset \<Rightarrow> Some (None, goto r Bar3 (s\<lparr>tg_signal := False\<rparr>))
      | _ \<Rightarrow> None)"

definition after_barrier :: "pc \<Rightarrow> pc" where
  "after_barrier p = (if p = Bar1 then Check else Top)"

text \<open>All ranks are at one barrier.\<close>

definition pass_barrier :: "'t transfer_group \<Rightarrow> 't transfer_group option" where
  "pass_barrier s =
     (let p = tg_pc s 0 in
      if p \<in> {Bar1, Bar2, Bar3} \<and> (\<forall>r < tr_num_client (tg_queue s). tg_pc s r = p)
      then Some (s\<lparr>tg_pc := (\<lambda>_. after_barrier p)\<rparr>) else None)"

definition stuck :: "'t transfer_group \<Rightarrow> bool" where
  "stuck s = (pass_barrier s = None \<and> (\<forall>r < tr_num_client (tg_queue s). rank_step r s = None))"

text \<open>
  Runs of the group together with the threads that put tasks, as for the queue alone: \<open>sent\<close> are the tasks put, \<open>got\<close> those a rank has
  taken, \<open>waiting\<close> and \<open>leaving\<close> the tasks of putters that wait, \<open>raced\<close> whether one of them put its task over
  another that was half taken.
\<close>

inductive group_run ::
  "'t list \<Rightarrow> (nat \<Rightarrow> 't list) \<Rightarrow> 't list \<Rightarrow> 't list \<Rightarrow> bool \<Rightarrow> 't transfer_group \<Rightarrow> bool" where
  g_init: "0 < n \<Longrightarrow> group_run [] (\<lambda>_. []) [] [] False (init_group n)"
| g_put: "group_run sent got waiting leaving raced s \<Longrightarrow> put_transfer_task x (tg_queue s) = Some q \<Longrightarrow>
    group_run (sent @ [x]) got waiting leaving raced (s\<lparr>tg_queue := q\<rparr>)"
| g_wait: "group_run sent got waiting leaving raced s \<Longrightarrow> put_transfer_task x (tg_queue s) = None \<Longrightarrow>
    group_run sent got (x # waiting) leaving raced s"
| g_leave: "group_run sent got waiting leaving raced s \<Longrightarrow> x \<in> set waiting \<Longrightarrow> \<not> half_taken (tg_queue s) \<Longrightarrow>
    group_run sent got (remove1 x waiting) (x # leaving) raced s"
| g_late_put: "group_run sent got waiting leaving raced s \<Longrightarrow> x \<in> set leaving \<Longrightarrow>
    group_run (sent @ [x]) got waiting (remove1 x leaving) (raced \<or> half_taken (tg_queue s))
      (s\<lparr>tg_queue := append_task x (tg_queue s)\<rparr>)"
| g_rank: "group_run sent got waiting leaving raced s \<Longrightarrow> r < tr_num_client (tg_queue s) \<Longrightarrow> rank_step r s = Some (data, s') \<Longrightarrow>
    group_run sent (got(r := got r @ (case data of None \<Rightarrow> [] | Some x \<Rightarrow> [x]))) waiting leaving raced s'"
| g_pass: "group_run sent got waiting leaving raced s \<Longrightarrow> pass_barrier s = Some s' \<Longrightarrow>
    group_run sent got waiting leaving raced s'"

subsection \<open>The ranks agree\<close>

text \<open>The three phases of a round: on the way to the first barrier; reading a task; finding that there is none.\<close>

definition gathering :: "'t transfer_group \<Rightarrow> bool" where
  "gathering s =
     (let q = tg_queue s in
      (\<forall>r < tr_num_client q. tg_pc s r \<in> {Top, Bar1}) \<and> sync_readers q = {} \<and>
      (tg_signal s \<longrightarrow> tg_pc s 0 = Bar1 \<and> transfer_task_queue q \<noteq> []))"

definition reading :: "'t transfer_group \<Rightarrow> bool" where
  "reading s =
     (let q = tg_queue s in
      (\<forall>r < tr_num_client q. tg_pc s r \<in> {Check, Fetch, Bar3}) \<and> sync_readers q = {r. r < tr_num_client q \<and> tg_pc s r = Bar3} \<and>
      sync_readers q \<noteq> {..<tr_num_client q} \<and> tg_signal s \<and> transfer_task_queue q \<noteq> [])"

definition last_read :: "'t transfer_group \<Rightarrow> bool" where
  "last_read s =
     (let q = tg_queue s in
      sync_readers q = {} \<and>
      (if tg_signal s then \<exists>r < tr_num_client q. tg_pc s r = Reset \<and> (\<forall>c < tr_num_client q. c \<noteq> r \<longrightarrow> tg_pc s c = Bar3)
       else \<forall>r < tr_num_client q. tg_pc s r = Bar3))"

definition idle_round :: "'t transfer_group \<Rightarrow> bool" where
  "idle_round s =
     (let q = tg_queue s in
      (\<forall>r < tr_num_client q. tg_pc s r \<in> {Check, Bar2}) \<and> sync_readers q = {} \<and> \<not> tg_signal s)"

definition in_phase :: "'t transfer_group \<Rightarrow> bool" where
  "in_phase s = (gathering s \<or> reading s \<or> last_read s \<or> idle_round s)"

lemmas phase_defs = gathering_def reading_def last_read_def idle_round_def

lemma phase_append:
  assumes "transfer_wf (tg_queue s)" "transfer_put (tg_queue s) x q" "in_phase s"
  shows "in_phase (s\<lparr>tg_queue := q\<rparr>)"
proof -
  have e: "tr_num_client q = tr_num_client (tg_queue s)" "sync_readers q = sync_readers (tg_queue s)"
    "transfer_task_queue q = transfer_task_queue (tg_queue s) @ [x]" using transfer_put_effect [OF assms(1,2)] by simp_all
  show ?thesis using assms(3) by (auto simp: in_phase_def phase_defs Let_def e)
qed

lemma wf_clients: "transfer_wf q \<Longrightarrow> 0 < tr_num_client q"
  by (cases "tr_num_client q") (auto simp: transfer_wf_def total_num_def)

lemma get_task_some:
  assumes "transfer_wf q" "r < tr_num_client q" "r \<notin> sync_readers q" "transfer_task_queue q \<noteq> []"
  shows "\<exists>read_finish q'. get_transfer_task r q = ((Some (hd (transfer_task_queue q)), read_finish), q') \<and>
    tr_num_client q' = tr_num_client q \<and> (read_finish \<longleftrightarrow> insert r (sync_readers q) = {..<tr_num_client q}) \<and>
    (read_finish \<longrightarrow> sync_readers q' = {}) \<and>
    (\<not> read_finish \<longrightarrow> sync_readers q' = insert r (sync_readers q) \<and> transfer_task_queue q' = transfer_task_queue q)"
proof -
  have nb: "\<not> bit (task_sync_value q) r" using assms(2,3) by (simp add: sync_readers_def)
  obtain fin q' where g: "get_transfer_task r q = ((Some (hd (transfer_task_queue q)), fin), q')"
    "transfer_task_queue q' = (if fin then tl (transfer_task_queue q) else transfer_task_queue q)"
    using assms(4) nb
    by (cases "total_num q \<le> task_sync_value q OR 2 ^ r")
       (simp_all add: get_transfer_task_def Let_def position_def push_bit_of_1 and_exp_eq_0_iff_not_bit)
  have "transfer_recv q r (hd (transfer_task_queue q)) q'" using g(1) assms(2) by (simp add: transfer_recv_def)
  note e = transfer_recv_effect [OF assms(1) this]
  have "tl (transfer_task_queue q) \<noteq> transfer_task_queue q" using assms(4) by (cases "transfer_task_queue q") simp_all
  then have "fin \<longleftrightarrow> insert r (sync_readers q) = {..<tr_num_client q}"
    using e g(2) by (auto split: if_splits)
  then show ?thesis using g e by (auto split: if_splits)
qed

lemma phase_pcs:
  assumes "r < tr_num_client (tg_queue s)"
  shows "gathering s \<Longrightarrow> tg_pc s r = Top \<or> tg_pc s r = Bar1"
    "reading s \<Longrightarrow> tg_pc s r = Check \<or> tg_pc s r = Fetch \<or> tg_pc s r = Bar3"
    "last_read s \<Longrightarrow> tg_pc s r = Reset \<and> tg_signal s \<or> tg_pc s r = Bar3"
    "idle_round s \<Longrightarrow> tg_pc s r = Check \<or> tg_pc s r = Bar2"
proof -
  show "last_read s \<Longrightarrow> tg_pc s r = Reset \<and> tg_signal s \<or> tg_pc s r = Bar3"
    using assms unfolding last_read_def Let_def by (cases "tg_signal s") auto
qed (use assms in \<open>auto simp: gathering_def reading_def idle_round_def Let_def\<close>)

lemma phase_of:
  assumes "in_phase s" "r < tr_num_client (tg_queue s)"
  shows "tg_pc s r = Top \<or> tg_pc s r = Bar1 \<Longrightarrow> gathering s" "tg_pc s r = Check \<Longrightarrow> reading s \<or> idle_round s"
    "tg_pc s r = Fetch \<Longrightarrow> reading s" "tg_pc s r = Reset \<Longrightarrow> last_read s \<and> tg_signal s"
    "tg_pc s r = Bar2 \<Longrightarrow> idle_round s" "tg_pc s r = Bar3 \<Longrightarrow> reading s \<or> last_read s"
  using assms(1) phase_pcs [OF assms(2)] unfolding in_phase_def by force+

lemma phase_top:
  assumes "in_phase s" "tg_pc s r = Top" "r < tr_num_client (tg_queue s)" "rank_step r s = Some (data, s')"
  shows "in_phase s'"
proof -
  have g: "gathering s" using phase_of [OF assms(1,3)] assms(2) by simp
  let ?s = "if r = 0 \<and> \<not> transfer_empty (tg_queue s) then s\<lparr>tg_signal := True\<rparr> else s"
  have s': "s' = goto r Bar1 ?s" using assms(2,4) by (simp add: rank_step_def)
  have "gathering s'" unfolding s' using g assms(2)
    by (auto simp: gathering_def Let_def transfer_empty_def)
  then show ?thesis by (simp add: in_phase_def)
qed

lemma phase_check:
  assumes "in_phase s" "tg_pc s r = Check" "r < tr_num_client (tg_queue s)" "rank_step r s = Some (data, s')"
  shows "in_phase s'"
proof -
  have g: "reading s \<or> idle_round s" using phase_of [OF assms(1,3)] assms(2) by simp
  have s': "s' = goto r (if tg_signal s then Fetch else Bar2) s" using assms(2,4) by (simp add: rank_step_def)
  have "reading s'" if re: "reading s"
  proof -
    have sig: "tg_signal s" using re by (simp add: reading_def Let_def)
    have "{c. c < tr_num_client (tg_queue s) \<and> tg_pc s' c = Bar3} = {c. c < tr_num_client (tg_queue s) \<and> tg_pc s c = Bar3}"
      using assms(2) sig by (intro Collect_cong) (simp add: s')
    moreover have f: "sync_readers (tg_queue s) = {c. c < tr_num_client (tg_queue s) \<and> tg_pc s c = Bar3}"
      "\<forall>c < tr_num_client (tg_queue s). tg_pc s c \<in> {Check, Fetch, Bar3}" "transfer_task_queue (tg_queue s) \<noteq> []"
      "sync_readers (tg_queue s) \<noteq> {..<tr_num_client (tg_queue s)}"
      using re unfolding reading_def Let_def by blast+
    ultimately have readers: "sync_readers (tg_queue s) = {c. c < tr_num_client (tg_queue s) \<and> tg_pc s' c = Bar3}" by simp
    have q: "tg_queue s' = tg_queue s" "tg_signal s'" using sig by (simp_all add: s')
    have pcs: "\<forall>c < tr_num_client (tg_queue s). tg_pc s' c \<in> {Check, Fetch, Bar3}" using f(2) sig by (simp add: s')
    show ?thesis unfolding reading_def Let_def q(1) by (intro conjI pcs readers f(3,4) q(2))
  qed
  moreover have "idle_round s \<Longrightarrow> idle_round s'" unfolding s' by (auto simp: idle_round_def Let_def)
  ultimately show ?thesis using g by (auto simp: in_phase_def)
qed

lemma phase_fetch:
  assumes "in_phase s" "tg_pc s r = Fetch" "r < tr_num_client (tg_queue s)" "transfer_wf (tg_queue s)"
  shows "\<exists>x s'. rank_step r s = Some (Some x, s') \<and> in_phase s' \<and> transfer_recv (tg_queue s) r x (tg_queue s')"
proof -
  let ?q = "tg_queue s"
  have g: "reading s" using phase_of [OF assms(1,3)] assms(2) by simp
  have r: "r \<notin> sync_readers ?q" "transfer_task_queue ?q \<noteq> []" using g assms(2) by (auto simp: reading_def Let_def)
  obtain fin q' where t: "get_transfer_task r ?q = ((Some (hd (transfer_task_queue ?q)), fin), q')" "tr_num_client q' = tr_num_client ?q"
    "fin \<longleftrightarrow> insert r (sync_readers ?q) = {..<tr_num_client ?q}" "fin \<longrightarrow> sync_readers q' = {}"
    "\<not> fin \<longrightarrow> sync_readers q' = insert r (sync_readers ?q) \<and> transfer_task_queue q' = transfer_task_queue ?q"
    using get_task_some [OF assms(4,3) r] by blast
  let ?s' = "goto r (if fin then Reset else Bar3) (s\<lparr>tg_queue := q'\<rparr>)"
  have st: "rank_step r s = Some (Some (hd (transfer_task_queue ?q)), ?s')" using assms(2) t(1) by (simp add: rank_step_def)
  have recv: "transfer_recv ?q r (hd (transfer_task_queue ?q)) q'" using assms(3) t(1) by (simp add: transfer_recv_def)
  have "in_phase ?s'"
  proof (cases fin)
    case True
    then have "\<forall>c < tr_num_client ?q. c \<noteq> r \<longrightarrow> tg_pc s c = Bar3"
      using t(3) g by (auto simp: reading_def Let_def)
    then have "last_read ?s'" using True t(2,4) g assms(3) by (auto simp: last_read_def reading_def Let_def)
    then show ?thesis by (simp add: in_phase_def)
  next
    case False
    have "sync_readers q' = {c. c < tr_num_client q' \<and> tg_pc ?s' c = Bar3}"
      using False t(2,5) g assms(3) by (auto simp: reading_def Let_def)
    then have "reading ?s'" using False t(2,3,5) g by (auto simp: reading_def Let_def)
    then show ?thesis by (simp add: in_phase_def)
  qed
  then show ?thesis using st recv by auto
qed

lemma phase_reset:
  assumes "in_phase s" "tg_pc s r = Reset" "r < tr_num_client (tg_queue s)" "rank_step r s = Some (data, s')"
  shows "in_phase s'"
proof -
  have g: "last_read s" "tg_signal s" using phase_of [OF assms(1,3)] assms(2) by simp_all
  have s': "s' = goto r Bar3 (s\<lparr>tg_signal := False\<rparr>)" using assms(2,4) by (simp add: rank_step_def)
  have "\<exists>r' < tr_num_client (tg_queue s). tg_pc s r' = Reset \<and> (\<forall>c < tr_num_client (tg_queue s). c \<noteq> r' \<longrightarrow> tg_pc s c = Bar3)"
    using g(1) unfolding last_read_def Let_def if_P [OF g(2)] by (rule conjunct2)
  then obtain r' where r': "tg_pc s r' = Reset" "\<forall>c < tr_num_client (tg_queue s). c \<noteq> r' \<longrightarrow> tg_pc s c = Bar3" by blast
  have "r' = r"
  proof (rule ccontr)
    assume "r' \<noteq> r"
    then have "tg_pc s r = Bar3" using r'(2) assms(3) by blast
    then show False using assms(2) by simp
  qed
  then have "\<forall>c < tr_num_client (tg_queue s). tg_pc s' c = Bar3" using r'(2) by (simp add: s')
  then have "last_read s'" using g(1) by (simp add: s' last_read_def Let_def)
  then show ?thesis by (simp add: in_phase_def)
qed

lemma if_Some_iff: "(if c then Some a else None) = Some b \<longleftrightarrow> c \<and> b = a"
  by auto

lemma phase_pass:
  assumes "in_phase s" "pass_barrier s = Some s'" "0 < tr_num_client (tg_queue s)"
  shows "in_phase s'"
proof -
  let ?p = "tg_pc s 0"
  have p: "?p \<in> {Bar1, Bar2, Bar3}" "\<forall>r < tr_num_client (tg_queue s). tg_pc s r = ?p" "s' = s\<lparr>tg_pc := (\<lambda>_. after_barrier ?p)\<rparr>"
    using assms(2) unfolding pass_barrier_def Let_def if_Some_iff by blast+
  have ne: "{} \<noteq> {..<tr_num_client (tg_queue s)}" using assms(3) by auto
  consider (one) "?p = Bar1" | (two) "?p = Bar2" | (three) "?p = Bar3" using p(1) by auto
  then show ?thesis
  proof cases
    case one
    then have "gathering s" using phase_of [OF assms(1,3)] by simp
    then have "reading s' \<or> idle_round s'" using one ne unfolding p(3)
      by (auto simp: gathering_def reading_def idle_round_def Let_def after_barrier_def)
    then show ?thesis by (auto simp: in_phase_def)
  next
    case two
    then have "idle_round s" using phase_of [OF assms(1,3)] by simp
    then have "gathering s'" using two unfolding p(3) by (auto simp: gathering_def idle_round_def Let_def after_barrier_def)
    then show ?thesis by (simp add: in_phase_def)
  next
    case three
    have nr: "\<not> reading s" using three p(2) by (auto simp: reading_def Let_def)
    have "last_read s" using phase_of [OF assms(1,3)] nr three by simp
    then have "\<not> tg_signal s" "sync_readers (tg_queue s) = {}" using three p(2) by (auto simp: last_read_def Let_def split: if_splits)
    then have "gathering s'" using three unfolding p(3) by (simp add: gathering_def Let_def after_barrier_def)
    then show ?thesis by (simp add: in_phase_def)
  qed
qed

lemma group_run_inv:
  "group_run sent got waiting leaving raced s \<Longrightarrow> \<not> raced \<Longrightarrow> tr.delivered sent got (tg_queue s) \<and> in_phase s"
proof (induction rule: group_run.induct)
  case (g_init n)
  have "tr.delivered [] (\<lambda>_. []) (init_transfer_queue n :: 'a transfer_queue)"
    by (rule transfer_run_delivered [OF t_init [OF g_init.hyps]]) simp
  moreover have "gathering (init_group n :: 'a transfer_group)"
    by (simp add: gathering_def Let_def init_group_def init_transfer_queue_def sync_readers_def)
  ultimately show ?case by (simp add: in_phase_def init_group_def)
next
  case (g_put sent got waiting leaving raced s x q)
  then have d: "tr.delivered sent got (tg_queue s)" "in_phase s" by simp_all
  have p: "transfer_put (tg_queue s) x q" using g_put.hyps(2) by (auto simp: put_transfer_task_def transfer_put_def split: if_splits)
  show ?case using tr.delivered_put [OF d(1) p] phase_append [OF _ p d(2)] d(1) by (simp add: tr.delivered_def)
next
  case (g_late_put sent got waiting leaving raced s x)
  then have d: "tr.delivered sent got (tg_queue s)" "in_phase s" by simp_all
  have p: "transfer_put (tg_queue s) x (append_task x (tg_queue s))" using g_late_put.prems by (simp add: transfer_put_def)
  show ?case using tr.delivered_put [OF d(1) p] phase_append [OF _ p d(2)] d(1) by (simp add: tr.delivered_def)
next
  case (g_rank sent got waiting leaving raced s r data s')
  then have d: "tr.delivered sent got (tg_queue s)" "in_phase s" by simp_all
  have wf: "transfer_wf (tg_queue s)" using d(1) by (simp add: tr.delivered_def)
  show ?case
  proof (cases "tg_pc s r = Fetch")
    case True
    obtain x where x: "data = Some x" "in_phase s'" "transfer_recv (tg_queue s) r x (tg_queue s')"
      using phase_fetch [OF d(2) True g_rank.hyps(2) wf] g_rank.hyps(3) by auto
    then show ?thesis using tr.delivered_recv [OF d(1) x(3)] by (simp add: fun_upd_def)
  next
    case False
    then have same: "data = None" "tg_queue s' = tg_queue s"
      using g_rank.hyps(3) by (auto simp: rank_step_def split: pc.splits if_splits)
    have "in_phase s'"
      using phase_top [OF d(2) _ g_rank.hyps(2,3)] phase_check [OF d(2) _ g_rank.hyps(2,3)] phase_reset [OF d(2) _ g_rank.hyps(2,3)]
        g_rank.hyps(3) False by (cases "tg_pc s r") (simp_all add: rank_step_def)
    then show ?thesis using same d(1) by simp
  qed
next
  case (g_pass sent got waiting leaving raced s s')
  then have d: "tr.delivered sent got (tg_queue s)" "in_phase s" by simp_all
  have "0 < tr_num_client (tg_queue s)" using d(1) wf_clients by (auto simp: tr.delivered_def)
  moreover have "tg_queue s' = tg_queue s" using g_pass.hyps(2) by (auto simp: pass_barrier_def Let_def split: if_splits)
  ultimately show ?case using phase_pass [OF d(2) g_pass.hyps(2)] d(1) by simp
qed simp_all

lemma rank_step_None: "rank_step r s = None \<longleftrightarrow> tg_pc s r \<in> {Bar1, Bar2, Bar3}"
  by (cases "tg_pc s r") (simp_all add: rank_step_def split: prod.split)

lemma phase_moves:
  assumes "in_phase s" "0 < tr_num_client (tg_queue s)"
  shows "\<not> stuck s"
proof
  assume st: "stuck s"
  let ?n = "tr_num_client (tg_queue s)"
  have bar: "tg_pc s r \<in> {Bar1, Bar2, Bar3}" if "r < ?n" for r
    using st that rank_step_None [of r s] by (simp add: stuck_def)
  have "\<exists>p \<in> {Bar1, Bar2, Bar3}. \<forall>r < ?n. tg_pc s r = p"
    using assms(1) unfolding in_phase_def
  proof (elim disjE)
    assume g: "gathering s"
    have "tg_pc s r = Bar1" if "r < ?n" for r using phase_pcs(1) [OF that g] bar [OF that] by auto
    then show ?thesis by blast
  next
    assume g: "reading s"
    have "tg_pc s r = Bar3" if "r < ?n" for r using phase_pcs(2) [OF that g] bar [OF that] by auto
    then show ?thesis by blast
  next
    assume g: "last_read s"
    have "tg_pc s r = Bar3" if "r < ?n" for r using phase_pcs(3) [OF that g] bar [OF that] by auto
    then show ?thesis by blast
  next
    assume g: "idle_round s"
    have "tg_pc s r = Bar2" if "r < ?n" for r using phase_pcs(4) [OF that g] bar [OF that] by auto
    then show ?thesis by blast
  qed
  then obtain p where "p \<in> {Bar1, Bar2, Bar3}" "\<forall>r < ?n. tg_pc s r = p" by blast
  then have "pass_barrier s \<noteq> None" using assms(2) by (simp add: pass_barrier_def Let_def)
  then show False using st by (simp add: stuck_def)
qed

text \<open>C34: as long as no waiting putter takes the lock of the queue while another task is half taken, the ranks of a transfer group never
  block each other: in every state of a run some rank can take a step or all are at the same barrier.\<close>

theorem transfer_group_moves:
  assumes "group_run sent got waiting leaving False s"
  shows "\<not> stuck s"
  using group_run_inv [OF assms] wf_clients phase_moves unfolding tr.delivered_def by blast

subsection \<open>A group that is stuck\<close>

datatype move = Rank nat | Pass

text \<open>A sequence of steps of the group alone.\<close>

fun moves :: "move list \<Rightarrow> (nat \<Rightarrow> 't list) \<times> 't transfer_group \<Rightarrow> ((nat \<Rightarrow> 't list) \<times> 't transfer_group) option" where
  "moves [] c = Some c"
| "moves (Rank r # ms) (got, s) =
     (if r < tr_num_client (tg_queue s) then
        (case rank_step r s of None \<Rightarrow> None
         | Some (data, s') \<Rightarrow> moves ms (got(r := got r @ (case data of None \<Rightarrow> [] | Some x \<Rightarrow> [x])), s'))
      else None)"
| "moves (Pass # ms) (got, s) = (case pass_barrier s of None \<Rightarrow> None | Some s' \<Rightarrow> moves ms (got, s'))"

lemma moves_run:
  "group_run sent got waiting leaving raced s \<Longrightarrow> moves ms (got, s) = Some (got', s') \<Longrightarrow>
   group_run sent got' waiting leaving raced s'"
proof (induction ms arbitrary: got s)
  case (Cons m ms)
  show ?case
  proof (cases m)
    case (Rank r)
    obtain data s1 where st: "r < tr_num_client (tg_queue s)" "rank_step r s = Some (data, s1)"
      "moves ms (got(r := got r @ (case data of None \<Rightarrow> [] | Some x \<Rightarrow> [x])), s1) = Some (got', s')"
      using Cons.prems(2) Rank by (auto split: if_splits option.splits prod.splits simp del: fun_upd_apply)
    show ?thesis by (rule Cons.IH [OF g_rank [OF Cons.prems(1) st(1,2)] st(3)])
  next
    case Pass
    then show ?thesis using Cons.prems(2) Cons.IH [OF g_pass [OF Cons.prems(1)]] by (auto split: option.splits)
  qed
qed simp

abbreviation (input) after :: "move list \<Rightarrow> (nat \<Rightarrow> nat list) \<times> nat transfer_group \<Rightarrow> (nat \<Rightarrow> nat list) \<times> nat transfer_group" where
  "after ms c \<equiv> the (moves ms c)"

abbreviation (input) add_late :: "nat \<Rightarrow> (nat \<Rightarrow> nat list) \<times> nat transfer_group \<Rightarrow> (nat \<Rightarrow> nat list) \<times> nat transfer_group" where
  "add_late x c \<equiv> (fst c, (snd c)\<lparr>tg_queue := append_task x (tg_queue (snd c))\<rparr>)"

lemma after_run:
  assumes "group_run sent (fst c) waiting leaving raced (snd c)" "moves ms c \<noteq> None"
  shows "group_run sent (fst (after ms c)) waiting leaving raced (snd (after ms c))"
  using moves_run [OF assms(1), of ms] assms(2) by auto

abbreviation (input) two_tasks :: "(nat \<Rightarrow> nat list) \<times> nat transfer_group" where
  "two_tasks \<equiv> add_late 6 (add_late 5 ((\<lambda>_. []), init_group 2))"

abbreviation (input) half_read :: "(nat \<Rightarrow> nat list) \<times> nat transfer_group" where
  "half_read \<equiv> after [Rank 0, Rank 1, Pass, Rank 0, Rank 0] two_tasks"

abbreviation (input) first_read :: "(nat \<Rightarrow> nat list) \<times> nat transfer_group" where
  "first_read \<equiv> after [Rank 1, Rank 1] half_read"

abbreviation (input) half_second :: "(nat \<Rightarrow> nat list) \<times> nat transfer_group" where
  "half_second \<equiv> after [Rank 1, Pass, Rank 0, Rank 1, Pass, Rank 0, Rank 0] first_read"

abbreviation (input) apart :: "(nat \<Rightarrow> nat list) \<times> nat transfer_group" where
  "apart \<equiv> after [Rank 1, Rank 1, Pass, Rank 0, Rank 1, Pass, Rank 0, Rank 0, Rank 0, Rank 1] (add_late 7 half_second)"

lemma apart_facts:
  "Option.is_none (moves [Rank 0, Rank 1, Pass, Rank 0, Rank 0] two_tasks) = False"
  "Option.is_none (moves [Rank 1, Rank 1] half_read) = False"
  "Option.is_none (moves [Rank 1, Pass, Rank 0, Rank 1, Pass, Rank 0, Rank 0] first_read) = False"
  "Option.is_none (moves [Rank 1, Rank 1, Pass, Rank 0, Rank 1, Pass, Rank 0, Rank 0, Rank 0, Rank 1] (add_late 7 half_second)) = False"
  "half_taken (tg_queue (snd half_read)) = True" "half_taken (tg_queue (snd first_read)) = False"
  "half_taken (tg_queue (snd half_second)) = True"
  "tg_pc (snd apart) 0 = Bar3" "tg_pc (snd apart) 1 = Bar2" "tr_num_client (tg_queue (snd apart)) = 2"
  "transfer_task_queue (tg_queue (snd apart)) = [7]"
  by code_simp+

lemma parted_stuck:
  assumes "tg_pc s 0 = Bar3" "tg_pc s 1 = Bar2" "tr_num_client (tg_queue s) = 2"
  shows "stuck s"
proof -
  have "rank_step c s = None" if "c < 2" for c
  proof -
    have "c = 0 \<or> c = 1" using that by auto
    then show ?thesis using assms(1,2) by (auto simp: rank_step_None)
  qed
  moreover have "\<exists>r < 2. tg_pc s r \<noteq> Bar3" using assms(2) by (intro exI [of _ 1]) simp
  ultimately show ?thesis using assms by (auto simp: stuck_def pass_barrier_def)
qed

text \<open>There is a run of two transfer processes and three tasks in which they block each other for good: a putter that waited resets the bits of
  the task both are reading, they read that task again, the last reader takes the signal back before the other has looked at it, and one waits at
  the third barrier while the other waits at the second, with a task left in the queue.\<close>

theorem late_put_blocks_group:
  "\<exists>got s. group_run [5, 6, 7] got [] [] True (s :: nat transfer_group) \<and> stuck s \<and> transfer_task_queue (tg_queue s) = [7]"
proof -
  note F = apart_facts [unfolded Option.is_none_def eq_False]
  have "group_run ([] @ [5]) (\<lambda>_. []) [] [] False ((init_group 2 :: nat transfer_group)\<lparr>tg_queue := append_task 5 (tg_queue (init_group 2))\<rparr>)"
    by (rule g_put [OF g_init]) (simp_all add: put_transfer_task_def half_taken_def init_group_def init_transfer_queue_def)
  then have "group_run ([5] @ [6]) (fst two_tasks) [] [] False (snd two_tasks)"
    unfolding fst_conv snd_conv
    by (intro g_put) (simp_all add: put_transfer_task_def half_taken_def init_group_def init_transfer_queue_def append_task_def)
  from after_run [OF this F(1)]
  have "group_run [5, 6] (fst half_read) [7] [] False (snd half_read)"
    using g_wait [of "[5, 6]" "fst half_read" "[]" "[]" False "snd half_read" 7] F(5) by (simp add: put_transfer_task_def)
  from after_run [OF this F(2)]
  have "group_run [5, 6] (fst first_read) [] [7] False (snd first_read)"
    using g_leave [of "[5, 6]" "fst first_read" "[7]" "[]" False "snd first_read" 7] F(6) by simp
  from g_late_put [OF after_run [OF this F(3)], of 7]
  have "group_run [5, 6, 7] (fst (add_late 7 half_second)) [] [] True (snd (add_late 7 half_second))"
    using F(7) by simp
  from after_run [OF this F(4)] have r: "group_run [5, 6, 7] (fst apart) [] [] True (snd apart)" .
  have "stuck (snd apart)" by (rule parted_stuck [OF F(8-10)])
  with r F(11) show ?thesis by blast
qed

theorem transfer_group_moves_witness: "\<not> stuck (snd half_read)"
proof -
  note F = apart_facts [unfolded Option.is_none_def eq_False]
  have "group_run ([] @ [5]) (\<lambda>_. []) [] [] False ((init_group 2 :: nat transfer_group)\<lparr>tg_queue := append_task 5 (tg_queue (init_group 2))\<rparr>)"
    by (rule g_put [OF g_init]) (simp_all add: put_transfer_task_def half_taken_def init_group_def init_transfer_queue_def)
  then have "group_run ([5] @ [6]) (fst two_tasks) [] [] False (snd two_tasks)"
    unfolding fst_conv snd_conv
    by (intro g_put) (simp_all add: put_transfer_task_def half_taken_def init_group_def init_transfer_queue_def append_task_def)
  from transfer_group_moves [OF after_run [OF this F(1)]] show ?thesis .
qed

end
