(* ===== verification/TransferPool.thy ===== *)
theory TransferPool
  imports TransferLoop "HOL-Library.Sublist"
begin

text \<open>
  The threads that move the blocks (\<open>cache_manager/cache_transfer_manager.py\<close>, \<open>_do_swap_to_cpu_task\<close>, \<open>_do_swap_to_gpu_task\<close>): each rank has
  one thread for each direction, which works on the tasks of its rank in order. Two barriers enclose the moving of the blocks of a task, and rank
  0 reports the task when all ranks have moved their blocks. The moving itself is done by operators of the device.
\<close>

datatype swap_pc = Idle | Before | Moving | Behind

record 't swap_pool =
  sp_size :: nat
  sp_todo :: "nat \<Rightarrow> 't list"
  sp_pc :: "nat \<Rightarrow> swap_pc"
  sp_moved :: "nat \<Rightarrow> 't list"
  sp_reported :: "'t list"

definition init_pool :: "nat \<Rightarrow> 't swap_pool" where
  "init_pool n = \<lparr>sp_size = n, sp_todo = (\<lambda>_. []), sp_pc = (\<lambda>_. Idle), sp_moved = (\<lambda>_. []), sp_reported = []\<rparr>"

definition submit :: "nat \<Rightarrow> 't \<Rightarrow> 't swap_pool \<Rightarrow> 't swap_pool" where
  "submit r x s = s\<lparr>sp_todo := (sp_todo s)(r := sp_todo s r @ [x])\<rparr>"

definition swap_step :: "nat \<Rightarrow> 't swap_pool \<Rightarrow> 't swap_pool option" where
  "swap_step r s =
     (case sp_pc s r of
        Idle \<Rightarrow> (if sp_todo s r = [] then None else Some (s\<lparr>sp_pc := (sp_pc s)(r := Before)\<rparr>))
      | Moving \<Rightarrow>
          Some (s\<lparr>sp_moved := (sp_moved s)(r := sp_moved s r @ [hd (sp_todo s r)]), sp_pc := (sp_pc s)(r := Behind)\<rparr>)
      | _ \<Rightarrow> None)"

definition pass_before :: "'t swap_pool \<Rightarrow> 't swap_pool option" where
  "pass_before s = (if \<forall>r < sp_size s. sp_pc s r = Before then Some (s\<lparr>sp_pc := (\<lambda>_. Moving)\<rparr>) else None)"

definition pass_behind :: "'t swap_pool \<Rightarrow> 't swap_pool option" where
  "pass_behind s =
     (if \<forall>r < sp_size s. sp_pc s r = Behind
      then Some (s\<lparr>sp_pc := (\<lambda>_. Idle), sp_todo := (\<lambda>r. tl (sp_todo s r)), sp_reported := sp_reported s @ [hd (sp_todo s 0)]\<rparr>)
      else None)"

text \<open>The ranks are given the tasks \<open>tasks\<close> in order; \<open>given\<close> are those a rank has been given so far.\<close>

inductive pool_run :: "'t list \<Rightarrow> (nat \<Rightarrow> 't list) \<Rightarrow> 't swap_pool \<Rightarrow> bool" for tasks where
  s_init: "0 < n \<Longrightarrow> pool_run tasks (\<lambda>_. []) (init_pool n)"
| s_submit: "pool_run tasks given s \<Longrightarrow> r < sp_size s \<Longrightarrow> prefix (given r @ [x]) tasks \<Longrightarrow>
    pool_run tasks (given(r := given r @ [x])) (submit r x s)"
| s_step: "pool_run tasks given s \<Longrightarrow> r < sp_size s \<Longrightarrow> swap_step r s = Some s' \<Longrightarrow> pool_run tasks given s'"
| s_before: "pool_run tasks given s \<Longrightarrow> pass_before s = Some s' \<Longrightarrow> pool_run tasks given s'"
| s_behind: "pool_run tasks given s \<Longrightarrow> pass_behind s = Some s' \<Longrightarrow> pool_run tasks given s'"

definition rank_part :: "'t list \<Rightarrow> (nat \<Rightarrow> 't list) \<Rightarrow> 't swap_pool \<Rightarrow> nat \<Rightarrow> bool" where
  "rank_part tasks given s r =
     (prefix (given r) tasks \<and> given r = sp_reported s @ sp_todo s r \<and> (sp_pc s r \<noteq> Idle \<longrightarrow> sp_todo s r \<noteq> []) \<and>
      sp_moved s r = sp_reported s @ (if sp_pc s r = Behind then [hd (sp_todo s r)] else []))"

definition pool_inv :: "'t list \<Rightarrow> (nat \<Rightarrow> 't list) \<Rightarrow> 't swap_pool \<Rightarrow> bool" where
  "pool_inv tasks given s =
     (0 < sp_size s \<and> (\<forall>r < sp_size s. rank_part tasks given s r) \<and>
      ((\<forall>r < sp_size s. sp_pc s r \<in> {Idle, Before}) \<or> (\<forall>r < sp_size s. sp_pc s r \<in> {Moving, Behind})))"

text \<open>The task a rank works on is the same for all ranks.\<close>

lemma next_task:
  assumes "rank_part tasks given s r" "sp_todo s r \<noteq> []"
  shows "hd (sp_todo s r) = tasks ! length (sp_reported s)"
proof -
  have "prefix (sp_reported s @ sp_todo s r) tasks" using assms(1) unfolding rank_part_def by metis
  then obtain rest where "tasks = sp_reported s @ sp_todo s r @ rest" by (auto simp: prefix_def)
  then show ?thesis using assms(2) by (cases "sp_todo s r") (simp_all add: nth_append)
qed

lemma pool_run_inv: "pool_run tasks given s \<Longrightarrow> pool_inv tasks given s"
proof (induction rule: pool_run.induct)
  case (s_init n)
  then show ?case by (simp add: pool_inv_def init_pool_def rank_part_def)
next
  case (s_submit given s r x)
  have "rank_part tasks (given(r := given r @ [x])) (submit r x s) c" if "c < sp_size s" for c
  proof -
    have "rank_part tasks given s c" using s_submit.IH that by (simp add: pool_inv_def)
    then show ?thesis using s_submit.hyps(3) by (auto simp: rank_part_def submit_def)
  qed
  then show ?case using s_submit.IH by (simp add: pool_inv_def submit_def fun_upd_def)
next
  case (s_step given s r s')
  have rp: "rank_part tasks given s c" if "c < sp_size s" for c using s_step.IH that by (simp add: pool_inv_def)
  consider (start) "sp_pc s r = Idle" "sp_todo s r \<noteq> []" "s' = s\<lparr>sp_pc := (sp_pc s)(r := Before)\<rparr>"
    | (move) "sp_pc s r = Moving"
        "s' = s\<lparr>sp_moved := (sp_moved s)(r := sp_moved s r @ [hd (sp_todo s r)]), sp_pc := (sp_pc s)(r := Behind)\<rparr>"
    using s_step.hyps(3) by (auto simp: swap_step_def split: swap_pc.splits if_splits)
  then show ?case
  proof cases
    case start
    have "rank_part tasks given s' c" if "c < sp_size s" for c
      using rp [OF that] start by (auto simp: rank_part_def)
    moreover have "\<forall>c < sp_size s. sp_pc s c \<in> {Idle, Before}" using s_step.IH s_step.hyps(2) start(1) by (auto simp: pool_inv_def)
    ultimately show ?thesis using s_step.IH start(3) by (simp add: pool_inv_def)
  next
    case move
    have "rank_part tasks given s' c" if "c < sp_size s" for c
      using rp [OF that] move by (auto simp: rank_part_def)
    moreover have "\<forall>c < sp_size s. sp_pc s c \<in> {Moving, Behind}" using s_step.IH s_step.hyps(2) move(1) by (auto simp: pool_inv_def)
    ultimately show ?thesis using s_step.IH move(2) by (simp add: pool_inv_def)
  qed
next
  case (s_before given s s')
  have b: "\<forall>r < sp_size s. sp_pc s r = Before" "s' = s\<lparr>sp_pc := (\<lambda>_. Moving)\<rparr>"
    using s_before.hyps(2) unfolding pass_before_def if_Some_iff by blast+
  then show ?case using s_before.IH by (auto simp: pool_inv_def rank_part_def)
next
  case (s_behind given s s')
  have b: "\<forall>r < sp_size s. sp_pc s r = Behind"
    "s' = s\<lparr>sp_pc := (\<lambda>_. Idle), sp_todo := (\<lambda>r. tl (sp_todo s r)), sp_reported := sp_reported s @ [hd (sp_todo s 0)]\<rparr>"
    using s_behind.hyps(2) unfolding pass_behind_def if_Some_iff by blast+
  have n: "0 < sp_size s" using s_behind.IH by (simp add: pool_inv_def)
  have rp: "rank_part tasks given s c" "sp_todo s c \<noteq> []" if "c < sp_size s" for c
    using s_behind.IH b(1) that by (auto simp: pool_inv_def rank_part_def)
  have "rank_part tasks given s' c" if c: "c < sp_size s" for c
  proof -
    have h: "hd (sp_todo s c) = hd (sp_todo s 0)" using next_task [OF rp [OF c]] next_task [OF rp [OF n]] by simp
    have f: "prefix (given c) tasks" "given c = sp_reported s @ sp_todo s c"
      using rp(1) [OF c] unfolding rank_part_def by blast+
    have m: "sp_moved s c = sp_reported s @ [hd (sp_todo s c)]" using rp(1) [OF c] b(1) c by (simp add: rank_part_def)
    have "sp_todo s c = hd (sp_todo s 0) # tl (sp_todo s c)" using rp(2) [OF c] h by (metis list.collapse)
    then have g: "given c = sp_reported s @ hd (sp_todo s 0) # tl (sp_todo s c)" using f(2) by metis
    show ?thesis unfolding rank_part_def b(2) by (intro conjI f(1)) (simp_all add: g m h)
  qed
  then show ?case using n unfolding pool_inv_def b(2) by simp
qed

lemma reported_prefix:
  assumes "pool_run tasks given s" "r < sp_size s"
  shows "prefix (sp_reported s) tasks \<and> prefix (sp_reported s) (sp_moved s r)"
proof -
  have "rank_part tasks given s r" using pool_run_inv [OF assms(1)] assms(2) by (simp add: pool_inv_def)
  then show ?thesis by (auto simp: rank_part_def intro: prefix_order.trans [OF prefixI])
qed

lemma pool_more: "pool_run tasks given s \<Longrightarrow> prefix tasks tasks' \<Longrightarrow> pool_run tasks' given s"
proof (induction rule: pool_run.induct)
  case (s_submit given s r x)
  then show ?case by (intro pool_run.s_submit) (auto intro: prefix_order.trans)
qed (auto intro: pool_run.intros)

subsection \<open>The loop hands the tasks to the threads\<close>

text \<open>
  A task read by a rank goes to its thread for the direction of the task; \<open>to_cpu\<close> tells the direction, \<open>pools\<close> has the threads of
  all ranks for each.
\<close>

definition hand_over :: "('t \<Rightarrow> bool) \<Rightarrow> nat \<Rightarrow> 't option \<Rightarrow> (bool \<Rightarrow> 't swap_pool) \<Rightarrow> bool \<Rightarrow> 't swap_pool" where
  "hand_over to_cpu r data pools =
     (case data of None \<Rightarrow> pools | Some x \<Rightarrow> pools(to_cpu x := submit r x (pools (to_cpu x))))"

text \<open>Runs of the queue, the loops of all ranks and the threads of both directions together, with the histories of \<open>group_run\<close>.\<close>

inductive transfer_all ::
  "('t \<Rightarrow> bool) \<Rightarrow> 't list \<Rightarrow> (nat \<Rightarrow> 't list) \<Rightarrow> 't list \<Rightarrow> 't list \<Rightarrow> bool \<Rightarrow> 't transfer_group \<Rightarrow> (bool \<Rightarrow> 't swap_pool) \<Rightarrow> bool"
  for to_cpu where
  a_init: "0 < n \<Longrightarrow> transfer_all to_cpu [] (\<lambda>_. []) [] [] False (init_group n) (\<lambda>_. init_pool n)"
| a_put: "transfer_all to_cpu sent got waiting leaving raced s pools \<Longrightarrow> put_transfer_task x (tg_queue s) = Some q \<Longrightarrow>
    transfer_all to_cpu (sent @ [x]) got waiting leaving raced (s\<lparr>tg_queue := q\<rparr>) pools"
| a_wait: "transfer_all to_cpu sent got waiting leaving raced s pools \<Longrightarrow> put_transfer_task x (tg_queue s) = None \<Longrightarrow>
    transfer_all to_cpu sent got (x # waiting) leaving raced s pools"
| a_leave: "transfer_all to_cpu sent got waiting leaving raced s pools \<Longrightarrow> x \<in> set waiting \<Longrightarrow> \<not> half_taken (tg_queue s) \<Longrightarrow>
    transfer_all to_cpu sent got (remove1 x waiting) (x # leaving) raced s pools"
| a_late_put: "transfer_all to_cpu sent got waiting leaving raced s pools \<Longrightarrow> x \<in> set leaving \<Longrightarrow>
    transfer_all to_cpu (sent @ [x]) got waiting (remove1 x leaving) (raced \<or> half_taken (tg_queue s))
      (s\<lparr>tg_queue := append_task x (tg_queue s)\<rparr>) pools"
| a_rank: "transfer_all to_cpu sent got waiting leaving raced s pools \<Longrightarrow> r < tr_num_client (tg_queue s) \<Longrightarrow>
    rank_step r s = Some (data, s') \<Longrightarrow>
    transfer_all to_cpu sent (got(r := got r @ (case data of None \<Rightarrow> [] | Some x \<Rightarrow> [x]))) waiting leaving raced s'
      (hand_over to_cpu r data pools)"
| a_pass: "transfer_all to_cpu sent got waiting leaving raced s pools \<Longrightarrow> pass_barrier s = Some s' \<Longrightarrow>
    transfer_all to_cpu sent got waiting leaving raced s' pools"
| a_swap: "transfer_all to_cpu sent got waiting leaving raced s pools \<Longrightarrow> r < sp_size (pools d) \<Longrightarrow> swap_step r (pools d) = Some p \<Longrightarrow>
    transfer_all to_cpu sent got waiting leaving raced s (pools(d := p))"
| a_before: "transfer_all to_cpu sent got waiting leaving raced s pools \<Longrightarrow> pass_before (pools d) = Some p \<Longrightarrow>
    transfer_all to_cpu sent got waiting leaving raced s (pools(d := p))"
| a_behind: "transfer_all to_cpu sent got waiting leaving raced s pools \<Longrightarrow> pass_behind (pools d) = Some p \<Longrightarrow>
    transfer_all to_cpu sent got waiting leaving raced s (pools(d := p))"

lemma all_group: "transfer_all to_cpu sent got waiting leaving raced s pools \<Longrightarrow> group_run sent got waiting leaving raced s"
  by (induction rule: transfer_all.induct) (simp_all add: group_run.intros del: fun_upd_apply)

lemma sizes:
  "swap_step r s = Some p \<Longrightarrow> sp_size p = sp_size s" "pass_before s = Some p \<Longrightarrow> sp_size p = sp_size s"
  "pass_behind s = Some p \<Longrightarrow> sp_size p = sp_size s" "sp_size (submit r x s) = sp_size s"
  by (auto simp: swap_step_def pass_before_def pass_behind_def submit_def split: swap_pc.splits if_splits)

lemma group_clients:
  "put_transfer_task x q = Some q' \<Longrightarrow> tr_num_client q' = tr_num_client q"
  "tr_num_client (append_task x q) = tr_num_client q"
  "rank_step r s = Some (data, s') \<Longrightarrow> tr_num_client (tg_queue s') = tr_num_client (tg_queue s)"
  "pass_barrier s = Some s' \<Longrightarrow> tr_num_client (tg_queue s') = tr_num_client (tg_queue s)"
  by (auto simp: put_transfer_task_def append_task_def rank_step_def pass_barrier_def get_transfer_task_def Let_def
      split: if_splits pc.splits prod.splits option.splits)

text \<open>Without the race the threads of one direction are given the tasks of that direction in the order in which they were put.\<close>

definition fed :: "('t \<Rightarrow> bool) \<Rightarrow> 't list \<Rightarrow> (nat \<Rightarrow> 't list) \<Rightarrow> nat \<Rightarrow> (bool \<Rightarrow> 't swap_pool) \<Rightarrow> bool" where
  "fed to_cpu sent got n pools =
     (\<forall>d. sp_size (pools d) = n \<and>
        pool_run (filter (\<lambda>x. to_cpu x = d) sent) (\<lambda>r. filter (\<lambda>x. to_cpu x = d) (got r)) (pools d))"

lemma fed_put: "fed to_cpu sent got n pools \<Longrightarrow> fed to_cpu (sent @ [x]) got n pools"
  unfolding fed_def by (intro allI conjI; drule spec, erule conjE) (simp, erule pool_more, rule filter_mono_prefix, simp)

lemma fed_step:
  assumes "fed to_cpu sent got n pools" "sp_size p = n"
    "\<And>tasks given. pool_run tasks given (pools d) \<Longrightarrow> pool_run tasks given p"
  shows "fed to_cpu sent got n (pools(d := p))"
  using assms by (auto simp: fed_def)

lemma fed_hand_over:
  assumes "fed to_cpu sent got n pools" "r < n" "prefix (got r @ [x]) sent"
  shows "fed to_cpu sent (got(r := got r @ [x])) n (hand_over to_cpu r (Some x) pools)"
proof -
  let ?f = "filter (\<lambda>y. to_cpu y = to_cpu x)"
  have p: "pool_run (?f sent) (\<lambda>c. ?f (got c)) (pools (to_cpu x))" "sp_size (pools (to_cpu x)) = n"
    using assms(1) by (auto simp: fed_def)
  have "prefix (?f (got r) @ [x]) (?f sent)" using filter_mono_prefix [OF assms(3), of "\<lambda>y. to_cpu y = to_cpu x"] by simp
  with p assms(2) have "pool_run (?f sent) ((\<lambda>c. ?f (got c))(r := ?f (got r) @ [x])) (submit r x (pools (to_cpu x)))"
    by (intro s_submit) auto
  moreover have "(\<lambda>c. ?f (got c))(r := ?f (got r) @ [x]) = (\<lambda>c. ?f ((got(r := got r @ [x])) c))" by auto
  moreover have "(\<lambda>c. filter (\<lambda>y. to_cpu y = d) ((got(r := got r @ [x])) c)) = (\<lambda>c. filter (\<lambda>y. to_cpu y = d) (got c))"
    if "d \<noteq> to_cpu x" for d using that by auto
  ultimately show ?thesis using assms(1) p(2) by (auto simp: fed_def hand_over_def sizes)
qed

lemma all_fed:
  "transfer_all to_cpu sent got waiting leaving raced s pools \<Longrightarrow> \<not> raced \<Longrightarrow> fed to_cpu sent got (tr_num_client (tg_queue s)) pools"
proof (induction rule: transfer_all.induct)
  case (a_init n)
  then show ?case by (simp add: fed_def init_group_def init_transfer_queue_def init_pool_def s_init [unfolded init_pool_def])
next
  case (a_put sent got waiting leaving raced s pools x q)
  then show ?case using fed_put group_clients(1) by fastforce
next
  case (a_late_put sent got waiting leaving raced s pools x)
  then show ?case using fed_put by (fastforce simp: group_clients)
next
  case (a_rank sent got waiting leaving raced s pools r data s')
  have f: "fed to_cpu sent got (tr_num_client (tg_queue s)) pools" by (rule a_rank.IH [OF a_rank.prems])
  show ?case
  proof (cases data)
    case None
    then show ?thesis using f group_clients(3) [OF a_rank.hyps(3)] by (simp add: hand_over_def)
  next
    case (Some x)
    have n: "tr_num_client (tg_queue s') = tr_num_client (tg_queue s)" by (rule group_clients(3) [OF a_rank.hyps(3)])
    have "group_run sent (got(r := got r @ [x])) waiting leaving raced s'"
      using g_rank [OF all_group [OF a_rank.hyps(1)] a_rank.hyps(2,3)] Some by simp
    from group_run_inv [OF this a_rank.prems] have "tr.delivered sent (got(r := got r @ [x])) (tg_queue s')" ..
    from tr.deliveredD(1) [OF this, of r] have "prefix (got r @ [x]) sent"
      using a_rank.hyps(2) n by (auto simp: take_is_prefix)
    from fed_hand_over [OF f a_rank.hyps(2) this] show ?thesis unfolding Some n option.case .
  qed
next
  case (a_pass sent got waiting leaving raced s pools s')
  then show ?case using group_clients(4) by fastforce
next
  case (a_swap sent got waiting leaving raced s pools r d p)
  note f = a_swap.IH [OF a_swap.prems]
  show ?case
  proof (rule fed_step [OF f])
    show "sp_size p = tr_num_client (tg_queue s)" using f sizes(1) [OF a_swap.hyps(3)] by (simp add: fed_def)
  qed (rule s_step [OF _ a_swap.hyps(2) a_swap.hyps(3)])
next
  case (a_before sent got waiting leaving raced s pools d p)
  note f = a_before.IH [OF a_before.prems]
  show ?case
  proof (rule fed_step [OF f])
    show "sp_size p = tr_num_client (tg_queue s)" using f sizes(2) [OF a_before.hyps(2)] by (simp add: fed_def)
  qed (rule s_before [OF _ a_before.hyps(2)])
next
  case (a_behind sent got waiting leaving raced s pools d p)
  note f = a_behind.IH [OF a_behind.prems]
  show ?case
  proof (rule fed_step [OF f])
    show "sp_size p = tr_num_client (tg_queue s)" using f sizes(3) [OF a_behind.hyps(2)] by (simp add: fed_def)
  qed (rule s_behind [OF _ a_behind.hyps(2)])
qed

text \<open>C35: as long as no waiting putter takes the lock of the queue while another task is half taken, a swap is reported only when it is done:
  in each direction the tasks reported are, in order, the first of those put in that direction, and every rank has moved its blocks of each
  of them. A transfer that raises is not among the steps.\<close>

theorem reported_swaps_moved:
  assumes "transfer_all to_cpu sent got waiting leaving False s pools" "r < tr_num_client (tg_queue s)"
  shows "prefix (sp_reported (pools d)) (filter (\<lambda>x. to_cpu x = d) sent) \<and>
    prefix (sp_reported (pools d)) (sp_moved (pools d) r)"
proof -
  have "sp_size (pools d) = tr_num_client (tg_queue s)"
    "pool_run (filter (\<lambda>x. to_cpu x = d) sent) (\<lambda>r. filter (\<lambda>x. to_cpu x = d) (got r)) (pools d)"
    using all_fed [OF assms(1)] by (auto simp: fed_def)
  from reported_prefix [OF this(2)] this(1) assms(2) show ?thesis by simp
qed

text \<open>Two ranks, one task.\<close>

datatype 't act = Put 't | Loop nat | Meet | Work bool nat | Start bool | Finish bool

type_synonym 't whole = "'t list \<times> (nat \<Rightarrow> 't list) \<times> 't transfer_group \<times> (bool \<Rightarrow> 't swap_pool)"

fun do_act :: "('t \<Rightarrow> bool) \<Rightarrow> 't act \<Rightarrow> 't whole \<Rightarrow> 't whole option" where
  "do_act dir (Put x) (sent, got, s, pools) =
     (case put_transfer_task x (tg_queue s) of None \<Rightarrow> None | Some q \<Rightarrow> Some (sent @ [x], got, s\<lparr>tg_queue := q\<rparr>, pools))"
| "do_act dir (Loop r) (sent, got, s, pools) =
     (if r < tr_num_client (tg_queue s) then
        (case rank_step r s of None \<Rightarrow> None
         | Some (data, s') \<Rightarrow> Some (sent, got(r := got r @ (case data of None \<Rightarrow> [] | Some x \<Rightarrow> [x])), s', hand_over dir r data pools))
      else None)"
| "do_act dir Meet (sent, got, s, pools) = (case pass_barrier s of None \<Rightarrow> None | Some s' \<Rightarrow> Some (sent, got, s', pools))"
| "do_act dir (Work d r) (sent, got, s, pools) =
     (if r < sp_size (pools d) then
        (case swap_step r (pools d) of None \<Rightarrow> None | Some p \<Rightarrow> Some (sent, got, s, pools(d := p))) else None)"
| "do_act dir (Start d) (sent, got, s, pools) =
     (case pass_before (pools d) of None \<Rightarrow> None | Some p \<Rightarrow> Some (sent, got, s, pools(d := p)))"
| "do_act dir (Finish d) (sent, got, s, pools) =
     (case pass_behind (pools d) of None \<Rightarrow> None | Some p \<Rightarrow> Some (sent, got, s, pools(d := p)))"

fun acts :: "('t \<Rightarrow> bool) \<Rightarrow> 't act list \<Rightarrow> 't whole \<Rightarrow> 't whole option" where
  "acts dir [] w = Some w"
| "acts dir (a # as) w = (case do_act dir a w of None \<Rightarrow> None | Some w' \<Rightarrow> acts dir as w')"

lemma act_run:
  assumes "transfer_all dir sent got [] [] False s pools" "do_act dir a (sent, got, s, pools) = Some (sent', got', s', pools')"
  shows "transfer_all dir sent' got' [] [] False s' pools'"
proof (cases a)
  case (Put x)
  then show ?thesis using assms a_put by (fastforce split: option.splits)
next
  case (Loop r)
  then obtain data s1 where "r < tr_num_client (tg_queue s)" "rank_step r s = Some (data, s1)" "sent' = sent" "s' = s1"
    "got' = got(r := got r @ (case data of None \<Rightarrow> [] | Some x \<Rightarrow> [x]))" "pools' = hand_over dir r data pools"
    using assms(2) by (auto split: if_splits option.splits prod.splits simp del: fun_upd_apply)
  then show ?thesis using a_rank [OF assms(1)] by simp
next
  case Meet
  then show ?thesis using assms a_pass by (fastforce split: option.splits)
next
  case (Work d r)
  then show ?thesis using assms a_swap by (fastforce split: option.splits if_splits)
next
  case (Start d)
  then show ?thesis using assms a_before by (fastforce split: option.splits)
next
  case (Finish d)
  then show ?thesis using assms a_behind by (fastforce split: option.splits)
qed

lemma acts_run:
  "transfer_all dir sent got [] [] False s pools \<Longrightarrow> acts dir as (sent, got, s, pools) = Some (sent', got', s', pools') \<Longrightarrow>
   transfer_all dir sent' got' [] [] False s' pools'"
proof (induction as arbitrary: sent got s pools)
  case (Cons a as)
  obtain sent1 got1 s1 pools1 where a: "do_act dir a (sent, got, s, pools) = Some (sent1, got1, s1, pools1)"
    "acts dir as (sent1, got1, s1, pools1) = Some (sent', got', s', pools')"
    using Cons.prems(2) by (auto split: option.splits)
  show ?case by (rule Cons.IH [OF act_run [OF Cons.prems(1) a(1)] a(2)])
qed simp

abbreviation (input) one_swap :: "nat whole option" where
  "one_swap \<equiv> acts (\<lambda>x. x < 9)
     [Put 5, Loop 0, Loop 1, Meet, Loop 0, Loop 0, Loop 1, Loop 1, Work True 0, Work True 1, Start True, Work True 1,
      Work True 0, Finish True]
     ([], \<lambda>_. [], init_group 2, \<lambda>_. init_pool 2)"

lemma one_swap_facts:
  "case one_swap of None \<Rightarrow> False
   | Some (sent, got, s, pools) \<Rightarrow> sent = [5] \<and> tr_num_client (tg_queue s) = 2 \<and> sp_reported (pools True) = [5]"
  by code_simp

theorem reported_swaps_moved_witness:
  "\<exists>sent got s pools. one_swap = Some (sent, got, s, pools) \<and> prefix [5] sent \<and> prefix [5] (sp_moved (pools True) 1)"
proof -
  define w where "w = one_swap"
  have "case w of None \<Rightarrow> False
     | Some (sent, got, s, pools) \<Rightarrow> sent = [5] \<and> tr_num_client (tg_queue s) = 2 \<and> sp_reported (pools True) = [5]"
    unfolding w_def by (rule one_swap_facts)
  then obtain sent got s pools where w: "w = Some (sent, got, s, pools)" "sent = [5]" "tr_num_client (tg_queue s) = 2"
    "sp_reported (pools True) = [5]"
    by (cases w) auto
  have "transfer_all (\<lambda>x. x < 9) sent got [] [] False s pools"
    by (rule acts_run [OF a_init w(1) [unfolded w_def]]) simp
  from reported_swaps_moved [OF this, of 1 True] w have "prefix [5] sent \<and> prefix [5] (sp_moved (pools True) 1)" by simp
  with w(1) show ?thesis unfolding w_def by (intro exI conjI) (assumption | erule conjunct1 | erule conjunct2)+
qed

end
