(* ===== verification/CacheMessager.thy ===== *)
theory CacheMessager
  imports SplitConnector
begin

text \<open>
  The thread of a prefilling instance that sends cache blocks to the decoding ones, layer by layer (\<open>cache_manager/cache_messager.py\<close>), for one
  rank. A request is sent once the note of the engine on its own blocks and the note of the decoding instance on its blocks have both
  come. How far the workers have come is two signals in shared memory, a step and a layer, which are arguments, as are
  the outcomes of connecting and writing. \<open>Told\<close> stands for waiting for the other ranks and, on rank 0, putting the notice for the token
  processor; an exception ends the thread.
\<close>

datatype cm_event = Wrote req_id nat "block_id list" "block_id list" | Told req_id string

datatype cm_target = ToIpc "string list" | ToRdma string "string list"

record cm_item =
  mi_src :: "block_id list option"
  mi_current :: "int option"
  mi_target :: "cm_target option"
  mi_dest :: "block_id list option"
  mi_status :: "string option"
  mi_layer :: "int option"

record messager =
  cm_rank :: nat
  cm_layers :: nat
  cm_items :: "(req_id \<times> cm_item) list"
  cm_last_step :: int
  cm_last_layer :: int
  cm_log :: "cm_event list"

definition init_messager :: "nat \<Rightarrow> nat \<Rightarrow> messager" where
  "init_messager rank layers =
     \<lparr>cm_rank = rank, cm_layers = layers, cm_items = [], cm_last_step = - 1, cm_last_layer = - 1, cm_log = []\<rparr>"

definition no_item :: cm_item where
  "no_item = \<lparr>mi_src = None, mi_current = None, mi_target = None, mi_dest = None, mi_status = None, mi_layer = None\<rparr>"

subsection \<open>Notes\<close>

definition merge_note :: "cache_note \<Rightarrow> cm_item \<Rightarrow> cm_item" where
  "merge_note note it =
     (case note of
        Src i bs k \<Rightarrow> it\<lparr>mi_src := Some bs, mi_current := Some k\<rparr>
      | DestIpc i devs bs \<Rightarrow> it\<lparr>mi_target := Some (ToIpc devs), mi_dest := Some bs\<rparr>
      | DestRdma i devs ip ports bs \<Rightarrow> it\<lparr>mi_target := Some (ToRdma ip ports), mi_dest := Some bs\<rparr>)"

text \<open>\<open>src[-n:]\<close>, which is all of \<open>src\<close> for \<open>n = 0\<close>.\<close>

definition last_blocks :: "nat \<Rightarrow> block_id list \<Rightarrow> block_id list" where
  "last_blocks n bs = (if n = 0 then bs else drop (length bs - n) bs)"

definition start_item :: "cm_item \<Rightarrow> cm_item" where
  "start_item it =
     (case (mi_src it, mi_dest it) of
        (Some src, Some dest) \<Rightarrow> it\<lparr>mi_src := Some (last_blocks (length dest) src), mi_status := Some ''init''\<rparr>
      | _ \<Rightarrow> it)"

definition take_note :: "cache_note \<Rightarrow> messager \<Rightarrow> (messager, unit) outcome" where
  "take_note note s =
     (let rid = note_request note in
      case map_of (cm_items s) rid of
        None \<Rightarrow> (Inr (), s\<lparr>cm_items := cm_items s @ [(rid, merge_note note no_item)]\<rparr>)
      | Some it \<Rightarrow>
          let it1 = start_item (merge_note note it); s1 = s\<lparr>cm_items := AList.update rid it1 (cm_items s)\<rparr> in
          (case mi_current it1 of None \<Rightarrow> (Inl KeyError, s1)
           | Some k \<Rightarrow> (Inr (), s1\<lparr>cm_last_step := min (cm_last_step s1) k\<rparr>)))"

fun take_notes :: "cache_note list \<Rightarrow> messager \<Rightarrow> (messager, unit) outcome" where
  "take_notes [] s = (Inr (), s)"
| "take_notes (n # ns) s = andthen (take_note n s) (\<lambda>_ s1. take_notes ns s1)"

subsection \<open>Sending\<close>

definition tell :: "req_id \<Rightarrow> string \<Rightarrow> messager \<Rightarrow> messager" where
  "tell rid msg s = s\<lparr>cm_log := cm_log s @ [Told rid msg]\<rparr>"

definition set_item :: "req_id \<Rightarrow> cm_item \<Rightarrow> messager \<Rightarrow> messager" where
  "set_item rid it s = s\<lparr>cm_items := AList.update rid it (cm_items s)\<rparr>"

definition drop_item :: "req_id \<Rightarrow> messager \<Rightarrow> messager" where
  "drop_item rid s = s\<lparr>cm_items := AList.delete rid (cm_items s)\<rparr>"

text \<open>After a write its time is divided by the number of blocks.\<close>

fun write_layers ::
  "(nat \<Rightarrow> bool) \<Rightarrow> req_id \<Rightarrow> block_id list \<Rightarrow> block_id list \<Rightarrow> nat list \<Rightarrow> messager \<Rightarrow> (messager, bool) outcome" where
  "write_layers ok rid src dest [] s = (Inr True, s)"
| "write_layers ok rid src dest (l # ls) s =
     (if ok l then
        let s1 = s\<lparr>cm_log := cm_log s @ [Wrote rid l src dest]\<rparr>
        in if src = [] then (Inl ZeroDivisionError, s1) else write_layers ok rid src dest ls s1
      else (Inr False, tell rid ''write cache error'' s))"

text \<open>The layers that can be sent now; a failed write marks the item, but the code after the loop runs all the same.\<close>

definition send_layers :: "(nat \<Rightarrow> bool) \<Rightarrow> int \<Rightarrow> int \<Rightarrow> req_id \<Rightarrow> cm_item \<Rightarrow> int \<Rightarrow> messager \<Rightarrow> (messager, unit) outcome" where
  "send_layers ok layer step rid it k s =
     (case (mi_src it, mi_dest it) of
        (Some src, Some dest) \<Rightarrow>
          let from = (case mi_layer it of None \<Rightarrow> 0 | Some l \<Rightarrow> l);
              upto = (if k < step then int (cm_layers s) else layer + 1) in
          andthen (write_layers ok rid src dest [nat from..<nat upto] s) (\<lambda>fine s1.
             let it1 = it\<lparr>mi_status := (if fine then mi_status it else Some ''error''), mi_layer := Some upto\<rparr>;
                 s2 = set_item rid it1 s1;
                 s3 = (if upto = int (cm_layers s2) then drop_item rid (tell rid ''finished'' s2) else s2)
             in (Inr (), s3\<lparr>cm_last_step := step, cm_last_layer := layer\<rparr>))
      | _ \<Rightarrow> (Inl KeyError, s))"

definition send_item ::
  "(req_id \<Rightarrow> bool) \<Rightarrow> (req_id \<Rightarrow> nat \<Rightarrow> bool) \<Rightarrow> int \<Rightarrow> int \<Rightarrow> req_id \<Rightarrow> cm_item \<Rightarrow> messager \<Rightarrow> (messager, unit) outcome" where
  "send_item conn_ok ok layer step rid it0 s0 =
     (if mi_status it0 = None then (Inr (), s0)
      else
        let it = (if mi_layer it0 = None then it0\<lparr>mi_layer := Some 0\<rparr> else it0); s = set_item rid it s0 in
        if mi_status it = Some ''error'' then (Inr (), drop_item rid s)
        else
          (case (mi_current it, mi_target it) of
             (Some k, Some target) \<Rightarrow>
               if k > step then (Inr (), s)
               else
                 (case target of
                    ToRdma ip ports \<Rightarrow>
                      if cm_rank s \<ge> length ports then (Inl IndexError, s)
                      else if \<not> conn_ok rid then
                        (Inr (), tell rid ''connect error'' (set_item rid (it\<lparr>mi_status := Some ''error''\<rparr>) s))
                      else send_layers (ok rid) layer step rid it k s
                  | ToIpc devs \<Rightarrow>
                      if cm_rank s \<ge> length devs then (Inl IndexError, s)
                      else send_layers (ok rid) layer step rid it k s)
           | _ \<Rightarrow> (Inl KeyError, s)))"

fun send_items ::
  "(req_id \<Rightarrow> bool) \<Rightarrow> (req_id \<Rightarrow> nat \<Rightarrow> bool) \<Rightarrow> int \<Rightarrow> int \<Rightarrow> (req_id \<times> cm_item) list \<Rightarrow> messager \<Rightarrow> (messager, unit) outcome" where
  "send_items conn_ok ok layer step [] s = (Inr (), s)"
| "send_items conn_ok ok layer step ((rid, it) # items) s =
     andthen (send_item conn_ok ok layer step rid it s) (\<lambda>_ s1. send_items conn_ok ok layer step items s1)"

text \<open>One round of the loop: the notes that have come, and the signals as they are read last.\<close>

definition messager_round ::
  "(req_id \<Rightarrow> bool) \<Rightarrow> (req_id \<Rightarrow> nat \<Rightarrow> bool) \<Rightarrow> cache_note list \<Rightarrow> int \<Rightarrow> int \<Rightarrow> messager \<Rightarrow> (messager, unit) outcome" where
  "messager_round conn_ok ok notes layer step s =
     andthen (take_notes notes s) (\<lambda>_ s1.
       if step = - 1 \<or> cm_items s1 = [] then (Inr (), s1)
       else send_items conn_ok ok layer step (cm_items s1) s1)"

end
