(* ===== verification/CacheMessagerProps.thy ===== *)
theory CacheMessagerProps
  imports CacheMessager PlainOutput
begin

text \<open>Every layer of a request is written once, in order, before the notice that it is finished, as long as no write fails; and what is
  told when one does.\<close>

subsection \<open>What is known of one request\<close>

fun src_noted :: "cache_note list \<Rightarrow> req_id \<Rightarrow> (block_id list \<times> int) option" where
  "src_noted [] rid = None"
| "src_noted (Src i bs k # ns) rid = (if i = rid then Some (bs, k) else src_noted ns rid)"
| "src_noted (n # ns) rid = src_noted ns rid"

fun dest_noted :: "cache_note list \<Rightarrow> req_id \<Rightarrow> block_id list option" where
  "dest_noted [] rid = None"
| "dest_noted (Src i bs k # ns) rid = dest_noted ns rid"
| "dest_noted (DestIpc i devs bs # ns) rid = (if i = rid then Some bs else dest_noted ns rid)"
| "dest_noted (DestRdma i devs ip ports bs # ns) rid = (if i = rid then Some bs else dest_noted ns rid)"

definition is_src :: "cache_note \<Rightarrow> bool" where
  "is_src n = (case n of Src _ _ _ \<Rightarrow> True | _ \<Rightarrow> False)"

text \<open>The note is the first of its kind for its request.\<close>

definition fresh_note :: "cache_note list \<Rightarrow> cache_note \<Rightarrow> bool" where
  "fresh_note ns n = (if is_src n then src_noted ns (note_request n) = None else dest_noted ns (note_request n) = None)"

definition note_dest :: "cache_note \<Rightarrow> block_id list option" where
  "note_dest n = (case n of Src _ _ _ \<Rightarrow> None | DestIpc _ _ bs \<Rightarrow> Some bs | DestRdma _ _ _ _ bs \<Rightarrow> Some bs)"

definition note_src :: "cache_note \<Rightarrow> (block_id list \<times> int) option" where
  "note_src n = (case n of Src _ bs k \<Rightarrow> Some (bs, k) | _ \<Rightarrow> None)"

lemma src_noted_snoc:
  "src_noted (ns @ [n]) rid = (case src_noted ns rid of None \<Rightarrow> if note_request n = rid then note_src n else None | Some x \<Rightarrow> Some x)"
  by (induction ns rid rule: src_noted.induct) (cases n; simp add: note_request_def note_src_def)+

lemma dest_noted_snoc:
  "dest_noted (ns @ [n]) rid = (case dest_noted ns rid of None \<Rightarrow> if note_request n = rid then note_dest n else None | Some x \<Rightarrow> Some x)"
  by (induction ns rid rule: dest_noted.induct) (cases n; simp add: note_request_def note_dest_def)+

definition event_request :: "cm_event \<Rightarrow> req_id" where
  "event_request e = (case e of Wrote i l src dest \<Rightarrow> i | Told i m \<Rightarrow> i)"

definition of_req :: "req_id \<Rightarrow> cm_event list \<Rightarrow> cm_event list" where
  "of_req rid es = filter (\<lambda>e. event_request e = rid) es"

lemma of_req_append [simp]: "of_req rid (xs @ ys) = of_req rid xs @ of_req rid ys"
  by (simp add: of_req_def)

lemma of_req_simps [simp]:
  "of_req rid [] = []" "of_req rid [Wrote i l src dest] = (if i = rid then [Wrote i l src dest] else [])"
  "of_req rid [Told i m] = (if i = rid then [Told i m] else [])"
  by (simp_all add: of_req_def event_request_def)

definition layers_written :: "req_id \<Rightarrow> block_id list \<Rightarrow> block_id list \<Rightarrow> nat \<Rightarrow> cm_event list" where
  "layers_written rid bs dest k = map (\<lambda>l. Wrote rid l (last_blocks (length dest) bs) dest) [0..<k]"

text \<open>What holds of a request, by its item and its part of the log, after a round with these signals.\<close>

definition half_noted :: "cache_note list \<Rightarrow> req_id \<Rightarrow> cm_item \<Rightarrow> cm_event list \<Rightarrow> bool" where
  "half_noted ns rid it es =
     (es = [] \<and> mi_status it = None \<and> mi_layer it = None \<and> mi_src it = map_option fst (src_noted ns rid) \<and>
      mi_current it = map_option snd (src_noted ns rid) \<and> mi_dest it = dest_noted ns rid \<and>
      (src_noted ns rid = None \<longleftrightarrow> dest_noted ns rid \<noteq> None))"

definition being_sent :: "nat \<Rightarrow> cache_note list \<Rightarrow> int \<times> int \<Rightarrow> req_id \<Rightarrow> cm_item \<Rightarrow> cm_event list \<Rightarrow> bool" where
  "being_sent n ns sig rid it es =
     (\<exists>bs cur dest k. src_noted ns rid = Some (bs, cur) \<and> dest_noted ns rid = Some dest \<and> mi_status it = Some ''init'' \<and>
        mi_src it = Some (last_blocks (length dest) bs) \<and> mi_current it = Some cur \<and> mi_dest it = Some dest \<and>
        (mi_layer it = None \<and> k = 0 \<or> mi_layer it = Some (int k)) \<and> k \<le> n \<and> es = layers_written rid bs dest k \<and>
        (k = 0 \<or> cur = fst sig \<and> int k = snd sig + 1 \<and> fst sig \<noteq> - 1))"

definition all_sent :: "nat \<Rightarrow> cache_note list \<Rightarrow> req_id \<Rightarrow> cm_event list \<Rightarrow> bool" where
  "all_sent n ns rid es =
     (\<exists>bs cur dest. src_noted ns rid = Some (bs, cur) \<and> dest_noted ns rid = Some dest \<and>
        es = layers_written rid bs dest n @ [Told rid ''finished''])"

definition rid_ok :: "nat \<Rightarrow> cache_note list \<Rightarrow> int \<times> int \<Rightarrow> req_id \<Rightarrow> cm_item option \<Rightarrow> cm_event list \<Rightarrow> bool" where
  "rid_ok n ns sig rid io es =
     (case io of
        None \<Rightarrow> es = [] \<and> src_noted ns rid = None \<and> dest_noted ns rid = None \<or> all_sent n ns rid es
      | Some it \<Rightarrow> half_noted ns rid it es \<or> being_sent n ns sig rid it es)"

definition messager_ok :: "nat \<Rightarrow> cache_note list \<Rightarrow> int \<times> int \<Rightarrow> messager \<Rightarrow> bool" where
  "messager_ok n ns sig s =
     (cm_layers s = n \<and> distinct (map fst (cm_items s)) \<and>
      (\<forall>rid. rid_ok n ns sig rid (map_of (cm_items s) rid) (of_req rid (cm_log s))))"

text \<open>The requests other than the one an operation is about keep their item and their log.\<close>

definition others_kept :: "req_id \<Rightarrow> messager \<Rightarrow> messager \<Rightarrow> bool" where
  "others_kept rid s s' =
     (cm_layers s' = cm_layers s \<and> (distinct (map fst (cm_items s)) \<longrightarrow> distinct (map fst (cm_items s'))) \<and>
      (\<forall>i. i \<noteq> rid \<longrightarrow> map_of (cm_items s') i = map_of (cm_items s) i \<and> of_req i (cm_log s') = of_req i (cm_log s)))"

lemma rid_ok_other_note:
  assumes "note_request n \<noteq> rid"
  shows "rid_ok k (ns @ [n]) sig rid io es = rid_ok k ns sig rid io es"
proof -
  have "src_noted (ns @ [n]) rid = src_noted ns rid" "dest_noted (ns @ [n]) rid = dest_noted ns rid"
    using assms by (simp_all add: src_noted_snoc dest_noted_snoc split: option.split)
  then show ?thesis unfolding rid_ok_def half_noted_def being_sent_def all_sent_def by (simp split: option.split)
qed

lemma take_note_ok:
  assumes "messager_ok k ns sig s" "fresh_note ns n" "take_note n s = (Inr (), s')"
  shows "messager_ok k (ns @ [n]) sig s'"
proof -
  let ?rid = "note_request n"
  have ok: "rid_ok k ns sig ?rid (map_of (cm_items s) ?rid) (of_req ?rid (cm_log s))" "distinct (map fst (cm_items s))"
    using assms(1) by (simp_all add: messager_ok_def)
  have log: "cm_log s' = cm_log s" "cm_layers s' = cm_layers s"
    using assms(3) by (auto simp: take_note_def Let_def split: option.splits)
  have rest: "distinct (map fst (cm_items s')) \<and> (\<forall>i. i \<noteq> ?rid \<longrightarrow> map_of (cm_items s') i = map_of (cm_items s) i)"
  proof (cases "map_of (cm_items s) ?rid")
    case None
    then have "cm_items s' = cm_items s @ [(?rid, merge_note n no_item)]" using assms(3) by (auto simp: take_note_def Let_def)
    then show ?thesis using ok(2) None by (auto simp: map_add_def map_of_eq_None_iff [symmetric] simp del: map_of_eq_None_iff split: option.split)
  next
    case (Some it)
    then have "cm_items s' = AList.update ?rid (start_item (merge_note n it)) (cm_items s)"
      using assms(3) by (auto simp: take_note_def Let_def split: option.splits)
    then show ?thesis using ok(2) by (simp add: update_conv' distinct_update)
  qed
  have new: "rid_ok k (ns @ [n]) sig ?rid (map_of (cm_items s') ?rid) (of_req ?rid (cm_log s))"
  proof (cases "map_of (cm_items s) ?rid")
    case None
    have m: "map_of (cm_items s') ?rid = Some (merge_note n no_item)"
      using assms(3) None by (auto simp: take_note_def Let_def map_add_def)
    have "of_req ?rid (cm_log s) = []" "src_noted ns ?rid = None" "dest_noted ns ?rid = None"
      using ok(1) assms(2) None by (auto simp: rid_ok_def all_sent_def fresh_note_def split: if_splits)
    then show ?thesis unfolding m
      by (cases n) (simp_all add: rid_ok_def half_noted_def merge_note_def no_item_def src_noted_snoc dest_noted_snoc
          note_src_def note_dest_def note_request_def)
  next
    case (Some it)
    let ?it = "start_item (merge_note n it)"
    have m: "map_of (cm_items s') ?rid = Some ?it"
      using assms(3) Some by (auto simp: take_note_def Let_def update_conv' split: option.splits)
    have h: "half_noted ns ?rid it (of_req ?rid (cm_log s))"
      using ok(1) assms(2) Some by (auto simp: rid_ok_def being_sent_def fresh_note_def split: if_splits)
    have "being_sent k (ns @ [n]) sig ?rid ?it (of_req ?rid (cm_log s))"
    proof (cases n)
      case (Src i bs cur)
      then obtain dest where "dest_noted ns i = Some dest" "src_noted ns i = None"
        using h assms(2) by (auto simp: half_noted_def fresh_note_def is_src_def note_request_def)
      then show ?thesis using h Src
        by (simp add: being_sent_def half_noted_def start_item_def merge_note_def src_noted_snoc dest_noted_snoc note_request_def
            note_src_def note_dest_def layers_written_def)
    next
      case (DestIpc i devs dest)
      then obtain bs cur where "src_noted ns i = Some (bs, cur)" "dest_noted ns i = None"
        using h assms(2) by (auto simp: half_noted_def fresh_note_def is_src_def note_request_def)
      then show ?thesis using h DestIpc
        by (simp add: being_sent_def half_noted_def start_item_def merge_note_def src_noted_snoc dest_noted_snoc note_request_def
            note_src_def note_dest_def layers_written_def)
    next
      case (DestRdma i devs ip ports dest)
      then obtain bs cur where "src_noted ns i = Some (bs, cur)" "dest_noted ns i = None"
        using h assms(2) by (auto simp: half_noted_def fresh_note_def is_src_def note_request_def)
      then show ?thesis using h DestRdma
        by (simp add: being_sent_def half_noted_def start_item_def merge_note_def src_noted_snoc dest_noted_snoc note_request_def
            note_src_def note_dest_def layers_written_def)
    qed
    then show ?thesis unfolding m by (simp add: rid_ok_def)
  qed
  have "rid_ok k (ns @ [n]) sig i (map_of (cm_items s') i) (of_req i (cm_log s'))" for i
  proof (cases "i = ?rid")
    case True
    then show ?thesis using new log by simp
  next
    case False
    then show ?thesis using rest assms(1) log rid_ok_other_note [of n i] by (auto simp: messager_ok_def)
  qed
  then show ?thesis using rest log assms(1) by (simp add: messager_ok_def)
qed

subsection \<open>Sending one request\<close>

lemma write_layers_all:
  "write_layers (\<lambda>_. True) rid src dest ls s = (Inr fine, s') \<Longrightarrow>
   fine \<and> s' = s\<lparr>cm_log := cm_log s @ map (\<lambda>l. Wrote rid l src dest) ls\<rparr>"
proof (induction ls arbitrary: s)
  case Nil
  then show ?case by simp
next
  case (Cons l ls)
  have "write_layers (\<lambda>_. True) rid src dest ls (s\<lparr>cm_log := cm_log s @ [Wrote rid l src dest]\<rparr>) = (Inr fine, s')"
    using Cons.prems by (simp add: Let_def split: if_splits)
  from Cons.IH [OF this] show ?case by simp
qed

lemma of_req_writes [simp]:
  "of_req i (map (\<lambda>l. Wrote rid l src dest) ls) = (if i = rid then map (\<lambda>l. Wrote rid l src dest) ls else [])"
  by (induction ls) (simp_all add: of_req_def event_request_def)

lemma set_item_facts [simp]:
  "cm_layers (set_item rid it s) = cm_layers s" "cm_log (set_item rid it s) = cm_log s" "cm_rank (set_item rid it s) = cm_rank s"
  "map_of (cm_items (set_item rid it s)) = (map_of (cm_items s))(rid \<mapsto> it)"
  by (simp_all add: set_item_def update_conv')

lemma drop_item_facts [simp]:
  "cm_layers (drop_item rid s) = cm_layers s" "cm_log (drop_item rid s) = cm_log s"
  "map_of (cm_items (drop_item rid s)) = (map_of (cm_items s))(rid := None)"
  by (simp_all add: drop_item_def delete_conv')

lemma tell_facts [simp]:
  "cm_layers (tell rid m s) = cm_layers s" "cm_log (tell rid m s) = cm_log s @ [Told rid m]" "cm_items (tell rid m s) = cm_items s"
  by (simp_all add: tell_def)

lemma item_keys:
  "distinct (map fst (cm_items s)) \<Longrightarrow> distinct (map fst (cm_items (set_item rid it s)))"
  "distinct (map fst (cm_items s)) \<Longrightarrow> distinct (map fst (cm_items (drop_item rid s)))"
  by (simp_all add: set_item_def drop_item_def distinct_update AList.delete_eq distinct_map_filter)

lemma others_kept_simps:
  "others_kept rid s s" "others_kept rid s (set_item rid it s)"
  by (simp_all add: others_kept_def item_keys)

lemma others_kept_trans: "others_kept rid s s1 \<Longrightarrow> others_kept rid s1 s2 \<Longrightarrow> others_kept rid s s2"
  by (simp add: others_kept_def)

lemma layers_written_extend:
  "k \<le> m \<Longrightarrow> layers_written rid bs dest k @ map (\<lambda>l. Wrote rid l (last_blocks (length dest) bs) dest) [k..<m] = layers_written rid bs dest m"
  using upt_add_eq_append [of 0 k "m - k"] by (simp add: layers_written_def)

lemma same_status: "(it :: cm_item)\<lparr>mi_status := mi_status it\<rparr> = it"
  by (cases it) simp

lemma send_layers_ok:
  assumes "src_noted ns rid = Some (bs, cur)" "dest_noted ns rid = Some dest" "mi_status it = Some ''init''"
    "mi_src it = Some (last_blocks (length dest) bs)" "mi_current it = Some cur" "mi_dest it = Some dest" "mi_layer it = Some (int k)"
    "of_req rid (cm_log s) = layers_written rid bs dest k" "cm_layers s = n" "cur \<le> step" "layer < int n" "- 1 \<le> layer" "step \<noteq> - 1"
    "int k \<le> (if cur < step then int n else layer + 1)" "send_layers (\<lambda>_. True) layer step rid it cur s = (Inr (), s')"
  shows "others_kept rid s s' \<and> rid_ok n ns (step, layer) rid (map_of (cm_items s') rid) (of_req rid (cm_log s'))"
proof -
  define m where "m = (if cur < step then n else nat (layer + 1))"
  have m: "(if cur < step then int n else layer + 1) = int m" "k \<le> m" "m \<le> n" using assms(11,12,14) by (auto simp: m_def)
  let ?s1 = "s\<lparr>cm_log := cm_log s @ map (\<lambda>l. Wrote rid l (last_blocks (length dest) bs) dest) [k..<m]\<rparr>"
  let ?it = "it\<lparr>mi_layer := Some (int m)\<rparr>"
  let ?s2 = "set_item rid ?it ?s1"
  let ?s3 = "if m = n then drop_item rid (tell rid ''finished'' ?s2) else ?s2"
  have s': "s' = ?s3\<lparr>cm_last_step := step, cm_last_layer := layer\<rparr>"
  proof -
    obtain fine s1 where w: "write_layers (\<lambda>_. True) rid (last_blocks (length dest) bs) dest [k..<m] s = (Inr fine, s1)"
      using assms(15) unfolding send_layers_def Let_def assms(9) m(1)
      by (auto simp: assms(4,6,7) andthen_def split: prod.splits sum.splits)
    then have "fine" "s1 = ?s1" using write_layers_all [OF w] by simp_all
    then show ?thesis
      using assms(15) w unfolding send_layers_def Let_def assms(9) m(1)
      by (auto simp: assms(4,6,7,9) same_status)
  qed
  have es: "of_req rid (cm_log ?s2) = layers_written rid bs dest m"
    using layers_written_extend [OF m(2), of rid bs dest] by (simp add: assms(8))
  have ok: "others_kept rid s s'" unfolding s' by (auto simp: others_kept_def item_keys)
  show ?thesis
  proof (cases "m = n")
    case True
    then have "all_sent n ns rid (of_req rid (cm_log s'))" unfolding s' all_sent_def using assms(1,2) es by simp
    then show ?thesis using ok True unfolding s' rid_ok_def by simp
  next
    case False
    then have "\<not> cur < step" by (auto simp: m_def)
    then have "m = 0 \<or> cur = step \<and> int m = layer + 1" using assms(10,12) by (auto simp: m_def)
    then have "being_sent n ns (step, layer) rid ?it (of_req rid (cm_log ?s2))"
      unfolding being_sent_def es using assms(1-6,13) m(3) by (intro exI [of _ bs] exI [of _ cur] exI [of _ dest] exI [of _ m]) simp
    then show ?thesis using ok False unfolding s' rid_ok_def by simp
  qed
qed

lemma send_item_ok:
  assumes "rid_ok n ns (step0, layer0) rid (Some it) (of_req rid (cm_log s))" "map_of (cm_items s) rid = Some it" "cm_layers s = n"
    "step0 < step \<or> step0 = step \<and> layer0 \<le> layer" "- 1 \<le> layer" "layer < int n" "step \<noteq> - 1"
    "send_item (\<lambda>_. True) (\<lambda>_ _. True) layer step rid it s = (Inr (), s')"
  shows "others_kept rid s s' \<and> rid_ok n ns (step, layer) rid (map_of (cm_items s') rid) (of_req rid (cm_log s'))"
proof (cases "mi_status it = None")
  case True
  then have "half_noted ns rid it (of_req rid (cm_log s))" using assms(1) by (auto simp: rid_ok_def being_sent_def)
  moreover have "s' = s" using True assms(8) by (simp add: send_item_def)
  ultimately show ?thesis using assms(2) others_kept_simps by (simp add: rid_ok_def)
next
  case False
  have "being_sent n ns (step0, layer0) rid it (of_req rid (cm_log s))" using assms(1) False by (auto simp: rid_ok_def half_noted_def)
  then obtain bs cur dest k where b: "src_noted ns rid = Some (bs, cur)" "dest_noted ns rid = Some dest" "mi_status it = Some ''init''"
    "mi_src it = Some (last_blocks (length dest) bs)" "mi_current it = Some cur" "mi_dest it = Some dest"
    "mi_layer it = None \<and> k = 0 \<or> mi_layer it = Some (int k)" "k \<le> n" "of_req rid (cm_log s) = layers_written rid bs dest k"
    "k = 0 \<or> cur = step0 \<and> int k = layer0 + 1 \<and> step0 \<noteq> - 1" unfolding being_sent_def fst_conv snd_conv by blast
  let ?it = "it\<lparr>mi_layer := Some (int k)\<rparr>"
  let ?s = "set_item rid ?it s"
  have it: "(if mi_layer it = None then it\<lparr>mi_layer := Some 0\<rparr> else it) = ?it" using b(7) by (cases it) auto
  have kept: "others_kept rid s ?s" by (rule others_kept_simps(2))
  show ?thesis
  proof (cases "cur > step")
    case True
    then have k: "k = 0" using b(10) assms(4) by auto
    have "s' = ?s" using assms(8) True b(3,5) unfolding send_item_def it Let_def by (auto split: option.splits if_splits)
    moreover have "being_sent n ns (step, layer) rid ?it (of_req rid (cm_log ?s))"
      unfolding being_sent_def using b k by (intro exI [of _ bs] exI [of _ cur] exI [of _ dest] exI [of _ 0]) simp
    ultimately show ?thesis using kept by (simp add: rid_ok_def)
  next
    case le: False
    have sl: "send_layers (\<lambda>_. True) layer step rid ?it cur ?s = (Inr (), s')"
      using assms(8) le b(3,5) unfolding send_item_def it Let_def by (auto split: option.splits cm_target.splits if_splits)
    have kk: "int k \<le> (if cur < step then int n else layer + 1)" using b(8,10) assms(4,5) le by auto
    have "others_kept rid ?s s' \<and> rid_ok n ns (step, layer) rid (map_of (cm_items s') rid) (of_req rid (cm_log s'))"
      by (rule send_layers_ok [OF b(1,2) _ _ _ _ _ _ _ _ assms(6,5,7) kk sl]) (use b assms(3) le in simp_all)
    then show ?thesis using others_kept_trans [OF kept] by blast
  qed
qed

subsection \<open>Runs\<close>

lemma rid_ok_none_sig: "rid_ok n ns sig rid None es = rid_ok n ns sig' rid None es"
  by (simp add: rid_ok_def)

text \<open>In the middle of a round: the requests still to come are as after the last round, the others as after this one.\<close>

lemma send_items_ok:
  assumes "send_items (\<lambda>_. True) (\<lambda>_ _. True) layer step items s = (Inr (), s')" "distinct (map fst items)"
    "\<forall>(rid, it) \<in> set items. map_of (cm_items s) rid = Some it \<and> rid_ok n ns (step0, layer0) rid (Some it) (of_req rid (cm_log s))"
    "\<forall>rid. rid \<notin> fst ` set items \<longrightarrow> rid_ok n ns (step, layer) rid (map_of (cm_items s) rid) (of_req rid (cm_log s))"
    "cm_layers s = n" "distinct (map fst (cm_items s))" "step0 < step \<or> step0 = step \<and> layer0 \<le> layer" "- 1 \<le> layer" "layer < int n" "step \<noteq> - 1"
  shows "messager_ok n ns (step, layer) s'"
  using assms(1-6)
proof (induction items arbitrary: s)
  case Nil
  then show ?case by (simp add: messager_ok_def)
next
  case (Cons x items)
  obtain rid it where x: "x = (rid, it)" by fastforce
  obtain s1 where s1: "send_item (\<lambda>_. True) (\<lambda>_ _. True) layer step rid it s = (Inr (), s1)"
    "send_items (\<lambda>_. True) (\<lambda>_ _. True) layer step items s1 = (Inr (), s')"
    using Cons.prems(1) x by (auto simp: andthen_def split: prod.splits sum.splits)
  have here: "map_of (cm_items s) rid = Some it" "rid_ok n ns (step0, layer0) rid (Some it) (of_req rid (cm_log s))"
    using Cons.prems(3) x by simp_all
  have k: "others_kept rid s s1" "rid_ok n ns (step, layer) rid (map_of (cm_items s1) rid) (of_req rid (cm_log s1))"
    using send_item_ok [OF here(2,1) Cons.prems(5) assms(7-10) s1(1)] by blast+
  have o: "map_of (cm_items s1) i = map_of (cm_items s) i" "of_req i (cm_log s1) = of_req i (cm_log s)" if "i \<noteq> rid" for i
    using k(1) that by (simp_all add: others_kept_def)
  show ?case
  proof (rule Cons.IH [OF s1(2)])
    show "distinct (map fst items)" using Cons.prems(2) by simp
    show "cm_layers s1 = n" "distinct (map fst (cm_items s1))" using k(1) Cons.prems(5,6) by (simp_all add: others_kept_def)
    show "\<forall>(i, t) \<in> set items. map_of (cm_items s1) i = Some t \<and> rid_ok n ns (step0, layer0) i (Some t) (of_req i (cm_log s1))"
    proof clarify
      fix i t assume i: "(i, t) \<in> set items"
      then have "i \<noteq> rid" using Cons.prems(2) x by (auto simp: image_iff)
      then show "map_of (cm_items s1) i = Some t \<and> rid_ok n ns (step0, layer0) i (Some t) (of_req i (cm_log s1))"
        using Cons.prems(3) i o by auto
    qed
    show "\<forall>i. i \<notin> fst ` set items \<longrightarrow> rid_ok n ns (step, layer) i (map_of (cm_items s1) i) (of_req i (cm_log s1))"
      using Cons.prems(4) k(2) o x by (metis fst_conv image_insert insert_iff list.simps(15))
  qed
qed

fun fresh_notes :: "cache_note list \<Rightarrow> cache_note list \<Rightarrow> bool" where
  "fresh_notes ns [] = True"
| "fresh_notes ns (m # ms) = (fresh_note ns m \<and> fresh_notes (ns @ [m]) ms)"

lemma take_notes_ok:
  "messager_ok k ns sig s \<Longrightarrow> fresh_notes ns ms \<Longrightarrow> take_notes ms s = (Inr (), s') \<Longrightarrow> messager_ok k (ns @ ms) sig s'"
proof (induction ms arbitrary: ns s)
  case (Cons m ms)
  obtain s1 where s1: "take_note m s = (Inr (), s1)" "take_notes ms s1 = (Inr (), s')"
    using Cons.prems(3) by (auto simp: andthen_def split: prod.splits sum.splits)
  show ?case using Cons.IH [OF take_note_ok [OF Cons.prems(1) _ s1(1)] _ s1(2)] Cons.prems(2) by simp
qed simp

text \<open>
  Runs of the thread of one rank: the notes so far, of which each request has one of each kind, and the signals of the last round,
  which never go back. Connections and writes succeed.
\<close>

inductive messager_run :: "nat \<Rightarrow> nat \<Rightarrow> cache_note list \<Rightarrow> int \<times> int \<Rightarrow> messager \<Rightarrow> bool" for rank n where
  mr_init: "messager_run rank n [] (- 1, - 1) (init_messager rank n)"
| mr_round: "messager_run rank n ns (step0, layer0) s \<Longrightarrow> fresh_notes ns news \<Longrightarrow>
    step0 < step \<or> step0 = step \<and> layer0 \<le> layer \<Longrightarrow> - 1 \<le> layer \<Longrightarrow> layer < int n \<Longrightarrow>
    messager_round (\<lambda>_. True) (\<lambda>_ _. True) news layer step s = (Inr (), s') \<Longrightarrow>
    messager_run rank n (ns @ news) (step, layer) s'"

lemma being_sent_idle: "being_sent n ns (- 1, layer) rid it es = being_sent n ns (- 1, layer') rid it es"
  by (simp add: being_sent_def)

lemma messager_ok_idle: "messager_ok n ns (- 1, layer) s \<Longrightarrow> messager_ok n ns (- 1, layer') s"
  unfolding messager_ok_def rid_ok_def being_sent_idle [of n ns layer _ _ _ layer'] by blast

lemma messager_run_ok: "messager_run rank n ns sig s \<Longrightarrow> messager_ok n ns sig s \<and> - 1 \<le> fst sig"
proof (induction rule: messager_run.induct)
  case mr_init
  then show ?case by (simp add: messager_ok_def rid_ok_def init_messager_def)
next
  case (mr_round ns step0 layer0 s news step layer s')
  obtain s1 where s1: "take_notes news s = (Inr (), s1)"
    "(if step = - 1 \<or> cm_items s1 = [] then (Inr (), s1)
      else send_items (\<lambda>_. True) (\<lambda>_ _. True) layer step (cm_items s1) s1) = (Inr (), s')"
    using mr_round.hyps(6) by (auto simp: messager_round_def andthen_def split: prod.splits sum.splits)
  have ok: "messager_ok n (ns @ news) (step0, layer0) s1"
    using take_notes_ok [OF _ mr_round.hyps(2) s1(1)] mr_round.IH by simp
  have ge: "- 1 \<le> step0" "- 1 \<le> step" using mr_round.IH mr_round.hyps(3) by auto
  consider (idle) "step = - 1" | (none) "step \<noteq> - 1" "cm_items s1 = []" | (send) "step \<noteq> - 1" "cm_items s1 \<noteq> []" by blast
  then have "messager_ok n (ns @ news) (step, layer) s'"
  proof cases
    case idle
    then have "step0 = - 1" "s' = s1" using ge mr_round.hyps(3) s1(2) by auto
    then show ?thesis using messager_ok_idle [of n "ns @ news" layer0 s1 layer] ok idle by simp
  next
    case none
    then have "s' = s1" using s1(2) by simp
    then show ?thesis using ok none by (simp add: messager_ok_def rid_ok_def)
  next
    case send
    have d: "distinct (map fst (cm_items s1))" "cm_layers s1 = n" using ok by (simp_all add: messager_ok_def)
    have r: "rid_ok n (ns @ news) (step0, layer0) i (map_of (cm_items s1) i) (of_req i (cm_log s1))" for i
      using ok by (simp add: messager_ok_def)
    show ?thesis
    proof (rule send_items_ok [OF _ d(1) _ _ d(2,1) mr_round.hyps(3-5) send(1)])
      show "send_items (\<lambda>_. True) (\<lambda>_ _. True) layer step (cm_items s1) s1 = (Inr (), s')" using s1(2) send by simp
      show "\<forall>(i, it) \<in> set (cm_items s1). map_of (cm_items s1) i = Some it \<and>
          rid_ok n (ns @ news) (step0, layer0) i (Some it) (of_req i (cm_log s1))"
      proof clarify
        fix i it assume "(i, it) \<in> set (cm_items s1)"
        then have "map_of (cm_items s1) i = Some it" using d(1) by simp
        then show "map_of (cm_items s1) i = Some it \<and> rid_ok n (ns @ news) (step0, layer0) i (Some it) (of_req i (cm_log s1))"
          using r [of i] by simp
      qed
      show "\<forall>i. i \<notin> fst ` set (cm_items s1) \<longrightarrow> rid_ok n (ns @ news) (step, layer) i (map_of (cm_items s1) i) (of_req i (cm_log s1))"
      proof (intro allI impI)
        fix i assume "i \<notin> fst ` set (cm_items s1)"
        then have m: "map_of (cm_items s1) i = None" by (simp add: map_of_eq_None_iff)
        show "rid_ok n (ns @ news) (step, layer) i (map_of (cm_items s1) i) (of_req i (cm_log s1))"
          using r [of i] unfolding m by (simp add: rid_ok_def)
      qed
    qed
  qed
  then show ?case using ge by simp
qed

text \<open>C33: as long as connections are made and no write fails, each request is noted once by the engine and once by the decoding instance, and the
  progress the workers report never goes back, the prefilling instance tells that a request is finished only when every layer of its
  cache has been written once, in order, from the blocks the engine noted to those the decoding instance noted, and it tells so once, however
  the notes and the progress of the workers come in.\<close>

theorem finished_after_all_layers:
  assumes "messager_run rank n ns sig s" "Told rid msg \<in> set (cm_log s)"
  shows "\<exists>bs cur dest. src_noted ns rid = Some (bs, cur) \<and> dest_noted ns rid = Some dest \<and>
    of_req rid (cm_log s) = map (\<lambda>l. Wrote rid l (last_blocks (length dest) bs) dest) [0..<n] @ [Told rid ''finished'']"
proof -
  have m: "Told rid msg \<in> set (of_req rid (cm_log s))" using assms(2) by (simp add: of_req_def event_request_def)
  have "rid_ok n ns sig rid (map_of (cm_items s) rid) (of_req rid (cm_log s))"
    using messager_run_ok [OF assms(1)] by (simp add: messager_ok_def)
  then have "all_sent n ns rid (of_req rid (cm_log s))"
    using m by (auto simp: rid_ok_def half_noted_def being_sent_def layers_written_def split: option.splits)
  then show ?thesis by (auto simp: all_sent_def layers_written_def)
qed

subsection \<open>Two layers, one request\<close>

abbreviation (input) one_round :: "int \<Rightarrow> int \<Rightarrow> cache_note list \<Rightarrow> messager \<Rightarrow> messager" where
  "one_round layer step ns s \<equiv> snd (messager_round (\<lambda>_. True) (\<lambda>_ _. True) ns layer step s)"

abbreviation (input) pair_notes :: "cache_note list" where
  "pair_notes \<equiv> [Src ''a'' [3, 4, 5] 0, DestIpc ''a'' [''0''] [8, 9]]"

abbreviation (input) half_sent :: messager where
  "half_sent \<equiv> one_round 0 0 pair_notes (init_messager 0 2)"

abbreviation (input) pair_sent :: messager where
  "pair_sent \<equiv> one_round 1 0 [] half_sent"

lemma pair_facts:
  "fst (messager_round (\<lambda>_. True) (\<lambda>_ _. True) pair_notes 0 0 (init_messager 0 2)) = Inr ()"
  "fst (messager_round (\<lambda>_. True) (\<lambda>_ _. True) [] 1 0 half_sent) = Inr ()"
  "cm_log pair_sent = [Wrote ''a'' 0 [4, 5] [8, 9], Wrote ''a'' 1 [4, 5] [8, 9], Told ''a'' ''finished'']"
  by code_simp+

lemma pair_run: "messager_run 0 2 pair_notes (0, 1) pair_sent"
proof -
  have f: "fresh_notes [] pair_notes" by (simp add: fresh_note_def is_src_def note_request_def)
  have "messager_run 0 2 ([] @ pair_notes) (0, 0) half_sent"
    by (rule mr_round [OF mr_init f]) (simp_all add: prod_eq_iff pair_facts(1))
  from mr_round [OF this, of "[]" 0 1 pair_sent] show ?thesis by (simp add: prod_eq_iff pair_facts(2))
qed

theorem finished_after_all_layers_witness:
  "\<exists>bs cur dest. src_noted pair_notes ''a'' = Some (bs, cur) \<and> dest_noted pair_notes ''a'' = Some dest \<and>
    of_req ''a'' (cm_log pair_sent) = map (\<lambda>l. Wrote ''a'' l (last_blocks (length dest) bs) dest) [0..<2] @ [Told ''a'' ''finished'']"
proof -
  have "Told ''a'' ''finished'' \<in> set (cm_log pair_sent)" unfolding pair_facts(3) by simp
  from finished_after_all_layers [OF pair_run this] show ?thesis .
qed

subsection \<open>A write that fails\<close>

lemma write_layers_fail:
  assumes "l \<in> set ls" "\<not> ok l" "src \<noteq> []"
  shows "\<exists>ws. write_layers ok rid src dest ls s = (Inr False, s\<lparr>cm_log := cm_log s @ ws @ [Told rid ''write cache error'']\<rparr>)"
  using assms(1)
proof (induction ls arbitrary: s)
  case (Cons x ls)
  show ?case
  proof (cases "ok x")
    case True
    then have "l \<in> set ls" using Cons.prems assms(2) by auto
    from Cons.IH [OF this, of "s\<lparr>cm_log := cm_log s @ [Wrote rid x src dest]\<rparr>"]
    obtain ws where "write_layers ok rid src dest ls (s\<lparr>cm_log := cm_log s @ [Wrote rid x src dest]\<rparr>) =
        (Inr False, s\<lparr>cm_log := cm_log s @ Wrote rid x src dest # ws @ [Told rid ''write cache error'']\<rparr>)" by auto
    then show ?thesis using True assms(3) by (intro exI [of _ "Wrote rid x src dest # ws"]) simp
  next
    case False
    then show ?thesis by (intro exI [of _ "[]"]) (simp add: tell_def)
  qed
qed simp

text \<open>C36: when a write fails in the round that would have sent the last layer, the request is told to have failed and then, by the code
  after the loop, to have finished; a token processor that reads both notices while it waits for another request
  keeps the second and takes the transfer for a success.\<close>

theorem failed_write_told_finished:
  assumes "mi_status it = Some ''init''" "mi_src it = Some src" "mi_dest it = Some dest" "mi_current it = Some cur"
    "mi_target it = Some (ToIpc devs)" "cm_rank s < length devs" "mi_layer it = Some (int k)" "cur < step"
    "k \<le> l" "l < cm_layers s" "\<not> ok rid l" "src \<noteq> []"
  shows "\<exists>s' ws. send_item conn ok layer step rid it s = (Inr (), s') \<and>
    cm_log s' = cm_log s @ ws @ [Told rid ''write cache error'', Told rid ''finished''] \<and>
    (\<forall>other m st. other \<noteq> rid \<and> st other = None \<longrightarrow>
       wait_prefill other [[(rid, ''write cache error'')], [(rid, ''finished'')], [(other, m)]] st =
       Some ([], st(rid \<mapsto> ''finished'', other \<mapsto> m)))"
proof -
  let ?s = "set_item rid it s"
  obtain ws where w: "write_layers (ok rid) rid src dest [k..<cm_layers s] ?s =
      (Inr False, ?s\<lparr>cm_log := cm_log s @ ws @ [Told rid ''write cache error'']\<rparr>)"
    using write_layers_fail [of l "[k..<cm_layers s]" "ok rid" src rid dest ?s] assms(9-12) by auto
  have "\<exists>s'. send_item conn ok layer step rid it s = (Inr (), s') \<and>
      cm_log s' = cm_log s @ ws @ [Told rid ''write cache error'', Told rid ''finished'']"
    using assms(1-8) w by (simp add: send_item_def send_layers_def Let_def)
  then show ?thesis by (auto simp: Let_def)
qed

abbreviation (input) last_item :: cm_item where
  "last_item \<equiv> \<lparr>mi_src = Some [4, 5], mi_current = Some 0, mi_target = Some (ToIpc [''0'']), mi_dest = Some [8, 9],
    mi_status = Some ''init'', mi_layer = Some 1\<rparr>"

theorem failed_write_told_finished_witness:
  "\<exists>s' ws. send_item (\<lambda>_. True) (\<lambda>_ _. False) 0 1 ''a'' last_item (init_messager 0 2) = (Inr (), s') \<and>
    cm_log s' = ws @ [Told ''a'' ''write cache error'', Told ''a'' ''finished'']"
proof -
  have l: "1 < cm_layers (init_messager 0 2)" "cm_rank (init_messager 0 2) < length [''0'']" "cm_log (init_messager 0 2) = []"
    by (simp_all add: init_messager_def)
  have "\<exists>s' ws. send_item (\<lambda>_. True) (\<lambda>_ _. False) 0 1 ''a'' last_item (init_messager 0 2) = (Inr (), s') \<and>
    cm_log s' = cm_log (init_messager 0 2) @ ws @ [Told ''a'' ''write cache error'', Told ''a'' ''finished'']"
    using failed_write_told_finished [of last_item "[4, 5]" "[8, 9]" 0 "[''0'']" "init_messager 0 2" 1 1 1 "\<lambda>_ _. False" "''a''" "\<lambda>_. True" 0] l(1,2)
    by (simp only: cm_item.simps simp_thms) auto
  then show ?thesis unfolding l(3) by simp
qed

end
