(* ===== verification/ReasoningParsers.thy ===== *)
theory ReasoningParsers
  imports PySeq "HOL-Library.Sublist"
begin

text \<open>
  The parsers that split what a model generates into reasoning and answer (\<open>reasoning/\<close>), for a piece of a stream and for the whole
  text. The pieces come with the tokens they were decoded from; a tag is one token. A piece for which nothing is to be sent is
  \<open>None\<close>. The tokenizer gives the ids of the tags.
\<close>

subsection \<open>Strings\<close>

text \<open>
  The operations on \<open>str\<close> that the splitting of generated text uses. A string is a list of characters; of the characters that
  \<open>strip\<close> without an argument removes those up to code point 255 are known.
\<close>

text \<open>\<open>s.find(sub)\<close>, with \<open>None\<close> for \<open>- 1\<close>.\<close>

fun str_find :: "string \<Rightarrow> string \<Rightarrow> nat option" where
  "str_find sub [] = (if sub = [] then Some 0 else None)"
| "str_find sub (c # cs) = (if prefix sub (c # cs) then Some 0 else map_option Suc (str_find sub cs))"

definition py_find :: "string \<Rightarrow> string \<Rightarrow> int" where
  "py_find sub s = (case str_find sub s of None \<Rightarrow> - 1 | Some n \<Rightarrow> int n)"

definition str_in :: "string \<Rightarrow> string \<Rightarrow> bool" where
  "str_in sub s = (str_find sub s \<noteq> None)"

definition py_partition :: "string \<Rightarrow> string \<Rightarrow> string \<times> string \<times> string" where
  "py_partition sep s =
     (case str_find sep s of None \<Rightarrow> (s, [], []) | Some n \<Rightarrow> (take n s, sep, drop (n + length sep) s))"

definition py_lstrip :: "(char \<Rightarrow> bool) \<Rightarrow> string \<Rightarrow> string" where
  "py_lstrip P s = dropWhile P s"

definition py_strip :: "(char \<Rightarrow> bool) \<Rightarrow> string \<Rightarrow> string" where
  "py_strip P s = rev (dropWhile P (rev (dropWhile P s)))"

definition is_space :: "char \<Rightarrow> bool" where
  "is_space c = (of_char c \<in> {9, 10, 11, 12, 13, 28, 29, 30, 31, 32, 133, 160 :: nat})"

definition newline :: char where
  "newline = CHR 0x0A"

subsection \<open>Finding\<close>

lemma str_find_bound: "str_find sub s = Some n \<Longrightarrow> n + length sub \<le> length s \<and> take (length sub) (drop n s) = sub"
proof (induction s arbitrary: n)
  case (Cons c cs)
  show ?case
  proof (cases "prefix sub (c # cs)")
    case True
    then show ?thesis using Cons.prems prefix_length_le [OF True] by (auto simp: prefix_def)
  next
    case False
    then show ?thesis using Cons by auto
  qed
qed (auto split: if_splits)

lemma str_in_sublist: "str_in sub s \<longleftrightarrow> sublist sub s"
  by (induction s) (auto simp: str_in_def sublist_Cons_right)

lemma str_find_none: "str_find sub s = None \<longleftrightarrow> \<not> sublist sub s"
  using str_in_sublist [of sub s] unfolding str_in_def by blast

text \<open>
  A tag whose first character occurs nowhere else in it cannot overlap itself: behind text that does not contain it, it is found where
  that text ends.
\<close>

definition is_tag :: "string \<Rightarrow> bool" where
  "is_tag tag = (case tag of [] \<Rightarrow> False | c # cs \<Rightarrow> c \<notin> set cs)"

lemma no_overlap:
  assumes "is_tag tag" "xs \<noteq> []" "prefix tag (xs @ tag @ ys)" "\<not> sublist tag xs"
  shows False
proof -
  obtain c cs where tag: "tag = c # cs" "c \<notin> set cs" using assms(1) by (auto simp: is_tag_def split: list.splits)
  have less: "length xs < length tag"
  proof (rule ccontr)
    assume "\<not> length xs < length tag"
    then have "prefix tag xs" using prefix_length_prefix [OF assms(3), of xs] by simp
    then show False using assms(4) by (simp add: prefix_imp_sublist)
  qed
  obtain zs where zs: "xs @ tag @ ys = tag @ zs" using assms(3) by (auto simp: prefix_def)
  have "(tag @ zs) ! length xs = tag ! length xs" using less by (simp add: nth_append)
  moreover have "(xs @ tag @ ys) ! length xs = c" using tag(1) by (simp add: nth_append)
  ultimately have "tag ! length xs = c" unfolding zs by simp
  moreover have "tag ! length xs = cs ! (length xs - 1)" using assms(2) tag(1) by (cases xs) simp_all
  moreover have "length xs - 1 < length cs" using less tag(1) assms(2) by (cases xs) simp_all
  ultimately show False using tag(2) nth_mem by fastforce
qed

lemma find_tag: "is_tag tag \<Longrightarrow> \<not> sublist tag xs \<Longrightarrow> str_find tag (xs @ tag @ ys) = Some (length xs)"
proof (induction xs)
  case Nil
  then show ?case by (cases tag) (simp_all add: is_tag_def)
next
  case (Cons x xs)
  have "\<not> prefix tag ((x # xs) @ tag @ ys)" using no_overlap [OF Cons.prems(1) _ _ Cons.prems(2)] by blast
  moreover have "\<not> sublist tag xs" using Cons.prems(2) by (simp add: sublist_Cons_right)
  ultimately show ?case using Cons.IH Cons.prems(1) by simp
qed

lemma partition_tag: "is_tag tag \<Longrightarrow> \<not> sublist tag xs \<Longrightarrow> py_partition tag (xs @ tag @ ys) = (xs, tag, ys)"
  by (simp add: py_partition_def find_tag)

lemma str_in_tag [simp]: "str_in tag (xs @ tag @ ys)"
  by (simp add: str_in_sublist sublist_appendI)

subsection \<open>What a parser is\<close>

record delta_message =
  dm_reasoning :: "string option"
  dm_content :: "string option"

definition think_start :: string where
  "think_start = ''<think>''"

definition think_end :: string where
  "think_end = ''</think>''"

text \<open>The arguments: text so far, piece, tokens so far, tokens of the piece.\<close>

type_synonym stream_parser = "string \<Rightarrow> string \<Rightarrow> token list \<Rightarrow> token list \<Rightarrow> delta_message option res"

record reasoning_parser =
  rp_streaming :: stream_parser
  rp_whole :: "string \<Rightarrow> string option \<times> string option"
  rp_ernie_x1 :: bool

subsection \<open>Qwen3\<close>

text \<open>When both tags are in a piece, a method of strings is called on the list of tokens.\<close>

definition qwen3_streaming :: "token option \<Rightarrow> token \<Rightarrow> stream_parser" where
  "qwen3_streaming start_id end_id previous_text delta_text previous_ids delta_ids =
     (let has_start = (\<lambda>ids. case start_id of None \<Rightarrow> False | Some i \<Rightarrow> i \<in> set ids) in
      if length delta_ids = 1 \<and> (has_start delta_ids \<or> end_id \<in> set delta_ids) then Inr None
      else if end_id \<in> set delta_ids then
        (if has_start delta_ids then Inl AttributeError
         else
           let end_index = py_find think_end delta_text;
               content = py_slice (end_index + int (length think_end)) (int (length delta_text)) delta_text
           in Inr (Some \<lparr>dm_reasoning = Some (py_slice 0 end_index delta_text),
                         dm_content = (if content = [] then None else Some content)\<rparr>))
      else if end_id \<in> set previous_ids then Inr (Some \<lparr>dm_reasoning = None, dm_content = Some delta_text\<rparr>)
      else if has_start previous_ids then Inr (Some \<lparr>dm_reasoning = Some delta_text, dm_content = None\<rparr>)
      else if has_start delta_ids then
        Inr (Some \<lparr>dm_reasoning = Some (py_slice (py_find think_start delta_text + int (length think_start))
                                         (int (length delta_text)) delta_text),
                   dm_content = Some []\<rparr>)
      else Inr (Some \<lparr>dm_reasoning = Some delta_text, dm_content = None\<rparr>))"

definition qwen3_whole :: "string \<Rightarrow> string option \<times> string option" where
  "qwen3_whole s =
     (if \<not> str_in think_end s then (None, Some s)
      else if str_in think_start s then
        let rest = snd (snd (py_partition think_start s)) in
        if \<not> str_in think_end rest then (None, Some rest)
        else (case py_partition think_end rest of (reasoning, _, content) \<Rightarrow>
                (Some reasoning, if content = [] then None else Some content))
      else (case py_partition think_end s of (reasoning, _, content) \<Rightarrow>
              (Some (py_strip is_space reasoning),
               if py_strip is_space content = [] then None else Some (py_strip is_space content))))"

definition qwen3_parser :: "token option \<Rightarrow> token \<Rightarrow> reasoning_parser" where
  "qwen3_parser start_id end_id = \<lparr>rp_streaming = qwen3_streaming start_id end_id, rp_whole = qwen3_whole, rp_ernie_x1 = False\<rparr>"

subsection \<open>Ernie VL\<close>

text \<open>A piece of several tokens with the tag in it reads an attribute the parser does not have.\<close>

definition ernie_vl_streaming :: "token \<Rightarrow> stream_parser" where
  "ernie_vl_streaming end_id previous_text delta_text previous_ids delta_ids =
     (if delta_ids = [end_id] then Inr None
      else if end_id \<in> set delta_ids then Inl AttributeError
      else if end_id \<in> set previous_ids then Inr (Some \<lparr>dm_reasoning = None, dm_content = Some delta_text\<rparr>)
      else Inr (Some \<lparr>dm_reasoning = Some delta_text, dm_content = None\<rparr>))"

definition ernie_vl_whole :: "string \<Rightarrow> string option \<times> string option" where
  "ernie_vl_whole s =
     (if \<not> str_in think_end s then (Some [], Some s)
      else (case py_partition think_end s of (reasoning, _, content) \<Rightarrow> (Some reasoning, Some content)))"

definition ernie_vl_parser :: "token \<Rightarrow> reasoning_parser" where
  "ernie_vl_parser end_id = \<lparr>rp_streaming = ernie_vl_streaming end_id, rp_whole = ernie_vl_whole, rp_ernie_x1 = False\<rparr>"

subsection \<open>Ernie X1\<close>

definition response_start :: string where
  "response_start = ''<response>''"

definition response_end :: string where
  "response_end = ''</response>''"

definition tool_call_start :: string where
  "tool_call_start = ''<tool_call>''"

definition ernie_x1_streaming :: "token \<Rightarrow> stream_parser" where
  "ernie_x1_streaming end_id previous_text delta_text previous_ids delta_ids =
     (if delta_ids = [end_id] then Inr None
      else if \<not> suffix think_end previous_text \<and> \<not> str_in think_end previous_text then
        (if delta_text = [newline] then Inr None
         else if suffix [newline] previous_text \<and> prefix think_end delta_text then Inr None
         else if prefix think_end delta_text then Inr None
         else Inr (Some \<lparr>dm_reasoning = Some delta_text, dm_content = None\<rparr>))
      else
        let remaining = previous_text @ delta_text;
            after_think = py_lstrip (\<lambda>c. c = newline)
              (py_slice (py_find think_end remaining + int (length think_end)) (int (length remaining)) remaining)
        in
        if prefix tool_call_start after_think then Inr None
        else if prefix response_start after_think then
          (if delta_text = response_start then Inr None
           else if delta_text = [newline] \<and> suffix response_start previous_text then Inr None
           else if delta_text = [newline] then Inr None
           else if suffix [newline] previous_text \<and> delta_text = response_end then Inr None
           else if delta_text = response_end then Inr None
           else Inr (Some \<lparr>dm_reasoning = None, dm_content = Some delta_text\<rparr>))
        else Inr None)"

definition ernie_x1_whole :: "string \<Rightarrow> string option \<times> string option" where
  "ernie_x1_whole s =
     (case str_find think_end s of
        None \<Rightarrow> (Some s, Some [])
      | Some think_end_pos \<Rightarrow>
          let before = take think_end_pos s;
              reasoning = (if 0 < think_end_pos \<and> last before = newline then butlast before else before);
              remaining = py_lstrip (\<lambda>c. c = newline) (drop (think_end_pos + length think_end) s)
          in
          (Some reasoning,
           Some (if prefix response_start remaining then
                   let text = py_lstrip (\<lambda>c. c = newline) (drop (length response_start) remaining) in
                   (case str_find response_end text of
                      None \<Rightarrow> text
                    | Some e \<Rightarrow> if 0 < e \<and> text ! (e - 1) = newline then take (e - 1) text else take e text)
                 else [])))"

definition ernie_x1_parser :: "token \<Rightarrow> reasoning_parser" where
  "ernie_x1_parser end_id = \<lparr>rp_streaming = ernie_x1_streaming end_id, rp_whole = ernie_x1_whole, rp_ernie_x1 = True\<rparr>"

lemmas parser_fields = qwen3_parser_def ernie_vl_parser_def ernie_x1_parser_def

lemma think_tags [simp]: "is_tag think_start" "is_tag think_end" "is_tag response_start" "is_tag response_end" "is_tag tool_call_start"
  by (simp_all add: is_tag_def think_start_def think_end_def response_start_def response_end_def tool_call_start_def)

end
