(* ===== verification/ResponseText.thy ===== *)
theory ResponseText
  imports ReasoningParsers
begin

text \<open>
  From the tokens of a result to its text: the processors of Ernie models (\<open>input/ernie4_5_processor.py\<close>, which the one with images in
  \<open>input/ernie4_5_vl_processor\<close> inherits) and of the other text models (\<open>input/text_processor.py\<close>), for a client that reads a stream and for one that waits for the whole answer. The decoding of tokens
  is the tokenizer's; no tool parser is configured. \<open>result_dict\<close> is the dictionary of a result; \<open>None\<close> in \<open>rs_buffering\<close> is a missing
  key, and \<open>rs_tool_calls\<close> says whether the key \<open>tool_calls\<close> is there.
\<close>

record tokenizer =
  tk_eos :: token
  tk_decode :: "token list \<Rightarrow> nat \<Rightarrow> nat \<Rightarrow> string \<times> nat \<times> nat"

record decoding =
  dc_prefix :: nat
  dc_read :: nat
  dc_ids :: "token list"
  dc_text :: string

type_synonym decode_status = "req_id \<Rightarrow> decoding option"

text \<open>The processors: of Ernie text models, of Ernie models with images, and of the other text models.\<close>

datatype family = Ernie | Ernie_VL | General

record processor =
  pr_family :: family
  pr_tokenizer :: tokenizer
  pr_parser :: "reasoning_parser option"

record result_dict =
  rs_id :: req_id
  rs_ids :: "token list"
  rs_finished :: bool
  rs_error_code :: int
  rs_error_msg :: "string option"
  rs_first_time :: bool
  rs_send_idx :: int
  rs_text :: "string option"
  rs_reasoning :: "string option"
  rs_raw :: "string option"
  rs_buffering :: "bool option"
  rs_tool_calls :: bool

subsection \<open>Decoding a piece\<close>

definition new_decoding :: decoding where
  "new_decoding = \<lparr>dc_prefix = 0, dc_read = 0, dc_ids = [], dc_text = []\<rparr>"

text \<open>
  The list of the tokens so far is extended in place after it has been read, so that the caller, who is given the same list, finds
  the new tokens among the previous ones.
\<close>

definition ids2tokens ::
  "tokenizer \<Rightarrow> token list \<Rightarrow> req_id \<Rightarrow> decode_status \<Rightarrow> (string \<times> token list \<times> string) \<times> decode_status" where
  "ids2tokens tok ids rid st =
     (let d = (case st rid of None \<Rightarrow> new_decoding | Some d \<Rightarrow> d) in
      case tk_decode tok (dc_ids d @ ids) (dc_prefix d) (dc_read d) of (decode_str, p, r) \<Rightarrow>
        ((decode_str, dc_ids d @ ids, dc_text d),
         st(rid \<mapsto> \<lparr>dc_prefix = p, dc_read = r, dc_ids = dc_ids d @ ids, dc_text = dc_text d @ decode_str\<rparr>)))"

definition without_eos :: "tokenizer \<Rightarrow> bool \<Rightarrow> result_dict \<Rightarrow> token list" where
  "without_eos tok include_stop r =
     (let ids = rs_ids r in
      if rs_finished r \<and> ids \<noteq> [] \<and> \<not> include_stop \<and> last ids = tk_eos tok then butlast ids else ids)"

text \<open>Whether the parser is asked; a missing choice of the request counts as off for Ernie text models and as on for the others.\<close>

definition parser_for :: "processor \<Rightarrow> bool option \<Rightarrow> reasoning_parser option" where
  "parser_for P thinking =
     (case pr_parser P of None \<Rightarrow> None
      | Some p \<Rightarrow>
          (case pr_family P of
             Ernie \<Rightarrow> if thinking = Some True \<or> rp_ernie_x1 p then Some p else None
           | Ernie_VL \<Rightarrow> if thinking \<noteq> Some False \<or> rp_ernie_x1 p then Some p else None
           | General \<Rightarrow> if thinking \<noteq> Some False then Some p else None))"

definition drop_status :: "req_id \<Rightarrow> bool \<Rightarrow> decode_status \<Rightarrow> decode_status" where
  "drop_status rid is_end st = (if is_end then st(rid := None) else st)"

subsection \<open>A piece of a stream\<close>

definition or_empty :: "string option \<Rightarrow> string" where
  "or_empty s = (case s of None \<Rightarrow> [] | Some t \<Rightarrow> t)"

text \<open>Only the processors of Ernie models give the outputs a text before the parser is asked.\<close>

definition fresh_outputs :: "family \<Rightarrow> string \<Rightarrow> result_dict \<Rightarrow> result_dict" where
  "fresh_outputs f delta_text r =
     (case f of
        General \<Rightarrow> r\<lparr>rs_raw := Some delta_text\<rparr>
      | _ \<Rightarrow> r\<lparr>rs_raw := Some delta_text, rs_text := Some delta_text, rs_reasoning := Some [], rs_buffering := Some False,
                 rs_tool_calls := True\<rparr>)"

lemma fresh_of_ernie [simp]: "pr_family P \<noteq> General \<Longrightarrow> fresh_outputs (pr_family P) d r = fresh_outputs Ernie d r"
  by (cases "pr_family P") (simp_all add: fresh_outputs_def)

definition set_delta :: "delta_message option \<Rightarrow> result_dict \<Rightarrow> result_dict" where
  "set_delta m r =
     (case m of
        None \<Rightarrow> r\<lparr>rs_buffering := Some True\<rparr>
      | Some d \<Rightarrow> r\<lparr>rs_text := Some (or_empty (dm_content d)), rs_reasoning := Some (or_empty (dm_reasoning d))\<rparr>)"

definition process_streaming ::
  "processor \<Rightarrow> bool option \<Rightarrow> bool \<Rightarrow> result_dict \<Rightarrow> decode_status \<Rightarrow> (decode_status, result_dict) outcome" where
  "process_streaming P thinking include_stop r st =
     (let ids = without_eos (pr_tokenizer P) include_stop r in
      case ids2tokens (pr_tokenizer P) ids (rs_id r) st of ((delta_text, previous_ids, previous_text), st1) \<Rightarrow>
        let r1 = fresh_outputs (pr_family P) delta_text r in
        case (if rs_finished r then None else parser_for P thinking) of
          None \<Rightarrow> (Inr r1, drop_status (rs_id r) (rs_finished r) st1)
        | Some p \<Rightarrow>
            (case rp_streaming p previous_text delta_text previous_ids ids of
               Inl e \<Rightarrow> (Inl e, st1)
             | Inr m \<Rightarrow> (Inr (set_delta m r1), drop_status (rs_id r) (rs_finished r) st1)))"

subsection \<open>The whole answer\<close>

definition set_whole :: "reasoning_parser option \<Rightarrow> string \<Rightarrow> result_dict \<Rightarrow> result_dict" where
  "set_whole p full_text r =
     (case p of
        None \<Rightarrow> r\<lparr>rs_text := Some full_text, rs_raw := Some full_text\<rparr>
      | Some p \<Rightarrow>
          (case rp_whole p full_text of (reasoning, answer) \<Rightarrow>
             r\<lparr>rs_text := answer, rs_reasoning := reasoning, rs_raw := Some full_text\<rparr>))"

definition process_normal :: "processor \<Rightarrow> bool option \<Rightarrow> bool \<Rightarrow> result_dict \<Rightarrow> decode_status \<Rightarrow> result_dict \<times> decode_status" where
  "process_normal P thinking include_stop r st =
     (case ids2tokens (pr_tokenizer P) (without_eos (pr_tokenizer P) include_stop r) (rs_id r) st of
        ((delta_text, previous_ids, previous_text), st1) \<Rightarrow>
          (if rs_finished r then set_whole (parser_for P thinking) (previous_text @ delta_text) r else r,
           drop_status (rs_id r) (rs_finished r) st1))"

end
