(* ===== verification/ChatResponse.thy ===== *)
theory ChatResponse
  imports ResponseText
begin

text \<open>
  The two generators of chat completions (\<open>entrypoints/openai/serving_chat.py\<close>): one sends chunks as results come, the other
  collects them. What comes from the queue of the request is a list of events: a list of results, or a time out of ten seconds with
  the health of the workers. Log probabilities, names and times are left out.
\<close>

datatype event = Got "result_dict list" | Waited bool

type_synonym usage = "nat \<times> nat"

record chat_request =
  cr_max_tokens :: "int option"
  cr_max_completion :: "int option"
  cr_template_thinking :: "bool option"
  cr_metadata_thinking :: "bool option"
  cr_include_stop :: bool
  cr_include_usage :: bool
  cr_continuous_usage :: bool
  cr_chunk_size :: int
  cr_return_ids :: bool
  cr_prompt :: "token list"

record chat_choice =
  ch_content :: "string option"
  ch_reasoning :: "string option"
  ch_finish :: "string option"
  ch_ids :: "token list option"

datatype chunk = RoleChunk "usage option" | Choices "chat_choice list" "usage option" | UsageChunk usage | ErrorChunk py_error | Done

definition thinking_of :: "chat_request \<Rightarrow> bool option" where
  "thinking_of rq = (case cr_template_thinking rq of None \<Rightarrow> cr_metadata_thinking rq | Some b \<Rightarrow> Some b)"

text \<open>\<open>request.max_completion_tokens or request.max_tokens\<close>.\<close>

definition token_limit :: "chat_request \<Rightarrow> int option" where
  "token_limit rq =
     (case cr_max_completion rq of None \<Rightarrow> cr_max_tokens rq | Some m \<Rightarrow> if m = 0 then cr_max_tokens rq else Some m)"

definition finish_reason :: "chat_request \<Rightarrow> nat \<Rightarrow> result_dict \<Rightarrow> string" where
  "finish_reason rq tokens r =
     (if (case rs_error_msg r of None \<Rightarrow> False | Some m \<Rightarrow> str_in ''Recover'' m) then ''recover_stop''
      else if cr_max_tokens rq = None \<and> cr_max_completion rq = None \<or> Some (int tokens) \<noteq> token_limit rq then ''stop''
      else ''length'')"

subsection \<open>The stream\<close>

record chat_state =
  cs_status :: decode_status
  cs_first :: bool
  cs_started :: bool
  cs_tokens :: nat
  cs_open :: int
  cs_choices :: "chat_choice list"
  cs_usage :: "usage option"
  cs_waiting :: nat
  cs_sent :: "chunk list"

definition init_chat :: "decode_status \<Rightarrow> chat_state" where
  "init_chat st =
     \<lparr>cs_status = st, cs_first = True, cs_started = False, cs_tokens = 0, cs_open = 1, cs_choices = [], cs_usage = None, cs_waiting = 0,
      cs_sent = []\<rparr>"

definition send_role :: "chat_request \<Rightarrow> chat_state \<Rightarrow> chat_state" where
  "send_role rq s =
     (if cs_first s then
        let u = (if cr_continuous_usage rq then Some (length (cr_prompt rq), 0) else None) in
        s\<lparr>cs_sent := cs_sent s @ replicate (nat (cs_open s)) (RoleChunk u), cs_usage := u, cs_first := False\<rparr>
      else s)"

definition flush_choices :: "chat_state \<Rightarrow> chat_state" where
  "flush_choices s =
     (if cs_choices s = [] then s else s\<lparr>cs_sent := cs_sent s @ [Choices (cs_choices s) (cs_usage s)], cs_choices := []\<rparr>)"

definition choice_of :: "chat_request \<Rightarrow> nat \<Rightarrow> result_dict \<Rightarrow> chat_choice" where
  "choice_of rq tokens r =
     \<lparr>ch_content = rs_text r, ch_reasoning = rs_reasoning r,
      ch_finish = (if rs_finished r then Some (finish_reason rq tokens r) else None),
      ch_ids = (if cr_return_ids rq then Some (rs_ids r) else None)\<rparr>"

text \<open>A result whose text is not held back becomes a choice, and choices are sent when there are enough or the request is finished.\<close>

definition add_choice :: "chat_request \<Rightarrow> result_dict \<Rightarrow> chat_state \<Rightarrow> chat_state" where
  "add_choice rq r s =
     (let s1 = s\<lparr>cs_open := (if rs_finished r then cs_open s - 1 else cs_open s),
                 cs_usage := (if cr_continuous_usage rq then Some (length (cr_prompt rq), cs_tokens s) else cs_usage s),
                 cs_choices := cs_choices s @ [choice_of rq (cs_tokens s) r]\<rparr>
      in if int (length (cs_choices s1)) = cr_chunk_size rq \<or> rs_finished r then flush_choices s1 else s1)"

definition send_reply :: "processor \<Rightarrow> chat_request \<Rightarrow> result_dict \<Rightarrow> chat_state \<Rightarrow> (chat_state, unit) outcome" where
  "send_reply P rq r s =
     (if rs_error_code r \<noteq> 200 then (Inl ValueError, s)
      else
        (case process_streaming P (thinking_of rq) (cr_include_stop rq) r (cs_status s) of
           (Inl e, st) \<Rightarrow> (Inl e, s\<lparr>cs_status := st\<rparr>)
         | (Inr r1, st) \<Rightarrow>
             let s1 = s\<lparr>cs_status := st\<rparr> in
             if \<not> rs_first_time r \<and> \<not> cs_started s then (Inl PyException, s1)
             else
               let s2 = send_role rq (s1\<lparr>cs_started := True\<rparr>) in
               if \<not> rs_tool_calls r1 then (Inl KeyError, s2)
               else
                 let s3 = s2\<lparr>cs_tokens := cs_tokens s2 + length (rs_ids r)\<rparr> in
                 (case rs_buffering r1 of
                    None \<Rightarrow> (Inl KeyError, s3)
                  | Some b \<Rightarrow> (Inr (), if b then s3 else add_choice rq r1 s3))))"

fun send_replies :: "processor \<Rightarrow> chat_request \<Rightarrow> result_dict list \<Rightarrow> chat_state \<Rightarrow> (chat_state, unit) outcome" where
  "send_replies P rq [] s = (Inr (), s)"
| "send_replies P rq (r # rs) s = andthen (send_reply P rq r s) (\<lambda>_ s1. send_replies P rq rs s1)"

definition stream_event :: "processor \<Rightarrow> chat_request \<Rightarrow> event \<Rightarrow> chat_state \<Rightarrow> (chat_state, unit) outcome" where
  "stream_event P rq ev s =
     (case ev of
        Got rs \<Rightarrow> andthen (send_replies P rq rs (s\<lparr>cs_waiting := 0\<rparr>)) (\<lambda>_ s1. (Inr (), flush_choices s1))
      | Waited healthy \<Rightarrow>
          let s1 = s\<lparr>cs_waiting := cs_waiting s + 10\<rparr> in
          if cs_waiting s1 \<noteq> 300 then (Inr (), s1)
          else if healthy then (Inr (), s1\<lparr>cs_waiting := 0\<rparr>)
          else (Inl ValueError, flush_choices s1))"

text \<open>The result is whether the request has finished; the events may end before it has.\<close>

fun stream_events :: "processor \<Rightarrow> chat_request \<Rightarrow> event list \<Rightarrow> chat_state \<Rightarrow> (chat_state, bool) outcome" where
  "stream_events P rq [] s = (Inr (cs_open s \<le> 0), s)"
| "stream_events P rq (e # es) s =
     (if cs_open s \<le> 0 then (Inr True, s)
      else andthen (stream_event P rq e s) (\<lambda>_ s1. stream_events P rq es s1))"

text \<open>The chunks sent, whether the stream has ended, and what is kept of tokens not decoded.\<close>

definition chat_stream :: "processor \<Rightarrow> chat_request \<Rightarrow> event list \<Rightarrow> decode_status \<Rightarrow> (chunk list \<times> bool) \<times> decode_status" where
  "chat_stream P rq evs st =
     (case stream_events P rq evs (init_chat st) of
        (Inl e, s) \<Rightarrow> ((cs_sent s @ [ErrorChunk e, Done], True), cs_status s)
      | (Inr False, s) \<Rightarrow> ((cs_sent s, False), cs_status s)
      | (Inr True, s) \<Rightarrow>
          ((cs_sent s @ (if cr_include_usage rq then [UsageChunk (length (cr_prompt rq), cs_tokens s)] else []) @ [Done], True),
           cs_status s))"

subsection \<open>The whole answer\<close>

record chat_answer =
  ca_content :: "string option"
  ca_reasoning :: "string option"
  ca_finish :: string
  ca_ids :: "token list option"
  ca_usage :: usage

record full_state =
  fs_status :: decode_status
  fs_tokens :: nat
  fs_ids :: "token list"
  fs_waiting :: nat

definition init_full :: "decode_status \<Rightarrow> full_state" where
  "init_full st = \<lparr>fs_status = st, fs_tokens = 0, fs_ids = [], fs_waiting = 0\<rparr>"

text \<open>The results up to the one that finishes the request, with its dictionary.\<close>

fun collect_replies :: "processor \<Rightarrow> chat_request \<Rightarrow> result_dict list \<Rightarrow> full_state \<Rightarrow> (full_state, result_dict option) outcome" where
  "collect_replies P rq [] s = (Inr None, s)"
| "collect_replies P rq (r # rs) s =
     (if rs_error_code r \<noteq> 200 then (Inl ValueError, s)
      else
        (case process_normal P (thinking_of rq) (cr_include_stop rq) r (fs_status s) of (r1, st) \<Rightarrow>
           let s1 = s\<lparr>fs_status := st, fs_tokens := fs_tokens s + length (rs_ids r1), fs_ids := fs_ids s @ rs_ids r1\<rparr> in
           if rs_finished r1 then (Inr (Some r1), s1) else collect_replies P rq rs s1))"

fun collect_events :: "processor \<Rightarrow> chat_request \<Rightarrow> event list \<Rightarrow> full_state \<Rightarrow> (full_state, result_dict option) outcome" where
  "collect_events P rq [] s = (Inr None, s)"
| "collect_events P rq (Got rs # es) s =
     andthen (collect_replies P rq rs (s\<lparr>fs_waiting := 0\<rparr>))
       (\<lambda>done s1. case done of None \<Rightarrow> collect_events P rq es s1 | Some r \<Rightarrow> (Inr (Some r), s1))"
| "collect_events P rq (Waited healthy # es) s =
     (let s1 = s\<lparr>fs_waiting := fs_waiting s + 10\<rparr> in
      if fs_waiting s1 \<noteq> 300 then collect_events P rq es s1
      else if healthy then collect_events P rq es (s1\<lparr>fs_waiting := 0\<rparr>)
      else (Inl ValueError, s1))"

definition chat_full ::
  "processor \<Rightarrow> chat_request \<Rightarrow> event list \<Rightarrow> decode_status \<Rightarrow> (decode_status, chat_answer option) outcome" where
  "chat_full P rq evs st =
     (case collect_events P rq evs (init_full st) of
        (Inl e, s) \<Rightarrow> (Inl e, fs_status s)
      | (Inr None, s) \<Rightarrow> (Inr None, fs_status s)
      | (Inr (Some r), s) \<Rightarrow>
          (Inr (Some \<lparr>ca_content = rs_text r, ca_reasoning = rs_reasoning r, ca_finish = finish_reason rq (fs_tokens s) r,
                      ca_ids = (if cr_return_ids rq then Some (fs_ids s) else None), ca_usage = (length (cr_prompt rq), fs_tokens s)\<rparr>), fs_status s))"

end
