(* ===== verification/ChatResponseProps.thy ===== *)
theory ChatResponseProps
  imports ChatResponse
begin

text \<open>What is sent in a stream adds up to the answer that is sent at once.\<close>

subsection \<open>The choices of a stream\<close>

fun chunk_choices :: "chunk \<Rightarrow> chat_choice list" where
  "chunk_choices (Choices cs u) = cs"
| "chunk_choices _ = []"

definition all_choices :: "chat_state \<Rightarrow> chat_choice list" where
  "all_choices s = concat (map chunk_choices (cs_sent s)) @ cs_choices s"

lemma all_choices_update:
  "all_choices (s\<lparr>cs_open := a, cs_usage := u, cs_choices := xs\<rparr>) = concat (map chunk_choices (cs_sent s)) @ xs"
  by (simp add: all_choices_def)

lemma flush_facts [simp]:
  "all_choices (flush_choices s) = all_choices s" "cs_status (flush_choices s) = cs_status s" "cs_tokens (flush_choices s) = cs_tokens s"
  "cs_open (flush_choices s) = cs_open s" "cs_started (flush_choices s) = cs_started s" "cs_choices (flush_choices s) = []"
  by (simp_all add: flush_choices_def all_choices_def)

lemma role_facts [simp]:
  "all_choices (send_role rq s) = all_choices s" "cs_status (send_role rq s) = cs_status s" "cs_tokens (send_role rq s) = cs_tokens s"
  "cs_open (send_role rq s) = cs_open s" "cs_started (send_role rq s) = cs_started s"
  by (simp_all add: send_role_def all_choices_def Let_def)

lemma add_choice_facts [simp]:
  "all_choices (add_choice rq r s) = all_choices s @ [choice_of rq (cs_tokens s) r]"
  "cs_status (add_choice rq r s) = cs_status s" "cs_tokens (add_choice rq r s) = cs_tokens s" "cs_started (add_choice rq r s) = cs_started s"
  "cs_open (add_choice rq r s) = (if rs_finished r then cs_open s - 1 else cs_open s)"
  by (simp_all add: add_choice_def Let_def all_choices_update) (simp add: all_choices_def)

text \<open>The results after the processor, in order.\<close>

fun process_all :: "processor \<Rightarrow> chat_request \<Rightarrow> result_dict list \<Rightarrow> decode_status \<Rightarrow> (decode_status, result_dict list) outcome" where
  "process_all P rq [] st = (Inr [], st)"
| "process_all P rq (r # rs) st =
     andthen (process_streaming P (thinking_of rq) (cr_include_stop rq) r st) (\<lambda>r1 st1.
     andthen (process_all P rq rs st1) (\<lambda>rs1 st2. (Inr (r1 # rs1), st2)))"

fun choices_for :: "chat_request \<Rightarrow> nat \<Rightarrow> result_dict list \<Rightarrow> chat_choice list" where
  "choices_for rq n [] = []"
| "choices_for rq n (r # rs) =
     (if rs_buffering r = Some True then [] else [choice_of rq (n + length (rs_ids r)) r]) @ choices_for rq (n + length (rs_ids r)) rs"

definition streamable :: "result_dict \<Rightarrow> bool" where
  "streamable r = (rs_tool_calls r \<and> rs_buffering r \<noteq> None \<and> (rs_finished r \<longrightarrow> rs_buffering r = Some False))"

lemma set_delta_facts [simp]:
  "rs_ids (set_delta m r) = rs_ids r" "rs_finished (set_delta m r) = rs_finished r" "rs_tool_calls (set_delta m r) = rs_tool_calls r"
  "rs_error_msg (set_delta m r) = rs_error_msg r"
  by (simp_all add: set_delta_def split: option.split)

lemma fresh_facts [simp]:
  "rs_ids (fresh_outputs f d r) = rs_ids r" "rs_finished (fresh_outputs f d r) = rs_finished r"
  "rs_error_msg (fresh_outputs f d r) = rs_error_msg r"
  by (simp_all add: fresh_outputs_def split: family.split)

lemma process_streaming_ids:
  "process_streaming P thinking inc r st = (Inr r1, st1) \<Longrightarrow> rs_ids r1 = rs_ids r \<and> rs_finished r1 = rs_finished r \<and> rs_error_msg r1 = rs_error_msg r"
  by (auto simp: process_streaming_def Let_def split: prod.splits option.splits sum.splits if_splits)

lemma send_reply_ok:
  assumes "rs_error_code r = 200" "rs_first_time r \<or> cs_started s" "streamable r1"
    "process_streaming P (thinking_of rq) (cr_include_stop rq) r (cs_status s) = (Inr r1, st1)"
  shows "\<exists>s'. send_reply P rq r s = (Inr (), s') \<and> cs_status s' = st1 \<and> cs_started s' \<and>
    cs_tokens s' = cs_tokens s + length (rs_ids r) \<and> cs_open s' = cs_open s - (if rs_finished r then 1 else 0) \<and>
    all_choices s' = all_choices s @ choices_for rq (cs_tokens s) [r1]"
proof -
  let ?s3 = "send_role rq (s\<lparr>cs_status := st1, cs_started := True\<rparr>)\<lparr>cs_tokens := cs_tokens s + length (rs_ids r)\<rparr>"
  obtain b where b: "rs_buffering r1 = Some b" "rs_tool_calls r1" "rs_finished r1 \<longrightarrow> \<not> b" using assms(3) by (auto simp: streamable_def)
  have i: "rs_ids r1 = rs_ids r" "rs_finished r1 = rs_finished r" using process_streaming_ids [OF assms(4)] by simp_all
  have all3: "all_choices ?s3 = all_choices s" by (simp add: all_choices_def send_role_def Let_def)
  have eq: "send_reply P rq r s = (Inr (), if b then ?s3 else add_choice rq r1 ?s3)"
    using assms(1,2,4) b by (auto simp: send_reply_def Let_def)
  show ?thesis unfolding eq using b i all3 by (intro exI [of _ "if b then ?s3 else add_choice rq r1 ?s3"]) (cases b; simp)
qed

lemma send_replies_ok:
  assumes "process_all P rq rs (cs_status s) = (Inr outs, st1)" "\<forall>r \<in> set rs. rs_error_code r = 200"
    "\<forall>r \<in> set outs. streamable r" "rs \<noteq> [] \<longrightarrow> rs_first_time (hd rs) \<or> cs_started s"
  shows "\<exists>s'. send_replies P rq rs s = (Inr (), s') \<and> cs_status s' = st1 \<and> (cs_started s' \<longleftrightarrow> cs_started s \<or> rs \<noteq> []) \<and>
    cs_tokens s' = cs_tokens s + length (concat (map rs_ids rs)) \<and>
    cs_open s' = cs_open s - int (length (filter rs_finished rs)) \<and>
    all_choices s' = all_choices s @ choices_for rq (cs_tokens s) outs"
  using assms
proof (induction rs arbitrary: s outs)
  case Nil
  then show ?case by simp
next
  case (Cons r rs)
  obtain r1 sta rs1 where p: "process_streaming P (thinking_of rq) (cr_include_stop rq) r (cs_status s) = (Inr r1, sta)"
    "process_all P rq rs sta = (Inr rs1, st1)" "outs = r1 # rs1"
    using Cons.prems(1) by (auto simp: andthen_eq_Inr)
  obtain sa where a: "send_reply P rq r s = (Inr (), sa)" "cs_status sa = sta" "cs_started sa"
    "cs_tokens sa = cs_tokens s + length (rs_ids r)" "cs_open sa = cs_open s - (if rs_finished r then 1 else 0)"
    "all_choices sa = all_choices s @ choices_for rq (cs_tokens s) [r1]"
    using send_reply_ok [of r s r1 P rq sta] p Cons.prems by auto
  have i: "rs_ids r1 = rs_ids r" using process_streaming_ids [OF p(1)] by simp
  obtain sb where "send_replies P rq rs sa = (Inr (), sb)" "cs_status sb = st1" "cs_started sb"
    "cs_tokens sb = cs_tokens sa + length (concat (map rs_ids rs))" "cs_open sb = cs_open sa - int (length (filter rs_finished rs))"
    "all_choices sb = all_choices sa @ choices_for rq (cs_tokens sa) rs1"
    using Cons.IH [of sa rs1] p Cons.prems a(2,3) by auto
  then show ?case using a p(3) i by (auto simp: algebra_simps)
qed

subsection \<open>Events\<close>

fun got_replies :: "event \<Rightarrow> result_dict list" where
  "got_replies (Got rs) = rs"
| "got_replies (Waited healthy) = []"

definition received :: "event list \<Rightarrow> result_dict list" where
  "received evs = concat (map got_replies evs)"

lemma received_simps [simp]:
  "received [] = []" "received (Got rs # es) = rs @ received es" "received (Waited h # es) = received es"
  by (simp_all add: received_def)

text \<open>The results of a request: the last one finishes it, and no other.\<close>

definition ends :: "result_dict list \<Rightarrow> bool" where
  "ends rs = (rs \<noteq> [] \<and> rs_finished (last rs) \<and> (\<forall>r \<in> set (butlast rs). \<not> rs_finished r))"

lemma ends_append:
  "ys \<noteq> [] \<Longrightarrow> ends (xs @ ys) \<longleftrightarrow> (\<forall>r \<in> set xs. \<not> rs_finished r) \<and> ends ys"
  by (auto simp: ends_def butlast_append)

lemma ends_filter: "ends rs \<Longrightarrow> filter rs_finished rs = [last rs]"
  by (cases rs rule: rev_cases) (auto simp: ends_def filter_empty_conv)

lemma process_all_append:
  "process_all P rq (xs @ ys) st =
   andthen (process_all P rq xs st) (\<lambda>o1 st1. andthen (process_all P rq ys st1) (\<lambda>o2 st2. (Inr (o1 @ o2), st2)))"
  by (induction xs arbitrary: st) (auto simp: andthen_def split: prod.split sum.split)

lemma process_all_ids: "process_all P rq rs st = (Inr outs, st1) \<Longrightarrow> map rs_ids outs = map rs_ids rs"
  by (induction rs arbitrary: st outs) (auto simp: andthen_eq_Inr dest: process_streaming_ids)

lemma choices_for_append:
  "choices_for rq n (xs @ ys) = choices_for rq n xs @ choices_for rq (n + length (concat (map rs_ids xs))) ys"
  by (induction xs arbitrary: n) (simp_all add: add.assoc)

lemma wait_event:
  "\<exists>w. stream_event P rq (Waited True) s = (Inr (), s\<lparr>cs_waiting := w\<rparr>)"
  by (auto simp: stream_event_def Let_def)

lemma waiting_facts [simp]: "all_choices (s\<lparr>cs_waiting := w\<rparr>) = all_choices s"
  by (simp add: all_choices_def)

lemma stream_events_ok:
  assumes "process_all P rq (received evs) (cs_status s) = (Inr outs, st1)" "\<forall>r \<in> set (received evs). rs_error_code r = 200"
    "\<forall>r \<in> set outs. streamable r" "received evs \<noteq> [] \<longrightarrow> rs_first_time (hd (received evs)) \<or> cs_started s" "Waited False \<notin> set evs"
    "cs_open s = (if received evs = [] then 0 else 1)" "received evs \<noteq> [] \<longrightarrow> ends (received evs)" "cs_choices s = []"
  shows "\<exists>s'. stream_events P rq evs s = (Inr True, s') \<and> cs_status s' = st1 \<and>
    cs_tokens s' = cs_tokens s + length (concat (map rs_ids (received evs))) \<and> cs_choices s' = [] \<and>
    all_choices s' = all_choices s @ choices_for rq (cs_tokens s) outs"
  using assms
proof (induction evs arbitrary: s outs)
  case Nil
  then show ?case by simp
next
  case (Cons e es)
  show ?case
  proof (cases "received (e # es) = []")
    case True
    then show ?thesis using Cons.prems(1,6,8) by simp
  next
    case more: False
    then have op: "cs_open s = 1" using Cons.prems(6) by simp
    show ?thesis
    proof (cases e)
      case (Waited h)
      then have h: "e = Waited True" using Cons.prems(5) by (cases h) auto
      obtain w where w: "stream_event P rq e s = (Inr (), s\<lparr>cs_waiting := w\<rparr>)" using wait_event h by blast
      show ?thesis using Cons.IH [of "s\<lparr>cs_waiting := w\<rparr>" outs] Cons.prems w op more h by simp
    next
      case (Got rs)
      obtain o1 sta o2 where p: "process_all P rq rs (cs_status s) = (Inr o1, sta)" "process_all P rq (received es) sta = (Inr o2, st1)"
        "outs = o1 @ o2" using Cons.prems(1) Got by (auto simp: process_all_append andthen_eq_Inr)
      have first: "rs \<noteq> [] \<longrightarrow> rs_first_time (hd rs) \<or> cs_started (s\<lparr>cs_waiting := 0\<rparr>)"
        using Cons.prems(4) Got by auto
      obtain sa where a: "send_replies P rq rs (s\<lparr>cs_waiting := 0\<rparr>) = (Inr (), sa)" "cs_status sa = sta"
        "cs_started sa \<longleftrightarrow> cs_started s \<or> rs \<noteq> []" "cs_tokens sa = cs_tokens s + length (concat (map rs_ids rs))"
        "cs_open sa = 1 - int (length (filter rs_finished rs))" "all_choices sa = all_choices s @ choices_for rq (cs_tokens s) o1"
        using send_replies_ok [of P rq rs "s\<lparr>cs_waiting := 0\<rparr>" o1 sta] p Cons.prems(2,3) first Got op by auto
      have open_a: "cs_open sa = (if received es = [] then 0 else 1)"
      proof (cases "received es = []")
        case True
        then have "ends rs" using Cons.prems(7) more Got by simp
        then show ?thesis using True a(5) ends_filter by simp
      next
        case False
        then have "\<forall>r \<in> set rs. \<not> rs_finished r" using Cons.prems(7) more Got ends_append by auto
        then have "filter rs_finished rs = []" by (simp add: filter_empty_conv)
        then show ?thesis using False a(5) by simp
      qed
      have rest: "received es \<noteq> [] \<longrightarrow> ends (received es)" using Cons.prems(7) more Got ends_append by auto
      have first': "received es \<noteq> [] \<longrightarrow> rs_first_time (hd (received es)) \<or> cs_started (flush_choices sa)"
        using Cons.prems(4) Got a(3) by (cases "rs = []") auto
      have ev: "stream_event P rq e s = (Inr (), flush_choices sa)" using a(1) Got by (simp add: stream_event_def)
      obtain sb where "stream_events P rq es (flush_choices sa) = (Inr True, sb)" "cs_status sb = st1"
        "cs_tokens sb = cs_tokens sa + length (concat (map rs_ids (received es)))" "cs_choices sb = []"
        "all_choices sb = all_choices sa @ choices_for rq (cs_tokens sa) o2"
        using Cons.IH [of "flush_choices sa" o2] p(2,3) Cons.prems(2,3,5) a(2) first' open_a rest Got by auto
      then show ?thesis using ev op a(4,6) p(3) process_all_ids [OF p(1)] Got by (simp add: choices_for_append)
    qed
  qed
qed

subsection \<open>Decoding\<close>

definition text_before :: "decode_status \<Rightarrow> req_id \<Rightarrow> string" where
  "text_before st rid = (case st rid of None \<Rightarrow> [] | Some d \<Rightarrow> dc_text d)"

text \<open>The text of each result, as the tokens come.\<close>

fun decode_run :: "processor \<Rightarrow> bool \<Rightarrow> result_dict list \<Rightarrow> decode_status \<Rightarrow> string list \<times> decode_status" where
  "decode_run P inc [] st = ([], st)"
| "decode_run P inc (r # rs) st =
     (case ids2tokens (pr_tokenizer P) (without_eos (pr_tokenizer P) inc r) (rs_id r) st of ((d, _, _), st1) \<Rightarrow>
        (case decode_run P inc rs (drop_status (rs_id r) (rs_finished r) st1) of (ds, st2) \<Rightarrow> (d # ds, st2)))"

lemma ids2tokens_text:
  "ids2tokens tok ids rid st = ((d, previous_ids, old), st1) \<Longrightarrow> old = text_before st rid \<and> text_before st1 rid = text_before st rid @ d"
  by (auto simp: ids2tokens_def Let_def text_before_def new_decoding_def split: prod.splits option.splits)

lemma decode_one: "\<exists>d st1. decode_run P inc [r] st = ([d], st1)"
  by (simp split: prod.split)

lemma decode_run_append:
  "decode_run P inc (xs @ ys) st =
   (case decode_run P inc xs st of (ds, st1) \<Rightarrow> case decode_run P inc ys st1 of (es, st2) \<Rightarrow> (ds @ es, st2))"
  by (induction xs arbitrary: st) (simp_all split: prod.split)

lemma decode_run_length: "length (fst (decode_run P inc rs st)) = length rs"
  by (induction rs arbitrary: st) (simp_all split: prod.split, metis fst_conv)

lemma decode_run_text:
  assumes "\<forall>r \<in> set rs. rs_id r = rid \<and> \<not> rs_finished r"
  shows "text_before (snd (decode_run P inc rs st)) rid = text_before st rid @ concat (fst (decode_run P inc rs st))"
  using assms
proof (induction rs arbitrary: st)
  case (Cons r rs)
  obtain d pre old st1 where i: "ids2tokens (pr_tokenizer P) (without_eos (pr_tokenizer P) inc r) (rs_id r) st = ((d, pre, old), st1)"
    by (metis prod.exhaust)
  have "text_before st1 rid = text_before st rid @ d" using ids2tokens_text [OF i] Cons.prems by simp
  moreover have "text_before (snd (decode_run P inc rs st1)) rid = text_before st1 rid @ concat (fst (decode_run P inc rs st1))"
    using Cons by simp
  ultimately show ?case using i Cons.prems by (cases "decode_run P inc rs st1") (simp add: drop_status_def)
qed simp

subsection \<open>The whole answer\<close>

lemma process_normal_more:
  "\<not> rs_finished r \<Longrightarrow> decode_run P inc [r] st = ([d], st1) \<Longrightarrow> process_normal P thinking inc r st = (r, st1)"
  by (auto simp: process_normal_def split: prod.splits)

lemma process_normal_last:
  assumes "rs_finished r" "decode_run P inc [r] st = ([d], st1)"
  shows "process_normal P thinking inc r st = (set_whole (parser_for P thinking) (text_before st (rs_id r) @ d) r, st1)"
proof -
  obtain e pre old st2 where i: "ids2tokens (pr_tokenizer P) (without_eos (pr_tokenizer P) inc r) (rs_id r) st = ((e, pre, old), st2)"
    by (metis prod.exhaust)
  show ?thesis using assms i ids2tokens_text [OF i] by (simp add: process_normal_def)
qed

lemma set_whole_facts [simp]:
  "rs_ids (set_whole p t r) = rs_ids r" "rs_finished (set_whole p t r) = rs_finished r" "rs_error_msg (set_whole p t r) = rs_error_msg r"
  by (simp_all add: set_whole_def split: option.split prod.split)

lemma collect_replies_more:
  assumes "\<forall>r \<in> set rs. rs_error_code r = 200 \<and> \<not> rs_finished r"
  shows "\<exists>s'. collect_replies P rq (rs @ rest) s = collect_replies P rq rest s' \<and>
    fs_status s' = snd (decode_run P (cr_include_stop rq) rs (fs_status s)) \<and>
    fs_tokens s' = fs_tokens s + length (concat (map rs_ids rs)) \<and> fs_ids s' = fs_ids s @ concat (map rs_ids rs)"
  using assms
proof (induction rs arbitrary: s)
  case Nil
  then show ?case by (intro exI [of _ s]) simp
next
  case (Cons r rs)
  obtain d st1 where d: "decode_run P (cr_include_stop rq) [r] (fs_status s) = ([d], st1)"
    using decode_one by blast
  let ?s1 = "s\<lparr>fs_status := st1, fs_tokens := fs_tokens s + length (rs_ids r), fs_ids := fs_ids s @ rs_ids r\<rparr>"
  have "collect_replies P rq ((r # rs) @ rest) s = collect_replies P rq (rs @ rest) ?s1"
    using process_normal_more [OF _ d] Cons.prems by simp
  moreover have "snd (decode_run P (cr_include_stop rq) (r # rs) (fs_status s)) = snd (decode_run P (cr_include_stop rq) rs st1)"
    using d by (cases "decode_run P (cr_include_stop rq) rs st1") (auto split: prod.splits)
  ultimately show ?case using Cons.IH [of ?s1] Cons.prems by auto
qed

text \<open>What is collected of all results of a request.\<close>

definition collected :: "processor \<Rightarrow> chat_request \<Rightarrow> req_id \<Rightarrow> result_dict list \<Rightarrow> full_state \<Rightarrow> full_state \<Rightarrow> result_dict \<Rightarrow> bool" where
  "collected P rq rid rs s s' r =
     (r = set_whole (parser_for P (thinking_of rq))
        (text_before (fs_status s) rid @ concat (fst (decode_run P (cr_include_stop rq) rs (fs_status s)))) (last rs) \<and>
      fs_status s' = snd (decode_run P (cr_include_stop rq) rs (fs_status s)) \<and>
      fs_tokens s' = fs_tokens s + length (concat (map rs_ids rs)) \<and> fs_ids s' = fs_ids s @ concat (map rs_ids rs))"

lemma collect_replies_ok:
  assumes "ends rs" "\<forall>r \<in> set rs. rs_error_code r = 200 \<and> rs_id r = rid"
  shows "\<exists>s' r. collect_replies P rq rs s = (Inr (Some r), s') \<and> collected P rq rid rs s s' r"
proof -
  obtain us l where rs: "rs = us @ [l]" using assms(1) by (metis ends_def rev_exhaust)
  have us: "\<forall>r \<in> set us. rs_error_code r = 200 \<and> \<not> rs_finished r" and l: "rs_finished l" "rs_error_code l = 200" "rs_id l = rid"
    using assms rs by (auto simp: ends_def)
  obtain s1 where s1: "collect_replies P rq (us @ [l]) s = collect_replies P rq [l] s1"
    "fs_status s1 = snd (decode_run P (cr_include_stop rq) us (fs_status s))"
    "fs_tokens s1 = fs_tokens s + length (concat (map rs_ids us))" "fs_ids s1 = fs_ids s @ concat (map rs_ids us)"
    using collect_replies_more [OF us, of P rq "[l]" s] by blast
  obtain d st1 where d: "decode_run P (cr_include_stop rq) [l] (fs_status s1) = ([d], st1)" using decode_one by blast
  have t: "text_before (fs_status s1) rid =
      text_before (fs_status s) rid @ concat (fst (decode_run P (cr_include_stop rq) us (fs_status s)))"
    unfolding s1(2) by (rule decode_run_text) (use us assms(2) rs in auto)
  have all: "fst (decode_run P (cr_include_stop rq) rs (fs_status s)) = fst (decode_run P (cr_include_stop rq) us (fs_status s)) @ [d]"
    "snd (decode_run P (cr_include_stop rq) rs (fs_status s)) = st1"
    using d unfolding rs decode_run_append s1(2)
    by (cases "decode_run P (cr_include_stop rq) us (fs_status s)"; simp del: decode_run.simps)+
  show ?thesis
    using s1 process_normal_last [OF l(1) d] l t all rs by (intro exI conjI) (auto simp: collected_def Let_def)
qed

lemma collected_append:
  assumes "\<forall>r \<in> set us. rs_id r = rid \<and> \<not> rs_finished r" "rest \<noteq> []"
    "fs_status s1 = snd (decode_run P (cr_include_stop rq) us (fs_status s))" "fs_tokens s1 = fs_tokens s + length (concat (map rs_ids us))"
    "fs_ids s1 = fs_ids s @ concat (map rs_ids us)" "collected P rq rid rest s1 s' r"
  shows "collected P rq rid (us @ rest) s s' r"
proof -
  have "text_before (fs_status s1) rid =
      text_before (fs_status s) rid @ concat (fst (decode_run P (cr_include_stop rq) us (fs_status s)))"
    unfolding assms(3) by (rule decode_run_text) (use assms(1) in auto)
  then show ?thesis using assms(2-6) unfolding collected_def decode_run_append
    by (cases "decode_run P (cr_include_stop rq) us (fs_status s)"; cases "decode_run P (cr_include_stop rq) rest (fs_status s1)") simp
qed

lemma collected_waiting:
  "collected P rq rid rs (s\<lparr>fs_waiting := w\<rparr>) s' r = collected P rq rid rs s s' r"
  by (simp add: collected_def)

lemma collect_wait: "\<exists>w. collect_events P rq (Waited True # es) s = collect_events P rq es (s\<lparr>fs_waiting := w\<rparr>)"
proof (cases "fs_waiting s + 10 = 300")
  case True
  then show ?thesis by (intro exI [of _ 0]) (simp add: Let_def)
next
  case False
  then show ?thesis by (intro exI [of _ "fs_waiting s + 10"]) (simp add: Let_def)
qed

lemma collect_events_ok:
  assumes "ends (received evs)" "\<forall>r \<in> set (received evs). rs_error_code r = 200 \<and> rs_id r = rid" "Waited False \<notin> set evs"
  shows "\<exists>s' r. collect_events P rq evs s = (Inr (Some r), s') \<and> collected P rq rid (received evs) s s' r"
  using assms
proof (induction evs arbitrary: s)
  case Nil
  then show ?case by (simp add: ends_def)
next
  case (Cons e es)
  show ?case
  proof (cases e)
    case (Waited h)
    then have h: "e = Waited True" using Cons.prems(3) by (cases h) auto
    then obtain w where "collect_events P rq (e # es) s = collect_events P rq es (s\<lparr>fs_waiting := w\<rparr>)"
      using collect_wait by blast
    then show ?thesis using Cons.IH [of "s\<lparr>fs_waiting := w\<rparr>"] Cons.prems h by (simp add: collected_waiting)
  next
    case (Got rs)
    show ?thesis
    proof (cases "received es = []")
      case True
      then have r: "received (e # es) = rs" using Got by simp
      obtain s' r where "collect_replies P rq rs (s\<lparr>fs_waiting := 0\<rparr>) = (Inr (Some r), s')"
        "collected P rq rid rs (s\<lparr>fs_waiting := 0\<rparr>) s' r"
        using collect_replies_ok [of rs rid P rq "s\<lparr>fs_waiting := 0\<rparr>"] Cons.prems(1,2) unfolding r by blast
      then show ?thesis using Got by (simp add: collected_waiting andthen_def r True)
    next
      case False
      then have us: "\<forall>r \<in> set rs. rs_error_code r = 200 \<and> \<not> rs_finished r" "ends (received es)"
        using Cons.prems(1,2) Got ends_append by auto
      obtain s1 where s1: "collect_replies P rq rs (s\<lparr>fs_waiting := 0\<rparr>) = (Inr None, s1)"
        "fs_status s1 = snd (decode_run P (cr_include_stop rq) rs (fs_status s))"
        "fs_tokens s1 = fs_tokens s + length (concat (map rs_ids rs))" "fs_ids s1 = fs_ids s @ concat (map rs_ids rs)"
        using collect_replies_more [OF us(1), of P rq "[]" "s\<lparr>fs_waiting := 0\<rparr>"] by auto
      obtain s' r where c: "collect_events P rq es s1 = (Inr (Some r), s')" "collected P rq rid (received es) s1 s' r"
        using Cons.IH [of s1] us(2) Cons.prems(2,3) Got by auto
      have "collected P rq rid (rs @ received es) s s' r"
        by (rule collected_append [OF _ False s1(2-4) c(2)]) (use us(1) Cons.prems(2) Got in auto)
      then show ?thesis using c(1) s1(1) Got by simp
    qed
  qed
qed

subsection \<open>Without a parser\<close>

definition sent_choices :: "chunk list \<Rightarrow> chat_choice list" where
  "sent_choices chunks = concat (map chunk_choices chunks)"

definition sent_content :: "chunk list \<Rightarrow> string" where
  "sent_content chunks = concat (map (or_empty \<circ> ch_content) (sent_choices chunks))"

definition sent_reasoning :: "chunk list \<Rightarrow> string" where
  "sent_reasoning chunks = concat (map (or_empty \<circ> ch_reasoning) (sent_choices chunks))"

definition sent_finish :: "chunk list \<Rightarrow> string list" where
  "sent_finish chunks = concat (map (\<lambda>c. case ch_finish c of None \<Rightarrow> [] | Some f \<Rightarrow> [f]) (sent_choices chunks))"

lemma chat_stream_ok:
  assumes "process_all P rq (received evs) st = (Inr outs, st1)" "\<forall>r \<in> set (received evs). rs_error_code r = 200"
    "\<forall>r \<in> set outs. streamable r" "rs_first_time (hd (received evs))" "Waited False \<notin> set evs" "ends (received evs)"
  shows "\<exists>chunks. chat_stream P rq evs st = ((chunks, True), st1) \<and> sent_choices chunks = choices_for rq 0 outs \<and>
    (cr_include_usage rq \<longrightarrow> UsageChunk (length (cr_prompt rq), length (concat (map rs_ids (received evs)))) \<in> set chunks)"
proof -
  have "received evs \<noteq> []" using assms(6) by (simp add: ends_def)
  then obtain s where s: "stream_events P rq evs (init_chat st) = (Inr True, s)" "cs_status s = st1"
    "cs_tokens s = length (concat (map rs_ids (received evs)))" "cs_choices s = []" "all_choices s = choices_for rq 0 outs"
    using stream_events_ok [of P rq evs "init_chat st" outs st1] assms by (auto simp: init_chat_def all_choices_def)
  then show ?thesis by (auto simp: chat_stream_def sent_choices_def all_choices_def)
qed

lemma choices_for_last:
  assumes "ends outs" "\<forall>r \<in> set outs. streamable r"
  shows "\<exists>cs. choices_for rq n outs = cs @ [choice_of rq (n + length (concat (map rs_ids outs))) (last outs)] \<and>
    (\<forall>c \<in> set cs. ch_finish c = None)"
proof -
  obtain us l where u: "outs = us @ [l]" using assms(1) by (metis ends_def rev_exhaust)
  have fin: "rs_finished l" "\<forall>r \<in> set us. \<not> rs_finished r" using assms(1) u by (auto simp: ends_def)
  have "\<forall>c \<in> set (choices_for rq k us). ch_finish c = None" for k
    using fin(2) by (induction us arbitrary: k) (auto simp: choice_of_def)
  moreover have "rs_buffering l = Some False" using assms(2) fin(1) u by (simp add: streamable_def)
  ultimately show ?thesis unfolding u by (simp add: choices_for_append add.assoc)
qed

lemma unbuffered_choices:
  "\<forall>r \<in> set outs. rs_buffering r = Some False \<Longrightarrow>
   map ch_content (choices_for rq n outs) = map rs_text outs \<and> map ch_reasoning (choices_for rq n outs) = map rs_reasoning outs"
  by (induction outs arbitrary: n) (auto simp: choice_of_def)

lemma plain_process:
  assumes "pr_family P \<noteq> General" "parser_for P (thinking_of rq) = None"
  shows "process_all P rq rs st =
    (Inr (map2 (fresh_outputs Ernie) (fst (decode_run P (cr_include_stop rq) rs st)) rs), snd (decode_run P (cr_include_stop rq) rs st))"
proof (induction rs arbitrary: st)
  case (Cons r rs)
  show ?case using assms Cons by (simp add: process_streaming_def Let_def split: prod.split)
qed simp

lemma ends_map: "ends rs \<longleftrightarrow> rs \<noteq> [] \<and> last (map rs_finished rs) \<and> True \<notin> set (butlast (map rs_finished rs))"
  by (cases rs rule: rev_cases) (auto simp: ends_def)

lemma ends_cong: "map rs_finished xs = map rs_finished ys \<Longrightarrow> ends xs = ends ys"
  unfolding ends_map by (metis list.map_disc_iff)

lemma finish_reason_cong: "rs_error_msg r = rs_error_msg r' \<Longrightarrow> finish_reason rq n r = finish_reason rq n r'"
  by (simp add: finish_reason_def)

text \<open>The end of a stream and the end of the whole answer have the same reason.\<close>

lemma same_finish:
  assumes "sent_choices chunks = choices_for rq 0 outs" "\<forall>r \<in> set outs. streamable r" "ends rs"
    "map rs_finished outs = map rs_finished rs" "map rs_ids outs = map rs_ids rs" "rs_error_msg (last outs) = rs_error_msg (last rs)"
  shows "sent_finish chunks = [finish_reason rq (length (concat (map rs_ids rs))) (last rs)]"
proof -
  have e: "ends outs" using ends_cong [OF assms(4)] assms(3) by simp
  obtain cs where cs: "choices_for rq 0 outs = cs @ [choice_of rq (length (concat (map rs_ids outs))) (last outs)]"
    "\<forall>c \<in> set cs. ch_finish c = None" using choices_for_last [OF e assms(2), of rq 0] by auto
  have "rs_finished (last outs)" using e by (simp add: ends_def)
  moreover have "concat (map (\<lambda>c. case ch_finish c of None \<Rightarrow> [] | Some f \<Rightarrow> [f]) cs) = []" using cs(2) by simp
  ultimately show ?thesis using finish_reason_cong [OF assms(6)]
    unfolding sent_finish_def assms(1) cs(1) assms(5) by (simp add: choice_of_def)
qed

lemma last_map2: "length xs = length ys \<Longrightarrow> ys \<noteq> [] \<Longrightarrow> last (map2 f xs ys) = f (last xs) (last ys)"
  by (induction xs ys rule: list_induct2) auto

lemma map_map2: "length xs = length ys \<Longrightarrow> (\<And>x y. g (f x y) = h y) \<Longrightarrow> map g (map2 f xs ys) = map h ys"
  by (induction xs ys rule: list_induct2) simp_all

lemma map_map2_left: "length xs = length ys \<Longrightarrow> (\<And>x y. g (f x y) = h x) \<Longrightarrow> map g (map2 f xs ys) = map h xs"
  by (induction xs ys rule: list_induct2) simp_all

lemma contents_sum: "map ch_content cs = map Some ts \<Longrightarrow> concat (map (or_empty \<circ> ch_content) cs) = concat ts"
proof (induction cs arbitrary: ts)
  case (Cons c cs)
  then show ?case by (cases ts) (simp_all add: or_empty_def)
qed simp

subsection \<open>Runs of a parser\<close>

text \<open>
  What a parser of reasoning promises when its tags come as tokens of their own, as a locale: the stream and the whole answer are
  split in the same way. Interpreted on the parsers of Qwen3 and of Ernie VL.
\<close>

definition ids_before :: "decode_status \<Rightarrow> req_id \<Rightarrow> token list" where
  "ids_before st rid = (case st rid of None \<Rightarrow> [] | Some d \<Rightarrow> dc_ids d)"

lemma ids2tokens_ids:
  "ids2tokens tok ids rid st = ((d, every, old), st1) \<Longrightarrow> every = ids_before st rid @ ids \<and> ids_before st1 rid = ids_before st rid @ ids"
  by (auto simp: ids2tokens_def Let_def ids_before_def new_decoding_def split: prod.splits option.splits)

lemma not_finished_ids [simp]: "\<not> rs_finished r \<Longrightarrow> without_eos tok inc r = rs_ids r"
  by (simp add: without_eos_def Let_def)

lemma decode_run_ids:
  "\<forall>r \<in> set rs. rs_id r = rid \<and> \<not> rs_finished r \<Longrightarrow>
   ids_before (snd (decode_run P inc rs st)) rid = ids_before st rid @ concat (map rs_ids rs)"
proof (induction rs arbitrary: st)
  case (Cons r rs)
  obtain d pre old st1 where i: "ids2tokens (pr_tokenizer P) (rs_ids r) (rs_id r) st = ((d, pre, old), st1)" by (metis prod.exhaust)
  have "ids_before st1 rid = ids_before st rid @ rs_ids r" using ids2tokens_ids [OF i] Cons.prems by simp
  then show ?case using i Cons.IH [of st1] Cons.prems by (cases "decode_run P inc rs st1") (simp add: drop_status_def)
qed simp

text \<open>A result whose text the parser splits as \<open>f\<close> says.\<close>

definition reported :: "(string \<Rightarrow> delta_message option) \<Rightarrow> string \<Rightarrow> result_dict \<Rightarrow> result_dict" where
  "reported f d r = set_delta (f d) (fresh_outputs Ernie d r)"

text \<open>A run of results the parser treats alike. The tokens it is shown as previous ones include those of the piece itself.\<close>

lemma parse_phase:
  assumes "pr_family P \<noteq> General" "parser_for P (thinking_of rq) = Some p"
    "\<forall>r \<in> set rs. rs_id r = rid \<and> \<not> rs_finished r \<and> ok (rs_ids r)"
    "\<And>old d every ids. Q every \<Longrightarrow> ok ids \<Longrightarrow> rp_streaming p old d (every @ ids) ids = Inr (f d) \<and> Q (every @ ids)"
    "Q (ids_before st rid)"
  shows "process_all P rq rs st =
    (Inr (map2 (reported f) (fst (decode_run P (cr_include_stop rq) rs st)) rs), snd (decode_run P (cr_include_stop rq) rs st))"
  using assms(3,5)
proof (induction rs arbitrary: st)
  case (Cons r rs)
  obtain d pre old st1 where i: "ids2tokens (pr_tokenizer P) (rs_ids r) (rs_id r) st = ((d, pre, old), st1)" by (metis prod.exhaust)
  have e: "pre = ids_before st rid @ rs_ids r" "ids_before st1 rid = ids_before st rid @ rs_ids r"
    using ids2tokens_ids [OF i] Cons.prems by simp_all
  have s: "rp_streaming p old d pre (rs_ids r) = Inr (f d)" "Q (ids_before st1 rid)"
    using assms(4) [OF Cons.prems(2)] Cons.prems(1) e by simp_all
  have "process_streaming P (thinking_of rq) (cr_include_stop rq) r st = (Inr (reported f d r), st1)"
    using i s(1) assms(1,2) Cons.prems(1) by (simp add: process_streaming_def Let_def drop_status_def reported_def)
  then show ?case using Cons.IH [OF _ s(2)] Cons.prems(1) i
    by (cases "decode_run P (cr_include_stop rq) rs st1") (simp add: drop_status_def)
qed simp

text \<open>What a result adds to what the client reads.\<close>

definition shown :: "(result_dict \<Rightarrow> string option) \<Rightarrow> result_dict \<Rightarrow> string" where
  "shown part r = (if rs_buffering r = Some True then [] else or_empty (part r))"

lemma choices_sum:
  "concat (map (or_empty \<circ> ch_content) (choices_for rq n outs)) = concat (map (shown rs_text) outs)"
  "concat (map (or_empty \<circ> ch_reasoning) (choices_for rq n outs)) = concat (map (shown rs_reasoning) outs)"
  by (induction outs arbitrary: n) (simp_all add: shown_def choice_of_def)

definition to_reasoning :: "string \<Rightarrow> delta_message option" where
  "to_reasoning d = Some \<lparr>dm_reasoning = Some d, dm_content = None\<rparr>"

definition to_content :: "string \<Rightarrow> delta_message option" where
  "to_content d = Some \<lparr>dm_reasoning = None, dm_content = Some d\<rparr>"

definition held_back :: "string \<Rightarrow> delta_message option" where
  "held_back d = None"

lemma reported_shown [simp]:
  "shown rs_text (reported to_reasoning d r) = []" "shown rs_reasoning (reported to_reasoning d r) = d"
  "shown rs_text (reported to_content d r) = d" "shown rs_reasoning (reported to_content d r) = []"
  "shown part (reported held_back d r) = []"
  by (simp_all add: shown_def reported_def set_delta_def fresh_outputs_def to_reasoning_def to_content_def held_back_def or_empty_def)

lemma fresh_shown [simp]:
  "shown rs_text (fresh_outputs Ernie d r) = d" "shown rs_reasoning (fresh_outputs Ernie d r) = []"
  by (simp_all add: shown_def fresh_outputs_def or_empty_def)

lemma reported_streamable: "\<not> rs_finished r \<Longrightarrow> streamable (reported f d r)"
  by (cases "f d") (auto simp: streamable_def reported_def set_delta_def fresh_outputs_def)

lemma shown_runs:
  assumes "length ds = length rs"
  shows "concat (map (shown rs_text) (map2 (reported to_reasoning) ds rs)) = []"
    "concat (map (shown rs_reasoning) (map2 (reported to_reasoning) ds rs)) = concat ds"
    "concat (map (shown rs_text) (map2 (reported to_content) ds rs)) = concat ds"
    "concat (map (shown rs_reasoning) (map2 (reported to_content) ds rs)) = []"
    "concat (map (shown part) (map2 (reported held_back) ds rs)) = []"
  using assms by (induction ds rs rule: list_induct2) simp_all

subsection \<open>The contract\<close>

text \<open>\<open>heads\<close> are the pieces that come before the reasoning, decoded to \<open>head_text\<close>.\<close>

text \<open>The pieces of a request: heads, reasoning, the end tag, the answer and the last result.\<close>

definition in_order :: "token set \<Rightarrow> token list list \<Rightarrow> token \<Rightarrow> result_dict list \<Rightarrow> result_dict list \<Rightarrow> result_dict \<Rightarrow> result_dict list \<Rightarrow> result_dict \<Rightarrow> bool" where
  "in_order tags heads end_id hs rs e cs l =
     (map rs_ids hs = heads \<and> end_id \<notin> set (concat heads) \<and> (\<forall>r \<in> set rs \<union> set cs. set (rs_ids r) \<inter> tags = {}) \<and> rs_ids e = [end_id] \<and> rs_finished l \<and>
      (\<forall>r \<in> set hs \<union> set rs \<union> {e} \<union> set cs. \<not> rs_finished r))"

locale tag_parser =
  fixes p :: reasoning_parser and heads :: "token list list" and head_text :: string and end_id :: token and tags :: "token set"
  assumes skip_head: "ids \<in> set heads \<Longrightarrow> rp_streaming p old d every ids = Inr None"
    and skip_end: "rp_streaming p old d every [end_id] = Inr None"
    and end_tag: "end_id \<in> tags"
    and reasoning: "end_id \<notin> set every \<Longrightarrow> set ids \<inter> tags = {} \<Longrightarrow> rp_streaming p old d every ids = Inr (to_reasoning d)"
    and answer: "end_id \<in> set every \<Longrightarrow> set ids \<inter> tags = {} \<Longrightarrow> rp_streaming p old d every ids = Inr (to_content d)"
    and whole: "\<not> sublist think_end r \<Longrightarrow> rp_whole p (head_text @ r @ think_end @ c) = (Some r, a) \<Longrightarrow> or_empty a = c"
    and whole_reasoning: "\<not> sublist think_end r \<Longrightarrow> fst (rp_whole p (head_text @ r @ think_end @ c)) = Some r"
begin

lemma pieces_processed:
  assumes "pr_family P \<noteq> General" "parser_for P (thinking_of rq) = Some p" "in_order tags heads end_id hs rs e cs l"
    "\<forall>r \<in> set (hs @ rs @ [e] @ cs @ [l]). rs_id r = rid" "st rid = None"
    "fst (decode_run P (cr_include_stop rq) (hs @ rs @ [e] @ cs @ [l]) st) = dh @ dr @ [de] @ dc @ [dl]"
    "length dh = length hs" "length dr = length rs" "length dc = length cs"
  shows "process_all P rq (hs @ rs @ [e] @ cs @ [l]) st =
    (Inr (map2 (reported held_back) dh hs @ map2 (reported to_reasoning) dr rs @ [reported held_back de e] @
          map2 (reported to_content) dc cs @ [fresh_outputs Ernie dl l]),
     snd (decode_run P (cr_include_stop rq) (hs @ rs @ [e] @ cs @ [l]) st))"
proof -
  let ?D = "decode_run P (cr_include_stop rq)"
  obtain d1 s1 where 1: "?D hs st = (d1, s1)" by fastforce
  obtain d2 s2 where 2: "?D rs s1 = (d2, s2)" by fastforce
  obtain d3 s3 where 3: "?D [e] s2 = ([d3], s3)" using decode_one by blast
  obtain d4 s4 where 4: "?D cs s3 = (d4, s4)" by fastforce
  obtain d5 s5 where 5: "?D [l] s4 = ([d5], s5)" using decode_one by blast
  have n: "length d1 = length hs" "length d2 = length rs" "length d4 = length cs"
    using decode_run_length [of P "cr_include_stop rq"] 1 2 4 by (metis fst_conv)+
  have all: "?D (hs @ rs @ [e] @ cs @ [l]) st = (d1 @ d2 @ [d3] @ d4 @ [d5], s5)"
    by (simp only: decode_run_append 1 2 3 4 5 prod.case)
  have eq: "d1 = dh" "d2 = dr" "d3 = de" "d4 = dc" "d5 = dl" using assms(6-9) n unfolding all by simp_all
  note ord = assms(3) [unfolded in_order_def]
  have heads_eq: "set heads = rs_ids ` set hs" using ord by (metis list.set_map)
  have plain: "\<forall>r \<in> set rs \<union> set cs. set (rs_ids r) \<inter> tags = {}" using ord by blast
  have e: "rs_ids e = [end_id]" using ord by blast
  have going: "\<forall>r \<in> set hs \<union> set rs \<union> {e} \<union> set cs. \<not> rs_finished r" using ord by blast
  have same: "\<forall>r \<in> set hs \<union> set rs \<union> {e} \<union> set cs. rs_id r = rid" using assms(4) by auto
  have open_h: "\<forall>r \<in> set hs. rs_id r = rid \<and> \<not> rs_finished r \<and> rs_ids r \<in> set heads"
    unfolding heads_eq using going same by blast
  have open_r: "\<forall>r \<in> set rs. rs_id r = rid \<and> \<not> rs_finished r \<and> set (rs_ids r) \<inter> tags = {}" using plain going same by blast
  have open_e: "\<forall>r \<in> set [e]. rs_id r = rid \<and> \<not> rs_finished r \<and> rs_ids r = [end_id]" using e going same by simp
  have open_c: "\<forall>r \<in> set cs. rs_id r = rid \<and> \<not> rs_finished r \<and> set (rs_ids r) \<inter> tags = {}" using plain going same by blast
  have ids1: "end_id \<notin> set (ids_before s1 rid)"
  proof -
    have "ids_before s1 rid = concat (map rs_ids hs)"
      using decode_run_ids [of hs rid P "cr_include_stop rq" st] open_h assms(5) 1 by (simp add: ids_before_def)
    then show ?thesis using ord by simp
  qed
  have ids3: "end_id \<in> set (ids_before s3 rid)"
    using decode_run_ids [of "[e]" rid P "cr_include_stop rq" s2] open_e 3 by simp
  have p1: "process_all P rq hs st = (Inr (map2 (reported held_back) d1 hs), s1)"
    using parse_phase [OF assms(1,2) open_h, of "\<lambda>_. True" held_back st] skip_head 1 by (simp add: held_back_def)
  have p2: "process_all P rq rs s1 = (Inr (map2 (reported to_reasoning) d2 rs), s2)"
  proof -
    have "rp_streaming p old d (every @ ids) ids = Inr (to_reasoning d) \<and> end_id \<notin> set (every @ ids)"
      if "end_id \<notin> set every" "set ids \<inter> tags = {}" for old d every ids
    proof -
      have "end_id \<notin> set (every @ ids)" using that end_tag by auto
      then show ?thesis using reasoning that(2) by simp
    qed
    from parse_phase [OF assms(1,2) open_r this ids1] show ?thesis using 2 by simp
  qed
  have p3: "process_all P rq [e] s2 = (Inr (map2 (reported held_back) [d3] [e]), s3)"
    using parse_phase [OF assms(1,2) open_e, of "\<lambda>_. True" held_back s2] skip_end 3 by (simp add: held_back_def)
  have p4: "process_all P rq cs s3 = (Inr (map2 (reported to_content) d4 cs), s4)"
  proof -
    have "rp_streaming p old d (every @ ids) ids = Inr (to_content d) \<and> end_id \<in> set (every @ ids)"
      if "end_id \<in> set every" "set ids \<inter> tags = {}" for old d every ids
      using answer [of "every @ ids" ids old d] that by simp
    from parse_phase [OF assms(1,2) open_c this ids3] show ?thesis using 4 by simp
  qed
  have p5: "process_all P rq [l] s4 = (Inr [fresh_outputs Ernie d5 l], s5)"
    using 5 assms(1,3) by (auto simp: process_streaming_def Let_def in_order_def split: prod.splits)
  show ?thesis unfolding all by (simp only: process_all_append p1 p2 p3 p4 p5 andthen_simps eq snd_conv) simp
qed

lemma stream_splits:
  assumes "pr_family P \<noteq> General" "parser_for P (thinking_of rq) = Some p" "in_order tags heads end_id hs rs e cs l"
    "received evs = hs @ rs @ [e] @ cs @ [l]" "\<forall>r \<in> set (received evs). rs_error_code r = 200 \<and> rs_id r = rid"
    "rs_first_time (hd (received evs))" "Waited False \<notin> set evs" "st rid = None"
    "fst (decode_run P (cr_include_stop rq) (received evs) st) = dh @ dr @ [think_end] @ dc @ [dl]"
    "length dh = length hs" "length dr = length rs" "length dc = length cs" "concat dh = head_text" "\<not> sublist think_end (concat dr)"
  shows "\<exists>chunks ans st1. chat_stream P rq evs st = ((chunks, True), st1) \<and> chat_full P rq evs st = (Inr (Some ans), st1) \<and>
    or_empty (ca_content ans) = sent_content chunks \<and> ca_reasoning ans = Some (sent_reasoning chunks) \<and>
    sent_finish chunks = [ca_finish ans]"
proof -
  let ?rs = "hs @ rs @ [e] @ cs @ [l]"
  let ?outs = "map2 (reported held_back) dh hs @ map2 (reported to_reasoning) dr rs @ [reported held_back think_end e] @
    map2 (reported to_content) dc cs @ [fresh_outputs Ernie dl l]"
  let ?D = "decode_run P (cr_include_stop rq) ?rs st"
  note ord = assms(3) [unfolded in_order_def]
  have same: "\<forall>r \<in> set ?rs. rs_id r = rid" using assms(5) unfolding assms(4) by blast
  note out = pieces_processed [OF assms(1-3) same assms(8) assms(9) [unfolded assms(4)] assms(10-12)]
  have going: "\<forall>r \<in> set hs \<union> set rs \<union> {e} \<union> set cs. \<not> rs_finished r" "rs_finished l" using ord by blast+
  have en: "ends (received evs)" using going unfolding assms(4) by (auto simp: ends_def butlast_append)
  have run: "streamable q" if q: "q \<in> set (map2 (reported f) ds qs)" "\<forall>r \<in> set qs. \<not> rs_finished r" for q f ds qs
  proof -
    obtain d r where "q = reported f d r" "r \<in> set qs" using q(1) by (auto dest: set_zip_rightD)
    then show ?thesis using q(2) reported_streamable by simp
  qed
  have send: "\<forall>q \<in> set ?outs. streamable q"
  proof
    fix q assume "q \<in> set ?outs"
    then consider "q \<in> set (map2 (reported held_back) dh hs)" | "q \<in> set (map2 (reported to_reasoning) dr rs)"
      | "q = reported held_back think_end e" | "q \<in> set (map2 (reported to_content) dc cs)" | "q = fresh_outputs Ernie dl l"
      unfolding set_append by auto
    then show "streamable q"
    proof cases
      case 5
      then show ?thesis by (simp add: streamable_def fresh_outputs_def)
    qed (use run reported_streamable going in blast)+
  qed
  obtain chunks where c: "chat_stream P rq evs st = ((chunks, True), snd ?D)" "sent_choices chunks = choices_for rq 0 ?outs"
    using chat_stream_ok [OF _ _ send assms(6,7) en] out assms(5) unfolding assms(4) by blast
  have content: "sent_content chunks = concat dc @ dl"
    unfolding sent_content_def c(2) choices_sum map_append concat_append shown_runs [OF assms(10)] shown_runs [OF assms(11)]
      shown_runs [OF assms(12)] by simp
  have reas: "sent_reasoning chunks = concat dr"
    unfolding sent_reasoning_def c(2) choices_sum map_append concat_append shown_runs [OF assms(10)] shown_runs [OF assms(11)]
      shown_runs [OF assms(12)] by simp
  have fields: "map g (map2 (reported f) ds qs) = map g qs"
    if "length ds = length qs" "\<And>d r. g (reported f d r) = g r" for g :: "result_dict \<Rightarrow> 'x" and f ds qs
    by (rule map_map2 [OF that(1)]) (rule that(2))
  have kept: "rs_finished (reported f d r) = rs_finished r" "rs_ids (reported f d r) = rs_ids r" for f d r
    by (simp_all add: reported_def)
  have finish: "sent_finish chunks = [finish_reason rq (length (concat (map rs_ids (received evs)))) (last (received evs))]"
  proof (rule same_finish [OF c(2) send en])
    show "map rs_finished ?outs = map rs_finished (received evs)"
      unfolding assms(4) map_append fields [of dh hs rs_finished, OF assms(10) kept(1)] fields [of dr rs rs_finished, OF assms(11) kept(1)]
        fields [of dc cs rs_finished, OF assms(12) kept(1)] by (simp add: kept)
    show "map rs_ids ?outs = map rs_ids (received evs)"
      unfolding assms(4) map_append fields [of dh hs rs_ids, OF assms(10) kept(2)] fields [of dr rs rs_ids, OF assms(11) kept(2)]
        fields [of dc cs rs_ids, OF assms(12) kept(2)] by (simp add: kept)
    show "rs_error_msg (last ?outs) = rs_error_msg (last (received evs))" unfolding assms(4) by simp
  qed
  obtain s r where f: "collect_events P rq evs (init_full st) = (Inr (Some r), s)" "collected P rq rid (received evs) (init_full st) s r"
    using collect_events_ok [OF en assms(5,7), of P rq "init_full st"] by blast
  have joined: "concat (fst ?D) = head_text @ concat dr @ think_end @ (concat dc @ dl)"
    using assms(9,13) unfolding assms(4) by simp
  have r: "r = set_whole (Some p) (concat (fst ?D)) l" "fs_status s = snd ?D" "fs_tokens s = length (concat (map rs_ids (received evs)))"
    using f(2) assms(2,8) unfolding collected_def assms(4) by (simp_all add: init_full_def text_before_def)
  obtain a where a: "rp_whole p (concat (fst ?D)) = (Some (concat dr), a)" "or_empty a = concat dc @ dl"
    using whole_reasoning [OF assms(14), of "concat dc @ dl"] whole [OF assms(14), of "concat dc @ dl"] unfolding joined
    by (metis prod.collapse)
  have "rs_text r = a" "rs_reasoning r = Some (concat dr)" using a(1) unfolding r(1) set_whole_def by simp_all
  moreover have "finish_reason rq (fs_tokens s) r = finish_reason rq (length (concat (map rs_ids (received evs)))) (last (received evs))"
    unfolding r(1,3) assms(4) by (rule finish_reason_cong) simp
  ultimately show ?thesis
    using c(1) f(1) r(2) content reas finish a(2) by (simp add: chat_full_def)
qed

end

subsection \<open>The parsers that keep it\<close>

lemma find_head: "is_tag tag \<Longrightarrow> str_find tag (tag @ ys) = Some 0"
  using find_tag [of tag "[]" ys] by (cases tag) (simp_all add: is_tag_def)

interpretation qwen3: tag_parser "qwen3_parser (Some start_id) end_id" "[[start_id]]" think_start end_id "{start_id, end_id}"
  for start_id end_id
proof
  fix r c :: string assume r: "\<not> sublist think_end r"
  have w: "qwen3_whole (think_start @ r @ think_end @ c) = (Some r, if c = [] then None else Some c)"
  proof -
    have "str_in think_end (think_start @ r @ think_end @ c)" using str_in_tag [of think_end "think_start @ r" c] by simp
    moreover have "str_in think_start (think_start @ r @ think_end @ c)" using find_head [of think_start] by (simp add: str_in_def)
    moreover have "py_partition think_start (think_start @ r @ think_end @ c) = ([], think_start, r @ think_end @ c)"
      using find_head [of think_start] by (simp add: py_partition_def)
    ultimately show ?thesis using partition_tag [OF think_tags(2) r] by (simp add: qwen3_whole_def)
  qed
  show "or_empty a = c" if "rp_whole (qwen3_parser (Some start_id) end_id) (think_start @ r @ think_end @ c) = (Some r, a)" for a
    using that w by (auto simp: qwen3_parser_def or_empty_def split: if_splits)
  show "fst (rp_whole (qwen3_parser (Some start_id) end_id) (think_start @ r @ think_end @ c)) = Some r"
    using w by (simp add: qwen3_parser_def)
qed (auto simp: qwen3_parser_def qwen3_streaming_def Let_def to_reasoning_def to_content_def)

interpretation ernie_vl: tag_parser "ernie_vl_parser end_id" "[]" "[]" end_id "{end_id}" for end_id
proof
  fix r c :: string assume r: "\<not> sublist think_end r"
  have w: "ernie_vl_whole ([] @ r @ think_end @ c) = (Some r, Some c)"
    using partition_tag [OF think_tags(2) r] by (simp add: ernie_vl_whole_def)
  show "or_empty a = c" if "rp_whole (ernie_vl_parser end_id) ([] @ r @ think_end @ c) = (Some r, a)" for a
    using that w by (auto simp: ernie_vl_parser_def or_empty_def)
  show "fst (rp_whole (ernie_vl_parser end_id) ([] @ r @ think_end @ c)) = Some r" using w by (simp add: ernie_vl_parser_def)
qed (auto simp: ernie_vl_parser_def ernie_vl_streaming_def to_reasoning_def to_content_def)

end
