(* ===== verification/ChatClaims.thy ===== *)
theory ChatClaims
  imports ChatResponseProps RequestData
begin

text \<open>A stream and a whole answer agree where no parser splits the text or the tags come alone; what goes wrong elsewhere.\<close>



text \<open>The same for the parser of Qwen3, with a result of its own for each tag.\<close>

lemma qwen3_stream_adds_up:
  assumes "start_id \<noteq> end_id" "pr_family P \<noteq> General" "parser_for P (thinking_of rq) = Some (qwen3_parser (Some start_id) end_id)"
    "in_order {start_id, end_id} [[start_id]] end_id [h] rs e cs l" "received evs = [h] @ rs @ [e] @ cs @ [l]"
    "\<forall>r \<in> set (received evs). rs_error_code r = 200 \<and> rs_id r = rid" "rs_first_time (hd (received evs))" "Waited False \<notin> set evs"
    "st rid = None" "fst (decode_run P (cr_include_stop rq) (received evs) st) = [think_start] @ dr @ [think_end] @ dc @ [dl]"
    "length dr = length rs" "length dc = length cs" "\<not> sublist think_end (concat dr)"
  shows "\<exists>chunks ans st1. chat_stream P rq evs st = ((chunks, True), st1) \<and> chat_full P rq evs st = (Inr (Some ans), st1) \<and>
    or_empty (ca_content ans) = sent_content chunks \<and> ca_reasoning ans = Some (sent_reasoning chunks) \<and>
    sent_finish chunks = [ca_finish ans]"
  by (rule qwen3.stream_splits [OF assms(2-10) _ assms(11,12) _ assms(13)]) simp_all

subsection \<open>Models other than Ernie\<close>

text \<open>The dictionary of a result has no key for tool calls; the processor of these models does not add it.\<close>

lemma no_tool_calls_key: "map_of (completion_to_dict c) ''tool_calls'' = None"
  by (simp add: completion_to_dict_def)

lemma stream_waits:
  assumes "\<forall>e \<in> set ws. e = Waited True" "cs_open s = 1"
  shows "\<exists>w. stream_events P rq (ws @ evs) s = stream_events P rq evs (s\<lparr>cs_waiting := w\<rparr>)"
  using assms
proof (induction ws arbitrary: s)
  case Nil
  then show ?case by (intro exI [of _ "cs_waiting s"]) simp
next
  case (Cons e ws)
  have e: "e = Waited True" using Cons.prems(1) by simp
  obtain w where w: "stream_event P rq (Waited True) s = (Inr (), s\<lparr>cs_waiting := w\<rparr>)" using wait_event by blast
  show ?case using Cons.IH [of "s\<lparr>cs_waiting := w\<rparr>"] w Cons.prems unfolding e by simp
qed

text \<open>A chat stream of a text model other than Ernie ends with its first result, unless a reasoning parser raises on it: the results the engine sends have no entry for tool calls, the
  processor of these models does not add one, and reading it raises, so that the client is sent the role, an error and the end.\<close>

theorem general_stream_fails:
  assumes "pr_family P = General"
    "\<forall>p old d every. parser_for P (thinking_of rq) = Some p \<longrightarrow>
       (\<exists>m. rp_streaming p old d every (without_eos (pr_tokenizer P) (cr_include_stop rq) r) = Inr m)"
    "\<forall>e \<in> set ws. e = Waited True" "evs = ws @ Got (r # rs) # es"
    "rs_error_code r = 200" "rs_first_time r" "\<not> rs_tool_calls r"
  shows "fst (chat_stream P rq evs st) =
    ([RoleChunk (if cr_continuous_usage rq then Some (length (cr_prompt rq), 0) else None), ErrorChunk KeyError, Done], True)"
proof -
  obtain w where w: "stream_events P rq evs (init_chat st) = stream_events P rq (Got (r # rs) # es) ((init_chat st)\<lparr>cs_waiting := w\<rparr>)"
    using stream_waits [OF assms(3), of "init_chat st" P rq "Got (r # rs) # es"] unfolding assms(4) init_chat_def by auto
  obtain d pre old st1 where i: "ids2tokens (pr_tokenizer P) (without_eos (pr_tokenizer P) (cr_include_stop rq) r) (rs_id r) st = ((d, pre, old), st1)"
    by (metis prod.exhaust)
  obtain r1 st2 where p: "process_streaming P (thinking_of rq) (cr_include_stop rq) r st = (Inr r1, st2)" "\<not> rs_tool_calls r1"
  proof (cases "if rs_finished r then None else parser_for P (thinking_of rq)")
    case None
    then show ?thesis using that i assms(1,7) by (simp add: process_streaming_def Let_def fresh_outputs_def)
  next
    case (Some p)
    then have "parser_for P (thinking_of rq) = Some p" by (simp split: if_splits)
    then obtain m where "rp_streaming p old d pre (without_eos (pr_tokenizer P) (cr_include_stop rq) r) = Inr m" using assms(2) by blast
    then show ?thesis using that i Some assms(1,7)
      by (cases m) (simp_all add: process_streaming_def Let_def fresh_outputs_def set_delta_def)
  qed
  show ?thesis
    using assms(1,5,6) p unfolding chat_stream_def w
    by (simp add: init_chat_def stream_event_def send_reply_def send_role_def andthen_def Let_def)
qed

subsection \<open>Several tokens in one result\<close>

text \<open>The list of previous tokens is extended before the parser sees it, so that a first result with the opening tag and more tokens
  is taken for reasoning that goes on: the client is sent the tag as part of the reasoning, which the parser removes when it is shown the
  tokens that really came before.\<close>

theorem start_tag_leaks:
  assumes "parser_for P thinking = Some (qwen3_parser (Some start_id) end_id)" "\<not> rs_finished r"
    "start_id \<in> set (rs_ids r)" "end_id \<notin> set (rs_ids r)" "1 < length (rs_ids r)" "st (rs_id r) = None"
    "fst (tk_decode (pr_tokenizer P) (rs_ids r) 0 0) = think_start @ d"
  shows "\<exists>r1 st1. process_streaming P thinking inc r st = (Inr r1, st1) \<and> rs_reasoning r1 = Some (think_start @ d) \<and>
    rp_streaming (qwen3_parser (Some start_id) end_id) [] (think_start @ d) [] (rs_ids r) =
      Inr (Some \<lparr>dm_reasoning = Some d, dm_content = Some []\<rparr>)"
proof -
  have len: "length (rs_ids r) \<noteq> 1" using assms(5) by simp
  have cut: "py_slice (py_find think_start (think_start @ d) + int (length think_start)) (int (length (think_start @ d))) (think_start @ d) = d"
    using find_head [of think_start d] by (simp add: py_find_def py_slice_def py_bound_def)
  show ?thesis using assms len cut
    by (auto simp: process_streaming_def ids2tokens_def Let_def new_decoding_def qwen3_parser_def qwen3_streaming_def fresh_outputs_def
        set_delta_def or_empty_def split: prod.split family.split)
qed

text \<open>A result with both tags of Qwen3, or with the tag of Ernie VL and another token, ends a chat stream with an error when its parser
  is on.\<close>

theorem tags_in_one_result_fail:
  assumes "parser_for P (thinking_of rq) = Some (qwen3_parser (Some start_id) end_id) \<and> start_id \<in> set (rs_ids r) \<and> start_id \<noteq> end_id \<or>
    parser_for P (thinking_of rq) = Some (ernie_vl_parser end_id) \<and> rs_ids r \<noteq> [end_id]"
    "end_id \<in> set (rs_ids r)" "rs_error_code r = 200" "\<not> rs_finished r"
  shows "fst (chat_stream P rq (Got (r # rs) # es) st) = ([ErrorChunk AttributeError, Done], True)"
proof -
  obtain d pre old st1 where i: "ids2tokens (pr_tokenizer P) (rs_ids r) (rs_id r) st = ((d, pre, old), st1)" by (metis prod.exhaust)
  have len: "length (rs_ids r) \<noteq> 1" if "start_id \<in> set (rs_ids r)" "start_id \<noteq> end_id"
    using that assms(2) by (auto simp: length_Suc_conv)
  have "process_streaming P (thinking_of rq) (cr_include_stop rq) r st = (Inl AttributeError, st1)"
    using assms i len by (auto simp: process_streaming_def Let_def parser_fields qwen3_streaming_def ernie_vl_streaming_def)
  then show ?thesis using assms(3) by (simp add: chat_stream_def init_chat_def stream_event_def send_reply_def andthen_def)
qed

subsection \<open>Examples\<close>

definition toy_word :: "token \<Rightarrow> string" where
  "toy_word i = (if i = 1 then think_start else if i = 2 then think_end else ''w'')"

definition toy_tokenizer :: tokenizer where
  "toy_tokenizer = \<lparr>tk_eos = 9, tk_decode = (\<lambda>ids p r. (concat (map toy_word (drop r ids)), r, length ids))\<rparr>"

definition toy_processor :: "family \<Rightarrow> reasoning_parser option \<Rightarrow> processor" where
  "toy_processor f p = \<lparr>pr_family = f, pr_tokenizer = toy_tokenizer, pr_parser = p\<rparr>"

definition toy_request :: chat_request where
  "toy_request =
     \<lparr>cr_max_tokens = None, cr_max_completion = Some 8, cr_template_thinking = Some True, cr_metadata_thinking = None, cr_include_stop = False,
      cr_include_usage = True, cr_continuous_usage = False, cr_chunk_size = 2, cr_return_ids = False, cr_prompt = [4, 4]\<rparr>"

definition piece :: "token list \<Rightarrow> bool \<Rightarrow> result_dict" where
  "piece ids finished =
     \<lparr>rs_id = ''a'', rs_ids = ids, rs_finished = finished, rs_error_code = 200, rs_error_msg = None, rs_first_time = True, rs_send_idx = 0,
      rs_text = None, rs_reasoning = None, rs_raw = None, rs_buffering = None, rs_tool_calls = False\<rparr>"

lemmas toy_defs = toy_processor_def toy_request_def piece_def toy_tokenizer_def toy_word_def

lemma toy_thinking [simp]: "thinking_of toy_request = Some True"
  by (simp add: thinking_of_def toy_request_def)




theorem general_stream_fails_witness:
  "fst (chat_stream (toy_processor General None) toy_request [Waited True, Got [piece [5] False]] Map.empty) =
    ([RoleChunk None, ErrorChunk KeyError, Done], True)"
proof -
  have p: "pr_family (toy_processor General None) = General" "parser_for (toy_processor General None) (thinking_of toy_request) = None"
    "\<forall>e \<in> set [Waited True]. e = Waited True" "[Waited True, Got [piece [5] False]] = [Waited True] @ Got (piece [5] False # []) # []"
    by (simp_all add: toy_processor_def parser_for_def)
  have q: "\<forall>p old d every. parser_for (toy_processor General None) (thinking_of toy_request) = Some p \<longrightarrow>
    (\<exists>m. rp_streaming p old d every
       (without_eos (pr_tokenizer (toy_processor General None)) (cr_include_stop toy_request) (piece [5] False)) = Inr m)"
    unfolding p(2) by simp
  show ?thesis using general_stream_fails [OF p(1) q p(3,4)] by (simp add: toy_request_def piece_def)
qed

theorem start_tag_leaks_witness:
  "\<exists>r1 st1. process_streaming (toy_processor Ernie (Some (qwen3_parser (Some 1) 2))) (Some True) False (piece [1, 5] False) Map.empty = (Inr r1, st1) \<and>
    rs_reasoning r1 = Some ''<think>w''"
proof -
  let ?P = "toy_processor Ernie (Some (qwen3_parser (Some 1) 2))"
  have "fst (tk_decode (pr_tokenizer ?P) [1, 5] 0 0) = think_start @ ''w''" by code_simp
  then have d: "fst (tk_decode (pr_tokenizer ?P) (rs_ids (piece [1, 5] False)) 0 0) = think_start @ ''w''" by (simp add: piece_def)
  have "parser_for ?P (Some True) = Some (qwen3_parser (Some 1) 2)"
    by (simp_all add: toy_processor_def parser_for_def)
  note leak = start_tag_leaks [OF this, of "piece [1, 5] False" Map.empty "''w''" False]
  have "\<not> rs_finished (piece [1, 5] False)" "1 \<in> set (rs_ids (piece [1, 5] False))" "2 \<notin> set (rs_ids (piece [1, 5] False))"
    "1 < length (rs_ids (piece [1, 5] False))" by (simp_all add: piece_def)
  with leak d have "\<exists>r1 st1. process_streaming ?P (Some True) False (piece [1, 5] False) Map.empty = (Inr r1, st1) \<and>
    rs_reasoning r1 = Some (think_start @ ''w'')" by blast
  then show ?thesis by (simp add: think_start_def)
qed

theorem tags_in_one_result_fail_witness:
  "fst (chat_stream (toy_processor Ernie (Some (ernie_vl_parser 2))) toy_request [Got [piece [5, 2] False]] Map.empty) =
    ([ErrorChunk AttributeError, Done], True)"
proof -
  have "parser_for (toy_processor Ernie (Some (ernie_vl_parser 2))) (thinking_of toy_request) = Some (ernie_vl_parser 2)"
    by (simp add: toy_processor_def parser_for_def)
  then show ?thesis
    using tags_in_one_result_fail [of "toy_processor Ernie (Some (ernie_vl_parser 2))" toy_request 1 2 "piece [5, 2] False" "[]" "[]" Map.empty]
    by (simp add: piece_def)
qed

end
