(* ===== verification/Spec2Isabelle.thy ===== *)
theory Spec2Isabelle
  imports SchedulerV1Faults WireProps LocalSchedulerClaims QueueClaims EngineLoopProps ChunkPlanProps
    ExpertBalanceProps ApiSchedulerProps InferSchedulerProps GlobalSystem Workers
    PlainEngineClaims SplitClaims TransferPool CacheMessagerProps ChatClaims
begin

text \<open>
  The serving core of FastDeploy, as it is under \<open>fastdeploy/\<close>: how a request travels from the front end to a batch slot
  of the workers, which cache blocks it holds on the way, and how its tokens come back as results.

  \<^bold>\<open>The parts and how they interact.\<close> A request is built from its parameters, checked and, between processes, written
  to and read from dictionaries. A scheduler queues it and hands it to the engine as far as blocks and the token
  budget allow. The engine gives it a slot and cache blocks through one of two resource managers: the first
  admits a request for its whole life, the second (\<open>v1\<close>) plans every step, grows block tables and preempts. With
  prefix caching both take the blocks from the prefix cache, a radix tree over hashed token blocks with
  reference counts and eviction. Tasks reach the workers over a shared queue every worker reads; swapping of
  blocks is queued to the transfer processes in the same manner. The token processor reads the sampled
  tokens of every slot, makes results of them and gives slots and blocks back. The engine loop composes them: it fetches
  requests, plans a step, puts it on the queue of the workers and hands results to the scheduler. Two planners
  stand apart: the cutting of prompts into chunks, and the placing of the replicas of experts on the GPUs. Instances that
  prefill for others and instances that decode exchange tasks, the places of cache blocks and first tokens through a connector. For a cluster of instances
  another scheduler takes the place of the local one: its front half chooses the instances that prefill and decode a
  request by the load they report, its other half runs in each instance and sends the results back. The global scheduler
  is a third kind: nodes with queues in a store they share take requests from each other when they have none. What a chat client reads is
  made of the results by a processor, which decodes tokens and asks a parser for the reasoning in them, and by two generators, one for a
  client that reads a stream and one for a client that waits for the whole answer.

  \<^bold>\<open>Theories.\<close>
  \<^item> \<open>FDPrelude\<close>: outcomes of Python methods (a result or an exception, and the state), lemmas on blocks and lists;
    \<open>PySeq\<close>, \<open>PyValue\<close>: Python indexing, slicing and the values a dictionary carries.
  \<^item> \<open>CacheData\<close>, \<open>BlockPool\<close>, \<open>PrefixCache\<close>, \<open>PrefixCacheOps\<close>, \<open>PrefixCacheEvict\<close>: \<open>cache_manager/cache_data.py\<close>,
    \<open>cache_metrics.py\<close> and \<open>prefix_cache_manager.py\<close>. Nodes are records in a list, a reference is an index;
    the heaps of free blocks and of leaves are the lists of their elements. Then \<open>PrefixCacheInv\<close>, \<open>PrefixCacheWalk\<close>,
    \<open>PrefixCacheBuild\<close>, \<open>PrefixCacheRequest\<close>, \<open>PrefixCacheSafety\<close>, \<open>PrefixCacheReach\<close>, \<open>PrefixCacheRelease\<close>,
    \<open>PrefixCacheEvictKeep\<close> and \<open>PrefixCacheLookup\<close> prove the invariant of the tree and of the block account for
    each operation, and \<open>PrefixCacheProps\<close> states what follows in every reachable state.
  \<^item> \<open>EngineRequest\<close>, \<open>ResourceManager\<close>, \<open>ResourceManagerProps\<close>: the fields of \<open>engine/request.py\<close> the schedulers use and
    \<open>engine/resource_manager.py\<close>.
  \<^item> \<open>SchedulerV1\<close> and \<open>SchedulerV1Frame\<close>, \<open>SchedulerV1Props\<close>, \<open>SchedulerV1Blocks\<close>, \<open>SchedulerV1Slots\<close>,
    \<open>SchedulerV1Tidy\<close>, \<open>SchedulerV1Claims\<close>, \<open>SchedulerV1Faults\<close>: \<open>engine/sched/resource_manager_v1.py\<close>; the state extends the record of the first manager.
    \<open>SchedulerV1Tidy\<close> shows that the running requests are distinct and that only they hold blocks.
  \<^item> \<open>SamplingParams\<close>, \<open>RequestData\<close>, \<open>SchedulerData\<close>, \<open>WireProps\<close>: \<open>engine/sampling_params.py\<close>, the conversions of
    \<open>engine/request.py\<close> and \<open>scheduler/data.py\<close>.
  \<^item> \<open>LocalScheduler\<close>, \<open>LocalSchedulerProps\<close>, \<open>LocalSchedulerClaims\<close>: \<open>scheduler/local_scheduler.py\<close>.
  \<^item> \<open>EngineQueues\<close>, \<open>CacheQueue\<close>, \<open>QueueClaims\<close>: \<open>inter_communicator/engine_worker_queue.py\<close> and
    \<open>engine_cache_queue.py\<close>.
  \<^item> \<open>TokenProcessor\<close>, \<open>TokenProcessorProps\<close>: \<open>output/token_processor.py\<close>.
  \<^item> \<open>EngineLoop\<close>, \<open>EngineLoopProps\<close>: the threads of \<open>engine/common_engine.py\<close> as steps on the state of the resource manager,
    the token processor, the local scheduler and the worker queue; \<open>ChunkPlan\<close>, \<open>ChunkPlanProps\<close>: \<open>update_requests_chunk_size\<close>.
  \<^item> \<open>SplitConnector\<close>: \<open>splitwise/splitwise_connector.py\<close>; \<open>PlainEngine\<close>, \<open>PlainOutput\<close>: the threads of \<open>engine/common_engine.py\<close> and
    \<open>output/token_processor.py\<close> with the first resource manager. \<open>PlainEngineProps\<close> shows that what fits is inserted, \<open>PlainEngineRun\<close> that what a
    fetch hands out fits, \<open>PlainEngineClaims\<close> what runs of all threads guarantee, \<open>SplitClaims\<close> what becomes of a failed prefill.
  \<^item> \<open>TransferLoop\<close>, \<open>TransferPool\<close>: the loop and the threads of \<open>cache_manager/cache_transfer_manager.py\<close>, one process per rank, and their
    composition, in which every rank hands what it reads from the queue to the pool of its direction;
    \<open>CacheMessager\<close>, \<open>CacheMessagerProps\<close>: the thread of \<open>cache_manager/cache_messager.py\<close> that sends the cache layer by layer.
  \<^item> \<open>PyText\<close>, \<open>NodeInfo\<close>, \<open>ResultReader\<close>, \<open>ResultReaderProps\<close>, \<open>ApiScheduler\<close>, \<open>ApiSchedulerProps\<close>, \<open>InferScheduler\<close>,
    \<open>InferSchedulerProps\<close>: the classes of \<open>scheduler/splitwise_scheduler.py\<close>, requests and results as the dictionaries of
    \<open>RequestData\<close>; what the shared store is asked and answers are results and arguments.
  \<^item> \<open>SharedStore\<close>, \<open>MemStore\<close>, \<open>GlobalScheduler\<close>, \<open>GlobalSchedulerProps\<close>, \<open>GlobalSystem\<close>, \<open>Workers\<close>:
    \<open>scheduler/storage.py\<close>, \<open>scheduler/global_scheduler.py\<close> and \<open>scheduler/workers.py\<close>. The commands of the server are a
    parameter; \<open>redis_laws\<close> states what is documented of them, and \<open>MemStore\<close> is a server that satisfies it.
    \<open>GlobalSystem\<close> lets any number of nodes take their steps in any order.
  \<^item> \<open>ExpertBalance\<close>, \<open>ExpertBalanceProps\<close>: \<open>worker/eplb.py\<close>, one row of each array at a time.
  \<^item> \<open>ReasoningParsers\<close>: operations on strings and the three parsers of \<open>reasoning/\<close>; \<open>ResponseText\<close>: from tokens to text in
    \<open>input/ernie4_5_processor.py\<close> and \<open>input/text_processor.py\<close>; \<open>ChatResponse\<close>: the two generators of
    \<open>entrypoints/openai/serving_chat.py\<close>. \<open>ChatResponseProps\<close> follows a run of results through both generators,
    \<open>ChatClaims\<close> compares what they give.

  \<^bold>\<open>Interfaces.\<close> \<open>block_pool\<close> (locale in \<open>BlockPool\<close>) is what a pool of free blocks promises; it is interpreted on the GPU and
  the CPU pool of the prefix cache. \<open>fifo_front\<close> is what the engine relies on from a scheduler, interpreted on the
  local scheduler and on the front half of the one for clusters. \<open>broadcast\<close> is a queue that every client reads once, interpreted on the tasks and the cache
  information of the worker queue and on the swap tasks. \<open>tag_parser\<close> (in \<open>ChatResponseProps\<close>) is what a parser of reasoning promises when its tags come
  as results of their own, interpreted on the parsers of Qwen3 and of Ernie VL.

  \<^bold>\<open>What is shown.\<close> Each claim states its scope; in short: no cache block is lost or handed out twice, in the prefix cache without a CPU tier and,
  without prefix caching, in both resource managers and through the token processor; blocks on the path of a running request are not held by another
  cached node and not evicted; reference counts are exact for the first way of requesting; a served prompt is found again by \<open>match_block\<close>, and a cached
  block is reused for its own prefix only. Scheduling keeps order, token budget and
  batch size, and preemption ends. The local scheduler is first in, first out, never hands out more than fits,
  never raises, and hands out its head as soon as it fits. Shared queues deliver every task to every
  worker exactly once, transfer processes do not block each other unless a putter races, a swap is reported when every rank has done it, the cache of a
  request is told to be sent after all its layers as long as no write fails, and the engine loop keeps the account of blocks and never waits for a queue the workers have read.
  With the first resource manager, in an instance of the role \<open>mixed\<close> without prefix caching, every pass inserts what it fetched, workers read requests in the order of acceptance, and a request is in one slot
  until its last result waits.
  In a cluster requests go to live instances close to the least load, the load an instance reports is what its requests
  add up to, and results reach the reader of their request, first token first. Nodes that share a store neither lose nor copy
  requests, count what waits exactly, and send the results of stolen requests back, when the calls of the nodes do not overlap. Chunks cut every prompt without loss; the tables of experts are inverse to each other.
  Requests, completed parameters and results survive serialisation; the checks of parameters are
  exactly ranges of the fields, which are wider than the documented ones. Results of a request form one stream, and for Ernie models what a chat client reads in pieces adds up to the whole answer.
  Where the code fails to do this, a theorem shows a run, or a condition, under which it does.

  \<^bold>\<open>Loops and fuel.\<close> Loops are structural recursion or functions with a proved termination. The walks from a node of the tree to its
  root carry the number of nodes as fuel; in a well-formed tree they end before it runs out, which the invariants
  show. A Python loop that does not return is the value \<open>NoReturn\<close>; the
  planning of chunks is a \<open>partial_function\<close> whose value is \<open>None\<close> where the loops run for ever, and it is shown when they do.

  \<^bold>\<open>Assumptions.\<close> Operations of one object are atomic: the code holds a lock, or runs in one thread. Where it
  does not (a putter waiting for the swap queue) the steps are separate. Hashes of token blocks are a parameter,
  and where distinct prompts are told apart the hash is assumed injective on the blocks at hand. The time is an
  argument. The keys of the shared store are assumed not to expire
  between the operations considered. A call of a node of the global scheduler is one step on the store, although the code issues several commands:
  a reset that falls between the commands of another node's fetch is not among the runs, nor is \<open>update_config\<close>, which
  is modelled but leaves counts behind in the old load table. A wait for an empty queue ends with what \<open>blocked_read\<close> finds at the start of the wait.
  The tokenizer is a parameter, and no tool parser is configured. Python integers are unbounded; the bits of the swap queue are bits of an unbounded integer.

  \<^bold>\<open>Not modelled.\<close> Log lines, gauges, time stamps that only feed them, sockets and process start-up; layers,
  models, kernels and runners, which compute on tensors of a third-party framework; tokenisation, chat templates and image
  processing; log probabilities and tool calls of chat answers; how a node of the global scheduler finds its name and keeps it alive, the server of the shared store, the encoding of the messages between instances and the
  copying of blocks by device operators. With the first resource manager image prompts and speculative decoding are left out.
\<close>

end
